(* ===== verification/Prelude.thy ===== *)
theory Prelude
  imports
    Main
    "HOL-Library.AList"
    "HOL-Library.Multiset"
    "HOL-Library.Char_ord"
    "HOL-Library.List_Lexorder"
    "HOL-Library.Product_Lexorder"
    "HOL-Library.Option_ord"
    "HOL-Library.Word"
begin

text \<open>
  Shared vocabulary of the development.

  A Rust \<^verbatim>\<open>HashMap\<close> is an association list with distinct keys (\<open>AList.update\<close> inserts,
  \<open>AList.map_entry\<close> is a mutation through \<open>get_mut\<close>, \<open>AList.delete\<close> removes); the list order
  plays the part of the map's unspecified iteration order. A \<^verbatim>\<open>Result<T, E>\<close> is
  \<open>'e + 'a\<close> with \<open>Inl\<close> for the error. An instant (\<^verbatim>\<open>DateTime<Utc>\<close>) is an \<open>int\<close> of
  nanoseconds, a \<^verbatim>\<open>std::time::Duration\<close> a \<open>nat\<close> of nanoseconds. Strings are the UTF-8 bytes
  of the source's strings.
\<close>

named_theorems store_simps \<open>unfolding facts for the operations of the in-memory stores\<close>
named_theorems view_simps \<open>what a lookup returns after an operation\<close>

type_synonym instant = int
type_synonym dur = nat
type_synonym ('k, 'v) table = "('k \<times> 'v) list"
type_synonym u64 = "64 word"

abbreviation lookup :: "('k, 'v) table \<Rightarrow> 'k \<Rightarrow> 'v option" where
  "lookup \<equiv> map_of"

abbreviation keys :: "('k, 'v) table \<Rightarrow> 'k list" where
  "keys t \<equiv> map fst t"

section \<open>Errors as values\<close>

fun result_bind :: "'e + 'a \<Rightarrow> ('a \<Rightarrow> 'e + 'b) \<Rightarrow> 'e + 'b" where
  "result_bind (Inl e) f = Inl e"
| "result_bind (Inr a) f = f a"

lemma result_bind_Inr_iff [simp]:
  "result_bind r f = Inr b \<longleftrightarrow> (\<exists>a. r = Inr a \<and> f a = Inr b)"
  by (cases r) auto

lemma result_bind_Inl_iff:
  "result_bind r f = Inl e \<longleftrightarrow> r = Inl e \<or> (\<exists>a. r = Inr a \<and> f a = Inl e)"
  by (cases r) auto

section \<open>Tables\<close>

lemma keys_map_entry [simp]: "keys (AList.map_entry k f t) = keys t"
  by (induction t) auto

lemma lookup_map_entry [simp]:
  "lookup (AList.map_entry k f t) = (lookup t)(k := map_option f (lookup t k))"
  by (auto simp: fun_eq_iff map_of_map_entry split: option.splits)

lemma lookup_update [simp]: "lookup (AList.update k v t) = (lookup t)(k \<mapsto> v)"
  by (rule update_conv')

lemma lookup_delete [simp]: "lookup (AList.delete k t) = (lookup t)(k := None)"
  by (rule delete_conv')

lemma distinct_keys_update [intro]:
  "distinct (keys t) \<Longrightarrow> distinct (keys (AList.update k v t))"
  by (rule distinct_update)

lemma distinct_keys_delete [intro]:
  "distinct (keys t) \<Longrightarrow> distinct (keys (AList.delete k t))"
  by (rule distinct_delete)

lemma lookup_mem: "lookup t k = Some v \<Longrightarrow> (k, v) \<in> set t"
  by (rule map_of_SomeD)

lemma mem_lookup: "distinct (keys t) \<Longrightarrow> (k, v) \<in> set t \<longleftrightarrow> lookup t k = Some v"
  by (metis map_of_SomeD map_of_is_SomeI)

lemma vals_lookup:
  "distinct (keys t) \<Longrightarrow> v \<in> snd ` set t \<longleftrightarrow> (\<exists>k. lookup t k = Some v)"
  by (force simp flip: mem_lookup)

lemma lookup_None_keys: "lookup t k = None \<longleftrightarrow> k \<notin> set (keys t)"
  by (auto simp: map_of_eq_None_iff)

lemma lookup_filter_vals:
  "distinct (keys t) \<Longrightarrow>
   lookup [p \<leftarrow> t. P (snd p)] k = (case lookup t k of Some v \<Rightarrow> if P v then Some v else None | None \<Rightarrow> None)"
  by (induction t) (auto split: option.splits simp: map_of_eq_None_iff dest: map_of_SomeD)

lemma distinct_keys_filter [intro]: "distinct (keys t) \<Longrightarrow> distinct (keys (filter P t))"
  by (rule distinct_map_filter)

section \<open>Sorting and searching\<close>

text \<open>The least element of a nonempty list under a sort is its head.\<close>

lemma hd_sort_key_le:
  "x \<in> set xs \<Longrightarrow> f (hd (sort_key f xs)) \<le> f x"
proof -
  assume x: "x \<in> set xs"
  then obtain y ys where ys: "sort_key f xs = y # ys"
    by (metis list.exhaust set_sort empty_iff list.set(1))
  have "sorted (map f (y # ys))" by (metis ys sorted_sort_key)
  moreover have "x \<in> set (y # ys)" using x by (metis ys set_sort)
  ultimately show ?thesis by (auto simp: ys)
qed

lemma lex_le_fst: "p \<le> q \<Longrightarrow> fst (p :: 'a :: linorder \<times> 'b :: linorder) \<le> fst q"
  by (auto simp: less_eq_prod_def)

lemma distinct_map_sort_key: "distinct (map g (sort_key f xs)) \<longleftrightarrow> distinct (map g xs)"
  by (rule mset_eq_imp_distinct_iff) simp

lemma sort_key_Nil_iff [simp]: "sort_key f xs = [] \<longleftrightarrow> xs = []"
  by (metis set_empty set_sort)

lemma sorted_wrt_hd_filter:
  "sorted xs \<Longrightarrow> filter P xs = y # ys \<Longrightarrow> x \<in> set xs \<Longrightarrow> P x \<Longrightarrow> y \<le> x"
proof -
  assume a: "sorted xs" "filter P xs = y # ys" "x \<in> set xs" "P x"
  have "sorted (y # ys)" using a(1,2) by (metis sorted_wrt_filter)
  moreover have "x \<in> set (y # ys)" using a(3,4) by (simp flip: a(2))
  ultimately show "y \<le> x" by auto
qed

lemma Cons_eq_upt:
  assumes "xs = [Suc a ..< Suc a + length xs]"
  shows "a # xs = [a ..< a + length (a # xs)]"
proof -
  have "[a ..< a + length (a # xs)] = a # [Suc a ..< a + length (a # xs)]"
    by (rule upt_conv_Cons) simp
  with assms show ?thesis by simp
qed

section \<open>Saturating arithmetic on 64-bit words\<close>

definition u64_max :: nat where
  "u64_max = 18446744073709551615"

definition sat_add :: "u64 \<Rightarrow> u64 \<Rightarrow> u64" where
  "sat_add a b = (if unat a + unat b \<le> u64_max then a + b else - 1)"

definition sat_sub :: "u64 \<Rightarrow> u64 \<Rightarrow> u64" where
  "sat_sub a b = (if b \<le> a then a - b else 0)"

lemma unat_le_u64_max [simp]: "unat (w :: u64) \<le> u64_max"
  using unsigned_less [of w, where 'a = nat] by (simp add: u64_max_def)

lemma unat_minus_one_u64 [simp]: "unat (- 1 :: u64) = u64_max"
  by (simp add: u64_max_def unsigned_minus_1_eq_mask mask_eq_exp_minus_1)

lemma unat_sat_add: "unat (sat_add a b) = min (unat a + unat b) u64_max"
proof (cases "unat a + unat b \<le> u64_max")
  case True
  then have "unat (a + b) = unat a + unat b"
    by (subst unat_add_lem [THEN iffD1]) (simp_all add: u64_max_def)
  with True show ?thesis by (simp add: sat_add_def)
next
  case False
  then show ?thesis by (simp add: sat_add_def)
qed

lemma unat_sat_sub: "unat (sat_sub a b) = unat a - unat b"
  by (auto simp: sat_sub_def word_le_nat_alt unat_sub)

lemma sat_add_0_right [simp]: "sat_add a 0 = a"
  by (rule word_unat_eq_iff [THEN iffD2]) (simp add: unat_sat_add)

lemma sat_add_0_left [simp]: "sat_add 0 a = a"
  by (rule word_unat_eq_iff [THEN iffD2]) (simp add: unat_sat_add)

lemma sat_add_ge: "a \<le> sat_add a b"
  by (simp add: word_le_nat_alt unat_sat_add)

lemma sat_add_commute: "sat_add a b = sat_add b a"
  by (rule word_unat_eq_iff [THEN iffD2]) (simp add: unat_sat_add add.commute)

lemma sat_add_assoc: "sat_add (sat_add a b) c = sat_add a (sat_add b c)"
  by (rule word_unat_eq_iff [THEN iffD2]) (simp add: unat_sat_add)

section \<open>Text formatting of the standard library\<close>

fun show_nat :: "nat \<Rightarrow> string" where
  "show_nat n = (if n < 10 then [char_of (48 + n)] else show_nat (n div 10) @ [char_of (48 + n mod 10)])"

declare show_nat.simps [simp del]

definition show_int :: "int \<Rightarrow> string" where
  "show_int i = (if i < 0 then ''-'' @ show_nat (nat (- i)) else show_nat (nat i))"

definition quoted :: "string \<Rightarrow> string" where
  "quoted s = CHR 0x27 # s @ [CHR 0x27]"

text \<open>The \<^verbatim>\<open>Debug\<close> text of a \<^verbatim>\<open>std::time::Duration\<close>: its largest unit, the fraction without trailing zeros.\<close>

definition trim_zeros :: "string \<Rightarrow> string" where
  "trim_zeros s = rev (dropWhile (\<lambda>c. c = CHR ''0'') (rev s))"

definition pad_left :: "nat \<Rightarrow> string \<Rightarrow> string" where
  "pad_left w s = replicate (w - length s) (CHR ''0'') @ s"

definition fmt_decimal :: "nat \<Rightarrow> nat \<Rightarrow> nat \<Rightarrow> string \<Rightarrow> string" where
  "fmt_decimal whole frac width unit =
     show_nat whole @ (if frac = 0 then [] else ''.'' @ trim_zeros (pad_left width (show_nat frac))) @ unit"

definition debug_duration :: "dur \<Rightarrow> string" where
  "debug_duration d =
     (let secs = d div 1000000000; nanos = d mod 1000000000 in
      if secs > 0 then fmt_decimal secs nanos 9 ''s''
      else if nanos \<ge> 1000000 then fmt_decimal (nanos div 1000000) (nanos mod 1000000) 6 ''ms''
      else if nanos \<ge> 1000 then fmt_decimal (nanos div 1000) (nanos mod 1000) 3 [CHR 0xC2, CHR 0xB5, CHR ''s'']
      else fmt_decimal nanos 0 1 ''ns'')"

end
