(* ===== verification/Clock.thy ===== *)
theory Clock
  imports Prelude
begin

text \<open>
  Time: the \<^verbatim>\<open>Clock\<close> trait and \<^verbatim>\<open>ManualClock\<close> of \<^verbatim>\<open>adk-core/src/clock.rs\<close>.

  Date arithmetic belongs to the \<^verbatim>\<open>chrono\<close> crate, which is not part of the repository, so it is
  a parameter: a record of the functions the code calls, handed to every operation that uses
  them. A \<^verbatim>\<open>TimeDelta\<close> is an \<open>int\<close> of nanoseconds, a calendar date the number of its day.
  \<open>chrono_ok\<close> names the documented behaviour some properties rely on.
\<close>

record chrono =
  from_std :: "dur \<Rightarrow> int option"               \<comment> \<open>\<^verbatim>\<open>TimeDelta::from_std\<close>\<close>
  checked_add_signed :: "instant \<Rightarrow> int \<Rightarrow> instant option"
  num_nanoseconds :: "int \<Rightarrow> int option"
  delta_max :: int                             \<comment> \<open>\<^verbatim>\<open>TimeDelta::MAX\<close>\<close>
  max_utc :: instant                           \<comment> \<open>\<^verbatim>\<open>DateTime::<Utc>::MAX_UTC\<close>\<close>
  date_naive :: "instant \<Rightarrow> int"
  first_of_month :: "instant \<Rightarrow> int option"    \<comment> \<open>\<^verbatim>\<open>NaiveDate::from_ymd_opt(at.year(), at.month(), 1)\<close>\<close>
  midnight :: "int \<Rightarrow> instant"                 \<comment> \<open>\<^verbatim>\<open>day.and_time(NaiveTime::MIN).and_utc()\<close>\<close>
  rfc3339 :: "instant \<Rightarrow> string"               \<comment> \<open>\<^verbatim>\<open>to_rfc3339_opts(AutoSi, true)\<close>\<close>
  timestamp_micros :: "instant \<Rightarrow> int"
  from_timestamp_micros :: "int \<Rightarrow> instant option"

text \<open>Documented: conversions are exact where they succeed; dates and months are monotone in time and
  midnight belongs to its own day, a month starts with a day of its own; distinct instants have distinct RFC 3339 texts under \<^verbatim>\<open>AutoSi\<close>, and no such
  text ends with a colon followed by another one (its fields have fixed widths).\<close>

definition chrono_ok :: "chrono \<Rightarrow> bool" where
  "chrono_ok ch \<longleftrightarrow>
     (\<forall>d x. from_std ch d = Some x \<longrightarrow> x = int d) \<and>
     (\<forall>t x t'. checked_add_signed ch t x = Some t' \<longrightarrow> t' = t + x \<and> t' \<le> max_utc ch) \<and>
     (\<forall>x y. num_nanoseconds ch x = Some y \<longrightarrow> y = x \<and> x \<le> 9223372036854775807) \<and>
     (\<forall>x. num_nanoseconds ch x = None \<longrightarrow> 9223372036854775807 < \<bar>x\<bar>) \<and>
     (\<forall>s t. s \<le> t \<longrightarrow> date_naive ch s \<le> date_naive ch t) \<and>
     (\<forall>d. date_naive ch (midnight ch d) = d) \<and>
     (\<forall>t. \<exists>d. first_of_month ch t = Some d \<and> d \<le> date_naive ch t) \<and>
     (\<forall>s t a b. s \<le> t \<longrightarrow> first_of_month ch s = Some a \<longrightarrow> first_of_month ch t = Some b \<longrightarrow> a \<le> b) \<and>
     inj (rfc3339 ch) \<and>
     (\<forall>s t cs. rfc3339 ch s \<noteq> cs @ CHR '':'' # rfc3339 ch t)"

lemma chrono_okD:
  assumes "chrono_ok ch"
  shows chrono_from_std: "from_std ch d = Some x \<Longrightarrow> x = int d"
    and chrono_add: "checked_add_signed ch t x = Some t' \<Longrightarrow> t' = t + x \<and> t' \<le> max_utc ch"
    and chrono_nanos: "num_nanoseconds ch x = Some y \<Longrightarrow> y = x \<and> x \<le> 9223372036854775807"
    and chrono_nanos_None: "num_nanoseconds ch x = None \<Longrightarrow> 9223372036854775807 < \<bar>x\<bar>"
    and chrono_date_mono: "s \<le> t \<Longrightarrow> date_naive ch s \<le> date_naive ch t"
    and chrono_midnight: "date_naive ch (midnight ch dd) = dd"
    and chrono_month: "\<exists>d. first_of_month ch t = Some d \<and> d \<le> date_naive ch t"
    and chrono_month_mono: "s \<le> t \<Longrightarrow> first_of_month ch s = Some a \<Longrightarrow> first_of_month ch t = Some b \<Longrightarrow> a \<le> b"
    and chrono_rfc3339: "rfc3339 ch s = rfc3339 ch t \<longleftrightarrow> s = t"
    and chrono_rfc3339_suffix: "rfc3339 ch s \<noteq> cs @ CHR '':'' # rfc3339 ch t"
  using assms unfolding chrono_ok_def by (blast | (auto dest: injD)[1])+

text \<open>An instance of the parameter, for the witnesses: a calendar of 86400-second days and 30-day
  months, with the bounds of \<^verbatim>\<open>TimeDelta\<close> and of \<^verbatim>\<open>DateTime\<close>.\<close>

definition day_nanos :: int where "day_nanos = 86400000000000"

definition unary :: "int \<Rightarrow> string" where
  "unary t = (if t < 0 then CHR ''-'' # replicate (nat (- t)) CHR ''i'' else replicate (nat t) CHR ''i'')"

definition plain_chrono :: chrono where
  "plain_chrono = \<lparr>
     from_std = (\<lambda>d. if int d \<le> 9223372036854775807000000 then Some (int d) else None),
     checked_add_signed = (\<lambda>t x. if \<bar>t + x\<bar> \<le> 8210266876799999999999 then Some (t + x) else None),
     num_nanoseconds = (\<lambda>x. if \<bar>x\<bar> \<le> 9223372036854775807 then Some x else None),
     delta_max = 9223372036854775807000000,
     max_utc = 8210266876799999999999,
     date_naive = (\<lambda>t. t div day_nanos),
     first_of_month = (\<lambda>t. Some (t div day_nanos - (t div day_nanos) mod 30)),
     midnight = (\<lambda>d. d * day_nanos),
     rfc3339 = unary,
     timestamp_micros = (\<lambda>t. t div 1000),
     from_timestamp_micros = (\<lambda>m. Some (m * 1000))\<rparr>"

lemma inj_unary: "inj unary"
proof (rule injI)
  fix s t assume eq: "unary s = unary t"
  have "length (unary s) = length (unary t)" and "(s < 0) = (t < 0)"
  proof -
    show "length (unary s) = length (unary t)" by (simp add: eq)
    have neg: "u < 0 \<longleftrightarrow> CHR ''-'' \<in> set (unary u)" for u
      by (auto simp: unary_def)
    show "(s < 0) = (t < 0)" by (simp add: neg eq)
  qed
  then show "s = t" by (auto simp: unary_def split: if_splits)
qed

lemma plain_chrono_ok: "chrono_ok plain_chrono"
  unfolding chrono_ok_def
proof (intro conjI)
  show "\<forall>s t. s \<le> t \<longrightarrow> date_naive plain_chrono s \<le> date_naive plain_chrono t"
    by (simp add: plain_chrono_def day_nanos_def zdiv_mono1)
  have "d - d mod 30 \<le> e - e mod 30" if "d \<le> e" for d e :: int
    using zdiv_mono1 [OF that, of 30] by (simp add: minus_mod_eq_mult_div)
  then show "\<forall>s t a b. s \<le> t \<longrightarrow> first_of_month plain_chrono s = Some a \<longrightarrow> first_of_month plain_chrono t = Some b \<longrightarrow> a \<le> b"
    by (simp add: plain_chrono_def day_nanos_def zdiv_mono1)
  show "inj (rfc3339 plain_chrono)" by (simp add: plain_chrono_def inj_unary)
  have "CHR '':'' \<notin> set (unary s)" for s by (auto simp: unary_def)
  then show "\<forall>s t cs. rfc3339 plain_chrono s \<noteq> cs @ CHR '':'' # rfc3339 plain_chrono t"
    by (auto simp: plain_chrono_def) (metis in_set_conv_decomp)
qed (auto simp: plain_chrono_def day_nanos_def split: if_splits)

section \<open>The manual clock\<close>

record manual_clock = clock_now :: instant

definition manual_new :: "instant \<Rightarrow> manual_clock" where
  "manual_new at = \<lparr>clock_now = at\<rparr>"

definition manual_set :: "manual_clock \<Rightarrow> instant \<Rightarrow> manual_clock" where
  "manual_set c at = c\<lparr>clock_now := at\<rparr>"

definition manual_advance :: "chrono \<Rightarrow> manual_clock \<Rightarrow> dur \<Rightarrow> manual_clock" where
  "manual_advance ch c by =
     (let delta = (case from_std ch by of Some d \<Rightarrow> d | None \<Rightarrow> delta_max ch)
      in c\<lparr>clock_now := (case checked_add_signed ch (clock_now c) delta of
                           Some t \<Rightarrow> t | None \<Rightarrow> max_utc ch)\<rparr>)"

text \<open>An advance never moves the clock backwards, even where it saturates.\<close>

lemma manual_advance_mono:
  assumes "chrono_ok ch" and "clock_now c \<le> max_utc ch" and "0 \<le> delta_max ch"
  shows "clock_now c \<le> clock_now (manual_advance ch c by)"
    and "clock_now (manual_advance ch c by) \<le> max_utc ch"
  using assms(2,3)
  by (auto simp: manual_advance_def Let_def split: option.splits
      dest!: chrono_from_std [OF assms(1)] chrono_add [OF assms(1)])

end
