(* ===== verification/Adk_Error.thy ===== *)
theory Adk_Error
  imports Clock
begin

text \<open>
  The structured error envelope of \<^verbatim>\<open>adk-core/src/error.rs\<close>: component, category, stable code,
  message, retry hint and details. The boxed source error and the retry deadline (a process-local
  \<^verbatim>\<open>Instant\<close>) are carried only for logging and are left out; JSON metadata values are strings here.
\<close>

datatype error_component =
  Agent | Model | Tool | Session | Artifact | Memory | Graph | Realtime | Code | Server | Auth
  | Guardrail | Eval | Deploy

datatype error_category =
  InvalidInput | Unauthorized | Forbidden | NotFound | RateLimited | Timeout | Unavailable
  | ErrCancelled | Internal | Unsupported | ResourceExhausted | Conflict

fun component_name :: "error_component \<Rightarrow> string" where
  "component_name Agent = ''agent''"
| "component_name Model = ''model''"
| "component_name Tool = ''tool''"
| "component_name Session = ''session''"
| "component_name Artifact = ''artifact''"
| "component_name Memory = ''memory''"
| "component_name Graph = ''graph''"
| "component_name Realtime = ''realtime''"
| "component_name Code = ''code''"
| "component_name Server = ''server''"
| "component_name Auth = ''auth''"
| "component_name Guardrail = ''guardrail''"
| "component_name Eval = ''eval''"
| "component_name Deploy = ''deploy''"

fun category_name :: "error_category \<Rightarrow> string" where
  "category_name InvalidInput = ''invalid_input''"
| "category_name Unauthorized = ''unauthorized''"
| "category_name Forbidden = ''forbidden''"
| "category_name NotFound = ''not_found''"
| "category_name RateLimited = ''rate_limited''"
| "category_name Timeout = ''timeout''"
| "category_name Unavailable = ''unavailable''"
| "category_name ErrCancelled = ''cancelled''"
| "category_name Internal = ''internal''"
| "category_name Unsupported = ''unsupported''"
| "category_name ResourceExhausted = ''resource_exhausted''"
| "category_name Conflict = ''conflict''"

record retry_hint =
  should_retry :: bool
  retry_after_ms :: "nat option"
  hint_max_attempts :: "nat option"

definition default_hint :: retry_hint where
  "default_hint = \<lparr>should_retry = False, retry_after_ms = None, hint_max_attempts = None\<rparr>"

fun hint_for_category :: "error_category \<Rightarrow> retry_hint" where
  "hint_for_category RateLimited = default_hint\<lparr>should_retry := True\<rparr>"
| "hint_for_category Unavailable = default_hint\<lparr>should_retry := True\<rparr>"
| "hint_for_category Timeout = default_hint\<lparr>should_retry := True\<rparr>"
| "hint_for_category _ = default_hint"

text \<open>\<^verbatim>\<open>Duration::from_millis\<close> and \<^verbatim>\<open>as_millis() as u64\<close>, which keeps the low 64 bits.\<close>

definition retry_after :: "retry_hint \<Rightarrow> dur option" where
  "retry_after h = map_option (\<lambda>ms. ms * 1000000) (retry_after_ms h)"

definition with_retry_after :: "retry_hint \<Rightarrow> dur \<Rightarrow> retry_hint" where
  "with_retry_after h d = h\<lparr>retry_after_ms := Some ((d div 1000000) mod 2 ^ 64)\<rparr>"

record error_details =
  upstream_status_code :: "nat option"
  request_id :: "string option"
  provider :: "string option"
  metadata :: "(string, string) table"

definition default_details :: error_details where
  "default_details = \<lparr>upstream_status_code = None, request_id = None, provider = None, metadata = []\<rparr>"

record adk_error =
  component :: error_component
  category :: error_category
  code :: string
  message :: string
  retry :: retry_hint
  details :: error_details

type_synonym 'a result = "adk_error + 'a"

definition adk_error_new :: "error_component \<Rightarrow> error_category \<Rightarrow> string \<Rightarrow> string \<Rightarrow> adk_error" where
  "adk_error_new c cat cd msg =
     \<lparr>component = c, category = cat, code = cd, message = msg,
      retry = hint_for_category cat, details = default_details\<rparr>"

definition with_retry :: "adk_error \<Rightarrow> retry_hint \<Rightarrow> adk_error" where
  "with_retry e h = e\<lparr>retry := h\<rparr>"

definition with_details :: "adk_error \<Rightarrow> error_details \<Rightarrow> adk_error" where
  "with_details e d = e\<lparr>details := d\<rparr>"

definition with_upstream_status :: "adk_error \<Rightarrow> nat \<Rightarrow> adk_error" where
  "with_upstream_status e s = e\<lparr>details := (details e)\<lparr>upstream_status_code := Some s\<rparr>\<rparr>"

definition with_request_id :: "adk_error \<Rightarrow> string \<Rightarrow> adk_error" where
  "with_request_id e r = e\<lparr>details := (details e)\<lparr>request_id := Some r\<rparr>\<rparr>"

definition with_provider :: "adk_error \<Rightarrow> string \<Rightarrow> adk_error" where
  "with_provider e p = e\<lparr>details := (details e)\<lparr>provider := Some p\<rparr>\<rparr>"

definition adk_not_found :: "error_component \<Rightarrow> string \<Rightarrow> string \<Rightarrow> adk_error" where
  "adk_not_found c cd msg = adk_error_new c NotFound cd msg"

definition adk_rate_limited :: "error_component \<Rightarrow> string \<Rightarrow> string \<Rightarrow> adk_error" where
  "adk_rate_limited c cd msg = adk_error_new c RateLimited cd msg"

definition adk_unauthorized :: "error_component \<Rightarrow> string \<Rightarrow> string \<Rightarrow> adk_error" where
  "adk_unauthorized c cd msg = adk_error_new c Unauthorized cd msg"

definition adk_internal :: "error_component \<Rightarrow> string \<Rightarrow> string \<Rightarrow> adk_error" where
  "adk_internal c cd msg = adk_error_new c Internal cd msg"

definition adk_timeout :: "error_component \<Rightarrow> string \<Rightarrow> string \<Rightarrow> adk_error" where
  "adk_timeout c cd msg = adk_error_new c Timeout cd msg"

definition adk_unavailable :: "error_component \<Rightarrow> string \<Rightarrow> string \<Rightarrow> adk_error" where
  "adk_unavailable c cd msg = adk_error_new c Unavailable cd msg"

definition adk_legacy :: "error_component \<Rightarrow> string \<Rightarrow> adk_error" where
  "adk_legacy c msg = adk_error_new c Internal (component_name c @ ''.legacy'') msg"

definition adk_config :: "string \<Rightarrow> adk_error" where
  "adk_config msg = adk_error_new Server InvalidInput ''config.legacy'' msg"

definition is_config :: "adk_error \<Rightarrow> bool" where
  "is_config e \<longleftrightarrow> code e = ''config.legacy''"

definition is_unauthorized :: "adk_error \<Rightarrow> bool" where
  "is_unauthorized e \<longleftrightarrow> category e = Unauthorized"

definition is_rate_limited :: "adk_error \<Rightarrow> bool" where
  "is_rate_limited e \<longleftrightarrow> category e = RateLimited"

definition is_timeout :: "adk_error \<Rightarrow> bool" where
  "is_timeout e \<longleftrightarrow> category e = Timeout"

definition is_retryable :: "adk_error \<Rightarrow> bool" where
  "is_retryable e = should_retry (retry e)"

definition is_not_found :: "adk_error \<Rightarrow> bool" where
  "is_not_found e \<longleftrightarrow> category e = NotFound"

definition is_conflict :: "adk_error \<Rightarrow> bool" where
  "is_conflict e \<longleftrightarrow> category e = Conflict"

definition redacted :: "adk_error \<Rightarrow> string" where
  "redacted e = component_name (component e) @ ''.'' @ category_name (category e) @ '' ('' @ code e @ '')''"

text \<open>\<^verbatim>\<open>is_identifier\<close>: at most 128 bytes of letters, digits and \<open>_.-:\<close>.\<close>

definition ascii_alnum :: "char \<Rightarrow> bool" where
  "ascii_alnum c \<longleftrightarrow>
     (CHR ''0'' \<le> c \<and> c \<le> CHR ''9'') \<or> (CHR ''A'' \<le> c \<and> c \<le> CHR ''Z'') \<or> (CHR ''a'' \<le> c \<and> c \<le> CHR ''z'')"

definition is_identifier :: "string \<Rightarrow> bool" where
  "is_identifier v \<longleftrightarrow> v \<noteq> [] \<and> length v \<le> 128 \<and> (\<forall>c \<in> set v. ascii_alnum c \<or> c \<in> set ''_.-:'')"

definition opt_filter :: "('a \<Rightarrow> bool) \<Rightarrow> 'a option \<Rightarrow> 'a option" where
  "opt_filter P x = (case x of Some v \<Rightarrow> if P v then Some v else None | None \<Rightarrow> None)"

definition opt_text :: "string \<Rightarrow> string option \<Rightarrow> string" where
  "opt_text label x = (case x of Some v \<Rightarrow> label @ v | None \<Rightarrow> [])"

definition diagnostics :: "adk_error \<Rightarrow> string" where
  "diagnostics e =
     redacted e
     @ opt_text ''; status '' (map_option show_nat (upstream_status_code (details e)))
     @ opt_text ''; provider '' (opt_filter is_identifier (provider (details e)))
     @ opt_text ''; provider code '' (opt_filter is_identifier (lookup (metadata (details e)) ''provider_error_code''))
     @ opt_text ''; request id '' (opt_filter is_identifier (request_id (details e)))"

fun http_status_code_of :: "error_category \<Rightarrow> nat" where
  "http_status_code_of InvalidInput = 400"
| "http_status_code_of Unauthorized = 401"
| "http_status_code_of Forbidden = 403"
| "http_status_code_of NotFound = 404"
| "http_status_code_of RateLimited = 429"
| "http_status_code_of Timeout = 408"
| "http_status_code_of Unavailable = 503"
| "http_status_code_of ErrCancelled = 499"
| "http_status_code_of Internal = 500"
| "http_status_code_of Unsupported = 501"
| "http_status_code_of ResourceExhausted = 429"
| "http_status_code_of Conflict = 409"

definition http_status_code :: "adk_error \<Rightarrow> nat" where
  "http_status_code e = http_status_code_of (category e)"

section \<open>Facts\<close>

lemma adk_error_new_sel [simp]:
  "component (adk_error_new c cat cd msg) = c"
  "category (adk_error_new c cat cd msg) = cat"
  "code (adk_error_new c cat cd msg) = cd"
  "message (adk_error_new c cat cd msg) = msg"
  "retry (adk_error_new c cat cd msg) = hint_for_category cat"
  by (simp_all add: adk_error_new_def)

lemma hint_should_retry:
  "should_retry (hint_for_category cat) \<longleftrightarrow> cat \<in> {RateLimited, Unavailable, Timeout}"
  by (cases cat) (auto simp: default_hint_def)

lemma http_status_error_range: "http_status_code e \<in> {400..<600}"
  by (cases "category e") (auto simp: http_status_code_def)

text \<open>an error built from a category is retried exactly when its HTTP status is 408, 429 or 503,
  except that the caller's own limits (\<open>ResourceExhausted\<close>) share 429 and are not retried.\<close>

theorem retryable_status:
  "is_retryable (adk_error_new c cat cd msg) \<longleftrightarrow>
     http_status_code (adk_error_new c cat cd msg) \<in> {408, 429, 503} \<and> cat \<noteq> ResourceExhausted"
  by (cases cat) (auto simp: is_retryable_def http_status_code_def default_hint_def)

lemma opt_filter_Some: "opt_filter P x = Some v \<longleftrightarrow> x = Some v \<and> P v"
  by (auto simp: opt_filter_def split: option.splits)

section \<open>A diagnostics line carries no upstream text\<close>

definition line_char :: "char \<Rightarrow> bool" where
  "line_char c \<longleftrightarrow> ascii_alnum c \<or> c \<in> set ''_.-:;() ''"

lemma char_range:
  "CHR ''0'' \<le> c \<and> c \<le> CHR ''9'' \<longleftrightarrow> 48 \<le> (of_char c :: nat) \<and> (of_char c :: nat) \<le> 57"
  "CHR ''A'' \<le> c \<and> c \<le> CHR ''Z'' \<longleftrightarrow> 65 \<le> (of_char c :: nat) \<and> (of_char c :: nat) \<le> 90"
  "CHR ''a'' \<le> c \<and> c \<le> CHR ''z'' \<longleftrightarrow> 97 \<le> (of_char c :: nat) \<and> (of_char c :: nat) \<le> 122"
  by (auto simp: less_eq_char_def)

lemma show_nat_digits: "c \<in> set (show_nat n) \<Longrightarrow> ascii_alnum c"
proof (induction n rule: show_nat.induct)
  case (1 n)
  have digit: "ascii_alnum (char_of (48 + d))" if "d < 10" for d :: nat
    using that by (auto simp: ascii_alnum_def char_range of_char_of)
  from 1 show ?case
    by (subst (asm) show_nat.simps) (auto simp: digit split: if_splits)
qed

lemma component_name_plain: "\<forall>c \<in> set (component_name k). line_char c"
  by (induct k; code_simp)

lemma category_name_plain: "\<forall>c \<in> set (category_name cat). line_char c"
  by (induct cat; code_simp)

lemma identifier_plain: "is_identifier v \<Longrightarrow> c \<in> set v \<Longrightarrow> line_char c"
  by (auto simp: is_identifier_def line_char_def)

lemma opt_text_plain:
  "\<forall>c \<in> set label. line_char c \<Longrightarrow> \<forall>v. x = Some v \<longrightarrow> (\<forall>c \<in> set v. line_char c) \<Longrightarrow>
   c \<in> set (opt_text label x) \<Longrightarrow> line_char c"
  by (auto simp: opt_text_def split: option.splits)

lemma opt_text_filter_plain:
  "\<forall>c \<in> set label. line_char c \<Longrightarrow> c \<in> set (opt_text label (opt_filter is_identifier x)) \<Longrightarrow> line_char c"
  by (erule opt_text_plain [rotated 2]) (auto simp: opt_filter_Some intro: identifier_plain)

lemma labels_plain:
  "\<forall>c \<in> set ''; status ''. line_char c" "\<forall>c \<in> set ''; provider ''. line_char c"
  "\<forall>c \<in> set ''; provider code ''. line_char c" "\<forall>c \<in> set ''; request id ''. line_char c"
  by code_simp+

text \<open>whatever an upstream service put into an error's message or details, its diagnostics line
  holds only letters, digits, blanks and \<open>_.-:;()\<close>, so it can neither break the line nor smuggle
  markup or credentials in quotes into a log or a model's context.\<close>

theorem diagnostics_plain:
  assumes "is_identifier (code e)"
  shows "\<forall>c \<in> set (diagnostics e). line_char c"
proof
  fix c assume "c \<in> set (diagnostics e)"
  then consider "c \<in> set (redacted e)"
    | "c \<in> set (opt_text ''; status '' (map_option show_nat (upstream_status_code (details e))))"
    | "c \<in> set (opt_text ''; provider '' (opt_filter is_identifier (provider (details e))))"
    | "c \<in> set (opt_text ''; provider code '' (opt_filter is_identifier (lookup (metadata (details e)) ''provider_error_code'')))"
    | "c \<in> set (opt_text ''; request id '' (opt_filter is_identifier (request_id (details e))))"
    unfolding diagnostics_def set_append by blast
  then show "line_char c"
  proof cases
    case 1
    have "\<forall>c \<in> set (code e). line_char c" using identifier_plain [OF assms] by blast
    moreover have "\<forall>c \<in> set ''.''. line_char c" "\<forall>c \<in> set '' (''. line_char c" "\<forall>c \<in> set '')''. line_char c"
      by code_simp+
    ultimately have "\<forall>c \<in> set (redacted e). line_char c"
      using component_name_plain [of "component e"] category_name_plain [of "category e"]
      unfolding redacted_def set_append ball_Un by (intro conjI)
    then show ?thesis using 1 by blast
  next
    case 2
    have "\<forall>v. map_option show_nat x = Some v \<longrightarrow> (\<forall>c \<in> set v. line_char c)" for x
      by (auto simp: line_char_def dest: show_nat_digits)
    then show ?thesis using 2 labels_plain(1) by (rule opt_text_plain [rotated])
  next
    case 3
    with labels_plain(2) show ?thesis by (rule opt_text_filter_plain)
  next
    case 4
    with labels_plain(3) show ?thesis by (rule opt_text_filter_plain)
  next
    case 5
    with labels_plain(4) show ?thesis by (rule opt_text_filter_plain)
  qed
qed

definition leaky_error :: adk_error where
  "leaky_error = (adk_error_new Model Unavailable ''model.down'' ''secret body'')\<lparr>details :=
     default_details\<lparr>provider := Some ''evil provider <b>'', request_id := Some ''req-1''\<rparr>\<rparr>"

theorem diagnostics_plain_witness:
  "list_all line_char (diagnostics leaky_error)"
proof -
  have "is_identifier (code leaky_error)"
    by code_simp
  then show ?thesis unfolding list_all_iff by (rule diagnostics_plain)
qed

end
