(* ===== verification/Fencing.thy ===== *)
theory Fencing
  imports Adk_Error
begin

text \<open>
  The contract lease stores and run stores share. A store grants a resource (or a run) \<open>k\<close> at an
  epoch; a holder's writes carry the epoch they were granted at. \<open>stale s k e\<close> says epoch \<open>e\<close> of \<open>k\<close>
  was superseded, \<open>refused s k e\<close> that the store refuses every write carrying it. \<open>good\<close> is the
  store's invariant, \<open>admissible\<close> the condition on an operation in a state (a run store is handed an
  identifier it does not hold), \<open>avoids k\<close> excludes operations that would reuse the name \<open>k\<close>.
\<close>

locale fencing =
  fixes exec :: "'s \<Rightarrow> 'op \<Rightarrow> 's"
    and grant :: "'s \<Rightarrow> 'op \<Rightarrow> ('k \<times> nat) option"
    and stale :: "'s \<Rightarrow> 'k \<Rightarrow> nat \<Rightarrow> bool"
    and refused :: "'s \<Rightarrow> 'k \<Rightarrow> nat \<Rightarrow> bool"
    and good :: "'s \<Rightarrow> bool"
    and admissible :: "'s \<Rightarrow> 'op \<Rightarrow> bool"
    and avoids :: "'k \<Rightarrow> 'op \<Rightarrow> bool"
  assumes good_exec: "good s \<Longrightarrow> admissible s op \<Longrightarrow> good (exec s op)"
    and grant_stales: "good s \<Longrightarrow> grant s op = Some (k, e') \<Longrightarrow> e < e' \<Longrightarrow> stale (exec s op) k e"
    and stale_stays: "good s \<Longrightarrow> admissible s op \<Longrightarrow> avoids k op \<Longrightarrow> stale s k e \<Longrightarrow> stale (exec s op) k e"
    and stale_refused: "good s \<Longrightarrow> stale s k e \<Longrightarrow> refused s k e"
begin

fun legal :: "'s \<Rightarrow> 'op list \<Rightarrow> bool" where
  "legal s [] \<longleftrightarrow> True"
| "legal s (op # ops) \<longleftrightarrow> admissible s op \<and> legal (exec s op) ops"

lemma stale_history:
  "good s \<Longrightarrow> legal s ops \<Longrightarrow> \<forall>op \<in> set ops. avoids k op \<Longrightarrow> stale s k e \<Longrightarrow>
     good (foldl exec s ops) \<and> stale (foldl exec s ops) k e"
  by (induction ops arbitrary: s) (auto intro: stale_stays good_exec)

lemma superseded_refused:
  assumes "good s" and "grant s op = Some (k, e')" and "e < e'"
    and "legal s (op # ops)" and "\<forall>op \<in> set ops. avoids k op"
  shows "refused (foldl exec (exec s op) ops) k e"
proof -
  have "good (exec s op)" "stale (exec s op) k e"
    using assms by (auto intro: good_exec grant_stales)
  then show ?thesis
    using assms(4,5) stale_history [of "exec s op" ops k e] by (auto intro: stale_refused)
qed

end

end
