(* ===== verification/Lease.thy ===== *)
theory Lease
  imports Fencing
begin

text \<open>
  Leases with fencing epochs: \<^verbatim>\<open>adk-core/src/lease.rs\<close>. The store is the process-local
  \<^verbatim>\<open>InMemoryLeaseStore\<close>; its mutex makes each operation one atomic step, so an operation is a
  function from the slots (and the clock's reading) to a result and the new slots.
  Epochs move by one per grant and are unbounded here (a \<^verbatim>\<open>u64\<close> in the code).
\<close>

record lease =
  resource :: string
  lease_holder :: string
  epoch :: nat
  expires_at :: instant

record lease_slot =
  slot_lease :: lease
  released :: bool

type_synonym lease_store = "(string, lease_slot) table"

definition lease_stale_epoch_error :: "string \<Rightarrow> nat \<Rightarrow> adk_error" where
  "lease_stale_epoch_error res e =
     adk_error_new Agent Conflict ''lease.stale_epoch''
       (''lease on '' @ quoted res @ '' at epoch '' @ show_nat e
        @ '' is no longer held; stop work done under it and acquire the resource again'')"

definition deadline :: "chrono \<Rightarrow> instant \<Rightarrow> dur \<Rightarrow> string \<Rightarrow> instant result" where
  "deadline ch now ttl cd =
     (case (case from_std ch ttl of
              None \<Rightarrow> None
            | Some d \<Rightarrow> if ttl = 0 then None else checked_add_signed ch now d) of
        Some t \<Rightarrow> Inr t
      | None \<Rightarrow> Inl (adk_error_new Agent InvalidInput cd
                  (''time to live '' @ debug_duration ttl
                   @ '' must be greater than zero and fit in a timestamp'')))"

lemma deadline_Inr:
  assumes "chrono_ok ch" and "deadline ch now ttl cd = Inr t"
  shows "t = now + int ttl \<and> 0 < ttl"
  using assms(2) chrono_from_std [OF assms(1)] chrono_add [OF assms(1)]
  by (fastforce simp: deadline_def split: option.splits if_splits)

definition slot_live :: "instant \<Rightarrow> lease_slot \<Rightarrow> bool" where
  "slot_live now s \<longleftrightarrow> \<not> released s \<and> expires_at (slot_lease s) > now"

definition lease_acquire ::
    "chrono \<Rightarrow> instant \<Rightarrow> lease_store \<Rightarrow> string \<Rightarrow> string \<Rightarrow> dur \<Rightarrow> lease option result \<times> lease_store" where
  "lease_acquire ch now slots res owner ttl =
     (case deadline ch now ttl ''lease.invalid_ttl'' of
        Inl e \<Rightarrow> (Inl e, slots)
      | Inr exp \<Rightarrow>
          (let grant = (\<lambda>previous.
                 let l = \<lparr>resource = res, lease_holder = owner, epoch = previous + 1, expires_at = exp\<rparr>
                 in (Inr (Some l), AList.update res \<lparr>slot_lease = l, released = False\<rparr> slots))
           in case lookup slots res of
                None \<Rightarrow> grant 0
              | Some slot \<Rightarrow>
                  if slot_live now slot \<and> lease_holder (slot_lease slot) \<noteq> owner then (Inr None, slots)
                  else grant (epoch (slot_lease slot))))"

definition holds_lease :: "lease_slot \<Rightarrow> lease \<Rightarrow> bool" where
  "holds_lease s l \<longleftrightarrow>
     epoch (slot_lease s) = epoch l \<and> lease_holder (slot_lease s) = lease_holder l"

definition lease_renew ::
    "chrono \<Rightarrow> instant \<Rightarrow> lease_store \<Rightarrow> lease \<Rightarrow> dur \<Rightarrow> lease result \<times> lease_store" where
  "lease_renew ch now slots l ttl =
     (case deadline ch now ttl ''lease.invalid_ttl'' of
        Inl e \<Rightarrow> (Inl e, slots)
      | Inr exp \<Rightarrow>
          (case lookup slots (resource l) of
             Some s \<Rightarrow>
               if \<not> released s \<and> holds_lease s l
               then (let l' = (slot_lease s)\<lparr>expires_at := exp\<rparr>
                     in (Inr l', AList.update (resource l) (s\<lparr>slot_lease := l'\<rparr>) slots))
               else (Inl (lease_stale_epoch_error (resource l) (epoch l)), slots)
           | None \<Rightarrow> (Inl (lease_stale_epoch_error (resource l) (epoch l)), slots)))"

definition lease_release :: "lease_store \<Rightarrow> lease \<Rightarrow> lease_store" where
  "lease_release slots l =
     (case lookup slots (resource l) of
        Some s \<Rightarrow> if holds_lease s l then AList.update (resource l) (s\<lparr>released := True\<rparr>) slots else slots
      | None \<Rightarrow> slots)"

definition lease_current :: "instant \<Rightarrow> lease_store \<Rightarrow> string \<Rightarrow> lease option" where
  "lease_current now slots res =
     (case lookup slots res of
        Some s \<Rightarrow> if slot_live now s then Some (slot_lease s) else None
      | None \<Rightarrow> None)"


section \<open>Histories\<close>

text \<open>A history is the sequence of calls the mutex serialised, each with the clock reading it took.\<close>

datatype lease_op = Acquire instant string string dur | Renew instant lease dur | Release lease

fun lease_exec :: "chrono \<Rightarrow> lease_store \<Rightarrow> lease_op \<Rightarrow> lease_store" where
  "lease_exec ch slots (Acquire now res owner ttl) = snd (lease_acquire ch now slots res owner ttl)"
| "lease_exec ch slots (Renew now l ttl) = snd (lease_renew ch now slots l ttl)"
| "lease_exec ch slots (Release l) = lease_release slots l"

fun lease_grant :: "chrono \<Rightarrow> lease_store \<Rightarrow> lease_op \<Rightarrow> (string \<times> nat) option" where
  "lease_grant ch slots (Acquire now res owner ttl) =
     (case fst (lease_acquire ch now slots res owner ttl) of
        Inr (Some l) \<Rightarrow> Some (resource l, epoch l)
      | _ \<Rightarrow> None)"
| "lease_grant ch slots (Renew now l ttl) = None"
| "lease_grant ch slots (Release l) = None"

definition epoch_at :: "lease_store \<Rightarrow> string \<Rightarrow> nat" where
  "epoch_at slots res = (case lookup slots res of Some s \<Rightarrow> epoch (slot_lease s) | None \<Rightarrow> 0)"

lemma epoch_at_update [simp]:
  "epoch_at (AList.update k s slots) res = (if k = res then epoch (slot_lease s) else epoch_at slots res)"
  by (simp add: epoch_at_def)

lemma acquire_cases [consumes 0, case_names bad_ttl held granted]:
  obtains e where "deadline ch now ttl ''lease.invalid_ttl'' = Inl e"
      "lease_acquire ch now slots res owner ttl = (Inl e, slots)"
  | s exp where "deadline ch now ttl ''lease.invalid_ttl'' = Inr exp" "lookup slots res = Some s"
      "slot_live now s" "lease_holder (slot_lease s) \<noteq> owner"
      "lease_acquire ch now slots res owner ttl = (Inr None, slots)"
  | exp l where "deadline ch now ttl ''lease.invalid_ttl'' = Inr exp"
      "l = \<lparr>resource = res, lease_holder = owner, epoch = Suc (epoch_at slots res), expires_at = exp\<rparr>"
      "\<And>s. lookup slots res = Some s \<Longrightarrow> slot_live now s \<Longrightarrow> lease_holder (slot_lease s) = owner"
      "lease_acquire ch now slots res owner ttl
         = (Inr (Some l), AList.update res \<lparr>slot_lease = l, released = False\<rparr> slots)"
proof (cases "deadline ch now ttl ''lease.invalid_ttl''")
  case (Inl e)
  then show ?thesis using that(1) by (simp add: lease_acquire_def)
next
  case (Inr exp)
  show ?thesis
  proof (cases "\<exists>s. lookup slots res = Some s \<and> slot_live now s \<and> lease_holder (slot_lease s) \<noteq> owner")
    case True
    then obtain s where "lookup slots res = Some s" "slot_live now s" "lease_holder (slot_lease s) \<noteq> owner"
      by blast
    then show ?thesis using that(2) [OF Inr] Inr by (simp add: lease_acquire_def)
  next
    case False
    then show ?thesis
      using that(3) [OF Inr refl] Inr
      by (cases "lookup slots res") (auto simp: lease_acquire_def Let_def epoch_at_def)
  qed
qed

lemma epoch_at_renew [view_simps]: "epoch_at (snd (lease_renew ch now slots l ttl)) res = epoch_at slots res"
  by (auto simp: lease_renew_def Let_def epoch_at_def split: sum.split option.split)

lemma epoch_at_release [view_simps]: "epoch_at (lease_release slots l) res = epoch_at slots res"
  by (auto simp: lease_release_def epoch_at_def split: option.split)

lemma epoch_at_exec:
  "epoch_at (lease_exec ch slots op) res =
     (case lease_grant ch slots op of
        Some (r, e) \<Rightarrow> if r = res then e else epoch_at slots res
      | None \<Rightarrow> epoch_at slots res)"
proof (cases op)
  case (Acquire now r owner ttl)
  show ?thesis
    unfolding Acquire
    by (rule acquire_cases [of ch now ttl slots r owner]) auto
qed (simp_all add: view_simps)

lemma lease_grant_epoch:
  "lease_grant ch slots op = Some (r, e) \<Longrightarrow> e = Suc (epoch_at slots r)"
proof (cases op)
  case (Acquire now res owner ttl)
  show "lease_grant ch slots op = Some (r, e) \<Longrightarrow> e = Suc (epoch_at slots r)"
    unfolding Acquire by (rule acquire_cases [of ch now ttl slots res owner]) auto
qed simp_all

fun lease_history :: "chrono \<Rightarrow> lease_store \<Rightarrow> lease_op list \<Rightarrow> (string \<times> nat) option list" where
  "lease_history ch slots [] = []"
| "lease_history ch slots (op # ops) = lease_grant ch slots op # lease_history ch (lease_exec ch slots op) ops"

definition granted_epochs :: "chrono \<Rightarrow> lease_store \<Rightarrow> lease_op list \<Rightarrow> string \<Rightarrow> nat list" where
  "granted_epochs ch slots ops res =
     [e. Some (r, e) \<leftarrow> lease_history ch slots ops, r = res]"

text \<open>in every history of a resource the granted epochs are consecutive, so no epoch is ever
  granted twice, whatever is renewed, released or left to expire in between.\<close>

theorem lease_epochs_consecutive:
  "granted_epochs ch slots ops res =
     [Suc (epoch_at slots res) ..< Suc (epoch_at slots res) + length (granted_epochs ch slots ops res)]"
proof (induction ops arbitrary: slots)
  case Nil
  show ?case by (simp add: granted_epochs_def)
next
  case (Cons op ops)
  let ?s = "lease_exec ch slots op"
  have IH: "granted_epochs ch ?s ops res =
     [Suc (epoch_at ?s res) ..< Suc (epoch_at ?s res) + length (granted_epochs ch ?s ops res)]"
    by (rule Cons.IH)
  show ?case
  proof (cases "\<exists>e. lease_grant ch slots op = Some (res, e)")
    case True
    then obtain e where g: "lease_grant ch slots op = Some (res, e)" by blast
    then have e: "e = Suc (epoch_at slots res)" "epoch_at ?s res = e"
      by (simp_all add: lease_grant_epoch epoch_at_exec)
    have "granted_epochs ch slots (op # ops) res = e # granted_epochs ch ?s ops res"
      by (simp add: granted_epochs_def g)
    moreover have "granted_epochs ch ?s ops res =
        [Suc (Suc (epoch_at slots res)) ..< Suc (Suc (epoch_at slots res)) + length (granted_epochs ch ?s ops res)]"
      using IH by (simp only: e)
    ultimately show ?thesis using Cons_eq_upt [of "granted_epochs ch ?s ops res"] by (simp only: e)
  next
    case False
    then have "epoch_at ?s res = epoch_at slots res"
      by (auto simp: epoch_at_exec split: option.splits)
    moreover have "granted_epochs ch slots (op # ops) res = granted_epochs ch ?s ops res"
      using False by (auto simp: granted_epochs_def split: option.splits)
    ultimately show ?thesis using IH by simp
  qed
qed

section \<open>Fencing\<close>

definition lease_refused :: "lease_store \<Rightarrow> string \<Rightarrow> nat \<Rightarrow> bool" where
  "lease_refused slots res e \<longleftrightarrow>
     (\<forall>ch now l ttl. resource l = res \<longrightarrow> epoch l = e \<longrightarrow>
        (\<exists>err. lease_renew ch now slots l ttl = (Inl err, slots)) \<and> lease_release slots l = slots)"

lemma renew_stale:
  assumes "epoch l \<noteq> epoch_at slots (resource l)"
  shows "\<exists>err. lease_renew ch now slots l ttl = (Inl err, slots)" and "lease_release slots l = slots"
  using assms
  by (auto simp: lease_renew_def lease_release_def holds_lease_def epoch_at_def
      split: sum.splits option.splits)

interpretation lease_fence: fencing
  "lease_exec ch" "lease_grant ch" "\<lambda>slots res e. e < epoch_at slots res" lease_refused
  "\<lambda>slots. True" "\<lambda>slots op. True" "\<lambda>res op. True"
proof unfold_locales
  fix s :: lease_store and op k e e'
  show "lease_grant ch s op = Some (k, e') \<Longrightarrow> e < e' \<Longrightarrow> e < epoch_at (lease_exec ch s op) k"
    by (simp add: epoch_at_exec)
  show "e < epoch_at s k \<Longrightarrow> lease_refused s k e"
    unfolding lease_refused_def by (intro allI impI conjI renew_stale) auto
  assume "e < epoch_at s k"
  then show "e < epoch_at (lease_exec ch s op) k"
    using lease_grant_epoch [of ch s op k] by (auto simp: epoch_at_exec split: option.splits)
qed

text \<open>once a resource was granted again, a holder of an earlier epoch can neither renew nor
  release it, in any later state: its call changes nothing.\<close>

theorem stale_lease_refused_forever:
  assumes "lease_grant ch slots op = Some (res, e')" and "e < e'"
  shows "lease_refused (foldl (lease_exec ch) (lease_exec ch slots op) ops) res e"
proof -
  have "lease_fence.legal ch s os" for s os by (induction os arbitrary: s) auto
  then show ?thesis using lease_fence.superseded_refused [OF _ assms] by simp
qed

theorem stale_lease_refused_forever_witness:
  "lease_refused (foldl (lease_exec plain_chrono)
     (lease_exec plain_chrono
       (lease_exec plain_chrono [] (Acquire 0 ''r'' ''a'' 10)) (Acquire 20 ''r'' ''b'' 10))
     [Release \<lparr>resource = ''r'', lease_holder = ''b'', epoch = 2, expires_at = 30\<rparr>]) ''r'' 1"
  by (rule stale_lease_refused_forever [where e' = 2])
     (simp_all add: lease_acquire_def deadline_def plain_chrono_def slot_live_def Let_def)

text \<open>mutual exclusion. While a lease is current, another owner's acquire is answered with no
  lease and changes nothing, and a lease acquired is the current one until it lapses.\<close>

theorem acquire_excludes:
  assumes "chrono_ok ch"
  shows "(case lease_acquire ch now slots res owner ttl of
            (Inl e, slots') \<Rightarrow> slots' = slots
          | (Inr None, slots') \<Rightarrow> slots' = slots
              \<and> (\<exists>l. lease_current now slots res = Some l \<and> lease_holder l \<noteq> owner)
          | (Inr (Some l), slots') \<Rightarrow>
              (\<forall>l'. lease_current now slots res = Some l' \<longrightarrow> lease_holder l' = owner)
              \<and> lease_holder l = owner \<and> expires_at l = now + int ttl
              \<and> (\<forall>later. lease_current later slots' res = (if later < now + int ttl then Some l else None)))"
proof (rule acquire_cases [of ch now ttl slots res owner])
  fix exp l
  assume dl: "deadline ch now ttl ''lease.invalid_ttl'' = Inr exp"
    and l: "l = \<lparr>resource = res, lease_holder = owner, epoch = Suc (epoch_at slots res), expires_at = exp\<rparr>"
    and free: "\<And>s. lookup slots res = Some s \<Longrightarrow> slot_live now s \<Longrightarrow> lease_holder (slot_lease s) = owner"
    and acq: "lease_acquire ch now slots res owner ttl
                = (Inr (Some l), AList.update res \<lparr>slot_lease = l, released = False\<rparr> slots)"
  have "exp = now + int ttl"
    using dl by (rule deadline_Inr [OF assms, THEN conjunct1])
  then show ?thesis
    using free by (auto simp: acq l lease_current_def slot_live_def split: option.splits if_splits)
qed (auto simp: lease_current_def)

theorem acquire_excludes_witness:
  "\<exists>now slots. fst (lease_acquire plain_chrono now slots ''r'' ''a'' 10)
      = Inr (Some \<lparr>resource = ''r'', lease_holder = ''a'', epoch = 1, expires_at = 10\<rparr>)
    \<and> lease_current 5 (snd (lease_acquire plain_chrono now slots ''r'' ''a'' 10)) ''r'' \<noteq> None"
proof (intro exI conjI)
  let ?r = "lease_acquire plain_chrono 0 [] ''r'' ''a'' 10"
  show eq: "fst ?r = Inr (Some \<lparr>resource = ''r'', lease_holder = ''a'', epoch = 1, expires_at = 10\<rparr>)"
    by (simp add: lease_acquire_def deadline_def plain_chrono_def Let_def)
  show "lease_current 5 (snd ?r) ''r'' \<noteq> None"
    using acquire_excludes [OF plain_chrono_ok, where now = 0 and slots = "[]" and res = "''r''" and owner = "''a''" and ttl = 10] eq
    by (auto split: prod.splits)
qed

end
