(* ===== verification/Principal.thy ===== *)
theory Principal
  imports Adk_Error
begin

text \<open>
  Agent identity: \<^verbatim>\<open>adk-core/src/principal.rs\<close> (identifiers, subjects, principals, acting contexts)
  and \<^verbatim>\<open>adk-core/src/acting.rs\<close> (the derived identity, the run-level acting configuration and the
  admission of a run that acts for somebody else than its session's user).
\<close>

section \<open>Agent identifiers\<close>

definition max_agent_id_len :: nat where
  "max_agent_id_len = 512"

datatype principal_error = EmptyId | TooLong nat | ContainsControl nat

text \<open>\<^verbatim>\<open>chars().find(|c| c.is_control())\<close> over UTF-8 bytes: the controls are U+0000-U+001F, U+007F and
  U+0080-U+009F, the last range being the two-byte sequences \<open>C2 80\<close> to \<open>C2 9F\<close>.\<close>

fun find_control :: "nat list \<Rightarrow> nat option" where
  "find_control [] = None"
| "find_control (b # bs) =
     (if b < 32 \<or> b = 127 then Some b
      else if b = 194 then
        (case bs of c # _ \<Rightarrow> if 128 \<le> c \<and> c < 160 then Some c else find_control bs
                  | [] \<Rightarrow> find_control bs)
      else find_control bs)"

definition bytes_of :: "string \<Rightarrow> nat list" where
  "bytes_of s = map of_char s"

definition agent_id_new :: "string \<Rightarrow> principal_error + string" where
  "agent_id_new v =
     (if v = [] then Inl EmptyId
      else if length v > max_agent_id_len then Inl (TooLong (length v))
      else case find_control (bytes_of v) of Some c \<Rightarrow> Inl (ContainsControl c) | None \<Rightarrow> Inr v)"

section \<open>Subjects and principals\<close>

datatype subject_kind = Human | Service | AgentSubject

record subject_ref =
  kind :: subject_kind
  subject_id :: string

definition subject :: "subject_kind \<Rightarrow> string \<Rightarrow> subject_ref" where
  "subject k i = \<lparr>kind = k, subject_id = i\<rparr>"

abbreviation human :: "string \<Rightarrow> subject_ref" where "human \<equiv> subject Human"
abbreviation service :: "string \<Rightarrow> subject_ref" where "service \<equiv> subject Service"
abbreviation agent_subject :: "string \<Rightarrow> subject_ref" where "agent_subject \<equiv> subject AgentSubject"

fun kind_name :: "subject_kind \<Rightarrow> string" where
  "kind_name Human = ''human''"
| "kind_name Service = ''service''"
| "kind_name AgentSubject = ''agent''"

definition subject_text :: "subject_ref \<Rightarrow> string" where
  "subject_text s = kind_name (kind s) @ '':'' @ subject_id s"

record agent_principal =
  agent_id :: string
  tenant :: "string option"
  class_name :: "string option"
  instance_id :: "string option"
  sponsor :: "subject_ref option"
  attributes :: "(string, string) table"

definition principal_new :: "string \<Rightarrow> agent_principal" where
  "principal_new i = \<lparr>agent_id = i, tenant = None, class_name = None, instance_id = None,
                      sponsor = None, attributes = []\<rparr>"

definition with_tenant :: "agent_principal \<Rightarrow> string \<Rightarrow> agent_principal" where
  "with_tenant p t = p\<lparr>tenant := Some t\<rparr>"

definition with_class :: "agent_principal \<Rightarrow> string \<Rightarrow> agent_principal" where
  "with_class p c = p\<lparr>class_name := Some c\<rparr>"

definition with_instance :: "agent_principal \<Rightarrow> string \<Rightarrow> agent_principal" where
  "with_instance p i = p\<lparr>instance_id := Some i\<rparr>"

definition with_sponsor :: "agent_principal \<Rightarrow> subject_ref \<Rightarrow> agent_principal" where
  "with_sponsor p s = p\<lparr>sponsor := Some s\<rparr>"

definition with_attribute :: "agent_principal \<Rightarrow> string \<Rightarrow> string \<Rightarrow> agent_principal" where
  "with_attribute p k v = p\<lparr>attributes := AList.update k v (attributes p)\<rparr>"

record acting_context =
  acting_agent :: agent_principal
  on_behalf_of :: "subject_ref option"
  delegation_chain :: "subject_ref list"

definition acting_new :: "agent_principal \<Rightarrow> acting_context" where
  "acting_new p = \<lparr>acting_agent = p, on_behalf_of = None, delegation_chain = []\<rparr>"

definition acting_on_behalf_of :: "acting_context \<Rightarrow> subject_ref \<Rightarrow> acting_context" where
  "acting_on_behalf_of a s = a\<lparr>on_behalf_of := Some s\<rparr>"

definition delegated_by :: "acting_context \<Rightarrow> subject_ref \<Rightarrow> acting_context" where
  "delegated_by a s = a\<lparr>delegation_chain := delegation_chain a @ [s]\<rparr>"

section \<open>Derived identities\<close>

definition hex_digit :: "nat \<Rightarrow> char" where
  "hex_digit d = (if d < 10 then char_of (48 + d) else char_of (55 + d))"

definition encode_byte :: "char \<Rightarrow> string" where
  "encode_byte c =
     (if ascii_alnum c \<or> c \<in> set ''-._~'' then [c]
      else [CHR ''%'', hex_digit (of_char c div 16), hex_digit (of_char c mod 16)])"

definition encode_name :: "string \<Rightarrow> string" where
  "encode_name v = (if v = [] then ''_'' else concat (map encode_byte v))"

definition derived_id :: "string \<Rightarrow> string \<Rightarrow> string" where
  "derived_id app agent =
     take max_agent_id_len (''urn:adk:agent:'' @ encode_name app @ ''/'' @ encode_name agent)"

text \<open>The \<^verbatim>\<open>expect\<close> on \<^verbatim>\<open>AgentId::new\<close> never fires (\<open>derived_id_valid\<close>), so the result is total.\<close>

definition principal_derived :: "string \<Rightarrow> string \<Rightarrow> agent_principal" where
  "principal_derived app agent = principal_new (derived_id app agent)"

definition acting_derived :: "string \<Rightarrow> string \<Rightarrow> string \<Rightarrow> subject_kind \<Rightarrow> acting_context" where
  "acting_derived app agent user k =
     (let acting = acting_new (principal_derived app agent)
      in if user = [] then acting else acting_on_behalf_of acting (subject k user))"

definition delegate :: "acting_context \<Rightarrow> agent_principal \<Rightarrow> acting_context" where
  "delegate self p =
     (let d = (acting_new p)\<lparr>on_behalf_of := on_behalf_of self, delegation_chain := delegation_chain self\<rparr>
      in delegated_by d (agent_subject (agent_id (acting_agent self))))"

lemma urn_byte_plain: "c \<in> set (encode_byte d) \<Longrightarrow> 32 < (of_char c :: nat) \<and> (of_char c :: nat) < 127"
proof -
  assume c: "c \<in> set (encode_byte d)"
  have alnum: "ascii_alnum c \<Longrightarrow> 32 < (of_char c :: nat) \<and> (of_char c :: nat) < 127" for c
    by (auto simp: ascii_alnum_def less_eq_char_def)
  have hex: "n < 16 \<Longrightarrow> (of_char (hex_digit n) :: nat) = (if n < 10 then 48 + n else 55 + n)" for n
    by (auto simp: hex_digit_def of_char_of)
  have small: "(of_char d :: nat) div 16 < 16" "(of_char d :: nat) mod 16 < 16"
    using nat_of_char_less_256 [of d] by (auto intro: less_mult_imp_div_less)
  show ?thesis
    using c hex [OF small(1)] hex [OF small(2)] small
    by (auto simp: encode_byte_def dest: alnum split: if_splits)
qed

lemma find_control_None: "\<forall>b \<in> set bs. 32 \<le> b \<and> b < 127 \<Longrightarrow> find_control bs = None"
  by (induction bs) auto

lemma encode_name_plain: "c \<in> set (encode_name v) \<Longrightarrow> 32 < (of_char c :: nat) \<and> (of_char c :: nat) < 127"
  by (auto simp: encode_name_def dest: urn_byte_plain split: if_splits)

lemma derived_id_plain: "c \<in> set (derived_id app agent) \<Longrightarrow> 32 < (of_char c :: nat) \<and> (of_char c :: nat) < 127"
  by (auto simp: derived_id_def dest!: in_set_takeD dest: encode_name_plain)

lemma derived_id_valid: "agent_id_new (derived_id app agent) = Inr (derived_id app agent)"
proof -
  have "find_control (bytes_of (derived_id app agent)) = None"
    by (rule find_control_None) (auto simp: bytes_of_def dest!: derived_id_plain)
  moreover have "derived_id app agent \<noteq> []" "length (derived_id app agent) \<le> max_agent_id_len"
    by (simp_all add: derived_id_def max_agent_id_len_def)
  ultimately show ?thesis by (simp add: agent_id_new_def)
qed

section \<open>The run-level configuration\<close>

record acting_config =
  principals :: "(string, agent_principal) table"
  cfg_on_behalf_of :: "subject_ref option"
  cfg_subject_kind :: subject_kind
  cfg_delegation_chain :: "subject_ref list"

definition acting_config_default :: acting_config where
  "acting_config_default = \<lparr>principals = [], cfg_on_behalf_of = None, cfg_subject_kind = Human,
                            cfg_delegation_chain = []\<rparr>"

definition config_with_principal :: "acting_config \<Rightarrow> string \<Rightarrow> agent_principal \<Rightarrow> acting_config" where
  "config_with_principal c agent p = c\<lparr>principals := AList.update agent p (principals c)\<rparr>"

definition config_with_on_behalf_of :: "acting_config \<Rightarrow> subject_ref \<Rightarrow> acting_config" where
  "config_with_on_behalf_of c s = c\<lparr>cfg_on_behalf_of := Some s\<rparr>"

definition config_with_subject_kind :: "acting_config \<Rightarrow> subject_kind \<Rightarrow> acting_config" where
  "config_with_subject_kind c k = c\<lparr>cfg_subject_kind := k\<rparr>"

definition principal_for :: "acting_config \<Rightarrow> string \<Rightarrow> string \<Rightarrow> agent_principal" where
  "principal_for c app agent =
     (case lookup (principals c) agent of Some p \<Rightarrow> p | None \<Rightarrow> principal_derived app agent)"

definition session_subject :: "acting_config \<Rightarrow> string \<Rightarrow> subject_ref option" where
  "session_subject c user = (if user = [] then None else Some (subject (cfg_subject_kind c) user))"

definition acting_context_for :: "acting_config \<Rightarrow> string \<Rightarrow> string \<Rightarrow> string \<Rightarrow> acting_context" where
  "acting_context_for c app agent user =
     \<lparr>acting_agent = principal_for c app agent,
      on_behalf_of = (case cfg_on_behalf_of c of Some s \<Rightarrow> Some s | None \<Rightarrow> session_subject c user),
      delegation_chain = cfg_delegation_chain c\<rparr>"

record delegation_request =
  req_app_name :: string
  req_agent :: agent_principal
  req_session_subject :: subject_ref
  req_requested :: subject_ref

definition subject_mismatch_error :: "subject_ref \<Rightarrow> subject_ref \<Rightarrow> adk_error" where
  "subject_mismatch_error session requested =
     adk_error_new Auth Forbidden ''identity.subject_mismatch''
       (''the run acts for '' @ subject_text requested @ '' but its session belongs to ''
        @ subject_text session
        @ ''; a run acts for its session's user unless a SubjectDelegationPolicy on the runner allows the delegation'')"

type_synonym delegation_policy = "delegation_request \<Rightarrow> bool result"

definition admit_subject ::
    "acting_config \<Rightarrow> string \<Rightarrow> string \<Rightarrow> agent_principal \<Rightarrow> delegation_policy option
     \<Rightarrow> acting_config result" where
  "admit_subject c app user agent policy =
     (case session_subject c user of
        None \<Rightarrow> Inr c
      | Some session \<Rightarrow>
          (case cfg_on_behalf_of c of
             None \<Rightarrow> Inr (c\<lparr>cfg_on_behalf_of := Some session\<rparr>)
           | Some requested \<Rightarrow>
               if requested = session then Inr c
               else result_bind
                 (case policy of
                    Some p \<Rightarrow> p \<lparr>req_app_name = app, req_agent = agent,
                               req_session_subject = session, req_requested = requested\<rparr>
                  | None \<Rightarrow> Inr False)
                 (\<lambda>allowed.
                    if \<not> allowed then Inl (subject_mismatch_error session requested)
                    else if (case cfg_delegation_chain c of s # _ \<Rightarrow> s = session | [] \<Rightarrow> False) then Inr c
                    else Inr (c\<lparr>cfg_delegation_chain := session # cfg_delegation_chain c\<rparr>))))"

type_synonym static_delegation = "(subject_ref \<times> subject_ref option) list"

definition allow_any :: "static_delegation \<Rightarrow> subject_ref \<Rightarrow> static_delegation" where
  "allow_any rules s = rules @ [(s, None)]"

definition allow_subject :: "static_delegation \<Rightarrow> subject_ref \<Rightarrow> subject_ref \<Rightarrow> static_delegation" where
  "allow_subject rules s r = rules @ [(s, Some r)]"

definition static_may_act_for :: "static_delegation \<Rightarrow> delegation_policy" where
  "static_may_act_for rules req =
     Inr (\<exists>(session, requested) \<in> set rules.
            session = req_session_subject req
            \<and> (case requested of None \<Rightarrow> True | Some r \<Rightarrow> r = req_requested req))"

text \<open>admission. An admitted run acts for its session's subject, or for another one that the
  runner's delegation policy allowed, and then the session's subject heads the delegation chain.\<close>

theorem admit_subject_sound:
  assumes "admit_subject c app user agent policy = Inr c'" and "user \<noteq> []"
  shows "\<exists>s. cfg_on_behalf_of c' = Some s
    \<and> (s = subject (cfg_subject_kind c) user
       \<or> ((\<exists>p. policy = Some p
             \<and> p \<lparr>req_app_name = app, req_agent = agent,
                   req_session_subject = subject (cfg_subject_kind c) user, req_requested = s\<rparr> = Inr True)
          \<and> (\<exists>rest. cfg_delegation_chain c' = subject (cfg_subject_kind c) user # rest)))"
  using assms
  by (auto simp: admit_subject_def session_subject_def split: option.splits if_splits list.splits)

theorem admit_subject_sound_witness:
  "\<exists>c'. admit_subject (config_with_on_behalf_of acting_config_default (human ''bob'')) ''app'' ''alice''
          (principal_derived ''app'' ''a'') (Some (static_may_act_for (allow_any [] (human ''alice'')))) = Inr c'
      \<and> (\<exists>rest. cfg_delegation_chain c' = human ''alice'' # rest)"
proof -
  let ?c = "config_with_on_behalf_of acting_config_default (human ''bob'')"
  let ?p = "Some (static_may_act_for (allow_any [] (human ''alice'')))"
  obtain c' where c': "admit_subject ?c ''app'' ''alice'' (principal_derived ''app'' ''a'') ?p = Inr c'"
    by (simp add: admit_subject_def session_subject_def config_with_on_behalf_of_def acting_config_default_def
        static_may_act_for_def allow_any_def subject_def)
  then have "cfg_on_behalf_of c' = Some (human ''bob'')"
    by (auto simp: admit_subject_def session_subject_def config_with_on_behalf_of_def acting_config_default_def
        subject_def split: if_splits list.splits)
  then show ?thesis
    using admit_subject_sound [OF c'] c'
    by (auto simp: config_with_on_behalf_of_def acting_config_default_def subject_def)
qed

lemma admit_subject_refuses:
  assumes "user \<noteq> []" and "cfg_on_behalf_of c = Some r" and "r \<noteq> subject (cfg_subject_kind c) user"
  shows "admit_subject c app user agent None
           = Inl (subject_mismatch_error (subject (cfg_subject_kind c) user) r)"
  using assms by (simp add: admit_subject_def session_subject_def)

lemma delegate_chain:
  "delegation_chain (delegate a p) = delegation_chain a @ [agent_subject (agent_id (acting_agent a))]"
  "on_behalf_of (delegate a p) = on_behalf_of a"
  "acting_agent (delegate a p) = p"
  by (simp_all add: delegate_def delegated_by_def acting_new_def)

section \<open>Derived identifiers tell agents apart\<close>

definition unhex :: "char \<Rightarrow> nat" where
  "unhex c = (if of_char c < (58 :: nat) then of_char c - 48 else of_char c - 55)"

fun decode_name :: "string \<Rightarrow> string" where
  "decode_name (c # h # l # cs) =
     (if c = CHR ''%'' then char_of (16 * unhex h + unhex l) # decode_name cs else c # decode_name (h # l # cs))"
| "decode_name cs = cs"

lemma unhex_hex [simp]: "n < 16 \<Longrightarrow> unhex (hex_digit n) = n"
  by (auto simp: unhex_def hex_digit_def of_char_of)

lemma decode_plain: "c \<noteq> CHR ''%'' \<Longrightarrow> decode_name (c # cs) = c # decode_name cs"
  by (cases cs rule: decode_name.cases) auto

lemma unreserved_not_percent: "ascii_alnum c \<or> c \<in> set ''-._~'' \<Longrightarrow> c \<noteq> CHR ''%''"
  by (auto simp: ascii_alnum_def char_range)

lemma decode_byte: "decode_name (encode_byte c @ cs) = c # decode_name cs"
proof (cases "ascii_alnum c \<or> c \<in> set ''-._~''")
  case True
  then show ?thesis using unreserved_not_percent [OF True] by (simp add: encode_byte_def decode_plain)
next
  case False
  have "(of_char c :: nat) div 16 < 16" "(of_char c :: nat) mod 16 < 16"
    using nat_of_char_less_256 [of c] by (auto intro: less_mult_imp_div_less)
  then show ?thesis using False by (simp add: encode_byte_def)
qed

lemma decode_encode: "v \<noteq> [] \<Longrightarrow> decode_name (encode_name v) = v"
proof -
  have "decode_name (concat (map encode_byte v)) = v" by (induction v) (simp_all add: decode_byte)
  then show "v \<noteq> [] \<Longrightarrow> decode_name (encode_name v) = v" by (simp add: encode_name_def)
qed

lemma hex_digit_not_slash: "n < 16 \<Longrightarrow> hex_digit n \<noteq> CHR ''/''"
proof -
  assume "n < 16"
  then have "(of_char (hex_digit n) :: nat) \<noteq> of_char (CHR ''/'')" by (auto simp: hex_digit_def of_char_of)
  then show "hex_digit n \<noteq> CHR ''/''" by metis
qed

lemma slash_free_byte: "CHR ''/'' \<notin> set (encode_byte c)"
proof (cases "ascii_alnum c \<or> c \<in> set ''-._~''")
  case True
  have "\<not> ascii_alnum (CHR ''/'')" by (simp add: ascii_alnum_def char_range)
  then show ?thesis using True by (auto simp: encode_byte_def)
next
  case False
  have "(of_char c :: nat) div 16 < 16" "(of_char c :: nat) mod 16 < 16"
    using nat_of_char_less_256 [of c] by (auto intro: less_mult_imp_div_less)
  from this [THEN hex_digit_not_slash] have "CHR ''/'' \<noteq> hex_digit (of_char c div 16)"
    "CHR ''/'' \<noteq> hex_digit (of_char c mod 16)" by metis+
  then show ?thesis using False by (simp add: encode_byte_def)
qed

lemma slash_free: "CHR ''/'' \<notin> set (encode_name v)"
  using slash_free_byte by (auto simp: encode_name_def)

lemma split_at_slash:
  "CHR ''/'' \<notin> set a \<Longrightarrow> CHR ''/'' \<notin> set b \<Longrightarrow> a @ CHR ''/'' # x = b @ CHR ''/'' # y \<Longrightarrow> a = b \<and> x = y"
proof (induction a arbitrary: b)
  case Nil
  then show ?case by (cases b) auto
next
  case (Cons c a)
  then show ?case by (cases b) auto
qed

text \<open>agents with different names never share a derived identity: for nonempty names whose encoded
  identifier fits the length cap, the identifier determines application and agent.\<close>

theorem derived_id_injective:
  assumes "derived_id app agent = derived_id app' agent'"
    and "app \<noteq> []" "agent \<noteq> []" "app' \<noteq> []" "agent' \<noteq> []"
    and "length (encode_name app) + length (encode_name agent) \<le> 497"
    and "length (encode_name app') + length (encode_name agent') \<le> 497"
  shows "app = app' \<and> agent = agent'"
proof -
  have "encode_name app @ CHR ''/'' # encode_name agent = encode_name app' @ CHR ''/'' # encode_name agent'"
    using assms(1,6,7) by (simp add: derived_id_def max_agent_id_len_def)
  then have "encode_name app = encode_name app' \<and> encode_name agent = encode_name agent'"
    using slash_free split_at_slash by blast
  then show ?thesis using decode_encode assms(2-5) by metis
qed

theorem derived_id_injective_witness:
  "derived_id ''a b'' ''c'' \<noteq> derived_id ''a'' ''b c''"
proof
  assume eq: "derived_id ''a b'' ''c'' = derived_id ''a'' ''b c''"
  have len: "length (encode_name ''a b'') + length (encode_name ''c'') \<le> 497"
    "length (encode_name ''a'') + length (encode_name ''b c'') \<le> 497"
    by code_simp+
  show False using derived_id_injective [OF eq _ _ _ _ len] by simp
qed

text \<open>An empty name is encoded as an underscore, which is also what the name \<open>_\<close> is encoded as.\<close>

lemma derived_id_empty_name: "derived_id [] agent = derived_id ''_'' agent"
proof -
  have "encode_name ''_'' = ''_''" by code_simp
  then show ?thesis by (simp add: derived_id_def encode_name_def)
qed

end
