(* ===== verification/Run_Store.thy ===== *)
theory Run_Store
  imports Lease Principal
begin

text \<open>
  The durable run queue: \<^verbatim>\<open>adk-core/src/run_store.rs\<close>. Records and operations of the process-local
  \<^verbatim>\<open>InMemoryRunStore\<close>, whose mutex makes every operation one atomic step. JSON values are the type
  variable \<open>'v\<close>: the store only moves them. The identifier \<^verbatim>\<open>uuid::Uuid::new_v4\<close> returns is the
  argument \<open>fresh\<close>. Counters that move by one per operation (\<^verbatim>\<open>attempt\<close>, \<^verbatim>\<open>lease_epoch\<close>,
  \<^verbatim>\<open>revision\<close>, \<^verbatim>\<open>next_seq\<close>) are natural numbers.
\<close>

section \<open>Data\<close>

datatype run_state = Queued | Running | Waiting | RunCompleted | RunFailed | RunCancelled

fun is_terminal :: "run_state \<Rightarrow> bool" where
  "is_terminal RunCompleted = True"
| "is_terminal RunFailed = True"
| "is_terminal RunCancelled = True"
| "is_terminal _ = False"

datatype run_checkpoint_ref =
  SessionRef string "string option"
| AwaitingApproval string "string option" "string list" "instant option"
| GraphRef string "string option"

datatype on_conflict = Reject | Enqueue | Interrupt

record 'v new_run =
  nr_queue :: string
  nr_app_name :: string
  nr_user_id :: string
  nr_session_id :: "string option"
  nr_target :: string
  nr_input :: 'v
  nr_idempotency_key :: "string option"
  nr_concurrency_key :: "string option"
  nr_on_conflict :: on_conflict
  nr_not_before :: "instant option"
  nr_max_attempts :: nat
  nr_principal :: "acting_context option"

definition new_run_make :: "string \<Rightarrow> string \<Rightarrow> string \<Rightarrow> string \<Rightarrow> 'v \<Rightarrow> 'v new_run" where
  "new_run_make q app user tgt inp =
     \<lparr>nr_queue = q, nr_app_name = app, nr_user_id = user, nr_session_id = None, nr_target = tgt,
      nr_input = inp, nr_idempotency_key = None, nr_concurrency_key = None, nr_on_conflict = Enqueue,
      nr_not_before = None, nr_max_attempts = 3, nr_principal = None\<rparr>"

definition with_session_id :: "'v new_run \<Rightarrow> string \<Rightarrow> 'v new_run" where
  "with_session_id r s = r\<lparr>nr_session_id := Some s\<rparr>"

definition with_idempotency_key :: "'v new_run \<Rightarrow> string \<Rightarrow> 'v new_run" where
  "with_idempotency_key r k = r\<lparr>nr_idempotency_key := Some k\<rparr>"

definition with_concurrency_key :: "'v new_run \<Rightarrow> string \<Rightarrow> on_conflict \<Rightarrow> 'v new_run" where
  "with_concurrency_key r k c = r\<lparr>nr_concurrency_key := Some k, nr_on_conflict := c\<rparr>"

definition with_not_before :: "'v new_run \<Rightarrow> instant \<Rightarrow> 'v new_run" where
  "with_not_before r t = r\<lparr>nr_not_before := Some t\<rparr>"

definition with_max_attempts :: "'v new_run \<Rightarrow> nat \<Rightarrow> 'v new_run" where
  "with_max_attempts r n = r\<lparr>nr_max_attempts := n\<rparr>"

definition with_principal :: "'v new_run \<Rightarrow> acting_context \<Rightarrow> 'v new_run" where
  "with_principal r p = r\<lparr>nr_principal := Some p\<rparr>"

definition with_service_subject :: "'v new_run \<Rightarrow> 'v new_run" where
  "with_service_subject r =
     (let subj = service (nr_user_id r) in
      case nr_principal r of
        Some p \<Rightarrow> r\<lparr>nr_principal := Some (case on_behalf_of p of
                      Some _ \<Rightarrow> p | None \<Rightarrow> p\<lparr>on_behalf_of := Some subj\<rparr>)\<rparr>
      | None \<Rightarrow> r\<lparr>nr_principal :=
                 Some (acting_on_behalf_of (acting_new (principal_derived (nr_app_name r) (nr_target r))) subj)\<rparr>)"

definition run_stale_epoch_error :: "string \<Rightarrow> nat \<Rightarrow> adk_error" where
  "run_stale_epoch_error run_id e =
     adk_error_new Agent Conflict ''run_store.stale_epoch''
       (''run '' @ quoted run_id @ '' is no longer held at epoch '' @ show_nat e
        @ ''; another worker recovered it or it finished, so stop work on it without writing results'')"

definition run_not_found_error :: "string \<Rightarrow> adk_error" where
  "run_not_found_error run_id =
     adk_not_found Agent ''run_store.not_found''
       (''run store has no run '' @ quoted run_id @ ''; it was never enqueued or was pruned'')"

definition invalid_run_error :: "string \<Rightarrow> adk_error" where
  "invalid_run_error reason =
     adk_error_new Agent InvalidInput ''run_store.invalid_run'' (''cannot enqueue run: '' @ reason)"

definition validate_run :: "'v new_run \<Rightarrow> unit result" where
  "validate_run r =
     (let empty = [(''queue'', nr_queue r = []), (''appName'', nr_app_name r = []),
                   (''userId'', nr_user_id r = []), (''target'', nr_target r = []),
                   (''idempotencyKey'', nr_idempotency_key r = Some []),
                   (''concurrencyKey'', nr_concurrency_key r = Some [])] in
      case find snd empty of
        Some (field, _) \<Rightarrow> Inl (invalid_run_error (field @ '' must not be empty''))
      | None \<Rightarrow> if nr_max_attempts r = 0 then Inl (invalid_run_error ''maxAttempts must be at least 1'')
                else Inr ())"

record 'v run_record =
  rr_run_id :: string
  rr_queue :: string
  rr_app_name :: string
  rr_user_id :: string
  rr_session_id :: "string option"
  rr_target :: string
  rr_input :: 'v
  rr_idempotency_key :: "string option"
  rr_concurrency_key :: "string option"
  rr_on_conflict :: on_conflict
  rr_not_before :: "instant option"
  rr_max_attempts :: nat
  rr_principal :: "acting_context option"
  rr_state :: run_state
  rr_attempt :: nat
  rr_lease_owner :: "string option"
  rr_lease_epoch :: nat
  rr_lease_expires_at :: "instant option"
  rr_heartbeat_at :: "instant option"
  rr_checkpoint :: "run_checkpoint_ref option"
  rr_cancel_requested :: bool
  rr_wake_pending :: bool
  rr_result :: "'v option"
  rr_error :: "string option"
  rr_created_at :: instant
  rr_updated_at :: instant
  rr_revision :: nat

definition queued_record :: "string \<Rightarrow> 'v new_run \<Rightarrow> instant \<Rightarrow> 'v run_record" where
  "queued_record run_id r now =
     \<lparr>rr_run_id = run_id, rr_queue = nr_queue r, rr_app_name = nr_app_name r, rr_user_id = nr_user_id r,
      rr_session_id = nr_session_id r, rr_target = nr_target r, rr_input = nr_input r,
      rr_idempotency_key = nr_idempotency_key r, rr_concurrency_key = nr_concurrency_key r,
      rr_on_conflict = nr_on_conflict r, rr_not_before = nr_not_before r,
      rr_max_attempts = nr_max_attempts r, rr_principal = nr_principal r,
      rr_state = Queued, rr_attempt = 0, rr_lease_owner = None, rr_lease_epoch = 0,
      rr_lease_expires_at = None, rr_heartbeat_at = None, rr_checkpoint = None,
      rr_cancel_requested = False, rr_wake_pending = False, rr_result = None, rr_error = None,
      rr_created_at = now, rr_updated_at = now, rr_revision = 1\<rparr>"

datatype 'v enqueued =
  Created "'v run_record" | Existing "'v run_record" | Rejected string

fun enqueued_record :: "'v enqueued \<Rightarrow> 'v run_record option" where
  "enqueued_record (Created r) = Some r"
| "enqueued_record (Existing r) = Some r"
| "enqueued_record (Rejected _) = None"

record 'v claimed_run =
  cl_record :: "'v run_record"
  cl_epoch :: nat

datatype 'v run_outcome = OutCompleted 'v | OutFailed string bool | OutCancelled

record run_filter =
  rf_queue :: "string option"
  rf_states :: "run_state list"
  rf_app_name :: "string option"
  rf_user_id :: "string option"
  rf_session_id :: "string option"
  rf_concurrency_key :: "string option"
  rf_limit :: "nat option"

definition run_filter_default :: run_filter where
  "run_filter_default = \<lparr>rf_queue = None, rf_states = [], rf_app_name = None, rf_user_id = None,
                         rf_session_id = None, rf_concurrency_key = None, rf_limit = None\<rparr>"

definition field_matches :: "string option \<Rightarrow> string option \<Rightarrow> bool" where
  "field_matches want have = (case want of None \<Rightarrow> True | Some w \<Rightarrow> have = Some w)"

definition run_filter_matches :: "run_filter \<Rightarrow> 'v run_record \<Rightarrow> bool" where
  "run_filter_matches f r \<longleftrightarrow>
     field_matches (rf_queue f) (Some (rr_queue r))
     \<and> (rf_states f = [] \<or> rr_state r \<in> set (rf_states f))
     \<and> field_matches (rf_app_name f) (Some (rr_app_name r))
     \<and> field_matches (rf_user_id f) (Some (rr_user_id r))
     \<and> field_matches (rf_session_id f) (rr_session_id r)
     \<and> field_matches (rf_concurrency_key f) (rr_concurrency_key r)"

section \<open>The table\<close>

record 'v run_entry =
  entry_record :: "'v run_record"
  entry_seq :: nat

definition run_order :: "'v run_entry \<Rightarrow> instant \<times> nat" where
  "run_order e = (rr_created_at (entry_record e), entry_seq e)"

record 'v run_table =
  runs :: "(string, 'v run_entry) table"
  by_idempotency_key :: "(string \<times> string, string) table"
  next_seq :: nat

definition run_table_empty :: "'v run_table" where
  "run_table_empty = \<lparr>runs = [], by_idempotency_key = [], next_seq = 0\<rparr>"

definition is_holder :: "string \<Rightarrow> string \<Rightarrow> 'v run_entry \<Rightarrow> bool" where
  "is_holder q key e \<longleftrightarrow>
     rr_queue (entry_record e) = q \<and> rr_concurrency_key (entry_record e) = Some key
     \<and> \<not> is_terminal (rr_state (entry_record e))"

definition holders :: "'v run_table \<Rightarrow> string \<Rightarrow> string \<Rightarrow> (string \<times> (instant \<times> nat)) list" where
  "holders t q key =
     sort_key snd (map (\<lambda>e. (rr_run_id (entry_record e), run_order e))
                       (filter (is_holder q key) (map snd (runs t))))"

definition fenced :: "'v run_table \<Rightarrow> string \<Rightarrow> nat \<Rightarrow> 'v run_record result" where
  "fenced t run_id e =
     (case lookup (runs t) run_id of
        None \<Rightarrow> Inl (run_not_found_error run_id)
      | Some entry \<Rightarrow>
          if rr_state (entry_record entry) \<noteq> Running \<or> rr_lease_epoch (entry_record entry) \<noteq> e
          then Inl (run_stale_epoch_error run_id e)
          else Inr (entry_record entry))"

definition touch :: "instant \<Rightarrow> 'v run_record \<Rightarrow> 'v run_record" where
  "touch now r = r\<lparr>rr_updated_at := now, rr_revision := rr_revision r + 1\<rparr>"

definition release_lease :: "'v run_record \<Rightarrow> 'v run_record" where
  "release_lease r = r\<lparr>rr_lease_owner := None, rr_lease_expires_at := None\<rparr>"

text \<open>\<^verbatim>\<open>runs.get_mut(run_id)\<close> followed by a change of the record.\<close>

definition modify_run :: "string \<Rightarrow> ('v run_record \<Rightarrow> 'v run_record) \<Rightarrow> 'v run_table \<Rightarrow> 'v run_table" where
  "modify_run run_id f t =
     t\<lparr>runs := AList.map_entry run_id (\<lambda>e. e\<lparr>entry_record := f (entry_record e)\<rparr>) (runs t)\<rparr>"

section \<open>Operations\<close>

definition interrupt_record :: "instant \<Rightarrow> 'v run_record \<Rightarrow> 'v run_record" where
  "interrupt_record now r =
     touch now (if rr_state r = Running then r\<lparr>rr_cancel_requested := True\<rparr>
                else release_lease (r\<lparr>rr_state := RunCancelled\<rparr>))"

definition insert_run :: "instant \<Rightarrow> string \<Rightarrow> 'v new_run \<Rightarrow> 'v run_table \<Rightarrow> 'v enqueued result \<times> 'v run_table" where
  "insert_run now fresh r t =
     (let idx = (case nr_idempotency_key r of
                   Some key \<Rightarrow> AList.update (nr_queue r, key) fresh (by_idempotency_key t)
                 | None \<Rightarrow> by_idempotency_key t);
          rec = queued_record fresh r now
      in (Inr (Created rec),
          \<lparr>runs = AList.update fresh \<lparr>entry_record = rec, entry_seq = next_seq t\<rparr> (runs t),
           by_idempotency_key = idx, next_seq = next_seq t + 1\<rparr>))"

definition existing_run :: "'v run_table \<Rightarrow> 'v new_run \<Rightarrow> 'v run_entry option" where
  "existing_run t r =
     (case nr_idempotency_key r of
        None \<Rightarrow> None
      | Some key \<Rightarrow>
          (case lookup (by_idempotency_key t) (nr_queue r, key) of
             None \<Rightarrow> None
           | Some run_id \<Rightarrow> lookup (runs t) run_id))"

definition interrupt_holders :: "instant \<Rightarrow> (string \<times> (instant \<times> nat)) list \<Rightarrow> 'v run_table \<Rightarrow> 'v run_table" where
  "interrupt_holders now hs t = foldl (\<lambda>t h. modify_run (fst h) (interrupt_record now) t) t hs"

definition run_enqueue :: "instant \<Rightarrow> string \<Rightarrow> 'v run_table \<Rightarrow> 'v new_run \<Rightarrow> 'v enqueued result \<times> 'v run_table" where
  "run_enqueue now fresh t r =
     (case validate_run r of
        Inl e \<Rightarrow> (Inl e, t)
      | Inr _ \<Rightarrow>
          (case existing_run t r of
             Some entry \<Rightarrow> (Inr (Existing (entry_record entry)), t)
           | None \<Rightarrow>
               (case nr_concurrency_key r of
                  None \<Rightarrow> insert_run now fresh r t
                | Some key \<Rightarrow>
                    (let hs = holders t (nr_queue r) key in
                     case nr_on_conflict r of
                       Reject \<Rightarrow> (case hs of
                                    (blocking, _) # _ \<Rightarrow> (Inr (Rejected blocking), t)
                                  | [] \<Rightarrow> insert_run now fresh r t)
                     | Interrupt \<Rightarrow> insert_run now fresh r (interrupt_holders now hs t)
                     | Enqueue \<Rightarrow> insert_run now fresh r t))))"

text \<open>What \<^verbatim>\<open>claim\<close>'s loop does with one candidate: skip it, fail it because its lease lapsed on the
  last attempt, or start it with the given number added to its attempts.\<close>

definition run_blocked :: "'v run_table \<Rightarrow> string \<Rightarrow> instant \<times> nat \<Rightarrow> 'v run_entry \<Rightarrow> bool" where
  "run_blocked t q order e =
     (case rr_concurrency_key (entry_record e) of
        None \<Rightarrow> False
      | Some key \<Rightarrow> (case holders t q key of (_, first) # _ \<Rightarrow> first < order | [] \<Rightarrow> False))"

definition claim_started :: "instant \<Rightarrow> 'v run_table \<Rightarrow> string \<Rightarrow> instant \<times> nat \<Rightarrow> 'v run_entry \<Rightarrow> nat option" where
  "claim_started now t q order e =
     (let r = entry_record e in
      case rr_state r of
        Queued \<Rightarrow>
          if (case rr_not_before r of Some at \<Rightarrow> at > now | None \<Rightarrow> False) \<or> run_blocked t q order e
          then None else Some 1
      | Waiting \<Rightarrow>
          if (case rr_not_before r of None \<Rightarrow> True | Some at \<Rightarrow> at > now) then None else Some 0
      | Running \<Rightarrow>
          if (case rr_lease_expires_at r of Some at \<Rightarrow> at > now | None \<Rightarrow> False) then None else Some 1
      | _ \<Rightarrow> None)"

definition exhausted :: "'v run_record \<Rightarrow> bool" where
  "exhausted r \<longleftrightarrow> rr_state r = Running \<and> rr_attempt r \<ge> rr_max_attempts r"

definition exhaust_record :: "instant \<Rightarrow> 'v run_record \<Rightarrow> 'v run_record" where
  "exhaust_record now r =
     touch now (release_lease
       (r\<lparr>rr_state := RunFailed,
          rr_error := Some (''attempts exhausted: the lease of attempt '' @ show_nat (rr_attempt r)
                            @ '' of '' @ show_nat (rr_max_attempts r) @ '' expired'')\<rparr>))"

definition claim_record :: "instant \<Rightarrow> string \<Rightarrow> instant \<Rightarrow> nat \<Rightarrow> 'v run_record \<Rightarrow> 'v run_record" where
  "claim_record now worker exp started r =
     touch now (r\<lparr>rr_state := Running, rr_attempt := rr_attempt r + started,
                  rr_lease_epoch := rr_lease_epoch r + 1, rr_lease_owner := Some worker,
                  rr_lease_expires_at := Some exp, rr_heartbeat_at := Some now,
                  rr_not_before := None\<rparr>)"

fun claim_loop ::
    "instant \<Rightarrow> string \<Rightarrow> string \<Rightarrow> instant \<Rightarrow> ((instant \<times> nat) \<times> string) list \<Rightarrow> 'v run_table
     \<Rightarrow> 'v claimed_run option \<times> 'v run_table" where
  "claim_loop now q worker exp [] t = (None, t)"
| "claim_loop now q worker exp ((order, run_id) # cs) t =
     (case lookup (runs t) run_id of
        None \<Rightarrow> claim_loop now q worker exp cs t
      | Some e \<Rightarrow>
          (case claim_started now t q order e of
             None \<Rightarrow> claim_loop now q worker exp cs t
           | Some started \<Rightarrow>
               if exhausted (entry_record e)
               then claim_loop now q worker exp cs (modify_run run_id (exhaust_record now) t)
               else (let r = claim_record now worker exp started (entry_record e)
                     in (Some \<lparr>cl_record = r, cl_epoch = rr_lease_epoch r\<rparr>,
                         modify_run run_id (claim_record now worker exp started) t))))"

definition claim_candidates :: "'v run_table \<Rightarrow> string \<Rightarrow> ((instant \<times> nat) \<times> string) list" where
  "claim_candidates t q =
     sort (map (\<lambda>e. (run_order e, rr_run_id (entry_record e)))
               (filter (\<lambda>e. rr_queue (entry_record e) = q \<and> \<not> is_terminal (rr_state (entry_record e)))
                       (map snd (runs t))))"

definition run_claim ::
    "chrono \<Rightarrow> instant \<Rightarrow> 'v run_table \<Rightarrow> string \<Rightarrow> string \<Rightarrow> dur \<Rightarrow> 'v claimed_run option result \<times> 'v run_table" where
  "run_claim ch now t q worker ttl =
     (case deadline ch now ttl ''run_store.invalid_ttl'' of
        Inl e \<Rightarrow> (Inl e, t)
      | Inr exp \<Rightarrow>
          (let (c, t') = claim_loop now q worker exp (claim_candidates t q) t in (Inr c, t')))"

text \<open>A worker's write: refused unless the run is \<^verbatim>\<open>Running\<close> at the caller's epoch.\<close>

definition fenced_write ::
    "'v run_table \<Rightarrow> string \<Rightarrow> nat \<Rightarrow> ('v run_record \<Rightarrow> 'v run_record) \<Rightarrow> 'v run_record result \<times> 'v run_table" where
  "fenced_write t run_id e f =
     (case fenced t run_id e of
        Inl err \<Rightarrow> (Inl err, t)
      | Inr r \<Rightarrow> (Inr (f r), modify_run run_id f t))"

definition run_heartbeat ::
    "chrono \<Rightarrow> instant \<Rightarrow> 'v run_table \<Rightarrow> string \<Rightarrow> nat \<Rightarrow> dur \<Rightarrow> bool result \<times> 'v run_table" where
  "run_heartbeat ch now t run_id e ttl =
     (case deadline ch now ttl ''run_store.invalid_ttl'' of
        Inl err \<Rightarrow> (Inl err, t)
      | Inr exp \<Rightarrow>
          (let (r, t') = fenced_write t run_id e
                 (\<lambda>r. touch now (r\<lparr>rr_lease_expires_at := Some exp, rr_heartbeat_at := Some now\<rparr>))
           in (map_sum id rr_cancel_requested r, t')))"

definition run_set_checkpoint ::
    "instant \<Rightarrow> 'v run_table \<Rightarrow> string \<Rightarrow> nat \<Rightarrow> run_checkpoint_ref \<Rightarrow> unit result \<times> 'v run_table" where
  "run_set_checkpoint now t run_id e c =
     (let (r, t') = fenced_write t run_id e (\<lambda>r. touch now (r\<lparr>rr_checkpoint := Some c\<rparr>))
      in (map_sum id (\<lambda>_. ()) r, t'))"

definition wait_record :: "instant \<Rightarrow> instant option \<Rightarrow> 'v run_record \<Rightarrow> 'v run_record" where
  "wait_record now until r =
     touch now (release_lease
       (r\<lparr>rr_state := Waiting,
          rr_not_before := (if rr_wake_pending r then Some now else until),
          rr_wake_pending := False\<rparr>))"

definition run_wait ::
    "instant \<Rightarrow> 'v run_table \<Rightarrow> string \<Rightarrow> nat \<Rightarrow> instant option \<Rightarrow> unit result \<times> 'v run_table" where
  "run_wait now t run_id e until =
     (let (r, t') = fenced_write t run_id e (wait_record now until) in (map_sum id (\<lambda>_. ()) r, t'))"

definition run_wake :: "instant \<Rightarrow> 'v run_table \<Rightarrow> string \<Rightarrow> unit result \<times> 'v run_table" where
  "run_wake now t run_id =
     (case lookup (runs t) run_id of
        None \<Rightarrow> (Inl (run_not_found_error run_id), t)
      | Some entry \<Rightarrow>
          (case rr_state (entry_record entry) of
             Waiting \<Rightarrow> (Inr (), modify_run run_id (\<lambda>r. touch now (r\<lparr>rr_not_before := Some now\<rparr>)) t)
           | Running \<Rightarrow> (Inr (), modify_run run_id (\<lambda>r. touch now (r\<lparr>rr_wake_pending := True\<rparr>)) t)
           | _ \<Rightarrow> (Inr (), t)))"

definition finish_record :: "instant \<Rightarrow> 'v run_outcome \<Rightarrow> 'v run_record \<Rightarrow> 'v run_record" where
  "finish_record now outcome r =
     (let r' = (case outcome of
                  OutCompleted v \<Rightarrow> r\<lparr>rr_state := RunCompleted, rr_result := Some v\<rparr>
                | OutFailed err retryable \<Rightarrow>
                    r\<lparr>rr_state := (if retryable \<and> rr_attempt r < rr_max_attempts r \<and> \<not> rr_cancel_requested r
                                   then Queued else RunFailed),
                      rr_error := Some err\<rparr>
                | OutCancelled \<Rightarrow> r\<lparr>rr_state := RunCancelled\<rparr>)
      in touch now (release_lease (r'\<lparr>rr_wake_pending := False\<rparr>)))"

definition run_finish ::
    "instant \<Rightarrow> 'v run_table \<Rightarrow> string \<Rightarrow> nat \<Rightarrow> 'v run_outcome \<Rightarrow> 'v run_record result \<times> 'v run_table" where
  "run_finish now t run_id e outcome = fenced_write t run_id e (finish_record now outcome)"

definition run_request_cancel :: "instant \<Rightarrow> 'v run_table \<Rightarrow> string \<Rightarrow> unit result \<times> 'v run_table" where
  "run_request_cancel now t run_id =
     (case lookup (runs t) run_id of
        None \<Rightarrow> (Inl (run_not_found_error run_id), t)
      | Some entry \<Rightarrow>
          (case rr_state (entry_record entry) of
             Running \<Rightarrow> (Inr (), modify_run run_id (\<lambda>r. touch now (r\<lparr>rr_cancel_requested := True\<rparr>)) t)
           | Queued \<Rightarrow> (Inr (), modify_run run_id (\<lambda>r. touch now (release_lease (r\<lparr>rr_state := RunCancelled\<rparr>))) t)
           | Waiting \<Rightarrow> (Inr (), modify_run run_id (\<lambda>r. touch now (release_lease (r\<lparr>rr_state := RunCancelled\<rparr>))) t)
           | _ \<Rightarrow> (Inr (), t)))"

definition run_get :: "'v run_table \<Rightarrow> string \<Rightarrow> 'v run_record option" where
  "run_get t run_id = map_option entry_record (lookup (runs t) run_id)"

definition run_list :: "'v run_table \<Rightarrow> run_filter \<Rightarrow> 'v run_record list" where
  "run_list t f =
     (let matching = sort_key run_order (filter (\<lambda>e. run_filter_matches f (entry_record e)) (map snd (runs t)))
      in map entry_record (case rf_limit f of Some n \<Rightarrow> take n matching | None \<Rightarrow> matching))"

definition remove_run :: "'v run_table \<Rightarrow> string \<Rightarrow> 'v run_table" where
  "remove_run t run_id =
     (case lookup (runs t) run_id of
        None \<Rightarrow> t
      | Some e \<Rightarrow>
          t\<lparr>runs := AList.delete run_id (runs t),
            by_idempotency_key :=
              (case rr_idempotency_key (entry_record e) of
                 Some key \<Rightarrow> AList.delete (rr_queue (entry_record e), key) (by_idempotency_key t)
               | None \<Rightarrow> by_idempotency_key t)\<rparr>)"

definition prunable :: "instant \<Rightarrow> 'v run_entry \<Rightarrow> bool" where
  "prunable before e \<longleftrightarrow> is_terminal (rr_state (entry_record e)) \<and> rr_updated_at (entry_record e) < before"

definition run_prune :: "'v run_table \<Rightarrow> instant \<Rightarrow> nat \<times> 'v run_table" where
  "run_prune t before =
     (let pruned = map (rr_run_id \<circ> entry_record) (filter (prunable before) (map snd (runs t)))
      in (length pruned, foldl remove_run t pruned))"

end
