(* ===== verification/Run_Lifecycle.thy ===== *)
theory Run_Lifecycle
  imports Run_Store
begin

text \<open>
  The life of one run, as a state machine on its record: every move an operation of the store makes,
  with the guard under which the store makes it. \<open>evolves\<close> lifts it to tables; the operations of
  \<^verbatim>\<open>InMemoryRunStore\<close> other than inserting and pruning only make such moves.
\<close>

inductive run_move :: "'v run_record \<Rightarrow> 'v run_record \<Rightarrow> bool" where
  mv_interrupt: "\<not> is_terminal (rr_state r) \<Longrightarrow> run_move r (interrupt_record now r)"
| mv_exhaust: "exhausted r \<Longrightarrow> run_move r (exhaust_record now r)"
| mv_start: "rr_state r = Queued \<Longrightarrow> run_move r (claim_record now w exp 1 r)"
| mv_recover: "rr_state r = Running \<Longrightarrow> rr_attempt r < rr_max_attempts r \<Longrightarrow> run_move r (claim_record now w exp 1 r)"
| mv_resume: "rr_state r = Waiting \<Longrightarrow> run_move r (claim_record now w exp 0 r)"
| mv_heartbeat: "rr_state r = Running \<Longrightarrow>
    run_move r (touch now (r\<lparr>rr_lease_expires_at := Some exp, rr_heartbeat_at := Some now\<rparr>))"
| mv_checkpoint: "rr_state r = Running \<Longrightarrow> run_move r (touch now (r\<lparr>rr_checkpoint := Some c\<rparr>))"
| mv_wait: "rr_state r = Running \<Longrightarrow> run_move r (wait_record now until r)"
| mv_wake_waiting: "rr_state r = Waiting \<Longrightarrow> run_move r (touch now (r\<lparr>rr_not_before := Some now\<rparr>))"
| mv_wake_running: "rr_state r = Running \<Longrightarrow> run_move r (touch now (r\<lparr>rr_wake_pending := True\<rparr>))"
| mv_finish: "rr_state r = Running \<Longrightarrow> run_move r (finish_record now outcome r)"

inductive_cases run_moveE: "run_move r r'"

lemmas record_defs = interrupt_record_def exhaust_record_def claim_record_def wait_record_def
  finish_record_def touch_def release_lease_def exhausted_def

definition active :: "'v run_record \<Rightarrow> bool" where
  "active r \<longleftrightarrow> rr_state r = Running \<or> rr_state r = Waiting"

definition record_ok :: "'v run_record \<Rightarrow> bool" where
  "record_ok r \<longleftrightarrow>
     0 < rr_max_attempts r \<and> rr_attempt r \<le> rr_max_attempts r \<and> rr_attempt r \<le> rr_lease_epoch r
     \<and> (rr_state r = Queued \<longrightarrow> rr_attempt r < rr_max_attempts r)
     \<and> (active r \<longrightarrow> 0 < rr_attempt r)
     \<and> (rr_state r = Running \<longleftrightarrow> rr_lease_owner r \<noteq> None)
     \<and> (rr_state r = Running \<longleftrightarrow> rr_lease_expires_at r \<noteq> None)
     \<and> (rr_wake_pending r \<longrightarrow> rr_state r = Running \<or> rr_state r = RunFailed)
     \<and> (rr_result r \<noteq> None \<longleftrightarrow> rr_state r = RunCompleted)"

lemma record_ok_queued:
  "0 < nr_max_attempts n \<Longrightarrow> record_ok (queued_record i n now)"
  by (simp add: record_ok_def queued_record_def active_def)

lemma record_ok_move: "run_move r r' \<Longrightarrow> record_ok r \<Longrightarrow> record_ok r'"
proof (induction rule: run_move.induct)
  case (mv_finish r now outcome)
  then show ?case
    by (cases outcome) (auto simp: record_ok_def record_defs active_def)
next
  case (mv_interrupt r now)
  then show ?case
    by (cases "rr_state r") (auto simp: record_ok_def record_defs active_def)
qed (auto simp: record_ok_def record_defs active_def)

text \<open>What identifies a run never changes.\<close>

definition run_identity ::
    "'v run_record \<Rightarrow> (string \<times> string \<times> string \<times> string) \<times> (string option \<times> string option)
       \<times> (instant \<times> nat) \<times> 'v \<times> acting_context option" where
  "run_identity r =
     ((rr_run_id r, rr_queue r, rr_app_name r, rr_user_id r),
      (rr_idempotency_key r, rr_concurrency_key r), (rr_created_at r, rr_max_attempts r),
      rr_input r, rr_principal r)"

lemma run_identity_move: "run_move r r' \<Longrightarrow> run_identity r' = run_identity r"
  by (induction rule: run_move.induct)
     (auto simp: run_identity_def record_defs Let_def split: run_outcome.split)

lemma terminal_no_move: "run_move r r' \<Longrightarrow> \<not> is_terminal (rr_state r)"
  by (induction rule: run_move.induct) (auto simp: exhausted_def)

lemma epoch_move: "run_move r r' \<Longrightarrow> rr_lease_epoch r \<le> rr_lease_epoch r'"
  by (induction rule: run_move.induct) (auto simp: record_defs Let_def split: run_outcome.split)

lemma attempt_move: "run_move r r' \<Longrightarrow> rr_attempt r \<le> rr_attempt r'"
  by (induction rule: run_move.induct) (auto simp: record_defs Let_def split: run_outcome.split)

lemma revision_move: "run_move r r' \<Longrightarrow> rr_revision r' = Suc (rr_revision r)"
  by (induction rule: run_move.induct) (auto simp: record_defs Let_def split: run_outcome.split)

text \<open>A run that left \<open>Running\<close> is only \<open>Running\<close> again at a higher epoch, and a pending wake stays
  pending while the run is \<open>Running\<close> at its epoch.\<close>

lemma epoch_left_running:
  "run_move r r' \<Longrightarrow> rr_state r \<noteq> Running \<Longrightarrow> rr_state r' = Running \<Longrightarrow> rr_lease_epoch r < rr_lease_epoch r'"
  by (induction rule: run_move.induct) (auto simp: record_defs Let_def split: run_outcome.splits)

lemma wake_pending_move:
  "run_move r r' \<Longrightarrow> rr_wake_pending r \<Longrightarrow> rr_state r' = Running \<Longrightarrow> rr_wake_pending r'"
  by (induction rule: run_move.induct) (auto simp: record_defs Let_def split: run_outcome.splits if_splits)

lemma rtranclp_le:
  assumes "R\<^sup>*\<^sup>* x y" and "\<And>x y. R x y \<Longrightarrow> (f x :: nat) \<le> f y"
  shows "f x \<le> f y"
  using assms(1) by induction (auto intro: order_trans assms(2))

lemma moves_facts:
  assumes "run_move\<^sup>*\<^sup>* r r'"
  shows moves_identity: "run_identity r' = run_identity r"
    and moves_ok: "record_ok r \<Longrightarrow> record_ok r'"
    and moves_epoch: "rr_lease_epoch r \<le> rr_lease_epoch r'"
    and moves_terminal: "is_terminal (rr_state r) \<Longrightarrow> r' = r"
proof -
  show "run_identity r' = run_identity r"
    using assms by induction (simp_all add: run_identity_move)
  show "record_ok r \<Longrightarrow> record_ok r'"
    using assms by induction (simp_all add: record_ok_move)
  show "rr_lease_epoch r \<le> rr_lease_epoch r'"
    using assms epoch_move by (rule rtranclp_le)
  show "is_terminal (rr_state r) \<Longrightarrow> r' = r"
    using assms by induction (auto dest: terminal_no_move)
qed

lemma moves_wake_pending:
  assumes "run_move\<^sup>*\<^sup>* r r'"
  shows "rr_state r = Running \<Longrightarrow> rr_wake_pending r \<Longrightarrow>
         rr_state r' = Running \<Longrightarrow> rr_lease_epoch r' = rr_lease_epoch r \<Longrightarrow> rr_wake_pending r'"
  using assms
proof (induction rule: converse_rtranclp_induct)
  case (step y z)
  have le: "rr_lease_epoch z \<le> rr_lease_epoch r'" "rr_lease_epoch y \<le> rr_lease_epoch z"
    using step.hyps by (simp_all add: moves_epoch epoch_move)
  show ?case
  proof (cases "rr_state z = Running")
    case True
    then have "rr_wake_pending z" using step.hyps(1) step.prems by (auto intro: wake_pending_move)
    with step.IH step.prems True le show ?thesis by simp
  next
    case False
    have "z \<noteq> r' \<and> rr_lease_epoch z < rr_lease_epoch r'"
      using step.hyps(2) False step.prems(3)
    proof (induction rule: converse_rtranclp_induct)
      case (step a b)
      show ?case
      proof (cases "rr_state b = Running")
        case True
        with step have "rr_lease_epoch a < rr_lease_epoch b" by (auto intro: epoch_left_running)
        moreover have "rr_lease_epoch b \<le> rr_lease_epoch r'" using step by (simp add: moves_epoch)
        ultimately show ?thesis by auto
      next
        case False
        with step have "rr_lease_epoch b < rr_lease_epoch r'" by simp
        moreover have "rr_lease_epoch a \<le> rr_lease_epoch b" using step by (simp add: epoch_move)
        ultimately show ?thesis by auto
      qed
    qed simp
    with step.prems le show ?thesis by simp
  qed
qed

section \<open>Tables\<close>

definition entry_evolves :: "'v run_entry \<Rightarrow> 'v run_entry \<Rightarrow> bool" where
  "entry_evolves e e' \<longleftrightarrow> entry_seq e' = entry_seq e \<and> run_move\<^sup>*\<^sup>* (entry_record e) (entry_record e')"

definition evolves :: "'v run_table \<Rightarrow> 'v run_table \<Rightarrow> bool" where
  "evolves t t' \<longleftrightarrow>
     keys (runs t') = keys (runs t) \<and> by_idempotency_key t' = by_idempotency_key t
     \<and> next_seq t' = next_seq t
     \<and> (\<forall>i. rel_option entry_evolves (lookup (runs t) i) (lookup (runs t') i))"

lemma entry_evolves_refl [simp]: "entry_evolves e e"
  by (simp add: entry_evolves_def)

lemma entry_evolves_trans: "entry_evolves a b \<Longrightarrow> entry_evolves b c \<Longrightarrow> entry_evolves a c"
  by (auto simp: entry_evolves_def)

lemma rel_option_trans:
  "rel_option R a b \<Longrightarrow> rel_option R b c \<Longrightarrow> (\<And>x y z. R x y \<Longrightarrow> R y z \<Longrightarrow> R x z) \<Longrightarrow> rel_option R a c"
  by (cases a; cases b; cases c) auto

lemma evolves_refl [simp]: "evolves t t"
  by (auto simp: evolves_def intro: option.rel_refl)

lemma evolves_trans: "evolves s t \<Longrightarrow> evolves t u \<Longrightarrow> evolves s u"
  unfolding evolves_def by (auto intro: rel_option_trans entry_evolves_trans)

lemma lookup_modify [simp]:
  "lookup (runs (modify_run i f t)) =
     (lookup (runs t))(i := map_option (\<lambda>e. e\<lparr>entry_record := f (entry_record e)\<rparr>) (lookup (runs t) i))"
  by (simp add: modify_run_def)

lemma modify_run_sel [simp]:
  "keys (runs (modify_run i f t)) = keys (runs t)"
  "by_idempotency_key (modify_run i f t) = by_idempotency_key t"
  "next_seq (modify_run i f t) = next_seq t"
  by (simp_all add: modify_run_def)

lemma evolves_modify:
  assumes "\<And>e. lookup (runs t) i = Some e \<Longrightarrow> run_move (entry_record e) (f (entry_record e))"
  shows "evolves t (modify_run i f t)"
  using assms
  by (auto simp: evolves_def entry_evolves_def option_rel_Some1 rel_option_iff split: option.split)

lemma evolves_SomeD:
  "evolves t t' \<Longrightarrow> lookup (runs t) i = Some e \<Longrightarrow>
     \<exists>e'. lookup (runs t') i = Some e' \<and> entry_evolves e e'"
  by (metis evolves_def option_rel_Some1)

lemma evolves_SomeD':
  "evolves t t' \<Longrightarrow> lookup (runs t') i = Some e' \<Longrightarrow>
     \<exists>e. lookup (runs t) i = Some e \<and> entry_evolves e e'"
  by (metis evolves_def option_rel_Some2)

lemma entry_evolves_order: "entry_evolves e e' \<Longrightarrow> run_order e' = run_order e"
  by (auto simp: entry_evolves_def run_order_def run_identity_def dest!: moves_identity)

lemma entry_evolves_identity: "entry_evolves e e' \<Longrightarrow> run_identity (entry_record e') = run_identity (entry_record e)"
  by (simp add: entry_evolves_def moves_identity)

end
