(* ===== verification/Run_Invariant.thy ===== *)
theory Run_Invariant
  imports Run_Lifecycle
begin

text \<open>
  Histories of the run store, their reachable tables, and the invariant of those tables: what the
  idempotency index means, that every record is consistent with its state, and that an unfinished
  run of a concurrency key that has started is the oldest unfinished one.
\<close>

section \<open>The operations as a history\<close>

datatype 'v run_op =
  OpEnqueue string "'v new_run"
| OpClaim string string dur
| OpHeartbeat string nat dur
| OpCheckpoint string nat run_checkpoint_ref
| OpWait string nat "instant option"
| OpWake string
| OpFinish string nat "'v run_outcome"
| OpCancel string
| OpPrune instant

fun run_exec :: "chrono \<Rightarrow> 'v run_table \<Rightarrow> instant \<times> 'v run_op \<Rightarrow> 'v run_table" where
  "run_exec ch t (now, OpEnqueue fresh r) = snd (run_enqueue now fresh t r)"
| "run_exec ch t (now, OpClaim q w ttl) = snd (run_claim ch now t q w ttl)"
| "run_exec ch t (now, OpHeartbeat i e ttl) = snd (run_heartbeat ch now t i e ttl)"
| "run_exec ch t (now, OpCheckpoint i e c) = snd (run_set_checkpoint now t i e c)"
| "run_exec ch t (now, OpWait i e until) = snd (run_wait now t i e until)"
| "run_exec ch t (now, OpWake i) = snd (run_wake now t i)"
| "run_exec ch t (now, OpFinish i e out) = snd (run_finish now t i e out)"
| "run_exec ch t (now, OpCancel i) = snd (run_request_cancel now t i)"
| "run_exec ch t (now, OpPrune before) = snd (run_prune t before)"

text \<open>\<^verbatim>\<open>Uuid::new_v4\<close> does not return an identifier the table holds.\<close>

fun fresh_ok :: "'v run_table \<Rightarrow> 'v run_op \<Rightarrow> bool" where
  "fresh_ok t (OpEnqueue fresh r) \<longleftrightarrow> lookup (runs t) fresh = None"
| "fresh_ok t _ \<longleftrightarrow> True"

text \<open>Tables reachable from an empty store at a clock reading; with \<open>steady\<close> the readings never go
  back from one operation to the next.\<close>

inductive run_reach :: "chrono \<Rightarrow> bool \<Rightarrow> 'v run_table \<Rightarrow> instant \<Rightarrow> bool" for ch steady where
  reach_empty: "run_reach ch steady run_table_empty now"
| reach_op: "run_reach ch steady t earlier \<Longrightarrow> (steady \<longrightarrow> earlier \<le> now) \<Longrightarrow> fresh_ok t op \<Longrightarrow>
             run_reach ch steady (run_exec ch t (now, op)) now"

section \<open>The invariant\<close>

definition run_inv :: "'v run_table \<Rightarrow> bool" where
  "run_inv t \<longleftrightarrow>
     distinct (keys (runs t)) \<and> distinct (keys (by_idempotency_key t))
     \<and> (\<forall>i e. lookup (runs t) i = Some e \<longrightarrow>
          rr_run_id (entry_record e) = i \<and> record_ok (entry_record e) \<and> entry_seq e < next_seq t)
     \<and> (\<forall>i j e f. lookup (runs t) i = Some e \<longrightarrow> lookup (runs t) j = Some f \<longrightarrow>
          entry_seq e = entry_seq f \<longrightarrow> i = j)
     \<and> (\<forall>q k i. lookup (by_idempotency_key t) (q, k) = Some i \<longleftrightarrow>
          (\<exists>e. lookup (runs t) i = Some e \<and> rr_queue (entry_record e) = q
               \<and> rr_idempotency_key (entry_record e) = Some k))"

lemma run_invD:
  assumes "run_inv t"
  shows inv_distinct: "distinct (keys (runs t))"
    and inv_id: "lookup (runs t) i = Some e \<Longrightarrow> rr_run_id (entry_record e) = i"
    and inv_record: "lookup (runs t) i = Some e \<Longrightarrow> record_ok (entry_record e)"
    and inv_seq: "lookup (runs t) i = Some e \<Longrightarrow> entry_seq e < next_seq t"
    and inv_seq_inj: "lookup (runs t) i = Some e \<Longrightarrow> lookup (runs t) j = Some f \<Longrightarrow>
          entry_seq e = entry_seq f \<Longrightarrow> i = j"
    and inv_index: "lookup (by_idempotency_key t) (q, k) = Some i \<longleftrightarrow>
          (\<exists>e. lookup (runs t) i = Some e \<and> rr_queue (entry_record e) = q
               \<and> rr_idempotency_key (entry_record e) = Some k)"
  using assms by (simp_all add: run_inv_def)

lemma run_identityD:
  "run_identity r' = run_identity r \<Longrightarrow>
     rr_run_id r' = rr_run_id r \<and> rr_queue r' = rr_queue r \<and> rr_idempotency_key r' = rr_idempotency_key r
     \<and> rr_concurrency_key r' = rr_concurrency_key r \<and> rr_created_at r' = rr_created_at r
     \<and> rr_max_attempts r' = rr_max_attempts r"
  by (simp add: run_identity_def)

lemma entry_evolvesD:
  assumes "entry_evolves e e'"
  shows "rr_run_id (entry_record e') = rr_run_id (entry_record e)"
    and "rr_queue (entry_record e') = rr_queue (entry_record e)"
    and "rr_idempotency_key (entry_record e') = rr_idempotency_key (entry_record e)"
    and "rr_concurrency_key (entry_record e') = rr_concurrency_key (entry_record e)"
    and "rr_created_at (entry_record e') = rr_created_at (entry_record e)"
    and "entry_seq e' = entry_seq e"
    and "record_ok (entry_record e) \<Longrightarrow> record_ok (entry_record e')"
  using run_identityD [OF entry_evolves_identity [OF assms]] assms
  by (auto simp: entry_evolves_def moves_ok)

lemma run_inv_evolves:
  assumes ev: "evolves t t'" and inv: "run_inv t"
  shows "run_inv t'"
proof -
  note D = evolves_SomeD [OF ev] and D' = evolves_SomeD' [OF ev]
  have same: "keys (runs t') = keys (runs t)" "by_idempotency_key t' = by_idempotency_key t"
    "next_seq t' = next_seq t"
    using ev by (simp_all add: evolves_def)
  have "rr_run_id (entry_record e) = i \<and> record_ok (entry_record e) \<and> entry_seq e < next_seq t"
    if "lookup (runs t') i = Some e" for i e
    using D' [OF that] inv_id [OF inv] inv_record [OF inv] inv_seq [OF inv]
    by (auto simp: entry_evolvesD)
  moreover have "i = j"
    if a: "lookup (runs t') i = Some e" "lookup (runs t') j = Some f" "entry_seq e = entry_seq f" for i j e f
  proof -
    obtain e0 f0 where "lookup (runs t) i = Some e0" "lookup (runs t) j = Some f0"
      "entry_evolves e0 e" "entry_evolves f0 f"
      using D' [OF a(1)] D' [OF a(2)] by blast
    then show "i = j" using a(3) inv_seq_inj [OF inv] by (simp add: entry_evolvesD(6))
  qed
  moreover have "(\<exists>e. lookup (runs t') i = Some e \<and> rr_queue (entry_record e) = q
                     \<and> rr_idempotency_key (entry_record e) = Some k)
       \<longleftrightarrow> (\<exists>e. lookup (runs t) i = Some e \<and> rr_queue (entry_record e) = q
                 \<and> rr_idempotency_key (entry_record e) = Some k)" for i q k
  proof (cases "lookup (runs t) i")
    case None
    then have "lookup (runs t') i = None" using D' [of i] by (cases "lookup (runs t') i") auto
    with None show ?thesis by simp
  next
    case (Some e)
    then obtain e' where "lookup (runs t') i = Some e'" "entry_evolves e e'" using D by blast
    with Some show ?thesis by (simp add: entry_evolvesD(2,3))
  qed
  ultimately show ?thesis
    using inv unfolding run_inv_def same by simp
qed

section \<open>Holders and candidates\<close>

lemma run_mem:
  assumes "run_inv t"
  shows "e \<in> snd ` set (runs t) \<and> rr_run_id (entry_record e) = i \<longleftrightarrow> lookup (runs t) i = Some e"
  by (auto simp: vals_lookup [OF inv_distinct [OF assms]] inv_id [OF assms])

lemma holders_mem:
  assumes "run_inv t"
  shows "(i, ord) \<in> set (holders t q k) \<longleftrightarrow>
           (\<exists>e. lookup (runs t) i = Some e \<and> is_holder q k e \<and> ord = run_order e)"
proof -
  have "(i, ord) \<in> set (holders t q k) \<longleftrightarrow>
      (\<exists>e. (e \<in> snd ` set (runs t) \<and> rr_run_id (entry_record e) = i) \<and> is_holder q k e \<and> ord = run_order e)"
    by (auto simp: holders_def)
  then show ?thesis by (simp only: run_mem [OF assms])
qed

lemma distinct_run_ids:
  assumes "run_inv t"
  shows "distinct (map (rr_run_id \<circ> entry_record) (filter P (map snd (runs t))))"
proof -
  have "map (rr_run_id \<circ> entry_record) (map snd (runs t)) = keys (runs t)"
  proof (simp, intro ballI)
    fix x assume "x \<in> set (runs t)"
    then have "lookup (runs t) (fst x) = Some (snd x)"
      using mem_lookup [OF inv_distinct [OF assms], of "fst x" "snd x"] by simp
    then show "rr_run_id (entry_record (snd x)) = fst x" by (rule inv_id [OF assms])
  qed
  then have "distinct (map (rr_run_id \<circ> entry_record) (map snd (runs t)))"
    using inv_distinct [OF assms] by (simp only:)
  then show ?thesis by (rule distinct_map_filter)
qed

lemma distinct_holders:
  assumes "run_inv t"
  shows "distinct (map fst (holders t q k))"
proof -
  show ?thesis
    using distinct_run_ids [OF assms]
    by (simp add: holders_def distinct_map_sort_key o_def)
qed

lemma run_blocked_iff:
  assumes "run_inv t"
  shows "run_blocked t q ord e \<longleftrightarrow>
     (\<exists>k i h. rr_concurrency_key (entry_record e) = Some k \<and> lookup (runs t) i = Some h
        \<and> is_holder q k h \<and> run_order h < ord)"
proof (cases "rr_concurrency_key (entry_record e)")
  case None
  then show ?thesis by (simp add: run_blocked_def)
next
  case (Some k)
  have "run_blocked t q ord e \<longleftrightarrow> (\<exists>p \<in> set (holders t q k). snd p < ord)"
  proof (cases "holders t q k")
    case Nil
    then show ?thesis by (simp add: run_blocked_def Some)
  next
    case (Cons p ps)
    have "snd p \<le> snd x" if "x \<in> set (holders t q k)" for x
      using hd_sort_key_le [of x "map (\<lambda>e. (rr_run_id (entry_record e), run_order e))
          (filter (is_holder q k) (map snd (runs t)))" snd] that Cons
      by (simp add: holders_def)
    then show ?thesis
      using Cons by (cases p) (auto simp: run_blocked_def Some intro: le_less_trans)
  qed
  also have "\<dots> \<longleftrightarrow> (\<exists>i o'. (i, o') \<in> set (holders t q k) \<and> o' < ord)"
    by force
  also have "\<dots> \<longleftrightarrow> (\<exists>i h. lookup (runs t) i = Some h \<and> is_holder q k h \<and> run_order h < ord)"
    unfolding holders_mem [OF assms] by blast
  finally show ?thesis by (simp add: Some)
qed

lemma candidates_mem:
  assumes "run_inv t"
  shows "(ord, i) \<in> set (claim_candidates t q) \<longleftrightarrow>
           (\<exists>e. lookup (runs t) i = Some e \<and> ord = run_order e \<and> rr_queue (entry_record e) = q
                \<and> \<not> is_terminal (rr_state (entry_record e)))"
proof -
  have "(ord, i) \<in> set (claim_candidates t q) \<longleftrightarrow>
      (\<exists>e. (e \<in> snd ` set (runs t) \<and> rr_run_id (entry_record e) = i) \<and> ord = run_order e
           \<and> rr_queue (entry_record e) = q \<and> \<not> is_terminal (rr_state (entry_record e)))"
    by (auto simp: claim_candidates_def)
  then show ?thesis by (simp only: run_mem [OF assms])
qed

lemma candidates_sorted: "sorted (claim_candidates t q)"
  by (simp add: claim_candidates_def)

lemma candidates_distinct:
  assumes "run_inv t"
  shows "distinct (map snd (claim_candidates t q))"
proof -
  show ?thesis
    using distinct_run_ids [OF assms]
    by (simp add: claim_candidates_def distinct_map_sort_key o_def)
qed

section \<open>Every operation evolves, inserts or prunes\<close>

lemma evolves_interrupt:
  assumes "distinct (map fst hs)"
    and "\<forall>h \<in> set hs. \<forall>e. lookup (runs t) (fst h) = Some e \<longrightarrow> \<not> is_terminal (rr_state (entry_record e))"
  shows "evolves t (interrupt_holders now hs t)"
  using assms
proof (induction hs arbitrary: t)
  case Nil
  show ?case by (simp add: interrupt_holders_def)
next
  case (Cons h hs)
  let ?t = "modify_run (fst h) (interrupt_record now) t"
  have "evolves t ?t"
    using Cons.prems by (auto intro!: evolves_modify mv_interrupt)
  moreover have "evolves ?t (interrupt_holders now hs ?t)"
    using Cons.prems by (intro Cons.IH) (auto simp: image_iff)
  ultimately show ?case
    by (auto simp: interrupt_holders_def intro: evolves_trans)
qed

lemma holders_alive:
  assumes "run_inv t"
  shows "\<forall>h \<in> set (holders t q k). \<forall>e. lookup (runs t) (fst h) = Some e \<longrightarrow> \<not> is_terminal (rr_state (entry_record e))"
  by (auto simp: holders_mem [OF assms] is_holder_def)

lemma holders_evolve:
  assumes "run_inv t"
  shows "evolves t (interrupt_holders now (holders t q k) t)"
  using distinct_holders [OF assms] holders_alive [OF assms] by (rule evolves_interrupt)

lemma claim_started_move:
  assumes "claim_started now t q ord e = Some n"
  shows "exhausted (entry_record e) \<Longrightarrow> run_move (entry_record e) (exhaust_record now' (entry_record e))"
    and "\<not> exhausted (entry_record e) \<Longrightarrow> run_move (entry_record e) (claim_record now' w exp n (entry_record e))"
proof -
  show "exhausted (entry_record e) \<Longrightarrow> run_move (entry_record e) (exhaust_record now' (entry_record e))"
    by (rule mv_exhaust)
  show "\<not> exhausted (entry_record e) \<Longrightarrow> run_move (entry_record e) (claim_record now' w exp n (entry_record e))"
    using assms
    by (cases "rr_state (entry_record e)")
       (auto simp: claim_started_def Let_def exhausted_def split: if_splits option.splits
         intro: mv_start [simplified] mv_recover [simplified] mv_resume)
qed

lemma evolves_claim_loop: "evolves t (snd (claim_loop now q w exp cs t))"
proof (induction cs arbitrary: t)
  case (Cons c cs)
  obtain ord i where c: "c = (ord, i)" by (rule prod.exhaust)
  show ?case
  proof (cases "lookup (runs t) i")
    case None
    then show ?thesis using Cons.IH by (simp add: c)
  next
    case (Some e)
    show ?thesis
    proof (cases "claim_started now t q ord e")
      case None
      then show ?thesis using Cons.IH by (simp add: c Some)
    next
      case (Some n)
      note move = claim_started_move [OF this]
      show ?thesis
      proof (cases "exhausted (entry_record e)")
        case True
        then have "evolves t (modify_run i (exhaust_record now) t)"
          using move \<open>lookup (runs t) i = Some e\<close> by (auto intro!: evolves_modify)
        then show ?thesis
          using Cons.IH by (simp add: c \<open>lookup (runs t) i = Some e\<close> Some True evolves_trans)
      next
        case False
        then have "evolves t (modify_run i (claim_record now w exp n) t)"
          using move \<open>lookup (runs t) i = Some e\<close> by (auto intro!: evolves_modify)
        then show ?thesis by (simp add: c \<open>lookup (runs t) i = Some e\<close> Some False Let_def)
      qed
    qed
  qed
qed simp

lemma evolves_claim: "evolves t (snd (run_claim ch now t q w ttl))"
  using evolves_claim_loop
  by (auto simp: run_claim_def case_prod_unfold Let_def split: sum.split)

lemma fenced_Inr:
  "fenced t i e = Inr r \<longleftrightarrow>
     (\<exists>entry. lookup (runs t) i = Some entry \<and> entry_record entry = r
        \<and> rr_state r = Running \<and> rr_lease_epoch r = e)"
  by (auto simp: fenced_def split: option.split)

lemma evolves_fenced_write:
  "(\<And>r. rr_state r = Running \<Longrightarrow> run_move r (f r)) \<Longrightarrow> evolves t (snd (fenced_write t i e f))"
  by (auto simp: fenced_write_def fenced_Inr split: sum.split intro!: evolves_modify)

lemma evolves_wake: "evolves t (snd (run_wake now t i))"
  by (auto simp: run_wake_def split: option.split run_state.split
      intro!: evolves_modify mv_wake_waiting mv_wake_running)

lemma cancel_is_interrupt:
  "rr_state r = Running \<Longrightarrow> touch now (r\<lparr>rr_cancel_requested := True\<rparr>) = interrupt_record now r"
  "rr_state r = Queued \<or> rr_state r = Waiting \<Longrightarrow>
     touch now (release_lease (r\<lparr>rr_state := RunCancelled\<rparr>)) = interrupt_record now r"
  by (auto simp: interrupt_record_def)

lemma evolves_cancel: "evolves t (snd (run_request_cancel now t i))"
  by (auto simp: run_request_cancel_def cancel_is_interrupt split: option.split run_state.split
      intro!: evolves_modify mv_interrupt)

lemma evolves_exec:
  assumes "\<And>fresh r. op \<noteq> OpEnqueue fresh r" and "\<And>b. op \<noteq> OpPrune b"
  shows "evolves t (run_exec ch t (now, op))"
proof (cases op)
  case (OpHeartbeat i e ttl)
  have "evolves t (snd (fenced_write t i e (\<lambda>r. touch now (r\<lparr>rr_lease_expires_at := Some exp, rr_heartbeat_at := Some now\<rparr>))))" for exp
    by (rule evolves_fenced_write) (rule mv_heartbeat)
  then show ?thesis
    by (auto simp: OpHeartbeat run_heartbeat_def case_prod_unfold Let_def split: sum.split)
next
  case (OpCheckpoint i e c)
  have "evolves t (snd (fenced_write t i e (\<lambda>r. touch now (r\<lparr>rr_checkpoint := Some c\<rparr>))))"
    by (rule evolves_fenced_write) (rule mv_checkpoint)
  then show ?thesis by (simp add: OpCheckpoint run_set_checkpoint_def case_prod_unfold Let_def)
next
  case (OpWait i e until)
  have "evolves t (snd (fenced_write t i e (wait_record now until)))"
    by (rule evolves_fenced_write) (rule mv_wait)
  then show ?thesis by (simp add: OpWait run_wait_def case_prod_unfold Let_def)
next
  case (OpFinish i e out)
  have "evolves t (snd (fenced_write t i e (finish_record now out)))"
    by (rule evolves_fenced_write) (rule mv_finish)
  then show ?thesis by (simp add: OpFinish run_finish_def)
qed (use assms in \<open>auto simp: evolves_claim evolves_wake evolves_cancel\<close>)

lemma enqueue_cases [case_names unchanged inserted]:
  assumes "run_inv t"
  obtains res where "run_enqueue now fresh t r = (res, t)" "\<And>x. res \<noteq> Inr (Created x)"
  | t1 where "evolves t t1" "validate_run r = Inr ()" "existing_run t r = None"
      "run_enqueue now fresh t r = insert_run now fresh r t1"
      "t1 = t \<or> (\<exists>k. nr_concurrency_key r = Some k \<and> nr_on_conflict r = Interrupt
                  \<and> t1 = interrupt_holders now (holders t (nr_queue r) k) t)"
proof (cases "validate_run r")
  case (Inl err)
  then show ?thesis using that(1) by (simp add: run_enqueue_def)
next
  case (Inr u)
  show ?thesis
  proof (cases "existing_run t r")
    case (Some entry)
    then show ?thesis using that(1) Inr by (simp add: run_enqueue_def)
  next
    case None
    note plain = that(2) [of t, simplified, OF _ None]
    show ?thesis
    proof (cases "nr_concurrency_key r")
      case None
      then show ?thesis using plain Inr \<open>existing_run t r = None\<close> by (simp add: run_enqueue_def)
    next
      case (Some k)
      note simps = run_enqueue_def Inr \<open>existing_run t r = None\<close> Some Let_def
      show ?thesis
      proof (cases "nr_on_conflict r")
        case Reject
        then show ?thesis
          using plain that(1) Inr
          by (cases "holders t (nr_queue r) k") (auto simp: simps)
      next
        case Enqueue
        then show ?thesis using plain Inr by (simp add: simps)
      next
        case Interrupt
        then show ?thesis
          using that(2) [OF holders_evolve [OF assms]] Inr Some \<open>existing_run t r = None\<close> by (simp add: simps)
      qed
    qed
  qed
qed

end
