(* ===== verification/Run_Reach.thy ===== *)
theory Run_Reach
  imports Run_Invariant
begin

text \<open>
  Preservation: the invariant holds in every reachable table, and with a clock that never goes back
  the oldest unfinished run of a concurrency key is the only one that may have started.
\<close>

section \<open>Inserting and pruning keep the invariant\<close>

lemma validate_run_Inr: "validate_run r = Inr () \<Longrightarrow> 0 < nr_max_attempts r"
  by (auto simp: validate_run_def Let_def split: option.splits if_splits)

lemma existing_None_index:
  assumes "run_inv t" and "existing_run t r = None" and "nr_idempotency_key r = Some k"
  shows "lookup (by_idempotency_key t) (nr_queue r, k) = None"
proof (cases "lookup (by_idempotency_key t) (nr_queue r, k)")
  case (Some i)
  then obtain e where "lookup (runs t) i = Some e" using inv_index [OF assms(1)] by blast
  with Some assms(2,3) show ?thesis by (simp add: existing_run_def)
qed

lemma existing_run_evolves:
  assumes "evolves t t'"
  shows "existing_run t' r = None \<longleftrightarrow> existing_run t r = None"
proof -
  have "lookup (runs t') i = None \<longleftrightarrow> lookup (runs t) i = None" for i
    using evolves_SomeD [OF assms, of i] evolves_SomeD' [OF assms, of i]
    by (cases "lookup (runs t) i"; cases "lookup (runs t') i") auto
  moreover have "by_idempotency_key t' = by_idempotency_key t" using assms by (simp add: evolves_def)
  ultimately show ?thesis by (auto simp: existing_run_def split: option.splits)
qed

lemma insert_run_lookup [simp]:
  "lookup (runs (snd (insert_run now fresh r t))) =
     (lookup (runs t))(fresh \<mapsto> \<lparr>entry_record = queued_record fresh r now, entry_seq = next_seq t\<rparr>)"
  by (simp add: insert_run_def Let_def)

lemma insert_run_sel [simp]:
  "next_seq (snd (insert_run now fresh r t)) = Suc (next_seq t)"
  "by_idempotency_key (snd (insert_run now fresh r t)) =
     (case nr_idempotency_key r of
        Some key \<Rightarrow> AList.update (nr_queue r, key) fresh (by_idempotency_key t)
      | None \<Rightarrow> by_idempotency_key t)"
  by (simp_all add: insert_run_def Let_def)

lemma queued_record_sel [simp]:
  "rr_run_id (queued_record i r now) = i" "rr_queue (queued_record i r now) = nr_queue r"
  "rr_idempotency_key (queued_record i r now) = nr_idempotency_key r"
  "rr_concurrency_key (queued_record i r now) = nr_concurrency_key r"
  "rr_state (queued_record i r now) = Queued" "rr_created_at (queued_record i r now) = now"
  by (simp_all add: queued_record_def)

lemma run_inv_insert:
  assumes inv: "run_inv t" and new: "lookup (runs t) fresh = None"
    and ok: "validate_run r = Inr ()" and idx: "existing_run t r = None"
  shows "run_inv (snd (insert_run now fresh r t))" (is "run_inv ?t")
proof -
  note D = inv_id [OF inv] inv_record [OF inv] inv_seq [OF inv] inv_seq_inj [OF inv]
  have rec: "record_ok (queued_record fresh r now)"
    using ok by (intro record_ok_queued validate_run_Inr)
  have seqs: "entry_seq e \<noteq> next_seq t" if "lookup (runs t) i = Some e" for i e
    using D(3) [OF that] by simp
  have keys: "distinct (keys (runs ?t))" "distinct (keys (by_idempotency_key ?t))"
    using inv by (auto simp: run_inv_def insert_run_def Let_def distinct_update split: option.split)
  have ids: "rr_run_id (entry_record e) = i \<and> record_ok (entry_record e) \<and> entry_seq e < next_seq ?t"
    if "lookup (runs ?t) i = Some e" for i e
    using that D(1-3) rec by (fastforce split: if_splits)
  have inj: "i = j" if "lookup (runs ?t) i = Some e" "lookup (runs ?t) j = Some f" "entry_seq e = entry_seq f"
    for i j e f
    using that seqs [of i e] seqs [of j f] D(4) [of i e j f]
    by (cases "i = fresh"; cases "j = fresh") auto
  have index: "lookup (by_idempotency_key ?t) (q, k) = Some i \<longleftrightarrow>
          (\<exists>e. lookup (runs ?t) i = Some e \<and> rr_queue (entry_record e) = q
               \<and> rr_idempotency_key (entry_record e) = Some k)" for q k i
  proof (cases "nr_idempotency_key r")
    case None
    then show ?thesis using inv_index [OF inv, of q k i] new by auto
  next
    case (Some key)
    note free = existing_None_index [OF inv idx Some]
    show ?thesis
      using inv_index [OF inv, of q k i] new free Some inv_index [OF inv, of "nr_queue r" key i]
      by auto
  qed
  show ?thesis
    unfolding run_inv_def using keys ids inj index by blast
qed

lemma remove_run_lookup [simp]: "lookup (runs (remove_run t i)) = (lookup (runs t))(i := None)"
  by (auto simp: remove_run_def fun_eq_iff split: option.split)

lemma run_inv_remove:
  assumes inv: "run_inv t"
  shows "run_inv (remove_run t i)"
proof (cases "lookup (runs t) i")
  case None
  then show ?thesis using inv by (simp add: remove_run_def)
next
  case (Some e)
  let ?t = "remove_run t i"
  have nodup: "distinct (keys (runs ?t))" "distinct (keys (by_idempotency_key ?t))"
    using inv Some by (auto simp: run_inv_def remove_run_def distinct_delete split: option.split)
  have index: "lookup (by_idempotency_key ?t) (q, k) = Some j \<longleftrightarrow>
          (\<exists>e. lookup (runs ?t) j = Some e \<and> rr_queue (entry_record e) = q
               \<and> rr_idempotency_key (entry_record e) = Some k)" for q k j
  proof (cases "rr_idempotency_key (entry_record e)")
    case None
    then have "by_idempotency_key ?t = by_idempotency_key t" by (simp add: remove_run_def Some)
    then show ?thesis using inv_index [OF inv, of q k j] None Some by auto
  next
    case (Some key)
    have mine: "lookup (by_idempotency_key t) (rr_queue (entry_record e), key) = Some i"
      using inv_index [OF inv] \<open>lookup (runs t) i = Some e\<close> Some by blast
    have "by_idempotency_key ?t = AList.delete (rr_queue (entry_record e), key) (by_idempotency_key t)"
      using \<open>lookup (runs t) i = Some e\<close> Some by (simp add: remove_run_def)
    then have "lookup (by_idempotency_key ?t) (q, k) = Some j \<longleftrightarrow>
        lookup (by_idempotency_key t) (q, k) = Some j \<and> j \<noteq> i"
      using mine inv_index [OF inv, of q k i] \<open>lookup (runs t) i = Some e\<close> Some by auto
    then show ?thesis using inv_index [OF inv, of q k j] by auto
  qed
  have "next_seq ?t = next_seq t" by (simp add: remove_run_def Some)
  then show ?thesis
    unfolding run_inv_def using nodup index inv_id [OF inv] inv_record [OF inv] inv_seq [OF inv]
      inv_seq_inj [OF inv] by (auto split: if_splits)
qed

lemma run_inv_remove_all: "run_inv t \<Longrightarrow> run_inv (foldl remove_run t is)"
  by (induction "is" arbitrary: t) (auto intro: run_inv_remove)

lemma remove_all_lookup:
  "lookup (runs (foldl remove_run t is)) i = (if i \<in> set is then None else lookup (runs t) i)"
  by (induction "is" arbitrary: t) auto

text \<open>Pruning: exactly the finished runs last changed before the bound are gone.\<close>

lemma prune_lookup:
  assumes "run_inv t"
  shows "lookup (runs (snd (run_prune t before))) i =
     (case lookup (runs t) i of
        Some e \<Rightarrow> if prunable before e then None else Some e
      | None \<Rightarrow> None)"
proof -
  have "i \<in> set (map (rr_run_id \<circ> entry_record) (filter (prunable before) (map snd (runs t))))
        \<longleftrightarrow> (\<exists>e. (e \<in> snd ` set (runs t) \<and> rr_run_id (entry_record e) = i) \<and> prunable before e)"
    by auto
  also have "\<dots> \<longleftrightarrow> (\<exists>e. lookup (runs t) i = Some e \<and> prunable before e)"
    by (simp only: run_mem [OF assms])
  finally show ?thesis
    by (auto simp: run_prune_def Let_def remove_all_lookup split: option.split)
qed

lemma run_inv_exec:
  assumes inv: "run_inv t" and fresh: "fresh_ok t op"
  shows "run_inv (run_exec ch t (now, op))"
proof (cases "(\<exists>f r. op = OpEnqueue f r) \<or> (\<exists>b. op = OpPrune b)")
  case False
  then show ?thesis using inv by (intro run_inv_evolves [OF evolves_exec]) auto
next
  case True
  then consider f r where "op = OpEnqueue f r" | b where "op = OpPrune b" by blast
  then show ?thesis
  proof cases
    case (1 f r)
    show ?thesis
    proof (rule enqueue_cases [OF inv, of now f r])
      fix res assume "run_enqueue now f t r = (res, t)"
      then show ?thesis using inv 1 by simp
    next
      fix t1
      assume ev: "evolves t t1" and v: "validate_run r = Inr ()" and e: "existing_run t r = None"
        and eq: "run_enqueue now f t r = insert_run now f r t1"
      have "lookup (runs t1) f = None"
        using fresh 1 evolves_SomeD' [OF ev, of f] by (cases "lookup (runs t1) f") auto
      then have "run_inv (snd (insert_run now f r t1))"
        using run_inv_evolves [OF ev inv] v e existing_run_evolves [OF ev, of r]
        by (intro run_inv_insert) auto
      then show ?thesis using 1 eq by simp
    qed
  next
    case (2 b)
    then show ?thesis using run_inv_remove_all [OF inv] by (simp add: run_prune_def Let_def)
  qed
qed

lemma run_inv_empty: "run_inv run_table_empty"
  by (simp add: run_inv_def run_table_empty_def)

lemma reach_inv: "run_reach ch steady t now \<Longrightarrow> run_inv t"
  by (induction rule: run_reach.induct) (simp_all add: run_inv_empty run_inv_exec)

section \<open>The started run of a concurrency key is the oldest\<close>

definition key_front :: "'v run_table \<Rightarrow> instant \<Rightarrow> bool" where
  "key_front t bound \<longleftrightarrow>
     (\<forall>i e. lookup (runs t) i = Some e \<longrightarrow> rr_created_at (entry_record e) \<le> bound)
     \<and> (\<forall>i e j f q k. lookup (runs t) i = Some e \<longrightarrow> lookup (runs t) j = Some f \<longrightarrow>
          is_holder q k e \<longrightarrow> is_holder q k f \<longrightarrow> active (entry_record e) \<longrightarrow> run_order e \<le> run_order f)"

lemma holder_evolves: "entry_evolves e e' \<Longrightarrow> is_holder q k e' \<Longrightarrow> is_holder q k e"
  using moves_terminal [of "entry_record e" "entry_record e'"]
  by (auto simp: is_holder_def entry_evolvesD) (auto simp: entry_evolves_def)

lemma front_evolves:
  assumes ev: "evolves t t'" and front: "key_front t earlier" and le: "earlier \<le> now"
    and quiet: "\<And>i e e'. lookup (runs t) i = Some e \<Longrightarrow> lookup (runs t') i = Some e' \<Longrightarrow>
        active (entry_record e') \<Longrightarrow>
        active (entry_record e)
        \<or> (\<forall>q k j f. is_holder q k e \<longrightarrow> lookup (runs t) j = Some f \<longrightarrow> is_holder q k f \<longrightarrow> run_order e \<le> run_order f)"
  shows "key_front t' now"
  unfolding key_front_def
proof (intro conjI allI impI)
  fix i e assume "lookup (runs t') i = Some e"
  then obtain e0 where "lookup (runs t) i = Some e0" "entry_evolves e0 e"
    using evolves_SomeD' [OF ev] by blast
  then show "rr_created_at (entry_record e) \<le> now"
    using front le by (fastforce simp: key_front_def entry_evolvesD)
next
  fix i e j f q k
  assume a: "lookup (runs t') i = Some e" "lookup (runs t') j = Some f"
    "is_holder q k e" "is_holder q k f" "active (entry_record e)"
  obtain e0 f0 where b: "lookup (runs t) i = Some e0" "entry_evolves e0 e"
    "lookup (runs t) j = Some f0" "entry_evolves f0 f"
    using evolves_SomeD' [OF ev a(1)] evolves_SomeD' [OF ev a(2)] by blast
  have h: "is_holder q k e0" "is_holder q k f0" using a b by (auto intro: holder_evolves)
  have "run_order e0 \<le> run_order f0"
    using quiet [OF b(1) a(1,5)] b h front unfolding key_front_def by blast
  then show "run_order e \<le> run_order f" using b by (simp add: entry_evolves_order)
qed

lemma front_modify_quiet:
  assumes "key_front t earlier" "earlier \<le> now" "evolves t (modify_run i f t)"
    and "\<And>e. lookup (runs t) i = Some e \<Longrightarrow> active (f (entry_record e)) \<Longrightarrow> active (entry_record e)"
  shows "key_front (modify_run i f t) now"
  using assms(3,1,2) by (rule front_evolves) (use assms(4) in \<open>auto split: if_splits\<close>)

lemma front_fenced_write:
  assumes "key_front t earlier" "earlier \<le> now" "\<And>r. rr_state r = Running \<Longrightarrow> run_move r (f r)"
  shows "key_front (snd (fenced_write t i e f)) now"
proof (cases "fenced t i e")
  case (Inl err)
  then show ?thesis using assms by (force simp: fenced_write_def key_front_def)
next
  case (Inr r)
  then have "key_front (modify_run i f t) now"
    using assms by (intro front_modify_quiet evolves_modify) (auto simp: fenced_Inr active_def)
  then show ?thesis using Inr by (simp add: fenced_write_def)
qed

lemma front_insert:
  assumes front: "key_front t earlier" and inv: "run_inv t" and le: "earlier \<le> now"
  shows "key_front (snd (insert_run now fresh r t)) now"
  unfolding key_front_def
proof (intro conjI allI impI)
  fix i e assume "lookup (runs (snd (insert_run now fresh r t))) i = Some e"
  then show "rr_created_at (entry_record e) \<le> now"
    using front le by (fastforce simp: key_front_def split: if_splits)
next
  fix i e j f q k
  assume a: "lookup (runs (snd (insert_run now fresh r t))) i = Some e"
    "lookup (runs (snd (insert_run now fresh r t))) j = Some f"
    "is_holder q k e" "is_holder q k f" "active (entry_record e)"
  have i: "lookup (runs t) i = Some e"
    using a(1,5) by (auto simp: active_def split: if_splits)
  then have "rr_created_at (entry_record e) \<le> now" "entry_seq e < next_seq t"
    using front le inv_seq [OF inv] by (fastforce simp: key_front_def)+
  then show "run_order e \<le> run_order f"
    using a i front unfolding key_front_def
    by (auto simp: run_order_def split: if_splits)
qed

lemma front_remove: "key_front t earlier \<Longrightarrow> earlier \<le> now \<Longrightarrow> key_front (foldl remove_run t is) now"
  by (fastforce simp: key_front_def remove_all_lookup split: if_splits)

lemma front_interrupt:
  assumes "key_front t now" "distinct (map fst hs)"
    and "\<forall>h \<in> set hs. \<forall>e. lookup (runs t) (fst h) = Some e \<longrightarrow> \<not> is_terminal (rr_state (entry_record e))"
  shows "key_front (interrupt_holders now hs t) now"
  using assms
proof (induction hs arbitrary: t)
  case (Cons h hs)
  let ?t = "modify_run (fst h) (interrupt_record now) t"
  have "evolves t ?t"
    using Cons.prems by (auto intro!: evolves_modify mv_interrupt)
  then have "key_front ?t now"
    using Cons.prems by (intro front_modify_quiet) (auto simp: active_def record_defs split: if_splits)
  then have "key_front (interrupt_holders now hs ?t) now"
    using Cons.prems by (intro Cons.IH) (auto simp: image_iff)
  then show ?case by (simp add: interrupt_holders_def)
qed (simp add: interrupt_holders_def)

definition candidates_ok :: "'v run_table \<Rightarrow> string \<Rightarrow> ((instant \<times> nat) \<times> string) list \<Rightarrow> bool" where
  "candidates_ok t q cs \<longleftrightarrow>
     sorted_wrt (\<lambda>a b. fst a < fst b) cs \<and> distinct (map snd cs)
     \<and> (\<forall>(ord, i) \<in> set cs. \<forall>e. lookup (runs t) i = Some e \<longrightarrow>
          run_order e = ord \<and> rr_queue (entry_record e) = q)"

lemma candidates_ok_evolves: "evolves t t' \<Longrightarrow> candidates_ok t q cs \<Longrightarrow> candidates_ok t' q cs"
  unfolding candidates_ok_def
proof (elim conjE, intro conjI ballI, simp_all add: case_prod_unfold, intro allI impI)
  fix c e
  assume ev: "evolves t t'" and e: "lookup (runs t') (snd c) = Some e" and c: "c \<in> set cs"
    and all: "\<forall>x\<in>set cs. \<forall>e. lookup (runs t) (snd x) = Some e \<longrightarrow>
        run_order e = fst x \<and> rr_queue (entry_record e) = q"
  obtain e0 where "lookup (runs t) (snd c) = Some e0" "entry_evolves e0 e"
    using evolves_SomeD' [OF ev e] by blast
  then show "run_order e = fst c \<and> rr_queue (entry_record e) = q"
    using all c by (simp add: entry_evolves_order entry_evolvesD)
qed

lemma candidates_ok_Cons: "candidates_ok t q (c # cs) \<Longrightarrow> candidates_ok t q cs"
  by (auto simp: candidates_ok_def)

lemma candidates_ok_init:
  assumes inv: "run_inv t"
  shows "candidates_ok t q (claim_candidates t q)"
proof -
  let ?cs = "claim_candidates t q"
  have same: "i = j" if "(ord, i) \<in> set ?cs" "(ord, j) \<in> set ?cs" for ord i j
    using that inv_seq_inj [OF inv] by (auto simp: candidates_mem [OF inv] run_order_def)
  have "sorted_wrt (\<lambda>a b. fst a < fst b) ?cs"
    unfolding sorted_wrt_iff_nth_less
  proof (intro allI impI)
    fix m n assume mn: "m < n" "n < length ?cs"
    have "fst (?cs ! m) \<le> fst (?cs ! n)"
      using mn by (intro lex_le_fst sorted_nth_mono [OF candidates_sorted]) auto
    moreover have "snd (?cs ! m) \<noteq> snd (?cs ! n)"
      using candidates_distinct [OF inv, of q] mn by (auto simp: distinct_conv_nth)
    moreover have "?cs ! m \<in> set ?cs" "?cs ! n \<in> set ?cs" using mn by auto
    then have "snd (?cs ! m) = snd (?cs ! n)" if "fst (?cs ! m) = fst (?cs ! n)"
      using same [of "fst (?cs ! m)" "snd (?cs ! m)" "snd (?cs ! n)"] that
      by (metis prod.collapse)
    ultimately show "fst (?cs ! m) < fst (?cs ! n)" by (metis le_neq_trans)
  qed
  then show ?thesis
    using candidates_distinct [OF inv, of q] by (auto simp: candidates_ok_def candidates_mem [OF inv])
qed

lemma front_claim_loop:
  assumes "run_inv t" "key_front t now" "candidates_ok t q cs"
  shows "key_front (snd (claim_loop now q w exp cs t)) now"
  using assms
proof (induction cs arbitrary: t)
  case (Cons c cs)
  obtain ord i where c: "c = (ord, i)" by (rule prod.exhaust)
  note tail = candidates_ok_Cons [OF Cons.prems(3)]
  note skip = Cons.IH [OF Cons.prems(1,2) tail]
  show ?case
  proof (cases "lookup (runs t) i")
    case None
    then show ?thesis using skip by (simp add: c)
  next
    case e: (Some e)
    show ?thesis
    proof (cases "claim_started now t q ord e")
      case None
      then show ?thesis using skip by (simp add: c e)
    next
      case n: (Some n)
      note move = claim_started_move [OF n]
      show ?thesis
      proof (cases "exhausted (entry_record e)")
        case True
        let ?t = "modify_run i (exhaust_record now) t"
        have ev: "evolves t ?t" using move(1) [OF True] e by (auto intro!: evolves_modify)
        moreover have "key_front ?t now"
          using Cons.prems(2) _ ev by (rule front_modify_quiet) (auto simp: active_def record_defs)
        ultimately have "key_front (snd (claim_loop now q w exp cs ?t)) now"
          using tail Cons.prems(1) by (intro Cons.IH) (auto intro: run_inv_evolves candidates_ok_evolves)
        then show ?thesis by (simp add: c e n True)
      next
        case False
        let ?t = "modify_run i (claim_record now w exp n) t"
        have ev: "evolves t ?t" using move(2) [OF False] e by (auto intro!: evolves_modify)
        have ord: "run_order e = ord" "rr_queue (entry_record e) = q"
          using Cons.prems(3) e by (auto simp: candidates_ok_def c)
        have "active (entry_record e) \<or> \<not> run_blocked t q ord e"
          using n by (auto simp: claim_started_def Let_def active_def split: run_state.splits if_splits)
        then have "key_front ?t now"
          using ord e
          by (intro front_evolves [OF ev Cons.prems(2)])
             (auto simp: run_blocked_iff [OF Cons.prems(1)] not_less is_holder_def split: if_splits)
        then show ?thesis by (simp add: c e n False Let_def)
      qed
    qed
  qed
qed simp

lemma front_exec:
  assumes front: "key_front t earlier" and inv: "run_inv t" and le: "earlier \<le> now"
  shows "key_front (run_exec ch t (now, op)) now"
proof -
  have later: "key_front t now" using front le by (force simp: key_front_def)
  note wr = front_fenced_write [OF front le]
  show ?thesis
  proof (cases op)
    case (OpEnqueue f r)
    show ?thesis
    proof (rule enqueue_cases [OF inv, of now f r])
      fix res assume "run_enqueue now f t r = (res, t)"
      then show ?thesis using later OpEnqueue by simp
    next
      fix t1
      assume ev: "evolves t t1" and eq: "run_enqueue now f t r = insert_run now f r t1"
        and t1: "t1 = t \<or> (\<exists>k. nr_concurrency_key r = Some k \<and> nr_on_conflict r = Interrupt
                  \<and> t1 = interrupt_holders now (holders t (nr_queue r) k) t)"
      have "key_front t1 now"
        using t1
      proof
        assume "\<exists>k. nr_concurrency_key r = Some k \<and> nr_on_conflict r = Interrupt
                  \<and> t1 = interrupt_holders now (holders t (nr_queue r) k) t"
        then obtain k where "t1 = interrupt_holders now (holders t (nr_queue r) k) t" by blast
        then show ?thesis
          using front_interrupt [OF later distinct_holders [OF inv] holders_alive [OF inv]] by simp
      qed (simp add: later)
      then have "key_front (snd (insert_run now f r t1)) now"
        by (rule front_insert [OF _ run_inv_evolves [OF ev inv]]) simp
      then show ?thesis using OpEnqueue eq by simp
    qed
  next
    case (OpClaim q w ttl)
    then show ?thesis
      using front_claim_loop [OF inv later candidates_ok_init [OF inv]] later
      by (auto simp: run_claim_def case_prod_unfold Let_def split: sum.split)
  next
    case (OpHeartbeat i e ttl)
    then show ?thesis
      using wr [OF mv_heartbeat] later
      by (auto simp: run_heartbeat_def case_prod_unfold Let_def split: sum.split)
  next
    case (OpCheckpoint i e c)
    then show ?thesis
      using wr [OF mv_checkpoint] by (simp add: run_set_checkpoint_def case_prod_unfold Let_def)
  next
    case (OpWait i e until)
    then show ?thesis using wr [OF mv_wait] by (simp add: run_wait_def case_prod_unfold Let_def)
  next
    case (OpWake i)
    then show ?thesis
      using later evolves_wake [of t now i]
      by (auto simp: run_wake_def active_def touch_def split: option.splits run_state.splits
          intro!: front_modify_quiet [OF front le])
  next
    case (OpFinish i e out)
    then show ?thesis using wr [OF mv_finish] by (simp add: run_finish_def)
  next
    case (OpCancel i)
    then show ?thesis
      using later evolves_cancel [of t now i]
      by (auto simp: run_request_cancel_def active_def record_defs split: option.splits run_state.splits
          intro!: front_modify_quiet [OF front le])
  next
    case (OpPrune b)
    then show ?thesis using front_remove [OF front le] by (simp add: run_prune_def Let_def)
  qed
qed

lemma reach_front: "run_reach ch True t now \<Longrightarrow> key_front t now"
proof (induction rule: run_reach.induct)
  case (reach_empty now)
  show ?case by (simp add: key_front_def run_table_empty_def)
next
  case (reach_op t earlier now op)
  then show ?case using reach_inv by (auto intro!: front_exec)
qed

end
