(* ===== verification/Run_Props.thy ===== *)
theory Run_Props
  imports Run_Reach
begin

text \<open>
  What the durable run queue promises: fencing of superseded workers, one started run per
  concurrency key, oldest-first claims that leave nothing claimable behind, idempotent enqueue,
  wakes that are never lost, frozen finished runs.
\<close>

section \<open>Legal histories\<close>

fun run_legal :: "chrono \<Rightarrow> bool \<Rightarrow> instant \<Rightarrow> 'v run_table \<Rightarrow> (instant \<times> 'v run_op) list \<Rightarrow> bool" where
  "run_legal ch steady earlier t [] \<longleftrightarrow> True"
| "run_legal ch steady earlier t ((now, op) # ops) \<longleftrightarrow>
     (steady \<longrightarrow> earlier \<le> now) \<and> fresh_ok t op \<and> run_legal ch steady now (run_exec ch t (now, op)) ops"

lemma legal_reach:
  "run_reach ch steady t earlier \<Longrightarrow> run_legal ch steady earlier t ops \<Longrightarrow>
     \<exists>now. run_reach ch steady (foldl (run_exec ch) t ops) now"
proof (induction ops arbitrary: t earlier)
  case (Cons x ops)
  obtain now op where x: "x = (now, op)" by (rule prod.exhaust)
  then show ?case using Cons by (auto intro: reach_op)
qed auto

definition demo_run :: "nat new_run" where
  "demo_run = with_concurrency_key (new_run_make ''q'' ''app'' ''u'' ''agent'' 7) ''k'' Enqueue"

definition demo_ops :: "(instant \<times> nat run_op) list" where
  "demo_ops = [(0, OpEnqueue ''a'' demo_run), (1, OpEnqueue ''b'' demo_run), (2, OpClaim ''q'' ''w'' 10)]"

definition demo_table :: "nat run_table" where
  "demo_table = foldl (run_exec plain_chrono) run_table_empty demo_ops"

lemma demo_legal: "run_legal plain_chrono True 0 run_table_empty demo_ops"
  by code_simp

lemma demo_reach: "\<exists>now. run_reach plain_chrono True demo_table now"
  unfolding demo_table_def by (rule legal_reach [OF reach_empty demo_legal])

lemma reach_any_clock: "run_reach ch steady t now \<Longrightarrow> run_reach ch False t now"
  by (induction rule: run_reach.induct) (auto intro: run_reach.intros)

section \<open>One at a time\<close>


lemma demo_view:
  "map_option (\<lambda>e. (is_holder ''q'' ''k'' e, active (entry_record e))) (lookup (runs demo_table) ''a'') = Some (True, True)"
  "map_option (\<lambda>e. (is_holder ''q'' ''k'' e, rr_attempt (entry_record e))) (lookup (runs demo_table) ''b'') = Some (True, 0)"
  by code_simp+


section \<open>Records of reachable tables\<close>

text \<open>in every reachable table, a record is consistent with its state: no more attempts than
  allowed, attempts left while queued, at least one attempt once started, an owner and a deadline
  exactly while running, a result exactly when completed.\<close>

theorem reachable_records:
  assumes "run_reach ch steady t now" and "lookup (runs t) i = Some e"
  shows "rr_run_id (entry_record e) = i \<and> record_ok (entry_record e)"
  using reach_inv [OF assms(1)] assms(2) inv_id inv_record by blast

theorem reachable_records_witness:
  "\<exists>e. lookup (runs demo_table) ''a'' = Some e \<and> rr_attempt (entry_record e) \<le> rr_max_attempts (entry_record e)
     \<and> rr_lease_owner (entry_record e) \<noteq> None"
proof -
  obtain e where e: "lookup (runs demo_table) ''a'' = Some e" using demo_view(1) by auto
  moreover have "record_ok (entry_record e)"
    using demo_reach reachable_records [OF _ e] by blast
  moreover have "map_option (rr_state \<circ> entry_record) (lookup (runs demo_table) ''a'') = Some Running"
    by code_simp
  ultimately show ?thesis by (auto simp: record_ok_def)
qed

section \<open>Idempotent enqueue\<close>

text \<open>a valid enqueue answers with an existing run exactly when some run of its queue carries its
  idempotency key; it is that run (there is only one), and nothing changes.\<close>

theorem enqueue_idempotent:
  assumes "run_reach ch steady t earlier" and "validate_run r = Inr ()" and "nr_idempotency_key r = Some k"
  shows "(\<exists>i e. lookup (runs t) i = Some e \<and> rr_queue (entry_record e) = nr_queue r
              \<and> rr_idempotency_key (entry_record e) = Some k \<and> entry_record e = rec)
         \<longleftrightarrow> run_enqueue now fresh t r = (Inr (Existing rec), t)"
proof -
  note inv = reach_inv [OF assms(1)]
  have ex: "existing_run t r = Some e \<longleftrightarrow>
      (\<exists>i. lookup (runs t) i = Some e \<and> rr_queue (entry_record e) = nr_queue r
           \<and> rr_idempotency_key (entry_record e) = Some k)" for e
  proof -
    have "existing_run t r = Some e \<longleftrightarrow>
        (\<exists>i. lookup (by_idempotency_key t) (nr_queue r, k) = Some i \<and> lookup (runs t) i = Some e)"
      by (auto simp: existing_run_def assms(3) split: option.split)
    then show ?thesis using inv_index [OF inv] by auto
  qed
  show ?thesis
  proof (cases "existing_run t r")
    case (Some e)
    then have "run_enqueue now fresh t r = (Inr (Existing (entry_record e)), t)"
      using assms(2) by (simp add: run_enqueue_def)
    then have "run_enqueue now fresh t r = (Inr (Existing rec), t) \<longleftrightarrow>
        (\<exists>e'. existing_run t r = Some e' \<and> entry_record e' = rec)"
      using Some by auto
    then show ?thesis unfolding ex by blast
  next
    case None
    have "run_enqueue now fresh t r \<noteq> (Inr (Existing rec), t)"
      using assms(2) None
      by (auto simp: run_enqueue_def Let_def insert_run_def split: option.split on_conflict.split list.split)
    moreover have "\<not> (\<exists>e'. existing_run t r = Some e' \<and> entry_record e' = rec)" using None by simp
    ultimately show ?thesis unfolding ex by blast
  qed
qed

definition keyed_run :: "nat new_run" where
  "keyed_run = with_idempotency_key demo_run ''evt''"

theorem enqueue_idempotent_witness:
  "\<exists>rec. run_enqueue 5 ''d'' (run_exec plain_chrono run_table_empty (0, OpEnqueue ''c'' keyed_run)) keyed_run
         = (Inr (Existing rec), run_exec plain_chrono run_table_empty (0, OpEnqueue ''c'' keyed_run))"
proof -
  let ?t = "run_exec plain_chrono run_table_empty (0, OpEnqueue ''c'' keyed_run)"
  have reach: "run_reach plain_chrono True ?t 0"
    by (rule reach_op [OF reach_empty]) (auto simp: run_table_empty_def)
  have v: "validate_run keyed_run = Inr ()" by code_simp
  have k: "nr_idempotency_key keyed_run = Some ''evt''" by code_simp
  have "map_option (\<lambda>e. (rr_queue (entry_record e) = nr_queue keyed_run,
        rr_idempotency_key (entry_record e) = Some ''evt'')) (lookup (runs ?t) ''c'') = Some (True, True)"
    by code_simp
  then show ?thesis
    using enqueue_idempotent [OF reach v k, where now = 5 and fresh = "''d''"] by auto
qed

section \<open>Finished runs\<close>

text \<open>a finished run never changes again: any operation leaves it as it is or, when it is a prune
  whose bound lies after its last change, removes it.\<close>

theorem finished_frozen:
  assumes "run_reach ch steady t earlier" and "fresh_ok t op"
    and "lookup (runs t) i = Some e" and "is_terminal (rr_state (entry_record e))"
  shows "lookup (runs (run_exec ch t (now, op))) i =
           (if \<exists>b. op = OpPrune b \<and> rr_updated_at (entry_record e) < b then None else Some e)"
proof -
  note inv = reach_inv [OF assms(1)]
  have stays: "lookup (runs t') i = Some e" if "evolves t t'" for t'
    using evolves_SomeD [OF that assms(3)] assms(4)
    by (auto simp: entry_evolves_def dest!: moves_terminal)
  show ?thesis
  proof (cases "(\<exists>f r. op = OpEnqueue f r) \<or> (\<exists>b. op = OpPrune b)")
    case False
    then show ?thesis using stays [OF evolves_exec [of op t ch now]] by auto
  next
    case True
    then consider f r where "op = OpEnqueue f r" | b where "op = OpPrune b" by blast
    then show ?thesis
    proof cases
      case (1 f r)
      show ?thesis
        using 1 assms(2,3)
        by (cases rule: enqueue_cases [OF inv, of now f r]) (auto dest!: stays)
    next
      case (2 b)
      then show ?thesis
        using prune_lookup [OF inv, of b i] assms(3,4) by (auto simp: prunable_def)
    qed
  qed
qed

theorem finished_frozen_witness:
  "lookup (runs (run_exec plain_chrono
       (foldl (run_exec plain_chrono) run_table_empty [(0, OpEnqueue ''a'' demo_run), (3, OpCancel ''a'')])
       (9, OpPrune 4))) ''a'' = None"
proof -
  let ?ops = "[(0, OpEnqueue ''a'' demo_run), (3, OpCancel ''a'')]"
  let ?t = "foldl (run_exec plain_chrono) run_table_empty ?ops"
  have "run_legal plain_chrono True 0 run_table_empty ?ops" by code_simp
  then obtain n where reach: "run_reach plain_chrono True ?t n"
    using legal_reach [OF reach_empty] by blast
  have "map_option (\<lambda>e. (is_terminal (rr_state (entry_record e)), rr_updated_at (entry_record e)))
      (lookup (runs ?t) ''a'') = Some (True, 3)" by code_simp
  then obtain e where "lookup (runs ?t) ''a'' = Some e" "is_terminal (rr_state (entry_record e))"
    "rr_updated_at (entry_record e) = 3" by auto
  then show ?thesis
    using finished_frozen [OF reach, of "OpPrune 4" "''a''" e 9] by simp
qed

section \<open>One run through a history\<close>

fun avoids_id :: "string \<Rightarrow> instant \<times> 'v run_op \<Rightarrow> bool" where
  "avoids_id i (_, OpEnqueue fresh _) \<longleftrightarrow> fresh \<noteq> i"
| "avoids_id i _ \<longleftrightarrow> True"

lemma exec_entry:
  assumes inv: "run_inv t" and "fresh_ok t op" and av: "avoids_id i (now, op)"
    and some: "lookup (runs (run_exec ch t (now, op))) i = Some e'"
  shows "\<exists>e. lookup (runs t) i = Some e \<and> entry_evolves e e'"
proof (cases "(\<exists>f r. op = OpEnqueue f r) \<or> (\<exists>b. op = OpPrune b)")
  case False
  then show ?thesis using evolves_SomeD' [OF evolves_exec [of op t ch now] some] by auto
next
  case True
  then consider f r where "op = OpEnqueue f r" | b where "op = OpPrune b" by blast
  then show ?thesis
  proof cases
    case (1 f r)
    then show ?thesis
      using some av
      by (cases rule: enqueue_cases [OF inv, of now f r]) (auto dest: evolves_SomeD' split: if_splits)
  next
    case (2 b)
    then show ?thesis
      using some prune_lookup [OF inv, of b i] by (auto split: option.splits if_splits)
  qed
qed

lemma history_entry:
  assumes "run_inv t" and "run_legal ch steady earlier t ops" and "\<forall>x \<in> set ops. avoids_id i x"
    and "lookup (runs (foldl (run_exec ch) t ops)) i = Some e'"
  shows "\<exists>e. lookup (runs t) i = Some e \<and> entry_evolves e e'"
  using assms
proof (induction ops arbitrary: t earlier)
  case (Cons x ops)
  obtain now op where x: "x = (now, op)" by (rule prod.exhaust)
  have "run_inv (run_exec ch t x)" using Cons.prems(1,2) x by (simp add: run_inv_exec)
  then obtain e1 where e1: "lookup (runs (run_exec ch t x)) i = Some e1" "entry_evolves e1 e'"
    using Cons.IH [of "run_exec ch t x" now] Cons.prems x by auto
  then show ?case
    using exec_entry [OF Cons.prems(1), of op i now ch e1] Cons.prems x
    by (auto intro: entry_evolves_trans)
qed auto

section \<open>Wakes\<close>

text \<open>a wake that reaches a run while its worker still runs it is not lost: whatever operations
  follow, if the worker then parks the run at its epoch, the run is due at once and can be claimed
  at any later time, even when it was parked until woken.\<close>

theorem wake_not_lost:
  assumes "run_reach ch steady t earlier"
    and "lookup (runs t) i = Some e" and "rr_state (entry_record e) = Running"
    and "run_legal ch steady earlier t ((now1, OpWake i) # ops)" and "\<forall>x \<in> set ops. avoids_id i x"
    and "run_wait now2 (foldl (run_exec ch) t ((now1, OpWake i) # ops)) i (rr_lease_epoch (entry_record e)) until
           = (Inr (), t2)"
    and "now2 \<le> now3"
  shows "\<exists>e2. lookup (runs t2) i = Some e2 \<and> rr_state (entry_record e2) = Waiting
           \<and> claim_started now3 t2 (rr_queue (entry_record e2)) (run_order e2) e2 = Some 0"
proof -
  let ?r = "touch now1 ((entry_record e)\<lparr>rr_wake_pending := True\<rparr>)"
  let ?t0 = "snd (run_wake now1 t i)"
  let ?t1 = "foldl (run_exec ch) ?t0 ops"
  have woken: "lookup (runs ?t0) i = Some (e\<lparr>entry_record := ?r\<rparr>)"
    using assms(2,3) by (simp add: run_wake_def)
  have inv: "run_inv ?t0" using run_inv_exec [OF reach_inv [OF assms(1)], of "OpWake i" ch now1] by simp
  obtain e1 where e1: "lookup (runs ?t1) i = Some e1"
    using assms(6) by (auto simp: run_wait_def fenced_write_def fenced_def Let_def split: sum.splits option.splits)
  have "entry_evolves (e\<lparr>entry_record := ?r\<rparr>) e1"
    using history_entry [OF inv _ assms(5) e1] assms(4) woken by auto
  then have moves: "run_move\<^sup>*\<^sup>* ?r (entry_record e1)" by (simp add: entry_evolves_def)
  have run: "rr_state (entry_record e1) = Running" "rr_lease_epoch (entry_record e1) = rr_lease_epoch (entry_record e)"
    using assms(6) e1
    by (auto simp: run_wait_def fenced_write_def fenced_def Let_def split: sum.splits if_splits)
  have "rr_wake_pending (entry_record e1)"
    by (rule moves_wake_pending [OF moves]) (use assms(3) run in \<open>simp_all add: touch_def\<close>)
  moreover have "t2 = modify_run i (wait_record now2 until) ?t1"
    using assms(6) e1 run by (simp add: run_wait_def fenced_write_def fenced_def Let_def)
  ultimately show ?thesis
    using e1 assms(7) by (simp add: claim_started_def Let_def record_defs)
qed

definition woken_ops :: "(instant \<times> nat run_op) list" where
  "woken_ops = [(3, OpWake ''a''), (4, OpHeartbeat ''a'' 1 10)]"

theorem wake_not_lost_witness:
  "\<exists>e2. lookup (runs (snd (run_wait 5 (foldl (run_exec plain_chrono) demo_table woken_ops) ''a'' 1 None))) ''a''
          = Some e2 \<and> rr_state (entry_record e2) = Waiting"
proof -
  obtain n where reach: "run_reach plain_chrono False demo_table n"
    using demo_reach reach_any_clock by blast
  have "map_option (\<lambda>e. (rr_state (entry_record e), rr_lease_epoch (entry_record e)))
      (lookup (runs demo_table) ''a'') = Some (Running, 1)" by code_simp
  then obtain e where e: "lookup (runs demo_table) ''a'' = Some e" "rr_state (entry_record e) = Running"
    "rr_lease_epoch (entry_record e) = 1" by auto
  let ?t = "foldl (run_exec plain_chrono) demo_table woken_ops"
  have legal: "run_legal plain_chrono False n demo_table woken_ops"
    by (simp add: woken_ops_def)
  have "fst (run_wait 5 ?t ''a'' 1 None) = Inr ()" by code_simp
  then have "run_wait 5 ?t ''a'' 1 None = (Inr (), snd (run_wait 5 ?t ''a'' 1 None))"
    by (metis prod.collapse)
  then show ?thesis
    using wake_not_lost [OF reach e(1,2), of 3 "[(4, OpHeartbeat ''a'' 1 10)]" 5 None _ 5] legal e(3)
    by (auto simp: woken_ops_def)
qed

section \<open>Claims\<close>

lemma claim_loop_frame:
  "j \<notin> snd ` set cs \<Longrightarrow> lookup (runs (snd (claim_loop now q w exp cs t))) j = lookup (runs t) j"
proof (induction cs arbitrary: t)
  case (Cons c cs)
  obtain ord i where c: "c = (ord, i)" by (rule prod.exhaust)
  show ?case
    using Cons by (auto simp: c Let_def split: option.split)
qed simp

lemma loop_keeps_older:
  assumes "candidates_ok t q cs" and "\<forall>c \<in> set cs. ord < fst c" and "run_order h \<le> ord"
  shows "lookup (runs (snd (claim_loop now q w exp cs t))) i = Some h \<longleftrightarrow> lookup (runs t) i = Some h"
    (is "lookup (runs ?t) i = _ \<longleftrightarrow> _")
proof -
  have out: "i \<notin> snd ` set cs" if "lookup (runs t) i = Some h0" "run_order h0 = run_order h" for h0
    using assms that unfolding candidates_ok_def by fastforce
  show ?thesis
  proof
    assume a: "lookup (runs ?t) i = Some h"
    then obtain h0 where "lookup (runs t) i = Some h0" "entry_evolves h0 h"
      using evolves_SomeD' [OF evolves_claim_loop] by blast
    then have "i \<notin> snd ` set cs" using out [of h0] by (simp add: entry_evolves_order)
    then have "lookup (runs ?t) i = lookup (runs t) i" by (rule claim_loop_frame)
    with a show "lookup (runs t) i = Some h" by simp
  next
    assume "lookup (runs t) i = Some h"
    then show "lookup (runs ?t) i = Some h" using out by (simp add: claim_loop_frame)
  qed
qed

lemma claim_started_frame:
  assumes "run_inv t" and "run_inv t'"
    and "\<And>i h. run_order h < ord \<Longrightarrow> lookup (runs t') i = Some h \<longleftrightarrow> lookup (runs t) i = Some h"
  shows "claim_started now t' q ord e = claim_started now t q ord e"
proof -
  have eq: "run_blocked t' q ord e = run_blocked t q ord e"
    unfolding run_blocked_iff [OF assms(1)] run_blocked_iff [OF assms(2)] using assms(3) by blast
  show ?thesis unfolding claim_started_def eq by (rule refl)
qed

definition unclaimable :: "instant \<Rightarrow> 'v run_table \<Rightarrow> string \<Rightarrow> instant \<times> nat \<Rightarrow> string \<Rightarrow> bool" where
  "unclaimable now t q ord i \<longleftrightarrow>
     (\<forall>e. lookup (runs t) i = Some e \<longrightarrow> claim_started now t q ord e = None)"

definition claimed_from ::
    "instant \<Rightarrow> string \<Rightarrow> string \<Rightarrow> instant \<Rightarrow> 'v run_table \<Rightarrow> 'v run_table \<Rightarrow> 'v claimed_run \<Rightarrow> 'v run_entry \<Rightarrow> bool" where
  "claimed_from now q w exp t t' c e \<longleftrightarrow>
     (\<exists>n i. lookup (runs t) i = Some e \<and> rr_queue (entry_record e) = q
        \<and> claim_started now t' q (run_order e) e = Some n \<and> \<not> exhausted (entry_record e)
        \<and> cl_record c = claim_record now w exp n (entry_record e)
        \<and> cl_epoch c = Suc (rr_lease_epoch (entry_record e))
        \<and> lookup (runs t') i = Some (e\<lparr>entry_record := cl_record c\<rparr>))"

lemma claim_loop_spec:
  assumes "run_inv t" and "candidates_ok t q cs" and "claim_loop now q w exp cs t = (c, t')"
  shows "case c of
      None \<Rightarrow> \<forall>(ord, i) \<in> set cs. unclaimable now t' q ord i
    | Some r \<Rightarrow> \<exists>e. claimed_from now q w exp t t' r e
               \<and> (\<forall>(ord, i) \<in> set cs. ord < run_order e \<longrightarrow> unclaimable now t' q ord i)"
  using assms
proof (induction cs arbitrary: t)
  case (Cons x cs)
  obtain ord i where x: "x = (ord, i)" by (rule prod.exhaust)
  note tail = candidates_ok_Cons [OF Cons.prems(2)]
  have later: "\<forall>y \<in> set cs. ord < fst y" and notin: "i \<notin> snd ` set cs"
    using Cons.prems(2) by (auto simp: candidates_ok_def x)
  have head: "run_order e = ord" "rr_queue (entry_record e) = q" if "lookup (runs t) i = Some e" for e
    using Cons.prems(2) that by (auto simp: candidates_ok_def x)
  have go_on: ?case
    if loop: "claim_loop now q w exp cs u = (c, t')" and u: "run_inv u" "candidates_ok u q cs"
      and same: "\<And>j h. j \<noteq> i \<Longrightarrow> lookup (runs u) j = lookup (runs t) j"
      and here: "unclaimable now u q ord i" for u
  proof -
    have inv': "run_inv t'" using run_inv_evolves [OF evolves_claim_loop u(1)] loop by (metis snd_conv)
    have older: "lookup (runs t') j = Some h \<longleftrightarrow> lookup (runs u) j = Some h" if "run_order h < ord" for j h
      using loop_keeps_older [OF u(2) later, of h now w exp j] loop that by simp
    have "lookup (runs t') i = lookup (runs u) i"
      using claim_loop_frame [OF notin, of now q w exp u] loop by simp
    then have first: "unclaimable now t' q ord i"
      using here claim_started_frame [OF u(1) inv' older] by (simp add: unclaimable_def)
    note IH = Cons.IH [OF u loop]
    show ?case
    proof (cases c)
      case None
      then show ?thesis using IH first by (simp add: x)
    next
      case (Some r)
      then obtain e where e: "claimed_from now q w exp u t' r e"
        "\<forall>(ord, i) \<in> set cs. ord < run_order e \<longrightarrow> unclaimable now t' q ord i"
        using IH by auto
      then obtain j n where j: "lookup (runs u) j = Some e" "claim_started now t' q (run_order e) e = Some n"
        "lookup (runs t') j = Some (e\<lparr>entry_record := cl_record r\<rparr>)" "rr_queue (entry_record e) = q"
        "\<not> exhausted (entry_record e)" "cl_record r = claim_record now w exp n (entry_record e)"
        "cl_epoch r = Suc (rr_lease_epoch (entry_record e))"
        unfolding claimed_from_def by blast
      have "j \<noteq> i"
      proof
        assume "j = i"
        with j(1,3) \<open>lookup (runs t') i = lookup (runs u) i\<close>
        have "e\<lparr>entry_record := cl_record r\<rparr> = e" by simp
        then have "cl_record r = entry_record e" by (metis run_entry.select_convs(1) run_entry.surjective run_entry.update_convs(1))
        then have "rr_revision (claim_record now w exp n (entry_record e)) = rr_revision (entry_record e)"
          using j(6) by simp
        then show False by (simp add: claim_record_def touch_def)
      qed
      then have "claimed_from now q w exp t t' r e"
        using j same [of j] unfolding claimed_from_def by metis
      then show ?thesis using e(2) first Some by (auto simp: x)
    qed
  qed
  show ?case
  proof (cases "lookup (runs t) i")
    case None
    then show ?thesis
      using Cons.prems(1,3) tail by (intro go_on [of t]) (simp_all add: x unclaimable_def)
  next
    case e: (Some e)
    show ?thesis
    proof (cases "claim_started now t q ord e")
      case None
      then show ?thesis
        using Cons.prems(1,3) tail e by (intro go_on [of t]) (simp_all add: x unclaimable_def)
    next
      case n: (Some n)
      note move = claim_started_move [OF n]
      show ?thesis
      proof (cases "exhausted (entry_record e)")
        case True
        let ?t = "modify_run i (exhaust_record now) t"
        have ev: "evolves t ?t" using move(1) [OF True] e by (auto intro!: evolves_modify)
        have "unclaimable now ?t q ord i"
          by (simp add: unclaimable_def e claim_started_def exhaust_record_def touch_def release_lease_def)
        then show ?thesis
          using Cons.prems e n True
          by (intro go_on [of ?t])
             (simp_all add: x run_inv_evolves [OF ev] candidates_ok_evolves [OF ev tail])
      next
        case False
        let ?t = "modify_run i (claim_record now w exp n) t"
        have ev: "evolves t ?t" using move(2) [OF False] e by (auto intro!: evolves_modify)
        have res: "c = Some \<lparr>cl_record = claim_record now w exp n (entry_record e),
                             cl_epoch = rr_lease_epoch (claim_record now w exp n (entry_record e))\<rparr>" "t' = ?t"
          using Cons.prems(3) e n False by (simp_all add: x Let_def)
        have "lookup (runs ?t) j = Some h \<longleftrightarrow> lookup (runs t) j = Some h" if "run_order h < ord" for j h
          using that head [OF e] e entry_evolves_order evolves_SomeD [OF ev e] by (fastforce split: if_splits)
        then have "claim_started now t' q ord e = Some n"
          using claim_started_frame [OF Cons.prems(1) run_inv_evolves [OF ev Cons.prems(1)], of ord] n
          by (simp add: res(2))
        then have "claimed_from now q w exp t t' (the c) e"
          unfolding claimed_from_def using e head [OF e] False res
          by (auto simp: claim_record_def touch_def)
        moreover have "\<forall>(o', i') \<in> set (x # cs). o' < run_order e \<longrightarrow> unclaimable now t' q o' i'"
          using later head [OF e] by (auto simp: x dest: less_asym)
        ultimately show ?thesis using res(1) by auto
      qed
    qed
  qed
qed simp

text \<open>\<open>claim\<close> hands out the oldest claimable run of the queue and misses none. If it returns a
  run, that run was startable, its epoch went up by one, it is the caller's under a lease of the
  given length, and no older run of the queue is claimable afterwards; if it returns nothing, no run
  of the queue is claimable afterwards.\<close>

theorem claim_oldest:
  assumes "run_reach ch steady t earlier" and "run_claim ch now t q w ttl = (Inr c, t')" and "chrono_ok ch"
  shows "case c of
      None \<Rightarrow> \<forall>j f. lookup (runs t') j = Some f \<longrightarrow> rr_queue (entry_record f) = q \<longrightarrow>
                claim_started now t' q (run_order f) f = None
    | Some r \<Rightarrow> \<exists>e. claimed_from now q w (now + int ttl) t t' r e
               \<and> (\<forall>j f. lookup (runs t') j = Some f \<longrightarrow> rr_queue (entry_record f) = q \<longrightarrow>
                    run_order f < run_order e \<longrightarrow> claim_started now t' q (run_order f) f = None)"
proof -
  note inv = reach_inv [OF assms(1)]
  obtain exp where dl: "deadline ch now ttl ''run_store.invalid_ttl'' = Inr exp"
    and loop: "claim_loop now q w exp (claim_candidates t q) t = (c, t')"
    using assms(2) by (auto simp: run_claim_def case_prod_unfold Let_def split: sum.splits)
  have exp: "exp = now + int ttl" using deadline_Inr [OF assms(3) dl] by simp
  have ev: "evolves t t'" using evolves_claim_loop [of t] loop by (metis snd_conv)
  have all: "claim_started now t' q (run_order f) f = None"
    if f: "lookup (runs t') j = Some f" "rr_queue (entry_record f) = q"
      and un: "(run_order f, j) \<in> set (claim_candidates t q) \<Longrightarrow> unclaimable now t' q (run_order f) j" for j f
  proof -
    obtain f0 where f0: "lookup (runs t) j = Some f0" "entry_evolves f0 f"
      using evolves_SomeD' [OF ev f(1)] by blast
    show ?thesis
    proof (cases "is_terminal (rr_state (entry_record f0))")
      case True
      then have "entry_record f = entry_record f0" using f0(2) by (auto simp: entry_evolves_def dest: moves_terminal)
      then show ?thesis using True by (cases "rr_state (entry_record f0)") (auto simp: claim_started_def)
    next
      case False
      then have "(run_order f, j) \<in> set (claim_candidates t q)"
        using f0 f(2) by (auto simp: candidates_mem [OF inv] entry_evolves_order entry_evolvesD)
      then show ?thesis using un f(1) by (simp add: unclaimable_def)
    qed
  qed
  have spec: "case c of
      None \<Rightarrow> \<forall>(ord, i) \<in> set (claim_candidates t q). unclaimable now t' q ord i
    | Some r \<Rightarrow> \<exists>e. claimed_from now q w exp t t' r e
               \<and> (\<forall>(ord, i) \<in> set (claim_candidates t q). ord < run_order e \<longrightarrow> unclaimable now t' q ord i)"
    by (rule claim_loop_spec [OF inv candidates_ok_init [OF inv] loop])
  show ?thesis
  proof (cases c)
    case None
    then show ?thesis using spec all by fastforce
  next
    case (Some r)
    then show ?thesis using spec all unfolding exp by fastforce
  qed
qed

theorem claim_oldest_witness:
  "\<exists>r e. run_claim plain_chrono 20 demo_table ''q'' ''w2'' 5
           = (Inr (Some r), snd (run_claim plain_chrono 20 demo_table ''q'' ''w2'' 5))
      \<and> cl_epoch r = Suc (rr_lease_epoch (entry_record e)) \<and> lookup (runs demo_table) ''a'' = Some e"
proof -
  let ?r = "run_claim plain_chrono 20 demo_table ''q'' ''w2'' 5"
  obtain n where reach: "run_reach plain_chrono True demo_table n" using demo_reach by blast
  have "map_sum (\<lambda>_. ()) (map_option (rr_run_id \<circ> cl_record)) (fst ?r) = Inr (Some ''a'')" by code_simp
  then obtain r where r: "?r = (Inr (Some r), snd ?r)" "rr_run_id (cl_record r) = ''a''"
    by (cases ?r) (auto simp: map_sum_def split: sum.splits)
  then obtain e where e: "claimed_from 20 ''q'' ''w2'' (20 + int 5) demo_table (snd ?r) r e"
    using claim_oldest [OF reach r(1) plain_chrono_ok] by auto
  then have "lookup (runs demo_table) (rr_run_id (entry_record e)) = Some e"
    by (auto simp: claimed_from_def inv_id [OF reach_inv [OF reach]])
  moreover have "rr_run_id (entry_record e) = ''a''"
    using e r(2) by (auto simp: claimed_from_def claim_record_def touch_def)
  ultimately have "lookup (runs demo_table) ''a'' = Some e" by simp
  moreover have "cl_epoch r = Suc (rr_lease_epoch (entry_record e))" using e by (auto simp: claimed_from_def)
  ultimately show ?thesis using r(1) by blast
qed

section \<open>A clock that goes back\<close>

text \<open>Order is by \<^verbatim>\<open>created_at\<close> first, so the one-at-a-time rule needs the clock: a run enqueued after
  a step back sorts before the running one, is not blocked by it and is claimed beside it.\<close>

definition clock_back_ops :: "(instant \<times> nat run_op) list" where
  "clock_back_ops = [(10, OpEnqueue ''a'' demo_run), (10, OpClaim ''q'' ''w'' 100),
                     (5, OpEnqueue ''b'' demo_run), (5, OpClaim ''q'' ''w2'' 100)]"

theorem clock_back_two_running:
  "run_legal plain_chrono False 0 run_table_empty clock_back_ops
   \<and> map_option (\<lambda>e. (is_holder ''q'' ''k'' e, rr_state (entry_record e)))
       (lookup (runs (foldl (run_exec plain_chrono) run_table_empty clock_back_ops)) ''a'') = Some (True, Running)
   \<and> map_option (\<lambda>e. (is_holder ''q'' ''k'' e, rr_state (entry_record e)))
       (lookup (runs (foldl (run_exec plain_chrono) run_table_empty clock_back_ops)) ''b'') = Some (True, Running)"
  by (intro conjI; code_simp)

end
