(* ===== verification/Run_Fencing.thy ===== *)
theory Run_Fencing
  imports Run_Props
begin

text \<open>
  Fencing of workers by the run store, as an interpretation of the contract the lease store also
  meets, and the effect of an interrupting enqueue and of pruning on the other runs.
\<close>

fun run_grant :: "chrono \<Rightarrow> 'v run_table \<Rightarrow> instant \<times> 'v run_op \<Rightarrow> (string \<times> nat) option" where
  "run_grant ch t (now, OpClaim q w ttl) =
     (case fst (run_claim ch now t q w ttl) of
        Inr (Some c) \<Rightarrow> Some (rr_run_id (cl_record c), cl_epoch c)
      | _ \<Rightarrow> None)"
| "run_grant ch t _ = None"

definition epoch_superseded :: "'v run_table \<Rightarrow> string \<Rightarrow> nat \<Rightarrow> bool" where
  "epoch_superseded t i e \<longleftrightarrow>
     (case lookup (runs t) i of Some entry \<Rightarrow> e < rr_lease_epoch (entry_record entry) | None \<Rightarrow> True)"

definition writes_refused :: "'v run_table \<Rightarrow> string \<Rightarrow> nat \<Rightarrow> bool" where
  "writes_refused t i e \<longleftrightarrow>
     (\<forall>ch now ttl. \<exists>err. run_heartbeat ch now t i e ttl = (Inl err, t))
     \<and> (\<forall>now c. \<exists>err. run_set_checkpoint now t i e c = (Inl err, t))
     \<and> (\<forall>now until. \<exists>err. run_wait now t i e until = (Inl err, t))
     \<and> (\<forall>now out. \<exists>err. run_finish now t i e out = (Inl err, t))"

lemma refused_unless_current:
  assumes "\<not> (\<exists>entry. lookup (runs t) i = Some entry \<and> rr_lease_epoch (entry_record entry) = e)"
  shows "writes_refused t i e"
proof -
  obtain err where "fenced t i e = Inl err"
    using assms by (cases "fenced t i e") (auto simp: fenced_Inr)
  then have "fenced_write t i e f = (Inl err, t)" for f by (simp add: fenced_write_def)
  then show ?thesis
    by (auto simp: writes_refused_def run_heartbeat_def run_set_checkpoint_def run_wait_def run_finish_def
        Let_def split: sum.split)
qed

lemma grant_epoch:
  assumes "run_inv t" and "run_grant ch t (now, op) = Some (i, e)"
  shows "\<exists>e1 e0. lookup (runs (run_exec ch t (now, op))) i = Some e1 \<and> rr_lease_epoch (entry_record e1) = e
           \<and> lookup (runs t) i = Some e0 \<and> e = Suc (rr_lease_epoch (entry_record e0))"
proof -
  from assms(2) obtain q w ttl where op: "op = OpClaim q w ttl" by (cases op) auto
  obtain c t' where claim: "run_claim ch now t q w ttl = (Inr (Some c), t')"
    and i: "i = rr_run_id (cl_record c)" and e: "e = cl_epoch c"
    using assms(2) by (cases "run_claim ch now t q w ttl") (auto simp: op split: sum.splits option.splits)
  then obtain exp where "claim_loop now q w exp (claim_candidates t q) t = (Some c, t')"
    by (auto simp: run_claim_def case_prod_unfold Let_def split: sum.splits) (metis prod.collapse)
  from claim_loop_spec [OF assms(1) candidates_ok_init [OF assms(1)] this]
  obtain e0 j n where j: "lookup (runs t) j = Some e0" "cl_epoch c = Suc (rr_lease_epoch (entry_record e0))"
    "lookup (runs t') j = Some (e0\<lparr>entry_record := cl_record c\<rparr>)"
    "cl_record c = claim_record now w exp n (entry_record e0)"
    by (auto simp: claimed_from_def)
  have "j = i"
    using j(1,4) inv_id [OF assms(1)] by (auto simp: i claim_record_def touch_def)
  then show ?thesis
    using j claim by (auto simp: op e claim_record_def touch_def)
qed

interpretation run_fence: fencing
  "run_exec ch" "run_grant ch" epoch_superseded writes_refused run_inv
  "\<lambda>t x. fresh_ok t (snd x)" avoids_id
proof unfold_locales
  fix t :: "'v run_table" and x :: "instant \<times> 'v run_op" and i and e e' :: nat
  obtain now op where x: "x = (now, op)" by (rule prod.exhaust)
  assume inv: "run_inv t"
  show "fresh_ok t (snd x) \<Longrightarrow> run_inv (run_exec ch t x)"
    using inv by (simp add: x run_inv_exec)
  show "run_grant ch t x = Some (i, e') \<Longrightarrow> e < e' \<Longrightarrow> epoch_superseded (run_exec ch t x) i e"
    using grant_epoch [OF inv, of ch now op i e'] by (auto simp: x epoch_superseded_def)
  show "epoch_superseded t i e \<Longrightarrow> writes_refused t i e"
    by (rule refused_unless_current) (auto simp: epoch_superseded_def)
  assume a: "fresh_ok t (snd x)" "avoids_id i x" "epoch_superseded t i e"
  show "epoch_superseded (run_exec ch t x) i e"
  proof (cases "lookup (runs (run_exec ch t x)) i")
    case None
    then show ?thesis by (simp add: epoch_superseded_def)
  next
    case (Some e1)
    then obtain e0 where "lookup (runs t) i = Some e0" "entry_evolves e0 e1"
      using exec_entry [OF inv, of op i now ch e1] a x by auto
    then show ?thesis
      using a(3) Some moves_epoch by (auto simp: epoch_superseded_def entry_evolves_def intro: less_le_trans)
  qed
qed

lemma reach_unsteady: "run_reach ch steady t n \<Longrightarrow> run_reach ch False t n"
  by (induction rule: run_reach.induct) (auto intro: run_reach.intros)

lemma legal_fence: "run_legal ch steady earlier t ops \<Longrightarrow> run_fence.legal ch t ops"
  by (induction ops arbitrary: t earlier) (auto simp: run_fence.legal.simps)

text \<open>C2: fencing. Once a run was claimed again (its lease had lapsed, it was requeued or it was
  woken), every write of a worker that claimed it at an earlier epoch is refused and changes
  nothing, in every later state.\<close>

theorem stale_worker_refused:
  assumes "run_reach ch steady t earlier" and "run_grant ch t x = Some (i, e')" and "e < e'"
    and "run_legal ch steady earlier t (x # ops)" and "\<forall>y \<in> set ops. avoids_id i y"
  shows "writes_refused (foldl (run_exec ch) (run_exec ch t x) ops) i e"
  using reach_inv [OF assms(1)] assms(2,3) legal_fence [OF assms(4)] assms(5) by (rule run_fence.superseded_refused)

theorem stale_worker_refused_witness:
  "writes_refused (foldl (run_exec plain_chrono)
     (run_exec plain_chrono demo_table (20, OpClaim ''q'' ''w2'' 5)) [(30, OpWake ''b'')]) ''a'' 1"
proof -
  obtain n where reach: "run_reach plain_chrono True demo_table n" using demo_reach by blast
  have "run_reach plain_chrono False demo_table n" using reach by (rule reach_unsteady)
  moreover have "run_grant plain_chrono demo_table (20, OpClaim ''q'' ''w2'' 5) = Some (''a'', 2)" by code_simp
  ultimately show ?thesis
    by (rule stale_worker_refused) simp_all
qed

text \<open>no two claims share an epoch of a run: a claim's epoch is one more than the run's epoch
  before it, and from then on the run's epoch is at least the claim's.\<close>

theorem claim_epoch_unique:
  assumes "run_reach ch steady t earlier" and "run_grant ch t (now, op) = Some (i, e)"
    and "run_legal ch steady earlier t ((now, op) # ops)" and "\<forall>y \<in> set ops. avoids_id i y"
    and "run_grant ch (foldl (run_exec ch) t ((now, op) # ops)) (now', op') = Some (i, e')"
  shows "e < e'"
proof -
  note inv = reach_inv [OF assms(1)]
  let ?t1 = "run_exec ch t (now, op)"
  let ?t2 = "foldl (run_exec ch) ?t1 ops"
  have fresh: "fresh_ok t op" and legal: "run_legal ch steady now ?t1 ops" using assms(3) by simp_all
  have inv1: "run_inv ?t1" using inv fresh by (rule run_inv_exec)
  have inv2: "run_inv ?t2"
    using inv1 legal
  proof (induction ops arbitrary: now rule: rev_induct)
    case Nil
    then show ?case by simp
  next
    case (snoc x ops)
    obtain n o' where x: "x = (n, o')" by (rule prod.exhaust)
    have "run_legal ch steady now s (xs @ ys) \<Longrightarrow>
        \<exists>m. run_legal ch steady now s xs \<and> run_legal ch steady m (foldl (run_exec ch) s xs) ys" for s xs ys now
      by (induction xs arbitrary: s now) auto
    with snoc x show ?case by (fastforce intro: run_inv_exec)
  qed
  obtain e1 where e1: "lookup (runs ?t1) i = Some e1" "rr_lease_epoch (entry_record e1) = e"
    using grant_epoch [OF inv assms(2)] by auto
  obtain e2 where e2: "lookup (runs ?t2) i = Some e2" "e' = Suc (rr_lease_epoch (entry_record e2))"
    using grant_epoch [OF inv2, of ch now' op' i e'] assms(5) by auto
  have "entry_evolves e1 e2" using history_entry [OF inv1 legal assms(4) e2(1)] e1 by auto
  then show "e < e'" using moves_epoch e1(2) e2(2) by (fastforce simp: entry_evolves_def)
qed

theorem claim_epoch_unique_witness:
  "\<exists>e e'. run_grant plain_chrono demo_table (20, OpClaim ''q'' ''w2'' 5) = Some (''a'', e)
     \<and> run_grant plain_chrono (foldl (run_exec plain_chrono) demo_table [(20, OpClaim ''q'' ''w2'' 5)])
          (40, OpClaim ''q'' ''w'' 5) = Some (''a'', e')
     \<and> e < e'"
proof -
  obtain n where reach: "run_reach plain_chrono False demo_table n"
    using demo_reach reach_any_clock by blast
  have g: "run_grant plain_chrono demo_table (20, OpClaim ''q'' ''w2'' 5) = Some (''a'', 2)" by code_simp
  have g': "run_grant plain_chrono (foldl (run_exec plain_chrono) demo_table [(20, OpClaim ''q'' ''w2'' 5)])
      (40, OpClaim ''q'' ''w'' 5) = Some (''a'', 3)" by code_simp
  have "(2 :: nat) < 3"
    by (rule claim_epoch_unique [OF reach g, of "[]", OF _ _ g']) simp_all
  then show ?thesis using g g' by blast
qed

section \<open>Interrupting enqueues and pruning\<close>

lemma interrupt_lookup:
  "distinct (map fst hs) \<Longrightarrow>
   lookup (runs (interrupt_holders now hs t)) i =
     (if i \<in> fst ` set hs
      then map_option (\<lambda>e. e\<lparr>entry_record := interrupt_record now (entry_record e)\<rparr>) (lookup (runs t) i)
      else lookup (runs t) i)"
proof (induction hs arbitrary: t)
  case (Cons h hs)
  have "interrupt_holders now (h # hs) t = interrupt_holders now hs (modify_run (fst h) (interrupt_record now) t)"
    by (simp add: interrupt_holders_def)
  then show ?case using Cons by (auto simp: image_iff)
qed (simp add: interrupt_holders_def)

text \<open>a new run that interrupts its concurrency key cancels every queued or parked run of the key
  in its queue, requests cancellation of the running one and changes no other run.\<close>

theorem enqueue_interrupts:
  assumes "run_reach ch steady t earlier" and "nr_concurrency_key r = Some k" and "nr_on_conflict r = Interrupt"
    and "run_enqueue now fresh t r = (Inr (Created rec), t')" and "i \<noteq> fresh"
  shows "lookup (runs t') i =
           (case lookup (runs t) i of
              None \<Rightarrow> None
            | Some e \<Rightarrow>
                if is_holder (nr_queue r) k e
                then Some (e\<lparr>entry_record := interrupt_record now (entry_record e)\<rparr>)
                else Some e)"
proof -
  note inv = reach_inv [OF assms(1)]
  let ?hs = "holders t (nr_queue r) k"
  have "t' = snd (insert_run now fresh r (interrupt_holders now ?hs t))"
    using assms(2-4) by (auto simp: run_enqueue_def split: sum.splits option.splits)
  moreover have "i \<in> fst ` set ?hs \<longleftrightarrow> (\<exists>e. lookup (runs t) i = Some e \<and> is_holder (nr_queue r) k e)"
  proof -
    have "i \<in> fst ` set ?hs \<longleftrightarrow> (\<exists>ord. (i, ord) \<in> set ?hs)" by force
    then show ?thesis unfolding holders_mem [OF inv] by blast
  qed
  ultimately show ?thesis
    using assms(5) by (auto simp: interrupt_lookup [OF distinct_holders [OF inv]] split: option.split)
qed

definition interrupt_run :: "nat new_run" where
  "interrupt_run = with_concurrency_key demo_run ''k'' Interrupt"

theorem enqueue_interrupts_witness:
  "map_option (rr_cancel_requested \<circ> entry_record) (lookup (runs (snd (run_enqueue 7 ''n'' demo_table interrupt_run))) ''a'')
     = Some True"
proof -
  obtain n where reach: "run_reach plain_chrono True demo_table n" using demo_reach by blast
  have k: "nr_concurrency_key interrupt_run = Some ''k''" "nr_on_conflict interrupt_run = Interrupt"
    by (simp_all add: interrupt_run_def with_concurrency_key_def)
  have created: "\<exists>rec. run_enqueue 7 ''n'' demo_table interrupt_run
      = (Inr (Created rec), snd (run_enqueue 7 ''n'' demo_table interrupt_run))"
  proof -
    have "(case fst (run_enqueue 7 ''n'' demo_table interrupt_run) of Inr (Created _) \<Rightarrow> True | _ \<Rightarrow> False)"
      by code_simp
    then show ?thesis
      by (cases "run_enqueue 7 ''n'' demo_table interrupt_run") (auto split: sum.splits enqueued.splits)
  qed
  have q: "nr_queue interrupt_run = ''q''" by code_simp
  have "map_option (\<lambda>e. rr_state (entry_record e)) (lookup (runs demo_table) ''a'') = Some Running" by code_simp
  then obtain e where e: "lookup (runs demo_table) ''a'' = Some e" "is_holder ''q'' ''k'' e"
    "rr_state (entry_record e) = Running"
    using demo_view(1) by auto
  from created obtain rec where "run_enqueue 7 ''n'' demo_table interrupt_run
      = (Inr (Created rec), snd (run_enqueue 7 ''n'' demo_table interrupt_run))" by blast
  from enqueue_interrupts [OF reach k this, of "''a''"] e q show ?thesis
    by (simp add: interrupt_record_def touch_def)
qed

text \<open>pruning removes exactly the finished runs last changed before the bound, and afterwards an
  idempotency key is free unless a run that stayed carries it.\<close>

theorem prune_exact:
  assumes "run_reach ch steady t earlier"
  shows "lookup (runs (snd (run_prune t before))) i =
           (case lookup (runs t) i of
              Some e \<Rightarrow> if prunable before e then None else Some e
            | None \<Rightarrow> None)
         \<and> (lookup (by_idempotency_key (snd (run_prune t before))) (q, k) = None \<longleftrightarrow>
           (\<forall>j e. lookup (runs t) j = Some e \<longrightarrow> \<not> prunable before e \<longrightarrow> rr_queue (entry_record e) = q \<longrightarrow>
              rr_idempotency_key (entry_record e) \<noteq> Some k))"
proof (intro conjI)
  note inv = reach_inv [OF assms]
  have look: "lookup (runs (snd (run_prune t before))) j =
           (case lookup (runs t) j of
              Some e \<Rightarrow> if prunable before e then None else Some e
            | None \<Rightarrow> None)" for j
    by (rule prune_lookup [OF inv])
  then show "lookup (runs (snd (run_prune t before))) i =
           (case lookup (runs t) i of
              Some e \<Rightarrow> if prunable before e then None else Some e
            | None \<Rightarrow> None)" .
  have inv': "run_inv (snd (run_prune t before))"
    using run_inv_remove_all [OF inv] by (simp add: run_prune_def Let_def)
  have "lookup (by_idempotency_key (snd (run_prune t before))) (q, k) = None \<longleftrightarrow>
      \<not> (\<exists>j. lookup (by_idempotency_key (snd (run_prune t before))) (q, k) = Some j)" by simp
  then show "lookup (by_idempotency_key (snd (run_prune t before))) (q, k) = None \<longleftrightarrow>
           (\<forall>j e. lookup (runs t) j = Some e \<longrightarrow> \<not> prunable before e \<longrightarrow> rr_queue (entry_record e) = q \<longrightarrow>
              rr_idempotency_key (entry_record e) \<noteq> Some k)"
    unfolding inv_index [OF inv'] look by (auto split: option.splits if_splits)
qed

definition cancelled_table :: "nat run_table" where
  "cancelled_table = run_exec plain_chrono demo_table (5, OpCancel ''b'')"

theorem prune_exact_witness:
  "lookup (runs (snd (run_prune cancelled_table 6))) ''b'' = None
   \<and> lookup (runs (snd (run_prune cancelled_table 5))) ''b'' = lookup (runs cancelled_table) ''b''"
proof -
  obtain n where "run_reach plain_chrono True demo_table n" using demo_reach by blast
  then have reach: "run_reach plain_chrono False cancelled_table 5"
    unfolding cancelled_table_def by (intro reach_op [OF reach_any_clock]) simp_all
  have "map_option (\<lambda>e. (prunable 6 e, prunable 5 e)) (lookup (runs cancelled_table) ''b'') = Some (True, False)"
    by code_simp
  then show ?thesis
    using prune_exact [OF reach, of 6 "''b''"] prune_exact [OF reach, of 5 "''b''"] by auto
qed

end
