(* ===== verification/Schedule.thy ===== *)
theory Schedule
  imports Run_Fencing
begin

text \<open>
  Durable schedules: \<^verbatim>\<open>adk-core/src/schedule.rs\<close>. The planner of fire times and the process-local
  \<^verbatim>\<open>InMemoryScheduleStore\<close>. The \<^verbatim>\<open>cron\<close> and \<^verbatim>\<open>chrono-tz\<close> crates are not part of the repository:
  the record \<open>cron_lib\<close> holds what the code calls of them. The iterators of a parsed expression are
  finite lists (the crate stops at its last supported year), in the order the code consumes them.
\<close>

section \<open>Data\<close>

datatype schedule_spec = Cron string string | At instant | Every dur

datatype missed_fire_policy = Skip | FireOnce | CatchUp nat

definition default_misfire_grace :: dur where
  "default_misfire_grace = 60 * 1000000000"

record 'v schedule =
  sc_id :: string
  sc_spec :: schedule_spec
  sc_run :: "'v new_run"
  sc_missed :: missed_fire_policy
  sc_paused :: bool
  sc_next_fire_at :: "instant option"
  sc_revision :: nat

definition schedule_new :: "string \<Rightarrow> schedule_spec \<Rightarrow> 'v new_run \<Rightarrow> missed_fire_policy \<Rightarrow> 'v schedule" where
  "schedule_new i spec r missed =
     \<lparr>sc_id = i, sc_spec = spec, sc_run = r, sc_missed = missed, sc_paused = False,
      sc_next_fire_at = None, sc_revision = 0\<rparr>"

definition with_next_fire_at :: "'v schedule \<Rightarrow> instant \<Rightarrow> 'v schedule" where
  "with_next_fire_at s t = s\<lparr>sc_next_fire_at := Some t\<rparr>"

definition with_paused :: "'v schedule \<Rightarrow> bool \<Rightarrow> 'v schedule" where
  "with_paused s p = s\<lparr>sc_paused := p\<rparr>"

definition firing_idempotency_key :: "chrono \<Rightarrow> string \<Rightarrow> instant \<Rightarrow> string" where
  "firing_idempotency_key ch i t = ''schedule:'' @ i @ '':'' @ rfc3339 ch t"

definition run_for :: "chrono \<Rightarrow> 'v schedule \<Rightarrow> instant \<Rightarrow> 'v new_run" where
  "run_for ch s t =
     (with_service_subject (sc_run s))\<lparr>nr_idempotency_key := Some (firing_idempotency_key ch (sc_id s) t)\<rparr>"

definition schedule_not_found_error :: "string \<Rightarrow> adk_error" where
  "schedule_not_found_error i =
     adk_not_found Agent ''schedule.not_found''
       (''schedule store has no schedule '' @ quoted i @ ''; upsert it first'')"

definition invalid_schedule_error :: "string \<Rightarrow> adk_error" where
  "invalid_schedule_error reason =
     adk_error_new Agent InvalidInput ''schedule.invalid'' (''invalid schedule: '' @ reason)"

definition validate_schedule :: "'v schedule \<Rightarrow> unit result" where
  "validate_schedule s =
     (if sc_id s = [] then Inl (invalid_schedule_error ''id must not be empty'')
      else if sc_spec s = Every 0
      then Inl (invalid_schedule_error ''an Every interval must be greater than zero'')
      else if sc_missed s = CatchUp 0
      then Inl (invalid_schedule_error ''CatchUp must fire at least one occurrence'')
      else validate_run (sc_run s))"

definition same_definition :: "'v schedule \<Rightarrow> 'v schedule \<Rightarrow> bool" where
  "same_definition a b \<longleftrightarrow>
     sc_spec a = sc_spec b \<and> sc_run a = sc_run b \<and> sc_missed a = sc_missed b
     \<and> sc_paused a = sc_paused b \<and> sc_next_fire_at a = sc_next_fire_at b"

section \<open>Planning\<close>

record fire_plan =
  fire_times :: "instant list"
  plan_next :: "instant option"

definition i64_max :: int where "i64_max = 9223372036854775807"

text \<open>\<^verbatim>\<open>i64::saturating_mul\<close> of two non-negative factors.\<close>

definition sat_mul_i64 :: "int \<Rightarrow> int \<Rightarrow> int" where
  "sat_mul_i64 a b = min (a * b) i64_max"

definition interval_step :: "chrono \<Rightarrow> dur \<Rightarrow> int result" where
  "interval_step ch interval =
     (case from_std ch interval of
        Some step \<Rightarrow> if step > 0 then Inr step
                     else Inl (invalid_schedule_error ''an Every interval must be positive'')
      | None \<Rightarrow> Inl (invalid_schedule_error ''an Every interval must be positive''))"

definition or_i64_max :: "int option \<Rightarrow> int" where
  "or_i64_max x = (case x of Some n \<Rightarrow> n | None \<Rightarrow> i64_max)"

definition occurrence :: "chrono \<Rightarrow> instant \<Rightarrow> int \<Rightarrow> int \<Rightarrow> instant option" where
  "occurrence ch due_at step k = checked_add_signed ch due_at (sat_mul_i64 k step)"

definition plan_every :: "chrono \<Rightarrow> dur \<Rightarrow> instant \<Rightarrow> instant \<Rightarrow> nat \<Rightarrow> fire_plan result" where
  "plan_every ch interval due_at now wanted =
     result_bind (interval_step ch interval) (\<lambda>step.
       let step_nanos = max (or_i64_max (num_nanoseconds ch step)) 1;
           elapsed = or_i64_max (num_nanoseconds ch (now - due_at));
           latest = elapsed div step_nanos;
           first = max (latest - int wanted + 1) 0
       in Inr \<lparr>fire_times = List.map_filter (occurrence ch due_at step_nanos) [first..latest],
               plan_next = occurrence ch due_at step_nanos (latest + 1)\<rparr>)"

text \<open>The \<^verbatim>\<open>cron\<close> crate: the parser of expressions (with its error text) and of time zone names, the
  iterators \<^verbatim>\<open>after(t)\<close> and \<^verbatim>\<open>after(t).rev()\<close> of a schedule in a zone, and whether an instant is
  the second one of a local time a fall-back change repeats.\<close>

record ('s, 'z) cron_lib =
  cron_parse :: "string \<Rightarrow> string + 's"
  tz_parse :: "string \<Rightarrow> 'z option"
  cron_after :: "'s \<Rightarrow> 'z \<Rightarrow> instant \<Rightarrow> instant list"
  cron_before :: "'s \<Rightarrow> 'z \<Rightarrow> instant \<Rightarrow> instant list"
  is_repeat :: "'z \<Rightarrow> instant \<Rightarrow> bool"

fun count_words :: "bool \<Rightarrow> string \<Rightarrow> nat" where
  "count_words inside [] = 0"
| "count_words inside (c # cs) =
     (if c \<in> {CHR '' '', CHR 0x09, CHR 0x0A, CHR 0x0B, CHR 0x0C, CHR 0x0D} then count_words False cs
      else (if inside then 0 else 1) + count_words True cs)"

definition parse_cron :: "('s, 'z) cron_lib \<Rightarrow> string \<Rightarrow> string \<Rightarrow> ('s \<times> 'z) result" where
  "parse_cron lib expr timezone =
     (let expanded = (if count_words False expr = 5 then ''0 '' @ expr else expr) in
      case cron_parse lib expanded of
        Inl err \<Rightarrow> Inl (invalid_schedule_error (''cron expression '' @ quoted expr @ '' does not parse: '' @ err))
      | Inr s \<Rightarrow>
          (case tz_parse lib timezone of
             None \<Rightarrow> Inl (invalid_schedule_error (''time zone '' @ quoted timezone
                       @ '' is not an IANA name such as '' @ quoted ''UTC'' @ '' or '' @ quoted ''Europe/Berlin''))
           | Some z \<Rightarrow> Inr (s, z)))"

text \<open>The backward walk of \<^verbatim>\<open>latest_and_next\<close>: newest first, until enough are kept or \<open>due_at\<close> is reached.\<close>

fun walk_back :: "(instant \<Rightarrow> bool) \<Rightarrow> instant \<Rightarrow> instant \<Rightarrow> nat \<Rightarrow> instant list \<Rightarrow> instant list \<Rightarrow> instant list" where
  "walk_back rep due_at now wanted [] latest = latest"
| "walk_back rep due_at now wanted (t # ts) latest =
     (if length latest \<ge> wanted then latest
      else if t \<le> due_at then latest
      else walk_back rep due_at now wanted ts
             (if t \<le> now \<and> \<not> rep t then latest @ [t] else latest))"

definition latest_and_next ::
    "('s, 'z) cron_lib \<Rightarrow> string \<Rightarrow> string \<Rightarrow> instant \<Rightarrow> instant \<Rightarrow> nat \<Rightarrow> fire_plan result" where
  "latest_and_next lib expr timezone due_at now wanted =
     result_bind (parse_cron lib expr timezone) (\<lambda>(s, z).
       let nxt = find (\<lambda>t. \<not> is_repeat lib z t) (cron_after lib s z now);
           start = now + 1000000000;
           latest = walk_back (is_repeat lib z) due_at now wanted (cron_before lib s z start) [];
           latest' = (if length latest < wanted then latest @ [due_at] else latest)
       in Inr \<lparr>fire_times = rev latest', plan_next = nxt\<rparr>)"

text \<open>Without the \<^verbatim>\<open>cron\<close> feature: \<open>None\<close> in the place of the library.\<close>

definition cron_plan ::
    "('s, 'z) cron_lib option \<Rightarrow> string \<Rightarrow> string \<Rightarrow> instant \<Rightarrow> instant \<Rightarrow> nat \<Rightarrow> fire_plan result" where
  "cron_plan lib expr timezone due_at now wanted =
     (case lib of
        Some l \<Rightarrow> latest_and_next l expr timezone due_at now wanted
      | None \<Rightarrow> Inl (adk_error_new Agent Unsupported ''schedule.cron_unavailable''
                  ''cron schedules need the `cron` feature of adk-core; enable it in Cargo.toml''))"

definition wanted_fires :: "missed_fire_policy \<Rightarrow> nat result" where
  "wanted_fires missed =
     (case missed of
        Skip \<Rightarrow> Inr 1
      | FireOnce \<Rightarrow> Inr 1
      | CatchUp n \<Rightarrow> if n = 0 then Inl (invalid_schedule_error ''CatchUp must fire at least one occurrence'')
                     else Inr n)"

definition too_late :: "instant \<Rightarrow> dur \<Rightarrow> fire_plan \<Rightarrow> bool" where
  "too_late now grace plan \<longleftrightarrow>
     fire_times plan \<noteq> [] \<and> nat (now - last (fire_times plan)) > grace"

definition plan_fires ::
    "chrono \<Rightarrow> ('s, 'z) cron_lib option \<Rightarrow> schedule_spec \<Rightarrow> missed_fire_policy \<Rightarrow> instant \<Rightarrow> instant \<Rightarrow> dur
     \<Rightarrow> fire_plan result" where
  "plan_fires ch lib spec missed due_at now grace =
     (if due_at > now then Inr \<lparr>fire_times = [], plan_next = Some due_at\<rparr>
      else result_bind (wanted_fires missed) (\<lambda>wanted.
        result_bind
          (case spec of
             At _ \<Rightarrow> Inr \<lparr>fire_times = [due_at], plan_next = None\<rparr>
           | Every interval \<Rightarrow> plan_every ch interval due_at now wanted
           | Cron expr timezone \<Rightarrow> cron_plan lib expr timezone due_at now wanted)
          (\<lambda>plan. Inr (if missed = Skip \<and> too_late now grace plan then plan\<lparr>fire_times := []\<rparr> else plan))))"

definition next_after ::
    "chrono \<Rightarrow> ('s, 'z) cron_lib option \<Rightarrow> schedule_spec \<Rightarrow> instant \<Rightarrow> instant option result" where
  "next_after ch lib spec after =
     (case spec of
        At t \<Rightarrow> Inr (if t > after then Some t else None)
      | Every interval \<Rightarrow> map_sum id (checked_add_signed ch after) (interval_step ch interval)
      | Cron expr timezone \<Rightarrow> map_sum id plan_next (cron_plan lib expr timezone after after 0))"

section \<open>The store\<close>

type_synonym 'v schedule_store = "(string, 'v schedule) table"

definition schedule_upsert :: "'v schedule_store \<Rightarrow> 'v schedule \<Rightarrow> 'v schedule result \<times> 'v schedule_store" where
  "schedule_upsert t s =
     (case validate_schedule s of
        Inl e \<Rightarrow> (Inl e, t)
      | Inr _ \<Rightarrow>
          (case lookup t (sc_id s) of
             Some existing \<Rightarrow>
               if same_definition existing s then (Inr existing, t)
               else (let s' = s\<lparr>sc_revision := sc_revision existing + 1\<rparr>
                     in (Inr s', AList.update (sc_id s) s' t))
           | None \<Rightarrow> (let s' = s\<lparr>sc_revision := 1\<rparr> in (Inr s', AList.update (sc_id s) s' t))))"

definition schedule_get :: "'v schedule_store \<Rightarrow> string \<Rightarrow> 'v schedule option" where
  "schedule_get t i = lookup t i"

definition schedule_list :: "'v schedule_store \<Rightarrow> 'v schedule list" where
  "schedule_list t = map snd (sort_key fst t)"

definition schedule_delete :: "'v schedule_store \<Rightarrow> string \<Rightarrow> unit result \<times> 'v schedule_store" where
  "schedule_delete t i =
     (case lookup t i of
        None \<Rightarrow> (Inl (schedule_not_found_error i), t)
      | Some _ \<Rightarrow> (Inr (), AList.delete i t))"

definition set_paused :: "'v schedule_store \<Rightarrow> string \<Rightarrow> bool \<Rightarrow> 'v schedule result \<times> 'v schedule_store" where
  "set_paused t i p =
     (case lookup t i of
        None \<Rightarrow> (Inl (schedule_not_found_error i), t)
      | Some s \<Rightarrow>
          if sc_paused s \<noteq> p
          then (let s' = s\<lparr>sc_paused := p, sc_revision := sc_revision s + 1\<rparr> in (Inr s', AList.update i s' t))
          else (Inr s, t))"

definition schedule_due :: "'v schedule_store \<Rightarrow> instant \<Rightarrow> nat \<Rightarrow> 'v schedule list" where
  "schedule_due t now limit =
     take limit (sort_key (\<lambda>s. (sc_next_fire_at s, sc_id s))
       (filter (\<lambda>s. \<not> sc_paused s \<and> (case sc_next_fire_at s of Some at \<Rightarrow> at \<le> now | None \<Rightarrow> False))
               (schedule_list t)))"

definition schedule_advance ::
    "'v schedule_store \<Rightarrow> string \<Rightarrow> nat \<Rightarrow> instant option \<Rightarrow> bool result \<times> 'v schedule_store" where
  "schedule_advance t i expected nxt =
     (case lookup t i of
        None \<Rightarrow> (Inl (schedule_not_found_error i), t)
      | Some s \<Rightarrow>
          if sc_revision s \<noteq> expected then (Inr False, t)
          else (Inr True, AList.update i (s\<lparr>sc_next_fire_at := nxt, sc_revision := sc_revision s + 1\<rparr>) t))"

end
