(* ===== verification/Once.thy ===== *)
theory Once
  imports Adk_Error
begin

text \<open>
  The contract of stores that create an entry under a key at most once: the run queue (idempotency
  keys) and the action ledger (actions) provide it, the scheduler and the tool dispatch rely on it.
  \<open>creates s op\<close> is the key an operation creates an entry for, \<open>holds s k\<close> that an entry of \<open>k\<close>
  exists, \<open>keeps k op\<close> that an operation is not one that deletes \<open>k\<close>'s entry.
\<close>

locale once =
  fixes exec :: "'s \<Rightarrow> 'op \<Rightarrow> 's"
    and creates :: "'s \<Rightarrow> 'op \<Rightarrow> 'k option"
    and holds :: "'s \<Rightarrow> 'k \<Rightarrow> bool"
    and good :: "'s \<Rightarrow> bool"
    and admissible :: "'s \<Rightarrow> 'op \<Rightarrow> bool"
    and keeps :: "'k \<Rightarrow> 'op \<Rightarrow> bool"
  assumes good_exec: "good s \<Longrightarrow> admissible s op \<Longrightarrow> good (exec s op)"
    and creates_new: "good s \<Longrightarrow> admissible s op \<Longrightarrow> creates s op = Some k \<Longrightarrow>
          \<not> holds s k \<and> holds (exec s op) k"
    and holds_stays: "good s \<Longrightarrow> admissible s op \<Longrightarrow> keeps k op \<Longrightarrow> holds s k \<Longrightarrow> holds (exec s op) k"
begin

fun legal :: "'s \<Rightarrow> 'op list \<Rightarrow> bool" where
  "legal s [] \<longleftrightarrow> True"
| "legal s (op # ops) \<longleftrightarrow> admissible s op \<and> legal (exec s op) ops"

fun creations :: "'s \<Rightarrow> 'op list \<Rightarrow> 'k option list" where
  "creations s [] = []"
| "creations s (op # ops) = creates s op # creations (exec s op) ops"

lemma none_while_held:
  "good s \<Longrightarrow> legal s ops \<Longrightarrow> \<forall>op \<in> set ops. keeps k op \<Longrightarrow> holds s k \<Longrightarrow>
     Some k \<notin> set (creations s ops)"
proof (induction ops arbitrary: s)
  case (Cons op ops)
  then have "creates s op \<noteq> Some k" using creates_new [of s op k] by auto
  moreover have "Some k \<notin> set (creations (exec s op) ops)"
    using Cons by (intro Cons.IH) (auto intro: good_exec holds_stays)
  ultimately show ?case by auto
qed simp

lemma held_after:
  "good s \<Longrightarrow> legal s ops \<Longrightarrow> \<forall>op \<in> set ops. keeps k op \<Longrightarrow>
     holds s k \<or> Some k \<in> set (creations s ops) \<Longrightarrow> holds (foldl exec s ops) k"
proof (induction ops arbitrary: s)
  case (Cons op ops)
  then have "holds (exec s op) k \<or> Some k \<in> set (creations (exec s op) ops)"
    using creates_new [of s op k] holds_stays [of s op k] by auto
  then show ?case using Cons by (auto intro: good_exec)
qed auto

lemma at_most_once:
  "good s \<Longrightarrow> legal s ops \<Longrightarrow> \<forall>op \<in> set ops. keeps k op \<Longrightarrow>
     length (filter ((=) (Some k)) (creations s ops)) \<le> 1"
proof (induction ops arbitrary: s)
  case (Cons op ops)
  show ?case
  proof (cases "creates s op = Some k")
    case True
    then have "Some k \<notin> set (creations (exec s op) ops)"
      using Cons.prems creates_new [of s op k] by (intro none_while_held) (auto intro: good_exec)
    then have "filter ((=) (Some k)) (creations (exec s op) ops) = []" by (auto simp: filter_empty_conv)
    then show ?thesis using True by simp
  next
    case False
    then show ?thesis using Cons by (auto intro: good_exec)
  qed
qed simp

end

end
