(* ===== verification/Schedule_Props.thy ===== *)
theory Schedule_Props
  imports Schedule Run_Props Once
begin

text \<open>
  What the planner fires, what an advance of the schedule store guarantees, and that a fire time
  creates at most one run whatever the replicas do.
\<close>

section \<open>The planner\<close>

lemma le_zdiv_iff:
  fixes e step k :: int
  assumes "0 < step"
  shows "k \<le> e div step \<longleftrightarrow> k * step \<le> e"
proof
  assume "k \<le> e div step"
  then have "k * step \<le> (e div step) * step" using assms by (simp add: mult_right_mono)
  also have "\<dots> \<le> e"
  proof -
    have "e = (e div step) * step + e mod step" by simp
    moreover have "0 \<le> e mod step" using assms by simp
    ultimately show ?thesis by (simp only: le_add_same_cancel1)
  qed
  finally show "k * step \<le> e" .
next
  assume "k * step \<le> e"
  then have "(k * step) div step \<le> e div step" using assms by (rule zdiv_mono1)
  then show "k \<le> e div step" using assms by simp
qed

lemma occurrence_eq:
  assumes "chrono_ok ch" and "occurrence ch due step k = Some t" and "k * step \<le> i64_max"
  shows "t = due + k * step"
  using chrono_add [OF assms(1)] assms(2,3) by (auto simp: occurrence_def sat_mul_i64_def min_def)

lemma sorted_wrt_map_filter:
  "sorted_wrt P xs \<Longrightarrow>
   (\<And>x y a b. P x y \<Longrightarrow> x \<in> set xs \<Longrightarrow> y \<in> set xs \<Longrightarrow> f x = Some a \<Longrightarrow> f y = Some b \<Longrightarrow> Q a b) \<Longrightarrow>
   sorted_wrt Q (List.map_filter f xs)"
  by (induction xs) (auto simp: List.map_filter_def split: option.split)

lemma set_map_filter_iff: "y \<in> set (List.map_filter f xs) \<longleftrightarrow> (\<exists>x \<in> set xs. f x = Some y)"
  by (induction xs) (auto simp: List.map_filter_def split: option.split)

text \<open>Where \<open>now\<close> lies between the multiples of an interval from \<open>due\<close>, and which multiples the plan's
  window of indices holds.\<close>

lemma elapsed_steps:
  assumes "0 < step" and "due \<le> (now :: int)"
  shows "0 \<le> (now - due) div step \<and> (now - due) div step * step \<le> now - due
    \<and> now - due < ((now - due) div step + 1) * step"
proof -
  have "now - due = (now - due) div step * step + (now - due) mod step" by simp
  moreover have "0 \<le> (now - due) mod step" "(now - due) mod step < step" using assms(1) by simp_all
  ultimately have "(now - due) div step * step \<le> now - due" "now - due < ((now - due) div step + 1) * step"
    by (simp_all only: distrib_right)
  then show ?thesis using assms by (simp add: pos_imp_zdiv_nonneg_iff)
qed

lemma step_window:
  assumes "0 < step" and "0 \<le> k"
  shows "max ((now - due) div step - int wanted + 1) 0 \<le> k \<and> k \<le> (now - due) div step
    \<longleftrightarrow> due + k * step \<le> now \<and> now < due + k * step + int wanted * step"
proof -
  have "k \<le> (now - due) div step \<longleftrightarrow> k * step \<le> now - due" using assms(1) by (rule le_zdiv_iff)
  moreover have "(now - due) div step < k + int wanted \<longleftrightarrow> now - due < (k + int wanted) * step"
    using le_zdiv_iff [OF assms(1), of "k + int wanted" "now - due"] by linarith
  ultimately show ?thesis using assms(2) by (auto simp: algebra_simps)
qed

text \<open>an \<open>Every\<close> schedule fires exactly the latest \<open>wanted\<close> multiples of its interval counted
  from the stored fire time that are not after now, oldest first, and moves to the first multiple
  after now.\<close>

theorem plan_every_exact:
  assumes ch: "chrono_ok ch" and step: "from_std ch interval = Some step" "num_nanoseconds ch step = Some n"
    and due: "due \<le> now" and size: "now - due + step \<le> i64_max"
    and add: "\<And>x. 0 \<le> x \<Longrightarrow> x \<le> now - due + step \<Longrightarrow> checked_add_signed ch due x = Some (due + x)"
    and plan: "plan_every ch interval due now wanted = Inr plan"
  shows "sorted_wrt (<) (fire_times plan)
    \<and> (\<forall>t. t \<in> set (fire_times plan) \<longleftrightarrow>
            (\<exists>k \<ge> 0. t = due + k * step) \<and> t \<le> now \<and> now < t + int wanted * step)
    \<and> (\<exists>k. plan_next plan = Some (due + k * step) \<and> now < due + k * step \<and> due + (k - 1) * step \<le> now)"
proof -
  have pos: "0 < step" using plan step by (auto simp: plan_every_def interval_step_def split: if_splits)
  have n: "n = step" using chrono_nanos [OF ch step(2)] by simp
  let ?e = "now - due" and ?l = "(now - due) div step"
  let ?f = "max (?l - int wanted + 1) 0"
  have "or_i64_max (num_nanoseconds ch ?e) = ?e"
    using chrono_nanos [OF ch, of ?e] chrono_nanos_None [OF ch, of ?e] size pos due
    by (cases "num_nanoseconds ch ?e") (auto simp: or_i64_max_def i64_max_def)
  moreover have steps: "max (or_i64_max (Some step)) 1 = step"
    using pos by (simp add: or_i64_max_def)
  ultimately have plan_eq: "plan = \<lparr>fire_times = List.map_filter (occurrence ch due step) [?f..?l],
                              plan_next = occurrence ch due step (?l + 1)\<rparr>"
    using plan by (simp add: plan_every_def interval_step_def Let_def step pos n steps)
  have el: "0 \<le> ?l" "?l * step \<le> ?e" "?e < (?l + 1) * step" using elapsed_steps [OF pos due] by simp_all
  have occ: "occurrence ch due step k = Some (due + k * step)" if "0 \<le> k" "k \<le> ?l + 1" for k
  proof -
    have "k * step \<le> (?l + 1) * step" using that(2) pos by (simp add: mult_right_mono)
    then have "k * step \<le> ?e + step" using el(2) by (simp add: algebra_simps)
    then show ?thesis
      using add [of "k * step"] size that(1) pos by (simp add: occurrence_def sat_mul_i64_def min_def)
  qed
  have sorted: "sorted_wrt (<) (fire_times plan)"
    unfolding plan_eq using pos
    by (auto intro!: sorted_wrt_map_filter [where P = "(<)"] simp: occ mult_strict_right_mono)
  have times: "t \<in> set (fire_times plan) \<longleftrightarrow>
      (\<exists>k \<ge> 0. t = due + k * step) \<and> t \<le> now \<and> now < t + int wanted * step" for t
  proof -
    have "t \<in> set (fire_times plan) \<longleftrightarrow> (\<exists>k. ?f \<le> k \<and> k \<le> ?l \<and> t = due + k * step)"
      unfolding plan_eq by (auto simp: set_map_filter_iff occ)
    also have "\<dots> \<longleftrightarrow> (\<exists>k \<ge> 0. t = due + k * step \<and> ?f \<le> k \<and> k \<le> ?l)" by auto
    finally show ?thesis using step_window [OF pos, where now = now and due = due and wanted = wanted] by auto
  qed
  have "plan_next plan = Some (due + (?l + 1) * step) \<and> now < due + (?l + 1) * step
        \<and> due + ((?l + 1) - 1) * step \<le> now"
    using occ [of "?l + 1"] el by (simp add: plan_eq)
  then show ?thesis using sorted times by blast
qed

theorem plan_every_exact_witness:
  "\<exists>plan. plan_every plain_chrono 10 100 137 2 = Inr plan \<and> set (fire_times plan) = {120, 130} \<and> plan_next plan = Some 140"
proof -
  obtain plan where plan: "plan_every plain_chrono 10 100 137 2 = Inr plan"
    by (simp add: plan_every_def interval_step_def plain_chrono_def Let_def)
  have spec: "sorted_wrt (<) (fire_times plan)
    \<and> (\<forall>t. t \<in> set (fire_times plan) \<longleftrightarrow> (\<exists>k \<ge> 0. t = 100 + k * 10) \<and> t \<le> 137 \<and> 137 < t + int 2 * 10)
    \<and> (\<exists>k. plan_next plan = Some (100 + k * 10) \<and> 137 < 100 + k * 10 \<and> 100 + (k - 1) * 10 \<le> (137 :: int))"
    by (rule plan_every_exact [OF plain_chrono_ok _ _ _ _ _ plan, of 10 10])
       (simp_all add: plain_chrono_def i64_max_def)
  then obtain k where "plan_next plan = Some (100 + k * 10)" "137 < 100 + k * 10" "100 + (k - 1) * 10 \<le> (137 :: int)"
    by blast
  then have "plan_next plan = Some 140" by auto
  moreover have "t \<in> set (fire_times plan) \<longleftrightarrow> t = 120 \<or> t = 130" for t
  proof -
    have "t \<in> set (fire_times plan) \<longleftrightarrow> (\<exists>k \<ge> 0. t = 100 + k * 10) \<and> t \<le> 137 \<and> 117 < t"
      using spec by auto
    also have "\<dots> \<longleftrightarrow> t = 120 \<or> t = 130"
      by (auto intro: exI [of _ 2] exI [of _ 3])
    finally show ?thesis .
  qed
  ultimately show ?thesis using plan by blast
qed

text \<open>An interval longer than \<open>2^63 - 1\<close> nanoseconds (292 years) is not kept: the next fire time lies
  that many nanoseconds after the last one, not one interval.\<close>

theorem long_interval_truncated:
  "map_sum (\<lambda>_. ()) plan_next (plan_fires plain_chrono (None :: (unit, unit) cron_lib option) (Every 9460800000000000000) FireOnce 0 0 0)
     = Inr (Some 9223372036854775807)"
  by (simp add: plan_fires_def wanted_fires_def plan_every_def interval_step_def plain_chrono_def
      or_i64_max_def i64_max_def occurrence_def sat_mul_i64_def Let_def)

definition cron_lib_ok :: "('s, 'z) cron_lib \<Rightarrow> bool" where
  "cron_lib_ok lib \<longleftrightarrow>
     (\<forall>s z t. (\<forall>u \<in> set (cron_after lib s z t). t < u) \<and> sorted_wrt (>) (cron_before lib s z t))"

definition kept_back :: "instant \<Rightarrow> instant \<Rightarrow> nat \<Rightarrow> instant list \<Rightarrow> bool" where
  "kept_back due now wanted ts \<longleftrightarrow>
     sorted_wrt (>) ts \<and> (\<forall>t \<in> set ts. due < t \<and> t \<le> now) \<and> length ts \<le> wanted"

lemma walk_back_spec:
  "sorted_wrt (>) (latest @ ts) \<Longrightarrow> kept_back due now wanted latest \<Longrightarrow>
     kept_back due now wanted (walk_back rep due now wanted ts latest)"
proof (induction ts arbitrary: latest)
  case (Cons t ts)
  show ?case
  proof (cases "length latest \<ge> wanted \<or> t \<le> due")
    case True
    then have "walk_back rep due now wanted (t # ts) latest = latest" by auto
    then show ?thesis using Cons.prems(2) by simp
  next
    case False
    show ?thesis
    proof (cases "t \<le> now \<and> \<not> rep t")
      case keep: True
      have "sorted_wrt (>) ((latest @ [t]) @ ts)" using Cons.prems(1) by simp
      moreover have "kept_back due now wanted (latest @ [t])"
        using Cons.prems False keep by (auto simp: kept_back_def sorted_wrt_append)
      ultimately have "kept_back due now wanted (walk_back rep due now wanted ts (latest @ [t]))"
        by (rule Cons.IH)
      then show ?thesis using False keep by simp
    next
      case drop: False
      have "sorted_wrt (>) (latest @ ts)" using Cons.prems(1) by (simp add: sorted_wrt_append)
      then have "kept_back due now wanted (walk_back rep due now wanted ts latest)"
        using Cons.prems(2) by (rule Cons.IH)
      then show ?thesis using False drop by auto
    qed
  qed
qed simp

lemma plan_every_bounds:
  assumes ch: "chrono_ok ch" and due: "due \<le> now" and plan: "plan_every ch interval due now wanted = Inr plan"
  shows "sorted_wrt (<) (fire_times plan) \<and> (\<forall>t \<in> set (fire_times plan). due \<le> t \<and> t \<le> now)
    \<and> length (fire_times plan) \<le> max wanted 1"
proof -
  obtain step where step: "from_std ch interval = Some step" "0 < step"
    using plan by (auto simp: plan_every_def interval_step_def split: option.splits if_splits)
  define n where "n = max (or_i64_max (num_nanoseconds ch step)) 1"
  define e where "e = or_i64_max (num_nanoseconds ch (now - due))"
  define l where "l = e div n"
  define f where "f = max (l - int wanted + 1) 0"
  have plan_eq: "plan = \<lparr>fire_times = List.map_filter (occurrence ch due n) [f..l],
                         plan_next = occurrence ch due n (l + 1)\<rparr>"
    using plan by (simp add: plan_every_def interval_step_def Let_def step n_def e_def l_def f_def)
  have n: "0 < n" by (simp add: n_def)
  have "0 \<le> e \<and> e \<le> now - due \<and> e \<le> i64_max"
    using due chrono_nanos [OF ch, of "now - due"] chrono_nanos_None [OF ch, of "now - due"]
    by (cases "num_nanoseconds ch (now - due)") (auto simp: e_def or_i64_max_def i64_max_def)
  then have e: "0 \<le> e" "e \<le> now - due" "e \<le> i64_max" by auto
  have small: "k * n \<le> e" if "k \<le> l" for k
    using that le_zdiv_iff [OF n, of k e] by (simp add: l_def)
  have occ: "t = due + k * n" if "occurrence ch due n k = Some t" "k \<le> l" for k t
    using occurrence_eq [OF ch that(1)] small [OF that(2)] e(3) by simp
  have "sorted_wrt (<) (fire_times plan)"
    unfolding plan_eq using n
    by (auto intro!: sorted_wrt_map_filter [where P = "(<)"] dest!: occ)
  moreover have "\<forall>t \<in> set (fire_times plan). due \<le> t \<and> t \<le> now"
    unfolding plan_eq using n small e(2) by (fastforce simp: set_map_filter_iff f_def dest: occ)
  moreover have "length (fire_times plan) \<le> max wanted 1"
  proof -
    have "length (List.map_filter (occurrence ch due n) xs) \<le> length xs" for xs
      unfolding List.map_filter_def length_map by (rule length_filter_le)
    from this [of "[f..l]"] show ?thesis by (simp add: plan_eq f_def)
  qed
  ultimately show ?thesis by blast
qed

lemma spec_plan_bounds:
  assumes "chrono_ok ch" and "\<And>l. lib = Some l \<Longrightarrow> cron_lib_ok l" and "due \<le> now" and "1 \<le> w"
    and "(case spec of
             At _ \<Rightarrow> Inr \<lparr>fire_times = [due], plan_next = None\<rparr>
           | Every interval \<Rightarrow> plan_every ch interval due now w
           | Cron expr timezone \<Rightarrow> cron_plan lib expr timezone due now w) = Inr plan0"
  shows "sorted_wrt (<) (fire_times plan0) \<and> (\<forall>t \<in> set (fire_times plan0). due \<le> t \<and> t \<le> now)
    \<and> length (fire_times plan0) \<le> w"
proof (cases spec)
  case (At t)
  then show ?thesis using assms(5,3,4) by auto
next
  case (Every interval)
  then show ?thesis using plan_every_bounds [OF assms(1,3), of interval w plan0] assms(5,4) by simp
next
  case (Cron expr timezone)
  then obtain l s z where l: "lib = Some l"
    and eq: "plan0 = (let latest = walk_back (is_repeat l z) due now w (cron_before l s z (now + 1000000000)) [];
             latest' = (if length latest < w then latest @ [due] else latest)
         in \<lparr>fire_times = rev latest', plan_next = find (\<lambda>t. \<not> is_repeat l z t) (cron_after l s z now)\<rparr>)"
    using assms(5) by (auto simp: cron_plan_def latest_and_next_def Let_def split: option.splits)
  have "kept_back due now w (walk_back (is_repeat l z) due now w (cron_before l s z (now + 1000000000)) [])"
    by (rule walk_back_spec) (use assms(2) [OF l] in \<open>auto simp: cron_lib_ok_def kept_back_def\<close>)
  then show ?thesis
    using assms(3) by (auto simp: eq Let_def kept_back_def sorted_wrt_append sorted_wrt_rev)
qed

text \<open>whatever the specification, a plan's fire times are increasing, lie between the stored fire
  time and now, and are at most as many as the policy keeps (one unless it is a catch-up); under
  \<open>Skip\<close> they are no later than the grace period.\<close>

theorem plan_fires_bounds:
  assumes "chrono_ok ch" and "\<And>l. lib = Some l \<Longrightarrow> cron_lib_ok l" and "due \<le> now"
    and "plan_fires ch lib spec missed due now grace = Inr plan"
  shows "sorted_wrt (<) (fire_times plan) \<and> (\<forall>t \<in> set (fire_times plan). due \<le> t \<and> t \<le> now)
    \<and> length (fire_times plan) \<le> (case missed of CatchUp n \<Rightarrow> n | _ \<Rightarrow> 1)
    \<and> (missed = Skip \<longrightarrow> (\<forall>t \<in> set (fire_times plan). now - t \<le> int grace))"
proof -
  obtain w plan0 where w: "wanted_fires missed = Inr w"
    and plan: "plan = (if missed = Skip \<and> too_late now grace plan0 then plan0\<lparr>fire_times := []\<rparr> else plan0)"
    and plan0: "(case spec of
             At _ \<Rightarrow> Inr \<lparr>fire_times = [due], plan_next = None\<rparr>
           | Every interval \<Rightarrow> plan_every ch interval due now w
           | Cron expr timezone \<Rightarrow> cron_plan lib expr timezone due now w) = Inr plan0"
    using assms(3,4) by (auto simp: plan_fires_def)
  have w1: "1 \<le> w" "w = (case missed of CatchUp n \<Rightarrow> n | _ \<Rightarrow> 1)"
    using w by (auto simp: wanted_fires_def split: missed_fire_policy.splits if_splits)
  have bounds: "sorted_wrt (<) (fire_times plan0) \<and> (\<forall>t \<in> set (fire_times plan0). due \<le> t \<and> t \<le> now)
    \<and> length (fire_times plan0) \<le> w"
    using assms(1,2,3) w1(1) plan0 by (rule spec_plan_bounds)
  have late: "now - t \<le> int grace" if "missed = Skip" "t \<in> set (fire_times plan)" for t
  proof -
    have "w = 1" using w1 that(1) by simp
    then have one: "length (fire_times plan0) \<le> 1" using bounds by simp
    have ok: "\<not> too_late now grace plan0" "t \<in> set (fire_times plan0)"
      using that plan by (auto split: if_splits)
    then have "fire_times plan0 = [t]" using one by (cases "fire_times plan0") auto
    then show ?thesis using ok(1) by (simp add: too_late_def)
  qed
  have "sorted_wrt (<) (fire_times plan) \<and> (\<forall>t \<in> set (fire_times plan). due \<le> t \<and> t \<le> now)
    \<and> length (fire_times plan) \<le> w"
    using bounds by (simp add: plan)
  then show ?thesis using late w1(2) by simp
qed

definition demo_cron :: "(unit, unit) cron_lib" where
  "demo_cron = \<lparr>cron_parse = (\<lambda>_. Inr ()), tz_parse = (\<lambda>_. Some ()),
     cron_after = (\<lambda>_ _ t. [t + 1, t + 2]), cron_before = (\<lambda>_ _ t. [t - 2000000000, t - 3000000000]),
     is_repeat = (\<lambda>_ _. False)\<rparr>"

theorem plan_fires_bounds_witness:
  "\<exists>plan. plan_fires plain_chrono (Some demo_cron) (Cron ''* * * * *'' ''UTC'') Skip 0 5000000000 3000000000 = Inr plan
     \<and> fire_times plan \<noteq> [] \<and> length (fire_times plan) \<le> 1"
proof -
  have lib: "cron_lib_ok demo_cron" by (simp add: cron_lib_ok_def demo_cron_def)
  obtain plan where plan:
    "plan_fires plain_chrono (Some demo_cron) (Cron ''* * * * *'' ''UTC'') Skip 0 5000000000 3000000000 = Inr plan"
    "fire_times plan \<noteq> []"
    by (simp add: plan_fires_def wanted_fires_def cron_plan_def latest_and_next_def parse_cron_def demo_cron_def
        too_late_def Let_def)
  then show ?thesis
    using plan_fires_bounds [OF plain_chrono_ok _ _ plan(1)] lib by auto
qed

section \<open>Advancing\<close>

datatype 'v schedule_op =
  SUpsert "'v schedule" | SDelete string | SSetPaused string bool | SAdvance string nat "instant option"

fun schedule_exec :: "'v schedule_store \<Rightarrow> 'v schedule_op \<Rightarrow> 'v schedule_store" where
  "schedule_exec t (SUpsert s) = snd (schedule_upsert t s)"
| "schedule_exec t (SDelete i) = snd (schedule_delete t i)"
| "schedule_exec t (SSetPaused i p) = snd (set_paused t i p)"
| "schedule_exec t (SAdvance i r n) = snd (schedule_advance t i r n)"

text \<open>The epoch of a schedule is its revision; an advance that succeeds is the grant of the next one.\<close>

fun advance_grant :: "'v schedule_store \<Rightarrow> 'v schedule_op \<Rightarrow> (string \<times> nat) option" where
  "advance_grant t (SAdvance i r n) = (if fst (schedule_advance t i r n) = Inr True then Some (i, Suc r) else None)"
| "advance_grant t _ = None"

definition revision_past :: "'v schedule_store \<Rightarrow> string \<Rightarrow> nat \<Rightarrow> bool" where
  "revision_past t i r \<longleftrightarrow> (\<exists>s. lookup t i = Some s \<and> r < sc_revision s)"

definition advance_refused :: "'v schedule_store \<Rightarrow> string \<Rightarrow> nat \<Rightarrow> bool" where
  "advance_refused t i r \<longleftrightarrow> (\<forall>n. schedule_advance t i r n = (Inr False, t))"

interpretation schedule_fence: fencing
  schedule_exec advance_grant revision_past advance_refused "\<lambda>t. True" "\<lambda>t op. True" "\<lambda>i op. op \<noteq> SDelete i"
proof unfold_locales
  fix t :: "'v schedule_store" and op i and e e' :: nat
  show "advance_grant t op = Some (i, e') \<Longrightarrow> e < e' \<Longrightarrow> revision_past (schedule_exec t op) i e"
    by (cases op) (auto simp: revision_past_def schedule_advance_def split: option.splits if_splits)
  show "op \<noteq> SDelete i \<Longrightarrow> revision_past t i e \<Longrightarrow> revision_past (schedule_exec t op) i e"
    by (cases op)
       (auto simp: revision_past_def schedule_upsert_def schedule_delete_def set_paused_def schedule_advance_def
          Let_def split: sum.split option.split)
  show "revision_past t i e \<Longrightarrow> advance_refused t i e"
    by (auto simp: revision_past_def advance_refused_def schedule_advance_def)
qed simp_all

text \<open>of the replicas that planned a schedule at one revision, at most one advances it: after an
  advance succeeded, any further one with that revision or an earlier one answers \<open>false\<close> and
  changes nothing, as long as the schedule is not deleted.\<close>

theorem advance_single_winner:
  assumes "fst (schedule_advance t i r n) = Inr True" and "r' \<le> r" and "\<forall>op \<in> set ops. op \<noteq> SDelete i"
  shows "schedule_advance (foldl schedule_exec (snd (schedule_advance t i r n)) ops) i r' n'
           = (Inr False, foldl schedule_exec (snd (schedule_advance t i r n)) ops)"
proof -
  have "schedule_fence.legal t' os" for t' :: "'a schedule_store" and os
    by (induction os arbitrary: t') auto
  then have "advance_refused (foldl schedule_exec (schedule_exec t (SAdvance i r n)) ops) i r'"
    using assms by (intro schedule_fence.superseded_refused [where e' = "Suc r"]) auto
  then show ?thesis by (simp add: advance_refused_def)
qed

definition demo_schedule :: "nat schedule" where
  "demo_schedule = with_next_fire_at (schedule_new ''s'' (Every 10) demo_run FireOnce) 100"

theorem advance_single_winner_witness:
  "schedule_advance (snd (schedule_advance (snd (schedule_upsert [] demo_schedule)) ''s'' 1 (Some 110))) ''s'' 1 (Some 120)
     = (Inr False, snd (schedule_advance (snd (schedule_upsert [] demo_schedule)) ''s'' 1 (Some 110)))"
proof -
  have "fst (schedule_advance (snd (schedule_upsert [] demo_schedule)) ''s'' 1 (Some 110)) = Inr True"
    by code_simp
  then show ?thesis
    using advance_single_winner [of "snd (schedule_upsert [] demo_schedule)" "''s''" 1 "Some 110" 1 "[]"] by simp
qed

text \<open>The revision of a deleted schedule is forgotten: a schedule created again under its identifier
  starts over at revision 1, so an advance planned for the old one overwrites the new one's next
  fire time, although the schedule was changed in between.\<close>

theorem advance_after_recreation:
  "let old = demo_schedule; new = demo_schedule\<lparr>sc_spec := Every 7, sc_next_fire_at := Some 500\<rparr>;
       t = foldl schedule_exec [] [SUpsert old, SDelete ''s'', SUpsert new]
   in map_option sc_next_fire_at (lookup t ''s'') = Some (Some 500)
      \<and> fst (schedule_advance t ''s'' 1 (Some 110)) = Inr True
      \<and> map_option sc_next_fire_at (lookup (snd (schedule_advance t ''s'' 1 (Some 110))) ''s'') = Some (Some 110)"
  by code_simp

section \<open>One run per fire time\<close>

fun run_creates :: "instant \<Rightarrow> 'v run_table \<Rightarrow> 'v run_op \<Rightarrow> (string \<times> string) option" where
  "run_creates now t (OpEnqueue f r) =
     (case fst (run_enqueue now f t r) of
        Inr (Created _) \<Rightarrow> map_option (Pair (nr_queue r)) (nr_idempotency_key r)
      | _ \<Rightarrow> None)"
| "run_creates now t _ = None"

fun is_prune :: "'v run_op \<Rightarrow> bool" where
  "is_prune (OpPrune _) = True"
| "is_prune _ = False"

lemma index_evolves: "evolves t t' \<Longrightarrow> by_idempotency_key t' = by_idempotency_key t"
  by (simp add: evolves_def)

lemma run_creates_inserts:
  assumes inv: "run_inv t" and created: "run_creates now t op = Some (q, k)"
  shows "lookup (by_idempotency_key t) (q, k) = None
    \<and> lookup (by_idempotency_key (run_exec ch t (now, op))) (q, k) \<noteq> None"
proof -
  obtain f r rec where op: "op = OpEnqueue f r" and q: "q = nr_queue r" and k: "nr_idempotency_key r = Some k"
    and res: "fst (run_enqueue now f t r) = Inr (Created rec)"
    using created by (cases op) (auto split: sum.splits enqueued.splits)
  show ?thesis
  proof (rule enqueue_cases [OF inv, of now f r])
    fix res' assume "run_enqueue now f t r = (res', t)" "\<And>x. res' \<noteq> Inr (Created x)"
    then show ?thesis using res by simp
  next
    fix t1 assume "evolves t t1" "existing_run t r = None" "run_enqueue now f t r = insert_run now f r t1"
    then show ?thesis
      using existing_None_index [OF inv _ k] by (simp add: op q k index_evolves)
  qed
qed

interpretation run_once: once
  "run_exec ch" "\<lambda>t x. run_creates (fst x) t (snd x)" "\<lambda>t qk. lookup (by_idempotency_key t) qk \<noteq> None"
  run_inv "\<lambda>t x. fresh_ok t (snd x)" "\<lambda>qk x. \<not> is_prune (snd x)"
proof unfold_locales
  fix t :: "'v run_table" and x :: "instant \<times> 'v run_op" and qk :: "string \<times> string"
  obtain now op where x: "x = (now, op)" by (rule prod.exhaust)
  assume inv: "run_inv t"
  show "fresh_ok t (snd x) \<Longrightarrow> run_inv (run_exec ch t x)" using inv by (simp add: x run_inv_exec)
  show "run_creates (fst x) t (snd x) = Some qk \<Longrightarrow>
      \<not> lookup (by_idempotency_key t) qk \<noteq> None \<and> lookup (by_idempotency_key (run_exec ch t x)) qk \<noteq> None"
    using run_creates_inserts [OF inv, of now op "fst qk" "snd qk" ch] by (simp add: x)
  assume keep: "\<not> is_prune (snd x)" and held: "lookup (by_idempotency_key t) qk \<noteq> None"
  show "lookup (by_idempotency_key (run_exec ch t x)) qk \<noteq> None"
  proof (cases "\<exists>f r. op = OpEnqueue f r")
    case False
    then have "evolves t (run_exec ch t x)"
      unfolding x by (intro evolves_exec) (use keep in \<open>auto simp: x\<close>)
    then show ?thesis using held by (simp add: index_evolves)
  next
    case True
    then obtain f r where op: "op = OpEnqueue f r" by blast
    show ?thesis
      by (rule enqueue_cases [OF inv, of now f r])
         (use held in \<open>auto simp: x op index_evolves split: option.split\<close>)
  qed
qed

text \<open>The idempotency keys the operations of a history create runs under, in order.\<close>

fun runs_created :: "chrono \<Rightarrow> 'v run_table \<Rightarrow> (instant \<times> 'v run_op) list \<Rightarrow> (string \<times> string) option list" where
  "runs_created ch t [] = []"
| "runs_created ch t (x # ops) = run_creates (fst x) t (snd x) # runs_created ch (run_exec ch t x) ops"

lemma runs_created_once: "run_once.creations ch t ops = runs_created ch t ops"
  by (induction ops arbitrary: t) (simp_all add: run_once.creations.simps)

lemma legal_once: "run_legal ch steady earlier t ops \<Longrightarrow> run_once.legal ch t ops"
  by (induction ops arbitrary: t earlier) (auto simp: run_once.legal.simps)

lemma firing_key_inj:
  assumes "chrono_ok ch"
  shows "firing_idempotency_key ch i s = firing_idempotency_key ch j t \<longleftrightarrow> i = j \<and> s = t"
proof
  assume "firing_idempotency_key ch i s = firing_idempotency_key ch j t"
  then have eq: "i @ CHR '':'' # rfc3339 ch s = j @ CHR '':'' # rfc3339 ch t"
    by (simp add: firing_idempotency_key_def)
  then obtain us where "i = j @ us \<and> us @ CHR '':'' # rfc3339 ch s = CHR '':'' # rfc3339 ch t
      \<or> i @ us = j \<and> CHR '':'' # rfc3339 ch s = us @ CHR '':'' # rfc3339 ch t"
    unfolding append_eq_append_conv2 by blast
  then show "i = j \<and> s = t"
    using chrono_rfc3339 [OF assms] chrono_rfc3339_suffix [OF assms] chrono_rfc3339_suffix [OF assms, symmetric]
    by (cases us) (auto simp: Cons_eq_append_conv append_eq_Cons_conv)
qed simp

text \<open>C37: across any number of replicas, crashes and re-plans, a schedule's fire time creates at most
  one run: in any history of the run store without a prune, at most one enqueue creates a run under
  the key of that schedule and time, and no other schedule or time shares the key.\<close>

theorem fire_time_creates_one_run:
  assumes "run_reach ch steady t earlier" and "run_legal ch steady earlier t ops" and "\<forall>x \<in> set ops. \<not> is_prune (snd x)"
    and "chrono_ok ch"
  shows "length (filter ((=) (Some (nr_queue (run_for ch s at), firing_idempotency_key ch (sc_id s) at)))
            (runs_created ch t ops)) \<le> 1
    \<and> (\<forall>s' at'. nr_idempotency_key (run_for ch s' at') = Some (firing_idempotency_key ch (sc_id s) at)
          \<longrightarrow> sc_id s' = sc_id s \<and> at' = at)"
  using run_once.at_most_once [OF reach_inv [OF assms(1)] legal_once [OF assms(2)], of "(nr_queue (run_for ch s at), firing_idempotency_key ch (sc_id s) at)"]
    assms(3) firing_key_inj [OF assms(4)]
  by (auto simp: run_for_def runs_created_once)

definition refire_ops :: "(instant \<times> nat run_op) list" where
  "refire_ops = [(2, OpEnqueue ''x'' (run_for plain_chrono demo_schedule 2)),
                 (2, OpEnqueue ''y'' (run_for plain_chrono demo_schedule 2))]"

theorem fire_time_creates_one_run_witness:
  "length (filter ((=) (Some (''q'', ''schedule:s:ii'')))
     (runs_created plain_chrono run_table_empty refire_ops)) \<le> 1"
proof -
  have "lookup (runs (run_exec plain_chrono run_table_empty (hd refire_ops))) ''y'' = None" by code_simp
  then have legal: "run_legal plain_chrono True 0 run_table_empty refire_ops"
    by (simp add: refire_ops_def) (simp add: run_table_empty_def)
  have keep: "\<forall>x \<in> set refire_ops. \<not> is_prune (snd x)" by (simp add: refire_ops_def)
  have key: "(nr_queue (run_for plain_chrono demo_schedule 2), firing_idempotency_key plain_chrono (sc_id demo_schedule) 2)
      = (''q'', ''schedule:s:ii'')" by code_simp
  from fire_time_creates_one_run [OF reach_empty legal keep plain_chrono_ok, where s = demo_schedule and at = 2]
  show ?thesis unfolding key by (rule conjunct1)
qed

end
