(* ===== verification/Scheduler.thy ===== *)
theory Scheduler
  imports Schedule_Props
begin

text \<open>
  The durable scheduler: \<^verbatim>\<open>adk-server/src/background/scheduler.rs\<close>. One replica's tick, run against the
  schedule store and the run store. The world carries both stores, the number of identifiers drawn
  (\<open>uuid n\<close> is the \<open>n\<close>-th one) and the number of times the governance control was asked
  (\<open>refuses n\<close>, absent without a control, is its \<open>n\<close>-th answer). Log lines are left out.
\<close>

record scheduler_tick =
  tk_enqueued :: nat
  tk_existing :: nat
  tk_rejected :: nat
  tk_advanced :: nat
  tk_lost_race :: nat
  tk_frozen :: bool

definition tick_default :: scheduler_tick where
  "tick_default = \<lparr>tk_enqueued = 0, tk_existing = 0, tk_rejected = 0, tk_advanced = 0,
                   tk_lost_race = 0, tk_frozen = False\<rparr>"

record ('s, 'z) scheduler =
  sd_chrono :: chrono
  sd_cron :: "('s, 'z) cron_lib option"
  sd_uuid :: "nat \<Rightarrow> string"
  sd_refuses :: "(nat \<Rightarrow> bool) option"
  sd_batch :: nat
  sd_grace :: dur

definition scheduler_new :: "chrono \<Rightarrow> ('s, 'z) cron_lib option \<Rightarrow> (nat \<Rightarrow> string) \<Rightarrow> ('s, 'z) scheduler" where
  "scheduler_new ch lib uuid =
     \<lparr>sd_chrono = ch, sd_cron = lib, sd_uuid = uuid, sd_refuses = None, sd_batch = 100,
      sd_grace = default_misfire_grace\<rparr>"

definition scheduler_with_governance :: "('s, 'z) scheduler \<Rightarrow> (nat \<Rightarrow> bool) \<Rightarrow> ('s, 'z) scheduler" where
  "scheduler_with_governance sd f = sd\<lparr>sd_refuses := Some f\<rparr>"

definition scheduler_with_batch :: "('s, 'z) scheduler \<Rightarrow> nat \<Rightarrow> ('s, 'z) scheduler" where
  "scheduler_with_batch sd n = sd\<lparr>sd_batch := max n 1\<rparr>"

definition scheduler_with_grace :: "('s, 'z) scheduler \<Rightarrow> dur \<Rightarrow> ('s, 'z) scheduler" where
  "scheduler_with_grace sd g = sd\<lparr>sd_grace := g\<rparr>"

record 'v world =
  w_schedules :: "'v schedule_store"
  w_runs :: "'v run_table"
  w_ids :: nat
  w_checks :: nat

definition governed :: "('s, 'z) scheduler \<Rightarrow> 'v world \<Rightarrow> bool \<times> 'v world" where
  "governed sd w =
     (case sd_refuses sd of
        None \<Rightarrow> (False, w)
      | Some f \<Rightarrow> (f (w_checks w), w\<lparr>w_checks := w_checks w + 1\<rparr>))"

text \<open>The loop over a plan's fire times; \<open>rnow\<close> is what the run store's clock reads.\<close>

fun fire_loop ::
    "('s, 'z) scheduler \<Rightarrow> instant \<Rightarrow> 'v schedule \<Rightarrow> instant list \<Rightarrow> 'v world \<times> scheduler_tick
     \<Rightarrow> unit result \<times> 'v world \<times> scheduler_tick" where
  "fire_loop sd rnow s [] (w, tk) = (Inr (), w, tk)"
| "fire_loop sd rnow s (t # ts) (w, tk) =
     (case run_enqueue rnow (sd_uuid sd (w_ids w)) (w_runs w) (run_for (sd_chrono sd) s t) of
        (res, runs') \<Rightarrow>
          (let w' = w\<lparr>w_runs := runs', w_ids := w_ids w + 1\<rparr> in
           case res of
             Inl e \<Rightarrow> (Inl e, w', tk)
           | Inr (Created _) \<Rightarrow> fire_loop sd rnow s ts (w', tk\<lparr>tk_enqueued := tk_enqueued tk + 1\<rparr>)
           | Inr (Existing _) \<Rightarrow> fire_loop sd rnow s ts (w', tk\<lparr>tk_existing := tk_existing tk + 1\<rparr>)
           | Inr (Rejected _) \<Rightarrow> fire_loop sd rnow s ts (w', tk\<lparr>tk_rejected := tk_rejected tk + 1\<rparr>)))"

definition fire ::
    "('s, 'z) scheduler \<Rightarrow> instant \<Rightarrow> instant \<Rightarrow> 'v schedule \<Rightarrow> 'v world \<times> scheduler_tick
     \<Rightarrow> unit result \<times> 'v world \<times> scheduler_tick" where
  "fire sd rnow now s wt =
     (let (w, tk) = wt in
      case sc_next_fire_at s of
        None \<Rightarrow> (Inr (), w, tk)
      | Some due_at \<Rightarrow>
          (case plan_fires (sd_chrono sd) (sd_cron sd) (sc_spec s) (sc_missed s) due_at now (sd_grace sd) of
             Inl _ \<Rightarrow>
               (let (res, sch) = set_paused (w_schedules w) (sc_id s) True
                in (map_sum id (\<lambda>_. ()) res, w\<lparr>w_schedules := sch\<rparr>, tk))
           | Inr plan \<Rightarrow>
               (let (refused, w) = governed sd w in
                if refused then (Inr (), w, tk\<lparr>tk_frozen := True\<rparr>)
                else
                  (case fire_loop sd rnow s (fire_times plan) (w, tk) of
                     (Inl e, wt') \<Rightarrow> (Inl e, wt')
                   | (Inr _, w, tk) \<Rightarrow>
                       (let (res, sch) = schedule_advance (w_schedules w) (sc_id s) (sc_revision s) (plan_next plan);
                            w = w\<lparr>w_schedules := sch\<rparr>
                        in case res of
                             Inl e \<Rightarrow> (Inl e, w, tk)
                           | Inr True \<Rightarrow> (Inr (), w, tk\<lparr>tk_advanced := tk_advanced tk + 1\<rparr>)
                           | Inr False \<Rightarrow> (Inr (), w, tk\<lparr>tk_lost_race := tk_lost_race tk + 1\<rparr>))))))"

definition scheduler_tick_run ::
    "('s, 'z) scheduler \<Rightarrow> instant \<Rightarrow> instant \<Rightarrow> 'v world \<Rightarrow> 'v world \<times> scheduler_tick" where
  "scheduler_tick_run sd rnow now w =
     (let (refused, w) = governed sd w in
      if refused then (w, tick_default\<lparr>tk_frozen := True\<rparr>)
      else foldl (\<lambda>wt s. snd (fire sd rnow now s wt)) (w, tick_default)
             (schedule_due (w_schedules w) now (sd_batch sd)))"

section \<open>Facts\<close>

definition ids_fresh :: "('s, 'z) scheduler \<Rightarrow> 'v world \<Rightarrow> bool" where
  "ids_fresh sd w \<longleftrightarrow> (\<forall>n \<ge> w_ids w. lookup (runs (w_runs w)) (sd_uuid sd n) = None) \<and> inj (sd_uuid sd)"

text \<open>A fire time is present when a run of the schedule's queue carries its key.\<close>

definition fired :: "chrono \<Rightarrow> 'v schedule \<Rightarrow> 'v run_table \<Rightarrow> instant \<Rightarrow> bool" where
  "fired ch s t at \<longleftrightarrow>
     (\<exists>i e. lookup (runs t) i = Some e \<and> rr_queue (entry_record e) = nr_queue (sc_run s)
        \<and> rr_idempotency_key (entry_record e) = Some (firing_idempotency_key ch (sc_id s) at))"

definition never_rejects :: "'v schedule \<Rightarrow> bool" where
  "never_rejects s \<longleftrightarrow> nr_concurrency_key (sc_run s) = None \<or> nr_on_conflict (sc_run s) \<noteq> Reject"

lemma service_subject_sel [simp]:
  "nr_queue (with_service_subject r) = nr_queue r"
  "nr_concurrency_key (with_service_subject r) = nr_concurrency_key r"
  "nr_on_conflict (with_service_subject r) = nr_on_conflict r"
  by (auto simp: with_service_subject_def Let_def split: option.split)

lemma run_for_sel [simp]:
  "nr_queue (run_for ch s t) = nr_queue (sc_run s)"
  "nr_concurrency_key (run_for ch s t) = nr_concurrency_key (sc_run s)"
  "nr_on_conflict (run_for ch s t) = nr_on_conflict (sc_run s)"
  "nr_idempotency_key (run_for ch s t) = Some (firing_idempotency_key ch (sc_id s) t)"
  by (simp_all add: run_for_def)

lemma fired_index:
  "run_inv t \<Longrightarrow> fired ch s t at \<longleftrightarrow>
     lookup (by_idempotency_key t) (nr_queue (sc_run s), firing_idempotency_key ch (sc_id s) at) \<noteq> None"
  by (auto simp: fired_def inv_index)

text \<open>One enqueue of the loop: nothing fired is lost, identifiers stay fresh, and afterwards the time is
  present unless the schedule's concurrency policy refuses it.\<close>

lemma enqueue_step:
  assumes inv: "run_inv (w_runs w)" and fresh: "ids_fresh sd w"
    and res: "run_enqueue rnow (sd_uuid sd (w_ids w)) (w_runs w) (run_for (sd_chrono sd) s at) = (res, t')"
  defines "w' \<equiv> w\<lparr>w_runs := t', w_ids := w_ids w + 1\<rparr>"
  shows "run_inv t'" and "ids_fresh sd w'"
    and "by_idempotency_key t' = by_idempotency_key (w_runs w)
         \<or> by_idempotency_key t' = AList.update (nr_queue (sc_run s), firing_idempotency_key (sd_chrono sd) (sc_id s) at)
             (sd_uuid sd (w_ids w)) (by_idempotency_key (w_runs w))"
    and "res = Inr (Created rec) \<or> res = Inr (Existing rec) \<Longrightarrow> fired (sd_chrono sd) s t' at"
    and "res = Inr (Rejected b) \<Longrightarrow> \<not> never_rejects s"
    and "fired (sd_chrono sd) s (w_runs w) at \<Longrightarrow> res = Inr a \<Longrightarrow> (\<exists>rec. res = Inr (Existing rec)) \<and> t' = w_runs w"
proof -
  let ?r = "run_for (sd_chrono sd) s at" and ?f = "sd_uuid sd (w_ids w)"
  have free: "lookup (runs (w_runs w)) ?f = None" using fresh by (simp add: ids_fresh_def)
  then show inv': "run_inv t'"
    using run_inv_exec [OF inv, of "OpEnqueue ?f ?r" "sd_chrono sd" rnow] res by simp
  show "ids_fresh sd w'"
  proof -
    have "lookup (runs t') i = None" if "lookup (runs (w_runs w)) i = None" "i \<noteq> ?f" for i
      using exec_entry [OF inv, of "OpEnqueue ?f ?r" i rnow "sd_chrono sd"] free that res
      by (cases "lookup (runs t') i") auto
    moreover have "sd_uuid sd n \<noteq> ?f" if "Suc (w_ids w) \<le> n" for n
      using fresh that by (auto simp: ids_fresh_def dest: injD)
    ultimately show ?thesis using fresh by (auto simp: ids_fresh_def w'_def)
  qed
  show index: "by_idempotency_key t' = by_idempotency_key (w_runs w)
      \<or> by_idempotency_key t' = AList.update (nr_queue (sc_run s), firing_idempotency_key (sd_chrono sd) (sc_id s) at)
             ?f (by_idempotency_key (w_runs w))"
  proof -
    have t': "t' = snd (run_enqueue rnow ?f (w_runs w) ?r)" using res by simp
    show ?thesis
      by (rule enqueue_cases [OF inv, of rnow ?f ?r]) (auto simp: t' index_evolves)
  qed
  show "fired (sd_chrono sd) s t' at" if "res = Inr (Created rec) \<or> res = Inr (Existing rec)"
    using that
  proof
    assume "res = Inr (Created rec)"
    then have "run_creates rnow (w_runs w) (OpEnqueue ?f ?r)
        = Some (nr_queue (sc_run s), firing_idempotency_key (sd_chrono sd) (sc_id s) at)"
      using res by simp
    from run_creates_inserts [OF inv this, of "sd_chrono sd"] show ?thesis
      using res by (simp add: fired_index [OF inv'])
  next
    assume ex: "res = Inr (Existing rec)"
    have "existing_run (w_runs w) ?r \<noteq> None"
    proof
      assume none: "existing_run (w_runs w) ?r = None"
      show False
        by (rule enqueue_cases [OF inv, of rnow ?f ?r])
           (use res ex none in \<open>auto simp: run_enqueue_def insert_run_def Let_def split: sum.splits option.splits on_conflict.splits list.splits\<close>)
    qed
    then have "lookup (by_idempotency_key (w_runs w)) (nr_queue (sc_run s), firing_idempotency_key (sd_chrono sd) (sc_id s) at) \<noteq> None"
      by (auto simp: existing_run_def split: option.splits)
    then show ?thesis using index by (auto simp: fired_index [OF inv'])
  qed
  show "\<not> never_rejects s" if "res = Inr (Rejected b)"
    using that res
    by (auto simp: run_enqueue_def never_rejects_def insert_run_def Let_def
        split: sum.splits option.splits on_conflict.splits list.splits)
  show "(\<exists>rec. res = Inr (Existing rec)) \<and> t' = w_runs w"
    if fired: "fired (sd_chrono sd) s (w_runs w) at" and ok: "res = Inr a"
  proof -
    obtain i where i: "lookup (by_idempotency_key (w_runs w))
        (nr_queue (sc_run s), firing_idempotency_key (sd_chrono sd) (sc_id s) at) = Some i"
      using fired by (auto simp: fired_index [OF inv])
    then obtain e where "lookup (runs (w_runs w)) i = Some e" using inv_index [OF inv] by blast
    then have "existing_run (w_runs w) ?r = Some e" using i by (simp add: existing_run_def)
    then show ?thesis using res ok by (auto simp: run_enqueue_def split: sum.splits)
  qed
qed

lemma index_grows_fired:
  assumes "run_inv t" "run_inv t'" "fired ch s t at"
    and "by_idempotency_key t' = by_idempotency_key t
         \<or> by_idempotency_key t' = AList.update k v (by_idempotency_key t)"
  shows "fired ch s t' at"
  using assms by (auto simp: fired_index)

lemma fire_loop_all:
  assumes "run_inv (w_runs w)" and "ids_fresh sd w"
    and "fire_loop sd rnow s ats (w, tk) = (Inr (), w', tk')"
  shows "run_inv (w_runs w') \<and> ids_fresh sd w' \<and> w_schedules w' = w_schedules w
    \<and> (\<forall>at. fired (sd_chrono sd) s (w_runs w) at \<longrightarrow> fired (sd_chrono sd) s (w_runs w') at)
    \<and> (never_rejects s \<longrightarrow> (\<forall>at \<in> set ats. fired (sd_chrono sd) s (w_runs w') at))
    \<and> tk_enqueued tk' + tk_existing tk' + tk_rejected tk'
        = tk_enqueued tk + tk_existing tk + tk_rejected tk + length ats"
  using assms
proof (induction ats arbitrary: w tk)
  case (Cons at ats)
  obtain res t1 where enq: "run_enqueue rnow (sd_uuid sd (w_ids w)) (w_runs w) (run_for (sd_chrono sd) s at) = (res, t1)"
    by (rule prod.exhaust)
  let ?w = "w\<lparr>w_runs := t1, w_ids := w_ids w + 1\<rparr>"
  note step = enqueue_step [OF Cons.prems(1,2) enq]
  have inv: "run_inv (w_runs ?w)" and ids: "ids_fresh sd ?w" using step(1,2) by simp_all
  have kept: "fired (sd_chrono sd) s t1 a" if "fired (sd_chrono sd) s (w_runs w) a" for a
    using index_grows_fired [OF Cons.prems(1) step(1) that] step(3) by blast
  obtain x tk1 where res: "res = Inr x" and loop: "fire_loop sd rnow s ats (?w, tk1) = (Inr (), w', tk')"
    and count: "tk_enqueued tk1 + tk_existing tk1 + tk_rejected tk1 = Suc (tk_enqueued tk + tk_existing tk + tk_rejected tk)"
    using Cons.prems(3) by (auto simp: enq Let_def split: sum.splits enqueued.splits)
  have now: "fired (sd_chrono sd) s t1 at" if "never_rejects s"
    using step(4,5) res that by (cases x) auto
  show ?case
    using Cons.IH [OF inv ids loop] kept now count by simp
qed simp

text \<open>a replica that got through a plan without an error left a run for every fire time it
  planned, provided the schedule does not reject on its concurrency key; every time is counted once.\<close>

theorem fire_loop_complete:
  assumes "run_inv (w_runs w)" and "ids_fresh sd w"
    and "fire_loop sd rnow s ats (w, tk) = (Inr (), w', tk')"
  shows "run_inv (w_runs w') \<and> ids_fresh sd w' \<and> w_schedules w' = w_schedules w
    \<and> (\<forall>at. fired (sd_chrono sd) s (w_runs w) at \<longrightarrow> fired (sd_chrono sd) s (w_runs w') at)
    \<and> (never_rejects s \<longrightarrow> (\<forall>at \<in> set ats. fired (sd_chrono sd) s (w_runs w') at))
    \<and> tk_enqueued tk' + tk_existing tk' + tk_rejected tk'
        = tk_enqueued tk + tk_existing tk + tk_rejected tk + length ats"
  using assms by (rule fire_loop_all)

text \<open>planning is crash-safe. A replica that enqueues the same fire times again (after a crash
  before the advance, or because another replica did it first) changes nothing in the run store.\<close>

theorem refire_changes_nothing:
  assumes "run_inv (w_runs w)" and "ids_fresh sd w"
    and "\<forall>at \<in> set ats. fired (sd_chrono sd) s (w_runs w) at"
    and "fire_loop sd rnow s ats (w, tk) = (Inr (), w', tk')"
  shows "w_runs w' = w_runs w \<and> tk' = tk\<lparr>tk_existing := tk_existing tk + length ats\<rparr>"
  using assms
proof (induction ats arbitrary: w tk)
  case (Cons at ats)
  obtain res t1 where enq: "run_enqueue rnow (sd_uuid sd (w_ids w)) (w_runs w) (run_for (sd_chrono sd) s at) = (res, t1)"
    by (rule prod.exhaust)
  let ?w = "w\<lparr>w_runs := t1, w_ids := w_ids w + 1\<rparr>"
  note step = enqueue_step [OF Cons.prems(1,2) enq]
  obtain x where "res = Inr x"
    using Cons.prems(4) by (cases res) (auto simp: enq Let_def)
  then obtain rec where res: "res = Inr (Existing rec)" and t1: "t1 = w_runs w"
    using step(6) Cons.prems(3) by auto
  have loop: "fire_loop sd rnow s ats (?w, tk\<lparr>tk_existing := tk_existing tk + 1\<rparr>) = (Inr (), w', tk')"
    using Cons.prems(4) by (simp add: enq res Let_def)
  have "w_runs w' = w_runs ?w \<and> tk' = tk\<lparr>tk_existing := tk_existing tk + 1\<rparr>\<lparr>tk_existing := tk_existing (tk\<lparr>tk_existing := tk_existing tk + 1\<rparr>) + length ats\<rparr>"
    by (rule Cons.IH [OF _ _ _ loop]) (use step(1,2) Cons.prems(3) t1 in auto)
  then show ?case by (simp add: t1)
qed simp

definition demo_scheduler :: "(unit, unit) scheduler" where
  "demo_scheduler = \<lparr>sd_chrono = plain_chrono, sd_cron = None, sd_uuid = (\<lambda>n. replicate n CHR ''x''),
     sd_refuses = None, sd_batch = 1, sd_grace = 5\<rparr>"

definition demo_world :: "nat world" where
  "demo_world = \<lparr>w_schedules = [(''s'', demo_schedule\<lparr>sc_revision := 1\<rparr>)], w_runs = run_table_empty, w_ids = 0, w_checks = 0\<rparr>"

lemma demo_world_ok: "run_inv (w_runs demo_world)" "ids_fresh demo_scheduler demo_world"
proof -
  have "inj (\<lambda>n. replicate n CHR ''x'')" by (rule injI) (metis length_replicate)
  then show "run_inv (w_runs demo_world)" "ids_fresh demo_scheduler demo_world"
    using run_inv_empty
    by (simp_all add: demo_world_def ids_fresh_def demo_scheduler_def run_table_empty_def)
qed

definition demo_fired :: "unit result \<times> nat world \<times> scheduler_tick" where
  "demo_fired = fire_loop demo_scheduler 3 demo_schedule [2] (demo_world, tick_default)"

lemma demo_fired_ok: "fst demo_fired = Inr ()"
  by code_simp

theorem fire_loop_complete_witness:
  "fired plain_chrono demo_schedule (w_runs (fst (snd demo_fired))) 2"
proof -
  have eq: "fire_loop demo_scheduler 3 demo_schedule [2] (demo_world, tick_default)
      = (Inr (), fst (snd demo_fired), snd (snd demo_fired))"
    using demo_fired_ok unfolding demo_fired_def by (metis prod.collapse)
  have nr: "never_rejects demo_schedule" by code_simp
  have ch: "sd_chrono demo_scheduler = plain_chrono" by (simp add: demo_scheduler_def)
  show ?thesis
    using fire_loop_complete [OF demo_world_ok eq] nr by (simp add: ch)
qed

theorem refire_changes_nothing_witness:
  "w_runs (fst (snd (fire_loop demo_scheduler 4 demo_schedule [2] (fst (snd demo_fired), tick_default))))
     = w_runs (fst (snd demo_fired))"
proof -
  let ?w = "fst (snd demo_fired)"
  let ?again = "fire_loop demo_scheduler 4 demo_schedule [2] (?w, tick_default)"
  have eq: "fire_loop demo_scheduler 3 demo_schedule [2] (demo_world, tick_default)
      = (Inr (), ?w, snd (snd demo_fired))"
    using demo_fired_ok unfolding demo_fired_def by (metis prod.collapse)
  have ch: "sd_chrono demo_scheduler = plain_chrono" by (simp add: demo_scheduler_def)
  have nr: "never_rejects demo_schedule" by code_simp
  have "run_inv (w_runs ?w)" "ids_fresh demo_scheduler ?w"
    "\<forall>at \<in> set [2]. fired (sd_chrono demo_scheduler) demo_schedule (w_runs ?w) at"
    using fire_loop_all [OF demo_world_ok eq] nr by simp_all
  moreover have "fst ?again = Inr ()" by code_simp
  then have "?again = (Inr (), fst (snd ?again), snd (snd ?again))" by (metis prod.collapse)
  ultimately show ?thesis using refire_changes_nothing by blast
qed

end
