(* ===== verification/Json.thy ===== *)
theory Json
  imports Adk_Error
begin

text \<open>
  JSON values (\<^verbatim>\<open>serde_json::Value\<close>) and the canonical text the digests and fingerprints of
  \<^verbatim>\<open>adk-core\<close> are computed from (\<^verbatim>\<open>write_canonical\<close> in \<^verbatim>\<open>context.rs\<close>, \<^verbatim>\<open>json_digest\<close> in
  \<^verbatim>\<open>action_ledger.rs\<close>). A number is the text \<^verbatim>\<open>serde_json\<close> prints for it; how that crate quotes a
  string is the parameter \<open>esc\<close>. An object is the list of its entries, with distinct keys.
\<close>

datatype json =
  JNull | JBool bool | JNumber string | JString string | JArray "json list" | JObject "(string \<times> json) list"

fun join_with :: "string \<Rightarrow> string list \<Rightarrow> string" where
  "join_with sep [] = []"
| "join_with sep [x] = x"
| "join_with sep (x # y # xs) = x @ sep @ join_with sep (y # xs)"

text \<open>Keys sorted, then each with its value, as \<^verbatim>\<open>keys.sort()\<close> and \<^verbatim>\<open>map[key]\<close> do.\<close>

function write_canonical :: "(string \<Rightarrow> string) \<Rightarrow> json \<Rightarrow> string" where
  "write_canonical esc JNull = ''null''"
| "write_canonical esc (JBool b) = (if b then ''true'' else ''false'')"
| "write_canonical esc (JNumber n) = n"
| "write_canonical esc (JString s) = esc s"
| "write_canonical esc (JArray xs) = ''['' @ join_with '','' (map (write_canonical esc) xs) @ '']''"
| "write_canonical esc (JObject kvs) =
     ''{'' @ join_with '','' (map (\<lambda>kv. esc (fst kv) @ '':'' @ write_canonical esc (snd kv)) (sort_key fst kvs)) @ ''}''"
  by pat_completeness auto

lemma size_json_entry: "kv \<in> set kvs \<Longrightarrow> size (snd kv) < Suc (size_list (size_prod (\<lambda>_. 0) size) kvs)"
proof -
  assume "kv \<in> set kvs"
  then have "size_prod (\<lambda>_. 0) size kv \<le> size_list (size_prod (\<lambda>_. 0) size) kvs"
    by (rule size_list_estimation') simp
  then show ?thesis by (cases kv) simp
qed

termination write_canonical
  by (relation "measure (size \<circ> snd)") (auto dest: size_json_entry intro: size_list_estimation' less_Suc_eq_le [THEN iffD2])

text \<open>\<^verbatim>\<open>Value::get(key)\<close> and \<^verbatim>\<open>Value::as_str\<close>.\<close>

fun json_get :: "json \<Rightarrow> string \<Rightarrow> json option" where
  "json_get (JObject kvs) k = lookup kvs k"
| "json_get _ k = None"

fun json_as_str :: "json \<Rightarrow> string option" where
  "json_as_str (JString s) = Some s"
| "json_as_str _ = None"

definition fnv_offset :: "128 word" where
  "fnv_offset = 0x6c62272e07bb014262b821756295c58d"

definition fnv_prime :: "128 word" where
  "fnv_prime = 0x0000000001000000000000000000013b"

definition fnv1a :: "string \<Rightarrow> 128 word" where
  "fnv1a s = fold (\<lambda>c h. xor h (word_of_nat (of_char c)) * fnv_prime) s fnv_offset"

definition lower_hex_digit :: "nat \<Rightarrow> char" where
  "lower_hex_digit d = (if d < 10 then char_of (48 + d) else char_of (87 + d))"

fun hex_digits :: "nat \<Rightarrow> nat \<Rightarrow> string" where
  "hex_digits 0 n = []"
| "hex_digits (Suc w) n = hex_digits w (n div 16) @ [lower_hex_digit (n mod 16)]"

definition json_digest :: "(string \<Rightarrow> string) \<Rightarrow> json \<Rightarrow> string" where
  "json_digest esc v = ''fnv1a128:'' @ hex_digits 32 (unat (fnv1a (write_canonical esc v)))"

section \<open>Key order does not matter\<close>

inductive json_eq :: "json \<Rightarrow> json \<Rightarrow> bool" where
  eq_refl: "json_eq v v"
| eq_array: "list_all2 json_eq xs ys \<Longrightarrow> json_eq (JArray xs) (JArray ys)"
| eq_object: "distinct (keys kvs) \<Longrightarrow> distinct (keys kvs') \<Longrightarrow> set (keys kvs) = set (keys kvs') \<Longrightarrow>
    (\<And>k v w. lookup kvs k = Some v \<Longrightarrow> lookup kvs' k = Some w \<Longrightarrow> json_eq v w) \<Longrightarrow>
    json_eq (JObject kvs) (JObject kvs')"

lemma sort_entries:
  assumes "distinct (keys kvs)"
  shows "sort_key fst kvs = map (\<lambda>k. (k, the (lookup kvs k))) (sort (keys kvs))"
proof -
  have keys_eq: "map fst (sort_key fst kvs) = sort (keys kvs)"
    by (rule properties_for_sort [symmetric]) simp_all
  have entry: "(fst kv, the (lookup kvs (fst kv))) = kv" if "kv \<in> set (sort_key fst kvs)" for kv
  proof -
    have "kv \<in> set kvs" using that by simp
    then have "lookup kvs (fst kv) = Some (snd kv)" using mem_lookup [OF assms, of "fst kv" "snd kv"] by simp
    then show ?thesis by simp
  qed
  have "sort_key fst kvs = map (\<lambda>kv. (fst kv, the (lookup kvs (fst kv)))) (sort_key fst kvs)"
    by (rule map_idI [symmetric]) (rule entry)
  also have "\<dots> = map (\<lambda>k. (k, the (lookup kvs k))) (map fst (sort_key fst kvs))" by simp
  finally show ?thesis by (simp only: keys_eq)
qed

lemma write_object:
  assumes "distinct (keys kvs)"
  shows "write_canonical esc (JObject kvs) =
    ''{'' @ join_with '','' (map (\<lambda>k. esc k @ '':'' @ write_canonical esc (the (lookup kvs k))) (sort (keys kvs))) @ ''}''"
  unfolding write_canonical.simps by (subst sort_entries [OF assms]) (simp add: o_def)

text \<open>structurally equal values, whatever the order of their objects' entries at any depth, have the
  same canonical text and so the same digest.\<close>

theorem digest_ignores_key_order:
  assumes "json_eq v w"
  shows "write_canonical esc v = write_canonical esc w \<and> json_digest esc v = json_digest esc w"
proof -
  have "write_canonical esc v = write_canonical esc w"
    using assms
  proof (induction rule: json_eq.induct)
    case (eq_array xs ys)
    then have "map (write_canonical esc) xs = map (write_canonical esc) ys"
      by (induction rule: list_all2_induct) auto
    then show ?case by simp
  next
    case (eq_object kvs kvs')
    have sorted: "sort (keys kvs) = sort (keys kvs')"
      using eq_object.hyps by (metis sorted_list_of_set_sort_remdups distinct_remdups_id)
    have "write_canonical esc (the (lookup kvs k)) = write_canonical esc (the (lookup kvs' k))"
      if "k \<in> set (keys kvs')" for k
    proof -
      obtain a b where ab: "lookup kvs k = Some a" "lookup kvs' k = Some b"
      proof -
        have "lookup kvs k \<noteq> None" "lookup kvs' k \<noteq> None"
          using \<open>k \<in> set (keys kvs')\<close> eq_object.hyps(3) by (simp_all only: lookup_None_keys not_not)
        then show ?thesis using that by blast
      qed
      with eq_object.IH have "write_canonical esc a = write_canonical esc b" by blast
      with ab show ?thesis by simp
    qed
    then show ?case
      unfolding write_object [OF eq_object.hyps(1)] write_object [OF eq_object.hyps(2)] sorted
      by (auto intro!: arg_cong [where f = "join_with _"] map_cong)
  qed simp
  then show ?thesis by (simp add: json_digest_def)
qed

theorem digest_ignores_key_order_witness:
  "json_digest (\<lambda>s. s) (JObject [(''a'', JNumber ''1''), (''b'', JNull)])
     = json_digest (\<lambda>s. s) (JObject [(''b'', JNull), (''a'', JNumber ''1'')])"
proof -
  have "json_eq (JObject [(''a'', JNumber ''1''), (''b'', JNull)]) (JObject [(''b'', JNull), (''a'', JNumber ''1'')])"
    by (rule eq_object) (auto intro: eq_refl split: if_splits)
  then show ?thesis by (rule digest_ignores_key_order [THEN conjunct2])
qed

end
