(* ===== verification/Action_Ledger.thy ===== *)
theory Action_Ledger
  imports Json Once
begin

text \<open>
  Non-idempotent tool calls run at most once: \<^verbatim>\<open>adk-core/src/action_ledger.rs\<close> (the ledger and its
  process-local store) and \<^verbatim>\<open>adk-agent/src/tool_ledger.rs\<close> (the bracket the agents put around a
  call). The ledger's two calls of a dispatch, \<^verbatim>\<open>get\<close> and \<^verbatim>\<open>begin\<close>, are separate steps other tasks can
  run between, so a dispatch takes the ledger as it was read and as it is when it begins.
\<close>

section \<open>The ledger\<close>

definition outcome_unknown_response :: "string \<Rightarrow> json" where
  "outcome_unknown_response detail =
     JObject [(''status'', JString ''outcome_unknown''), (''detail'', JString detail)]"

definition is_outcome_unknown :: "json \<Rightarrow> bool" where
  "is_outcome_unknown r \<longleftrightarrow>
     Option.bind (json_get r ''status'') json_as_str = Some ''outcome_unknown''"

datatype tool_effect = ReadOnly | Idempotent | NonIdempotent

fun is_retry_safe :: "tool_effect \<Rightarrow> bool" where
  "is_retry_safe ReadOnly = True"
| "is_retry_safe Idempotent = True"
| "is_retry_safe NonIdempotent = False"

datatype action_outcome = Succeeded string | ActionFailed string

record action_record =
  act_key :: string
  act_tool_name :: string
  act_args_digest :: string
  act_effect :: tool_effect
  act_started_at :: instant
  act_outcome :: "action_outcome option"
  act_completed_at :: "instant option"

definition action_record_new ::
    "(string \<Rightarrow> string) \<Rightarrow> instant \<Rightarrow> string \<Rightarrow> string \<Rightarrow> json \<Rightarrow> tool_effect \<Rightarrow> action_record" where
  "action_record_new esc now key tool args effect =
     \<lparr>act_key = key, act_tool_name = tool, act_args_digest = json_digest esc args, act_effect = effect,
      act_started_at = now, act_outcome = None, act_completed_at = None\<rparr>"

definition is_completed :: "action_record \<Rightarrow> bool" where
  "is_completed r \<longleftrightarrow> act_outcome r \<noteq> None"

definition duplicate_key_error :: "string \<Rightarrow> adk_error" where
  "duplicate_key_error key =
     adk_error_new Tool InvalidInput ''tool.action_ledger.duplicate_key''
       (''action ledger already holds a record for key '' @ quoted key @ ''; the call was not executed again'')"

definition missing_key_error :: "string \<Rightarrow> adk_error" where
  "missing_key_error key =
     adk_error_new Tool NotFound ''tool.action_ledger.not_found''
       (''action ledger has no record for key '' @ quoted key @ ''; call begin before complete'')"

definition already_completed_error :: "string \<Rightarrow> adk_error" where
  "already_completed_error key =
     adk_error_new Tool InvalidInput ''tool.action_ledger.already_completed''
       (''action ledger record '' @ quoted key @ '' already has an outcome; outcomes are write-once'')"

type_synonym action_ledger = "(string, action_record) table"

definition ledger_begin :: "action_ledger \<Rightarrow> action_record \<Rightarrow> unit result \<times> action_ledger" where
  "ledger_begin l r =
     (if lookup l (act_key r) \<noteq> None then (Inl (duplicate_key_error (act_key r)), l)
      else (Inr (), AList.update (act_key r) r l))"

definition ledger_complete ::
    "instant \<Rightarrow> action_ledger \<Rightarrow> string \<Rightarrow> action_outcome \<Rightarrow> unit result \<times> action_ledger" where
  "ledger_complete now l key out =
     (case lookup l key of
        None \<Rightarrow> (Inl (missing_key_error key), l)
      | Some r \<Rightarrow>
          if act_outcome r \<noteq> None then (Inl (already_completed_error key), l)
          else (Inr (), AList.update key (r\<lparr>act_outcome := Some out, act_completed_at := Some now\<rparr>) l))"

definition ledger_get :: "action_ledger \<Rightarrow> string \<Rightarrow> action_record option" where
  "ledger_get l key = lookup l key"

section \<open>The bracket around a tool call\<close>

definition held_call_ledger_key ::
    "(string \<Rightarrow> string) \<Rightarrow> string \<Rightarrow> string \<Rightarrow> string \<Rightarrow> string \<Rightarrow> string \<Rightarrow> string" where
  "held_call_ledger_key esc app user session call fingerprint =
     app @ ''/'' @ user @ ''/'' @ session @ ''/held/'' @ call @ ''/'' @ json_digest esc (JString fingerprint)"

text \<open>What the run configuration offers a dispatch: whether a ledger is set, and the audit trail, whose
  answer to a record is a parameter (it refuses only under its blocking mode).\<close>

record audit_draft =
  ad_tool :: string
  ad_cause :: string
  ad_session :: string

record call_context =
  cc_ledgered :: bool
  cc_audit :: "(audit_draft \<Rightarrow> unit result) option"
  cc_session_id :: string

definition record_outcome_unknown :: "call_context \<Rightarrow> string \<Rightarrow> string \<Rightarrow> unit result" where
  "record_outcome_unknown ctx name cause =
     (case cc_audit ctx of
        None \<Rightarrow> Inr ()
      | Some trail \<Rightarrow> trail \<lparr>ad_tool = name, ad_cause = cause, ad_session = cc_session_id ctx\<rparr>)"

text \<open>The three answers of \<^verbatim>\<open>begin_ledgered_call\<close>: run without a ledger, run under a key, or answer
  the call without running it. \<open>get_res\<close> and \<open>begin_res\<close> are what the ledger's calls returned.\<close>

datatype dispatch = RunUnledgered | RunBegun string | AnswerWithout json

definition begin_ledgered_call ::
    "call_context \<Rightarrow> tool_effect \<Rightarrow> string \<Rightarrow> string \<Rightarrow> action_record option result \<Rightarrow> unit result
     \<Rightarrow> dispatch result" where
  "begin_ledgered_call ctx effect key name get_res begin_res =
     (if \<not> (cc_ledgered ctx \<and> effect = NonIdempotent) then Inr RunUnledgered
      else case get_res of
        Inr (Some r) \<Rightarrow>
          (case act_outcome r of
             Some (Succeeded digest) \<Rightarrow>
               Inr (AnswerWithout (JObject [(''status'', JString ''already_succeeded''),
                 (''result_digest'', JString digest),
                 (''detail'', JString (''this call to '' @ quoted name @ '' already completed; it was not executed again''))]))
           | Some (ActionFailed err) \<Rightarrow>
               Inr (AnswerWithout (JObject [(''status'', JString ''already_failed''),
                 (''error'', JString err),
                 (''detail'', JString (''this call to '' @ quoted name @ '' already failed; it was not executed again''))]))
           | None \<Rightarrow>
               result_bind (record_outcome_unknown ctx name ''began_without_outcome'') (\<lambda>_.
                 Inr (AnswerWithout (outcome_unknown_response (''an earlier attempt of this call to '' @ quoted name
                   @ '' began but recorded no outcome, so it may have taken effect; it was not executed again'')))))
      | Inr None \<Rightarrow>
          (case begin_res of
             Inr _ \<Rightarrow> Inr (RunBegun key)
           | Inl err \<Rightarrow>
               Inr (AnswerWithout (JObject [(''error'', JString (''tool '' @ quoted name
                 @ '' was not executed: the action ledger could not record the call: '' @ redacted err))])))
      | Inl err \<Rightarrow>
          Inr (AnswerWithout (JObject [(''error'', JString (''tool '' @ quoted name
            @ '' was not executed: the action ledger could not be read: '' @ redacted err))])))"

text \<open>A dispatch against the process-local ledger: read in the state \<open>seen\<close>, begun in \<open>l\<close>.\<close>

definition dispatch_call ::
    "(string \<Rightarrow> string) \<Rightarrow> instant \<Rightarrow> call_context \<Rightarrow> tool_effect \<Rightarrow> string \<Rightarrow> string \<Rightarrow> json
     \<Rightarrow> action_ledger \<Rightarrow> action_ledger \<Rightarrow> dispatch result \<times> action_ledger" where
  "dispatch_call esc now ctx effect key name args seen l =
     (let b = ledger_begin l (action_record_new esc now key name args effect) in
      (begin_ledgered_call ctx effect key name (Inr (ledger_get seen key)) (fst b),
       if cc_ledgered ctx \<and> effect = NonIdempotent \<and> ledger_get seen key = None then snd b else l))"

definition complete_ledgered_call ::
    "(string \<Rightarrow> string) \<Rightarrow> instant \<Rightarrow> action_ledger \<Rightarrow> string \<Rightarrow> json option \<Rightarrow> string \<Rightarrow> action_ledger" where
  "complete_ledgered_call esc now l key res err =
     snd (ledger_complete now l key
       (case res of Some v \<Rightarrow> Succeeded (json_digest esc v) | None \<Rightarrow> ActionFailed err))"

definition interrupted_call_response :: "string \<Rightarrow> json" where
  "interrupted_call_response err =
     outcome_unknown_response
       (err @ ''. The call may have taken effect; check its result before calling it again.'')"

section \<open>At most once\<close>

text \<open>A step of any task on the shared ledger. A dispatch carries the older state it was read in.\<close>

datatype ledger_op =
  LDispatch instant call_context string string json action_ledger
| LComplete instant string "json option" string

fun ledger_exec :: "(string \<Rightarrow> string) \<Rightarrow> action_ledger \<Rightarrow> ledger_op \<Rightarrow> action_ledger" where
  "ledger_exec esc l (LDispatch now ctx key name args seen) =
     snd (dispatch_call esc now ctx NonIdempotent key name args seen l)"
| "ledger_exec esc l (LComplete now key res err) = complete_ledgered_call esc now l key res err"

fun ledger_runs :: "(string \<Rightarrow> string) \<Rightarrow> action_ledger \<Rightarrow> ledger_op \<Rightarrow> string option" where
  "ledger_runs esc l (LDispatch now ctx key name args seen) =
     (case fst (dispatch_call esc now ctx NonIdempotent key name args seen l) of
        Inr (RunBegun k) \<Rightarrow> Some k
      | _ \<Rightarrow> None)"
| "ledger_runs esc l (LComplete now key res err) = None"

lemma dispatch_begun:
  assumes "fst (dispatch_call esc now ctx effect key name args seen l) = Inr (RunBegun k)"
  shows "k = key \<and> lookup l key = None \<and> lookup (snd (dispatch_call esc now ctx effect key name args seen l)) key \<noteq> None"
  using assms
  by (auto simp: dispatch_call_def begin_ledgered_call_def ledger_begin_def action_record_new_def Let_def ledger_get_def
      result_bind_Inr_iff split: if_splits option.splits action_outcome.splits)

lemma dispatch_keeps:
  "lookup l k = Some r \<Longrightarrow> lookup (snd (dispatch_call esc now ctx effect key name args seen l)) k = Some r"
  by (auto simp: dispatch_call_def ledger_begin_def action_record_new_def Let_def)

lemma complete_keeps:
  "lookup l k = Some r \<Longrightarrow> \<exists>r'. lookup (complete_ledgered_call esc now l key res err) k = Some r'
      \<and> (act_outcome r \<noteq> None \<longrightarrow> r' = r)"
  by (auto simp: complete_ledgered_call_def ledger_complete_def split: option.split)

interpretation ledger_once: once
  "ledger_exec esc" "ledger_runs esc" "\<lambda>l k. lookup l k \<noteq> None" "\<lambda>l. True" "\<lambda>l op. True" "\<lambda>k op. True"
proof unfold_locales
  fix l op k
  show "ledger_runs esc l op = Some k \<Longrightarrow> \<not> lookup l k \<noteq> None \<and> lookup (ledger_exec esc l op) k \<noteq> None"
    by (cases op) (auto dest: dispatch_begun split: sum.splits dispatch.splits)
  show "lookup l k \<noteq> None \<Longrightarrow> lookup (ledger_exec esc l op) k \<noteq> None"
    by (cases op) (auto dest: dispatch_keeps complete_keeps)
qed simp_all

text \<open>The keys the dispatches of a history are told to run the tool under, in order.\<close>

fun ledger_starts :: "(string \<Rightarrow> string) \<Rightarrow> action_ledger \<Rightarrow> ledger_op list \<Rightarrow> string option list" where
  "ledger_starts esc l [] = []"
| "ledger_starts esc l (op # ops) = ledger_runs esc l op # ledger_starts esc (ledger_exec esc l op) ops"

lemma ledger_starts_once: "ledger_once.creations esc l ops = ledger_starts esc l ops"
  by (induction ops arbitrary: l) (simp_all add: ledger_once.creations.simps)

lemma ledger_legal: "ledger_once.legal esc l ops"
  by (induction ops arbitrary: l) auto


text \<open>a replay is answered from the record and never run: a dispatch that reads a record answers
  with the recorded success, the recorded failure or an unknown outcome, exactly as recorded, and
  leaves the ledger as it is.\<close>

theorem replay_answered_from_record:
  assumes "cc_ledgered ctx" and "ledger_get seen key = Some r"
    and "\<forall>d. cc_audit ctx = Some d \<longrightarrow> d \<lparr>ad_tool = name, ad_cause = ''began_without_outcome'', ad_session = cc_session_id ctx\<rparr> = Inr ()"
  shows "\<exists>answer. dispatch_call esc now ctx NonIdempotent key name args seen l = (Inr (AnswerWithout answer), l)
    \<and> (is_outcome_unknown answer \<longleftrightarrow> act_outcome r = None)
    \<and> (\<forall>digest. act_outcome r = Some (Succeeded digest) \<longrightarrow> json_get answer ''result_digest'' = Some (JString digest))
    \<and> (\<forall>err. act_outcome r = Some (ActionFailed err) \<longrightarrow> json_get answer ''error'' = Some (JString err))"
proof (cases "act_outcome r")
  case None
  have "record_outcome_unknown ctx name ''began_without_outcome'' = Inr ()"
    using assms(3) by (auto simp: record_outcome_unknown_def split: option.split)
  then show ?thesis
    using assms(1,2) None
    by (simp add: dispatch_call_def begin_ledgered_call_def Let_def outcome_unknown_response_def is_outcome_unknown_def)
next
  case (Some out)
  then show ?thesis
    using assms(1,2)
    by (cases out)
       (simp_all add: dispatch_call_def begin_ledgered_call_def Let_def is_outcome_unknown_def)
qed

definition demo_ctx :: call_context where
  "demo_ctx = \<lparr>cc_ledgered = True, cc_audit = None, cc_session_id = ''s''\<rparr>"

definition demo_ledger :: action_ledger where
  "demo_ledger = snd (dispatch_call (\<lambda>s. s) 0 demo_ctx NonIdempotent ''k'' ''pay'' JNull [] [])"

theorem replay_answered_from_record_witness:
  "\<exists>answer. dispatch_call (\<lambda>s. s) 5 demo_ctx NonIdempotent ''k'' ''pay'' JNull demo_ledger demo_ledger
     = (Inr (AnswerWithout answer), demo_ledger) \<and> is_outcome_unknown answer"
proof -
  obtain r where r: "ledger_get demo_ledger ''k'' = Some r" "act_outcome r = None"
    by (auto simp: demo_ledger_def dispatch_call_def demo_ctx_def ledger_get_def ledger_begin_def
        action_record_new_def Let_def)
  have "cc_ledgered demo_ctx" "\<forall>d. cc_audit demo_ctx = Some d \<longrightarrow>
      d \<lparr>ad_tool = ''pay'', ad_cause = ''began_without_outcome'', ad_session = cc_session_id demo_ctx\<rparr> = Inr ()"
    by (simp_all add: demo_ctx_def)
  from replay_answered_from_record [OF this(1) r(1) this(2)] r(2) show ?thesis by blast
qed

text \<open>outcomes are written once: a completed record is the same in every later state.\<close>

theorem outcome_write_once:
  assumes "lookup l key = Some r" and "is_completed r"
  shows "lookup (foldl (ledger_exec esc) l ops) key = Some r"
  using assms
proof (induction ops arbitrary: l)
  case (Cons op ops)
  have "lookup (ledger_exec esc l op) key = Some r"
    using Cons.prems complete_keeps [OF Cons.prems(1)] dispatch_keeps [OF Cons.prems(1)]
    by (cases op) (fastforce simp: is_completed_def)+
  then show ?case using Cons by simp
qed simp

theorem outcome_write_once_witness:
  "\<exists>r. lookup (foldl (ledger_exec (\<lambda>s. s)) (complete_ledgered_call (\<lambda>s. s) 3 demo_ledger ''k'' None ''no'')
        [LComplete 4 ''k'' None ''other'']) ''k'' = Some r \<and> act_outcome r = Some (ActionFailed ''no'')"
proof -
  obtain r where r: "lookup (complete_ledgered_call (\<lambda>s. s) 3 demo_ledger ''k'' None ''no'') ''k'' = Some r"
    "act_outcome r = Some (ActionFailed ''no'')"
    by (auto simp: demo_ledger_def dispatch_call_def demo_ctx_def ledger_get_def ledger_begin_def
        action_record_new_def Let_def complete_ledgered_call_def ledger_complete_def)
  then have "is_completed r" by (simp add: is_completed_def)
  then show ?thesis using outcome_write_once [OF r(1)] r(2) by blast
qed

text \<open>The key of a held call joins its parts with a slash that the parts may contain, so two users'
  held calls can share a record.\<close>

theorem held_key_collision:
  "held_call_ledger_key esc app ''a/b'' ''c'' call fp = held_call_ledger_key esc app ''a'' ''b/c'' call fp"
  by (simp add: held_call_ledger_key_def)

end
