(* ===== verification/Float64.thy ===== *)
theory Float64
  imports Prelude Complex_Main
begin

text \<open>
  The \<^verbatim>\<open>f64\<close> values the modelled code computes with: the special values or a rational number. The
  rounding of an exact result to a representable one belongs to the hardware and is a parameter,
  \<open>rnd\<close>; comparisons are IEEE's (false on NaN).
\<close>

datatype f64 = NaN | PosInf | NegInf | Fin rat

fun f64_le :: "f64 \<Rightarrow> f64 \<Rightarrow> bool" where
  "f64_le NaN _ = False"
| "f64_le _ NaN = False"
| "f64_le NegInf _ = True"
| "f64_le _ PosInf = True"
| "f64_le (Fin a) (Fin b) = (a \<le> b)"
| "f64_le _ _ = False"

definition f64_is_finite :: "f64 \<Rightarrow> bool" where
  "f64_is_finite x \<longleftrightarrow> (case x of Fin _ \<Rightarrow> True | _ \<Rightarrow> False)"

text \<open>\<^verbatim>\<open>f64::round\<close>: to the nearest integer, halves away from zero.\<close>

definition round_half_away :: "rat \<Rightarrow> int" where
  "round_half_away r = (if r < 0 then - \<lfloor>- r + 1 / 2\<rfloor> else \<lfloor>r + 1 / 2\<rfloor>)"

lemma round_half_away_mono: "0 \<le> a \<Longrightarrow> a \<le> b \<Longrightarrow> round_half_away a \<le> round_half_away b"
  by (auto simp: round_half_away_def intro: floor_mono)

lemma round_half_away_nonneg: "0 \<le> a \<Longrightarrow> 0 \<le> round_half_away a"
  by (auto simp: round_half_away_def)

end
