(* ===== verification/Budget.thy ===== *)
theory Budget
  imports Adk_Error Float64
begin

text \<open>
  Run budgets: \<^verbatim>\<open>adk-core/src/budget.rs\<close>. A tracker with its parents is the list of its levels, the
  run's own first. Counters are 64-bit words with the code's saturating updates (\<^verbatim>\<open>fetch_sub\<close>
  wraps). An operation is one run of its code without another task in between; each
  \<^verbatim>\<open>fetch_update\<close> in it is one atomic update of one level. Instants (\<^verbatim>\<open>std::time::Instant\<close>) n
  nanoseconds from the platform's origin, so a start time before it is not representable.
\<close>

section \<open>Limits and their violation\<close>

record run_budget =
  max_model_calls :: "u64 option"
  max_total_tokens :: "u64 option"
  max_cost_micro_usd :: "u64 option"
  max_wall_time :: "dur option"
  max_tool_calls :: "u64 option"
  allow_unpriced_models :: bool

definition run_budget_new :: run_budget where
  "run_budget_new = \<lparr>max_model_calls = None, max_total_tokens = None, max_cost_micro_usd = None,
     max_wall_time = None, max_tool_calls = None, allow_unpriced_models = False\<rparr>"

definition usd_to_micro :: "(rat \<Rightarrow> f64) \<Rightarrow> f64 \<Rightarrow> u64" where
  "usd_to_micro rnd usd =
     (case usd of
        Fin r \<Rightarrow>
          if r \<le> 0 then 0
          else (case rnd (r * 1000000) of
                  Fin m \<Rightarrow> if round_half_away m \<ge> 2 ^ 64 then - 1 else word_of_int (round_half_away m)
                | PosInf \<Rightarrow> - 1
                | _ \<Rightarrow> 0)
      | _ \<Rightarrow> 0)"

definition with_max_model_calls :: "run_budget \<Rightarrow> u64 \<Rightarrow> run_budget" where
  "with_max_model_calls b m = b\<lparr>max_model_calls := Some m\<rparr>"

definition with_max_total_tokens :: "run_budget \<Rightarrow> u64 \<Rightarrow> run_budget" where
  "with_max_total_tokens b m = b\<lparr>max_total_tokens := Some m\<rparr>"

definition with_max_cost_micro_usd :: "run_budget \<Rightarrow> u64 \<Rightarrow> run_budget" where
  "with_max_cost_micro_usd b m = b\<lparr>max_cost_micro_usd := Some m\<rparr>"

definition with_max_cost_usd :: "(rat \<Rightarrow> f64) \<Rightarrow> run_budget \<Rightarrow> f64 \<Rightarrow> run_budget" where
  "with_max_cost_usd rnd b m = with_max_cost_micro_usd b (usd_to_micro rnd m)"

definition with_max_wall_time :: "run_budget \<Rightarrow> dur \<Rightarrow> run_budget" where
  "with_max_wall_time b m = b\<lparr>max_wall_time := Some m\<rparr>"

definition with_max_tool_calls :: "run_budget \<Rightarrow> u64 \<Rightarrow> run_budget" where
  "with_max_tool_calls b m = b\<lparr>max_tool_calls := Some m\<rparr>"

definition with_unpriced_models :: "run_budget \<Rightarrow> run_budget" where
  "with_unpriced_models b = b\<lparr>allow_unpriced_models := True\<rparr>"

definition is_unlimited :: "run_budget \<Rightarrow> bool" where
  "is_unlimited b \<longleftrightarrow> max_model_calls b = None \<and> max_total_tokens b = None \<and> max_cost_micro_usd b = None
     \<and> max_wall_time b = None \<and> max_tool_calls b = None"

datatype budget_limit = LimModelCalls | LimTotalTokens | LimCost | LimWallTime | LimToolCalls

fun limit_str :: "budget_limit \<Rightarrow> string" where
  "limit_str LimModelCalls = ''model_calls''"
| "limit_str LimTotalTokens = ''total_tokens''"
| "limit_str LimCost = ''cost_micro_usd''"
| "limit_str LimWallTime = ''wall_time_ms''"
| "limit_str LimToolCalls = ''tool_calls''"

record budget_exceeded =
  be_limit :: budget_limit
  be_used :: u64
  be_max :: u64
  be_code :: string
  be_message :: string

abbreviation show_u64 :: "u64 \<Rightarrow> string" where
  "show_u64 w \<equiv> show_nat (unat w)"

definition format_micro_usd :: "u64 \<Rightarrow> string" where
  "format_micro_usd m =
     ''$'' @ show_nat (unat m div 1000000) @ ''.'' @ pad_left 6 (show_nat (unat m mod 1000000))"

definition be_reached :: "budget_limit \<Rightarrow> u64 \<Rightarrow> u64 \<Rightarrow> budget_exceeded" where
  "be_reached which used mx =
     (let (cd, msg) =
        (case which of
           LimModelCalls \<Rightarrow> (''budget.model_calls'',
             ''budget exhausted: '' @ show_u64 used @ '' of '' @ show_u64 mx @ '' model calls used'')
         | LimTotalTokens \<Rightarrow> (''budget.total_tokens'',
             ''budget exhausted: '' @ show_u64 used @ '' of '' @ show_u64 mx @ '' tokens used'')
         | LimCost \<Rightarrow> (''budget.cost'',
             ''budget exhausted: '' @ format_micro_usd used @ '' of '' @ format_micro_usd mx @ '' spent'')
         | LimWallTime \<Rightarrow> (''budget.wall_time'',
             ''budget exhausted: '' @ show_u64 used @ ''ms of '' @ show_u64 mx @ ''ms wall time elapsed'')
         | LimToolCalls \<Rightarrow> (''budget.tool_calls'',
             ''budget exhausted: '' @ show_u64 used @ '' of '' @ show_u64 mx @ '' tool calls used''))
      in \<lparr>be_limit = which, be_used = used, be_max = mx, be_code = cd, be_message = msg\<rparr>)"

definition be_tool_batch :: "u64 \<Rightarrow> u64 \<Rightarrow> u64 \<Rightarrow> budget_exceeded" where
  "be_tool_batch used requested mx =
     \<lparr>be_limit = LimToolCalls, be_used = used, be_max = mx, be_code = ''budget.tool_calls'',
      be_message = ''budget exhausted: '' @ show_u64 requested @ '' tool calls requested with ''
        @ show_u64 used @ '' of '' @ show_u64 mx @ '' already used''\<rparr>"

definition be_unpriced :: "string \<Rightarrow> u64 \<Rightarrow> u64 \<Rightarrow> budget_exceeded" where
  "be_unpriced mdl used mx =
     \<lparr>be_limit = LimCost, be_used = used, be_max = mx, be_code = ''budget.cost_unknown'',
      be_message = ''cost unknown for model '' @ quoted mdl @ '': the budget has a cost cap of ''
        @ format_micro_usd mx @ '' and no price is known for this model; set UsageMetadata::cost in the provider or opt out with RunBudget::allow_unpriced_models()''\<rparr>"

definition be_untokened :: "string \<Rightarrow> u64 \<Rightarrow> u64 \<Rightarrow> budget_exceeded" where
  "be_untokened mdl used mx =
     \<lparr>be_limit = LimTotalTokens, be_used = used, be_max = mx, be_code = ''budget.tokens_unknown'',
      be_message = ''token usage unknown for model '' @ quoted mdl
        @ '': the provider reported no usage and the budget has a token cap of '' @ show_u64 mx\<rparr>"

definition budget_error :: "budget_exceeded \<Rightarrow> adk_error" where
  "budget_error e =
     with_details (adk_error_new Agent ResourceExhausted (be_code e) (be_message e))
       (default_details\<lparr>metadata := [(''limit'', limit_str (be_limit e)), (''used'', show_u64 (be_used e)),
                                     (''max'', show_u64 (be_max e))]\<rparr>)"

section \<open>The tracker\<close>

record level =
  lv_budget :: run_budget
  lv_started_at :: int
  lv_model_calls :: u64
  lv_total_tokens :: u64
  lv_cost :: u64
  lv_tool_calls :: u64
  lv_exceeded :: "budget_exceeded option"

type_synonym tracker = "level list"

record budget_usage =
  us_model_calls :: u64
  us_total_tokens :: u64
  us_cost :: u64
  us_tool_calls :: u64
  us_elapsed :: dur

definition usage_default :: budget_usage where
  "usage_default = \<lparr>us_model_calls = 0, us_total_tokens = 0, us_cost = 0, us_tool_calls = 0, us_elapsed = 0\<rparr>"

definition tracker_resume :: "int \<Rightarrow> run_budget \<Rightarrow> budget_usage \<Rightarrow> tracker \<Rightarrow> tracker" where
  "tracker_resume now b u parent =
     \<lparr>lv_budget = b, lv_started_at = (if int (us_elapsed u) \<le> now then now - int (us_elapsed u) else now),
      lv_model_calls = us_model_calls u, lv_total_tokens = us_total_tokens u, lv_cost = us_cost u,
      lv_tool_calls = us_tool_calls u, lv_exceeded = None\<rparr> # parent"

definition tracker_new :: "int \<Rightarrow> run_budget \<Rightarrow> tracker" where
  "tracker_new now b = tracker_resume now b usage_default []"

definition tracker_with_parent :: "int \<Rightarrow> run_budget \<Rightarrow> tracker \<Rightarrow> tracker" where
  "tracker_with_parent now b parent = tracker_resume now b usage_default parent"

definition level_usage :: "int \<Rightarrow> level \<Rightarrow> budget_usage" where
  "level_usage now l =
     \<lparr>us_model_calls = lv_model_calls l, us_total_tokens = lv_total_tokens l, us_cost = lv_cost l,
      us_tool_calls = lv_tool_calls l, us_elapsed = nat (now - lv_started_at l)\<rparr>"

fun tracker_exceeded :: "tracker \<Rightarrow> budget_exceeded option" where
  "tracker_exceeded [] = None"
| "tracker_exceeded (l # ls) = (case lv_exceeded l of Some e \<Rightarrow> Some e | None \<Rightarrow> tracker_exceeded ls)"

datatype strictness = Reached | Exceeded
datatype counter = CModelCalls | CToolCalls | CTotalTokens | CCost

definition duration_ms :: "dur \<Rightarrow> u64" where
  "duration_ms d = (if d div 1000000 \<le> u64_max then word_of_nat (d div 1000000) else - 1)"

fun over :: "strictness \<Rightarrow> u64 \<Rightarrow> u64 \<Rightarrow> bool" where
  "over Reached used mx = (used \<ge> mx)"
| "over Exceeded used mx = (used > mx)"

definition limit_check :: "budget_limit \<Rightarrow> strictness \<Rightarrow> u64 \<Rightarrow> u64 option \<Rightarrow> budget_exceeded option" where
  "limit_check which strict used mx =
     (case mx of Some m \<Rightarrow> if over strict used m then Some (be_reached which used m) else None | None \<Rightarrow> None)"

fun first_some :: "'a option list \<Rightarrow> 'a option" where
  "first_some [] = None"
| "first_some (Some x # xs) = Some x"
| "first_some (None # xs) = first_some xs"

definition limit_violation :: "int \<Rightarrow> strictness \<Rightarrow> level \<Rightarrow> budget_exceeded option" where
  "limit_violation now strict l =
     (let u = level_usage now l; b = lv_budget l in
      first_some
        ([limit_check LimTotalTokens strict (us_total_tokens u) (max_total_tokens b),
          limit_check LimCost strict (us_cost u) (max_cost_micro_usd b),
          limit_check LimWallTime strict (duration_ms (us_elapsed u)) (map_option duration_ms (max_wall_time b))]
         @ (if strict = Exceeded
            then [limit_check LimModelCalls Exceeded (us_model_calls u) (max_model_calls b),
                  limit_check LimToolCalls Exceeded (us_tool_calls u) (max_tool_calls b)]
            else [])))"

fun check_chain :: "int \<Rightarrow> strictness \<Rightarrow> tracker \<Rightarrow> budget_exceeded + unit" where
  "check_chain now strict [] = Inr ()"
| "check_chain now strict (l # ls) =
     (case lv_exceeded l of
        Some e \<Rightarrow> Inl e
      | None \<Rightarrow>
          (case limit_violation now strict l of
             Some v \<Rightarrow> Inl v
           | None \<Rightarrow> check_chain now strict ls))"

definition tracker_check :: "int \<Rightarrow> tracker \<Rightarrow> budget_exceeded + unit" where
  "tracker_check now t = check_chain now Reached t"

fun counter_of :: "counter \<Rightarrow> level \<Rightarrow> u64" where
  "counter_of CModelCalls l = lv_model_calls l"
| "counter_of CToolCalls l = lv_tool_calls l"
| "counter_of CTotalTokens l = lv_total_tokens l"
| "counter_of CCost l = lv_cost l"

fun set_counter :: "counter \<Rightarrow> u64 \<Rightarrow> level \<Rightarrow> level" where
  "set_counter CModelCalls w l = l\<lparr>lv_model_calls := w\<rparr>"
| "set_counter CToolCalls w l = l\<lparr>lv_tool_calls := w\<rparr>"
| "set_counter CTotalTokens w l = l\<lparr>lv_total_tokens := w\<rparr>"
| "set_counter CCost w l = l\<lparr>lv_cost := w\<rparr>"

fun reserve_max :: "counter \<Rightarrow> level \<Rightarrow> u64 option" where
  "reserve_max CModelCalls l = max_model_calls (lv_budget l)"
| "reserve_max CToolCalls l = max_tool_calls (lv_budget l)"
| "reserve_max _ l = None"

definition reserve_violation :: "counter \<Rightarrow> u64 \<Rightarrow> u64 \<Rightarrow> u64 \<Rightarrow> budget_exceeded" where
  "reserve_violation c used n mx =
     (if c = CToolCalls then
        (if n > 1 then be_tool_batch used n mx else be_reached LimToolCalls used mx)
      else be_reached LimModelCalls used mx)"

fun reserve :: "counter \<Rightarrow> u64 \<Rightarrow> tracker \<Rightarrow> (budget_exceeded + unit) \<times> tracker" where
  "reserve c n [] = (Inr (), [])"
| "reserve c n (l # ls) =
     (let used = counter_of c l; nxt = sat_add used n in
      if (case reserve_max c l of Some m \<Rightarrow> nxt > m | None \<Rightarrow> False)
      then (Inl (reserve_violation c used n (case reserve_max c l of Some m \<Rightarrow> m | None \<Rightarrow> 0)), l # ls)
      else (case reserve c n ls of
              (Inl v, ls') \<Rightarrow> (Inl v, set_counter c (nxt - n) l # ls')
            | (Inr _, ls') \<Rightarrow> (Inr (), set_counter c nxt l # ls')))"

definition add_usage :: "counter \<Rightarrow> u64 \<Rightarrow> tracker \<Rightarrow> tracker" where
  "add_usage c amount t =
     (if amount = 0 then t else map (\<lambda>l. set_counter c (sat_add (counter_of c l) amount) l) t)"

definition remember :: "budget_exceeded \<Rightarrow> level \<Rightarrow> level" where
  "remember v l = (case lv_exceeded l of Some _ \<Rightarrow> l | None \<Rightarrow> l\<lparr>lv_exceeded := Some v\<rparr>)"

definition flag_unpriced :: "string \<Rightarrow> tracker \<Rightarrow> tracker" where
  "flag_unpriced mdl t =
     map (\<lambda>l. case max_cost_micro_usd (lv_budget l) of
                Some m \<Rightarrow> if allow_unpriced_models (lv_budget l) then l else remember (be_unpriced mdl (lv_cost l) m) l
              | None \<Rightarrow> l) t"

definition flag_untokened :: "string \<Rightarrow> tracker \<Rightarrow> tracker" where
  "flag_untokened mdl t =
     map (\<lambda>l. case max_total_tokens (lv_budget l) of
                Some m \<Rightarrow> remember (be_untokened mdl (lv_total_tokens l) m) l
              | None \<Rightarrow> l) t"

record usage_metadata =
  um_total_token_count :: int
  um_builtin_counts :: "nat list"
  um_cost :: "f64 option"

definition builtin_tool_use_count :: "usage_metadata \<Rightarrow> u64" where
  "builtin_tool_use_count u = word_of_nat (sum_list (um_builtin_counts u))"

definition record_usage :: "(rat \<Rightarrow> f64) \<Rightarrow> string \<Rightarrow> usage_metadata option \<Rightarrow> tracker \<Rightarrow> tracker" where
  "record_usage rnd mdl usage t =
     (case usage of
        Some u \<Rightarrow>
          (let t = add_usage CTotalTokens (if um_total_token_count u \<ge> 0 then word_of_int (um_total_token_count u) else 0) t;
               t = add_usage CToolCalls (builtin_tool_use_count u) t
           in case um_cost u of
                Some c \<Rightarrow> add_usage CCost (usd_to_micro rnd c) t
              | None \<Rightarrow> flag_unpriced mdl t)
      | None \<Rightarrow> flag_untokened mdl (flag_unpriced mdl t))"

definition begin_tool_calls :: "int \<Rightarrow> u64 \<Rightarrow> tracker \<Rightarrow> (budget_exceeded + unit) \<times> tracker" where
  "begin_tool_calls now n t =
     (case tracker_check now t of
        Inl e \<Rightarrow> (Inl e, t)
      | Inr _ \<Rightarrow> if n = 0 then (Inr (), t) else reserve CToolCalls n t)"

definition release_tool_calls :: "u64 \<Rightarrow> tracker \<Rightarrow> tracker" where
  "release_tool_calls n t =
     (if n = 0 then t else map (\<lambda>l. l\<lparr>lv_tool_calls := sat_sub (lv_tool_calls l) n\<rparr>) t)"

fun tool_calls_remaining :: "tracker \<Rightarrow> u64 option" where
  "tool_calls_remaining [] = None"
| "tool_calls_remaining (l # ls) =
     (let own = map_option (\<lambda>m. sat_sub m (lv_tool_calls l)) (max_tool_calls (lv_budget l));
          parent = tool_calls_remaining ls
      in case (own, parent) of
           (Some a, Some b) \<Rightarrow> Some (min a b)
         | (Some a, None) \<Rightarrow> Some a
         | (None, p) \<Rightarrow> p)"

section \<open>Model calls and their meter\<close>

record meter =
  mt_model :: string
  mt_fallback :: "(string \<times> usage_metadata) option"
  mt_responses_seen :: bool
  mt_settled :: bool

definition meter_new :: "string \<Rightarrow> meter" where
  "meter_new mdl = \<lparr>mt_model = mdl, mt_fallback = None, mt_responses_seen = False, mt_settled = False\<rparr>"

definition begin_model_call :: "int \<Rightarrow> string \<Rightarrow> tracker \<Rightarrow> (budget_exceeded + meter) \<times> tracker" where
  "begin_model_call now mdl t =
     (case tracker_check now t of
        Inl e \<Rightarrow> (Inl e, t)
      | Inr _ \<Rightarrow>
          (case check_chain now Exceeded t of
             Inl e \<Rightarrow> (Inl e, t)
           | Inr _ \<Rightarrow>
               (case reserve CModelCalls 1 t of
                  (Inl e, t') \<Rightarrow> (Inl e, t')
                | (Inr _, t') \<Rightarrow> (Inr (meter_new mdl), t'))))"

record llm_response =
  lr_usage :: "usage_metadata option"
  lr_model :: "string option"
  lr_partial :: bool

definition meter_observe :: "(rat \<Rightarrow> f64) \<Rightarrow> llm_response \<Rightarrow> meter \<times> tracker \<Rightarrow> meter \<times> tracker" where
  "meter_observe rnd r mt =
     (let (m, t) = mt in
      if mt_settled m then (m, t)
      else
        (let m = m\<lparr>mt_responses_seen := True\<rparr> in
         case lr_usage r of
           None \<Rightarrow> (m, t)
         | Some u \<Rightarrow>
             (let mdl = (case lr_model r of Some x \<Rightarrow> x | None \<Rightarrow> mt_model m) in
              if lr_partial r then (m\<lparr>mt_fallback := Some (mdl, u)\<rparr>, t)
              else (m\<lparr>mt_settled := True\<rparr>, record_usage rnd mdl (Some u) t))))"

definition meter_settle :: "(rat \<Rightarrow> f64) \<Rightarrow> meter \<times> tracker \<Rightarrow> meter \<times> tracker" where
  "meter_settle rnd mt =
     (let (m, t) = mt in
      if mt_settled m then (m, t)
      else
        (let m = m\<lparr>mt_settled := True\<rparr> in
         if \<not> mt_responses_seen m then (m, t)
         else (case mt_fallback m of
                 Some (mdl, u) \<Rightarrow> (m\<lparr>mt_fallback := None\<rparr>, record_usage rnd mdl (Some u) t)
               | None \<Rightarrow> (m, record_usage rnd (mt_model m) None t))))"

text \<open>What \<^verbatim>\<open>MeteredStream::poll_next\<close> does with one poll: an item is observed, the end (or a drop)
  settles the meter, an error item or a pending poll leaves it.\<close>

datatype poll = PollItem llm_response | PollError adk_error | PollPending | PollEnd

definition metered_poll :: "(rat \<Rightarrow> f64) \<Rightarrow> poll \<Rightarrow> meter option \<times> tracker \<Rightarrow> meter option \<times> tracker" where
  "metered_poll rnd p mt =
     (case mt of
        (None, t) \<Rightarrow> (None, t)
      | (Some m, t) \<Rightarrow>
          (case p of
             PollItem r \<Rightarrow> (let (m', t') = meter_observe rnd r (m, t) in (Some m', t'))
           | PollEnd \<Rightarrow> (None, snd (meter_settle rnd (m, t)))
           | PollError _ \<Rightarrow> (Some m, t)
           | PollPending \<Rightarrow> (Some m, t)))"

section \<open>Events\<close>

record event =
  ev_partial :: bool
  ev_metadata :: "(string, string) table"
  ev_usage :: "usage_metadata option"
  ev_model :: "string option"
  ev_tool_calls :: nat

definition record_event ::
    "(rat \<Rightarrow> f64) \<Rightarrow> int \<Rightarrow> event \<Rightarrow> tracker \<Rightarrow> (budget_exceeded + unit) \<times> event \<times> tracker" where
  "record_event rnd now ev t =
     (if ev_partial ev \<or> lookup (ev_metadata ev) ''adk.budget.recorded'' \<noteq> None
         \<or> (ev_usage ev = None \<and> ev_tool_calls ev = 0)
      then (check_chain now Exceeded t, ev, t)
      else
        (let t = (case ev_usage ev of
                    Some u \<Rightarrow> record_usage rnd (case ev_model ev of Some m \<Rightarrow> m | None \<Rightarrow> ''unattributed'') (Some u)
                                (add_usage CModelCalls 1 t)
                  | None \<Rightarrow> t);
             t = add_usage CToolCalls (word_of_nat (ev_tool_calls ev)) t;
             ev = ev\<lparr>ev_metadata := AList.update ''adk.budget.recorded'' ''true'' (ev_metadata ev)\<rparr>
         in (check_chain now Exceeded t, ev, t)))"

record stop_event =
  se_invocation :: string
  se_author :: string
  se_error_code :: string
  se_error_message :: string
  se_metadata :: "(string, string) table"

definition budget_exceeded_event :: "string \<Rightarrow> string \<Rightarrow> adk_error \<Rightarrow> stop_event option" where
  "budget_exceeded_event invocation author err =
     (if category err \<noteq> ResourceExhausted then None
      else Some \<lparr>se_invocation = invocation, se_author = author, se_error_code = code err,
                 se_error_message = message err,
                 se_metadata = (case lookup (metadata (details err)) ''limit'' of
                                  Some l \<Rightarrow> [(''adk.budget.limit'', l)] | None \<Rightarrow> [])\<rparr>)"

end
