(* ===== verification/Budget_Props.thy ===== *)
theory Budget_Props
  imports Budget
begin

text \<open>
  What the trackers guarantee: reservations respect every level's limit and are undone when a parent
  refuses, a run is granted no more model calls than its limit, an unknown cost refuses for good, and
  a call's usage is recorded once.
\<close>

section \<open>Counters\<close>

lemma counter_set [simp]:
  "counter_of c (set_counter c w l) = w"
  "c \<noteq> d \<Longrightarrow> counter_of d (set_counter c w l) = counter_of d l"
  "lv_budget (set_counter c w l) = lv_budget l"
  "lv_exceeded (set_counter c w l) = lv_exceeded l"
  "reserve_max d (set_counter c w l) = reserve_max d l"
  "set_counter c (counter_of c l) l = l"
  by (cases c; cases d; simp)+

lemma remember_sel [simp]:
  "counter_of c (remember v l) = counter_of c l" "lv_budget (remember v l) = lv_budget l"
  "reserve_max c (remember v l) = reserve_max c l"
  by (cases c; auto simp: remember_def split: option.split)+

text \<open>A reservation that no level's counter saturates on: with 64-bit counters that move by the number of
  calls, all that occur.\<close>

definition room_for :: "counter \<Rightarrow> u64 \<Rightarrow> tracker \<Rightarrow> bool" where
  "room_for c n t \<longleftrightarrow> (\<forall>l \<in> set t. unat (counter_of c l) + unat n \<le> u64_max)"

lemma sat_add_room: "unat (a :: u64) + unat n \<le> u64_max \<Longrightarrow> sat_add a n - n = a"
  by (simp add: sat_add_def)

lemma reserve_spec:
  "room_for c n t \<Longrightarrow>
     (case reserve c n t of
        (Inr _, t') \<Rightarrow>
          t' = map (\<lambda>l. set_counter c (sat_add (counter_of c l) n) l) t
          \<and> (\<forall>l \<in> set t'. \<forall>m. reserve_max c l = Some m \<longrightarrow> counter_of c l \<le> m)
      | (Inl v, t') \<Rightarrow> t' = t \<and> (\<exists>l \<in> set t. \<exists>m. reserve_max c l = Some m \<and> m < sat_add (counter_of c l) n))"
proof (induction t)
  case (Cons l ls)
  have IH: "case reserve c n ls of
        (Inr _, t') \<Rightarrow>
          t' = map (\<lambda>l. set_counter c (sat_add (counter_of c l) n) l) ls
          \<and> (\<forall>l \<in> set t'. \<forall>m. reserve_max c l = Some m \<longrightarrow> counter_of c l \<le> m)
      | (Inl v, t') \<Rightarrow> t' = ls \<and> (\<exists>l \<in> set ls. \<exists>m. reserve_max c l = Some m \<and> m < sat_add (counter_of c l) n)"
    using Cons by (simp add: room_for_def)
  have undo: "sat_add (counter_of c l) n - n = counter_of c l"
    using Cons.prems by (intro sat_add_room) (simp add: room_for_def)
  show ?case
  proof (cases "\<exists>m. reserve_max c l = Some m \<and> m < sat_add (counter_of c l) n")
    case True
    then show ?thesis by auto
  next
    case False
    then have ok: "\<not> (case reserve_max c l of Some m \<Rightarrow> sat_add (counter_of c l) n > m | None \<Rightarrow> False)"
      by (auto split: option.splits)
    obtain res ls' where r: "reserve c n ls = (res, ls')" by (rule prod.exhaust)
    show ?thesis
      using IH ok False by (cases res) (auto simp: r Let_def undo not_less)
  qed
qed simp

text \<open>a reservation is all or nothing over the tracker and its parents: granted, every level's
  counter went up by the amount and is within that level's limit; refused, some level has no room
  for it and no counter changed.\<close>

theorem reserve_all_or_nothing:
  assumes "room_for c n t"
  shows "(\<exists>t'. reserve c n t = (Inr (), t')
            \<and> t' = map (\<lambda>l. set_counter c (sat_add (counter_of c l) n) l) t
            \<and> (\<forall>l \<in> set t'. \<forall>m. reserve_max c l = Some m \<longrightarrow> counter_of c l \<le> m))
       \<or> (\<exists>v. reserve c n t = (Inl v, t)
            \<and> (\<exists>l \<in> set t. \<exists>m. reserve_max c l = Some m \<and> m < sat_add (counter_of c l) n))"
  using reserve_spec [OF assms] by (cases "reserve c n t") (auto split: sum.splits)

definition demo_tracker :: tracker where
  "demo_tracker = tracker_with_parent 0 (with_max_tool_calls run_budget_new 5)
     (tracker_new 0 (with_max_tool_calls run_budget_new 1))"

theorem reserve_all_or_nothing_witness:
  "\<exists>v. reserve CToolCalls 2 demo_tracker = (Inl v, demo_tracker)"
proof -
  have "room_for CToolCalls 2 demo_tracker"
    by (simp add: room_for_def demo_tracker_def tracker_with_parent_def tracker_new_def tracker_resume_def
        usage_default_def u64_max_def)
  from reserve_all_or_nothing [OF this] show ?thesis
    by (auto simp: demo_tracker_def tracker_with_parent_def tracker_new_def tracker_resume_def usage_default_def
        with_max_tool_calls_def run_budget_new_def sat_add_def u64_max_def)
qed

section \<open>No more model calls than the limit\<close>

text \<open>The calls a run makes on its tracker, with the readings of the clock.\<close>

datatype budget_op =
  BeginModelCall int string | BeginToolCalls int u64 | ReleaseToolCalls u64
| RecordUsage string "usage_metadata option" | RecordEvent int event

fun budget_exec :: "(rat \<Rightarrow> f64) \<Rightarrow> tracker \<Rightarrow> budget_op \<Rightarrow> tracker" where
  "budget_exec rnd t (BeginModelCall now m) = snd (begin_model_call now m t)"
| "budget_exec rnd t (BeginToolCalls now n) = snd (begin_tool_calls now n t)"
| "budget_exec rnd t (ReleaseToolCalls n) = release_tool_calls n t"
| "budget_exec rnd t (RecordUsage m u) = record_usage rnd m u t"
| "budget_exec rnd t (RecordEvent now ev) = snd (snd (record_event rnd now ev t))"

fun call_granted :: "tracker \<Rightarrow> budget_op \<Rightarrow> bool" where
  "call_granted t (BeginModelCall now m) = (\<exists>mt. fst (begin_model_call now m t) = Inr mt)"
| "call_granted t _ = False"

fun calls_granted :: "(rat \<Rightarrow> f64) \<Rightarrow> tracker \<Rightarrow> budget_op list \<Rightarrow> nat" where
  "calls_granted rnd t [] = 0"
| "calls_granted rnd t (op # ops) =
     (if call_granted t op then 1 else 0) + calls_granted rnd (budget_exec rnd t op) ops"

text \<open>How one level of the chain moves: its budget stays, its model calls do not go down.\<close>

definition moves_up :: "level \<Rightarrow> level \<Rightarrow> bool" where
  "moves_up l l' \<longleftrightarrow> lv_budget l' = lv_budget l \<and> unat (lv_model_calls l) \<le> unat (lv_model_calls l')
     \<and> (\<forall>e. lv_exceeded l = Some e \<longrightarrow> lv_exceeded l' = Some e)"

lemma moves_up_refl [simp]: "moves_up l l"
  by (simp add: moves_up_def)

lemma moves_up_trans: "moves_up a b \<Longrightarrow> moves_up b c \<Longrightarrow> moves_up a c"
  by (auto simp: moves_up_def)

abbreviation chain_up :: "tracker \<Rightarrow> tracker \<Rightarrow> bool" where
  "chain_up \<equiv> list_all2 moves_up"

lemma chain_up_refl [simp]: "chain_up t t"
  by (simp add: list.rel_refl)

lemma chain_up_trans: "chain_up s t \<Longrightarrow> chain_up t u \<Longrightarrow> chain_up s u"
  by (rule list_all2_trans [of moves_up moves_up moves_up]) (auto intro: moves_up_trans)

lemma chain_up_map: "(\<And>l. moves_up l (f l)) \<Longrightarrow> chain_up t (map f t)"
  by (simp add: list_all2_map2 list.rel_refl)

lemma chain_up_add [intro]: "chain_up t (add_usage c n t)"
  by (cases c; auto simp: add_usage_def moves_up_def unat_sat_add intro!: chain_up_map)

lemma moves_up_remember [intro]: "moves_up l (remember v l)"
  by (auto simp: moves_up_def remember_def split: option.split)

lemma chain_up_flags [intro]: "chain_up t (flag_unpriced m t)" "chain_up t (flag_untokened m t)"
  by (auto simp: flag_unpriced_def flag_untokened_def split: option.split intro!: chain_up_map)

lemma chain_up_record [intro]: "chain_up t (record_usage rnd m u t)"
proof (cases u)
  case None
  then show ?thesis
    using chain_up_trans [OF chain_up_flags(1) chain_up_flags(2)] by (simp add: record_usage_def)
next
  case (Some um)
  define t1 where "t1 = add_usage CTotalTokens (if um_total_token_count um \<ge> 0 then word_of_int (um_total_token_count um) else 0) t"
  define t2 where "t2 = add_usage CToolCalls (builtin_tool_use_count um) t1"
  have "chain_up t t1" "chain_up t1 t2" by (auto simp: t1_def t2_def)
  then have up: "chain_up t t2" by (rule chain_up_trans)
  have "record_usage rnd m u t = (case um_cost um of Some c \<Rightarrow> add_usage CCost (usd_to_micro rnd c) t2 | None \<Rightarrow> flag_unpriced m t2)"
    unfolding record_usage_def Some t2_def t1_def Let_def by simp
  then show ?thesis
    using chain_up_trans [OF up chain_up_flags(1)] chain_up_trans [OF up chain_up_add]
    by (cases "um_cost um") simp_all
qed

lemma chain_up_release [intro]: "chain_up t (release_tool_calls n t)"
  by (auto simp: release_tool_calls_def moves_up_def intro!: chain_up_map)

lemma chain_up_event [intro]: "chain_up t (snd (snd (record_event rnd now ev t)))"
proof -
  define t1 where "t1 = (case ev_usage ev of
                    Some u \<Rightarrow> record_usage rnd (case ev_model ev of Some m \<Rightarrow> m | None \<Rightarrow> ''unattributed'') (Some u)
                                (add_usage CModelCalls 1 t)
                  | None \<Rightarrow> t)"
  have "chain_up t t1"
    using chain_up_trans [OF chain_up_add chain_up_record] by (auto simp: t1_def split: option.split)
  then have "chain_up t (add_usage CToolCalls (word_of_nat (ev_tool_calls ev)) t1)"
    using chain_up_add by (rule chain_up_trans)
  then show ?thesis by (simp add: record_event_def Let_def t1_def)
qed

lemma moves_up_tools [simp]: "moves_up l (set_counter CToolCalls w l)"
  by (simp add: moves_up_def)

lemma chain_up_reserve_tools: "chain_up t (snd (reserve CToolCalls n t))"
proof (induction t)
  case (Cons l ls)
  then show ?case
    by (cases "reserve CToolCalls n ls")
       (auto simp: Let_def simp del: set_counter.simps split: sum.split option.split)
qed simp

lemma chain_up_begin_tools [intro]: "chain_up t (snd (begin_tool_calls now n t))"
  using chain_up_reserve_tools by (auto simp: begin_tool_calls_def split: sum.split)

lemma begin_model_call_spec:
  assumes "room_for CModelCalls 1 t"
  shows "chain_up t (snd (begin_model_call now m t))
    \<and> (call_granted t (BeginModelCall now m) \<longrightarrow>
         list_all2 (\<lambda>l l'. unat (lv_model_calls l') = Suc (unat (lv_model_calls l))
           \<and> (\<forall>mx. max_model_calls (lv_budget l) = Some mx \<longrightarrow> lv_model_calls l' \<le> mx)) t (snd (begin_model_call now m t)))"
proof (cases "reserve CModelCalls 1 t")
  case (Pair res t')
  have inc: "unat (sat_add (lv_model_calls l) 1) = Suc (unat (lv_model_calls l))" if "l \<in> set t" for l
    using assms that by (auto simp: room_for_def unat_sat_add)
  show ?thesis
  proof (cases res)
    case (Inl v)
    then have "t' = t" using reserve_spec [OF assms] Pair by simp
    then show ?thesis by (auto simp: begin_model_call_def Pair Inl split: sum.split)
  next
    case (Inr u)
    have t': "t' = map (\<lambda>l. set_counter CModelCalls (sat_add (counter_of CModelCalls l) 1) l) t"
      and max: "\<forall>l \<in> set t'. \<forall>mx. reserve_max CModelCalls l = Some mx \<longrightarrow> counter_of CModelCalls l \<le> mx"
      using reserve_spec [OF assms] Pair Inr by simp_all
    have "chain_up t t'"
      unfolding t' by (rule chain_up_map) (auto simp: moves_up_def unat_sat_add)
    moreover have "list_all2 (\<lambda>l l'. unat (lv_model_calls l') = Suc (unat (lv_model_calls l))
           \<and> (\<forall>mx. max_model_calls (lv_budget l) = Some mx \<longrightarrow> lv_model_calls l' \<le> mx)) t t'"
      using max inc unfolding t' by (auto simp: list_all2_map2 list_all2_same)
    ultimately show ?thesis
      by (auto simp: begin_model_call_def Pair Inr split: sum.split)
  qed
qed

fun budget_fits :: "(rat \<Rightarrow> f64) \<Rightarrow> tracker \<Rightarrow> budget_op list \<Rightarrow> bool" where
  "budget_fits rnd t [] \<longleftrightarrow> True"
| "budget_fits rnd t (op # ops) \<longleftrightarrow> room_for CModelCalls 1 t \<and> budget_fits rnd (budget_exec rnd t op) ops"

lemma chain_up_exec: "room_for CModelCalls 1 t \<Longrightarrow> chain_up t (budget_exec rnd t op)"
  by (cases op) (auto simp: begin_model_call_spec [THEN conjunct1])

lemma chain_up_history: "budget_fits rnd t ops \<Longrightarrow> chain_up t (foldl (budget_exec rnd) t ops)"
proof (induction ops arbitrary: t)
  case (Cons op ops)
  then have "chain_up t (budget_exec rnd t op)" "chain_up (budget_exec rnd t op) (foldl (budget_exec rnd) (budget_exec rnd t op) ops)"
    by (simp_all add: chain_up_exec)
  then show ?case by (simp add: chain_up_trans)
qed simp

text \<open>C40: over any sequence of a run's calls, whatever else is recorded or released, the model calls
  granted never exceed what any level of the chain (the run or a parent) had left of its limit.\<close>

theorem granted_calls_bounded:
  assumes "budget_fits rnd t ops" and "i < length t" and "max_model_calls (lv_budget (t ! i)) = Some mx"
  shows "calls_granted rnd t ops \<le> unat mx - unat (lv_model_calls (t ! i))"
  using assms
proof (induction ops arbitrary: t)
  case (Cons op ops)
  let ?t = "budget_exec rnd t op"
  have room: "room_for CModelCalls 1 t" and fits: "budget_fits rnd ?t ops" using Cons.prems(1) by simp_all
  have up: "chain_up t ?t" using room by (rule chain_up_exec)
  then have i: "i < length ?t" "moves_up (t ! i) (?t ! i)"
    using Cons.prems(2) by (auto dest: list_all2_lengthD list_all2_nthD)
  then have mx: "max_model_calls (lv_budget (?t ! i)) = Some mx" using Cons.prems(3) by (simp add: moves_up_def)
  have IH: "calls_granted rnd ?t ops \<le> unat mx - unat (lv_model_calls (?t ! i))"
    by (rule Cons.IH [OF fits i(1) mx])
  show ?case
  proof (cases "call_granted t op")
    case True
    then obtain now m where op: "op = BeginModelCall now m" by (cases op) auto
    have "unat (lv_model_calls (?t ! i)) = Suc (unat (lv_model_calls (t ! i))) \<and> lv_model_calls (?t ! i) \<le> mx"
      using begin_model_call_spec [OF room, of now m] True Cons.prems(2,3) by (auto simp: op dest: list_all2_nthD)
    then have "unat (lv_model_calls (?t ! i)) = Suc (unat (lv_model_calls (t ! i)))" "unat (lv_model_calls (?t ! i)) \<le> unat mx"
      by (simp_all add: word_le_nat_alt)
    then have "1 + (unat mx - unat (lv_model_calls (?t ! i))) \<le> unat mx - unat (lv_model_calls (t ! i))" by linarith
    then show ?thesis using IH True by simp
  next
    case False
    have "unat mx - unat (lv_model_calls (?t ! i)) \<le> unat mx - unat (lv_model_calls (t ! i))"
      using i(2) unfolding moves_up_def by (intro diff_le_mono2) blast
    then show ?thesis using IH False by simp
  qed
qed simp

definition one_call_tracker :: tracker where
  "one_call_tracker = tracker_new 0 (with_max_model_calls run_budget_new 1)"

theorem granted_calls_bounded_witness:
  "calls_granted (\<lambda>r. Fin r) one_call_tracker [BeginModelCall 1 ''m'', BeginModelCall 2 ''m''] \<le> 1"
proof -
  have fits: "budget_fits (\<lambda>r. Fin r) one_call_tracker [BeginModelCall 1 ''m'', BeginModelCall 2 ''m'']"
    by (simp add: one_call_tracker_def tracker_new_def tracker_resume_def usage_default_def room_for_def
        begin_model_call_def tracker_check_def limit_violation_def limit_check_def level_usage_def
        with_max_model_calls_def run_budget_new_def sat_add_def u64_max_def Let_def)
  show ?thesis
    using granted_calls_bounded [OF fits, of 0 1]
    by (simp add: one_call_tracker_def tracker_new_def tracker_resume_def usage_default_def with_max_model_calls_def)
qed

section \<open>Unknown cost\<close>

text \<open>under a cost cap that does not allow unpriced models, a response without a known cost ends the
  run's spending: from then on every model call is refused with that reason, in every later state.\<close>

theorem unknown_cost_refuses:
  assumes "max_cost_micro_usd (lv_budget l) = Some mx" and "\<not> allow_unpriced_models (lv_budget l)"
    and "lv_exceeded l = None" and "um_cost u = None"
    and "budget_fits rnd (record_usage rnd mdl (Some u) (l # ls)) ops"
  defines "t \<equiv> foldl (budget_exec rnd) (record_usage rnd mdl (Some u) (l # ls)) ops"
  shows "begin_model_call now m t = (Inl (be_unpriced mdl (lv_cost l) mx), t)"
proof -
  have keep: "\<exists>y ys. add_usage c n (x # xs) = y # ys \<and> lv_budget y = lv_budget x \<and> lv_exceeded y = lv_exceeded x
      \<and> (c \<noteq> CCost \<longrightarrow> lv_cost y = lv_cost x)" for c n x xs
    by (cases c) (auto simp: add_usage_def)
  obtain x xs where x: "add_usage CTotalTokens (if um_total_token_count u \<ge> 0 then word_of_int (um_total_token_count u) else 0) (l # ls) = x # xs"
    "lv_budget x = lv_budget l" "lv_exceeded x = lv_exceeded l" "lv_cost x = lv_cost l"
    using keep [of CTotalTokens _ l ls] by blast
  obtain y ys where "add_usage CToolCalls (builtin_tool_use_count u) (x # xs) = y # ys"
    "lv_budget y = lv_budget x" "lv_exceeded y = lv_exceeded x" "lv_cost y = lv_cost x"
    using keep [of CToolCalls "builtin_tool_use_count u" x xs] by blast
  then have y: "add_usage CToolCalls (builtin_tool_use_count u) (x # xs) = y # ys"
    "lv_budget y = lv_budget l" "lv_exceeded y = None" "lv_cost y = lv_cost l"
    using x assms(3) by simp_all
  have "record_usage rnd mdl (Some u) (l # ls) = flag_unpriced mdl (y # ys)"
    using x(1) y(1) assms(4) by (simp add: record_usage_def Let_def)
  then have "lv_exceeded (hd (record_usage rnd mdl (Some u) (l # ls))) = Some (be_unpriced mdl (lv_cost l) mx)"
    "record_usage rnd mdl (Some u) (l # ls) \<noteq> []"
    using y assms(1,2) by (simp_all add: flag_unpriced_def remember_def)
  moreover have "chain_up (record_usage rnd mdl (Some u) (l # ls)) t"
    unfolding t_def using assms(5) by (rule chain_up_history)
  ultimately obtain z zs where "t = z # zs" "lv_exceeded z = Some (be_unpriced mdl (lv_cost l) mx)"
    by (cases "record_usage rnd mdl (Some u) (l # ls)") (auto simp: list_all2_Cons1 moves_up_def)
  then show ?thesis by (simp add: begin_model_call_def tracker_check_def)
qed

theorem unknown_cost_refuses_witness:
  "\<exists>v. fst (begin_model_call 3 ''m''
      (record_usage (\<lambda>r. Fin r) ''m'' (Some \<lparr>um_total_token_count = 7, um_builtin_counts = [], um_cost = None\<rparr>)
        (tracker_new 0 (with_max_cost_micro_usd run_budget_new 100)))) = Inl v"
proof -
  let ?u = "\<lparr>um_total_token_count = 7, um_builtin_counts = [], um_cost = None\<rparr>"
  obtain l where l: "tracker_new 0 (with_max_cost_micro_usd run_budget_new 100) = [l]"
    "max_cost_micro_usd (lv_budget l) = Some 100" "\<not> allow_unpriced_models (lv_budget l)" "lv_exceeded l = None"
    by (simp add: tracker_new_def tracker_resume_def with_max_cost_micro_usd_def run_budget_new_def)
  show ?thesis
    using unknown_cost_refuses [OF l(2-4), of ?u "\<lambda>r. Fin r" "''m''" "[]" "[]" 3 "''m''"] by (simp add: l(1))
qed

section \<open>One record per model call\<close>

definition complete_response :: "llm_response \<Rightarrow> bool" where
  "complete_response r \<longleftrightarrow> lr_usage r \<noteq> None \<and> \<not> lr_partial r"

definition response_model :: "string \<Rightarrow> llm_response \<Rightarrow> string" where
  "response_model mdl r = (case lr_model r of Some x \<Rightarrow> x | None \<Rightarrow> mdl)"

definition metered_usage ::
    "(rat \<Rightarrow> f64) \<Rightarrow> string \<Rightarrow> (string \<times> usage_metadata) option \<Rightarrow> bool \<Rightarrow> llm_response list \<Rightarrow> tracker \<Rightarrow> tracker" where
  "metered_usage rnd mdl fb seen rs t =
     (case find complete_response rs of
        Some r \<Rightarrow> record_usage rnd (response_model mdl r) (lr_usage r) t
      | None \<Rightarrow>
          (case rev (filter (\<lambda>r. lr_usage r \<noteq> None) rs) of
             r # _ \<Rightarrow> record_usage rnd (response_model mdl r) (lr_usage r) t
           | [] \<Rightarrow>
               (case fb of
                  Some (m, u) \<Rightarrow> record_usage rnd m (Some u) t
                | None \<Rightarrow> if seen \<or> rs \<noteq> [] then record_usage rnd mdl None t else t)))"

lemma observe_settled: "mt_settled m \<Longrightarrow> foldl (\<lambda>mt r. meter_observe rnd r mt) (m, t) rs = (m, t)"
  by (induction rs) (simp_all add: meter_observe_def)

lemma meter_general:
  "\<not> mt_settled m \<Longrightarrow> mt_fallback m \<noteq> None \<longrightarrow> mt_responses_seen m \<Longrightarrow>
   snd (meter_settle rnd (foldl (\<lambda>mt r. meter_observe rnd r mt) (m, t) rs))
     = metered_usage rnd (mt_model m) (mt_fallback m) (mt_responses_seen m) rs t"
proof (induction rs arbitrary: m)
  case Nil
  then show ?case
    by (auto simp: meter_settle_def metered_usage_def Let_def split: option.split)
next
  case (Cons r rs)
  show ?case
  proof (cases "lr_usage r")
    case None
    then have obs: "meter_observe rnd r (m, t) = (m\<lparr>mt_responses_seen := True\<rparr>, t)"
      using Cons.prems by (simp add: meter_observe_def)
    have "metered_usage rnd (mt_model m) (mt_fallback m) True rs t
        = metered_usage rnd (mt_model m) (mt_fallback m) (mt_responses_seen m) (r # rs) t"
      using None Cons.prems(2) by (auto simp: metered_usage_def complete_response_def split: option.split list.split)
    then show ?thesis
      using Cons.IH [of "m\<lparr>mt_responses_seen := True\<rparr>"] Cons.prems by (simp add: obs)
  next
    case (Some u)
    let ?d = "response_model (mt_model m) r"
    show ?thesis
    proof (cases "lr_partial r")
      case True
      have obs: "meter_observe rnd r (m, t) = (m\<lparr>mt_responses_seen := True, mt_fallback := Some (?d, u)\<rparr>, t)"
        using Cons.prems(1) Some True by (cases "lr_model r") (simp_all add: meter_observe_def response_model_def Let_def)
      have "metered_usage rnd (mt_model m) (Some (?d, u)) True rs t
          = metered_usage rnd (mt_model m) (mt_fallback m) (mt_responses_seen m) (r # rs) t"
        using Some True by (auto simp: metered_usage_def complete_response_def split: option.split list.split)
      then show ?thesis
        using Cons.IH [of "m\<lparr>mt_responses_seen := True, mt_fallback := Some (?d, u)\<rparr>"] Cons.prems by (simp add: obs)
    next
      case False
      have obs: "meter_observe rnd r (m, t) = (m\<lparr>mt_responses_seen := True, mt_settled := True\<rparr>, record_usage rnd ?d (Some u) t)"
        using Cons.prems(1) Some False by (cases "lr_model r") (simp_all add: meter_observe_def response_model_def Let_def)
      show ?thesis
        using Some False by (simp add: obs observe_settled meter_settle_def metered_usage_def complete_response_def)
    qed
  qed
qed

text \<open>whatever stream of responses a model call yields, and however it ends, its usage is recorded
  at most once: the first complete response's, else the last partial one's, else unknown usage when
  there was any response, else nothing.\<close>

theorem meter_records_once:
  "snd (meter_settle rnd (foldl (\<lambda>mt r. meter_observe rnd r mt) (meter_new mdl, t) rs))
     = metered_usage rnd mdl None False rs t"
  using meter_general [of "meter_new mdl" rnd t rs] by (simp add: meter_new_def)

text \<open>an event is counted once: recording it again (a replayed or forwarded event) changes neither
  the event nor any counter.\<close>

theorem event_counted_once:
  assumes "record_event rnd now ev t = (res, ev', t')"
  shows "\<exists>res'. record_event rnd now' ev' t' = (res', ev', t')"
  using assms by (auto simp: record_event_def Let_def split: if_splits)

theorem event_counted_once_witness:
  "\<exists>res'. record_event (\<lambda>r. Fin r) 2
      (fst (snd (record_event (\<lambda>r. Fin r) 1 \<lparr>ev_partial = False, ev_metadata = [], ev_usage = None, ev_model = None, ev_tool_calls = 2\<rparr> demo_tracker)))
      (snd (snd (record_event (\<lambda>r. Fin r) 1 \<lparr>ev_partial = False, ev_metadata = [], ev_usage = None, ev_model = None, ev_tool_calls = 2\<rparr> demo_tracker)))
    = (res',
       fst (snd (record_event (\<lambda>r. Fin r) 1 \<lparr>ev_partial = False, ev_metadata = [], ev_usage = None, ev_model = None, ev_tool_calls = 2\<rparr> demo_tracker)),
       snd (snd (record_event (\<lambda>r. Fin r) 1 \<lparr>ev_partial = False, ev_metadata = [], ev_usage = None, ev_model = None, ev_tool_calls = 2\<rparr> demo_tracker)))"
  by (rule event_counted_once [where res = "fst (record_event (\<lambda>r. Fin r) 1 \<lparr>ev_partial = False, ev_metadata = [], ev_usage = None, ev_model = None, ev_tool_calls = 2\<rparr> demo_tracker)"]) simp

end
