(* ===== verification/Spend.thy ===== *)
theory Spend
  imports Json Float64
begin

text \<open>
  The spend ledger of \<^verbatim>\<open>adk-core/src/spend.rs\<close>: limits over scopes and calendar windows, holds with a
  time to live, committed spend per attribution and UTC day. Each operation runs under the ledger's
  mutex and reads its clock once, so it is a function of the state and that reading. Amounts are
  64-bit words with the code's saturating sums. An operation's error is a \<open>spend_error\<close>;
  \<open>spend_adk_error\<close> is the conversion applied where the trait method returns it.
\<close>

section \<open>Scopes, windows and limits\<close>

datatype spend_period = Day | Month | Lifetime

definition window_start :: "chrono \<Rightarrow> spend_period \<Rightarrow> instant \<Rightarrow> instant option" where
  "window_start ch p t =
     (case p of
        Day \<Rightarrow> Some (midnight ch (date_naive ch t))
      | Month \<Rightarrow> map_option (midnight ch) (first_of_month ch t)
      | Lifetime \<Rightarrow> None)"

fun period_name :: "spend_period \<Rightarrow> string" where
  "period_name Day = ''day''"
| "period_name Month = ''month''"
| "period_name Lifetime = ''lifetime''"

record spend_key =
  sk_org :: string
  sk_agent :: "string option"
  sk_vendor :: "string option"
  sk_period :: spend_period

definition spend_org :: "string \<Rightarrow> spend_key" where
  "spend_org org = \<lparr>sk_org = org, sk_agent = None, sk_vendor = None, sk_period = Lifetime\<rparr>"

definition with_agent :: "spend_key \<Rightarrow> string \<Rightarrow> spend_key" where
  "with_agent k a = k\<lparr>sk_agent := Some a\<rparr>"

definition with_vendor :: "spend_key \<Rightarrow> string \<Rightarrow> spend_key" where
  "with_vendor k v = k\<lparr>sk_vendor := Some v\<rparr>"

definition per_period :: "spend_key \<Rightarrow> spend_period \<Rightarrow> spend_key" where
  "per_period k p = k\<lparr>sk_period := p\<rparr>"

definition covers :: "spend_key \<Rightarrow> spend_key \<Rightarrow> bool" where
  "covers k entry \<longleftrightarrow> sk_org k = sk_org entry
     \<and> (case sk_agent k of None \<Rightarrow> True | Some a \<Rightarrow> sk_agent entry = Some a)
     \<and> (case sk_vendor k of None \<Rightarrow> True | Some v \<Rightarrow> sk_vendor entry = Some v)"

definition spend_key_text :: "spend_key \<Rightarrow> string" where
  "spend_key_text k =
     ''org='' @ sk_org k
     @ (case sk_agent k of Some a \<Rightarrow> '' agent='' @ a | None \<Rightarrow> [])
     @ (case sk_vendor k of Some v \<Rightarrow> '' vendor='' @ v | None \<Rightarrow> [])
     @ '' period='' @ period_name (sk_period k)"

record spend_limit =
  lim_key :: spend_key
  lim_max :: u64

type_synonym spend_limits = "spend_limit list"

definition limits_limit :: "spend_limits \<Rightarrow> spend_key \<Rightarrow> u64 \<Rightarrow> spend_limits" where
  "limits_limit ls k m = ls @ [\<lparr>lim_key = k, lim_max = m\<rparr>]"

definition applicable :: "spend_limits \<Rightarrow> spend_key \<Rightarrow> spend_limits" where
  "applicable ls entry = filter (\<lambda>l. covers (lim_key l) entry) ls"

section \<open>Errors\<close>

datatype spend_error =
  LimitExceeded spend_key u64 u64 u64
| UnknownReservation string
| AmountTooLarge u64
| LedgerUnavailable string

definition spend_error_text :: "spend_error \<Rightarrow> string" where
  "spend_error_text e =
     (case e of
        LimitExceeded l m c r \<Rightarrow>
          ''spend limit exceeded for '' @ spend_key_text l @ '': '' @ show_nat (unat c)
          @ '' micro-USD already consumed plus '' @ show_nat (unat r) @ '' requested exceeds the cap of ''
          @ show_nat (unat m) @ ''. Raise the limit or wait for the window to reset''
      | UnknownReservation i \<Rightarrow>
          ''reservation '' @ i @ '' is unknown or already settled. Commit or release each reservation exactly once''
      | AmountTooLarge a \<Rightarrow> ''amount of '' @ show_nat (unat a) @ '' micro-USD is larger than the ledger can store''
      | LedgerUnavailable m \<Rightarrow>
          ''spend ledger unavailable: '' @ m @ ''. No budget is reserved while the ledger is unreachable'')"

text \<open>The JSON of a key (camel case, absent fields skipped).\<close>

definition spend_key_json :: "spend_key \<Rightarrow> json" where
  "spend_key_json k = JObject
     ((''org'', JString (sk_org k))
      # (case sk_agent k of Some a \<Rightarrow> [(''agent'', JString a)] | None \<Rightarrow> [])
      @ (case sk_vendor k of Some v \<Rightarrow> [(''vendor'', JString v)] | None \<Rightarrow> [])
      @ [(''period'', JString (period_name (sk_period k)))])"

definition spend_adk_error :: "(string \<Rightarrow> string) \<Rightarrow> spend_error \<Rightarrow> adk_error" where
  "spend_adk_error esc e =
     (let msg = spend_error_text e in
      case e of
        LimitExceeded l m c r \<Rightarrow>
          with_details (adk_error_new Guardrail Forbidden ''spend.limit_exceeded'' msg)
            (default_details\<lparr>metadata :=
               [(''limit'', write_canonical esc (spend_key_json l)), (''max_micro_usd'', show_nat (unat m)),
                (''consumed_micro_usd'', show_nat (unat c)), (''requested_micro_usd'', show_nat (unat r))]\<rparr>)
      | UnknownReservation i \<Rightarrow> adk_error_new Guardrail NotFound ''spend.unknown_reservation'' msg
      | AmountTooLarge a \<Rightarrow> adk_error_new Guardrail InvalidInput ''spend.amount_too_large'' msg
      | LedgerUnavailable m \<Rightarrow> adk_error_new Guardrail Unavailable ''spend.ledger_unavailable'' msg)"

section \<open>Amounts\<close>

definition f64_mul :: "(rat \<Rightarrow> f64) \<Rightarrow> f64 \<Rightarrow> rat \<Rightarrow> f64" where
  "f64_mul rnd x k = (case x of Fin r \<Rightarrow> rnd (r * k) | y \<Rightarrow> y)"

definition usd_to_micro_usd :: "(rat \<Rightarrow> f64) \<Rightarrow> f64 \<Rightarrow> u64 option" where
  "usd_to_micro_usd rnd usd =
     (case usd of
        Fin r \<Rightarrow>
          if r < 0 then None
          else
            (case f64_mul rnd (f64_mul rnd (Fin r) 1000000) 1000 of
               Fin m \<Rightarrow>
                 (case rnd (of_int (round_half_away m) / 1000) of
                    Fin q \<Rightarrow> Some (if \<lceil>q\<rceil> \<ge> 2 ^ 64 then - 1 else word_of_int (max 0 \<lceil>q\<rceil>))
                  | PosInf \<Rightarrow> Some (- 1)
                  | _ \<Rightarrow> Some 0)
             | PosInf \<Rightarrow> Some (- 1)
             | _ \<Rightarrow> Some 0)
      | _ \<Rightarrow> None)"

section \<open>The in-memory ledger\<close>

record hold =
  hold_key :: spend_key
  hold_amount :: u64
  hold_expires_at :: instant

record attribution =
  at_org :: string
  at_agent :: "string option"
  at_vendor :: "string option"

definition attribution_of :: "spend_key \<Rightarrow> attribution" where
  "attribution_of k = \<lparr>at_org = sk_org k, at_agent = sk_agent k, at_vendor = sk_vendor k\<rparr>"

definition as_key :: "attribution \<Rightarrow> spend_key" where
  "as_key a = \<lparr>sk_org = at_org a, sk_agent = at_agent a, sk_vendor = at_vendor a, sk_period = Lifetime\<rparr>"

record ledger_state =
  committed :: "(attribution \<times> int, u64) table"
  holds :: "(string, hold) table"

definition ledger_empty :: ledger_state where
  "ledger_empty = \<lparr>committed = [], holds = []\<rparr>"

definition sat_sum :: "u64 list \<Rightarrow> u64" where
  "sat_sum xs = foldl sat_add 0 xs"

definition in_window :: "chrono \<Rightarrow> spend_key \<Rightarrow> spend_period \<Rightarrow> instant \<Rightarrow> attribution \<times> int \<Rightarrow> bool" where
  "in_window ch scope p now b =
     ((case map_option (date_naive ch) (window_start ch p now) of None \<Rightarrow> True | Some since \<Rightarrow> since \<le> snd b)
      \<and> covers scope (as_key (fst b)))"

definition committed_in :: "chrono \<Rightarrow> ledger_state \<Rightarrow> spend_key \<Rightarrow> spend_period \<Rightarrow> instant \<Rightarrow> u64" where
  "committed_in ch st scope p now =
     sat_sum (map snd (filter (\<lambda>e. in_window ch scope p now (fst e)) (committed st)))"

definition live_in :: "spend_key \<Rightarrow> instant \<Rightarrow> hold \<Rightarrow> bool" where
  "live_in scope now h \<longleftrightarrow> now < hold_expires_at h \<and> covers scope (hold_key h)"

definition held_in :: "ledger_state \<Rightarrow> spend_key \<Rightarrow> instant \<Rightarrow> u64" where
  "held_in st scope now =
     sat_sum (map (hold_amount \<circ> snd) (filter (\<lambda>e. live_in scope now (snd e)) (holds st)))"

record spend_ledger =
  sl_limits :: spend_limits
  sl_ttl :: dur

definition ledger_new :: "spend_limits \<Rightarrow> spend_ledger" where
  "ledger_new ls = \<lparr>sl_limits = ls, sl_ttl = 15 * 60 * 1000000000\<rparr>"

definition with_reservation_ttl :: "spend_ledger \<Rightarrow> dur \<Rightarrow> spend_ledger" where
  "with_reservation_ttl lg d = lg\<lparr>sl_ttl := d\<rparr>"

fun first_refusal :: "chrono \<Rightarrow> ledger_state \<Rightarrow> instant \<Rightarrow> u64 \<Rightarrow> spend_limits \<Rightarrow> spend_error option" where
  "first_refusal ch st now amount [] = None"
| "first_refusal ch st now amount (l # ls) =
     (let consumed = sat_add (committed_in ch st (lim_key l) (sk_period (lim_key l)) now) (held_in st (lim_key l) now) in
      if sat_add consumed amount > lim_max l
      then Some (LimitExceeded (lim_key l) (lim_max l) consumed amount)
      else first_refusal ch st now amount ls)"

text \<open>\<open>fresh\<close> is the identifier \<^verbatim>\<open>ReservationId::generate\<close> makes.\<close>

definition spend_reserve ::
    "chrono \<Rightarrow> spend_ledger \<Rightarrow> instant \<Rightarrow> string \<Rightarrow> spend_key \<Rightarrow> u64 \<Rightarrow> ledger_state \<Rightarrow> (spend_error + string) \<times> ledger_state" where
  "spend_reserve ch lg now fresh key amount st =
     (case first_refusal ch st now amount (applicable (sl_limits lg) key) of
        Some e \<Rightarrow> (Inl e, st)
      | None \<Rightarrow>
          (let ttl = (case from_std ch (sl_ttl lg) of Some d \<Rightarrow> d | None \<Rightarrow> delta_max ch);
               expires = (case checked_add_signed ch now ttl of Some t \<Rightarrow> t | None \<Rightarrow> max_utc ch)
           in (Inr fresh, st\<lparr>holds := AList.update fresh
                 \<lparr>hold_key = key, hold_amount = amount, hold_expires_at = expires\<rparr> (holds st)\<rparr>)))"

definition spend_commit ::
    "chrono \<Rightarrow> instant \<Rightarrow> string \<Rightarrow> u64 \<Rightarrow> ledger_state \<Rightarrow> (spend_error + unit) \<times> ledger_state" where
  "spend_commit ch now i actual st =
     (case lookup (holds st) i of
        None \<Rightarrow> (Inl (UnknownReservation i), st)
      | Some h \<Rightarrow>
          (let bucket = (attribution_of (hold_key h), date_naive ch now);
               total = (case lookup (committed st) bucket of Some t \<Rightarrow> t | None \<Rightarrow> 0)
           in (Inr (), \<lparr>committed = AList.update bucket (sat_add total actual) (committed st),
                        holds = AList.delete i (holds st)\<rparr>)))"

definition spend_release :: "string \<Rightarrow> ledger_state \<Rightarrow> (spend_error + unit) \<times> ledger_state" where
  "spend_release i st =
     (case lookup (holds st) i of
        None \<Rightarrow> (Inl (UnknownReservation i), st)
      | Some h \<Rightarrow> (Inr (), st\<lparr>holds := AList.delete i (holds st)\<rparr>))"

definition spend_spent :: "chrono \<Rightarrow> instant \<Rightarrow> spend_key \<Rightarrow> spend_period \<Rightarrow> ledger_state \<Rightarrow> u64" where
  "spend_spent ch now key p st = committed_in ch st key p now"

text \<open>The trait methods: the operation with its error converted.\<close>

definition ledger_result :: "(string \<Rightarrow> string) \<Rightarrow> (spend_error + 'a) \<times> ledger_state \<Rightarrow> 'a result \<times> ledger_state" where
  "ledger_result esc r = (map_sum (spend_adk_error esc) id (fst r), snd r)"

end
