(* ===== verification/Spend_Props.thy ===== *)
theory Spend_Props
  imports Spend
begin

text \<open>
  What the spend ledger guarantees: no limit is ever exceeded by committed spend and live holds while
  callers commit no more than they hold, every commit is recorded in full, a reservation settles once,
  and expired holds stop counting.
\<close>

section \<open>Sums over tables\<close>

definition weight :: "('k \<times> 'v \<Rightarrow> nat) \<Rightarrow> ('k, 'v) table \<Rightarrow> nat" where
  "weight g t = sum_list (map g t)"

lemma weight_delete:
  "distinct (keys t) \<Longrightarrow>
     weight g t = weight g (AList.delete k t) + (case lookup t k of Some v \<Rightarrow> g (k, v) | None \<Rightarrow> 0)"
proof (induction t)
  case (Cons e t)
  obtain k' v where e: "e = (k', v)" by (rule prod.exhaust)
  show ?case
  proof (cases "k' = k")
    case True
    then have "lookup t k = None" using Cons.prems by (simp add: e lookup_None_keys)
    then have "AList.delete k t = t" by (simp add: map_of_eq_None_iff delete_id)
    then show ?thesis using True by (simp add: e weight_def)
  next
    case False
    then show ?thesis using Cons by (simp add: e weight_def)
  qed
qed (simp add: weight_def)

lemma weight_update:
  "distinct (keys t) \<Longrightarrow> weight g (AList.update k v t) = weight g (AList.delete k t) + g (k, v)"
proof (induction t)
  case (Cons e t)
  obtain k' w where e: "e = (k', w)" by (rule prod.exhaust)
  show ?case
  proof (cases "k' = k")
    case True
    then have "AList.delete k t = t" using Cons.prems by (simp add: e delete_id)
    then show ?thesis using True by (simp add: e weight_def)
  next
    case False
    then show ?thesis using Cons by (simp add: e weight_def)
  qed
qed (simp add: weight_def)

lemma weight_mono: "(\<And>e. g e \<le> h e) \<Longrightarrow> weight g t \<le> weight h t"
  by (auto simp: weight_def intro: sum_list_mono)

lemma min_add_min: "min (min a m + b) m = min (a + b) (m :: nat)"
  by (simp add: min_def)

lemma unat_foldl_sat: "unat (foldl sat_add a xs) = min (unat a + sum_list (map unat xs)) u64_max"
  by (induction xs arbitrary: a) (auto simp: unat_sat_add)

lemma unat_sat_sum: "unat (sat_sum xs) = min (sum_list (map unat xs)) u64_max"
  by (simp add: sat_sum_def unat_foldl_sat)

section \<open>What counts against a scope\<close>

definition spent_share :: "chrono \<Rightarrow> spend_key \<Rightarrow> spend_period \<Rightarrow> instant \<Rightarrow> (attribution \<times> int) \<times> u64 \<Rightarrow> nat" where
  "spent_share ch scope p now e = (if in_window ch scope p now (fst e) then unat (snd e) else 0)"

definition hold_share :: "spend_key \<Rightarrow> instant \<Rightarrow> string \<times> hold \<Rightarrow> nat" where
  "hold_share scope now e = (if live_in scope now (snd e) then unat (hold_amount (snd e)) else 0)"

lemma filter_share: "sum_list (map f (filter P t)) = weight (\<lambda>e. if P e then f e else 0) t"
  by (induction t) (auto simp: weight_def)

lemma unat_committed_in:
  "unat (committed_in ch st scope p now) = min (weight (spent_share ch scope p now) (committed st)) u64_max"
  using filter_share [of "\<lambda>e. unat (snd e)" "\<lambda>e. in_window ch scope p now (fst e)" "committed st"]
  by (simp add: committed_in_def unat_sat_sum spent_share_def [abs_def] comp_def)

lemma unat_held_in: "unat (held_in st scope now) = min (weight (hold_share scope now) (holds st)) u64_max"
  using filter_share [of "\<lambda>e. unat (hold_amount (snd e))" "\<lambda>e. live_in scope now (snd e)" "holds st"]
  by (simp add: held_in_def unat_sat_sum hold_share_def [abs_def] comp_def)

lemma covers_as_key [simp]: "covers scope (as_key (attribution_of k)) = covers scope k"
  by (cases "sk_agent scope"; cases "sk_vendor scope") (simp_all add: covers_def as_key_def attribution_of_def)

lemma window_shrinks:
  assumes "chrono_ok ch" and "now \<le> now'" and "in_window ch scope p now' b"
  shows "in_window ch scope p now b"
proof (cases p)
  case Day
  then show ?thesis
    using assms(3) chrono_date_mono [OF assms(1,2)]
    by (simp add: in_window_def window_start_def chrono_midnight [OF assms(1)])
next
  case Month
  obtain a b' where m: "first_of_month ch now = Some a" "first_of_month ch now' = Some b'"
    using chrono_month [OF assms(1)] by blast
  with chrono_month_mono [OF assms(1,2)] have "a \<le> b'" by blast
  with m show ?thesis
    using Month assms(3)
    by (auto simp: in_window_def window_start_def chrono_midnight [OF assms(1)])
next
  case Lifetime
  then show ?thesis using assms(3) by (simp add: in_window_def window_start_def)
qed

lemma window_today:
  assumes "chrono_ok ch"
  shows "in_window ch scope p now (attribution_of k, date_naive ch now) \<longleftrightarrow> covers scope k"
proof -
  obtain a where "first_of_month ch now = Some a" "a \<le> date_naive ch now"
    using chrono_month [OF assms] by blast
  then show ?thesis
    by (cases p) (simp_all add: in_window_def window_start_def chrono_midnight [OF assms])
qed

section \<open>Limits hold\<close>

text \<open>The states of a ledger whose clock does not step back and whose callers settle a hold before it
  expires, with no more than it holds.\<close>

inductive spend_reach :: "chrono \<Rightarrow> spend_ledger \<Rightarrow> instant \<Rightarrow> ledger_state \<Rightarrow> bool" for ch lg where
  start: "spend_reach ch lg now ledger_empty"
| tick: "spend_reach ch lg now st \<Longrightarrow> now \<le> now' \<Longrightarrow> spend_reach ch lg now' st"
| reserve: "spend_reach ch lg now st \<Longrightarrow> lookup (holds st) fresh = None \<Longrightarrow>
    spend_reach ch lg now (snd (spend_reserve ch lg now fresh key amount st))"
| commit: "spend_reach ch lg now st \<Longrightarrow>
    (\<And>h. lookup (holds st) i = Some h \<Longrightarrow> now < hold_expires_at h \<and> actual \<le> hold_amount h) \<Longrightarrow>
    spend_reach ch lg now (snd (spend_commit ch now i actual st))"
| release: "spend_reach ch lg now st \<Longrightarrow> spend_reach ch lg now (snd (spend_release i st))"

definition in_limits :: "chrono \<Rightarrow> spend_ledger \<Rightarrow> instant \<Rightarrow> ledger_state \<Rightarrow> bool" where
  "in_limits ch lg now st \<longleftrightarrow> distinct (keys (committed st)) \<and> distinct (keys (holds st))
     \<and> (\<forall>l \<in> set (sl_limits lg). unat (lim_max l) < u64_max \<longrightarrow>
          weight (spent_share ch (lim_key l) (sk_period (lim_key l)) now) (committed st)
          + weight (hold_share (lim_key l) now) (holds st) \<le> unat (lim_max l))"

lemma in_limits_less:
  assumes "in_limits ch lg now st" and "distinct (keys (committed st'))" and "distinct (keys (holds st'))"
    and "\<And>scope p. weight (spent_share ch scope p now') (committed st') + weight (hold_share scope now') (holds st')
      \<le> weight (spent_share ch scope p now) (committed st) + weight (hold_share scope now) (holds st)"
  shows "in_limits ch lg now' st'"
  using assms unfolding in_limits_def by (blast intro: order_trans)

lemma first_refusal_None:
  "first_refusal ch st now amount ls = None \<longleftrightarrow>
     (\<forall>l \<in> set ls. sat_add (sat_add (committed_in ch st (lim_key l) (sk_period (lim_key l)) now)
                                    (held_in st (lim_key l) now)) amount \<le> lim_max l)"
  by (induction ls) (auto simp: Let_def not_less)

lemma admitted_room:
  assumes "sat_add (sat_add (committed_in ch st scope p now) (held_in st scope now)) amount \<le> mx"
    and "unat mx < u64_max"
  shows "weight (spent_share ch scope p now) (committed st) + weight (hold_share scope now) (holds st) + unat amount
    \<le> unat mx"
  using assms by (simp add: word_le_nat_alt unat_sat_add unat_committed_in unat_held_in min_def split: if_splits)

lemma within_reserve:
  assumes "in_limits ch lg now st" and "lookup (holds st) fresh = None"
  shows "in_limits ch lg now (snd (spend_reserve ch lg now fresh key amount st))"
proof (cases "first_refusal ch st now amount (applicable (sl_limits lg) key)")
  case (Some e)
  then show ?thesis using assms(1) by (simp add: spend_reserve_def)
next
  case None
  define h where "h = \<lparr>hold_key = key, hold_amount = amount, hold_expires_at =
      (case checked_add_signed ch now (case from_std ch (sl_ttl lg) of Some d \<Rightarrow> d | None \<Rightarrow> delta_max ch) of
         Some t \<Rightarrow> t | None \<Rightarrow> max_utc ch)\<rparr>"
  have st': "snd (spend_reserve ch lg now fresh key amount st) = st\<lparr>holds := AList.update fresh h (holds st)\<rparr>"
    by (simp add: spend_reserve_def None h_def Let_def)
  have d: "distinct (keys (holds st))" using assms(1) by (simp add: in_limits_def)
  have w: "weight (hold_share scope now) (AList.update fresh h (holds st))
      = weight (hold_share scope now) (holds st) + hold_share scope now (fresh, h)" for scope
    using weight_update [OF d] weight_delete [OF d, of "hold_share scope now" fresh] assms(2) by simp
  have "weight (spent_share ch (lim_key l) (sk_period (lim_key l)) now) (committed st)
      + (weight (hold_share (lim_key l) now) (holds st) + hold_share (lim_key l) now (fresh, h)) \<le> unat (lim_max l)"
    if l: "l \<in> set (sl_limits lg)" "unat (lim_max l) < u64_max" for l
  proof (cases "covers (lim_key l) key")
    case True
    then have "l \<in> set (applicable (sl_limits lg) key)" using l(1) by (simp add: applicable_def)
    then have "sat_add (sat_add (committed_in ch st (lim_key l) (sk_period (lim_key l)) now)
        (held_in st (lim_key l) now)) amount \<le> lim_max l"
      using None by (simp add: first_refusal_None)
    from admitted_room [OF this l(2)] show ?thesis by (simp add: hold_share_def h_def)
  next
    case False
    then show ?thesis using assms(1) l by (simp add: in_limits_def hold_share_def live_in_def h_def)
  qed
  then show ?thesis using assms(1) by (auto simp: in_limits_def st' w distinct_update)
qed

lemma commit_state:
  assumes "lookup (holds st) i = Some h"
  shows "snd (spend_commit ch now i actual st) =
    \<lparr>committed = AList.update (attribution_of (hold_key h), date_naive ch now)
        (sat_add (case lookup (committed st) (attribution_of (hold_key h), date_naive ch now) of Some t \<Rightarrow> t | None \<Rightarrow> 0) actual)
        (committed st),
     holds = AList.delete i (holds st)\<rparr>"
  using assms by (simp add: spend_commit_def Let_def)

lemma commit_weight:
  assumes "lookup (holds st) i = Some h" and "distinct (keys (committed st))" and "chrono_ok ch"
  shows "min (weight (spent_share ch scope p now) (committed (snd (spend_commit ch now i actual st)))) u64_max
    = min (weight (spent_share ch scope p now) (committed st) + (if covers scope (hold_key h) then unat actual else 0)) u64_max"
    and "weight (spent_share ch scope p now) (committed (snd (spend_commit ch now i actual st)))
    \<le> weight (spent_share ch scope p now) (committed st) + (if covers scope (hold_key h) then unat actual else 0)"
proof -
  let ?b = "(attribution_of (hold_key h), date_naive ch now)"
  let ?g = "spent_share ch scope p now"
  have g: "?g (?b, w) = (if covers scope (hold_key h) then unat w else 0)" for w
    using window_today [OF assms(3)] by (simp add: spent_share_def)
  have new: "weight ?g (committed (snd (spend_commit ch now i actual st)))
      = weight ?g (AList.delete ?b (committed st))
        + ?g (?b, sat_add (case lookup (committed st) ?b of Some t \<Rightarrow> t | None \<Rightarrow> 0) actual)"
    by (simp add: commit_state [OF assms(1)] weight_update [OF assms(2)])
  have old: "weight ?g (committed st) = weight ?g (AList.delete ?b (committed st))
      + (if covers scope (hold_key h) then unat (case lookup (committed st) ?b of Some t \<Rightarrow> t | None \<Rightarrow> 0) else 0)"
    using weight_delete [OF assms(2), of ?g ?b] by (auto simp: g split: option.splits)
  show "min (weight ?g (committed (snd (spend_commit ch now i actual st)))) u64_max
    = min (weight ?g (committed st) + (if covers scope (hold_key h) then unat actual else 0)) u64_max"
    unfolding new old g unat_sat_add by (auto simp: min_def)
  show "weight ?g (committed (snd (spend_commit ch now i actual st)))
    \<le> weight ?g (committed st) + (if covers scope (hold_key h) then unat actual else 0)"
    unfolding new old g unat_sat_add by simp
qed

lemma within_commit:
  assumes "in_limits ch lg now st" and "chrono_ok ch"
    and "\<And>h. lookup (holds st) i = Some h \<Longrightarrow> now < hold_expires_at h \<and> actual \<le> hold_amount h"
  shows "in_limits ch lg now (snd (spend_commit ch now i actual st))"
proof (cases "lookup (holds st) i")
  case None
  then show ?thesis using assms(1) by (simp add: spend_commit_def)
next
  case (Some h)
  have d: "distinct (keys (committed st))" "distinct (keys (holds st))" using assms(1) by (simp_all add: in_limits_def)
  have live: "now < hold_expires_at h" "unat actual \<le> unat (hold_amount h)"
    using assms(3) [OF Some] by (simp_all add: word_le_nat_alt)
  have "weight (spent_share ch scope p now) (committed (snd (spend_commit ch now i actual st)))
      + weight (hold_share scope now) (AList.delete i (holds st))
    \<le> weight (spent_share ch scope p now) (committed st) + weight (hold_share scope now) (holds st)" for scope p
    using commit_weight(2) [OF Some d(1) assms(2), of scope p now actual]
      weight_delete [OF d(2), of "hold_share scope now" i] Some live
    by (auto simp: hold_share_def live_in_def split: if_splits)
  moreover have "distinct (keys (committed (snd (spend_commit ch now i actual st))))"
    by (simp add: commit_state [OF Some] distinct_update d(1))
  moreover have "holds (snd (spend_commit ch now i actual st)) = AList.delete i (holds st)"
    by (simp add: commit_state [OF Some])
  ultimately show ?thesis
    using d by (intro in_limits_less [OF assms(1)]) auto
qed

lemma within_release:
  assumes "in_limits ch lg now st"
  shows "in_limits ch lg now (snd (spend_release i st))"
proof (cases "lookup (holds st) i")
  case (Some h)
  have "weight (hold_share scope now) (AList.delete i (holds st)) \<le> weight (hold_share scope now) (holds st)" for scope
    using weight_delete [of "holds st" "hold_share scope now" i] assms by (simp add: in_limits_def)
  then show ?thesis
    using assms by (intro in_limits_less [OF assms]) (auto simp: spend_release_def Some in_limits_def)
qed (use assms in \<open>simp add: spend_release_def\<close>)

lemma within_tick:
  assumes "in_limits ch lg now st" and "chrono_ok ch" and "now \<le> now'"
  shows "in_limits ch lg now' st"
proof -
  have "weight (spent_share ch scope p now') (committed st) \<le> weight (spent_share ch scope p now) (committed st)" for scope p
    by (rule weight_mono) (auto simp: spent_share_def dest: window_shrinks [OF assms(2,3)])
  moreover have "weight (hold_share scope now') (holds st) \<le> weight (hold_share scope now) (holds st)" for scope
    by (rule weight_mono) (use assms(3) in \<open>auto simp: hold_share_def live_in_def\<close>)
  ultimately show ?thesis
    using assms(1) by (intro in_limits_less [OF assms(1)]) (auto simp: in_limits_def intro: add_mono)
qed

lemma reach_within: "spend_reach ch lg now st \<Longrightarrow> chrono_ok ch \<Longrightarrow> in_limits ch lg now st"
proof (induction rule: spend_reach.induct)
  case (start now)
  then show ?case by (simp add: in_limits_def ledger_empty_def weight_def)
qed (auto intro: within_tick within_reserve within_commit within_release)


definition demo_limits :: spend_ledger where
  "demo_limits = with_reservation_ttl (ledger_new (limits_limit [] (per_period (spend_org ''acme'') Day) 100)) 1000"

definition demo_key :: spend_key where
  "demo_key = with_vendor (spend_org ''acme'') ''gemini''"

definition demo_held :: ledger_state where
  "demo_held = snd (spend_reserve plain_chrono demo_limits 5 ''r1'' demo_key 60 ledger_empty)"

lemma demo_held_state:
  "demo_held = \<lparr>committed = [], holds = [(''r1'', \<lparr>hold_key = demo_key, hold_amount = 60, hold_expires_at = 1005\<rparr>)]\<rparr>"
  by (simp add: demo_held_def spend_reserve_def demo_limits_def with_reservation_ttl_def ledger_new_def limits_limit_def
      applicable_def demo_key_def with_vendor_def spend_org_def per_period_def covers_def ledger_empty_def Let_def
      committed_in_def held_in_def sat_sum_def plain_chrono_def sat_add_def u64_max_def)


text \<open>a commit is recorded in full, whatever the hold's amount, the limits or the hold's expiry: spend
  of every scope that covers the hold grows by the actual amount in each of its windows (up to the
  counter's width), no other scope's changes, and the hold is gone.\<close>

theorem commit_recorded:
  assumes "chrono_ok ch" and "distinct (keys (committed st))" and "lookup (holds st) i = Some h"
  shows "\<exists>st'. spend_commit ch now i actual st = (Inr (), st') \<and> lookup (holds st') i = None
    \<and> (\<forall>scope p. spend_spent ch now scope p st'
        = sat_add (spend_spent ch now scope p st) (if covers scope (hold_key h) then actual else 0))"
proof -
  let ?st = "snd (spend_commit ch now i actual st)"
  have "committed_in ch ?st scope p now
      = sat_add (committed_in ch st scope p now) (if covers scope (hold_key h) then actual else 0)" for scope p
    by (rule word_unat_eq_iff [THEN iffD2])
       (auto simp: unat_committed_in unat_sat_add commit_weight(1) [OF assms(3,2,1)] min_add_min)
  moreover have "fst (spend_commit ch now i actual st) = Inr ()"
    by (simp add: spend_commit_def assms(3) Let_def)
  moreover have "lookup (holds ?st) i = None" by (simp add: commit_state [OF assms(3)])
  ultimately show ?thesis
    by (intro exI [of _ ?st]) (simp add: spend_spent_def prod_eq_iff)
qed

theorem commit_recorded_witness:
  "\<exists>st'. spend_commit plain_chrono 2000 ''r1'' 250 demo_held = (Inr (), st')
     \<and> spend_spent plain_chrono 2000 (spend_org ''acme'') Day st' = 250"
  using commit_recorded [OF plain_chrono_ok, of demo_held "''r1''" "\<lparr>hold_key = demo_key, hold_amount = 60, hold_expires_at = 1005\<rparr>" 2000 250]
  by (auto simp: demo_held_state spend_spent_def committed_in_def sat_sum_def covers_def demo_key_def with_vendor_def spend_org_def)

text \<open>a reservation settles once: after a commit or a release of it, committing or releasing it
  again fails as unknown and changes nothing, until the identifier is handed out again.\<close>

theorem settled_once:
  assumes "st' = snd (spend_commit ch now i a st) \<or> st' = snd (spend_release i st)"
  shows "spend_commit ch now' i a' st' = (Inl (UnknownReservation i), st')
    \<and> spend_release i st' = (Inl (UnknownReservation i), st')"
proof -
  have "lookup (holds st') i = None"
    using assms by (auto simp: spend_commit_def spend_release_def Let_def split: option.splits)
  then show ?thesis by (simp add: spend_commit_def spend_release_def)
qed

theorem settled_once_witness:
  "spend_release ''r1'' (snd (spend_commit plain_chrono 6 ''r1'' 50 demo_held))
     = (Inl (UnknownReservation ''r1''), snd (spend_commit plain_chrono 6 ''r1'' 50 demo_held))"
  using settled_once [of "snd (spend_commit plain_chrono 6 ''r1'' 50 demo_held)" plain_chrono 6 "''r1''" 50 demo_held] by simp

text \<open>An amount below half a thousandth of a micro-USD is dropped, though the code says a fractional
  micro-USD never is.\<close>

theorem tiny_amount_dropped:
  "usd_to_micro_usd Fin (Fin (1 / 10000000000)) = Some 0"
  by (simp add: usd_to_micro_usd_def f64_mul_def round_half_away_def)

end
