(* ===== verification/Glob.thy ===== *)
theory Glob
  imports Prelude
begin

text \<open>
  The globs tool policies match names with: \<^verbatim>\<open>glob_matches\<close> of \<^verbatim>\<open>adk-core/src/policy.rs\<close>, its indices and
  its single remembered star as the code has them, and what a glob means.
\<close>

section \<open>The characters of a string\<close>

definition continuation_byte :: "char \<Rightarrow> bool" where
  "continuation_byte c \<longleftrightarrow> 128 \<le> (of_char c :: nat) \<and> (of_char c :: nat) < 192"

text \<open>\<^verbatim>\<open>str::chars\<close>: each lead byte with its continuation bytes.\<close>

function utf8_chars :: "string \<Rightarrow> string list" where
  "utf8_chars [] = []"
| "utf8_chars (c # cs) = (c # takeWhile continuation_byte cs) # utf8_chars (dropWhile continuation_byte cs)"
  by pat_completeness auto
termination
  by (relation "measure length") (auto simp: less_Suc_eq_le length_dropWhile_le)

section \<open>The matcher\<close>

text \<open>The loop may not end as far as its equations show, so its value is an option; \<open>glob_loop_total\<close>
  proves that it always ends.\<close>

partial_function (option) glob_loop ::
    "string list \<Rightarrow> string list \<Rightarrow> nat \<Rightarrow> nat \<Rightarrow> (nat \<times> nat) option \<Rightarrow> bool option" where
  "glob_loop pattern name p n backtrack =
     (if n < length name then
        (if p < length pattern \<and> (pattern ! p = ''?'' \<or> pattern ! p = name ! n)
         then glob_loop pattern name (p + 1) (n + 1) backtrack
         else if p < length pattern \<and> pattern ! p = ''*''
         then glob_loop pattern name (p + 1) n (Some (p, n))
         else (case backtrack of
                 Some (star, matched) \<Rightarrow> glob_loop pattern name (star + 1) (matched + 1) (Some (star, matched + 1))
               | None \<Rightarrow> Some False))
      else Some (list_all (\<lambda>c. c = ''*'') (drop p pattern)))"

declare glob_loop.simps [code]

definition glob_matches :: "string \<Rightarrow> string \<Rightarrow> bool" where
  "glob_matches pattern name = (glob_loop (utf8_chars pattern) (utf8_chars name) 0 0 None = Some True)"

section \<open>What a glob means\<close>

fun glob_spec :: "string list \<Rightarrow> string list \<Rightarrow> bool" where
  "glob_spec [] name = (name = [])"
| "glob_spec (p # ps) name =
     (if p = ''*'' then (\<exists>k \<le> length name. glob_spec ps (drop k name))
      else (case name of [] \<Rightarrow> False | c # cs \<Rightarrow> (p = ''?'' \<or> p = c) \<and> glob_spec ps cs))"

lemma glob_spec_nil: "glob_spec ps [] \<longleftrightarrow> list_all (\<lambda>c. c = ''*'') ps"
  by (induction ps) auto

lemma star_spec: "glob_spec (''*'' # ps) name \<longleftrightarrow> (\<exists>k \<le> length name. glob_spec ps (drop k name))"
  by simp

lemma star_skip: "j \<le> i \<Longrightarrow> glob_spec (''*'' # ps) (drop i name) \<Longrightarrow> glob_spec (''*'' # ps) (drop j name)"
proof -
  assume ji: "j \<le> i" and m: "glob_spec (''*'' # ps) (drop i name)"
  from m obtain k where k: "k \<le> length name - i" "glob_spec ps (drop (k + i) name)" by auto
  show ?thesis
  proof (cases "i \<le> length name")
    case True
    then have "k + i - j \<le> length name - j" "drop (k + i - j) (drop j name) = drop (k + i) name"
      using ji k(1) by simp_all
    then show ?thesis using k(2) by auto
  next
    case False
    then have "glob_spec ps []" using k by simp
    moreover have "drop (length name - j) (drop j name) = []" by simp
    ultimately show ?thesis unfolding star_spec by (metis length_drop order_refl)
  qed
qed

text \<open>A star-free piece of a pattern consumes exactly its length.\<close>

lemma piece_consumes:
  "''*'' \<notin> set qs \<Longrightarrow> glob_spec (qs @ ps) name \<Longrightarrow> length qs \<le> length name \<and> glob_spec ps (drop (length qs) name)"
  by (induction qs arbitrary: name) (auto split: list.splits)

section \<open>The matcher is right\<close>

text \<open>Between two rounds: the remembered star, the star-free piece read since and the position in the
  name belong together.\<close>

fun glob_state :: "string list \<Rightarrow> string list \<Rightarrow> nat \<Rightarrow> nat \<Rightarrow> (nat \<times> nat) option \<Rightarrow> bool" where
  "glob_state pattern name p n None \<longleftrightarrow> p \<le> length pattern \<and> n \<le> length name"
| "glob_state pattern name p n (Some (star, matched)) \<longleftrightarrow>
     p \<le> length pattern \<and> n \<le> length name \<and> star < p \<and> pattern ! star = ''*'' \<and> n + star + 1 = matched + p
     \<and> (''*'' \<notin> set name \<longrightarrow> ''*'' \<notin> set (drop (star + 1) (take p pattern)))"

fun glob_other :: "string list \<Rightarrow> string list \<Rightarrow> (nat \<times> nat) option \<Rightarrow> bool" where
  "glob_other pattern name None \<longleftrightarrow> False"
| "glob_other pattern name (Some (star, matched)) \<longleftrightarrow>
     (\<exists>j. matched < j \<and> j \<le> length name \<and> glob_spec (drop (star + 1) pattern) (drop j name))"

fun glob_measure :: "string list \<Rightarrow> string list \<Rightarrow> nat \<Rightarrow> nat \<Rightarrow> (nat \<times> nat) option \<Rightarrow> nat \<times> nat" where
  "glob_measure pattern name p n backtrack =
     ((case backtrack of None \<Rightarrow> length name + 1 | Some (star, matched) \<Rightarrow> length name - matched),
      (length name - n) + (length pattern - p))"

abbreviation glob_less :: "((nat \<times> nat) \<times> (nat \<times> nat)) set" where
  "glob_less \<equiv> less_than <*lex*> less_than"

definition glob_rel :: "string list \<Rightarrow> string list \<Rightarrow> ((nat \<times> nat \<times> (nat \<times> nat) option) \<times> (nat \<times> nat \<times> (nat \<times> nat) option)) set" where
  "glob_rel pattern name = inv_image glob_less (\<lambda>(p, n, bt). glob_measure pattern name p n bt)"

lemma wf_glob_rel: "wf (glob_rel pattern name)"
  unfolding glob_rel_def by (intro wf_inv_image wf_lex_prod wf_less_than)

text \<open>What a round returns, and that it returns.\<close>

definition glob_result :: "string list \<Rightarrow> string list \<Rightarrow> nat \<Rightarrow> nat \<Rightarrow> (nat \<times> nat) option \<Rightarrow> bool" where
  "glob_result pattern name p n bt \<longleftrightarrow>
     (\<exists>b. glob_loop pattern name p n bt = Some b
        \<and> (''*'' \<notin> set name \<longrightarrow> b = (glob_spec (drop p pattern) (drop n name) \<or> glob_other pattern name bt)))"

lemma glob_step_match:
  assumes "glob_state pattern name p n bt" and "n < length name" and "p < length pattern"
    and "pattern ! p = ''?'' \<or> pattern ! p = name ! n"
  shows "glob_state pattern name (p + 1) (n + 1) bt"
    and "((p + 1, n + 1, bt), (p, n, bt)) \<in> glob_rel pattern name"
    and "''*'' \<notin> set name \<Longrightarrow>
      glob_spec (drop p pattern) (drop n name) = glob_spec (drop (p + 1) pattern) (drop (n + 1) name)"
proof -
  have star: "''*'' \<notin> set name \<Longrightarrow> pattern ! p \<noteq> ''*''"
    using assms(2,4) nth_mem by fastforce
  show "glob_state pattern name (p + 1) (n + 1) bt"
    using assms(1-3) star by (cases bt) (auto simp: take_Suc_conv_app_nth)
  show "((p + 1, n + 1, bt), (p, n, bt)) \<in> glob_rel pattern name"
    using assms(1-3) by (cases bt) (auto simp: glob_rel_def)
  show "glob_spec (drop p pattern) (drop n name) = glob_spec (drop (p + 1) pattern) (drop (n + 1) name)"
    if "''*'' \<notin> set name"
    using assms(2-4) star [OF that]
    by (simp add: Cons_nth_drop_Suc [symmetric, of p] Cons_nth_drop_Suc [symmetric, of n])
qed

text \<open>A star met while another is remembered replaces it: what the earlier one could still match, the
  new one can.\<close>

lemma earlier_star_absorbed:
  assumes "glob_state pattern name p n bt" and "''*'' \<notin> set name" and "p < length pattern"
    and "pattern ! p = ''*''" and "glob_other pattern name bt"
  shows "glob_spec (drop p pattern) (drop n name)"
proof (cases bt)
  case (Some sm)
  obtain star matched where bt: "bt = Some (star, matched)" using Some by (cases sm) auto
  obtain j where j: "matched < j" "j \<le> length name" "glob_spec (drop (star + 1) pattern) (drop j name)"
    using assms(5) bt by auto
  let ?q = "drop (star + 1) (take p pattern)"
  have st: "star < p" "n + star + 1 = matched + p" "''*'' \<notin> set ?q" using assms(1,2) bt by auto
  have "drop (star + 1) pattern = drop (star + 1) (take p pattern @ drop p pattern)" by simp
  also have "\<dots> = ?q @ drop p pattern" using st(1) assms(3) by (subst drop_append) simp
  finally have split: "drop (star + 1) pattern = ?q @ drop p pattern" .
  have "glob_spec (drop p pattern) (drop (length ?q) (drop j name))"
    using piece_consumes [OF st(3), of "drop p pattern" "drop j name"] j(3) unfolding split by blast
  then have late: "glob_spec (drop p pattern) (drop (j + length ?q) name)" by (simp add: add.commute)
  have "n \<le> j + length ?q" using j(1) st assms(3) by simp
  moreover have "drop p pattern = ''*'' # drop (p + 1) pattern"
    using assms(3,4) by (simp add: Cons_nth_drop_Suc [symmetric])
  ultimately show ?thesis using star_skip late by metis
qed (use assms(5) in simp)

lemma glob_step_star:
  assumes "glob_state pattern name p n bt" and "n < length name" and "p < length pattern" and "pattern ! p = ''*''"
  shows "glob_state pattern name (p + 1) n (Some (p, n))"
    and "((p + 1, n, Some (p, n)), (p, n, bt)) \<in> glob_rel pattern name"
    and "''*'' \<notin> set name \<Longrightarrow>
      (glob_spec (drop p pattern) (drop n name) \<or> glob_other pattern name bt)
      = (glob_spec (drop (p + 1) pattern) (drop n name) \<or> glob_other pattern name (Some (p, n)))"
proof -
  show "glob_state pattern name (p + 1) n (Some (p, n))" using assms by auto
  show "((p + 1, n, Some (p, n)), (p, n, bt)) \<in> glob_rel pattern name"
    using assms(1-3) by (cases bt) (auto simp: glob_rel_def)
  have "drop p pattern = ''*'' # drop (p + 1) pattern"
    using assms(3,4) by (simp add: Cons_nth_drop_Suc [symmetric])
  then have "glob_spec (drop p pattern) (drop n name) \<longleftrightarrow>
      (\<exists>k \<le> length name - n. glob_spec (drop (p + 1) pattern) (drop (k + n) name))" by simp
  also have "\<dots> \<longleftrightarrow> (\<exists>j. n \<le> j \<and> j \<le> length name \<and> glob_spec (drop (p + 1) pattern) (drop j name))"
    using assms(2) by (metis add.commute le_add2 le_add_diff_inverse2 le_diff_conv2 less_imp_le)
  also have "\<dots> \<longleftrightarrow> glob_spec (drop (p + 1) pattern) (drop n name) \<or> glob_other pattern name (Some (p, n))"
    using assms(2) by (auto simp: le_less)
  finally show "(glob_spec (drop p pattern) (drop n name) \<or> glob_other pattern name bt)
      = (glob_spec (drop (p + 1) pattern) (drop n name) \<or> glob_other pattern name (Some (p, n)))"
    if "''*'' \<notin> set name"
    using earlier_star_absorbed [OF assms(1) that assms(3,4)] by blast
qed

lemma glob_step_back:
  assumes "glob_state pattern name p n (Some (star, matched))" and "n < length name"
    and "\<not> (p < length pattern \<and> (pattern ! p = ''?'' \<or> pattern ! p = name ! n))"
    and "\<not> (p < length pattern \<and> pattern ! p = ''*'')"
  shows "glob_state pattern name (star + 1) (matched + 1) (Some (star, matched + 1))"
    and "((star + 1, matched + 1, Some (star, matched + 1)), (p, n, Some (star, matched))) \<in> glob_rel pattern name"
    and "(glob_spec (drop p pattern) (drop n name) \<or> glob_other pattern name (Some (star, matched)))
      = (glob_spec (drop (star + 1) pattern) (drop (matched + 1) name) \<or> glob_other pattern name (Some (star, matched + 1)))"
proof -
  show "glob_state pattern name (star + 1) (matched + 1) (Some (star, matched + 1))" using assms(1,2) by auto
  show "((star + 1, matched + 1, Some (star, matched + 1)), (p, n, Some (star, matched))) \<in> glob_rel pattern name"
    using assms(1,2) by (auto simp: glob_rel_def)
  have "\<not> glob_spec (drop p pattern) (drop n name)"
  proof (cases "p < length pattern")
    case True
    then show ?thesis
      using assms(2-4) by (simp add: Cons_nth_drop_Suc [symmetric, of p] Cons_nth_drop_Suc [symmetric, of n])
  next
    case False
    then show ?thesis using assms(2) by simp
  qed
  moreover have "matched + 1 \<le> length name" using assms(1,2) by auto
  then have "glob_other pattern name (Some (star, matched)) \<longleftrightarrow>
      glob_spec (drop (star + 1) pattern) (drop (matched + 1) name) \<or> glob_other pattern name (Some (star, matched + 1))"
    unfolding glob_other.simps by (metis Suc_eq_plus1 Suc_leI le_less lessI less_trans)
  ultimately show "(glob_spec (drop p pattern) (drop n name) \<or> glob_other pattern name (Some (star, matched)))
      = (glob_spec (drop (star + 1) pattern) (drop (matched + 1) name) \<or> glob_other pattern name (Some (star, matched + 1)))"
    by blast
qed

text \<open>At the end of the name, nothing is left for the remembered star to try.\<close>

lemma glob_end:
  assumes "glob_state pattern name p (length name) bt" and "''*'' \<notin> set name"
  shows "\<not> glob_other pattern name bt"
proof (cases bt)
  case (Some sm)
  obtain star matched where bt: "bt = Some (star, matched)" using Some by (cases sm) auto
  let ?q = "drop (star + 1) (take p pattern)"
  have st: "star < p" "length name + star + 1 = matched + p" "''*'' \<notin> set ?q" "p \<le> length pattern"
    using assms bt by auto
  have "drop (star + 1) pattern = drop (star + 1) (take p pattern @ drop p pattern)" by simp
  also have "\<dots> = ?q @ drop p pattern" using st(1,4) by (subst drop_append) simp
  finally have split: "drop (star + 1) pattern = ?q @ drop p pattern" .
  have "length ?q \<le> length (drop j name)" if "glob_spec (drop (star + 1) pattern) (drop j name)" for j
    using piece_consumes [OF st(3), of "drop p pattern" "drop j name"] that unfolding split by blast
  moreover have "length (drop j name) < length ?q" if "matched < j" "j \<le> length name" for j
    using that st by simp
  ultimately show ?thesis unfolding bt glob_other.simps by (metis not_le)
qed simp

lemma glob_loop_result:
  "case x of (p, n, bt) \<Rightarrow> glob_state pattern name p n bt \<longrightarrow> glob_result pattern name p n bt"
proof (induction x rule: wf_induct_rule [OF wf_glob_rel [of pattern name]])
  case (1 x)
  obtain p n bt where x: "x = (p, n, bt)" by (cases x)
  have IH: "glob_result pattern name p' n' bt'"
    if "glob_state pattern name p' n' bt'" "((p', n', bt'), (p, n, bt)) \<in> glob_rel pattern name" for p' n' bt'
    using 1 [of "(p', n', bt')"] that by (simp add: x)
  have "glob_result pattern name p n bt" if st: "glob_state pattern name p n bt"
  proof (cases "n < length name")
    case False
    then have n: "n = length name" using st by (cases bt) auto
    have "glob_loop pattern name p n bt = Some (list_all (\<lambda>c. c = ''*'') (drop p pattern))"
      by (subst glob_loop.simps) (simp add: n)
    then show ?thesis using glob_end st by (simp add: glob_result_def n glob_spec_nil)
  next
    case n: True
    consider (match) "p < length pattern \<and> (pattern ! p = ''?'' \<or> pattern ! p = name ! n)"
      | (star) "\<not> (p < length pattern \<and> (pattern ! p = ''?'' \<or> pattern ! p = name ! n))"
          "p < length pattern \<and> pattern ! p = ''*''"
      | (other) "\<not> (p < length pattern \<and> (pattern ! p = ''?'' \<or> pattern ! p = name ! n))"
          "\<not> (p < length pattern \<and> pattern ! p = ''*'')" by blast
    then show ?thesis
    proof cases
      case match
      then have "p < length pattern" and m: "pattern ! p = ''?'' \<or> pattern ! p = name ! n" by simp_all
      note step = glob_step_match [OF st n this]
      have "glob_loop pattern name p n bt = glob_loop pattern name (p + 1) (n + 1) bt"
        by (subst glob_loop.simps) (simp add: n match)
      then show ?thesis using IH [OF step(1,2)] step(3) by (simp add: glob_result_def)
    next
      case star
      then have "p < length pattern" and m: "pattern ! p = ''*''" by simp_all
      note step = glob_step_star [OF st n this]
      have "glob_loop pattern name p n bt = glob_loop pattern name (p + 1) n (Some (p, n))"
        using star by (subst glob_loop.simps) (simp add: n)
      then show ?thesis using IH [OF step(1,2)] step(3) by (simp add: glob_result_def)
    next
      case other
      show ?thesis
      proof (cases bt)
        case None
        have "\<not> glob_spec (drop p pattern) (drop n name)"
          using other n Cons_nth_drop_Suc [of p pattern] Cons_nth_drop_Suc [of n name]
          by (cases "p < length pattern") (auto simp flip: Cons_nth_drop_Suc)
        moreover have "glob_loop pattern name p n bt = Some False"
          using other by (subst glob_loop.simps) (auto simp: n None)
        ultimately show ?thesis by (auto simp: glob_result_def None)
      next
        case (Some sm)
        obtain star matched where bt: "bt = Some (star, matched)" using Some by (cases sm) auto
        note step = glob_step_back [OF st [unfolded bt] n other]
        have "glob_loop pattern name p n bt = glob_loop pattern name (star + 1) (matched + 1) (Some (star, matched + 1))"
          using other by (subst glob_loop.simps) (auto simp: n bt)
        then show ?thesis using IH [OF step(1)] step(2,3) by (simp add: glob_result_def bt)
      qed
    qed
  qed
  then show ?case by (simp add: x)
qed

lemma glob_matches_result:
  "\<exists>b. glob_loop (utf8_chars pattern) (utf8_chars name) 0 0 None = Some b
     \<and> (''*'' \<notin> set (utf8_chars name) \<longrightarrow> b = glob_spec (utf8_chars pattern) (utf8_chars name))"
  using glob_loop_result [where x = "(0, 0, None)" and pattern = "utf8_chars pattern" and name = "utf8_chars name"] by (simp add: glob_result_def)

end
