(* ===== verification/Policy.thy ===== *)
theory Policy
  imports Glob Principal Action_Ledger Float64
begin

text \<open>
  Tool execution policies: \<^verbatim>\<open>adk-core/src/policy.rs\<close>. A policy (the \<^verbatim>\<open>ToolPolicy\<close> trait object) is a record
  of what its methods return. What the code uses of \<^verbatim>\<open>serde_json\<close> (JSON pointers, numbers as floats,
  equality of values) is a parameter.
\<close>

section \<open>Text\<close>

definition strip_prefix :: "string \<Rightarrow> string \<Rightarrow> string option" where
  "strip_prefix pre s = (if take (length pre) s = pre then Some (drop (length pre) s) else None)"

definition strip_suffix :: "string \<Rightarrow> string \<Rightarrow> string option" where
  "strip_suffix suf s = map_option rev (strip_prefix (rev suf) (rev s))"

fun split_on :: "char \<Rightarrow> string \<Rightarrow> string list" where
  "split_on c [] = [[]]"
| "split_on c (d # s) =
     (if d = c then [] # split_on c s
      else (case split_on c s of x # xs \<Rightarrow> (d # x) # xs | [] \<Rightarrow> [[d]]))"

definition rsplit_once :: "char \<Rightarrow> string \<Rightarrow> (string \<times> string) option" where
  "rsplit_once c s =
     (if c \<in> set s
      then Some (rev (tl (dropWhile (\<lambda>d. d \<noteq> c) (rev s))), rev (takeWhile (\<lambda>d. d \<noteq> c) (rev s)))
      else None)"

definition ascii_lower :: "char \<Rightarrow> char" where
  "ascii_lower c = (if CHR ''A'' \<le> c \<and> c \<le> CHR ''Z'' then char_of (of_char c + 32 :: nat) else c)"

definition is_digit :: "char \<Rightarrow> bool" where
  "is_digit c \<longleftrightarrow> CHR ''0'' \<le> c \<and> c \<le> CHR ''9''"

definition host_char :: "char \<Rightarrow> bool" where
  "host_char c \<longleftrightarrow> (CHR ''a'' \<le> c \<and> c \<le> CHR ''z'') \<or> is_digit c \<or> c = CHR ''.'' \<or> c = CHR ''-''"

section \<open>Decisions\<close>

datatype policy_decision = Allow | Deny string | RequireApproval string

fun severity :: "policy_decision \<Rightarrow> nat" where
  "severity Allow = 0"
| "severity (RequireApproval _) = 1"
| "severity (Deny _) = 2"

definition stricter :: "policy_decision \<Rightarrow> policy_decision \<Rightarrow> policy_decision" where
  "stricter self other = (if severity other > severity self then other else self)"

text \<open>Strictness is the preorder of decisions.\<close>

instantiation policy_decision :: preorder
begin

definition less_eq_policy_decision :: "policy_decision \<Rightarrow> policy_decision \<Rightarrow> bool" where
  "less_eq_policy_decision a b \<longleftrightarrow> severity a \<le> severity b"

definition less_policy_decision :: "policy_decision \<Rightarrow> policy_decision \<Rightarrow> bool" where
  "less_policy_decision a b \<longleftrightarrow> severity a < severity b"

instance
  by standard (auto simp: less_eq_policy_decision_def less_policy_decision_def)

end

section \<open>Requests\<close>

record tool_policy_request =
  pr_tool_name :: string
  pr_args :: json
  pr_effect :: tool_effect
  pr_agent_name :: string
  pr_app_name :: string
  pr_user_id :: string
  pr_session_id :: string
  pr_invocation_id :: string
  pr_acting :: "acting_context option"

definition request_new :: "string \<Rightarrow> json \<Rightarrow> tool_policy_request" where
  "request_new tool args =
     \<lparr>pr_tool_name = tool, pr_args = args, pr_effect = NonIdempotent, pr_agent_name = [], pr_app_name = [],
      pr_user_id = [], pr_session_id = [], pr_invocation_id = [], pr_acting = None\<rparr>"

definition request_agent_id :: "tool_policy_request \<Rightarrow> string option" where
  "request_agent_id r = map_option (\<lambda>a. agent_id (acting_agent a)) (pr_acting r)"

definition with_acting_context :: "tool_policy_request \<Rightarrow> acting_context \<Rightarrow> tool_policy_request" where
  "with_acting_context r a = r\<lparr>pr_acting := Some a\<rparr>"

definition request_is_read_only :: "tool_policy_request \<Rightarrow> bool" where
  "request_is_read_only r \<longleftrightarrow> pr_effect r = ReadOnly"

definition request_with_effect :: "tool_policy_request \<Rightarrow> tool_effect \<Rightarrow> tool_policy_request" where
  "request_with_effect r e = r\<lparr>pr_effect := e\<rparr>"

definition with_read_only :: "tool_policy_request \<Rightarrow> bool \<Rightarrow> tool_policy_request" where
  "with_read_only r ro = request_with_effect r (if ro then ReadOnly else NonIdempotent)"

definition with_identity :: "tool_policy_request \<Rightarrow> string \<Rightarrow> string \<Rightarrow> string \<Rightarrow> tool_policy_request" where
  "with_identity r app user session = r\<lparr>pr_app_name := app, pr_user_id := user, pr_session_id := session\<rparr>"

record tool_origin =
  source :: string
  declaration_digest :: string

record policy_call =
  call_origin :: "tool_origin option"
  call_function_call_id :: "string option"

definition policy_call_new :: policy_call where
  "policy_call_new = \<lparr>call_origin = None, call_function_call_id = None\<rparr>"

text \<open>The default of \<^verbatim>\<open>evaluate_call\<close> is \<open>\<lambda>r _. tp_evaluate p r\<close>, that of \<^verbatim>\<open>policy_ref\<close> \<open>None\<close>.\<close>

record tool_policy =
  tp_evaluate :: "tool_policy_request \<Rightarrow> policy_decision"
  tp_evaluate_call :: "tool_policy_request \<Rightarrow> policy_call \<Rightarrow> policy_decision"
  tp_ref :: "string option"

section \<open>Predicates over the arguments\<close>

record json_lib =
  jl_pointer :: "json \<Rightarrow> string \<Rightarrow> json option"
  jl_as_f64 :: "json \<Rightarrow> f64 option"
  jl_eq :: "json \<Rightarrow> json \<Rightarrow> bool"

datatype arg_predicate =
  Equals string json
| InSet string "json list"
| AtMost string f64
| StartsWith string string
| DomainIn string "string list"

definition domain_in :: "string \<Rightarrow> string list \<Rightarrow> arg_predicate" where
  "domain_in pointer domains = DomainIn pointer (map (map ascii_lower) domains)"

text \<open>\<^verbatim>\<open>url_host\<close> in its two middle steps: the host before a numeric port, and the check of its characters.\<close>

definition authority_host :: "string \<Rightarrow> string option" where
  "authority_host authority =
     (case rsplit_once (CHR '':'') authority of
        Some (host, port) \<Rightarrow> if port \<noteq> [] \<and> list_all is_digit port then Some host else None
      | None \<Rightarrow> Some authority)"

definition valid_host :: "string \<Rightarrow> string option" where
  "valid_host raw =
     (let host = (case strip_suffix ''.'' raw of Some h \<Rightarrow> h | None \<Rightarrow> raw) in
      if host \<noteq> [] \<and> list_all host_char host \<and> [] \<notin> set (split_on (CHR ''.'') host) then Some host else None)"

definition url_host :: "string \<Rightarrow> string option" where
  "url_host url =
     (let lower = map ascii_lower url in
      case (case strip_prefix ''https://'' lower of Some r \<Rightarrow> Some r | None \<Rightarrow> strip_prefix ''http://'' lower) of
        None \<Rightarrow> None
      | Some rest \<Rightarrow>
          (let authority = takeWhile (\<lambda>c. c \<notin> set [CHR ''/'', CHR ''?'', CHR ''#'', CHR 0x5C]) rest;
               tail = dropWhile (\<lambda>c. c \<notin> set [CHR ''/'', CHR ''?'', CHR ''#'', CHR 0x5C]) rest in
           if tail \<noteq> [] \<and> hd tail = CHR 0x5C then None
           else Option.bind (authority_host authority) valid_host))"

definition domain_matches :: "string \<Rightarrow> string \<Rightarrow> bool" where
  "domain_matches domain host =
     (case strip_prefix ''*.'' domain of
        Some parent \<Rightarrow>
          (case strip_suffix parent host of Some sub \<Rightarrow> sub \<noteq> [] \<and> List.last sub = CHR ''.'' | None \<Rightarrow> False)
      | None \<Rightarrow> domain = host)"

fun predicate_holds :: "json_lib \<Rightarrow> arg_predicate \<Rightarrow> json \<Rightarrow> bool" where
  "predicate_holds jl (Equals ptr v) args = (case jl_pointer jl args ptr of Some a \<Rightarrow> jl_eq jl a v | None \<Rightarrow> False)"
| "predicate_holds jl (InSet ptr vs) args =
     (case jl_pointer jl args ptr of Some a \<Rightarrow> list_ex (\<lambda>v. jl_eq jl v a) vs | None \<Rightarrow> False)"
| "predicate_holds jl (AtMost ptr mx) args =
     (case Option.bind (jl_pointer jl args ptr) (jl_as_f64 jl) of Some a \<Rightarrow> f64_le a mx | None \<Rightarrow> False)"
| "predicate_holds jl (StartsWith ptr pre) args =
     (case Option.bind (jl_pointer jl args ptr) json_as_str of Some a \<Rightarrow> take (length pre) a = pre | None \<Rightarrow> False)"
| "predicate_holds jl (DomainIn ptr domains) args =
     (case Option.bind (Option.bind (jl_pointer jl args ptr) json_as_str) url_host of
        Some host \<Rightarrow> list_ex (\<lambda>d. domain_matches d host) domains | None \<Rightarrow> False)"

section \<open>Rules and declarative policies\<close>

record policy_rule =
  tool_pattern :: string
  agent_pattern :: "string option"
  rule_tenant :: "string option"
  rule_class :: "string option"
  rule_effect :: "tool_effect option"
  predicates :: "arg_predicate list"
  decision :: policy_decision

definition rule_new :: "string \<Rightarrow> policy_decision \<Rightarrow> policy_rule" where
  "rule_new pat d =
     \<lparr>tool_pattern = pat, agent_pattern = None, rule_tenant = None, rule_class = None, rule_effect = None,
      predicates = [], decision = d\<rparr>"

definition rule_allow :: "string \<Rightarrow> policy_rule" where
  "rule_allow pat = rule_new pat Allow"

definition rule_deny :: "string \<Rightarrow> string \<Rightarrow> policy_rule" where
  "rule_deny pat reason = rule_new pat (Deny reason)"

definition rule_require_approval :: "string \<Rightarrow> string \<Rightarrow> policy_rule" where
  "rule_require_approval pat reason = rule_new pat (RequireApproval reason)"

definition rule_when :: "policy_rule \<Rightarrow> arg_predicate \<Rightarrow> policy_rule" where
  "rule_when r p = r\<lparr>predicates := predicates r @ [p]\<rparr>"

definition rule_with_effect :: "policy_rule \<Rightarrow> tool_effect \<Rightarrow> policy_rule" where
  "rule_with_effect r e = r\<lparr>rule_effect := Some e\<rparr>"

definition read_only_tools :: "policy_rule \<Rightarrow> policy_rule" where
  "read_only_tools r = rule_with_effect r ReadOnly"

definition for_agent :: "policy_rule \<Rightarrow> string \<Rightarrow> policy_rule" where
  "for_agent r pat = r\<lparr>agent_pattern := Some pat\<rparr>"

definition for_tenant :: "policy_rule \<Rightarrow> string \<Rightarrow> policy_rule" where
  "for_tenant r t = r\<lparr>rule_tenant := Some t\<rparr>"

definition for_class :: "policy_rule \<Rightarrow> string \<Rightarrow> policy_rule" where
  "for_class r c = r\<lparr>rule_class := Some c\<rparr>"

definition identity_matches ::
    "agent_principal option \<Rightarrow> string option \<Rightarrow> (agent_principal \<Rightarrow> string option) \<Rightarrow> bool" where
  "identity_matches who required actual =
     (case required of None \<Rightarrow> True | Some r \<Rightarrow> Option.bind who actual = Some r)"

definition rule_matches :: "json_lib \<Rightarrow> policy_rule \<Rightarrow> tool_policy_request \<Rightarrow> bool" where
  "rule_matches jl rule r =
     (let who = map_option acting_agent (pr_acting r) in
      glob_matches (tool_pattern rule) (pr_tool_name r)
      \<and> (case agent_pattern rule of
           None \<Rightarrow> True
         | Some pat \<Rightarrow> (case who of Some p \<Rightarrow> glob_matches pat (agent_id p) | None \<Rightarrow> False))
      \<and> identity_matches who (rule_tenant rule) tenant
      \<and> identity_matches who (rule_class rule) class_name
      \<and> (case rule_effect rule of None \<Rightarrow> True | Some e \<Rightarrow> e = pr_effect r)
      \<and> list_all (\<lambda>p. predicate_holds jl p (pr_args r)) (predicates rule))"

record declarative_policy =
  rules :: "policy_rule list"
  default_decision :: "policy_decision option"
  policy_name :: "string option"

definition builder_default :: declarative_policy where
  "builder_default = \<lparr>rules = [], default_decision = None, policy_name = None\<rparr>"

definition builder_rule :: "declarative_policy \<Rightarrow> policy_rule \<Rightarrow> declarative_policy" where
  "builder_rule b r = b\<lparr>rules := rules b @ [r]\<rparr>"

definition builder_allow :: "declarative_policy \<Rightarrow> string \<Rightarrow> declarative_policy" where
  "builder_allow b pat = builder_rule b (rule_allow pat)"

definition builder_deny :: "declarative_policy \<Rightarrow> string \<Rightarrow> string \<Rightarrow> declarative_policy" where
  "builder_deny b pat reason = builder_rule b (rule_deny pat reason)"

definition builder_require_approval :: "declarative_policy \<Rightarrow> string \<Rightarrow> string \<Rightarrow> declarative_policy" where
  "builder_require_approval b pat reason = builder_rule b (rule_require_approval pat reason)"

definition allow_read_only :: "declarative_policy \<Rightarrow> declarative_policy" where
  "allow_read_only b = builder_rule b (read_only_tools (rule_allow ''*''))"

definition builder_default_decision :: "declarative_policy \<Rightarrow> policy_decision \<Rightarrow> declarative_policy" where
  "builder_default_decision b d = b\<lparr>default_decision := Some d\<rparr>"

definition builder_name :: "declarative_policy \<Rightarrow> string \<Rightarrow> declarative_policy" where
  "builder_name b n = b\<lparr>policy_name := Some n\<rparr>"

definition decide :: "json_lib \<Rightarrow> declarative_policy \<Rightarrow> tool_policy_request \<Rightarrow> policy_decision" where
  "decide jl p r =
     (case find (\<lambda>rule. rule_matches jl rule r) (rules p) of
        Some rule \<Rightarrow> decision rule
      | None \<Rightarrow>
          (case default_decision p of
             Some d \<Rightarrow> d
           | None \<Rightarrow> Deny (''no policy rule permits tool '' @ quoted (pr_tool_name r) @ ''; it is denied by default'')))"

definition declarative :: "json_lib \<Rightarrow> declarative_policy \<Rightarrow> tool_policy" where
  "declarative jl p =
     \<lparr>tp_evaluate = decide jl p, tp_evaluate_call = (\<lambda>r _. decide jl p r), tp_ref = policy_name p\<rparr>"

section \<open>Layers\<close>

fun strictest_eval :: "tool_policy list \<Rightarrow> tool_policy_request \<Rightarrow> policy_call \<Rightarrow> policy_decision \<Rightarrow> policy_decision" where
  "strictest_eval [] r c d = d"
| "strictest_eval (l # ls) r c d = strictest_eval ls r c (stricter d (tp_evaluate_call l r c))"

definition layer_refs :: "tool_policy list \<Rightarrow> string list" where
  "layer_refs ls = List.map_filter tp_ref ls"

fun join_refs :: "string list \<Rightarrow> string" where
  "join_refs [] = []"
| "join_refs [x] = x"
| "join_refs (x # y # xs) = x @ CHR ''+'' # join_refs (y # xs)"

definition strictest :: "tool_policy list \<Rightarrow> tool_policy" where
  "strictest ls =
     \<lparr>tp_evaluate = (\<lambda>r. strictest_eval ls r policy_call_new Allow),
      tp_evaluate_call = (\<lambda>r c. strictest_eval ls r c Allow),
      tp_ref = (if layer_refs ls \<noteq> [] then Some (join_refs (layer_refs ls)) else None)\<rparr>"

definition contains_ref :: "tool_policy list \<Rightarrow> string \<Rightarrow> bool" where
  "contains_ref ls ref =
     list_ex (\<lambda>layer_ref. layer_ref = ref \<or> list_ex (\<lambda>part. part = ref) (split_on (CHR ''+'') layer_ref)) (layer_refs ls)"

end
