(* ===== verification/Policy_Props.thy ===== *)
theory Policy_Props
  imports Policy
begin

text \<open>
  What tool policies guarantee: globs mean what they say, the first matching rule decides and nothing
  is allowed without one, layered policies take the strictest decision however they are nested, and a
  host condition holds only for URLs whose host every reader agrees on.
\<close>

section \<open>Globs\<close>

text \<open>C38: the matcher ends on every pattern and name, and on a name without a star character it decides
  exactly the meaning of the glob: a star matches any run of characters, a question mark one.\<close>

theorem glob_matches_correct:
  "(\<exists>b. glob_loop (utf8_chars pattern) (utf8_chars name) 0 0 None = Some b)
   \<and> (''*'' \<notin> set (utf8_chars name) \<longrightarrow>
        glob_matches pattern name = glob_spec (utf8_chars pattern) (utf8_chars name))"
  using glob_matches_result [of pattern name] by (auto simp: glob_matches_def)

theorem glob_matches_correct_witness:
  "glob_matches ''a*b?c'' ''aXbXbYc'' \<and> glob_spec (utf8_chars ''a*b?c'') (utf8_chars ''aXbXbYc'')"
proof -
  have "''*'' \<notin> set (utf8_chars ''aXbXbYc'')" and m: "glob_matches ''a*b?c'' ''aXbXbYc''" by code_simp+
  then show ?thesis using glob_matches_correct [of "''a*b?c''" "''aXbXbYc''"] by blast
qed

text \<open>A star in the name is taken for the pattern's star: the glob of any name does not match this one.\<close>

theorem glob_star_in_name:
  "\<not> glob_matches ''*'' ''*x'' \<and> glob_spec (utf8_chars ''*'') (utf8_chars ''*x'')"
proof -
  have "\<not> glob_matches ''*'' ''*x''" by code_simp
  moreover have "utf8_chars ''*'' = [''*'']" by code_simp
  ultimately show ?thesis by auto
qed

section \<open>Layers\<close>

lemma stricter_Allow [simp]: "stricter d Allow = d" "stricter Allow d = d"
  by (cases d; simp add: stricter_def)+

lemma stricter_assoc: "stricter (stricter a b) c = stricter a (stricter b c)"
  by (simp add: stricter_def)

lemma stricter_upper: "a \<le> stricter a b" "b \<le> stricter a b"
  by (auto simp: stricter_def less_eq_policy_decision_def)

lemma strictest_eval_start: "strictest_eval ls r c d = stricter d (strictest_eval ls r c Allow)"
proof (induction ls arbitrary: d)
  case (Cons l ls)
  show ?case
    using Cons [of "stricter d (tp_evaluate_call l r c)"] Cons [of "tp_evaluate_call l r c"]
    by (simp add: stricter_assoc)
qed simp

lemma strictest_eval_append:
  "strictest_eval (as @ bs) r c d = strictest_eval bs r c (strictest_eval as r c d)"
  by (induction as arbitrary: d) simp_all

lemma strictest_first:
  "(\<forall>l \<in> set ls. tp_evaluate_call l r c \<le> strictest_eval ls r c Allow)
   \<and> (strictest_eval ls r c Allow = Allow
      \<or> (\<exists>i < length ls. strictest_eval ls r c Allow = tp_evaluate_call (ls ! i) r c
           \<and> (\<forall>j < i. tp_evaluate_call (ls ! j) r c < strictest_eval ls r c Allow)))"
proof (induction ls)
  case (Cons l ls)
  define e where "e = tp_evaluate_call l r c"
  define s where "s = strictest_eval ls r c Allow"
  have step: "strictest_eval (l # ls) r c Allow = stricter e s"
    using strictest_eval_start [of ls r c e] by (simp add: e_def s_def)
  have up: "\<forall>k \<in> set (l # ls). tp_evaluate_call k r c \<le> stricter e s"
  proof
    fix k assume "k \<in> set (l # ls)"
    then consider "k = l" | "k \<in> set ls" by auto
    then show "tp_evaluate_call k r c \<le> stricter e s"
    proof cases
      case 1
      then show ?thesis using stricter_upper(1) [of e s] by (simp add: e_def)
    next
      case 2
      then have "tp_evaluate_call k r c \<le> s" using Cons by (simp add: s_def)
      then show ?thesis using stricter_upper(2) by (rule order_trans)
    qed
  qed
  have first: "stricter e s = Allow \<or> (\<exists>i < length (l # ls). stricter e s = tp_evaluate_call ((l # ls) ! i) r c
      \<and> (\<forall>j < i. tp_evaluate_call ((l # ls) ! j) r c < stricter e s))"
  proof (cases "severity s > severity e")
    case True
    then have "stricter e s = s" "s \<noteq> Allow" by (auto simp: stricter_def)
    moreover from this obtain i where "i < length ls" "s = tp_evaluate_call (ls ! i) r c"
      "\<forall>j < i. tp_evaluate_call (ls ! j) r c < s"
      using Cons by (auto simp: s_def)
    ultimately show ?thesis
      using True by (intro disjI2 exI [of _ "Suc i"]) (auto simp: less_Suc_eq_0_disj e_def less_policy_decision_def)
  next
    case False
    then have "stricter e s = e" by (simp add: stricter_def)
    then show ?thesis by (intro disjI2 exI [of _ 0]) (simp add: e_def)
  qed
  show ?case unfolding step using up first by blast
qed simp

text \<open>layered policies decide as strictly as their strictest layer: no layer is stricter than the
  decision, and a decision other than allow is the one of the first layer that strict.\<close>

theorem strictest_decides:
  "(\<forall>l \<in> set ls. tp_evaluate_call l r c \<le> tp_evaluate_call (strictest ls) r c)
   \<and> (tp_evaluate_call (strictest ls) r c = Allow
      \<or> (\<exists>i < length ls. tp_evaluate_call (strictest ls) r c = tp_evaluate_call (ls ! i) r c
           \<and> (\<forall>j < i. tp_evaluate_call (ls ! j) r c < tp_evaluate_call (strictest ls) r c)))"
  using strictest_first [of ls r c] by (simp add: strictest_def)

definition plain_json :: json_lib where
  "plain_json = \<lparr>jl_pointer = (\<lambda>v p. case p of [] \<Rightarrow> Some v | _ # k \<Rightarrow> json_get v k),
     jl_as_f64 = (\<lambda>_. None), jl_eq = (=)\<rparr>"

definition ops_policy :: declarative_policy where
  "ops_policy = builder_allow builder_default ''*''"

definition harness_policy :: declarative_policy where
  "harness_policy = builder_allow (builder_deny builder_default ''bash'' ''no shell'') ''*''"

lemma demo_decisions:
  "decide plain_json ops_policy (request_new ''bash'' JNull) = Allow"
  "decide plain_json harness_policy (request_new ''bash'' JNull) = Deny ''no shell''"
  by (code_simp, code_simp)

theorem strictest_decides_witness:
  "Deny ''no shell'' \<le> tp_evaluate_call (strictest [declarative plain_json ops_policy, declarative plain_json harness_policy])
     (request_new ''bash'' JNull) policy_call_new"
  using strictest_decides [of "[declarative plain_json ops_policy, declarative plain_json harness_policy]"
      "request_new ''bash'' JNull" policy_call_new]
  by (simp add: declarative_def demo_decisions)

text \<open>nesting does not matter: a layer that is itself layered decides as its layers in its place.\<close>

theorem strictest_nested:
  "tp_evaluate_call (strictest (as @ strictest bs # cs)) r c = tp_evaluate_call (strictest (as @ bs @ cs)) r c"
proof -
  note nested = strictest_eval_start [of bs r c "strictest_eval as r c Allow", symmetric]
  show ?thesis by (simp add: strictest_def strictest_eval_append nested)
qed

text \<open>The reference of a policy whose name contains a plus sign is taken for several layers.\<close>

theorem contains_ref_of_joined_name:
  "contains_ref [declarative jl (builder_name builder_default ''ops+adk-harness'')] ''adk-harness''"
  by (simp add: contains_ref_def layer_refs_def declarative_def builder_name_def builder_default_def
      List.map_filter_def)

section \<open>Rule lists\<close>

lemma find_first: "find P xs = Some x \<Longrightarrow> \<exists>i < length xs. x = xs ! i \<and> P x \<and> (\<forall>j < i. \<not> P (xs ! j))"
  by (auto simp: find_Some_iff)

text \<open>nothing runs without a rule: under the default decision an allowed call has a rule that
  matches it and allows it, and no rule before that one matches it.\<close>

theorem allowed_by_first_rule:
  assumes "default_decision p = None" and "decide jl p r = Allow"
  shows "\<exists>i < length (rules p). rule_matches jl (rules p ! i) r \<and> decision (rules p ! i) = Allow
    \<and> (\<forall>j < i. \<not> rule_matches jl (rules p ! j) r)"
  using assms find_first [of "\<lambda>rule. rule_matches jl rule r" "rules p"]
  by (auto simp: decide_def split: option.splits)

theorem allowed_by_first_rule_witness:
  "\<exists>i. i < length (rules harness_policy)
     \<and> rule_matches plain_json (rules harness_policy ! i) (request_new ''ls'' JNull)
     \<and> decision (rules harness_policy ! i) = Allow"
proof -
  have "decide plain_json harness_policy (request_new ''ls'' JNull) = Allow" by code_simp
  moreover have "default_decision harness_policy = None"
    by (simp add: harness_policy_def builder_allow_def builder_deny_def builder_rule_def builder_default_def)
  ultimately show ?thesis using allowed_by_first_rule by blast
qed

text \<open>A deny rule over a prefix is missed by a name that has a star after the prefix.\<close>

theorem deny_rule_missed:
  "decide plain_json (builder_default_decision (builder_deny builder_default ''delete_*'' ''no'') Allow)
     (request_new ''delete_*_all'' JNull) = Allow"
  by code_simp

section \<open>Hosts\<close>

lemma strip_prefix_Some: "strip_prefix pre s = Some r \<longleftrightarrow> s = pre @ r"
  by (auto simp: strip_prefix_def) (metis append_take_drop_id)

lemma strip_suffix_Some: "strip_suffix suf s = Some r \<longleftrightarrow> s = r @ suf"
  by (auto simp: strip_suffix_def strip_prefix_Some) (metis rev_append rev_rev_ident)+

lemma rsplit_once_Some: "rsplit_once c s = Some (a, b) \<Longrightarrow> s = a @ c # b"
proof -
  assume s: "rsplit_once c s = Some (a, b)"
  then have c: "c \<in> set s" by (auto simp: rsplit_once_def split: if_splits)
  let ?P = "\<lambda>d. d \<noteq> c"
  have "dropWhile ?P (rev s) \<noteq> []" using c by (simp add: dropWhile_eq_Nil_conv)
  then have "dropWhile ?P (rev s) = c # tl (dropWhile ?P (rev s))"
    using hd_dropWhile [of ?P "rev s"] by (metis list.collapse)
  then have "rev s = takeWhile ?P (rev s) @ c # tl (dropWhile ?P (rev s))"
    by (metis takeWhile_dropWhile_id)
  then have "s = rev (tl (dropWhile ?P (rev s))) @ c # rev (takeWhile ?P (rev s))"
    by (metis append_Cons append_Nil append_assoc rev.simps(2) rev_append rev_rev_ident)
  then show ?thesis using s by (auto simp: rsplit_once_def split: if_splits)
qed

definition url_reads_as :: "string \<Rightarrow> string \<Rightarrow> bool" where
  "url_reads_as url host \<longleftrightarrow> (\<exists>scheme dot port tail.
     map ascii_lower url = scheme @ host @ dot @ port @ tail
     \<and> scheme \<in> {''https://'', ''http://''} \<and> dot \<in> {[], ''.''}
     \<and> (port = [] \<or> (\<exists>ds. port = CHR '':'' # ds \<and> ds \<noteq> [] \<and> list_all is_digit ds))
     \<and> (tail = [] \<or> hd tail \<in> {CHR ''/'', CHR ''?'', CHR ''#''})
     \<and> host \<noteq> [] \<and> list_all host_char host \<and> [] \<notin> set (split_on (CHR ''.'') host))"

lemma authority_host_Some:
  assumes "authority_host a = Some h"
  obtains port where "a = h @ port" and "port = [] \<or> (\<exists>ds. port = CHR '':'' # ds \<and> ds \<noteq> [] \<and> list_all is_digit ds)"
proof (cases "rsplit_once (CHR '':'') a")
  case None
  then show ?thesis using assms that [of "[]"] by (simp add: authority_host_def)
next
  case (Some hp)
  obtain p where hp: "hp = (h, p)" "p \<noteq> []" "list_all is_digit p"
    using assms Some by (cases hp) (auto simp: authority_host_def split: if_splits)
  then have "a = h @ CHR '':'' # p" using Some by (intro rsplit_once_Some) simp
  then show ?thesis using that [of "CHR '':'' # p"] hp(2,3) by simp
qed

lemma valid_host_Some:
  assumes "valid_host raw = Some host"
  shows "raw \<in> {host, host @ ''.''} \<and> host \<noteq> [] \<and> list_all host_char host \<and> [] \<notin> set (split_on (CHR ''.'') host)"
  using assms by (auto simp: valid_host_def Let_def strip_suffix_Some split: if_splits option.splits)

lemma url_host_reads:
  assumes "url_host url = Some host"
  shows "url_reads_as url host"
proof -
  let ?P = "\<lambda>c. c \<notin> set [CHR ''/'', CHR ''?'', CHR ''#'', CHR 0x5C]"
  define lower where "lower = map ascii_lower url"
  define stripped where "stripped = (case strip_prefix ''https://'' lower of Some r \<Rightarrow> Some r | None \<Rightarrow> strip_prefix ''http://'' lower)"
  note found = assms [unfolded url_host_def Let_def, folded lower_def, folded stripped_def]
  from found obtain rest where some: "stripped = Some rest" by (cases stripped) simp_all
  then obtain scheme where rest: "lower = scheme @ rest" "scheme \<in> {''https://'', ''http://''}"
    by (cases "strip_prefix ''https://'' lower") (auto simp: stripped_def strip_prefix_Some)
  define authority tail where "authority = takeWhile ?P rest" and "tail = dropWhile ?P rest"
  have r: "rest = authority @ tail" by (simp add: authority_def tail_def)
  have fst_tail: "tail \<noteq> [] \<Longrightarrow> \<not> ?P (hd tail)" unfolding tail_def by (rule hd_dropWhile)
  have u: "(if tail \<noteq> [] \<and> hd tail = CHR 0x5C then None else Option.bind (authority_host authority) valid_host) = Some host"
    using found unfolding Let_def authority_def tail_def some option.case .
  then have t: "tail = [] \<or> hd tail \<in> {CHR ''/'', CHR ''?'', CHR ''#''}"
    using fst_tail by (auto split: if_splits)
  obtain h where h: "authority_host authority = Some h" "valid_host h = Some host"
    using u by (auto simp: bind_eq_Some_conv split: if_splits)
  obtain port where port: "authority = h @ port"
    "port = [] \<or> (\<exists>ds. port = CHR '':'' # ds \<and> ds \<noteq> [] \<and> list_all is_digit ds)"
    using h(1) by (rule authority_host_Some)
  obtain dot where "h = host @ dot" "dot \<in> {[], ''.''}" using valid_host_Some [OF h(2)] by auto
  then have "lower = scheme @ host @ dot @ port @ tail" using rest(1) r port(1) by simp
  then show ?thesis
    unfolding url_reads_as_def lower_def [symmetric]
    using rest(2) \<open>dot \<in> {[], ''.''}\<close> port(2) t valid_host_Some [OF h(2)] by blast
qed

lemma domain_matches_cases:
  assumes "domain_matches d host" and "[] \<notin> set (split_on (CHR ''.'') host)"
  shows "d = host \<or> (\<exists>sub parent. d = ''*.'' @ parent \<and> host = sub @ ''.'' @ parent \<and> sub \<noteq> [])"
proof (cases "strip_prefix ''*.'' d")
  case None
  then show ?thesis using assms(1) by (simp add: domain_matches_def)
next
  case (Some parent)
  then obtain s where s: "host = s @ parent" "s \<noteq> []" "last s = CHR ''.''"
    using assms(1) by (auto simp: domain_matches_def strip_suffix_Some split: option.splits)
  then have "host = butlast s @ ''.'' @ parent" by (metis append_butlast_last_id append_assoc)
  moreover have "butlast s \<noteq> []"
    using assms(2) \<open>host = butlast s @ ''.'' @ parent\<close> by auto
  ultimately show ?thesis using Some by (auto simp: strip_prefix_Some)
qed

text \<open>C39: a host condition holds only for an argument that reads one way: a URL of scheme \<^verbatim>\<open>http\<close> or
  \<^verbatim>\<open>https\<close>, then a host of plain nonempty labels, then at most a dot, a numeric port and a path,
  query or fragment; and the host is an entry or a proper subdomain of a starred one.\<close>

theorem domain_in_sound:
  assumes "predicate_holds jl (DomainIn ptr ds) args"
  shows "\<exists>url host d. jl_pointer jl args ptr = Some (JString url) \<and> url_reads_as url host \<and> d \<in> set ds
    \<and> (d = host \<or> (\<exists>sub parent. d = ''*.'' @ parent \<and> host = sub @ ''.'' @ parent \<and> sub \<noteq> []))"
proof -
  obtain v url host d where v: "jl_pointer jl args ptr = Some v" "json_as_str v = Some url" "url_host url = Some host"
    "d \<in> set ds" "domain_matches d host"
    using assms by (auto simp: list_ex_iff split: option.splits bind_splits)
  have "v = JString url" using v(2) by (cases v) simp_all
  moreover have reads: "url_reads_as url host" using v(3) by (rule url_host_reads)
  then have "[] \<notin> set (split_on (CHR ''.'') host)" by (auto simp: url_reads_as_def)
  ultimately show ?thesis using v domain_matches_cases reads by blast
qed

theorem domain_in_sound_witness:
  "(\<exists>url host d. json_get (JObject [(''url'', JString ''https://API.docs.rs:80/x@y'')]) ''url'' = Some (JString url)
      \<and> url_reads_as url host \<and> d \<in> {''*.docs.rs''}
      \<and> (d = host \<or> (\<exists>sub parent. d = ''*.'' @ parent \<and> host = sub @ ''.'' @ parent \<and> sub \<noteq> [])))
   \<and> \<not> predicate_holds plain_json (DomainIn ''/url'' [''docs.rs'']) (JObject [(''url'', JString ''https://docs.rs@evil.test/'')])"
proof -
  have "predicate_holds plain_json (DomainIn ''/url'' [''*.docs.rs'']) (JObject [(''url'', JString ''https://API.docs.rs:80/x@y'')])"
    "\<not> predicate_holds plain_json (DomainIn ''/url'' [''docs.rs'']) (JObject [(''url'', JString ''https://docs.rs@evil.test/'')])"
    by code_simp+
  then show ?thesis using domain_in_sound [of plain_json "''/url''" "[''*.docs.rs'']"] by (fastforce simp: plain_json_def)
qed

end
