(* ===== verification/Approval_Store.thy ===== *)
theory Approval_Store
  imports Policy
begin

text \<open>
  Approvals of held tool calls: \<^verbatim>\<open>ToolConfirmationRequest\<close> and its fingerprint (\<^verbatim>\<open>adk-core/src/context.rs\<close>),
  \<^verbatim>\<open>ToolApproval\<close> and the process-local \<^verbatim>\<open>InMemoryApprovalStore\<close> (\<^verbatim>\<open>adk-core/src/governance.rs\<close>), which
  keeps the pending requests and the decisions of a scope. A decision is taken once.
\<close>

section \<open>Requests and their fingerprints\<close>

record confirmation_request =
  cr_tool_name :: string
  cr_function_call_id :: "string option"
  cr_args :: json
  cr_acting :: "acting_context option"
  cr_origin :: "tool_origin option"

definition confirmation_request_new :: "string \<Rightarrow> json \<Rightarrow> confirmation_request" where
  "confirmation_request_new tool args =
     \<lparr>cr_tool_name = tool, cr_function_call_id = None, cr_args = args, cr_acting = None, cr_origin = None\<rparr>"

definition cr_with_origin :: "confirmation_request \<Rightarrow> tool_origin \<Rightarrow> confirmation_request" where
  "cr_with_origin r orig = r\<lparr>cr_origin := Some orig\<rparr>"

definition cr_with_function_call_id :: "confirmation_request \<Rightarrow> string \<Rightarrow> confirmation_request" where
  "cr_with_function_call_id r i = r\<lparr>cr_function_call_id := Some i\<rparr>"

definition cr_with_acting_context :: "confirmation_request \<Rightarrow> acting_context \<Rightarrow> confirmation_request" where
  "cr_with_acting_context r a = r\<lparr>cr_acting := Some a\<rparr>"

definition unit_separator :: char where
  "unit_separator = CHR 0x1F"

definition tool_call_fingerprint :: "(string \<Rightarrow> string) \<Rightarrow> string \<Rightarrow> json \<Rightarrow> string" where
  "tool_call_fingerprint esc tool args = tool @ unit_separator # write_canonical esc args"

text \<open>\<^verbatim>\<open>char::is_control\<close> on a character's bytes: the C0 range, delete, and the C1 range.\<close>

fun is_control :: "string \<Rightarrow> bool" where
  "is_control [] = False"
| "is_control (c # cs) =
     ((of_char c :: nat) < 32 \<or> (of_char c :: nat) = 127
      \<or> (of_char c :: nat) = 0xC2 \<and> (\<exists>d ds. cs = d # ds \<and> 128 \<le> (of_char d :: nat) \<and> (of_char d :: nat) < 160))"

definition clean_text :: "string \<Rightarrow> string" where
  "clean_text part =
     concat (map (\<lambda>c. if is_control c then [CHR 0xEF, CHR 0xBF, CHR 0xBD] else c) (utf8_chars part))"

definition fingerprint :: "(string \<Rightarrow> string) \<Rightarrow> confirmation_request \<Rightarrow> string" where
  "fingerprint esc r =
     (case cr_acting r of Some a \<Rightarrow> clean_text (agent_id (acting_agent a)) | None \<Rightarrow> [])
     @ unit_separator
     # (case cr_origin r of
          Some orig \<Rightarrow> clean_text (source orig) @ unit_separator # clean_text (declaration_digest orig)
        | None \<Rightarrow> [unit_separator])
     @ unit_separator # tool_call_fingerprint esc (cr_tool_name r) (cr_args r)"

section \<open>Approvals\<close>

datatype confirmation_decision = ApproveCall | DenyCall

record tool_approval =
  ta_decision :: confirmation_decision
  ta_expires_at :: "instant option"
  ta_edited_args :: "json option"
  ta_message :: "string option"

definition approval_approve :: tool_approval where
  "approval_approve = \<lparr>ta_decision = ApproveCall, ta_expires_at = None, ta_edited_args = None, ta_message = None\<rparr>"

definition approval_deny :: tool_approval where
  "approval_deny = \<lparr>ta_decision = DenyCall, ta_expires_at = None, ta_edited_args = None, ta_message = None\<rparr>"

definition with_edited_args :: "tool_approval \<Rightarrow> json \<Rightarrow> tool_approval" where
  "with_edited_args a args = a\<lparr>ta_edited_args := Some args\<rparr>"

definition with_message :: "tool_approval \<Rightarrow> string \<Rightarrow> tool_approval" where
  "with_message a m = a\<lparr>ta_message := Some m\<rparr>"

definition approval_expires_at :: "tool_approval \<Rightarrow> instant \<Rightarrow> tool_approval" where
  "approval_expires_at a t = a\<lparr>ta_expires_at := Some t\<rparr>"

definition approval_expires_in :: "chrono \<Rightarrow> instant \<Rightarrow> tool_approval \<Rightarrow> dur \<Rightarrow> tool_approval" where
  "approval_expires_in ch now a d =
     (let ttl = (case from_std ch d of Some x \<Rightarrow> x | None \<Rightarrow> delta_max ch)
      in approval_expires_at a (case checked_add_signed ch now ttl of Some t \<Rightarrow> t | None \<Rightarrow> max_utc ch))"

definition is_live :: "tool_approval \<Rightarrow> instant \<Rightarrow> bool" where
  "is_live a now \<longleftrightarrow> (case ta_expires_at a of None \<Rightarrow> True | Some t \<Rightarrow> now < t)"

section \<open>The store\<close>

record approval_scope =
  as_app_name :: string
  as_user_id :: string
  as_session_id :: string

record pending_approval =
  pa_fingerprint :: string
  pa_request :: confirmation_request
  pa_requested_at :: instant

record scope_approvals =
  sa_pending :: "(string, pending_approval) table"
  sa_decisions :: "(string, tool_approval) table"

type_synonym approval_store = "(approval_scope, scope_approvals) table"

definition scope_entries :: "approval_store \<Rightarrow> approval_scope \<Rightarrow> scope_approvals" where
  "scope_entries st sc = (case lookup st sc of Some e \<Rightarrow> e | None \<Rightarrow> \<lparr>sa_pending = [], sa_decisions = []\<rparr>)"

definition store_record_pending ::
    "(string \<Rightarrow> string) \<Rightarrow> instant \<Rightarrow> approval_scope \<Rightarrow> confirmation_request \<Rightarrow> approval_store \<Rightarrow> approval_store" where
  "store_record_pending esc now sc r st =
     (let fp = fingerprint esc r; e = scope_entries st sc in
      AList.update sc
        (case lookup (sa_pending e) fp of
           Some _ \<Rightarrow> e
         | None \<Rightarrow> e\<lparr>sa_pending := AList.update fp
             \<lparr>pa_fingerprint = fp, pa_request = r, pa_requested_at = now\<rparr> (sa_pending e)\<rparr>) st)"

definition store_pending :: "approval_store \<Rightarrow> approval_scope \<Rightarrow> pending_approval list" where
  "store_pending st sc =
     sort_key pa_requested_at (case lookup st sc of Some e \<Rightarrow> map snd (sa_pending e) | None \<Rightarrow> [])"

definition store_decide :: "approval_scope \<Rightarrow> string \<Rightarrow> tool_approval \<Rightarrow> approval_store \<Rightarrow> approval_store" where
  "store_decide sc fp a st =
     (let e = scope_entries st sc in
      AList.update sc \<lparr>sa_pending = AList.delete fp (sa_pending e), sa_decisions = AList.update fp a (sa_decisions e)\<rparr> st)"

definition take_approval :: "instant \<Rightarrow> approval_scope \<Rightarrow> string \<Rightarrow> approval_store \<Rightarrow> tool_approval option \<times> approval_store" where
  "take_approval now sc fp st =
     (case lookup st sc of
        None \<Rightarrow> (None, st)
      | Some e \<Rightarrow>
          ((case lookup (sa_decisions e) fp of Some a \<Rightarrow> if is_live a now then Some a else None | None \<Rightarrow> None),
           AList.update sc (e\<lparr>sa_decisions := AList.delete fp (sa_decisions e)\<rparr>) st))"

definition take_decision ::
    "instant \<Rightarrow> approval_scope \<Rightarrow> string \<Rightarrow> approval_store \<Rightarrow> confirmation_decision option \<times> approval_store" where
  "take_decision now sc fp st = (let (a, st') = take_approval now sc fp st in (map_option ta_decision a, st'))"

definition has_decision :: "instant \<Rightarrow> approval_scope \<Rightarrow> string \<Rightarrow> approval_store \<Rightarrow> bool" where
  "has_decision now sc fp st \<longleftrightarrow>
     (case Option.bind (lookup st sc) (\<lambda>e. lookup (sa_decisions e) fp) of Some a \<Rightarrow> is_live a now | None \<Rightarrow> False)"

definition held_decision :: "approval_store \<Rightarrow> approval_scope \<Rightarrow> string \<Rightarrow> tool_approval option" where
  "held_decision st sc fp = lookup (sa_decisions (scope_entries st sc)) fp"

lemma held_decision_steps [view_simps]:
  "held_decision (store_record_pending esc now sc r st) sc' fp = held_decision st sc' fp"
  "held_decision (store_decide sc f a st) sc' fp = (if sc' = sc \<and> fp = f then Some a else held_decision st sc' fp)"
  "held_decision (snd (take_approval now sc f st)) sc' fp = (if sc' = sc \<and> fp = f then None else held_decision st sc' fp)"
  by (auto simp: held_decision_def store_record_pending_def store_decide_def take_approval_def scope_entries_def Let_def
      split: option.splits)

lemma taken_held: "fst (take_approval now sc fp st) = Some a \<Longrightarrow> held_decision st sc fp = Some a \<and> is_live a now"
  by (auto simp: take_approval_def held_decision_def scope_entries_def split: option.splits if_splits)

section \<open>A decision is used once\<close>

text \<open>What approvers and the runs of a scope do with the store.\<close>

datatype store_op =
  StRecord instant approval_scope confirmation_request
| StDecide approval_scope string tool_approval
| StTake instant approval_scope string

fun store_exec :: "(string \<Rightarrow> string) \<Rightarrow> approval_store \<Rightarrow> store_op \<Rightarrow> approval_store" where
  "store_exec esc st (StRecord now sc r) = store_record_pending esc now sc r st"
| "store_exec esc st (StDecide sc fp a) = store_decide sc fp a st"
| "store_exec esc st (StTake now sc fp) = snd (take_approval now sc fp st)"

fun takes :: "approval_scope \<Rightarrow> string \<Rightarrow> approval_store \<Rightarrow> store_op \<Rightarrow> nat" where
  "takes sc fp st (StTake now sc' fp') =
     (if sc' = sc \<and> fp' = fp \<and> fst (take_approval now sc' fp' st) \<noteq> None then 1 else 0)"
| "takes sc fp st _ = 0"

fun decides :: "approval_scope \<Rightarrow> string \<Rightarrow> store_op \<Rightarrow> nat" where
  "decides sc fp (StDecide sc' fp' a) = (if sc' = sc \<and> fp' = fp then 1 else 0)"
| "decides sc fp _ = 0"

fun total_takes :: "(string \<Rightarrow> string) \<Rightarrow> approval_scope \<Rightarrow> string \<Rightarrow> approval_store \<Rightarrow> store_op list \<Rightarrow> nat" where
  "total_takes esc sc fp st [] = 0"
| "total_takes esc sc fp st (op # ops) = takes sc fp st op + total_takes esc sc fp (store_exec esc st op) ops"

abbreviation held_count :: "approval_store \<Rightarrow> approval_scope \<Rightarrow> string \<Rightarrow> nat" where
  "held_count st sc fp \<equiv> (if held_decision st sc fp = None then 0 else 1)"

lemma store_step_count: "takes sc fp st op + held_count (store_exec esc st op) sc fp \<le> held_count st sc fp + decides sc fp op"
  by (cases op) (auto simp: view_simps dest: taken_held)

lemma takes_bounded: "total_takes esc sc fp st ops \<le> held_count st sc fp + sum_list (map (decides sc fp) ops)"
proof (induction ops arbitrary: st)
  case (Cons op ops)
  show ?case using Cons [of "store_exec esc st op"] store_step_count [of sc fp st op esc] by simp
qed simp

text \<open>a decision authorizes one call: in any history of the store, over any interleaving of runs and
  approvers, the calls answered with a decision for a request are at most as many as the decisions
  approvers gave for it.\<close>

theorem decisions_spent_once:
  "total_takes esc sc fp [] ops \<le> sum_list (map (decides sc fp) ops)"
  using takes_bounded [of esc sc fp "[]" ops] by (simp add: held_decision_def scope_entries_def)

section \<open>What a fingerprint binds\<close>

lemma set_utf8_chars: "c \<in> set x \<Longrightarrow> x \<in> set (utf8_chars s) \<Longrightarrow> x \<noteq> [] \<and> (c = hd x \<or> continuation_byte c)"
  by (induction s rule: utf8_chars.induct) (auto dest: set_takeWhileD)

lemma clean_no_separator: "unit_separator \<notin> set (clean_text s)"
proof
  assume "unit_separator \<in> set (clean_text s)"
  then obtain x where x: "x \<in> set (utf8_chars s)" "\<not> is_control x" "unit_separator \<in> set x"
    by (auto simp: clean_text_def unit_separator_def split: if_splits)
  have "\<not> continuation_byte unit_separator" by (simp add: continuation_byte_def unit_separator_def)
  then have "x \<noteq> []" "hd x = unit_separator" using set_utf8_chars [OF x(3,1)] by auto
  then show False using x(2) by (cases x) (auto simp: unit_separator_def)
qed

lemma split_first:
  assumes "x @ c # y = x' @ c # y'" and "c \<notin> set x" and "c \<notin> set x'"
  shows "x = x' \<and> y = y'"
  using assms by (auto simp: append_eq_append_conv2 Cons_eq_append_conv append_eq_Cons_conv)

lemma split_final:
  assumes "x @ c # y = x' @ c # y'" and "c \<notin> set y" and "c \<notin> set y'"
  shows "x = x' \<and> y = y'"
  using assms by (auto simp: append_eq_append_conv2 Cons_eq_append_conv append_eq_Cons_conv)

definition bound_agent :: "confirmation_request \<Rightarrow> string" where
  "bound_agent r = (case cr_acting r of Some a \<Rightarrow> clean_text (agent_id (acting_agent a)) | None \<Rightarrow> [])"

definition bound_origin :: "confirmation_request \<Rightarrow> string \<times> string" where
  "bound_origin r =
     (case cr_origin r of Some orig \<Rightarrow> (clean_text (source orig), clean_text (declaration_digest orig)) | None \<Rightarrow> ([], []))"

lemma fingerprint_parts:
  "fingerprint esc r = bound_agent r @ unit_separator # fst (bound_origin r) @ unit_separator # snd (bound_origin r)
     @ unit_separator # cr_tool_name r @ unit_separator # write_canonical esc (cr_args r)"
  by (simp add: fingerprint_def bound_agent_def bound_origin_def tool_call_fingerprint_def split: option.split)

lemma bound_clean:
  "unit_separator \<notin> set (bound_agent r)" "unit_separator \<notin> set (fst (bound_origin r))"
  "unit_separator \<notin> set (snd (bound_origin r))"
  by (auto simp: bound_agent_def bound_origin_def clean_no_separator split: option.splits)

text \<open>an approval binds to the call it was given for: requests with one fingerprint were made by the
  same agent to the same tool of the same publisher and declaration, with the same canonical
  arguments, however their parts try to forge the separators.\<close>

theorem fingerprint_binds:
  assumes "fingerprint esc r = fingerprint esc r'"
    and "unit_separator \<notin> set (write_canonical esc (cr_args r))" and "unit_separator \<notin> set (write_canonical esc (cr_args r'))"
  shows "bound_agent r = bound_agent r' \<and> bound_origin r = bound_origin r' \<and> cr_tool_name r = cr_tool_name r'
    \<and> write_canonical esc (cr_args r) = write_canonical esc (cr_args r')"
proof -
  note eq = assms(1) [unfolded fingerprint_parts]
  from split_first [OF eq bound_clean(1) bound_clean(1)]
  have a: "bound_agent r = bound_agent r'" and eq1: "fst (bound_origin r) @ unit_separator # snd (bound_origin r)
      @ unit_separator # cr_tool_name r @ unit_separator # write_canonical esc (cr_args r)
    = fst (bound_origin r') @ unit_separator # snd (bound_origin r')
      @ unit_separator # cr_tool_name r' @ unit_separator # write_canonical esc (cr_args r')" by simp_all
  from split_first [OF eq1 bound_clean(2) bound_clean(2)]
  have o1: "fst (bound_origin r) = fst (bound_origin r')" and eq2: "snd (bound_origin r)
      @ unit_separator # cr_tool_name r @ unit_separator # write_canonical esc (cr_args r)
    = snd (bound_origin r') @ unit_separator # cr_tool_name r' @ unit_separator # write_canonical esc (cr_args r')" by simp_all
  from split_first [OF eq2 bound_clean(3) bound_clean(3)]
  have o2: "snd (bound_origin r) = snd (bound_origin r')" and eq3: "cr_tool_name r @ unit_separator # write_canonical esc (cr_args r)
    = cr_tool_name r' @ unit_separator # write_canonical esc (cr_args r')" by simp_all
  from split_final [OF eq3 assms(2,3)] show ?thesis using a o1 o2 by (simp add: prod_eq_iff)
qed

theorem fingerprint_binds_witness:
  "cr_tool_name (confirmation_request_new (''pay'' @ [unit_separator]) JNull) = ''pay'' @ [unit_separator]
   \<and> bound_agent (cr_with_function_call_id (confirmation_request_new (''pay'' @ [unit_separator]) JNull) ''c1'')
       = bound_agent (confirmation_request_new (''pay'' @ [unit_separator]) JNull)"
  using fingerprint_binds [of id "cr_with_function_call_id (confirmation_request_new (''pay'' @ [unit_separator]) JNull) ''c1''"
      "confirmation_request_new (''pay'' @ [unit_separator]) JNull"]
  by (simp add: cr_with_function_call_id_def confirmation_request_new_def fingerprint_def unit_separator_def)

end
