(* ===== verification/Merkle.thy ===== *)
theory Merkle
  imports Prelude
begin

unbundle bit_operations_syntax

text \<open>
  The Merkle tree of the signed audit log: \<^verbatim>\<open>AuditHash\<close> (\<^verbatim>\<open>adk-core/src/audit_log.rs\<close>), the hashes, the proofs and
  their verification, and the writer's frontier (\<^verbatim>\<open>adk-auth/src/signed_audit/merkle.rs\<close>). SHA-256 is a
  parameter; a hash is its 32 bytes as one big-endian word. Sizes and positions are \<open>nat\<close>: each is at most
  the size of a log that holds that many records, a \<^verbatim>\<open>u64\<close>, and where a bound matters it is a hypothesis.
\<close>

section \<open>Hashes\<close>

type_synonym byte = "8 word"
type_synonym audit_hash = "256 word"
type_synonym sha256 = "byte list \<Rightarrow> audit_hash"

definition hash_bytes :: "audit_hash \<Rightarrow> byte list" where
  "hash_bytes h = map (\<lambda>i. ucast (drop_bit (8 * (31 - i)) h)) [0..<32]"

definition hash_of_bytes :: "byte list \<Rightarrow> audit_hash" where
  "hash_of_bytes bs = word_rcat bs"

definition text_bytes :: "string \<Rightarrow> byte list" where
  "text_bytes s = map of_char s"

definition hex_digit :: "byte \<Rightarrow> char" where
  "hex_digit d = (if d < 10 then char_of (unat d + 48) else char_of (unat d + 87))"

definition hash_text :: "audit_hash \<Rightarrow> string" where
  "hash_text h = concat (map (\<lambda>b. [hex_digit (drop_bit 4 b), hex_digit (b AND 15)]) (hash_bytes h))"

definition hex_value :: "char \<Rightarrow> byte option" where
  "hex_value c =
     (let n = of_char c :: nat in
      if 48 \<le> n \<and> n \<le> 57 then Some (of_nat (n - 48))
      else if 97 \<le> n \<and> n \<le> 102 then Some (of_nat (n - 97 + 10))
      else None)"

fun hex_pairs :: "string \<Rightarrow> byte list option" where
  "hex_pairs (a # b # cs) =
     (case (hex_value a, hex_value b) of
        (Some high, Some low) \<Rightarrow> map_option ((#) (push_bit 4 high OR low)) (hex_pairs cs)
      | _ \<Rightarrow> None)"
| "hex_pairs _ = Some []"

definition hash_from_str :: "string \<Rightarrow> string + audit_hash" where
  "hash_from_str text =
     (if length text \<noteq> 64 then Inl (''expected 64 hex characters, got '' @ show_nat (length text))
      else case hex_pairs text of
        Some bs \<Rightarrow> Inr (hash_of_bytes bs)
      | None \<Rightarrow> Inl ''expected lowercase hex characters (0-9, a-f)'')"

section \<open>Tree hashing\<close>

datatype proof_error = InvalidRequest string | WrongLength | RootMismatch

definition leaf_hash :: "sha256 \<Rightarrow> byte list \<Rightarrow> audit_hash" where
  "leaf_hash sha data = sha (0 # data)"

definition node_hash :: "sha256 \<Rightarrow> audit_hash \<Rightarrow> audit_hash \<Rightarrow> audit_hash" where
  "node_hash sha l r = sha (1 # hash_bytes l @ hash_bytes r)"

definition empty_root :: "sha256 \<Rightarrow> audit_hash" where
  "empty_root sha = sha []"

fun bit_length :: "nat \<Rightarrow> nat" where
  "bit_length n = (if n = 0 then 0 else Suc (bit_length (n div 2)))"

definition leading_zeros :: "nat \<Rightarrow> nat" where
  "leading_zeros n = 64 - bit_length n"

fun trailing_zeros :: "nat \<Rightarrow> nat" where
  "trailing_zeros n = (if n = 0 then 64 else if odd n then 0 else Suc (trailing_zeros (n div 2)))"

declare bit_length.simps [simp del] trailing_zeros.simps [simp del]

definition split_point :: "nat \<Rightarrow> nat" where
  "split_point n = 2 ^ (63 - leading_zeros (n - 1))"

text \<open>\<^verbatim>\<open>start..end\<close>: the complete subtrees of a range, left to right.\<close>

function range_nodes :: "nat \<Rightarrow> nat \<Rightarrow> (nat \<times> nat) list" where
  "range_nodes s e =
     (if s < e then
        (let level = 63 - leading_zeros (e - s);
             level = (if s \<noteq> 0 then min level (trailing_zeros s) else level)
         in (level, s div 2 ^ level) # range_nodes (s + 2 ^ level) e)
      else [])"
  by pat_completeness auto
termination
  by (relation "measure (\<lambda>(s, e). e - s)") (auto simp: Let_def diff_less_mono2)

definition fold_range :: "sha256 \<Rightarrow> audit_hash list \<Rightarrow> audit_hash" where
  "fold_range sha hs =
     (case rev hs of
        [] \<Rightarrow> empty_root sha
      | right # rest \<Rightarrow> fold (\<lambda>l r. node_hash sha l r) rest right)"

lemma bit_length_le: "0 < n \<Longrightarrow> 2 ^ (bit_length n - 1) \<le> n \<and> 0 < bit_length n"
proof (induction n rule: bit_length.induct)
  case (1 n)
  show ?case
  proof (cases "n = 1")
    case False
    then have "0 < n div 2" using 1 by auto
    then have "2 ^ (bit_length (n div 2) - 1) \<le> n div 2" "0 < bit_length (n div 2)" using 1 by auto
    moreover have "bit_length n = Suc (bit_length (n div 2))" using 1 by (subst bit_length.simps) simp
    moreover have "2 ^ bit_length (n div 2) = 2 * (2 :: nat) ^ (bit_length (n div 2) - 1)"
      using calculation(2) by (cases "bit_length (n div 2)") auto
    moreover have "2 * (n div 2) \<le> n" by simp
    ultimately show ?thesis by (simp del: times_div_less_eq_dividend)
  qed (simp add: bit_length.simps)
qed

lemma split_point_pos [simp]: "0 < split_point n"
  by (simp add: split_point_def)

lemma split_point_less: "2 \<le> n \<Longrightarrow> split_point n < n"
proof -
  assume n: "2 \<le> n"
  have "63 - leading_zeros (n - 1) \<le> bit_length (n - 1) - 1"
    using bit_length_le [of "n - 1"] n by (auto simp: leading_zeros_def)
  then have "split_point n \<le> 2 ^ (bit_length (n - 1) - 1)" by (simp add: split_point_def)
  also have "\<dots> \<le> n - 1" using bit_length_le [of "n - 1"] n by simp
  finally show ?thesis using n by simp
qed

function inclusion_path :: "nat \<Rightarrow> nat \<Rightarrow> nat \<Rightarrow> (nat \<times> nat) list" where
  "inclusion_path index s e =
     (if e - s \<le> 1 then []
      else let mid = s + split_point (e - s) in
        if index < mid then inclusion_path index s mid @ [(mid, e)] else inclusion_path index mid e @ [(s, mid)])"
  by pat_completeness auto
termination
proof (relation "measure (\<lambda>(i, s, e). e - s)", goal_cases)
  case (2 i s e mid)
  then show ?case using split_point_less [of "e - s"] by auto
next
  case (3 i s e mid)
  then show ?case using split_point_less [of "e - s"] split_point_pos [of "e - s"] by (auto simp del: split_point_pos)
qed simp

definition inclusion_ranges :: "nat \<Rightarrow> nat \<Rightarrow> (nat \<times> nat) list" where
  "inclusion_ranges index n = inclusion_path index 0 n"

text \<open>The code calls \<open>subproof\<close> only with \<open>0 < m \<le> e - s\<close>; the second branch, a range too short to split, is not reached.\<close>

function subproof :: "nat \<Rightarrow> nat \<Rightarrow> nat \<Rightarrow> bool \<Rightarrow> (nat \<times> nat) list" where
  "subproof m s e complete =
     (if m = e - s then (if complete then [] else [(s, e)])
      else if e - s < 2 then []
      else let k = split_point (e - s); mid = s + k in
        if m \<le> k then subproof m s mid complete @ [(mid, e)] else subproof (m - k) mid e False @ [(s, mid)])"
  by pat_completeness auto
termination
proof (relation "measure (\<lambda>(m, s, e, c). e - s)", goal_cases)
  case (2 m s e c k mid)
  then show ?case using split_point_less [of "e - s"] by auto
next
  case (3 m s e c k mid)
  then have "k < e - s" using split_point_less [of "e - s"] by simp
  moreover have "0 < k" using 3 by simp
  ultimately show ?case using 3(4) by simp
qed simp

definition consistency_ranges :: "nat \<Rightarrow> nat \<Rightarrow> (nat \<times> nat) list" where
  "consistency_ranges old new = (if 0 < old \<and> old < new then subproof old 0 new True else [])"

function subtree_root :: "sha256 \<Rightarrow> audit_hash list \<Rightarrow> nat \<Rightarrow> nat \<Rightarrow> audit_hash" where
  "subtree_root sha leaves s e =
     (if e - s = 0 then empty_root sha
      else if e - s = 1 then leaves ! s
      else let mid = s + split_point (e - s) in
        node_hash sha (subtree_root sha leaves s mid) (subtree_root sha leaves mid e))"
  by pat_completeness auto
termination
proof (relation "measure (\<lambda>(sha, l, s, e). e - s)", goal_cases)
  case (2 sha l s e mid)
  then show ?case using split_point_less [of "e - s"] by auto
next
  case (3 sha l s e mid)
  then show ?case using split_point_less [of "e - s"] split_point_pos [of "e - s"] by (auto simp del: split_point_pos)
qed simp

declare range_nodes.simps [simp del] inclusion_path.simps [simp del] subproof.simps [simp del] subtree_root.simps [simp del]

definition tree_root :: "sha256 \<Rightarrow> audit_hash list \<Rightarrow> audit_hash" where
  "tree_root sha leaves = subtree_root sha leaves 0 (length leaves)"

definition inclusion_proof :: "sha256 \<Rightarrow> audit_hash list \<Rightarrow> nat \<Rightarrow> proof_error + audit_hash list" where
  "inclusion_proof sha leaves index =
     (if length leaves \<le> index
      then Inl (InvalidRequest (''leaf '' @ show_nat index @ '' is not in a tree of '' @ show_nat (length leaves)))
      else Inr (map (\<lambda>(s, e). subtree_root sha leaves s e) (inclusion_ranges index (length leaves))))"

definition consistency_proof :: "sha256 \<Rightarrow> audit_hash list \<Rightarrow> nat \<Rightarrow> proof_error + audit_hash list" where
  "consistency_proof sha leaves old =
     (if length leaves < old
      then Inl (InvalidRequest (''size '' @ show_nat old @ '' exceeds the tree's '' @ show_nat (length leaves)))
      else Inr (map (\<lambda>(s, e). subtree_root sha leaves s e) (consistency_ranges old (length leaves))))"

section \<open>Verification of proofs\<close>

text \<open>The inner loop of both verifiers: \<^verbatim>\<open>while fn_ & 1 == 0 && fn_ != 0\<close>.\<close>

fun strip_zeros :: "nat \<Rightarrow> nat \<Rightarrow> nat \<times> nat" where
  "strip_zeros f s = (if even f \<and> f \<noteq> 0 then strip_zeros (f div 2) (s div 2) else (f, s))"

declare strip_zeros.simps [simp del]

fun verify_inclusion_loop ::
    "sha256 \<Rightarrow> nat \<Rightarrow> nat \<Rightarrow> audit_hash \<Rightarrow> audit_hash list \<Rightarrow> proof_error + (nat \<times> audit_hash)" where
  "verify_inclusion_loop sha f s r [] = Inr (s, r)"
| "verify_inclusion_loop sha f s r (p # ps) =
     (if s = 0 then Inl WrongLength
      else if odd f \<or> f = s then
        (let (f', s') = strip_zeros f s in verify_inclusion_loop sha (f' div 2) (s' div 2) (node_hash sha p r) ps)
      else verify_inclusion_loop sha (f div 2) (s div 2) (node_hash sha r p) ps)"

definition verify_inclusion ::
    "sha256 \<Rightarrow> nat \<Rightarrow> nat \<Rightarrow> audit_hash \<Rightarrow> audit_hash list \<Rightarrow> audit_hash \<Rightarrow> proof_error + unit" where
  "verify_inclusion sha index n leaf prf root =
     (if n \<le> index
      then Inl (InvalidRequest (''leaf '' @ show_nat index @ '' is not in a tree of '' @ show_nat n))
      else case verify_inclusion_loop sha index (n - 1) leaf prf of
        Inl e \<Rightarrow> Inl e
      | Inr (s, r) \<Rightarrow> if s \<noteq> 0 then Inl WrongLength else if r \<noteq> root then Inl RootMismatch else Inr ())"

function strip_ones :: "nat \<Rightarrow> nat \<Rightarrow> nat \<times> nat" where
  "strip_ones f s = (if odd f then strip_ones (f div 2) (s div 2) else (f, s))"
  by pat_completeness auto
termination
  by (relation "measure fst") (auto elim: oddE)

declare strip_ones.simps [simp del]

fun verify_consistency_loop ::
    "sha256 \<Rightarrow> nat \<Rightarrow> nat \<Rightarrow> audit_hash \<Rightarrow> audit_hash \<Rightarrow> audit_hash list \<Rightarrow> proof_error + (nat \<times> audit_hash \<times> audit_hash)" where
  "verify_consistency_loop sha f s fr sr [] = Inr (s, fr, sr)"
| "verify_consistency_loop sha f s fr sr (c # cs) =
     (if s = 0 then Inl WrongLength
      else if odd f \<or> f = s then
        (let (f', s') = strip_zeros f s in
         verify_consistency_loop sha (f' div 2) (s' div 2) (node_hash sha c fr) (node_hash sha c sr) cs)
      else verify_consistency_loop sha (f div 2) (s div 2) fr (node_hash sha sr c) cs)"

definition is_power_of_two :: "nat \<Rightarrow> bool" where
  "is_power_of_two n \<longleftrightarrow> n \<noteq> 0 \<and> n = 2 ^ (bit_length n - 1)"

definition verify_consistency ::
    "sha256 \<Rightarrow> nat \<Rightarrow> nat \<Rightarrow> audit_hash \<Rightarrow> audit_hash \<Rightarrow> audit_hash list \<Rightarrow> proof_error + unit" where
  "verify_consistency sha old new old_root new_root prf =
     (if new < old
      then Inl (InvalidRequest (''old size '' @ show_nat old @ '' exceeds new size '' @ show_nat new))
      else if old = new then
        (if prf \<noteq> [] then Inl WrongLength else if old_root = new_root then Inr () else Inl RootMismatch)
      else if old = 0 then (if prf = [] then Inr () else Inl WrongLength)
      else if prf = [] then Inl WrongLength
      else
        (let path = (if is_power_of_two old then old_root # prf else prf);
             (f, s) = strip_ones (old - 1) (new - 1)
         in case verify_consistency_loop sha f s (hd path) (hd path) (tl path) of
              Inl e \<Rightarrow> Inl e
            | Inr (s, fr, sr) \<Rightarrow>
                if s \<noteq> 0 then Inl WrongLength
                else if fr \<noteq> old_root \<or> sr \<noteq> new_root then Inl RootMismatch else Inr ()))"

section \<open>The frontier\<close>

record tree_node =
  tn_level :: nat
  tn_index :: nat
  tn_hash :: audit_hash

record frontier =
  fr_size :: nat
  fr_hashes :: "audit_hash list"

definition frontier_default :: frontier where
  "frontier_default = \<lparr>fr_size = 0, fr_hashes = []\<rparr>"

text \<open>The loop of \<^verbatim>\<open>Frontier::push\<close>; popping an empty frontier panics, here \<open>None\<close>.\<close>

function push_loop ::
    "sha256 \<Rightarrow> nat \<Rightarrow> nat \<Rightarrow> audit_hash \<Rightarrow> audit_hash list \<Rightarrow> tree_node list \<Rightarrow> (audit_hash list \<times> tree_node list) option" where
  "push_loop sha level index node hs completed =
     (if odd index then
        (if hs = [] then None
         else let node = node_hash sha (last hs) node in
           push_loop sha (level + 1) (index div 2) node (butlast hs)
             (completed @ [\<lparr>tn_level = level + 1, tn_index = index div 2, tn_hash = node\<rparr>]))
      else Some (hs @ [node], completed))"
  by pat_completeness auto
termination
  by (relation "measure (\<lambda>(sha, level, index, node, hs, completed). index)") (auto elim: oddE)

declare push_loop.simps [simp del]

definition frontier_push :: "sha256 \<Rightarrow> frontier \<Rightarrow> audit_hash \<Rightarrow> (frontier \<times> tree_node list) option" where
  "frontier_push sha fr leaf =
     (case push_loop sha 0 (fr_size fr) leaf (fr_hashes fr) [] of
        None \<Rightarrow> None
      | Some (hs, completed) \<Rightarrow> Some (\<lparr>fr_size = fr_size fr + 1, fr_hashes = hs\<rparr>, completed))"

definition frontier_root :: "sha256 \<Rightarrow> frontier \<Rightarrow> audit_hash" where
  "frontier_root sha fr = fold_range sha (fr_hashes fr)"

end
