(* ===== verification/Audit_Record.thy ===== *)
theory Audit_Record
  imports Merkle Principal Json
begin

text \<open>
  The records of the audit log (\<^verbatim>\<open>adk-core/src/audit_log.rs\<close>): what a caller drafts and what the writer
  completes, the entries, tree nodes and checkpoints a store keeps, and the trail through which the
  runtime records, with its failure mode.
\<close>

section \<open>Kinds, decisions, outcomes\<close>

datatype audit_kind =
  AkToolCall | AkApproval | AkGovernance | AkPayment | AkAccess | AkAuthentication | AkConfiguration | AkKeyRotated
| AkOther string

fun audit_kind_name :: "audit_kind \<Rightarrow> string" where
  "audit_kind_name AkToolCall = ''tool_call''"
| "audit_kind_name AkApproval = ''approval''"
| "audit_kind_name AkGovernance = ''governance''"
| "audit_kind_name AkPayment = ''payment''"
| "audit_kind_name AkAccess = ''access''"
| "audit_kind_name AkAuthentication = ''authentication''"
| "audit_kind_name AkConfiguration = ''configuration''"
| "audit_kind_name AkKeyRotated = ''key_rotated''"
| "audit_kind_name (AkOther name) = name"

definition audit_kind_of :: "string \<Rightarrow> audit_kind" where
  "audit_kind_of s =
     (if s = ''tool_call'' then AkToolCall
      else if s = ''approval'' then AkApproval
      else if s = ''governance'' then AkGovernance
      else if s = ''payment'' then AkPayment
      else if s = ''access'' then AkAccess
      else if s = ''authentication'' then AkAuthentication
      else if s = ''configuration'' then AkConfiguration
      else if s = ''key_rotated'' then AkKeyRotated
      else AkOther s)"

lemma audit_kind_name_of [simp]: "audit_kind_name (audit_kind_of s) = s"
  by (simp add: audit_kind_of_def)

datatype audit_decision = Allowed | Denied | ApprovalRequired | Approved | Rejected
datatype audit_outcome = OutSucceeded | OutFailed | OutUnknown | NotRun

section \<open>Actors and records\<close>

record audit_actor =
  aa_agent :: "string option"
  aa_tenant :: "string option"
  aa_instance :: "string option"
  aa_on_behalf_of :: "subject_ref option"
  aa_delegation_chain :: "subject_ref list"
  aa_invocation_id :: "string option"

definition audit_actor_default :: audit_actor where
  "audit_actor_default =
     \<lparr>aa_agent = None, aa_tenant = None, aa_instance = None, aa_on_behalf_of = None, aa_delegation_chain = [],
      aa_invocation_id = None\<rparr>"

definition audit_actor_subject :: "subject_ref \<Rightarrow> audit_actor" where
  "audit_actor_subject s = audit_actor_default\<lparr>aa_on_behalf_of := Some s\<rparr>"

definition audit_actor_new :: "acting_context \<Rightarrow> string \<Rightarrow> audit_actor" where
  "audit_actor_new a invocation =
     \<lparr>aa_agent = Some (agent_id (acting_agent a)), aa_tenant = tenant (acting_agent a),
      aa_instance = instance_id (acting_agent a), aa_on_behalf_of = on_behalf_of a,
      aa_delegation_chain = delegation_chain a, aa_invocation_id = (if invocation \<noteq> [] then Some invocation else None)\<rparr>"

record audit_draft =
  dr_actor :: audit_actor
  dr_kind :: audit_kind
  dr_action :: string
  dr_args_digest :: "string option"
  dr_decision :: "audit_decision option"
  dr_outcome :: "audit_outcome option"
  dr_policy_ref :: "string option"
  dr_payload_ref :: "string option"
  dr_ext :: "(string, json) table"

definition audit_draft_new :: "audit_kind \<Rightarrow> string \<Rightarrow> audit_draft" where
  "audit_draft_new k act =
     \<lparr>dr_actor = audit_actor_default, dr_kind = k, dr_action = act, dr_args_digest = None, dr_decision = None, dr_outcome = None,
      dr_policy_ref = None, dr_payload_ref = None, dr_ext = []\<rparr>"

definition draft_ext :: "string \<Rightarrow> json \<Rightarrow> audit_draft \<Rightarrow> audit_draft" where
  "draft_ext k v d = d\<lparr>dr_ext := AList.update k v (dr_ext d)\<rparr>"

definition audit_record_version :: nat where
  "audit_record_version = 1"

record audit_record =
  ar_v :: nat
  ar_log_id :: string
  ar_seq :: nat
  ar_ts :: instant
  ar_prev_hash :: "audit_hash option"
  ar_actor :: audit_actor
  ar_kind :: audit_kind
  ar_action :: string
  ar_args_digest :: "string option"
  ar_decision :: "audit_decision option"
  ar_outcome :: "audit_outcome option"
  ar_policy_ref :: "string option"
  ar_payload_ref :: "string option"
  ar_ext :: "(string, json) table"

definition into_record :: "audit_draft \<Rightarrow> string \<Rightarrow> nat \<Rightarrow> instant \<Rightarrow> audit_hash option \<Rightarrow> audit_record" where
  "into_record d log_id seq ts prev =
     \<lparr>ar_v = audit_record_version, ar_log_id = log_id, ar_seq = seq, ar_ts = ts, ar_prev_hash = prev, ar_actor = dr_actor d,
      ar_kind = dr_kind d, ar_action = dr_action d, ar_args_digest = dr_args_digest d, ar_decision = dr_decision d,
      ar_outcome = dr_outcome d, ar_policy_ref = dr_policy_ref d, ar_payload_ref = dr_payload_ref d, ar_ext = dr_ext d\<rparr>"

lemma into_record_sel [simp]:
  "ar_v (into_record d i n t p) = audit_record_version" "ar_log_id (into_record d i n t p) = i" "ar_seq (into_record d i n t p) = n"
  "ar_prev_hash (into_record d i n t p) = p" "ar_kind (into_record d i n t p) = dr_kind d" "ar_ext (into_record d i n t p) = dr_ext d"
  by (simp_all add: into_record_def)

section \<open>What a store keeps\<close>

record audit_entry =
  en_seq :: nat
  en_leaf_hash :: audit_hash
  en_record :: "string option"

record audit_append =
  ap_log_id :: string
  ap_entries :: "audit_entry list"
  ap_nodes :: "tree_node list"

record audit_checkpoint =
  cp_log_id :: string
  cp_size :: nat
  cp_root_hash :: audit_hash
  cp_note :: string
  cp_created_at :: instant

section \<open>The trail\<close>

datatype audit_failure_mode = Block | Warn

text \<open>A trail: its recorder's digest, the recorder's answer to a draft after the drafts so far, the failure mode.\<close>

record audit_trail =
  at_digest :: "json \<Rightarrow> string"
  at_recorder :: "audit_draft list \<Rightarrow> audit_draft \<Rightarrow> string option"
  at_failure_mode :: audit_failure_mode

definition trail_record :: "audit_trail \<Rightarrow> audit_draft list \<Rightarrow> audit_draft \<Rightarrow> unit result \<times> audit_draft list" where
  "trail_record tr recs d =
     (case at_recorder tr recs d of
        None \<Rightarrow> (Inr (), recs @ [d])
      | Some err \<Rightarrow>
          (case at_failure_mode tr of
             Block \<Rightarrow>
               (Inl (adk_error_new Auth Unavailable ''audit.record_failed''
                  (quoted (dr_action d) @ '' refused: its audit record could not be written ('' @ err
                   @ ''). Restore the audit log, or set AuditFailureMode::Warn to continue without a record'')), recs)
           | Warn \<Rightarrow> (Inr (), recs)))"

end
