(* ===== verification/Tool_Gate.thy ===== *)
theory Tool_Gate
  imports Approval_Store Audit_Record
begin

text \<open>
  The governed path of a tool call: \<^verbatim>\<open>authorize_tool_call\<close>, \<^verbatim>\<open>confirm_tool_call\<close> and what they call
  (\<^verbatim>\<open>adk-core/src/governance.rs\<close>). The policy, the
  screen, the confirmation handler, the approval service and the audit recorder are trait objects, so
  they are functions in the gate; the state they share with the path is the approval store, the
  records written and the calls submitted for approval. What a call reads of the outside while it
  waits (the kill switch, the clock) is handed to it as \<open>readings\<close>.
\<close>

section \<open>The gate\<close>

record governed_call =
  gc_tool_name :: string
  gc_function_call_id :: string
  gc_args :: json
  gc_effect :: tool_effect
  gc_requires_confirmation :: bool
  gc_origin :: "tool_origin option"
  gc_resumes :: "confirmation_request option"

definition governed_call_new :: "string \<Rightarrow> string \<Rightarrow> json \<Rightarrow> governed_call" where
  "governed_call_new tool i args =
     \<lparr>gc_tool_name = tool, gc_function_call_id = i, gc_args = args, gc_effect = NonIdempotent,
      gc_requires_confirmation = False, gc_origin = None, gc_resumes = None\<rparr>"

definition gc_resuming :: "governed_call \<Rightarrow> confirmation_request \<Rightarrow> governed_call" where
  "gc_resuming c held = c\<lparr>gc_resumes := Some held\<rparr>"

definition gc_requiring_confirmation :: "governed_call \<Rightarrow> bool \<Rightarrow> governed_call" where
  "gc_requiring_confirmation c b = c\<lparr>gc_requires_confirmation := b\<rparr>"

record approval_call =
  ac_scope :: approval_scope
  ac_request :: confirmation_request
  ac_reason :: string
  ac_agent_name :: string
  ac_invocation_id :: string
  ac_run_id :: "string option"
  ac_acting :: "acting_context option"

text \<open>How a wait for the confirmation handler ends: it answers, its configured time passes, or another
  approval of the batch failed.\<close>

datatype handler_answer = HandlerAnswers "tool_approval result" | HandlerLate | BatchFailed

record tool_gate =
  g_esc :: "string \<Rightarrow> string"
  g_eq :: "json \<Rightarrow> json \<Rightarrow> bool"
  g_policy :: "tool_policy option"
  g_screen :: "(string \<Rightarrow> json \<Rightarrow> string + json) option"
  g_audit :: "audit_trail option"
  g_has_store :: bool
  g_service :: "(approval_call \<Rightarrow> unit result) option"
  g_decisions :: "(string, confirmation_decision) table"
  g_fingerprints :: "(string, string) table"
  g_approvals :: "(string, tool_approval) table"
  g_handler :: "(confirmation_request \<Rightarrow> handler_answer) option"
  g_run_id :: "string option"
  g_agent_name :: string
  g_invocation_id :: string
  g_scope :: approval_scope
  g_acting :: acting_context
  g_actor :: "audit_actor option"

record gate_state =
  gs_store :: approval_store
  gs_records :: "audit_draft list"
  gs_submitted :: "approval_call list"

text \<open>The kill switch as checked at the start and after a decision; the clock as read for a configured
  approval, for the store's and for a pending entry.\<close>

record readings =
  rd_start :: "unit result"
  rd_decided :: "unit result"
  rd_now_configured :: instant
  rd_now_store :: instant
  rd_now_pending :: instant

datatype authorization =
  Execute json "confirmation_decision option"
| RefuseCall string "confirmation_decision option"
| Pending confirmation_request string

type_synonym 'a gated = "gate_state \<Rightarrow> 'a result \<times> gate_state"

definition gret :: "'a \<Rightarrow> 'a gated" where
  "gret a s = (Inr a, s)"

definition gfail :: "adk_error \<Rightarrow> 'a gated" where
  "gfail e s = (Inl e, s)"

definition gbind :: "'a gated \<Rightarrow> ('a \<Rightarrow> 'b gated) \<Rightarrow> 'b gated" where
  "gbind m f s = (case m s of (Inl e, s') \<Rightarrow> (Inl e, s') | (Inr a, s') \<Rightarrow> f a s')"

definition gate_record :: "tool_gate \<Rightarrow> audit_draft \<Rightarrow> unit gated" where
  "gate_record g d s =
     (case g_audit g of
        None \<Rightarrow> (Inr (), s)
      | Some tr \<Rightarrow>
          (let actor = (case g_actor g of Some a \<Rightarrow> a | None \<Rightarrow> audit_actor_new (g_acting g) (g_invocation_id g));
               d = draft_ext ''sessionId'' (JString (as_session_id (g_scope g))) (d\<lparr>dr_actor := actor\<rparr>);
               (r, recs) = trail_record tr (gs_records s) d
           in (r, s\<lparr>gs_records := recs\<rparr>)))"

section \<open>The records and the policy of one call\<close>

fun effect_name :: "tool_effect \<Rightarrow> string" where
  "effect_name ReadOnly = ''read_only''"
| "effect_name Idempotent = ''idempotent''"
| "effect_name NonIdempotent = ''non_idempotent''"

definition call_draft :: "audit_trail \<Rightarrow> governed_call \<Rightarrow> audit_kind \<Rightarrow> json \<Rightarrow> audit_draft" where
  "call_draft tr c k args =
     (let d = (audit_draft_new k (gc_tool_name c))\<lparr>dr_args_digest := Some (at_digest tr args)\<rparr>;
          d = draft_ext ''functionCallId'' (JString (gc_function_call_id c)) d;
          d = draft_ext ''effect'' (JString (effect_name (gc_effect c))) d
      in case gc_origin c of
           Some orig \<Rightarrow> draft_ext ''declarationDigest'' (JString (declaration_digest orig))
                          (draft_ext ''toolSource'' (JString (source orig)) d)
         | None \<Rightarrow> d)"

definition record_decision ::
    "tool_gate \<Rightarrow> governed_call \<Rightarrow> json \<Rightarrow> audit_decision \<Rightarrow> string option \<Rightarrow> string option \<Rightarrow> unit gated" where
  "record_decision g c args dec pref reason =
     (case g_audit g of
        None \<Rightarrow> gret ()
      | Some tr \<Rightarrow>
          (let d = (call_draft tr c AkToolCall args)\<lparr>dr_decision := Some dec\<rparr>;
               d = (if dec \<noteq> Allowed then d\<lparr>dr_outcome := Some NotRun\<rparr> else d);
               d = (case pref of Some p \<Rightarrow> d\<lparr>dr_policy_ref := Some p\<rparr> | None \<Rightarrow> d);
               d = (case reason of Some r \<Rightarrow> draft_ext ''reason'' (JString r) d | None \<Rightarrow> d)
           in gate_record g d))"

definition record_approval ::
    "tool_gate \<Rightarrow> governed_call \<Rightarrow> json \<Rightarrow> audit_decision \<Rightarrow> string \<Rightarrow> json option \<Rightarrow> unit gated" where
  "record_approval g c args dec src edited =
     (case g_audit g of
        None \<Rightarrow> gret ()
      | Some tr \<Rightarrow>
          (let d = draft_ext ''source'' (JString src) ((call_draft tr c AkApproval args)\<lparr>dr_decision := Some dec\<rparr>);
               d = (case edited of Some e \<Rightarrow> draft_ext ''editedArgsDigest'' (JString (at_digest tr e)) d | None \<Rightarrow> d)
           in gate_record g d))"

definition evaluate_policy :: "tool_gate \<Rightarrow> governed_call \<Rightarrow> json \<Rightarrow> policy_decision" where
  "evaluate_policy g c args =
     (case g_policy g of
        None \<Rightarrow> Allow
      | Some p \<Rightarrow>
          tp_evaluate_call p
            \<lparr>pr_tool_name = gc_tool_name c, pr_args = args, pr_effect = gc_effect c, pr_agent_name = g_agent_name g,
             pr_app_name = as_app_name (g_scope g), pr_user_id = as_user_id (g_scope g),
             pr_session_id = as_session_id (g_scope g), pr_invocation_id = g_invocation_id g,
             pr_acting = Some (g_acting g)\<rparr>
            \<lparr>call_origin = gc_origin c, call_function_call_id = Some (gc_function_call_id c)\<rparr>)"

definition policy_reference :: "tool_gate \<Rightarrow> string option" where
  "policy_reference g =
     map_option (\<lambda>p. case tp_ref p of Some n \<Rightarrow> ''tool_policy:'' @ n | None \<Rightarrow> ''tool_policy'') (g_policy g)"

text \<open>The screen step, the same for a call's arguments and for an approver's edit: a rewrite is put to the
  policy again, and the stricter of the two decisions stands.\<close>

fun is_deny :: "policy_decision \<Rightarrow> bool" where
  "is_deny (Deny _) = True"
| "is_deny _ = False"

definition screen_args :: "tool_gate \<Rightarrow> governed_call \<Rightarrow> json \<Rightarrow> policy_decision \<Rightarrow> string + (policy_decision \<times> json)" where
  "screen_args g c args d =
     (if is_deny d then Inr (d, args)
      else case g_screen g of
        None \<Rightarrow> Inr (d, args)
      | Some screen \<Rightarrow>
          (case screen (gc_tool_name c) args of
             Inl reason \<Rightarrow> Inl reason
           | Inr screened \<Rightarrow>
               if g_eq g screened args then Inr (d, args)
               else Inr (stricter d (evaluate_policy g c screened), screened)))"

section \<open>Confirmation\<close>

definition resume_mismatch ::
    "confirmation_request \<Rightarrow> acting_context \<Rightarrow> tool_origin option \<Rightarrow> string option" where
  "resume_mismatch held acting origin =
     (case cr_acting held of
        None \<Rightarrow> Some ''the hold does not record which agent made the call''
      | Some held_by \<Rightarrow>
          if agent_id (acting_agent held_by) \<noteq> agent_id (acting_agent acting)
          then Some (''it was held for agent '' @ quoted (agent_id (acting_agent held_by)) @ '', and ''
                     @ quoted (agent_id (acting_agent acting)) @ '' is resuming it'')
          else
            (case (cr_origin held, origin) of
               (Some h, Some orig) \<Rightarrow>
                 if source h \<noteq> source orig
                 then Some (''it was held for the tool '' @ quoted (source h) @ '' publishes, and the name now resolves to ''
                            @ quoted (source orig))
                 else if declaration_digest h \<noteq> declaration_digest orig
                 then Some (quoted (source h) @ '' changed its description, parameters, or annotations after the call was held'')
                 else None
             | _ \<Rightarrow> Some ''the hold does not record which tool the call was made to''))"

fun bare :: "confirmation_decision \<Rightarrow> tool_approval" where
  "bare ApproveCall = approval_approve"
| "bare DenyCall = approval_deny"

definition decision_by_call_id :: "tool_gate \<Rightarrow> confirmation_request \<Rightarrow> tool_approval option" where
  "decision_by_call_id g r =
     Option.bind (cr_function_call_id r) (\<lambda>i.
       Option.bind (lookup (g_decisions g) i) (\<lambda>d.
         case lookup (g_fingerprints g) i of
           Some expected \<Rightarrow> if expected \<noteq> fingerprint (g_esc g) r then None else Some (bare d)
         | None \<Rightarrow> Some (bare d)))"

definition configured_approval :: "tool_gate \<Rightarrow> readings \<Rightarrow> confirmation_request \<Rightarrow> tool_approval option" where
  "configured_approval g rd r =
     (case lookup (g_approvals g) (fingerprint (g_esc g) r) of
        Some a \<Rightarrow> if is_live a (rd_now_configured rd) then Some a else None
      | None \<Rightarrow> None)"

definition ask_handler :: "tool_gate \<Rightarrow> confirmation_request \<Rightarrow> (tool_approval \<times> string) option gated" where
  "ask_handler g r =
     (case g_handler g of
        None \<Rightarrow> gret None
      | Some handler \<Rightarrow>
          (case handler r of
             HandlerAnswers (Inr a) \<Rightarrow> gret (Some (a, ''handler''))
           | HandlerAnswers (Inl e) \<Rightarrow> gfail e
           | HandlerLate \<Rightarrow> gret (Some (approval_deny, ''handler_timeout''))
           | BatchFailed \<Rightarrow>
               gfail (adk_legacy Tool (''approval for tool '' @ quoted (cr_tool_name r)
                 @ '' was abandoned because another approval in the same batch failed''))))"

definition resolve_confirmation ::
    "tool_gate \<Rightarrow> readings \<Rightarrow> confirmation_request \<Rightarrow> (tool_approval \<times> string) option gated" where
  "resolve_confirmation g rd r s =
     (case decision_by_call_id g r of
        Some a \<Rightarrow> gret (Some (a, ''call_id'')) s
      | None \<Rightarrow>
          (case configured_approval g rd r of
             Some a \<Rightarrow> gret (Some (a, ''fingerprint'')) s
           | None \<Rightarrow>
               if g_has_store g then
                 (let (taken, st) = take_approval (rd_now_store rd) (g_scope g) (fingerprint (g_esc g) r) (gs_store s) in
                  (case taken of
                     Some a \<Rightarrow> gret (Some (a, ''approval_store''))
                   | None \<Rightarrow> ask_handler g r) (s\<lparr>gs_store := st\<rparr>))
               else ask_handler g r s))"

definition record_held_call :: "tool_gate \<Rightarrow> readings \<Rightarrow> confirmation_request \<Rightarrow> string \<Rightarrow> unit gated" where
  "record_held_call g rd r reason s =
     (let s = (if g_has_store g
               then s\<lparr>gs_store := store_record_pending (g_esc g) (rd_now_pending rd) (g_scope g) r (gs_store s)\<rparr> else s)
      in case g_service g of
           None \<Rightarrow> (Inr (), s)
         | Some submit \<Rightarrow>
             (let c = \<lparr>ac_scope = g_scope g, ac_request = r, ac_reason = reason, ac_agent_name = g_agent_name g,
                       ac_invocation_id = g_invocation_id g, ac_run_id = g_run_id g, ac_acting = Some (g_acting g)\<rparr>
              in (submit c, s\<lparr>gs_submitted := gs_submitted s @ [c]\<rparr>)))"

definition confirm_tool_call ::
    "tool_gate \<Rightarrow> readings \<Rightarrow> confirmation_request \<Rightarrow> string \<Rightarrow> tool_approval option gated" where
  "confirm_tool_call g rd r reason =
     gbind (\<lambda>s. (rd_start rd, s)) (\<lambda>_.
     gbind (resolve_confirmation g rd r) (\<lambda>found.
       case found of
         None \<Rightarrow> gbind (record_held_call g rd r reason) (\<lambda>_. gret None)
       | Some (a, src) \<Rightarrow> gbind (\<lambda>s. (rd_decided rd, s)) (\<lambda>_. gret (Some a))))"

section \<open>The path\<close>

definition authorize_edited_args :: "tool_gate \<Rightarrow> governed_call \<Rightarrow> json \<Rightarrow> authorization gated" where
  "authorize_edited_args g c edited =
     (case screen_args g c edited (evaluate_policy g c edited) of
        Inl reason \<Rightarrow>
          gbind (record_decision g c edited Denied (Some ''guardrail'') None) (\<lambda>_.
            gret (RefuseCall reason (Some ApproveCall)))
      | Inr (d, args) \<Rightarrow>
          (case d of
             Deny reason \<Rightarrow>
               gbind (record_decision g c args Denied (policy_reference g) (Some reason)) (\<lambda>_.
                 gret (RefuseCall (''Tool '' @ quoted (gc_tool_name c)
                   @ '' with the approver's edited arguments denied by policy: '' @ reason) (Some ApproveCall)))
           | _ \<Rightarrow>
               gbind (record_decision g c args Allowed (Some ''confirmation'') None) (\<lambda>_.
                 gret (Execute args (Some ApproveCall)))))"

definition frozen_stop :: "tool_gate \<Rightarrow> governed_call \<Rightarrow> json \<Rightarrow> adk_error \<Rightarrow> authorization gated" where
  "frozen_stop g c args e =
     gbind (record_decision g c args Denied (Some ''governance'') None) (\<lambda>_. gfail e)"

definition decided_call ::
    "tool_gate \<Rightarrow> readings \<Rightarrow> governed_call \<Rightarrow> json \<Rightarrow> tool_approval \<Rightarrow> string \<Rightarrow> authorization gated" where
  "decided_call g rd c args a src =
     (case ta_decision a of
        ApproveCall \<Rightarrow>
          (let edited = opt_filter (\<lambda>e. \<not> g_eq g e args) (ta_edited_args a) in
           gbind (record_approval g c args Approved src edited) (\<lambda>_.
             case rd_decided rd of
               Inl e \<Rightarrow> frozen_stop g c args e
             | Inr _ \<Rightarrow>
                 (case edited of
                    Some e \<Rightarrow> authorize_edited_args g c e
                  | None \<Rightarrow>
                      gbind (record_decision g c args Allowed (Some ''confirmation'') None) (\<lambda>_.
                        gret (Execute args (Some ApproveCall))))))
      | DenyCall \<Rightarrow>
          gbind (record_approval g c args Rejected src None) (\<lambda>_.
          gbind (record_decision g c args Denied (Some ''confirmation'') None) (\<lambda>_.
            gret (RefuseCall
              (case ta_message a of
                 Some m \<Rightarrow> ''Tool '' @ quoted (gc_tool_name c) @ '' was not run; the approver declined it: '' @ m
               | None \<Rightarrow> ''Tool '' @ quoted (gc_tool_name c) @ '' execution denied by confirmation policy'')
              (Some DenyCall)))))"

definition held_request :: "tool_gate \<Rightarrow> governed_call \<Rightarrow> json \<Rightarrow> confirmation_request" where
  "held_request g c args =
     \<lparr>cr_tool_name = gc_tool_name c, cr_function_call_id = Some (gc_function_call_id c), cr_args = args,
      cr_acting = Some (g_acting g), cr_origin = gc_origin c\<rparr>"

definition confirm_or_hold ::
    "tool_gate \<Rightarrow> readings \<Rightarrow> governed_call \<Rightarrow> json \<Rightarrow> string option \<Rightarrow> authorization gated" where
  "confirm_or_hold g rd c args why =
     gbind (resolve_confirmation g rd (held_request g c args)) (\<lambda>found.
       case found of
         Some (a, src) \<Rightarrow> decided_call g rd c args a src
       | None \<Rightarrow>
           (let reason = (case why of
                            Some r \<Rightarrow> ''Tool '' @ quoted (gc_tool_name c) @ '' requires confirmation: '' @ r
                          | None \<Rightarrow> ''Tool '' @ quoted (gc_tool_name c) @ '' requires confirmation'')
            in gbind (record_decision g c args ApprovalRequired
                        (if why \<noteq> None then policy_reference g else Some ''confirmation'') why) (\<lambda>_.
               gbind (record_held_call g rd (held_request g c args) reason) (\<lambda>_.
                 gret (Pending (held_request g c args) reason)))))"

definition authorize_screened ::
    "tool_gate \<Rightarrow> readings \<Rightarrow> governed_call \<Rightarrow> policy_decision \<Rightarrow> json \<Rightarrow> authorization gated" where
  "authorize_screened g rd c d args =
     (case d of
        Deny reason \<Rightarrow>
          gbind (record_decision g c args Denied (policy_reference g) (Some reason)) (\<lambda>_.
            gret (RefuseCall (''Tool '' @ quoted (gc_tool_name c) @ '' denied by policy: '' @ reason) None))
      | Allow \<Rightarrow>
          if gc_requires_confirmation c then confirm_or_hold g rd c args None
          else gbind (record_decision g c args Allowed (policy_reference g) None) (\<lambda>_. gret (Execute args None))
      | RequireApproval reason \<Rightarrow> confirm_or_hold g rd c args (Some reason))"

definition authorize_tool_call :: "tool_gate \<Rightarrow> readings \<Rightarrow> governed_call \<Rightarrow> authorization gated" where
  "authorize_tool_call g rd c s =
     (case rd_start rd of
        Inl e \<Rightarrow> frozen_stop g c (gc_args c) e s
      | Inr _ \<Rightarrow>
          (case Option.bind (gc_resumes c) (\<lambda>held. map_option (Pair held) (resume_mismatch held (g_acting g) (gc_origin c))) of
             Some (held, mismatch) \<Rightarrow>
               gbind (record_decision g c (gc_args c) Denied (Some ''confirmation'') (Some mismatch)) (\<lambda>_.
                 gret (RefuseCall (''Tool '' @ quoted (gc_tool_name c) @ '' was not run: '' @ mismatch
                   @ ''. Call it again if it is still needed; the new call needs its own approval.'') None))
                 (if g_has_store g
                  then s\<lparr>gs_store := snd (take_approval (rd_now_store rd) (g_scope g) (fingerprint (g_esc g) held) (gs_store s))\<rparr>
                  else s)
           | None \<Rightarrow>
               (case screen_args g c (gc_args c) (evaluate_policy g c (gc_args c)) of
                  Inl reason \<Rightarrow>
                    gbind (record_decision g c (gc_args c) Denied (Some ''guardrail'') None) (\<lambda>_.
                      gret (RefuseCall reason None)) s
                | Inr (d, args) \<Rightarrow> authorize_screened g rd c d args s)))"

end
