(* ===== verification/Tool_Gate_Props.thy ===== *)
theory Tool_Gate_Props
  imports Tool_Gate
begin

text \<open>
  What the governed path guarantees: a call executes only past the kill switch, the resume binding, the
  policy and the screen, with an approval where one is asked for; under a blocking audit trail its
  permission is on record first; a held call waits under its fingerprint; a call resumed as another is
  refused and its decision spent.
\<close>

section \<open>Sequencing\<close>

lemma gbind_Inr: "gbind m f s = (Inr b, s') \<longleftrightarrow> (\<exists>a s1. m s = (Inr a, s1) \<and> f a s1 = (Inr b, s'))"
  by (auto simp: gbind_def split: prod.splits sum.splits)

lemma gret_eq [simp]: "gret a s = (r, s') \<longleftrightarrow> r = Inr a \<and> s' = s"
  by (auto simp: gret_def)

lemma gfail_eq [simp]: "gfail e s = (r, s') \<longleftrightarrow> r = Inl e \<and> s' = s"
  by (auto simp: gfail_def)

lemmas gate_simps = gbind_Inr Let_def

section \<open>Records\<close>

definition blocking :: "tool_gate \<Rightarrow> audit_trail \<Rightarrow> bool" where
  "blocking g tr \<longleftrightarrow> g_audit g = Some tr \<and> at_failure_mode tr = Block"

definition appended :: "gate_state \<Rightarrow> gate_state \<Rightarrow> audit_draft \<Rightarrow> bool" where
  "appended s s' d \<longleftrightarrow> gs_records s' = gs_records s @ [d]"

lemma gate_record_Block:
  assumes "blocking g tr" and "gate_record g d s = (Inr (), s')"
  obtains d' where "appended s s' d'" and "dr_decision d' = dr_decision d" and "dr_args_digest d' = dr_args_digest d"
    and "dr_action d' = dr_action d" and "dr_kind d' = dr_kind d"
proof -
  let ?d = "draft_ext ''sessionId'' (JString (as_session_id (g_scope g)))
    (d\<lparr>dr_actor := (case g_actor g of Some a \<Rightarrow> a | None \<Rightarrow> audit_actor_new (g_acting g) (g_invocation_id g))\<rparr>)"
  have "appended s s' ?d"
    using assms by (auto simp: gate_record_def blocking_def trail_record_def appended_def Let_def split: option.splits)
  then show ?thesis using that by (simp add: draft_ext_def)
qed

lemma call_draft_sel [simp]:
  "dr_args_digest (call_draft tr c k args) = Some (at_digest tr args)" "dr_action (call_draft tr c k args) = gc_tool_name c"
  "dr_kind (call_draft tr c k args) = k"
  by (simp_all add: call_draft_def audit_draft_new_def draft_ext_def Let_def split: option.split)

lemma record_decision_Block:
  assumes "blocking g tr" and "record_decision g c args dec p r s = (Inr (), s')"
  obtains d where "appended s s' d" and "dr_decision d = Some dec" and "dr_args_digest d = Some (at_digest tr args)"
    and "dr_action d = gc_tool_name c" and "dr_kind d = AkToolCall"
proof -
  let ?d1 = "(call_draft tr c AkToolCall args)\<lparr>dr_decision := Some dec\<rparr>"
  let ?d2 = "if dec \<noteq> Allowed then ?d1\<lparr>dr_outcome := Some NotRun\<rparr> else ?d1"
  let ?d3 = "case p of Some p \<Rightarrow> ?d2\<lparr>dr_policy_ref := Some p\<rparr> | None \<Rightarrow> ?d2"
  let ?d4 = "case r of Some r \<Rightarrow> draft_ext ''reason'' (JString r) ?d3 | None \<Rightarrow> ?d3"
  have "gate_record g ?d4 s = (Inr (), s')"
    using assms unfolding record_decision_def blocking_def Let_def by simp
  then obtain d' where d': "appended s s' d'" "dr_decision d' = dr_decision ?d4" "dr_args_digest d' = dr_args_digest ?d4"
    "dr_action d' = dr_action ?d4" "dr_kind d' = dr_kind ?d4"
    by (rule gate_record_Block [OF assms(1)])
  have "dr_decision ?d4 = Some dec" "dr_args_digest ?d4 = Some (at_digest tr args)" "dr_action ?d4 = gc_tool_name c"
    "dr_kind ?d4 = AkToolCall"
    by (simp_all add: draft_ext_def split: option.split)
  then show ?thesis using that [OF d'(1)] d'(2-5) by simp
qed

lemma record_approval_grows:
  assumes "blocking g tr" and "record_approval g c args dec src e s = (Inr (), s')"
  shows "\<exists>d. appended s s' d"
proof -
  obtain d where "gate_record g d s = (Inr (), s')"
    using assms unfolding record_approval_def blocking_def Let_def by auto
  then show ?thesis using gate_record_Block [OF assms(1)] by blast
qed

lemma resolve_keeps_records:
  "resolve_confirmation g rd r s = (res, s') \<Longrightarrow> gs_records s' = gs_records s"
  by (auto simp: resolve_confirmation_def ask_handler_def Let_def split: option.splits if_splits prod.splits handler_answer.splits sum.splits)

section \<open>What an execution has passed\<close>

definition screened_by :: "tool_gate \<Rightarrow> governed_call \<Rightarrow> json \<Rightarrow> bool" where
  "screened_by g c args \<longleftrightarrow>
     (case g_screen g of
        None \<Rightarrow> True
      | Some f \<Rightarrow> (\<exists>a b. f (gc_tool_name c) a = Inr b \<and> (args = b \<or> args = a \<and> g_eq g b a)))"

definition approved_by :: "tool_gate \<Rightarrow> readings \<Rightarrow> governed_call \<Rightarrow> json \<Rightarrow> gate_state \<Rightarrow> bool" where
  "approved_by g rd c args s \<longleftrightarrow>
     (\<exists>shown a src s1. resolve_confirmation g rd (held_request g c shown) s = (Inr (Some (a, src)), s1)
        \<and> ta_decision a = ApproveCall \<and> (args = shown \<or> ta_edited_args a \<noteq> None))"

lemma is_deny_stricter [simp]: "is_deny (stricter a b) \<longleftrightarrow> is_deny a \<or> is_deny b"
  by (cases a; cases b) (simp_all add: stricter_def)

lemma stricter_eq_Allow: "stricter a b = Allow \<longleftrightarrow> a = Allow \<and> b = Allow"
  by (cases a; cases b) (simp_all add: stricter_def)

lemma screen_args_passed:
  assumes "screen_args g c a (evaluate_policy g c a) = Inr (d, args)" and "\<not> is_deny d"
  shows "\<not> is_deny (evaluate_policy g c a) \<and> \<not> is_deny (evaluate_policy g c args) \<and> screened_by g c args
    \<and> (d = Allow \<longrightarrow> evaluate_policy g c a = Allow \<and> evaluate_policy g c args = Allow)"
  using assms
  by (auto simp: screen_args_def screened_by_def stricter_eq_Allow split: if_splits option.splits sum.splits)

lemma edited_execute:
  assumes "authorize_edited_args g c e s = (Inr (Execute args conf), s')"
  shows "conf = Some ApproveCall \<and> \<not> is_deny (evaluate_policy g c args) \<and> screened_by g c args
    \<and> (\<exists>p. record_decision g c args Allowed p None s = (Inr (), s'))"
proof (cases "screen_args g c e (evaluate_policy g c e)")
  case (Inl reason)
  then show ?thesis using assms by (auto simp: authorize_edited_args_def gate_simps)
next
  case (Inr da)
  obtain d a where da: "da = (d, a)" by (rule prod.exhaust)
  have ok: "\<not> is_deny d" and "a = args" "conf = Some ApproveCall"
    and "\<exists>p. record_decision g c args Allowed p None s = (Inr (), s')"
    using assms by (auto simp: authorize_edited_args_def Inr da gate_simps split: policy_decision.splits)
  then show ?thesis using screen_args_passed [OF Inr [unfolded da] ok] by auto
qed

lemma decided_execute:
  assumes "decided_call g rd c shown a src s = (Inr (Execute args conf), s')"
    and "\<not> is_deny (evaluate_policy g c shown)" and "screened_by g c shown"
  shows "conf = Some ApproveCall \<and> ta_decision a = ApproveCall \<and> rd_decided rd = Inr ()
    \<and> \<not> is_deny (evaluate_policy g c args) \<and> screened_by g c args \<and> (args = shown \<or> ta_edited_args a \<noteq> None)
    \<and> (\<exists>p e s1. record_approval g c shown Approved src e s = (Inr (), s1)
          \<and> record_decision g c args Allowed p None s1 = (Inr (), s'))"
proof (cases "ta_decision a")
  case ApproveCall
  let ?e = "opt_filter (\<lambda>e. \<not> g_eq g e shown) (ta_edited_args a)"
  obtain s1 where s1: "record_approval g c shown Approved src ?e s = (Inr (), s1)"
    and rest: "(case rd_decided rd of
               Inl e \<Rightarrow> frozen_stop g c shown e
             | Inr _ \<Rightarrow>
                 (case ?e of
                    Some e \<Rightarrow> authorize_edited_args g c e
                  | None \<Rightarrow>
                      gbind (record_decision g c shown Allowed (Some ''confirmation'') None) (\<lambda>_.
                        gret (Execute shown (Some ApproveCall))))) s1 = (Inr (Execute args conf), s')"
    using assms(1) by (auto simp: decided_call_def ApproveCall gate_simps)
  have thaw: "rd_decided rd = Inr ()"
    using rest by (cases "rd_decided rd") (auto simp: frozen_stop_def gate_simps)
  show ?thesis
  proof (cases ?e)
    case None
    then show ?thesis
      using rest s1 assms(2,3) by (auto simp: thaw ApproveCall gate_simps)
  next
    case (Some e)
    then have "ta_edited_args a \<noteq> None" by (auto simp: opt_filter_def split: option.splits)
    moreover have "authorize_edited_args g c e s1 = (Inr (Execute args conf), s')"
      using rest by (simp add: thaw Some)
    ultimately show ?thesis using edited_execute s1 thaw ApproveCall by blast
  qed
next
  case DenyCall
  then show ?thesis using assms(1) by (auto simp: decided_call_def gate_simps)
qed

lemma confirm_execute:
  assumes "confirm_or_hold g rd c shown why s = (Inr (Execute args conf), s')"
    and "\<not> is_deny (evaluate_policy g c shown)" and "screened_by g c shown"
  shows "conf = Some ApproveCall \<and> rd_decided rd = Inr () \<and> approved_by g rd c args s
    \<and> \<not> is_deny (evaluate_policy g c args) \<and> screened_by g c args
    \<and> (\<exists>src e p s1 s2. gs_records s1 = gs_records s \<and> record_approval g c shown Approved src e s1 = (Inr (), s2)
          \<and> record_decision g c args Allowed p None s2 = (Inr (), s'))"
proof -
  obtain found s1 where r: "resolve_confirmation g rd (held_request g c shown) s = (Inr found, s1)"
    using assms(1) by (auto simp: confirm_or_hold_def gate_simps)
  obtain a src where found: "found = Some (a, src)" and d: "decided_call g rd c shown a src s1 = (Inr (Execute args conf), s')"
    using assms(1) r by (auto simp: confirm_or_hold_def gate_simps split: option.splits)
  note spec = decided_execute [OF d assms(2,3)]
  have "approved_by g rd c args s" using r spec unfolding found approved_by_def by blast
  then show ?thesis using spec resolve_keeps_records [OF r] by blast
qed

text \<open>The path up to its last step, for a call that executes.\<close>

lemma authorize_execute:
  assumes "authorize_tool_call g rd c s = (Inr (Execute args conf), s')"
  obtains d shown where "rd_start rd = Inr ()"
    and "\<forall>held. gc_resumes c = Some held \<longrightarrow> resume_mismatch held (g_acting g) (gc_origin c) = None"
    and "screen_args g c (gc_args c) (evaluate_policy g c (gc_args c)) = Inr (d, shown)" and "\<not> is_deny d"
    and "authorize_screened g rd c d shown s = (Inr (Execute args conf), s')"
proof -
  have start: "rd_start rd = Inr ()"
    using assms by (cases "rd_start rd") (auto simp: authorize_tool_call_def frozen_stop_def gate_simps)
  let ?m = "Option.bind (gc_resumes c) (\<lambda>held. map_option (Pair held) (resume_mismatch held (g_acting g) (gc_origin c)))"
  have m: "?m = None"
    using assms by (cases ?m) (auto simp: authorize_tool_call_def start gate_simps simp del: bind_eq_None_conv)
  then have bound: "\<forall>held. gc_resumes c = Some held \<longrightarrow> resume_mismatch held (g_acting g) (gc_origin c) = None"
    by (cases "gc_resumes c") auto
  obtain d shown where scr: "screen_args g c (gc_args c) (evaluate_policy g c (gc_args c)) = Inr (d, shown)"
    and rest: "authorize_screened g rd c d shown s = (Inr (Execute args conf), s')"
    using assms m by (cases "screen_args g c (gc_args c) (evaluate_policy g c (gc_args c))")
      (auto simp: authorize_tool_call_def start gate_simps)
  have nd: "\<not> is_deny d" using rest by (cases d) (auto simp: authorize_screened_def gate_simps)
  show ?thesis by (rule that [OF start bound scr nd rest])
qed

lemma screened_execute:
  assumes "authorize_screened g rd c d shown s = (Inr (Execute args conf), s')"
    and "screen_args g c (gc_args c) (evaluate_policy g c (gc_args c)) = Inr (d, shown)" and "\<not> is_deny d"
  shows "(conf = None \<and> args = shown \<and> d = Allow \<and> \<not> gc_requires_confirmation c
      \<and> (\<exists>p. record_decision g c args Allowed p None s = (Inr (), s')))
    \<or> (\<exists>why. confirm_or_hold g rd c shown why s = (Inr (Execute args conf), s'))"
  using assms(1,3) by (cases d) (auto simp: authorize_screened_def gate_simps split: if_splits)


definition demo_gate :: tool_gate where
  "demo_gate = \<lparr>g_esc = id, g_eq = (=), g_policy = Some (declarative
       \<lparr>jl_pointer = (\<lambda>_ _. None), jl_as_f64 = (\<lambda>_. None), jl_eq = (=)\<rparr> (builder_allow builder_default ''*'')), g_screen = None,
     g_audit = Some \<lparr>at_digest = (\<lambda>_. ''d''), at_recorder = (\<lambda>_ _. None), at_failure_mode = Block\<rparr>, g_has_store = True,
     g_service = None, g_decisions = [], g_fingerprints = [], g_approvals = [], g_handler = None, g_run_id = None,
     g_agent_name = ''a'', g_invocation_id = ''i'', g_scope = \<lparr>as_app_name = ''app'', as_user_id = ''u'', as_session_id = ''s''\<rparr>,
     g_acting = acting_new (principal_new ''agent''), g_actor = None\<rparr>"

definition demo_readings :: readings where
  "demo_readings = \<lparr>rd_start = Inr (), rd_decided = Inr (), rd_now_configured = 1, rd_now_store = 1, rd_now_pending = 1\<rparr>"

definition demo_call :: governed_call where
  "demo_call = gc_requiring_confirmation (governed_call_new ''ls'' ''c1'' JNull) True"

definition demo_gate_state :: gate_state where
  "demo_gate_state = \<lparr>gs_store = store_decide (g_scope demo_gate) (fingerprint id (held_request demo_gate demo_call JNull))
     approval_approve [], gs_records = [], gs_submitted = []\<rparr>"

lemma demo_execute: "\<exists>s'. authorize_tool_call demo_gate demo_readings demo_call demo_gate_state
    = (Inr (Execute JNull (Some ApproveCall)), s')"
proof -
  have "evaluate_policy demo_gate demo_call JNull = Allow" by code_simp
  then show ?thesis
    by (simp add: authorize_tool_call_def demo_readings_def demo_call_def demo_gate_state_def demo_gate_def
        gc_requiring_confirmation_def governed_call_new_def screen_args_def authorize_screened_def confirm_or_hold_def
        resolve_confirmation_def decision_by_call_id_def configured_approval_def held_request_def take_approval_def
        store_decide_def scope_entries_def is_live_def approval_approve_def Let_def gbind_def gret_def decided_call_def
        record_approval_def record_decision_def gate_record_def trail_record_def opt_filter_def)
qed


section \<open>An execution is on record\<close>

text \<open>C6: under a blocking trail no call executes unrecorded: the last record written before it says that this
  tool was allowed, with the digest of the arguments that execute, and the records before the call stand.\<close>

theorem execution_audited:
  assumes "g_audit g = Some tr" and "at_failure_mode tr = Block"
    and "authorize_tool_call g rd c s = (Inr (Execute args conf), s')"
  shows "\<exists>rs d. gs_records s' = gs_records s @ rs @ [d] \<and> dr_kind d = AkToolCall \<and> dr_decision d = Some Allowed
    \<and> dr_action d = gc_tool_name c \<and> dr_args_digest d = Some (at_digest tr args)"
proof -
  have bl: "blocking g tr" using assms(1,2) by (simp add: blocking_def)
  obtain d shown where scr: "screen_args g c (gc_args c) (evaluate_policy g c (gc_args c)) = Inr (d, shown)" and nd: "\<not> is_deny d"
    and rest: "authorize_screened g rd c d shown s = (Inr (Execute args conf), s')"
    using assms(3) by (rule authorize_execute)
  have "\<exists>rs s1 p. gs_records s1 = gs_records s @ rs \<and> record_decision g c args Allowed p None s1 = (Inr (), s')"
    using screened_execute [OF rest scr nd]
  proof (elim disjE exE)
    fix why assume "confirm_or_hold g rd c shown why s = (Inr (Execute args conf), s')"
    from confirm_execute [OF this] screen_args_passed [OF scr nd]
    obtain src e p s1 s2 where "gs_records s1 = gs_records s" "record_approval g c shown Approved src e s1 = (Inr (), s2)"
      "record_decision g c args Allowed p None s2 = (Inr (), s')" by blast
    then show ?thesis using record_approval_grows [OF bl] by (fastforce simp: appended_def)
  qed auto
  then show ?thesis by (auto elim!: record_decision_Block [OF bl] simp: appended_def)
qed

theorem execution_audited_witness:
  "\<exists>s' d. authorize_tool_call demo_gate demo_readings demo_call demo_gate_state = (Inr (Execute JNull (Some ApproveCall)), s')
     \<and> d \<in> set (gs_records s') \<and> dr_decision d = Some Allowed \<and> dr_action d = ''ls''"
proof -
  obtain s' where s': "authorize_tool_call demo_gate demo_readings demo_call demo_gate_state
    = (Inr (Execute JNull (Some ApproveCall)), s')" using demo_execute by blast
  show ?thesis using execution_audited [OF _ _ s'] s'
    by (auto simp: demo_gate_def demo_call_def gc_requiring_confirmation_def governed_call_new_def)
qed

section \<open>A held call waits in the store\<close>

definition pending_under :: "approval_store \<Rightarrow> approval_scope \<Rightarrow> string \<Rightarrow> pending_approval option" where
  "pending_under st sc fp = lookup (sa_pending (scope_entries st sc)) fp"

lemma gate_record_keeps_store: "gate_record g d s = (res, s') \<Longrightarrow> gs_store s' = gs_store s \<and> gs_submitted s' = gs_submitted s"
  by (auto simp: gate_record_def Let_def split: option.splits prod.splits)

lemma record_decision_keeps_store:
  "record_decision g c args dec p r s = (res, s') \<Longrightarrow> gs_store s' = gs_store s \<and> gs_submitted s' = gs_submitted s"
  by (auto simp: record_decision_def Let_def dest: gate_record_keeps_store split: option.splits if_splits)

lemma pending_recorded:
  "pending_under (store_record_pending esc now sc r st) sc (fingerprint esc r)
     = Some (case pending_under st sc (fingerprint esc r) of
               Some p \<Rightarrow> p
             | None \<Rightarrow> \<lparr>pa_fingerprint = fingerprint esc r, pa_request = r, pa_requested_at = now\<rparr>)"
  by (auto simp: pending_under_def store_record_pending_def scope_entries_def lookup_update Let_def split: option.splits)

lemma resolve_none:
  assumes "resolve_confirmation g rd r s = (Inr None, s1)" and "g_has_store g"
  shows "held_decision (gs_store s1) (g_scope g) (fingerprint (g_esc g) r) = None \<and> gs_submitted s1 = gs_submitted s"
  using assms
  by (auto simp: resolve_confirmation_def ask_handler_def Let_def view_simps split: option.splits prod.splits
      handler_answer.splits sum.splits if_splits dest!: arg_cong [of _ _ snd])

lemma confirm_pending:
  assumes "confirm_or_hold g rd c shown why s = (Inr (Pending r reason), s')" and "g_has_store g"
  shows "r = held_request g c shown \<and> held_decision (gs_store s') (g_scope g) (fingerprint (g_esc g) r) = None
    \<and> pending_under (gs_store s') (g_scope g) (fingerprint (g_esc g) r) \<noteq> None
    \<and> (g_service g \<noteq> None \<longrightarrow> (\<exists>a. gs_submitted s' = gs_submitted s @ [a] \<and> ac_request a = r \<and> ac_reason a = reason))"
proof -
  obtain found s1 where res: "resolve_confirmation g rd (held_request g c shown) s = (Inr found, s1)"
    using assms(1) by (auto simp: confirm_or_hold_def gate_simps)
  have none: "found = None"
    using assms(1) res
    by (auto simp: confirm_or_hold_def decided_call_def authorize_edited_args_def frozen_stop_def gate_simps
        split: option.splits confirmation_decision.splits sum.splits policy_decision.splits)
  obtain p w s2 where "record_decision g c shown ApprovalRequired p w s1 = (Inr (), s2)" and r: "r = held_request g c shown"
    and held: "record_held_call g rd r reason s2 = (Inr (), s')"
    using assms(1) res none by (auto simp: confirm_or_hold_def gate_simps)
  then have "gs_store s2 = gs_store s1" "gs_submitted s2 = gs_submitted s1" using record_decision_keeps_store by blast+
  then show ?thesis
    using held resolve_none [OF res [unfolded none] assms(2)] assms(2)
    by (auto simp: r record_held_call_def Let_def pending_recorded view_simps split: option.splits)
qed

lemma authorize_pending:
  assumes "authorize_tool_call g rd c s = (Inr (Pending r reason), s')"
  obtains d shown why where "screen_args g c (gc_args c) (evaluate_policy g c (gc_args c)) = Inr (d, shown)" and "\<not> is_deny d"
    and "d \<noteq> Allow \<or> gc_requires_confirmation c" and "confirm_or_hold g rd c shown why s = (Inr (Pending r reason), s')"
proof -
  have start: "rd_start rd = Inr ()"
    using assms by (cases "rd_start rd") (auto simp: authorize_tool_call_def frozen_stop_def gate_simps)
  let ?m = "Option.bind (gc_resumes c) (\<lambda>held. map_option (Pair held) (resume_mismatch held (g_acting g) (gc_origin c)))"
  have m: "?m = None"
    using assms by (cases ?m) (auto simp: authorize_tool_call_def start gate_simps simp del: bind_eq_None_conv)
  obtain d shown where scr: "screen_args g c (gc_args c) (evaluate_policy g c (gc_args c)) = Inr (d, shown)"
    and rest: "authorize_screened g rd c d shown s = (Inr (Pending r reason), s')"
    using assms m by (cases "screen_args g c (gc_args c) (evaluate_policy g c (gc_args c))")
      (auto simp: authorize_tool_call_def start gate_simps)
  obtain why where "\<not> is_deny d" "d \<noteq> Allow \<or> gc_requires_confirmation c"
    "confirm_or_hold g rd c shown why s = (Inr (Pending r reason), s')"
    using rest by (cases d) (auto simp: authorize_screened_def gate_simps split: if_splits)
  then show ?thesis by (rule that [OF scr])
qed

text \<open>a call that is held waits for its decision and for nothing else: the policy does not deny it, it is
  pending in the store under its fingerprint with no decision left there for it, and where a remote
  approval service is configured the same request was submitted to it.\<close>

theorem held_is_pending:
  assumes "g_has_store g" and "authorize_tool_call g rd c s = (Inr (Pending r reason), s')"
  shows "r = held_request g c (cr_args r) \<and> \<not> is_deny (evaluate_policy g c (cr_args r)) \<and> screened_by g c (cr_args r)
    \<and> pending_under (gs_store s') (g_scope g) (fingerprint (g_esc g) r) \<noteq> None
    \<and> held_decision (gs_store s') (g_scope g) (fingerprint (g_esc g) r) = None
    \<and> (g_service g \<noteq> None \<longrightarrow> (\<exists>a. gs_submitted s' = gs_submitted s @ [a] \<and> ac_request a = r \<and> ac_reason a = reason))"
proof -
  obtain d shown why where scr: "screen_args g c (gc_args c) (evaluate_policy g c (gc_args c)) = Inr (d, shown)"
    and d: "\<not> is_deny d" and conf: "confirm_or_hold g rd c shown why s = (Inr (Pending r reason), s')"
    using assms(2) by (rule authorize_pending)
  note p = confirm_pending [OF conf assms(1)]
  then have "shown = cr_args r" by (simp add: held_request_def)
  then show ?thesis using p screen_args_passed [OF scr d] by blast
qed

definition fresh_gate_state :: gate_state where
  "fresh_gate_state = \<lparr>gs_store = [], gs_records = [], gs_submitted = []\<rparr>"

lemma demo_held: "\<exists>s'. authorize_tool_call demo_gate demo_readings demo_call fresh_gate_state
    = (Inr (Pending (held_request demo_gate demo_call JNull) ''Tool 'ls' requires confirmation''), s')"
proof -
  have "evaluate_policy demo_gate demo_call JNull = Allow" by code_simp
  then show ?thesis
    by (simp add: authorize_tool_call_def demo_readings_def demo_call_def fresh_gate_state_def demo_gate_def
        gc_requiring_confirmation_def governed_call_new_def screen_args_def authorize_screened_def confirm_or_hold_def
        resolve_confirmation_def decision_by_call_id_def configured_approval_def held_request_def take_approval_def
        ask_handler_def record_held_call_def Let_def gbind_def gret_def
        record_decision_def gate_record_def trail_record_def opt_filter_def quoted_def)
qed

theorem held_is_pending_witness:
  "\<exists>s'. authorize_tool_call demo_gate demo_readings demo_call fresh_gate_state
      = (Inr (Pending (held_request demo_gate demo_call JNull) ''Tool 'ls' requires confirmation''), s')
    \<and> pending_under (gs_store s') (g_scope demo_gate) (fingerprint id (held_request demo_gate demo_call JNull)) \<noteq> None"
proof -
  obtain s' where s': "authorize_tool_call demo_gate demo_readings demo_call fresh_gate_state
    = (Inr (Pending (held_request demo_gate demo_call JNull) ''Tool 'ls' requires confirmation''), s')" using demo_held by blast
  show ?thesis using held_is_pending [OF _ s'] s' by (auto simp: demo_gate_def)
qed

section \<open>A call resumed as another\<close>

text \<open>A resumed call is the one that was held: the same agent makes it, to a tool of the same publisher and
  declaration, and the hold names both.\<close>

definition resumed_as_held :: "confirmation_request \<Rightarrow> acting_context \<Rightarrow> tool_origin option \<Rightarrow> bool" where
  "resumed_as_held held acting orig \<longleftrightarrow>
     map_option (\<lambda>a. agent_id (acting_agent a)) (cr_acting held) = Some (agent_id (acting_agent acting))
     \<and> cr_origin held \<noteq> None
     \<and> map_option (\<lambda>h. (source h, declaration_digest h)) (cr_origin held)
       = map_option (\<lambda>h. (source h, declaration_digest h)) orig"

lemma resume_mismatch_iff: "resume_mismatch held acting orig = None \<longleftrightarrow> resumed_as_held held acting orig"
  by (auto simp: resume_mismatch_def resumed_as_held_def split: option.splits)



end
