(* ===== verification/Audit_Store.thy ===== *)
theory Audit_Store
  imports Audit_Record
begin

text \<open>
  \<^verbatim>\<open>InMemoryAuditLogStore\<close> (\<^verbatim>\<open>adk-core/src/audit_log.rs\<close>): append-only logs with the hashes of their tree's
  nodes and their checkpoints. Every backend checks a batch with \<open>validate_append\<close> and a checkpoint with
  \<open>validate_checkpoint\<close> inside its transaction.
\<close>

section \<open>Errors\<close>

definition audit_error :: "error_category \<Rightarrow> string \<Rightarrow> string \<Rightarrow> adk_error" where
  "audit_error cat cd msg = adk_error_new Auth cat cd msg"

definition seq_conflict_error :: "string \<Rightarrow> nat \<Rightarrow> nat \<Rightarrow> adk_error" where
  "seq_conflict_error log_id expected got =
     audit_error Conflict ''audit_log.seq_conflict''
       (''audit log '' @ quoted log_id @ '' has '' @ show_nat expected @ '' records but the append starts at '' @ show_nat got
        @ ''. Another writer is using this log_id; give each replica its own log_id'')"

definition out_of_range_error :: "string \<Rightarrow> nat \<Rightarrow> nat \<Rightarrow> adk_error" where
  "out_of_range_error log_id n requested =
     audit_error NotFound ''audit_log.out_of_range''
       (''audit log '' @ quoted log_id @ '' has '' @ show_nat n @ '' records; position '' @ show_nat requested @ '' is past its end'')"

definition checkpoint_conflict_error :: "string \<Rightarrow> nat \<Rightarrow> adk_error" where
  "checkpoint_conflict_error log_id n =
     audit_error Conflict ''audit_log.checkpoint_conflict''
       (''audit log '' @ quoted log_id @ '' already has a checkpoint at size '' @ show_nat n
        @ '' with a different root; the log has forked and must be investigated before it is checkpointed again'')"

definition invalid_batch :: "string \<Rightarrow> string \<Rightarrow> adk_error" where
  "invalid_batch log_id reason =
     audit_error InvalidInput ''audit_log.invalid_batch'' (''audit log '' @ quoted log_id @ '': '' @ reason)"

section \<open>What an append and a checkpoint must satisfy\<close>

text \<open>The loop over the entries, at offset \<open>seq\<close> of the log: the reason of the first bad one.\<close>

fun entries_fault :: "nat \<Rightarrow> audit_entry list \<Rightarrow> string option" where
  "entries_fault seq [] = None"
| "entries_fault seq (e # es) =
     (if en_seq e \<noteq> seq then Some ''entry sequence numbers are not contiguous''
      else if en_record e = None then Some ''an appended entry has no record''
      else entries_fault (seq + 1) es)"

text \<open>\<^verbatim>\<open>checked_add\<close> fails past 64 bits; \<^verbatim>\<open>checked_shl\<close> checks the shift amount only and drops the high bits.\<close>

definition node_end :: "tree_node \<Rightarrow> nat option" where
  "node_end n =
     (if tn_index n + 1 < 2 ^ 64 \<and> tn_level n < 64 \<and> 1 \<le> tn_level n
      then Some ((tn_index n + 1) * 2 ^ tn_level n mod 2 ^ 64) else None)"

definition node_covered :: "nat \<Rightarrow> nat \<Rightarrow> tree_node \<Rightarrow> bool" where
  "node_covered n e t = (case node_end t of Some x \<Rightarrow> x \<le> e \<and> n < x | None \<Rightarrow> False)"

definition validate_append :: "audit_append \<Rightarrow> nat \<Rightarrow> (nat \<times> nat) result" where
  "validate_append b n =
     (case ap_entries b of
        [] \<Rightarrow> Inl (invalid_batch (ap_log_id b) ''the batch has no entries'')
      | first # _ \<Rightarrow>
          if en_seq first \<noteq> n then Inl (seq_conflict_error (ap_log_id b) n (en_seq first))
          else case entries_fault n (ap_entries b) of
            Some reason \<Rightarrow> Inl (invalid_batch (ap_log_id b) reason)
          | None \<Rightarrow>
              if list_all (node_covered n (n + length (ap_entries b))) (ap_nodes b)
              then Inr (n, n + length (ap_entries b))
              else Inl (invalid_batch (ap_log_id b) ''a tree node is not completed by the appended entries''))"

definition validate_checkpoint :: "audit_checkpoint \<Rightarrow> nat \<Rightarrow> audit_hash option \<Rightarrow> bool result" where
  "validate_checkpoint c n existing =
     (if n < cp_size c then Inl (out_of_range_error (cp_log_id c) n (cp_size c))
      else case existing of
        Some root \<Rightarrow> if root \<noteq> cp_root_hash c then Inl (checkpoint_conflict_error (cp_log_id c) (cp_size c)) else Inr True
      | None \<Rightarrow> Inr False)"

section \<open>The store\<close>

record memory_log =
  ml_entries :: "audit_entry list"
  ml_nodes :: "(nat \<times> nat, audit_hash) table"
  ml_checkpoints :: "(nat, audit_checkpoint) table"

definition memory_log_default :: memory_log where
  "memory_log_default = \<lparr>ml_entries = [], ml_nodes = [], ml_checkpoints = []\<rparr>"

type_synonym audit_store = "(string, memory_log) table"

definition log_of :: "audit_store \<Rightarrow> string \<Rightarrow> memory_log" where
  "log_of st i = (case lookup st i of Some l \<Rightarrow> l | None \<Rightarrow> memory_log_default)"

definition store_size :: "string \<Rightarrow> audit_store \<Rightarrow> nat" where
  "store_size i st = (case lookup st i of Some l \<Rightarrow> length (ml_entries l) | None \<Rightarrow> 0)"

definition store_append :: "audit_append \<Rightarrow> audit_store \<Rightarrow> (nat \<times> nat) result \<times> audit_store" where
  "store_append b st =
     (case validate_append b (store_size (ap_log_id b) st) of
        Inl e \<Rightarrow> (Inl e, st)
      | Inr r \<Rightarrow>
          (let l = log_of st (ap_log_id b) in
           (Inr r, AList.update (ap_log_id b)
              (l\<lparr>ml_entries := ml_entries l @ ap_entries b,
                 ml_nodes := fold (\<lambda>n. AList.update (tn_level n, tn_index n) (tn_hash n)) (ap_nodes b) (ml_nodes l)\<rparr>) st)))"

definition store_read :: "string \<Rightarrow> nat \<Rightarrow> nat \<Rightarrow> audit_store \<Rightarrow> audit_entry list result" where
  "store_read i s e st =
     (let entries = ml_entries (log_of st i) in
      if length entries < e then Inl (out_of_range_error i (length entries) e)
      else if e \<le> s then Inr []
      else Inr (take (e - s) (drop s entries)))"

definition hash_at :: "string \<Rightarrow> nat \<Rightarrow> nat \<Rightarrow> audit_store \<Rightarrow> audit_hash option" where
  "hash_at i level index st =
     (case lookup st i of
        None \<Rightarrow> None
      | Some l \<Rightarrow>
          if level = 0 then (if index < length (ml_entries l) then Some (en_leaf_hash (ml_entries l ! index)) else None)
          else lookup (ml_nodes l) (level, index))"

definition put_checkpoint :: "audit_checkpoint \<Rightarrow> audit_store \<Rightarrow> unit result \<times> audit_store" where
  "put_checkpoint c st =
     (let l = log_of st (cp_log_id c) in
      case validate_checkpoint c (store_size (cp_log_id c) st) (map_option cp_root_hash (lookup (ml_checkpoints l) (cp_size c))) of
        Inl e \<Rightarrow> (Inl e, st)
      | Inr _ \<Rightarrow> (Inr (), AList.update (cp_log_id c) (l\<lparr>ml_checkpoints := AList.update (cp_size c) c (ml_checkpoints l)\<rparr>) st))"

definition store_checkpoints :: "string \<Rightarrow> audit_store \<Rightarrow> audit_checkpoint list" where
  "store_checkpoints i st = map snd (sort_key fst (ml_checkpoints (log_of st i)))"

definition latest_checkpoint :: "string \<Rightarrow> audit_store \<Rightarrow> audit_checkpoint option" where
  "latest_checkpoint i st = (let cs = store_checkpoints i st in if cs = [] then None else Some (last cs))"

definition store_prune :: "string \<Rightarrow> nat \<Rightarrow> audit_store \<Rightarrow> nat result \<times> audit_store" where
  "store_prune i before st =
     (if store_size i st < before then (Inl (out_of_range_error i (store_size i st) before), st)
      else case lookup st i of
        None \<Rightarrow> (Inr 0, st)
      | Some l \<Rightarrow>
          (Inr (length (filter (\<lambda>e. en_record e \<noteq> None) (take before (ml_entries l)))),
           AList.update i (l\<lparr>ml_entries :=
             map (\<lambda>e. e\<lparr>en_record := None\<rparr>) (take before (ml_entries l)) @ drop before (ml_entries l)\<rparr>) st))"

definition store_logs :: "audit_store \<Rightarrow> string list" where
  "store_logs st = sort (keys st)"

section \<open>What a log keeps\<close>

definition leaf_hashes :: "audit_store \<Rightarrow> string \<Rightarrow> audit_hash list" where
  "leaf_hashes st i = map en_leaf_hash (ml_entries (log_of st i))"

definition checkpoint_at :: "audit_store \<Rightarrow> string \<Rightarrow> nat \<Rightarrow> audit_checkpoint option" where
  "checkpoint_at st i n = lookup (ml_checkpoints (log_of st i)) n"

lemma store_size_log: "store_size i st = length (ml_entries (log_of st i))"
  by (simp add: store_size_def log_of_def memory_log_default_def split: option.split)

lemma log_of_update [simp]: "log_of (AList.update i l st) j = (if j = i then l else log_of st j)"
  by (simp add: log_of_def)

lemma store_append_eq:
  assumes "store_append b st = (Inr r, st')"
  shows "log_of st' j = (if j = ap_log_id b
    then (log_of st j)\<lparr>ml_entries := ml_entries (log_of st j) @ ap_entries b,
       ml_nodes := fold (\<lambda>n. AList.update (tn_level n, tn_index n) (tn_hash n)) (ap_nodes b) (ml_nodes (log_of st j))\<rparr>
    else log_of st j)"
  using assms by (auto simp: store_append_def Let_def split: sum.splits)

text \<open>The operations by which a log changes.\<close>

datatype log_op = LgAppend audit_append | LgCheckpoint audit_checkpoint | LgPrune string nat

fun log_exec :: "log_op \<Rightarrow> audit_store \<Rightarrow> audit_store" where
  "log_exec (LgAppend b) st = snd (store_append b st)"
| "log_exec (LgCheckpoint c) st = snd (put_checkpoint c st)"
| "log_exec (LgPrune i n) st = snd (store_prune i n st)"

lemma leaf_hashes_step [view_simps]: "\<exists>more. leaf_hashes (log_exec op st) i = leaf_hashes st i @ more"
proof (cases op)
  case (LgAppend b)
  show ?thesis
  proof (cases "store_append b st")
    case (Pair r st')
    then show ?thesis using store_append_eq [of b st _ st' i] LgAppend
      by (cases r) (auto simp: leaf_hashes_def store_append_def Let_def split: sum.splits)
  qed
next
  case (LgCheckpoint c)
  then show ?thesis by (auto simp: leaf_hashes_def put_checkpoint_def Let_def split: sum.split)
next
  case (LgPrune j n)
  have "map en_leaf_hash (map (\<lambda>e. e\<lparr>en_record := None\<rparr>) (take n es) @ drop n es) = map en_leaf_hash es" for es :: "audit_entry list"
    by (simp add: o_def) (metis append_take_drop_id map_append)
  then show ?thesis using LgPrune
    by (auto simp: leaf_hashes_def store_prune_def log_of_def split: option.split)
qed

lemma leaf_hashes_fold: "\<exists>more. leaf_hashes (fold log_exec ops st) i = leaf_hashes st i @ more"
proof (induction ops arbitrary: st)
  case (Cons op ops)
  then show ?case using leaf_hashes_step [of op st i] by (metis append.assoc fold_simps(2))
qed simp

text \<open>a log is append-only: whatever appends, checkpoints and prunes run on the store, in any order and by any
  writers, the leaf hashes a log had stay its first leaf hashes.\<close>

theorem log_append_only:
  "take (store_size i st) (leaf_hashes (fold log_exec ops st) i) = leaf_hashes st i"
  using leaf_hashes_fold [of ops st i] by (auto simp: leaf_hashes_def store_size_log)

lemma checkpoint_step:
  assumes "checkpoint_at st i n = Some c"
  shows "\<exists>c'. checkpoint_at (log_exec op st) i n = Some c' \<and> cp_root_hash c' = cp_root_hash c"
proof (cases op)
  case (LgAppend b)
  then show ?thesis using assms by (cases "store_append b st"; cases "fst (store_append b st)")
    (auto simp: checkpoint_at_def store_append_def Let_def split: sum.splits)
next
  case (LgCheckpoint d)
  then show ?thesis using assms
    by (auto simp: checkpoint_at_def put_checkpoint_def validate_checkpoint_def Let_def split: sum.splits option.splits if_splits)
next
  case (LgPrune j m)
  then show ?thesis using assms
    by (auto simp: checkpoint_at_def store_prune_def log_of_def split: option.splits)
qed

lemma checkpoint_fold:
  "checkpoint_at st i n = Some c \<Longrightarrow> \<exists>c'. checkpoint_at (fold log_exec ops st) i n = Some c' \<and> cp_root_hash c' = cp_root_hash c"
proof (induction ops arbitrary: st c)
  case (Cons op ops)
  then show ?case using checkpoint_step [OF Cons.prems, of op] by fastforce
qed simp

text \<open>a log never equivocates: once a checkpoint of some size is stored, every later checkpoint the store accepts
  at that size, after any operations, has the same root, and none claims records the log does not hold.\<close>

theorem no_equivocation:
  assumes "put_checkpoint c st = (Inr (), st')" and "put_checkpoint c' (fold log_exec ops st') = (Inr (), st'')"
    and "cp_log_id c' = cp_log_id c" and "cp_size c' = cp_size c"
  shows "cp_root_hash c' = cp_root_hash c \<and> cp_size c \<le> store_size (cp_log_id c) st"
proof -
  have c: "checkpoint_at st' (cp_log_id c) (cp_size c) = Some c" "cp_size c \<le> store_size (cp_log_id c) st"
    using assms(1) by (auto simp: put_checkpoint_def checkpoint_at_def validate_checkpoint_def Let_def
        split: sum.splits if_splits option.splits)
  obtain d where "checkpoint_at (fold log_exec ops st') (cp_log_id c) (cp_size c) = Some d" "cp_root_hash d = cp_root_hash c"
    using checkpoint_fold [OF c(1)] by blast
  then have "cp_root_hash c' = cp_root_hash c" using assms(2-4)
    by (auto simp: put_checkpoint_def checkpoint_at_def validate_checkpoint_def Let_def split: sum.splits if_splits option.splits)
  then show ?thesis using c(2) by simp
qed

definition demo_checkpoint :: "audit_hash \<Rightarrow> audit_checkpoint" where
  "demo_checkpoint r = \<lparr>cp_log_id = ''l'', cp_size = 0, cp_root_hash = r, cp_note = ''n'', cp_created_at = 1\<rparr>"

theorem no_equivocation_witness:
  "\<exists>st st'. put_checkpoint (demo_checkpoint 7) [] = (Inr (), st)
     \<and> put_checkpoint (demo_checkpoint 7) (fold log_exec [LgPrune ''l'' 0] st) = (Inr (), st')
     \<and> cp_root_hash (demo_checkpoint 7) = 7 \<and> 0 \<le> store_size ''l'' []"
proof -
  let ?st = "snd (put_checkpoint (demo_checkpoint 7) [])"
  have a: "put_checkpoint (demo_checkpoint 7) [] = (Inr (), ?st)" by code_simp
  have b: "put_checkpoint (demo_checkpoint 7) (fold log_exec [LgPrune ''l'' 0] ?st)
      = (Inr (), snd (put_checkpoint (demo_checkpoint 7) (fold log_exec [LgPrune ''l'' 0] ?st)))" by code_simp
  have "cp_log_id (demo_checkpoint 7) = ''l'' \<and> cp_root_hash (demo_checkpoint 7) = 7" by (simp add: demo_checkpoint_def)
  then show ?thesis using no_equivocation [OF a b refl refl] a b by blast
qed

text \<open>A second writer at the size a batch took is refused.\<close>

lemma fork_refused:
  assumes "store_append b st = (Inr r, st')" and "ap_log_id b' = ap_log_id b" and "en_seq (hd (ap_entries b')) = store_size (ap_log_id b) st"
    and "ap_entries b' \<noteq> []"
  shows "fst (store_append b' st') = Inl (seq_conflict_error (ap_log_id b) (store_size (ap_log_id b) st') (store_size (ap_log_id b) st))"
proof -
  have "ap_entries b \<noteq> []" using assms(1) by (auto simp: store_append_def validate_append_def split: list.splits)
  then have "store_size (ap_log_id b) st' \<noteq> store_size (ap_log_id b) st"
    using store_append_eq [OF assms(1)] by (simp add: store_size_log)
  then show ?thesis using assms(2-4)
    by (cases "ap_entries b'") (auto simp: store_append_def validate_append_def)
qed

text \<open>The doc promises that a node outside the appended range is refused; one whose shift loses its high bits is not.\<close>

lemma wrapped_node_accepted:
  "fst (store_append \<lparr>ap_log_id = ''l'', ap_entries = [\<lparr>en_seq = 0, en_leaf_hash = 1, en_record = Some ''{}''\<rparr>,
      \<lparr>en_seq = 1, en_leaf_hash = 1, en_record = Some ''{}''\<rparr>],
      ap_nodes = [\<lparr>tn_level = 1, tn_index = 2 ^ 63, tn_hash = 5\<rparr>]\<rparr> []) = Inr (0, 2)"
  by (simp add: store_append_def validate_append_def store_size_def node_covered_def node_end_def Let_def)

end
