(* ===== verification/Signed_Note.thy ===== *)
theory Signed_Note
  imports Audit_Record Glob
begin

text \<open>
  Signed notes and checkpoint bodies (\<^verbatim>\<open>adk-auth/src/signed_audit/note.rs\<close>). Base64 and the signature scheme
  are external, in the record \<open>note_lib\<close>.
\<close>

section \<open>Text\<close>

text \<open>\<^verbatim>\<open>char::is_whitespace\<close> on the bytes of a character.\<close>

definition is_whitespace :: "string \<Rightarrow> bool" where
  "is_whitespace c \<longleftrightarrow>
     (let bs = map of_char c :: nat list in
      (case bs of
         [b] \<Rightarrow> 9 \<le> b \<and> b \<le> 13 \<or> b = 32
       | [b1, b2] \<Rightarrow> b1 = 0xC2 \<and> (b2 = 0x85 \<or> b2 = 0xA0)
       | [b1, b2, b3] \<Rightarrow>
           b1 = 0xE1 \<and> b2 = 0x9A \<and> b3 = 0x80
           \<or> b1 = 0xE2 \<and> b2 = 0x80 \<and> (0x80 \<le> b3 \<and> b3 \<le> 0x8A \<or> b3 = 0xA8 \<or> b3 = 0xA9 \<or> b3 = 0xAF)
           \<or> b1 = 0xE2 \<and> b2 = 0x81 \<and> b3 = 0x9F
           \<or> b1 = 0xE3 \<and> b2 = 0x80 \<and> b3 = 0x80
       | _ \<Rightarrow> False))"

definition trim_text :: "string \<Rightarrow> string" where
  "trim_text s = concat (rev (dropWhile is_whitespace (rev (dropWhile is_whitespace (utf8_chars s)))))"

definition newline :: char where
  "newline = CHR 0x0A"

text \<open>\<^verbatim>\<open>str::lines\<close>: a line ends at a newline, which takes a carriage return before it along; a last line
  without one counts when it is not empty.\<close>

definition chomp :: "string \<Rightarrow> string" where
  "chomp l = (if l \<noteq> [] \<and> last l = CHR 0x0D then butlast l else l)"

fun text_lines :: "string \<Rightarrow> string \<Rightarrow> string list" where
  "text_lines acc [] = (if acc = [] then [] else [rev acc])"
| "text_lines acc (c # cs) = (if c = newline then chomp (rev acc) # text_lines [] cs else text_lines (c # acc) cs)"

text \<open>\<^verbatim>\<open>split_once\<close> and \<^verbatim>\<open>rfind("\\n\\n")\<close>: the parts before and after the separator.\<close>

definition split_once :: "char \<Rightarrow> string \<Rightarrow> (string \<times> string) option" where
  "split_once sep s = (case dropWhile (\<lambda>c. c \<noteq> sep) s of [] \<Rightarrow> None | _ # after \<Rightarrow> Some (takeWhile (\<lambda>c. c \<noteq> sep) s, after))"

fun split_blank_line :: "string \<Rightarrow> (string \<times> string) option" where
  "split_blank_line [] = None"
| "split_blank_line (c # cs) =
     (case split_blank_line cs of
        Some (before, after) \<Rightarrow> Some (c # before, after)
      | None \<Rightarrow> if c = newline \<and> cs \<noteq> [] \<and> hd cs = newline then Some ([], tl cs) else None)"

text \<open>Whether a text has a blank line in it: \<^verbatim>\<open>text.contains("\\n\\n")\<close>.\<close>

definition has_blank_line :: "string \<Rightarrow> bool" where
  "has_blank_line s \<longleftrightarrow> split_blank_line s \<noteq> None"

fun read_digits :: "nat \<Rightarrow> string \<Rightarrow> nat option" where
  "read_digits acc [] = Some acc"
| "read_digits acc (c # cs) =
     (let n = of_char c :: nat in if 48 \<le> n \<and> n \<le> 57 then read_digits (10 * acc + (n - 48)) cs else None)"

text \<open>\<^verbatim>\<open>parse::<u64>()\<close> on a text already known to be digits.\<close>

definition parse_u64 :: "string \<Rightarrow> nat option" where
  "parse_u64 s = (if s = [] then None else case read_digits 0 s of Some n \<Rightarrow> if n < 2 ^ 64 then Some n else None | None \<Rightarrow> None)"

section \<open>Keys and verifiers\<close>

datatype note_error = InvalidKey string | Malformed string | Signing string

record note_lib =
  b64_encode :: "byte list \<Rightarrow> string"
  b64_decode :: "string \<Rightarrow> string + byte list"
  ed25519_verify :: "byte list \<Rightarrow> byte list \<Rightarrow> byte list \<Rightarrow> bool"

definition alg_ed25519 :: byte where
  "alg_ed25519 = 1"

definition valid_name :: "string \<Rightarrow> bool" where
  "valid_name name \<longleftrightarrow> name \<noteq> [] \<and> CHR ''+'' \<notin> set name \<and> list_all (\<lambda>c. \<not> is_whitespace c) (utf8_chars name)"

definition be_u32 :: "byte list \<Rightarrow> 32 word" where
  "be_u32 bs = word_rcat (take 4 bs)"

definition u32_bytes :: "32 word \<Rightarrow> byte list" where
  "u32_bytes w = map (\<lambda>i. ucast (drop_bit (8 * (3 - i)) w)) [0..<4]"

definition key_hash :: "sha256 \<Rightarrow> string \<Rightarrow> byte list \<Rightarrow> 32 word" where
  "key_hash sha name key = be_u32 (hash_bytes (sha (text_bytes name @ 10 # key)))"

record note_verifier =
  nv_name :: string
  nv_key_hash :: "32 word"
  nv_public_key :: "byte list"

definition verifier_from_public_key :: "sha256 \<Rightarrow> string \<Rightarrow> byte list \<Rightarrow> note_error + note_verifier" where
  "verifier_from_public_key sha name key =
     (if \<not> valid_name name then Inl (InvalidKey (''invalid key name '' @ quoted name))
      else if length key \<noteq> 32 then Inl (InvalidKey ''ed25519 public key must be 32 bytes'')
      else Inr \<lparr>nv_name = name, nv_key_hash = key_hash sha name (alg_ed25519 # key), nv_public_key = key\<rparr>)"

definition verifier_verify :: "note_lib \<Rightarrow> note_verifier \<Rightarrow> byte list \<Rightarrow> byte list \<Rightarrow> bool" where
  "verifier_verify nl v msg sig = ed25519_verify nl (nv_public_key v) msg sig"

definition hex8 :: "32 word \<Rightarrow> string" where
  "hex8 w = hex_digits 8 (unat w)"

definition verifier_text :: "note_lib \<Rightarrow> note_verifier \<Rightarrow> string" where
  "verifier_text nl v = nv_name v @ ''+'' @ hex8 (nv_key_hash v) @ ''+'' @ b64_encode nl (alg_ed25519 # nv_public_key v)"

text \<open>\<^verbatim>\<open>u32::from_str_radix(hash, 16)\<close> on eight characters none of which is a plus sign.\<close>

fun hex_any_value :: "char \<Rightarrow> nat option" where
  "hex_any_value c =
     (let n = of_char c :: nat in
      if 48 \<le> n \<and> n \<le> 57 then Some (n - 48)
      else if 97 \<le> n \<and> n \<le> 102 then Some (n - 87)
      else if 65 \<le> n \<and> n \<le> 70 then Some (n - 55)
      else None)"

fun read_hex :: "nat \<Rightarrow> string \<Rightarrow> nat option" where
  "read_hex acc [] = Some acc"
| "read_hex acc (c # cs) = (case hex_any_value c of Some d \<Rightarrow> read_hex (16 * acc + d) cs | None \<Rightarrow> None)"

definition split_key :: "string \<Rightarrow> note_error + (string \<times> 32 word \<times> string)" where
  "split_key text =
     (case split_once CHR ''+'' text of
        None \<Rightarrow> Inl (InvalidKey ''expected <name>+<hash>+<key>'')
      | Some (name, rest) \<Rightarrow>
          (case split_once CHR ''+'' rest of
             None \<Rightarrow> Inl (InvalidKey ''expected <name>+<hash>+<key>'')
           | Some (hash, encoded) \<Rightarrow>
               if \<not> valid_name name then Inl (InvalidKey (''invalid key name '' @ quoted name))
               else if length hash \<noteq> 8 then Inl (InvalidKey ''key hash must be 8 hex digits'')
               else case read_hex 0 hash of
                 Some h \<Rightarrow> Inr (name, word_of_nat h, encoded)
               | None \<Rightarrow> Inl (InvalidKey ''key hash must be 8 hex digits'')))"

definition verifier_parse :: "sha256 \<Rightarrow> note_lib \<Rightarrow> string \<Rightarrow> note_error + note_verifier" where
  "verifier_parse sha nl text =
     result_bind (split_key (trim_text text)) (\<lambda>(name, hash, encoded).
       case b64_decode nl encoded of
         Inl e \<Rightarrow> Inl (InvalidKey (''bad base64: '' @ e))
       | Inr [] \<Rightarrow> Inl (InvalidKey ''verifier key is empty'')
       | Inr (alg # key) \<Rightarrow>
           if alg \<noteq> alg_ed25519 then Inl (InvalidKey (''unsupported algorithm '' @ show_nat (unat alg)))
           else result_bind (verifier_from_public_key sha name key) (\<lambda>v.
             if nv_key_hash v \<noteq> hash then Inl (InvalidKey ''key hash does not match the key'') else Inr v))"

section \<open>Notes\<close>

record note_signature =
  ns_name :: string
  ns_key_hash :: "32 word"
  ns_signature :: "byte list"

record signed_note =
  nt_text :: string
  nt_signatures :: "note_signature list"

definition signature_prefix :: string where
  "signature_prefix = [CHR 0xE2, CHR 0x80, CHR 0x94, CHR '' '']"

definition parse_signature :: "note_lib \<Rightarrow> string \<Rightarrow> note_error + note_signature" where
  "parse_signature nl line =
     (if take 4 line \<noteq> signature_prefix then Inl (Malformed ''signature line must start with a dash'')
      else case split_once CHR '' '' (drop 4 line) of
        None \<Rightarrow> Inl (Malformed ''signature line needs a name and a value'')
      | Some (name, encoded) \<Rightarrow>
          if \<not> valid_name name then Inl (Malformed (''invalid signer name '' @ quoted name))
          else case b64_decode nl encoded of
            Inl e \<Rightarrow> Inl (Malformed (''bad signature base64: '' @ e))
          | Inr decoded \<Rightarrow>
              if length decoded < 5 then Inl (Malformed ''signature is too short'')
              else Inr \<lparr>ns_name = name, ns_key_hash = be_u32 decoded, ns_signature = drop 4 decoded\<rparr>)"

fun parse_signatures :: "note_lib \<Rightarrow> string list \<Rightarrow> note_error + note_signature list" where
  "parse_signatures nl [] = Inr []"
| "parse_signatures nl (l # ls) =
     result_bind (parse_signature nl l) (\<lambda>s. result_bind (parse_signatures nl ls) (\<lambda>ss. Inr (s # ss)))"

definition note_parse :: "note_lib \<Rightarrow> string \<Rightarrow> note_error + signed_note" where
  "note_parse nl s =
     (case split_blank_line s of
        None \<Rightarrow> Inl (Malformed ''no blank line before the signatures'')
      | Some (before, sigs) \<Rightarrow>
          if sigs = [] \<or> last sigs \<noteq> newline then Inl (Malformed ''signature block must end in a newline'')
          else result_bind (parse_signatures nl (text_lines [] sigs)) (\<lambda>ss.
            if ss = [] then Inl (Malformed ''note has no signatures'')
            else Inr \<lparr>nt_text = before @ [newline], nt_signatures = ss\<rparr>))"

definition verified_by :: "note_lib \<Rightarrow> signed_note \<Rightarrow> note_verifier list \<Rightarrow> note_verifier list" where
  "verified_by nl n vs =
     filter (\<lambda>v. list_ex (\<lambda>s. ns_name s = nv_name v \<and> ns_key_hash s = nv_key_hash v
       \<and> verifier_verify nl v (text_bytes (nt_text n)) (ns_signature s)) (nt_signatures n)) vs"

record signer =
  sg_name :: string
  sg_public_key :: "byte list"
  sg_sign :: "byte list \<Rightarrow> note_error + byte list"

definition signer_verifier_key :: "sha256 \<Rightarrow> note_lib \<Rightarrow> signer \<Rightarrow> string" where
  "signer_verifier_key sha nl sg =
     (case verifier_from_public_key sha (sg_name sg) (sg_public_key sg) of Inr v \<Rightarrow> verifier_text nl v | Inl _ \<Rightarrow> [])"

fun signature_lines :: "sha256 \<Rightarrow> note_lib \<Rightarrow> string \<Rightarrow> signer list \<Rightarrow> note_error + string" where
  "signature_lines sha nl text [] = Inr []"
| "signature_lines sha nl text (sg # sgs) =
     result_bind (verifier_from_public_key sha (sg_name sg) (sg_public_key sg)) (\<lambda>v.
     result_bind (sg_sign sg (text_bytes text)) (\<lambda>sig.
     result_bind (signature_lines sha nl text sgs) (\<lambda>rest.
       Inr (signature_prefix @ sg_name sg @ '' '' @ b64_encode nl (u32_bytes (nv_key_hash v) @ sig) @ newline # rest))))"

definition sign_note :: "sha256 \<Rightarrow> note_lib \<Rightarrow> string \<Rightarrow> signer list \<Rightarrow> note_error + string" where
  "sign_note sha nl text sgs =
     (if text = [] \<or> last text \<noteq> newline \<or> has_blank_line text
      then Inl (Malformed ''note text must be non-empty, end in a newline, and contain no blank line'')
      else result_bind (signature_lines sha nl text sgs) (\<lambda>ls. Inr (text @ newline # ls)))"

section \<open>Checkpoint bodies\<close>

record checkpoint_body =
  cb_origin :: string
  cb_size :: nat
  cb_root_hash :: audit_hash

definition body_text :: "note_lib \<Rightarrow> checkpoint_body \<Rightarrow> string" where
  "body_text nl b = cb_origin b @ newline # show_nat (cb_size b) @ newline # b64_encode nl (hash_bytes (cb_root_hash b)) @ [newline]"

definition body_size :: "string \<Rightarrow> nat option" where
  "body_size line =
     (if list_all (\<lambda>c. 48 \<le> (of_char c :: nat) \<and> (of_char c :: nat) \<le> 57) line
         \<and> (line = ''0'' \<or> take 1 line \<noteq> ''0'')
      then parse_u64 line else None)"

definition nth_line :: "nat \<Rightarrow> string list \<Rightarrow> string option" where
  "nth_line n ls = (if n < length ls then Some (ls ! n) else None)"

definition body_parse :: "note_lib \<Rightarrow> string \<Rightarrow> note_error + checkpoint_body" where
  "body_parse nl text =
     (let ls = text_lines [] text;
          orig = opt_filter (\<lambda>l. l \<noteq> []) (nth_line 0 ls);
          n = Option.bind (nth_line 1 ls) body_size;
          root = Option.bind (nth_line 2 ls) (\<lambda>l. case b64_decode nl l of Inr bs \<Rightarrow> Some bs | Inl _ \<Rightarrow> None)
      in case (orig, n, root) of
           (Some orig, Some n, Some root) \<Rightarrow>
             if length root = 32 then Inr \<lparr>cb_origin = orig, cb_size = n, cb_root_hash = hash_of_bytes root\<rparr>
             else Inl (Malformed ''root hash is not 32 bytes'')
         | _ \<Rightarrow> Inl (Malformed ''checkpoint needs an origin, a decimal size, and a base64 root hash''))"

end
