(* ===== verification/Jcs.thy ===== *)
theory Jcs
  imports Json Glob
begin

text \<open>
  The canonical JSON of the audit log, RFC 8785 (\<^verbatim>\<open>adk-auth/src/signed_audit/jcs.rs\<close>). How \<^verbatim>\<open>serde_json\<close>
  reads a number and \<^verbatim>\<open>ryu_js\<close> prints a double are external, in the record \<open>jcs_lib\<close> over a type of doubles.
\<close>

definition max_safe_integer :: nat where
  "max_safe_integer = 2 ^ 53 - 1"

record 'f jcs_lib =
  js_as_u64 :: "string \<Rightarrow> nat option"
  js_as_i64 :: "string \<Rightarrow> int option"
  js_as_f64 :: "string \<Rightarrow> 'f option"
  js_of_int :: "int \<Rightarrow> 'f"
  js_eq :: "'f \<Rightarrow> 'f \<Rightarrow> bool"
  js_zero :: 'f
  js_format :: "'f \<Rightarrow> string"

definition jcs_number :: "'f jcs_lib \<Rightarrow> string \<Rightarrow> string + string" where
  "jcs_number js n =
     result_bind
       (case js_as_u64 js n of
          Some u \<Rightarrow> if max_safe_integer < u then Inl (''integer '' @ show_nat u @ '' exceeds 2^53'') else Inr (js_of_int js (int u))
        | None \<Rightarrow>
            (case js_as_i64 js n of
               Some i \<Rightarrow> if max_safe_integer < nat \<bar>i\<bar> then Inl (''integer '' @ show_int i @ '' exceeds 2^53'') else Inr (js_of_int js i)
             | None \<Rightarrow> (case js_as_f64 js n of Some f \<Rightarrow> Inr f | None \<Rightarrow> Inl (''number '' @ n @ '' is not finite''))))
       (\<lambda>f. Inr (js_format js (if js_eq js f (js_zero js) then js_zero js else f)))"

text \<open>The escapes, byte by byte: a byte of a longer UTF-8 sequence is none of them.\<close>

definition jcs_escape :: "char \<Rightarrow> string" where
  "jcs_escape c =
     (let n = of_char c :: nat in
      if n = 34 then [CHR 0x5C, CHR 0x22]
      else if n = 92 then [CHR 0x5C, CHR 0x5C]
      else if n = 8 then CHR 0x5C # ''b''
      else if n = 12 then CHR 0x5C # ''f''
      else if n = 10 then CHR 0x5C # ''n''
      else if n = 13 then CHR 0x5C # ''r''
      else if n = 9 then CHR 0x5C # ''t''
      else if n < 32 then CHR 0x5C # CHR ''u'' # hex_digits 4 n
      else [c])"

definition jcs_string :: "string \<Rightarrow> string" where
  "jcs_string s = CHR 0x22 # concat (map jcs_escape s) @ [CHR 0x22]"

text \<open>\<^verbatim>\<open>encode_utf16\<close> of a character's UTF-8 bytes.\<close>

fun code_point :: "nat list \<Rightarrow> nat" where
  "code_point [a] = a"
| "code_point [a, b] = (a mod 32) * 64 + b mod 64"
| "code_point [a, b, c] = (a mod 16) * 4096 + (b mod 64) * 64 + c mod 64"
| "code_point (a # b # c # d # _) = (a mod 8) * 262144 + (b mod 64) * 4096 + (c mod 64) * 64 + d mod 64"
| "code_point [] = 0"

definition utf16_units :: "nat \<Rightarrow> nat list" where
  "utf16_units p = (if p < 65536 then [p] else [55296 + (p - 65536) div 1024, 56320 + (p - 65536) mod 1024])"

definition encode_utf16 :: "string \<Rightarrow> nat list" where
  "encode_utf16 s = concat (map (\<lambda>c. utf16_units (code_point (map of_char c))) (utf8_chars s))"

fun sequence_results :: "('e + 'a) list \<Rightarrow> 'e + 'a list" where
  "sequence_results [] = Inr []"
| "sequence_results (r # rs) = result_bind r (\<lambda>a. result_bind (sequence_results rs) (\<lambda>as. Inr (a # as)))"

function canonicalize :: "'f jcs_lib \<Rightarrow> json \<Rightarrow> string + string" where
  "canonicalize js JNull = Inr ''null''"
| "canonicalize js (JBool b) = Inr (if b then ''true'' else ''false'')"
| "canonicalize js (JNumber n) = jcs_number js n"
| "canonicalize js (JString s) = Inr (jcs_string s)"
| "canonicalize js (JArray xs) =
     result_bind (sequence_results (map (canonicalize js) xs)) (\<lambda>ts. Inr (''['' @ join_with '','' ts @ '']''))"
| "canonicalize js (JObject kvs) =
     result_bind
       (sequence_results (map (\<lambda>kv. result_bind (canonicalize js (snd kv)) (\<lambda>t. Inr (jcs_string (fst kv) @ '':'' @ t)))
          (sort_key (encode_utf16 \<circ> fst) kvs)))
       (\<lambda>ts. Inr (''{'' @ join_with '','' ts @ ''}''))"
  by pat_completeness auto
termination canonicalize
  by (relation "measure (size \<circ> snd)") (auto dest: size_json_entry intro: size_list_estimation' less_Suc_eq_le [THEN iffD2])

section \<open>Key order\<close>

text \<open>Keys with different UTF-16 texts sort to one order, so the canonical text does not see the order of a map.\<close>

lemma sort_key_perm:
  assumes "mset xs = mset ys" and "inj_on f (set xs)"
  shows "sort_key f xs = sort_key f ys"
  using assms by (intro sort_key_inj_key_eq) simp_all

lemma canonicalize_perm:
  assumes "mset kvs = mset kvs'" and "inj_on (encode_utf16 \<circ> fst) (set kvs)"
  shows "canonicalize js (JObject kvs) = canonicalize js (JObject kvs')"
  by (simp add: sort_key_perm [OF assms])

end
