(* ===== verification/Audit_Log.thy ===== *)
theory Audit_Log
  imports Audit_Store Signed_Note Jcs
begin

text \<open>
  The writer of the signed audit log (\<^verbatim>\<open>adk-auth/src/signed_audit/log.rs\<close>) over the in-memory store: records are
  canonicalized, chained by their leaf hashes, pushed to the frontier and appended with the nodes they
  complete; checkpoints sign the root. Every method runs under the writer's mutex and reads the clock
  once where the source does. \<open>serde_json::to_value\<close> on a record is external (\<open>to_value\<close>).
\<close>

section \<open>The writer\<close>

record 'f log_lib =
  ll_sha :: sha256
  ll_note :: note_lib
  ll_jcs :: "'f jcs_lib"
  to_value :: "audit_record \<Rightarrow> string + json"

record log_writer =
  lw_log_id :: string
  lw_origin :: string
  lw_checkpoint_every :: nat
  lw_checkpoint_interval :: dur
  lw_anchors :: "string list"

record writer_state =
  ws_frontier :: frontier
  ws_last_leaf :: "audit_hash option"
  ws_signer :: signer
  ws_checkpointed_size :: nat
  ws_checkpointed_at :: instant

text \<open>What a writer changes: its own state, the store, and what its anchors were handed.\<close>

record log_world =
  lg_state :: writer_state
  lg_store :: audit_store
  lg_anchored :: "(string \<times> audit_checkpoint) list"

text \<open>\<^verbatim>\<open>pop().expect("a set bit has a frontier hash")\<close>: shown never to happen.\<close>

definition frontier_panic :: adk_error where
  "frontier_panic = audit_error Internal ''panic'' ''a set bit has a frontier hash''"

definition record_text :: "'f log_lib \<Rightarrow> audit_record \<Rightarrow> string result" where
  "record_text ll r =
     (case to_value ll r of
        Inl e \<Rightarrow> Inl (audit_error Internal ''audit_log.not_canonical'' e)
      | Inr v \<Rightarrow>
          (case canonicalize (ll_jcs ll) v of
             Inl e \<Rightarrow> Inl (audit_error InvalidInput ''audit_log.not_canonical'' e)
           | Inr t \<Rightarrow> Inr t))"

section \<open>Appending\<close>

text \<open>The loop over the drafts: the frontier and the previous leaf, then the records, entries and nodes so far.\<close>

fun append_loop ::
    "'f log_lib \<Rightarrow> string \<Rightarrow> instant \<Rightarrow> audit_draft list \<Rightarrow> frontier \<Rightarrow> audit_hash option
     \<Rightarrow> audit_record list \<Rightarrow> audit_entry list \<Rightarrow> tree_node list
     \<Rightarrow> (frontier \<times> audit_hash option \<times> audit_record list \<times> audit_entry list \<times> tree_node list) result" where
  "append_loop ll log_id ts [] fr prev recs es ns = Inr (fr, prev, recs, es, ns)"
| "append_loop ll log_id ts (d # ds) fr prev recs es ns =
     (let r = into_record d log_id (fr_size fr) ts prev in
      result_bind (record_text ll r) (\<lambda>text.
        let leaf = leaf_hash (ll_sha ll) (text_bytes text);
            e = \<lparr>en_seq = ar_seq r, en_leaf_hash = leaf, en_record = Some text\<rparr>
        in case frontier_push (ll_sha ll) fr leaf of
             None \<Rightarrow> Inl frontier_panic
           | Some (fr', nodes) \<Rightarrow>
               append_loop ll log_id ts ds fr' (Some leaf) (recs @ [r]) (es @ [e]) (ns @ nodes)))"

definition append_locked ::
    "'f log_lib \<Rightarrow> log_writer \<Rightarrow> instant \<Rightarrow> audit_draft list \<Rightarrow> log_world \<Rightarrow> audit_record list result \<times> log_world" where
  "append_locked ll w now drafts g =
     (if drafts = [] then (Inr [], g)
      else
        (case append_loop ll (lw_log_id w) now drafts (ws_frontier (lg_state g)) (ws_last_leaf (lg_state g)) [] [] [] of
           Inl e \<Rightarrow> (Inl e, g)
         | Inr (fr, prev, recs, es, ns) \<Rightarrow>
             (case store_append \<lparr>ap_log_id = lw_log_id w, ap_entries = es, ap_nodes = ns\<rparr> (lg_store g) of
                (Inl e, _) \<Rightarrow> (Inl e, g)
              | (Inr _, st) \<Rightarrow>
                  (Inr recs, g\<lparr>lg_state := (lg_state g)\<lparr>ws_frontier := fr, ws_last_leaf := prev\<rparr>, lg_store := st\<rparr>))))"

definition note_error_text :: "note_error \<Rightarrow> string" where
  "note_error_text e = (case e of InvalidKey m \<Rightarrow> ''invalid note key: '' @ m | Malformed m \<Rightarrow> ''malformed note: '' @ m | Signing m \<Rightarrow> ''signing failed: '' @ m)"

text \<open>Anchors are handed the checkpoint once it is stored; a failing one is only logged.\<close>

definition checkpoint_locked ::
    "'f log_lib \<Rightarrow> log_writer \<Rightarrow> instant \<Rightarrow> signer list \<Rightarrow> log_world \<Rightarrow> audit_checkpoint result \<times> log_world" where
  "checkpoint_locked ll w now signers g =
     (let body = \<lparr>cb_origin = lw_origin w, cb_size = fr_size (ws_frontier (lg_state g)),
                  cb_root_hash = frontier_root (ll_sha ll) (ws_frontier (lg_state g))\<rparr>
      in case sign_note (ll_sha ll) (ll_note ll) (body_text (ll_note ll) body) signers of
           Inl e \<Rightarrow> (Inl (audit_error Unavailable ''audit_log.signing_failed'' (note_error_text e)), g)
         | Inr nt \<Rightarrow>
             (let c = \<lparr>cp_log_id = lw_log_id w, cp_size = cb_size body, cp_root_hash = cb_root_hash body, cp_note = nt,
                       cp_created_at = now\<rparr>
              in case put_checkpoint c (lg_store g) of
                   (Inl e, _) \<Rightarrow> (Inl e, g)
                 | (Inr _, st) \<Rightarrow>
                     (Inr c, g\<lparr>lg_state := (lg_state g)\<lparr>ws_checkpointed_size := cp_size c, ws_checkpointed_at := now\<rparr>,
                               lg_store := st, lg_anchored := lg_anchored g @ map (\<lambda>a. (a, c)) (lw_anchors w)\<rparr>)))"

definition interval_elapsed :: "log_writer \<Rightarrow> instant \<Rightarrow> writer_state \<Rightarrow> bool" where
  "interval_elapsed w now s \<longleftrightarrow>
     0 \<le> now - ws_checkpointed_at s \<and> lw_checkpoint_interval w \<le> nat (now - ws_checkpointed_at s)"

definition log_append_batch ::
    "'f log_lib \<Rightarrow> log_writer \<Rightarrow> instant \<Rightarrow> instant \<Rightarrow> instant \<Rightarrow> audit_draft list \<Rightarrow> log_world \<Rightarrow> audit_record list result \<times> log_world" where
  "log_append_batch ll w now now' now'' drafts g =
     (case append_locked ll w now drafts g of
        (Inl e, g) \<Rightarrow> (Inl e, g)
      | (Inr recs, g) \<Rightarrow>
          (let s = lg_state g;
               due = (lw_checkpoint_every w \<le> fr_size (ws_frontier s) - ws_checkpointed_size s \<or> interval_elapsed w now' s)
           in (Inr recs,
               if due \<and> ws_checkpointed_size s < fr_size (ws_frontier s)
               then snd (checkpoint_locked ll w now'' [ws_signer s] g) else g)))"

definition log_checkpoint :: "'f log_lib \<Rightarrow> log_writer \<Rightarrow> instant \<Rightarrow> log_world \<Rightarrow> audit_checkpoint result \<times> log_world" where
  "log_checkpoint ll w now g = checkpoint_locked ll w now [ws_signer (lg_state g)] g"

definition checkpoint_if_due ::
    "'f log_lib \<Rightarrow> log_writer \<Rightarrow> instant \<Rightarrow> instant \<Rightarrow> log_world \<Rightarrow> audit_checkpoint option result \<times> log_world" where
  "checkpoint_if_due ll w now now' g =
     (let s = lg_state g in
      if fr_size (ws_frontier s) = ws_checkpointed_size s \<or> \<not> interval_elapsed w now s then (Inr None, g)
      else (case checkpoint_locked ll w now' [ws_signer s] g of
              (Inl e, g) \<Rightarrow> (Inl e, g)
            | (Inr c, g) \<Rightarrow> (Inr (Some c), g)))"

definition rotation_draft :: "'f log_lib \<Rightarrow> signer \<Rightarrow> signer \<Rightarrow> audit_actor \<Rightarrow> audit_draft" where
  "rotation_draft ll previous nxt actor =
     draft_ext ''nextKey'' (JString (signer_verifier_key (ll_sha ll) (ll_note ll) nxt))
       (draft_ext ''previousKey'' (JString (signer_verifier_key (ll_sha ll) (ll_note ll) previous))
         ((audit_draft_new AkKeyRotated ''rotate_checkpoint_key'')\<lparr>dr_actor := actor\<rparr>))"

definition rotate_signer ::
    "'f log_lib \<Rightarrow> log_writer \<Rightarrow> instant \<Rightarrow> instant \<Rightarrow> signer \<Rightarrow> audit_actor \<Rightarrow> log_world \<Rightarrow> audit_checkpoint result \<times> log_world" where
  "rotate_signer ll w now now' nxt actor g =
     (let previous = ws_signer (lg_state g) in
      case append_locked ll w now [rotation_draft ll previous nxt actor] g of
        (Inl e, g) \<Rightarrow> (Inl e, g)
      | (Inr _, g) \<Rightarrow>
          (case checkpoint_locked ll w now' [previous, nxt] g of
             (Inl e, g) \<Rightarrow> (Inl e, g)
           | (Inr c, g) \<Rightarrow> (Inr c, g\<lparr>lg_state := (lg_state g)\<lparr>ws_signer := nxt\<rparr>\<rparr>)))"

section \<open>Opening\<close>

definition stored_hash :: "audit_store \<Rightarrow> string \<Rightarrow> nat \<times> nat \<Rightarrow> audit_hash result" where
  "stored_hash st log_id = (\<lambda>(level, index).
     case hash_at log_id level index st of
       Some h \<Rightarrow> Inr h
     | None \<Rightarrow> Inl (audit_error Internal ''audit_log.corrupt''
         (''audit log '' @ quoted log_id @ '' is missing the subtree hash at level '' @ show_nat level @ '', index '' @ show_nat index)))"

definition store_subtree_root :: "sha256 \<Rightarrow> audit_store \<Rightarrow> string \<Rightarrow> nat \<times> nat \<Rightarrow> audit_hash result" where
  "store_subtree_root sha st log_id = (\<lambda>(s, e).
     result_bind (sequence_results (map (stored_hash st log_id) (range_nodes s e))) (\<lambda>hs. Inr (fold_range sha hs)))"

record log_builder =
  bl_log_id :: string
  bl_signer :: signer
  bl_origin :: "string option"
  bl_checkpoint_every :: nat
  bl_checkpoint_interval :: dur
  bl_anchors :: "string list"

definition builder_new :: "string \<Rightarrow> signer \<Rightarrow> log_builder" where
  "builder_new i sg =
     \<lparr>bl_log_id = i, bl_signer = sg, bl_origin = None, bl_checkpoint_every = 256, bl_checkpoint_interval = 60 * 1000000000,
      bl_anchors = []\<rparr>"

definition builder_checkpoint_every :: "nat \<Rightarrow> log_builder \<Rightarrow> log_builder" where
  "builder_checkpoint_every n b = b\<lparr>bl_checkpoint_every := max n 1\<rparr>"

definition log_open ::
    "'f log_lib \<Rightarrow> log_builder \<Rightarrow> instant \<Rightarrow> audit_store \<Rightarrow> (log_writer \<times> log_world) result" where
  "log_open ll b now st =
     (let orig = (case bl_origin b of Some x \<Rightarrow> x | None \<Rightarrow> ''adk-audit/'' @ bl_log_id b);
          n = store_size (bl_log_id b) st
      in if orig = [] \<or> newline \<in> set orig \<or> bl_log_id b = []
         then Inl (audit_error InvalidInput ''audit_log.invalid_config''
           ''log_id and origin must be non-empty and the origin a single line'')
         else
           result_bind (sequence_results (map (stored_hash st (bl_log_id b)) (range_nodes 0 n))) (\<lambda>hs.
           result_bind (if n = 0 then Inr None else result_bind (stored_hash st (bl_log_id b) (0, n - 1)) (\<lambda>h. Inr (Some h))) (\<lambda>last_leaf.
           let latest = latest_checkpoint (bl_log_id b) st in
           result_bind
             (case latest of
                None \<Rightarrow> Inr ()
              | Some c \<Rightarrow>
                  result_bind (store_subtree_root (ll_sha ll) st (bl_log_id b) (0, cp_size c)) (\<lambda>root.
                    if root \<noteq> cp_root_hash c
                    then Inl (audit_error Internal ''audit_log.corrupt''
                      (''audit log '' @ quoted (bl_log_id b) @ '' no longer matches its checkpoint at size '' @ show_nat (cp_size c)
                       @ ''; stop writing and verify the log''))
                    else Inr ()))
             (\<lambda>_. Inr
               (\<lparr>lw_log_id = bl_log_id b, lw_origin = orig, lw_checkpoint_every = bl_checkpoint_every b,
                 lw_checkpoint_interval = bl_checkpoint_interval b, lw_anchors = bl_anchors b\<rparr>,
                \<lparr>lg_state = \<lparr>ws_frontier = \<lparr>fr_size = n, fr_hashes = hs\<rparr>, ws_last_leaf = last_leaf, ws_signer = bl_signer b,
                   ws_checkpointed_size = (case latest of Some c \<Rightarrow> cp_size c | None \<Rightarrow> 0),
                   ws_checkpointed_at = (case latest of Some c \<Rightarrow> cp_created_at c | None \<Rightarrow> now)\<rparr>,
                 lg_store = st, lg_anchored = []\<rparr>)))))"

section \<open>Proofs from the store\<close>

definition check_size :: "log_writer \<Rightarrow> log_world \<Rightarrow> nat \<Rightarrow> unit result" where
  "check_size w g n =
     (let current = fr_size (ws_frontier (lg_state g)) in
      if current < n then Inl (out_of_range_error (lw_log_id w) current n) else Inr ())"

definition log_inclusion_proof :: "'f log_lib \<Rightarrow> log_writer \<Rightarrow> log_world \<Rightarrow> nat \<Rightarrow> nat \<Rightarrow> audit_hash list result" where
  "log_inclusion_proof ll w g seq n =
     result_bind (check_size w g n) (\<lambda>_.
       if n \<le> seq then Inl (out_of_range_error (lw_log_id w) n seq)
       else sequence_results (map (store_subtree_root (ll_sha ll) (lg_store g) (lw_log_id w)) (inclusion_ranges seq n)))"

definition log_consistency_proof :: "'f log_lib \<Rightarrow> log_writer \<Rightarrow> log_world \<Rightarrow> nat \<Rightarrow> nat \<Rightarrow> audit_hash list result" where
  "log_consistency_proof ll w g old new =
     result_bind (check_size w g new) (\<lambda>_.
       if new < old then Inl (out_of_range_error (lw_log_id w) new old)
       else sequence_results (map (store_subtree_root (ll_sha ll) (lg_store g) (lw_log_id w)) (consistency_ranges old new)))"

definition log_root_at :: "'f log_lib \<Rightarrow> log_writer \<Rightarrow> log_world \<Rightarrow> nat \<Rightarrow> audit_hash result" where
  "log_root_at ll w g n =
     result_bind (check_size w g n) (\<lambda>_. store_subtree_root (ll_sha ll) (lg_store g) (lw_log_id w) (0, n))"

end
