(* ===== verification/Audit_Verify.thy ===== *)
theory Audit_Verify
  imports Audit_Log
begin

text \<open>
  The offline verifier of an exported log (\<^verbatim>\<open>adk-auth/src/signed_audit/verify.rs\<close>): the entries in order,
  then the checkpoints by size with the key rotations they cover. How \<^verbatim>\<open>serde_json\<close> reads a text and a
  record is external (\<open>vl_from_str\<close>, \<open>vl_from_value\<close>).
\<close>

section \<open>The report\<close>

datatype failure_kind =
  VfMalformed | VfSequenceBroken | VfLeafHashMismatch | VfNotCanonical | VfChainBroken | VfLogIdMismatch
| VfUnsupportedVersion | VfUntrustedCheckpoint | VfRootMismatch | VfTruncated | VfFork | VfOriginMismatch
| VfRotationNotDualSigned | VfUnanchored

record verify_failure =
  vf_kind :: failure_kind
  vf_seq :: "nat option"
  vf_checkpoint_size :: "nat option"
  vf_message :: string

record verify_report =
  vr_log_id :: "string option"
  vr_origin :: "string option"
  vr_records :: nat
  vr_pruned :: nat
  vr_checkpoints_verified :: nat
  vr_verified_size :: nat
  vr_verified_root :: "audit_hash option"
  vr_unsigned_tail :: nat
  vr_learned_keys :: "string list"
  vr_failures :: "verify_failure list"

definition verify_report_default :: verify_report where
  "verify_report_default =
     \<lparr>vr_log_id = None, vr_origin = None, vr_records = 0, vr_pruned = 0, vr_checkpoints_verified = 0, vr_verified_size = 0,
      vr_verified_root = None, vr_unsigned_tail = 0, vr_learned_keys = [], vr_failures = []\<rparr>"

definition report_is_valid :: "verify_report \<Rightarrow> bool" where
  "report_is_valid r = (vr_failures r = [])"

definition report_fail :: "failure_kind \<Rightarrow> nat option \<Rightarrow> nat option \<Rightarrow> string \<Rightarrow> verify_report \<Rightarrow> verify_report" where
  "report_fail k seq n msg r =
     r\<lparr>vr_failures := vr_failures r @ [\<lparr>vf_kind = k, vf_seq = seq, vf_checkpoint_size = n, vf_message = msg\<rparr>]\<rparr>"

text \<open>\<open>fail_if b\<close> is \<^verbatim>\<open>if b { report.fail(..) }\<close>.\<close>

definition fail_if :: "bool \<Rightarrow> failure_kind \<Rightarrow> nat option \<Rightarrow> nat option \<Rightarrow> string \<Rightarrow> verify_report \<Rightarrow> verify_report" where
  "fail_if b k seq n msg r = (if b then report_fail k seq n msg r else r)"

section \<open>The entries\<close>

record 'f verify_lib =
  vl_sha :: sha256
  vl_note :: note_lib
  vl_jcs :: "'f jcs_lib"
  vl_from_str :: "string \<Rightarrow> string + json"
  vl_from_value :: "json \<Rightarrow> string + audit_record"

record rotation =
  rt_seq :: nat
  rt_previous :: "note_verifier option"
  rt_next :: "note_verifier option"

record entry_scan =
  es_report :: verify_report
  es_leaves :: "audit_hash list"
  es_previous_leaf :: "audit_hash option"
  es_rotations :: "rotation list"

definition rotation_key :: "'f verify_lib \<Rightarrow> audit_record \<Rightarrow> string \<Rightarrow> note_verifier option" where
  "rotation_key vl r k =
     (case lookup (ar_ext r) k of
        Some (JString s) \<Rightarrow> (case verifier_parse (vl_sha vl) (vl_note vl) s of Inr v \<Rightarrow> Some v | Inl _ \<Rightarrow> None)
      | _ \<Rightarrow> None)"

text \<open>What is checked of a record once it is read, at its position and after the leaf before it.\<close>

definition check_record :: "nat \<Rightarrow> audit_hash option \<Rightarrow> audit_record \<Rightarrow> verify_report \<Rightarrow> verify_report" where
  "check_record pos prev r rep =
     (let rep = fail_if (ar_v r \<noteq> audit_record_version) VfUnsupportedVersion (Some pos) None
            (''record version '' @ show_nat (ar_v r) @ '' is not '' @ show_nat audit_record_version) rep;
          rep = fail_if (ar_seq r \<noteq> pos) VfSequenceBroken (Some pos) None
            (''record at position '' @ show_nat pos @ '' claims seq '' @ show_nat (ar_seq r)) rep;
          rep = (case vr_log_id rep of
                   None \<Rightarrow> rep\<lparr>vr_log_id := Some (ar_log_id r)\<rparr>
                 | Some i \<Rightarrow> fail_if (i \<noteq> ar_log_id r) VfLogIdMismatch (Some pos) None
                     (''record names log '' @ quoted (ar_log_id r) @ '', expected '' @ quoted i) rep)
      in fail_if (ar_prev_hash r \<noteq> prev) VfChainBroken (Some pos) None
           ''prev_hash does not match the previous record's leaf hash'' rep)"

definition verify_text :: "'f verify_lib \<Rightarrow> nat \<Rightarrow> audit_entry \<Rightarrow> string \<Rightarrow> entry_scan \<Rightarrow> entry_scan" where
  "verify_text vl pos e t s =
     (let leaf = leaf_hash (vl_sha vl) (text_bytes t);
          prev = es_previous_leaf s;
          rep = fail_if (leaf \<noteq> en_leaf_hash e) VfLeafHashMismatch (Some pos) None
            ''record text does not hash to its stored leaf hash'' (es_report s);
          s = s\<lparr>es_leaves := es_leaves s @ [leaf], es_previous_leaf := Some leaf\<rparr>
      in case vl_from_str vl t of
           Inl err \<Rightarrow> s\<lparr>es_report := report_fail VfMalformed (Some pos) None (''not JSON: '' @ err) rep\<rparr>
         | Inr v \<Rightarrow>
             (let rep = fail_if (canonicalize (vl_jcs vl) v \<noteq> Inr t) VfNotCanonical (Some pos) None
                    ''record is not RFC 8785 canonical'' rep
              in case vl_from_value vl v of
                   Inl err \<Rightarrow> s\<lparr>es_report := report_fail VfMalformed (Some pos) None (''not an audit record: '' @ err) rep\<rparr>
                 | Inr r \<Rightarrow>
                     s\<lparr>es_report := check_record pos prev r rep,
                       es_rotations := es_rotations s @
                         (if ar_kind r = AkKeyRotated
                          then [\<lparr>rt_seq = pos, rt_previous = rotation_key vl r ''previousKey'', rt_next = rotation_key vl r ''nextKey''\<rparr>]
                          else [])\<rparr>))"

definition verify_entry :: "'f verify_lib \<Rightarrow> nat \<Rightarrow> audit_entry \<Rightarrow> entry_scan \<Rightarrow> entry_scan" where
  "verify_entry vl pos e s =
     (let s = s\<lparr>es_report := fail_if (en_seq e \<noteq> pos) VfSequenceBroken (Some pos) None
            (''entry at position '' @ show_nat pos @ '' has seq '' @ show_nat (en_seq e)) (es_report s)\<rparr>
      in case en_record e of
           None \<Rightarrow> s\<lparr>es_report := (es_report s)\<lparr>vr_pruned := vr_pruned (es_report s) + 1\<rparr>,
                     es_leaves := es_leaves s @ [en_leaf_hash e], es_previous_leaf := Some (en_leaf_hash e)\<rparr>
         | Some t \<Rightarrow> verify_text vl pos e t s)"

fun verify_entries :: "'f verify_lib \<Rightarrow> nat \<Rightarrow> audit_entry list \<Rightarrow> entry_scan \<Rightarrow> entry_scan" where
  "verify_entries vl pos [] s = s"
| "verify_entries vl pos (e # es) s = verify_entries vl (pos + 1) es (verify_entry vl pos e s)"

section \<open>The checkpoints\<close>

record checkpoint_scan =
  cs_report :: verify_report
  cs_trusted :: "note_verifier list"
  cs_retired :: "note_verifier list"
  cs_roots :: "(nat, audit_hash) table"
  cs_rotations :: "rotation list"

text \<open>One rotation, at the first checkpoint that covers it; \<open>active\<close> are the keys trusted before that checkpoint.\<close>

definition apply_rotation ::
    "'f verify_lib \<Rightarrow> signed_note \<Rightarrow> nat \<Rightarrow> note_verifier list \<Rightarrow> rotation \<Rightarrow> checkpoint_scan \<Rightarrow> checkpoint_scan" where
  "apply_rotation vl nt n active r s =
     (case (rt_previous r, rt_next r) of
        (Some prev, Some nxt) \<Rightarrow>
          if length (verified_by (vl_note vl) nt [prev, nxt]) = 2 \<and> prev \<in> set active
          then (if nxt \<in> set (cs_trusted s) then s
                else s\<lparr>cs_report := (cs_report s)\<lparr>vr_learned_keys := vr_learned_keys (cs_report s) @ [verifier_text (vl_note vl) nxt]\<rparr>,
                       cs_trusted := cs_trusted s @ [nxt]\<rparr>)
               \<lparr>cs_retired := prev # cs_retired s\<rparr>
          else s\<lparr>cs_report := report_fail VfRotationNotDualSigned (Some (rt_seq r)) (Some n)
            ''the first checkpoint after the rotation is not signed by the trusted previous key and the next key'' (cs_report s)\<rparr>
      | _ \<Rightarrow> s\<lparr>cs_report := report_fail VfMalformed (Some (rt_seq r)) None
          ''key_rotated record lacks valid previousKey and nextKey'' (cs_report s)\<rparr>)"

text \<open>\<^verbatim>\<open>while let Some(rotation) = rotations.next_if(..)\<close>.\<close>

fun apply_rotations ::
    "'f verify_lib \<Rightarrow> signed_note \<Rightarrow> nat \<Rightarrow> note_verifier list \<Rightarrow> rotation list \<Rightarrow> checkpoint_scan \<Rightarrow> checkpoint_scan" where
  "apply_rotations vl nt n active [] s = s\<lparr>cs_rotations := []\<rparr>"
| "apply_rotations vl nt n active (r # rs) s =
     (if rt_seq r < n then apply_rotations vl nt n active rs (apply_rotation vl nt n active r s) else s\<lparr>cs_rotations := r # rs\<rparr>)"

text \<open>The last checks of a checkpoint whose signature is trusted.\<close>

definition check_tree :: "'f verify_lib \<Rightarrow> audit_hash list \<Rightarrow> checkpoint_body \<Rightarrow> verify_report \<Rightarrow> verify_report" where
  "check_tree vl leaves b rep =
     (if length leaves < cb_size b
      then report_fail VfTruncated None (Some (cb_size b))
        (''checkpoint covers '' @ show_nat (cb_size b) @ '' records but '' @ show_nat (length leaves) @ '' were supplied'') rep
      else if tree_root (vl_sha vl) (take (cb_size b) leaves) \<noteq> cb_root_hash b
      then report_fail VfRootMismatch None (Some (cb_size b)) ''root hash does not match the records'' rep
      else
        (let rep = rep\<lparr>vr_checkpoints_verified := vr_checkpoints_verified rep + 1\<rparr>
         in if vr_verified_size rep \<le> cb_size b
            then rep\<lparr>vr_verified_size := cb_size b, vr_verified_root := Some (cb_root_hash b)\<rparr> else rep))"

text \<open>From the origin on, for a checkpoint whose note and body were read and agree with what is stored.\<close>

definition verify_signed :: "'f verify_lib \<Rightarrow> audit_hash list \<Rightarrow> signed_note \<Rightarrow> checkpoint_body \<Rightarrow> checkpoint_scan \<Rightarrow> checkpoint_scan" where
  "verify_signed vl leaves nt b s =
     (let n = cb_size b;
          fork = (case lookup (cs_roots s) n of Some r \<Rightarrow> r \<noteq> cb_root_hash b | None \<Rightarrow> False);
          s = s\<lparr>cs_roots := AList.update n (cb_root_hash b) (cs_roots s),
                cs_report := fail_if fork VfFork None (Some n) ''two signed checkpoints of this size disagree'' (cs_report s)\<rparr>;
          active = filter (\<lambda>v. v \<notin> set (cs_retired s)) (cs_trusted s)
      in if verified_by (vl_note vl) nt active = []
         then s\<lparr>cs_report := report_fail VfUntrustedCheckpoint None (Some n) ''no valid signature from a trusted key'' (cs_report s)\<rparr>
         else (let s = apply_rotations vl nt n active (cs_rotations s) s
               in s\<lparr>cs_report := check_tree vl leaves b (cs_report s)\<rparr>))"

definition verify_checkpoint :: "'f verify_lib \<Rightarrow> audit_hash list \<Rightarrow> audit_checkpoint \<Rightarrow> checkpoint_scan \<Rightarrow> checkpoint_scan" where
  "verify_checkpoint vl leaves c s =
     (let fail = (\<lambda>k msg. s\<lparr>cs_report := report_fail k None (Some (cp_size c)) msg (cs_report s)\<rparr>) in
      case note_parse (vl_note vl) (cp_note c) of
        Inl e \<Rightarrow> fail VfMalformed (note_error_text e)
      | Inr nt \<Rightarrow>
          (case body_parse (vl_note vl) (nt_text nt) of
             Inl e \<Rightarrow> fail VfMalformed (note_error_text e)
           | Inr b \<Rightarrow>
               if cb_size b \<noteq> cp_size c \<or> cb_root_hash b \<noteq> cp_root_hash c
               then fail VfMalformed ''stored size or root differs from the signed note''
               else
                 (case vr_origin (cs_report s) of
                    None \<Rightarrow> verify_signed vl leaves nt b (s\<lparr>cs_report := (cs_report s)\<lparr>vr_origin := Some (cb_origin b)\<rparr>\<rparr>)
                  | Some orig \<Rightarrow>
                      if orig \<noteq> cb_origin b then fail VfOriginMismatch (''origin '' @ quoted (cb_origin b) @ '' differs'')
                      else verify_signed vl leaves nt b s)))"

fun verify_checkpoints :: "'f verify_lib \<Rightarrow> audit_hash list \<Rightarrow> audit_checkpoint list \<Rightarrow> checkpoint_scan \<Rightarrow> checkpoint_scan" where
  "verify_checkpoints vl leaves [] s = s"
| "verify_checkpoints vl leaves (c # cs) s = verify_checkpoints vl leaves cs (verify_checkpoint vl leaves c s)"

definition entries_scan :: "'f verify_lib \<Rightarrow> audit_entry list \<Rightarrow> entry_scan" where
  "entries_scan vl es =
     verify_entries vl 0 es
       \<lparr>es_report = verify_report_default\<lparr>vr_records := length es\<rparr>, es_leaves = [], es_previous_leaf = None, es_rotations = []\<rparr>"

definition verify_log :: "'f verify_lib \<Rightarrow> audit_entry list \<Rightarrow> audit_checkpoint list \<Rightarrow> note_verifier list \<Rightarrow> verify_report" where
  "verify_log vl es cps trusted_keys =
     (let sc = entries_scan vl es;
          rep = cs_report (verify_checkpoints vl (es_leaves sc) (sort_key cp_size cps)
            \<lparr>cs_report = es_report sc, cs_trusted = trusted_keys, cs_retired = [], cs_roots = [], cs_rotations = es_rotations sc\<rparr>);
          rep = fail_if (es \<noteq> [] \<and> vr_checkpoints_verified rep = 0 \<and> vr_failures rep = []) VfUnanchored None None
            ''no checkpoint signs these records'' rep
      in rep\<lparr>vr_unsigned_tail := length (es_leaves sc) - vr_verified_size rep\<rparr>)"

section \<open>Exports\<close>

record audit_export =
  ex_entries :: "audit_entry list"
  ex_checkpoints :: "audit_checkpoint list"

definition export_from_store :: "string \<Rightarrow> audit_store \<Rightarrow> audit_export result" where
  "export_from_store i st =
     result_bind (store_read i 0 (store_size i st) st) (\<lambda>es. Inr \<lparr>ex_entries = es, ex_checkpoints = store_checkpoints i st\<rparr>)"

definition export_verify :: "'f verify_lib \<Rightarrow> audit_export \<Rightarrow> note_verifier list \<Rightarrow> verify_report" where
  "export_verify vl ex trusted_keys = verify_log vl (ex_entries ex) (ex_checkpoints ex) trusted_keys"

end
