(* ===== verification/Merkle_Level.thy ===== *)
theory Merkle_Level
  imports Merkle
begin

text \<open>
  A tree by its levels. The recursion of RFC 9162 splits from the root; the verifiers and the frontier work
  from the leaves. Both meet in \<open>pairup\<close>, which hashes a level's neighbours and promotes an unpaired last
  node: the tree over a level is the tree over the level above it.
\<close>

section \<open>Split points\<close>

lemma bit_length_bounds: "0 < n \<Longrightarrow> n < 2 ^ bit_length n"
proof (induction n rule: bit_length.induct)
  case (1 n)
  show ?case
  proof (cases "n = 1")
    case False
    then have "n div 2 < 2 ^ bit_length (n div 2)" using 1 by auto
    then show ?thesis using 1(2) by (subst bit_length.simps) simp
  qed (simp add: bit_length.simps)
qed

lemma bit_length_unique:
  assumes "2 ^ j \<le> n" and "n < 2 ^ Suc j"
  shows "bit_length n = Suc j"
proof -
  have n: "0 < n" by (rule less_le_trans [OF _ assms(1)]) simp
  have "2 ^ j < (2 :: nat) ^ bit_length n" using assms(1) bit_length_bounds [OF n] by linarith
  moreover have "2 ^ (bit_length n - 1) < (2 :: nat) ^ Suc j" using assms(2) bit_length_le [OF n] by linarith
  ultimately have "j < bit_length n" "bit_length n - 1 < Suc j" by (simp_all add: power_strict_increasing_iff del: power_Suc)
  then show ?thesis by simp
qed

lemma top_bit:
  assumes "2 ^ j \<le> n" and "n < 2 ^ Suc j" and "n < 2 ^ 64"
  shows "63 - leading_zeros n = j"
proof -
  have "2 ^ j < (2 :: nat) ^ 64" using assms(1,3) by linarith
  then have "j < 64" by (simp add: power_strict_increasing_iff del: power_numeral)
  then show ?thesis using bit_length_unique [OF assms(1,2)] by (simp add: leading_zeros_def)
qed

lemma power_below:
  assumes "0 < (n :: nat)"
  obtains j where "2 ^ j \<le> n" and "n < 2 ^ Suc j"
proof
  show "2 ^ (bit_length n - 1) \<le> n" using bit_length_le [OF assms] by simp
  show "n < 2 ^ Suc (bit_length n - 1)" using bit_length_bounds [OF assms] bit_length_le [OF assms] by simp
qed

lemma split_point_eq:
  assumes "2 ^ j < n" and "n \<le> 2 ^ Suc j" and "n \<le> 2 ^ 64"
  shows "split_point n = 2 ^ j"
proof -
  have "2 ^ j \<le> n - 1" "n - 1 < 2 ^ Suc j" "n - 1 < 2 ^ 64" using assms by auto
  then show ?thesis unfolding split_point_def by (simp only: top_bit)
qed

lemma split_point_power:
  assumes "2 \<le> n" and "n \<le> 2 ^ 64"
  obtains j where "split_point n = 2 ^ j" and "2 ^ j < n" and "n \<le> 2 ^ Suc j"
proof -
  have "0 < n - 1" using assms(1) by simp
  then obtain j where j: "2 ^ j \<le> n - 1" "n - 1 < 2 ^ Suc j" by (rule power_below)
  have "2 ^ j < n" "n \<le> 2 ^ Suc j" using j assms(1) by auto
  then show ?thesis using that split_point_eq assms(2) by blast
qed

lemma split_point_2 [simp]: "split_point 2 = 1"
  using split_point_eq [of 0 2] by simp

lemmas split_point_Suc2 [simp] = split_point_2 [unfolded numeral_2_eq_2]

lemma split_point_double:
  assumes "3 \<le> n" and "n \<le> 2 ^ 64"
  shows "split_point n = 2 * split_point ((n + 1) div 2)"
proof -
  have n2: "2 \<le> n" using assms(1) by simp
  obtain j where j: "split_point n = 2 ^ j" "2 ^ j < n" "n \<le> 2 ^ Suc j" by (rule split_point_power [OF n2 assms(2)])
  obtain i where i: "j = Suc i" using j(3) assms(1) by (cases j) auto
  have "2 ^ i < (n + 1) div 2" "(n + 1) div 2 \<le> 2 ^ Suc i" "(n + 1) div 2 \<le> 2 ^ 64"
    using j(2,3) assms unfolding i by simp_all
  from split_point_eq [OF this] show ?thesis using j(1) by (simp add: i)
qed

section \<open>Levels\<close>

fun pairup :: "sha256 \<Rightarrow> audit_hash list \<Rightarrow> audit_hash list" where
  "pairup sha (a # b # xs) = node_hash sha a b # pairup sha xs"
| "pairup sha xs = xs"

lemma length_pairup [simp]: "length (pairup sha xs) = (length xs + 1) div 2"
  by (induction sha xs rule: pairup.induct) auto

lemma pairup_Nil_iff [simp]: "pairup sha xs = [] \<longleftrightarrow> xs = []"
  by (cases "(sha, xs)" rule: pairup.cases) auto

lemma pairup_nth_pair: "Suc (2 * i) < length xs \<Longrightarrow> pairup sha xs ! i = node_hash sha (xs ! (2 * i)) (xs ! Suc (2 * i))"
proof (induction sha xs arbitrary: i rule: pairup.induct)
  case (1 sha a b xs)
  then show ?case by (cases i) auto
qed auto

lemma pairup_nth_odd: "Suc (2 * i) = length xs \<Longrightarrow> pairup sha xs ! i = xs ! (2 * i)"
proof (induction sha xs arbitrary: i rule: pairup.induct)
  case (1 sha a b xs)
  then show ?case by (cases i) (auto dest!: sym [of _ "length xs"])
qed auto

lemma pairup_take: "pairup sha (take (2 * k) xs) = take k (pairup sha xs)"
proof (induction sha xs arbitrary: k rule: pairup.induct)
  case (1 sha a b xs)
  then show ?case by (cases k) auto
qed (case_tac [!] k, auto)

lemma pairup_drop: "pairup sha (drop (2 * k) xs) = drop k (pairup sha xs)"
proof (induction sha xs arbitrary: k rule: pairup.induct)
  case (1 sha a b xs)
  then show ?case by (cases k) auto
qed (case_tac [!] k, auto)

section \<open>The tree hash of a list\<close>

text \<open>The recursion of the source on the list of leaves itself instead of a range of it.\<close>

function mth :: "sha256 \<Rightarrow> audit_hash list \<Rightarrow> audit_hash" where
  "mth sha xs =
     (if xs = [] then empty_root sha
      else if length xs = 1 then hd xs
      else node_hash sha (mth sha (take (split_point (length xs)) xs)) (mth sha (drop (split_point (length xs)) xs)))"
  by pat_completeness auto
termination
proof (relation "measure (\<lambda>(sha, xs). length xs)", goal_cases)
  case (2 sha xs)
  then have "2 \<le> length xs" by (cases xs) (auto simp: Suc_le_eq)
  then show ?case using split_point_less [of "length xs"] by simp
qed auto

declare mth.simps [simp del]

lemma mth_simps [simp]: "mth sha [] = empty_root sha" "mth sha [a] = a"
  by (simp_all add: mth.simps)

lemma mth_split:
  "2 \<le> length xs \<Longrightarrow> mth sha xs = node_hash sha (mth sha (take (split_point (length xs)) xs)) (mth sha (drop (split_point (length xs)) xs))"
  by (subst mth.simps) auto

lemma mth_pair [simp]: "mth sha [a, b] = node_hash sha a b"
  by (simp add: mth_split)

text \<open>Induction over the splits of a list: a list too short to split, a pair, or two parts cut at an even position.\<close>

lemma split_induct [consumes 1, case_names short pair split]:
  assumes "length xs \<le> 2 ^ 64"
    and short: "\<And>xs. length xs \<le> 1 \<Longrightarrow> P xs"
    and pair: "\<And>a b. P [a, b]"
    and split: "\<And>xs k. \<lbrakk>3 \<le> length xs; length xs \<le> 2 ^ 64; split_point (length xs) = 2 * k; split_point ((length xs + 1) div 2) = k;
        0 < k; 2 * k < length xs; k < (length xs + 1) div 2; P (take (2 * k) xs); P (drop (2 * k) xs)\<rbrakk> \<Longrightarrow> P xs"
  shows "P xs"
  using assms(1)
proof (induction "length xs" arbitrary: xs rule: less_induct)
  case less
  consider "length xs \<le> 1" | a b where "xs = [a, b]" | "3 \<le> length xs"
  proof (cases xs)
    case (Cons a ys)
    note a = this
    show ?thesis
    proof (cases ys)
      case (Cons b zs)
      show ?thesis
      proof (cases zs)
        case Nil
        then show ?thesis using a Cons that(2) by simp
      next
        case (Cons c ws)
        have "3 \<le> length xs" by (simp add: a \<open>ys = b # zs\<close> Cons)
        then show ?thesis by (rule that(3))
      qed
    qed (simp add: a that(1))
  qed (simp add: that(1))
  then show ?case
  proof cases
    case 3
    let ?k = "split_point ((length xs + 1) div 2)"
    have d: "split_point (length xs) = 2 * ?k" using split_point_double [OF 3 less.prems] .
    have l: "2 * ?k < length xs" using split_point_less [of "length xs"] 3 by (simp add: d)
    have l': "?k < (length xs + 1) div 2" using l by simp
    have k0: "0 < ?k" by simp
    have "length (take (2 * ?k) xs) < length xs" "length (drop (2 * ?k) xs) < length xs"
      using l k0 by (simp_all only: length_take length_drop)
    then have "P (take (2 * ?k) xs)" "P (drop (2 * ?k) xs)"
      using less.hyps less.prems by (auto dest: less_imp_le)
    then show ?thesis by (rule split [OF 3 less.prems d refl k0 l l'])
  qed (auto intro: short pair)
qed

lemma mth_pairup: "length xs \<le> 2 ^ 64 \<Longrightarrow> mth sha (pairup sha xs) = mth sha xs"
proof (induction xs rule: split_induct)
  case (short xs)
  then show ?case by (cases xs) auto
next
  case (split xs k)
  have "mth sha (pairup sha xs) = node_hash sha (mth sha (take k (pairup sha xs))) (mth sha (drop k (pairup sha xs)))"
    using split(1,4) by (subst mth_split) auto
  also have "\<dots> = node_hash sha (mth sha (take (2 * k) xs)) (mth sha (drop (2 * k) xs))"
    using split(8,9) by (simp add: pairup_take pairup_drop)
  also have "\<dots> = mth sha xs" using split(1,3) by (subst mth_split) auto
  finally show ?case .
qed simp

abbreviation slice :: "nat \<Rightarrow> nat \<Rightarrow> 'a list \<Rightarrow> 'a list" where
  "slice s e xs \<equiv> take (e - s) (drop s xs)"

lemma slice_parts:
  assumes "s \<le> m" and "m \<le> e"
  shows "take (m - s) (slice s e xs) = slice s m xs" and "drop (m - s) (slice s e xs) = slice m e xs"
  using assms by (simp_all add: drop_take)

lemma subtree_root_mth:
  assumes "s \<le> e" and "e \<le> length leaves"
  shows "subtree_root sha leaves s e = mth sha (slice s e leaves)"
  using assms
proof (induction sha leaves s e rule: subtree_root.induct)
  case (1 sha leaves s e)
  consider "e = s" | "e - s = 1" | "2 \<le> e - s" using 1(3) by linarith
  then show ?case
  proof cases
    case 2
    then have "slice s e leaves = [leaves ! s]" using 1(4) by (simp add: take_Suc_conv_app_nth hd_drop_conv_nth take_Suc)
    then show ?thesis using 2 by (simp add: subtree_root.simps [of sha leaves s e])
  next
    case 3
    let ?k = "split_point (e - s)"
    have k: "?k < e - s" using split_point_less [OF 3] .
    have len: "length (slice s e leaves) = e - s" using 1(4) by simp
    have "subtree_root sha leaves s e = node_hash sha (mth sha (slice s (s + ?k) leaves)) (mth sha (slice (s + ?k) e leaves))"
      using 1(1,2) [OF _ _ refl] 1(3,4) 3 k by (subst subtree_root.simps) (auto simp: Let_def)
    also have "\<dots> = mth sha (slice s e leaves)"
      using slice_parts [of s "s + ?k" e leaves] k 3 by (subst mth_split) (simp_all only: len, simp_all)
    finally show ?thesis .
  qed (simp add: subtree_root.simps)
qed

lemma tree_root_mth: "tree_root sha leaves = mth sha leaves"
  using subtree_root_mth [of 0 "length leaves" leaves sha] by (simp add: tree_root_def)

end
