(* ===== verification/Merkle_Walk.thy ===== *)
theory Merkle_Walk
  imports Merkle_Level
begin

unbundle bit_operations_syntax

text \<open>
  What the two verifiers share: the inputs that hashing a tree feeds to SHA-256, and the walk from a node to
  the root. The source's loop takes a hash of the proof per turn and skips the levels at which the node has
  no sibling; the walk takes a level per step. They end alike, whatever state they carry.
\<close>

section \<open>Hashes as bytes\<close>

lemma length_hash_bytes [simp]: "length (hash_bytes h) = 32"
  by (simp add: hash_bytes_def)

lemma hash_bytes_inject [simp]: "hash_bytes a = hash_bytes b \<longleftrightarrow> a = b"
proof
  assume eq: "hash_bytes a = hash_bytes b"
  show "a = b"
  proof (rule bit_word_eqI)
    fix n assume n: "n < LENGTH(256)"
    let ?i = "31 - n div 8"
    have "hash_bytes a ! ?i = hash_bytes b ! ?i" by (simp add: eq)
    then have "(ucast (drop_bit (8 * (n div 8)) a) :: byte) = ucast (drop_bit (8 * (n div 8)) b)"
      using n by (simp add: hash_bytes_def)
    from arg_cong [OF this, of "\<lambda>w. bit w (n mod 8)"] show "bit a n \<longleftrightarrow> bit b n"
      by (simp add: bit_ucast_iff bit_drop_bit_eq)
  qed
qed simp

section \<open>The inputs a computation hashes\<close>

definition node_input :: "audit_hash \<Rightarrow> audit_hash \<Rightarrow> byte list" where
  "node_input l r = 1 # hash_bytes l @ hash_bytes r"

lemma node_hash_input: "node_hash sha l r = sha (node_input l r)"
  by (simp add: node_hash_def node_input_def)

lemma node_input_inject [simp]: "node_input a b = node_input c d \<longleftrightarrow> a = c \<and> b = d"
  by (simp add: node_input_def)

lemma node_hash_inject:
  "\<lbrakk>inj_on sha I; node_input a b \<in> I; node_input c d \<in> I\<rbrakk> \<Longrightarrow> node_hash sha a b = node_hash sha c d \<longleftrightarrow> a = c \<and> b = d"
  by (auto simp: node_hash_input dest: inj_onD)

text \<open>Computing the root over \<open>xs\<close>.\<close>

function tree_inputs :: "sha256 \<Rightarrow> audit_hash list \<Rightarrow> byte list set" where
  "tree_inputs sha xs =
     (if length xs \<le> 1 then {}
      else let l = take (split_point (length xs)) xs; r = drop (split_point (length xs)) xs in
        insert (node_input (tree_root sha l) (tree_root sha r)) (tree_inputs sha l \<union> tree_inputs sha r))"
  by pat_completeness auto
termination
proof (relation "measure (\<lambda>(sha, xs). length xs)", goal_cases)
  case (2 sha xs)
  then show ?case using split_point_less [of "length xs"] by simp
qed (auto intro: diff_less)

declare tree_inputs.simps [simp del]

fun pair_inputs :: "audit_hash list \<Rightarrow> byte list set" where
  "pair_inputs (a # b # xs) = insert (node_input a b) (pair_inputs xs)"
| "pair_inputs xs = {}"

lemma pair_inputs_cut: "pair_inputs xs = pair_inputs (take (2 * k) xs) \<union> pair_inputs (drop (2 * k) xs)"
proof (induction xs arbitrary: k rule: pair_inputs.induct)
  case (1 a b xs)
  then show ?case by (cases k) auto
qed (auto simp: take_Cons' drop_Cons')

lemma pair_inputs_nth: "Suc (2 * i) < length xs \<Longrightarrow> node_input (xs ! (2 * i)) (xs ! Suc (2 * i)) \<in> pair_inputs xs"
proof (induction xs arbitrary: i rule: pair_inputs.induct)
  case (1 a b xs)
  then show ?case by (cases i) auto
qed auto

lemma tree_inputs_split:
  "2 \<le> length xs \<Longrightarrow> tree_inputs sha xs =
     insert (node_input (mth sha (take (split_point (length xs)) xs)) (mth sha (drop (split_point (length xs)) xs)))
       (tree_inputs sha (take (split_point (length xs)) xs) \<union> tree_inputs sha (drop (split_point (length xs)) xs))"
  by (subst tree_inputs.simps) (simp add: Let_def tree_root_mth)

lemma tree_inputs_short [simp]: "length xs \<le> 1 \<Longrightarrow> tree_inputs sha xs = {}" "tree_inputs sha [a] = {}"
  by (simp_all add: tree_inputs.simps)

lemma tree_inputs_pairup: "length xs \<le> 2 ^ 64 \<Longrightarrow> tree_inputs sha xs = pair_inputs xs \<union> tree_inputs sha (pairup sha xs)"
proof (induction xs rule: split_induct)
  case (short xs)
  then show ?case by (cases xs) auto
next
  case (pair a b)
  then show ?case by (subst tree_inputs_split) simp_all
next
  case (split xs k)
  have len: "length (take (2 * k) xs) \<le> 2 ^ 64" "length (drop (2 * k) xs) \<le> 2 ^ 64" using split(2) by auto
  have "tree_inputs sha xs = insert (node_input (mth sha (take (2 * k) xs)) (mth sha (drop (2 * k) xs)))
    (pair_inputs (take (2 * k) xs) \<union> pair_inputs (drop (2 * k) xs)
      \<union> (tree_inputs sha (take k (pairup sha xs)) \<union> tree_inputs sha (drop k (pairup sha xs))))"
    using split(1,3,8,9) by (subst tree_inputs_split) (auto simp: pairup_take pairup_drop)
  also have "\<dots> = pair_inputs xs \<union> tree_inputs sha (pairup sha xs)"
    using split(1,4) mth_pairup [OF len(1), of sha] mth_pairup [OF len(2), of sha]
    by (subst tree_inputs_split [of "pairup sha xs"]) (auto simp: pairup_take pairup_drop pair_inputs_cut [of xs k])
  finally show ?case .
qed

lemma level_length: "length xs = Suc s \<Longrightarrow> 0 < s \<Longrightarrow> length (pairup sha xs) = Suc (s div 2)"
  by simp

lemma pairup_nth_even: "even f \<Longrightarrow> Suc f < length xs \<Longrightarrow> pairup sha xs ! (f div 2) = node_hash sha (xs ! f) (xs ! Suc f)"
  using pairup_nth_pair [of "f div 2" xs sha] by simp

lemma pairup_nth_right: "odd f \<Longrightarrow> f < length xs \<Longrightarrow> pairup sha xs ! (f div 2) = node_hash sha (xs ! (f - 1)) (xs ! f)"
  using pairup_nth_pair [of "f div 2" xs sha] by (auto elim!: oddE)

lemma pairup_nth_last: "even f \<Longrightarrow> Suc f = length xs \<Longrightarrow> pairup sha xs ! (f div 2) = xs ! f"
  using pairup_nth_odd [of "f div 2" xs sha] by simp

lemma pair_inputs_even: "even f \<Longrightarrow> Suc f < length xs \<Longrightarrow> node_input (xs ! f) (xs ! Suc f) \<in> pair_inputs xs"
  using pair_inputs_nth [of "f div 2" xs] by simp

lemma pair_inputs_right: "odd f \<Longrightarrow> f < length xs \<Longrightarrow> node_input (xs ! (f - 1)) (xs ! f) \<in> pair_inputs xs"
  using pair_inputs_nth [of "f div 2" xs] by (auto elim!: oddE)

section \<open>The walk\<close>

text \<open>\<open>L\<close> and \<open>R\<close> are the updates of the carried state with a sibling on the left and on the right.\<close>

function walk :: "(audit_hash \<Rightarrow> 'a \<Rightarrow> 'a) \<Rightarrow> ('a \<Rightarrow> audit_hash \<Rightarrow> 'a) \<Rightarrow> nat \<Rightarrow> nat \<Rightarrow> 'a \<Rightarrow> audit_hash list \<Rightarrow> 'a option" where
  "walk L R f s a ps =
     (if s = 0 then (if ps = [] then Some a else None)
      else if even f \<and> f = s then walk L R (f div 2) (s div 2) a ps
      else case ps of
        [] \<Rightarrow> None
      | p # ps \<Rightarrow> walk L R (f div 2) (s div 2) (if odd f then L p a else R a p) ps)"
  by pat_completeness auto
termination
  by (relation "measure (\<lambda>(L, R, f, s, a, ps). s)") auto

fun proof_loop :: "(audit_hash \<Rightarrow> 'a \<Rightarrow> 'a) \<Rightarrow> ('a \<Rightarrow> audit_hash \<Rightarrow> 'a) \<Rightarrow> nat \<Rightarrow> nat \<Rightarrow> 'a \<Rightarrow> audit_hash list \<Rightarrow> (nat \<times> 'a) option" where
  "proof_loop L R f s a [] = Some (s, a)"
| "proof_loop L R f s a (p # ps) =
     (if s = 0 then None
      else if odd f \<or> f = s then
        (let (f', s') = strip_zeros f s in proof_loop L R (f' div 2) (s' div 2) (L p a) ps)
      else proof_loop L R (f div 2) (s div 2) (R a p) ps)"

declare walk.simps [simp del]

lemma walk_step:
  "walk L R f 0 a ps = (if ps = [] then Some a else None)"
  "0 < s \<Longrightarrow> even f \<Longrightarrow> f = s \<Longrightarrow> walk L R f s a ps = walk L R (f div 2) (s div 2) a ps"
  "0 < s \<Longrightarrow> odd f \<Longrightarrow> walk L R f s a (p # ps) = walk L R (f div 2) (s div 2) (L p a) ps"
  "0 < s \<Longrightarrow> even f \<Longrightarrow> f \<noteq> s \<Longrightarrow> walk L R f s a (p # ps) = walk L R (f div 2) (s div 2) (R a p) ps"
  "0 < s \<Longrightarrow> odd f \<or> f \<noteq> s \<Longrightarrow> walk L R f s a [] = None"
  by (subst walk.simps; auto)+

lemma strip_zeros_odd [simp]: "odd f \<Longrightarrow> strip_zeros f s = (f, s)" "strip_zeros 0 s = (0, s)"
  by (simp_all add: strip_zeros.simps)

lemma strip_zeros_last: "0 < f \<Longrightarrow> \<exists>g. strip_zeros f f = (g, g) \<and> odd g \<and> walk L R f f a ps = walk L R g g a ps"
proof (induction f rule: less_induct)
  case (less f)
  show ?case
  proof (cases "odd f")
    case False
    then have f: "0 < f div 2" "f div 2 < f" using less.prems by auto
    have "strip_zeros f f = strip_zeros (f div 2) (f div 2)" using False less.prems by (subst strip_zeros.simps) simp
    then show ?thesis using less.IH [OF f(2,1)] walk_step(2) [where L = L and R = R and a = a and ps = ps and f = f and s = f] False less.prems by simp
  qed simp
qed

lemma walk_Nil: "f \<le> s \<Longrightarrow> walk L R f s a [] = (if s = 0 then Some a else None)"
proof (induction s arbitrary: f rule: less_induct)
  case (less s)
  show ?case
  proof (cases "s = 0 \<or> odd f \<or> f \<noteq> s")
    case False
    then have "s div 2 < s" "s div 2 \<noteq> 0" "f = s" by auto
    then show ?thesis using less.IH [of "s div 2" "s div 2"] walk_step(2) [where L = L and R = R and a = a and ps = "[]" and f = f and s = s] False by simp
  qed (auto simp: walk_step)
qed

lemma walk_loop:
  "f \<le> s \<Longrightarrow> walk L R f s a ps =
     (case proof_loop L R f s a ps of Some (s', a') \<Rightarrow> if s' = 0 then Some a' else None | None \<Rightarrow> None)"
proof (induction ps arbitrary: f s a)
  case Nil
  then show ?case by (simp add: walk_Nil)
next
  case (Cons p ps)
  consider "s = 0" | "0 < s" "odd f" | "0 < s" "even f" "f = s" | "0 < s" "even f" "f < s" using Cons.prems by linarith
  then show ?case
  proof cases
    case 2
    then show ?thesis using Cons.IH [OF div_le_mono [OF Cons.prems, of 2], of "L p a"] by (simp add: walk_step)
  next
    case 3
    then obtain g where g: "strip_zeros f f = (g, g)" "odd g" "walk L R f f a (p # ps) = walk L R g g a (p # ps)"
      using strip_zeros_last [of f L R a "p # ps"] by blast
    moreover have "0 < g" using g(2) by (auto elim: oddE)
    ultimately show ?thesis using Cons.IH [of "g div 2" "g div 2" "L p a"] 3 by (simp add: walk_step)
  next
    case 4
    then show ?thesis using Cons.IH [OF div_le_mono [OF Cons.prems, of 2], of "R a p"] by (simp add: walk_step)
  qed (simp add: walk_step)
qed

text \<open>A walk that arrives, by the place of its first node.\<close>

lemma walk_cases:
  assumes "walk L R f s a ps = Some b" and "f \<le> s"
  obtains (root) "s = 0" and "f = 0" and "a = b"
    | (lone) "0 < s" and "even f" and "f = s" and "walk L R (f div 2) (s div 2) a ps = Some b"
    | (right) p qs where "0 < s" and "odd f" and "ps = p # qs" and "walk L R (f div 2) (s div 2) (L p a) qs = Some b"
    | (left) p qs where "0 < s" and "even f" and "f < s" and "ps = p # qs" and "walk L R (f div 2) (s div 2) (R a p) qs = Some b"
proof -
  consider "s = 0" | "0 < s" "even f" "f = s" | "0 < s" "odd f" | "0 < s" "even f" "f < s" using assms(2) by linarith
  then show ?thesis
  proof cases
    case 1
    then show ?thesis using assms root by (simp add: walk_step split: if_splits)
  next
    case 2
    then have "walk L R (f div 2) (s div 2) a ps = Some b"
      using assms(1) walk_step(2) [where L = L and R = R and a = a and ps = ps and f = f and s = s] by simp
    then show ?thesis using 2 lone by blast
  next
    case 3
    then show ?thesis using assms(1) right by (cases ps) (auto simp: walk_step)
  next
    case 4
    then show ?thesis using assms(1) left by (cases ps) (auto simp: walk_step)
  qed
qed

text \<open>What a level passes on to the one above.\<close>

lemma level_up:
  assumes "tree_inputs sha xs \<subseteq> I" and "length xs = Suc s" and "0 < s" and "length xs \<le> 2 ^ 64"
  shows "tree_inputs sha (pairup sha xs) \<subseteq> I" and "pair_inputs xs \<subseteq> I" and "length (pairup sha xs) = Suc (s div 2)"
    and "length (pairup sha xs) \<le> 2 ^ 64" and "mth sha xs = mth sha (pairup sha xs)"
  using assms tree_inputs_pairup [OF assms(4), of sha] mth_pairup [OF assms(4), of sha] by auto

end
