(* ===== verification/Merkle_Inclusion.thy ===== *)
theory Merkle_Inclusion
  imports Merkle_Walk
begin

unbundle bit_operations_syntax

text \<open>
  Inclusion proofs: the ones the tree gives verify, and a proof that verifies against a tree's root is for
  the leaf at that position, unless two of the inputs hashed on the way collide under SHA-256.
\<close>

section \<open>The verifier's inputs\<close>

fun inclusion_inputs :: "sha256 \<Rightarrow> nat \<Rightarrow> nat \<Rightarrow> audit_hash \<Rightarrow> audit_hash list \<Rightarrow> byte list set" where
  "inclusion_inputs sha f s r [] = {}"
| "inclusion_inputs sha f s r (p # ps) =
     (if s = 0 then {}
      else if odd f \<or> f = s then
        (let (f', s') = strip_zeros f s in
         insert (node_input p r) (inclusion_inputs sha (f' div 2) (s' div 2) (node_hash sha p r) ps))
      else insert (node_input r p) (inclusion_inputs sha (f div 2) (s div 2) (node_hash sha r p) ps))"

text \<open>The walk of the verifier, with the inputs it hashes.\<close>

definition left_hash :: "sha256 \<Rightarrow> audit_hash \<Rightarrow> audit_hash \<times> byte list set \<Rightarrow> audit_hash \<times> byte list set" where
  "left_hash sha p a = (node_hash sha p (fst a), insert (node_input p (fst a)) (snd a))"

definition right_hash :: "sha256 \<Rightarrow> audit_hash \<times> byte list set \<Rightarrow> audit_hash \<Rightarrow> audit_hash \<times> byte list set" where
  "right_hash sha a p = (node_hash sha (fst a) p, insert (node_input (fst a) p) (snd a))"

lemma hash_simps [simp]:
  "left_hash sha p (r, J) = (node_hash sha p r, insert (node_input p r) J)"
  "right_hash sha (r, J) p = (node_hash sha r p, insert (node_input r p) J)"
  by (simp_all add: left_hash_def right_hash_def)

lemma inclusion_loop_walk:
  "proof_loop (left_hash sha) (right_hash sha) f s (r, J) ps =
     (case verify_inclusion_loop sha f s r ps of
        Inl e \<Rightarrow> None
      | Inr (s', r') \<Rightarrow> Some (s', r', inclusion_inputs sha f s r ps \<union> J))"
  by (induction sha f s r ps arbitrary: J rule: verify_inclusion_loop.induct)
    (auto simp: Let_def split: sum.splits prod.splits)

lemma verify_inclusion_walk:
  "verify_inclusion sha i n leaf ps root = Inr () \<longleftrightarrow>
     i < n \<and> walk (left_hash sha) (right_hash sha) i (n - 1) (leaf, {}) ps = Some (root, inclusion_inputs sha i (n - 1) leaf ps)"
proof (cases "i < n")
  case True
  then have "i \<le> n - 1" by simp
  then show ?thesis using True
    by (auto simp: verify_inclusion_def walk_loop inclusion_loop_walk split: sum.splits prod.splits if_splits)
qed (simp add: verify_inclusion_def)

section \<open>Soundness\<close>

lemma walk_sound:
  assumes "inj_on sha I" and "J' \<subseteq> I"
  shows "\<lbrakk>walk (left_hash sha) (right_hash sha) f s (r, J) ps = Some (mth sha xs, J'); f \<le> s; tree_inputs sha xs \<subseteq> I;
    length xs = Suc s; length xs \<le> 2 ^ 64\<rbrakk> \<Longrightarrow> r = xs ! f \<and> J \<subseteq> I"
proof (induction s arbitrary: xs f r J ps rule: less_induct)
  case (less s)
  note inject = node_hash_inject [OF assms(1)] and f = less.prems(2) and tree = less.prems(3) and len = less.prems(4)
    and bound = less.prems(5)
  note up = level_up [OF tree len _ bound]
  have IH: "r' = pairup sha xs ! (f div 2) \<and> J'' \<subseteq> I"
    if "0 < s" and "walk (left_hash sha) (right_hash sha) (f div 2) (s div 2) (r', J'') qs = Some (mth sha xs, J')" for r' J'' qs
    using less.IH [OF _ _ _ up(1) up(3,4)] that up(5) f by (simp add: div_le_mono)
  from less.prems(1) f show ?case
  proof (cases rule: walk_cases)
    case root
    then obtain a where "xs = [a]" using len by (auto simp: length_Suc_conv)
    then show ?thesis using root assms(2) by simp
  next
    case lone
    then show ?thesis using IH [of r J ps] pairup_nth_last [of f xs sha] len by simp
  next
    case (right p qs)
    then have eq: "node_hash sha p r = pairup sha xs ! (f div 2)" "insert (node_input p r) J \<subseteq> I"
      using IH [of _ _ qs] by auto
    have "node_input (xs ! (f - 1)) (xs ! f) \<in> I" using up(2) [OF right(1)] pair_inputs_right [OF right(2), of xs] f len by auto
    then show ?thesis using eq inject pairup_nth_right [OF right(2), of xs sha] f len by auto
  next
    case (left p qs)
    then have eq: "node_hash sha r p = pairup sha xs ! (f div 2)" "insert (node_input r p) J \<subseteq> I"
      using IH [of _ _ qs] by auto
    have "node_input (xs ! f) (xs ! Suc f) \<in> I" using up(2) [OF left(1)] pair_inputs_even [OF left(2), of xs] left(3) len by auto
    then show ?thesis using eq inject pairup_nth_even [OF left(2), of xs sha] left(3) len by auto
  qed
qed

section \<open>Completeness\<close>

text \<open>The siblings a node meets on its way up, level by level.\<close>

definition sibling :: "nat \<Rightarrow> audit_hash list \<Rightarrow> audit_hash list" where
  "sibling f xs = (if odd f then [xs ! (f - 1)] else if Suc f = length xs then [] else [xs ! Suc f])"

function level_path :: "sha256 \<Rightarrow> nat \<Rightarrow> audit_hash list \<Rightarrow> audit_hash list" where
  "level_path sha f xs = (if length xs \<le> 1 then [] else sibling f xs @ level_path sha (f div 2) (pairup sha xs))"
  by pat_completeness auto
termination
  by (relation "measure (\<lambda>(sha, f, xs). length xs)") auto

declare level_path.simps [simp del]

lemma level_path_short [simp]: "length xs \<le> 1 \<Longrightarrow> level_path sha f xs = []" "level_path sha f [a] = []"
  by (simp_all add: level_path.simps)

lemma level_path_step: "f < length xs \<Longrightarrow> level_path sha f xs = sibling f xs @ level_path sha (f div 2) (pairup sha xs)"
proof (cases "length xs \<le> 1")
  case True
  moreover assume "f < length xs"
  ultimately show ?thesis by (cases xs) (auto simp: sibling_def)
next
  case False
  then show ?thesis by (subst level_path.simps) simp
qed

lemma walk_level_path:
  "\<lbrakk>f < length xs; length xs \<le> 2 ^ 64\<rbrakk> \<Longrightarrow>
    \<exists>J'. walk (left_hash sha) (right_hash sha) f (length xs - 1) (xs ! f, J) (level_path sha f xs) = Some (mth sha xs, J')"
proof (induction "length xs" arbitrary: xs f J rule: less_induct)
  case less
  show ?case
  proof (cases "length xs \<le> 1")
    case True
    then show ?thesis using less.prems by (cases xs) (auto simp: walk_step)
  next
    case False
    let ?ys = "pairup sha xs"
    have s: "0 < length xs - 1" "length ?ys < length xs" "(length xs - 1) div 2 = length ?ys - 1" "f div 2 < length ?ys"
      "length ?ys \<le> 2 ^ 64"
      using False less.prems by auto
    have up: "\<exists>J'. walk (left_hash sha) (right_hash sha) (f div 2) ((length xs - 1) div 2) (?ys ! (f div 2), J)
        (level_path sha (f div 2) ?ys) = Some (mth sha xs, J')" for J
      using less.hyps [OF s(2,4,5)] mth_pairup [OF less.prems(2), of sha] s(3) by simp
    consider "odd f" | "even f" "Suc f = length xs" | "even f" "Suc f < length xs" using less.prems by linarith
    then show ?thesis
    proof cases
      case 1
      then show ?thesis using up s(1) less.prems(1)
        by (simp add: level_path_step [of f xs] sibling_def walk_step pairup_nth_right)
    next
      case 2
      then have "level_path sha f xs = level_path sha (f div 2) ?ys"
        using less.prems(1) by (simp add: level_path_step [of f xs] sibling_def)
      moreover have "?ys ! (f div 2) = xs ! f" using pairup_nth_last [OF 2] .
      moreover have "walk (left_hash sha) (right_hash sha) f (length xs - 1) a ps
        = walk (left_hash sha) (right_hash sha) (f div 2) ((length xs - 1) div 2) a ps" for a ps
        by (rule walk_step(2) [OF s(1) 2(1)]) (use 2(2) in simp)
      ultimately show ?thesis using up [of J] by simp
    next
      case 3
      then show ?thesis using up s(1) by (simp add: level_path_step [of f xs] sibling_def walk_step pairup_nth_even)
    qed
  qed
qed

lemma sibling_take: "\<lbrakk>f < 2 * k; 2 * k \<le> length xs\<rbrakk> \<Longrightarrow> sibling f (take (2 * k) xs) = sibling f xs \<and> sibling f xs \<noteq> []"
proof -
  assume f: "f < 2 * k" and len: "2 * k \<le> length xs"
  have "Suc f < 2 * k" if "even f" using f that by presburger
  then show ?thesis using f len by (auto simp: sibling_def)
qed

lemma sibling_drop: "\<lbrakk>2 * k \<le> f; f < length xs\<rbrakk> \<Longrightarrow> sibling (f - 2 * k) (drop (2 * k) xs) = sibling f xs"
proof -
  assume f: "2 * k \<le> f" and len: "f < length xs"
  have "2 * k + (f - Suc (2 * k)) = f - 1" if "odd f" using f that by presburger
  then show ?thesis using f len by (auto simp: sibling_def Suc_diff_le)
qed

lemma level_path_split:
  "\<lbrakk>2 \<le> length xs; length xs \<le> 2 ^ 64; f < length xs\<rbrakk> \<Longrightarrow> level_path sha f xs =
    (let k = split_point (length xs) in
     if f < k then level_path sha f (take k xs) @ [mth sha (drop k xs)]
     else level_path sha (f - k) (drop k xs) @ [mth sha (take k xs)])"
proof (induction "length xs" arbitrary: xs f rule: less_induct)
  case less
  show ?case
  proof (cases "length xs = 2")
    case True
    then obtain a b where "xs = [a, b]" by (auto simp: numeral_2_eq_2 length_Suc_conv)
    then show ?thesis using less.prems(3) by (auto simp: level_path_step sibling_def less_Suc_eq)
  next
    case False
    define k where "k = split_point ((length xs + 1) div 2)"
    let ?ys = "pairup sha xs"
    have n: "3 \<le> length xs" using False less.prems(1) by simp
    have k: "split_point (length xs) = 2 * k" using split_point_double [OF n less.prems(2)] by (simp add: k_def)
    have k2: "2 * k < length xs" using split_point_less [OF less.prems(1)] by (simp add: k)
    have ys: "length ?ys < length xs" "2 \<le> length ?ys" "length ?ys \<le> 2 ^ 64" "f div 2 < length ?ys"
      using n less.prems by auto
    have len: "length (take (2 * k) xs) \<le> 2 ^ 64" "length (drop (2 * k) xs) \<le> 2 ^ 64" using less.prems(2) by auto
    note IH = less.hyps [OF ys] 
    have IH': "level_path sha (f div 2) ?ys = (if f div 2 < k then level_path sha (f div 2) (take k ?ys) @ [mth sha (drop k ?ys)]
      else level_path sha (f div 2 - k) (drop k ?ys) @ [mth sha (take k ?ys)])"
      using IH by (simp add: Let_def k_def)
    have parts: "mth sha (drop k ?ys) = mth sha (drop (2 * k) xs)" "mth sha (take k ?ys) = mth sha (take (2 * k) xs)"
      using mth_pairup [OF len(1), of sha] mth_pairup [OF len(2), of sha] by (simp_all add: pairup_take pairup_drop)
    show ?thesis
    proof (cases "f < 2 * k")
      case True
      then have "level_path sha f (take (2 * k) xs) = sibling f xs @ level_path sha (f div 2) (take k ?ys)"
        using k2 sibling_take [of f k xs] by (simp add: level_path_step [of f "take (2 * k) xs"] pairup_take)
      moreover have "f div 2 < k" using True by simp
      ultimately show ?thesis using True IH' parts less.prems(3) by (simp add: k Let_def level_path_step [of f xs])
    next
      case False
      moreover have "(f - 2 * k) div 2 = f div 2 - k" by presburger
      ultimately have "level_path sha (f - 2 * k) (drop (2 * k) xs) = sibling f xs @ level_path sha (f div 2 - k) (drop k ?ys)"
        using k2 sibling_drop [of k f xs] less.prems(3)
        by (simp add: level_path_step [of "f - 2 * k" "drop (2 * k) xs"] pairup_drop)
      moreover have "\<not> f div 2 < k" using False by simp
      ultimately show ?thesis using False IH' parts less.prems(3) by (simp add: k Let_def level_path_step [of f xs])
    qed
  qed
qed

lemma inclusion_path_level:
  "\<lbrakk>s \<le> i; i < e; e \<le> length leaves; length leaves \<le> 2 ^ 64\<rbrakk> \<Longrightarrow>
    map (\<lambda>(s, e). subtree_root sha leaves s e) (inclusion_path i s e) = level_path sha (i - s) (slice s e leaves)"
proof (induction i s e rule: inclusion_path.induct)
  case (1 i s e)
  show ?case
  proof (cases "e - s \<le> 1")
    case True
    then show ?thesis by (subst inclusion_path.simps) simp
  next
    case False
    let ?k = "split_point (e - s)"
    have k: "?k < e - s" "0 < ?k" using split_point_less [of "e - s"] False by simp_all
    have len: "length (slice s e leaves) = e - s" using 1 by simp
    have tr: "subtree_root sha leaves s (s + ?k) = mth sha (take ?k (slice s e leaves))"
      "subtree_root sha leaves (s + ?k) e = mth sha (drop ?k (slice s e leaves))"
      using subtree_root_mth [of s "s + ?k" leaves sha] subtree_root_mth [of "s + ?k" e leaves sha]
        slice_parts [of s "s + ?k" e leaves] k 1(5) by simp_all
    have "level_path sha (i - s) (slice s e leaves) = (if i - s < ?k
      then level_path sha (i - s) (take ?k (slice s e leaves)) @ [mth sha (drop ?k (slice s e leaves))]
      else level_path sha (i - s - ?k) (drop ?k (slice s e leaves)) @ [mth sha (take ?k (slice s e leaves))])"
      using level_path_split [of "slice s e leaves" "i - s" sha] False 1(3-6) by (simp only: len Let_def)
    moreover have "take ?k (slice s e leaves) = slice s (s + ?k) leaves" "drop ?k (slice s e leaves) = slice (s + ?k) e leaves"
      using slice_parts [of s "s + ?k" e leaves] k by simp_all
    ultimately show ?thesis
      using 1(1) [OF False refl] 1(2) [OF False refl] 1(3-6) k tr
      by (subst inclusion_path.simps) (auto simp: False Let_def)
  qed
qed

lemma inclusion_path_verifies:
  assumes "index < length leaves" and "length leaves < 2 ^ 64"
  shows "verify_inclusion sha index (length leaves) (leaves ! index)
    (map (\<lambda>(s, e). subtree_root sha leaves s e) (inclusion_ranges index (length leaves))) (tree_root sha leaves) = Inr ()"
proof -
  have b: "length leaves \<le> 2 ^ 64" using assms(2) by simp
  have path: "map (\<lambda>(s, e). subtree_root sha leaves s e) (inclusion_ranges index (length leaves)) = level_path sha index leaves"
    using inclusion_path_level [OF _ assms(1) order_refl b, of 0 sha] by (simp add: inclusion_ranges_def)
  obtain J' where w: "walk (left_hash sha) (right_hash sha) index (length leaves - 1) (leaves ! index, {}) (level_path sha index leaves)
    = Some (tree_root sha leaves, J')"
    using walk_level_path [OF assms(1) b, of sha "{}"] by (auto simp: tree_root_mth)
  then have "J' = inclusion_inputs sha index (length leaves - 1) (leaves ! index) (level_path sha index leaves)"
    using assms(1) by (auto simp: walk_loop inclusion_loop_walk split: sum.splits if_splits)
  then show ?thesis using w assms(1) path by (simp add: verify_inclusion_walk)
qed

section \<open>The properties\<close>

text \<open>every inclusion proof the tree gives verifies: for each leaf of a log that fits 64-bit sizes the prover
  answers with a proof, and the verifier accepts it for that leaf, position and size against the root.\<close>

theorem inclusion_proofs_verify:
  assumes "index < length leaves" and "length leaves < 2 ^ 64"
  shows "\<exists>prf. inclusion_proof sha leaves index = Inr prf
    \<and> verify_inclusion sha index (length leaves) (leaves ! index) prf (tree_root sha leaves) = Inr ()"
  using inclusion_path_verifies [OF assms, of sha] assms(1) by (simp add: inclusion_proof_def)

definition demo_sha :: sha256 where
  "demo_sha bs = word_rcat (drop 1 bs)"

theorem inclusion_proofs_verify_witness:
  "\<exists>prf. inclusion_proof demo_sha [1, 2, 3] 2 = Inr prf
     \<and> verify_inclusion demo_sha 2 3 3 prf (tree_root demo_sha [1, 2, 3]) = Inr ()"
  using inclusion_proofs_verify [of 2 "[1, 2, 3]" demo_sha] by (simp add: numeral_3_eq_3)

text \<open>C31: an inclusion proof that verifies against a tree's root is for the leaf the tree has at that position:
  no other leaf, and no position outside the tree, can be passed off, unless SHA-256 collides on inputs that
  computing the root and checking the proof hash.\<close>

theorem inclusion_sound:
  assumes "verify_inclusion sha index (length leaves) leaf prf (tree_root sha leaves) = Inr ()"
    and "inj_on sha (tree_inputs sha leaves \<union> inclusion_inputs sha index (length leaves - 1) leaf prf)"
    and "length leaves < 2 ^ 64"
  shows "index < length leaves \<and> leaf = leaves ! index"
proof -
  let ?J = "inclusion_inputs sha index (length leaves - 1) leaf prf"
  have i: "index < length leaves"
    and w: "walk (left_hash sha) (right_hash sha) index (length leaves - 1) (leaf, {}) prf = Some (mth sha leaves, ?J)"
    using assms(1) by (auto simp: verify_inclusion_walk tree_root_mth)
  have "index \<le> length leaves - 1" "length leaves = Suc (length leaves - 1)" "length leaves \<le> 2 ^ 64" using i assms(3) by auto
  then show ?thesis using walk_sound [OF assms(2) Un_upper2 w _ Un_upper1] i by simp
qed

theorem inclusion_sound_witness:
  "verify_inclusion demo_sha 1 2 (2 :: audit_hash) [1] (tree_root demo_sha [1, 2]) = Inr () \<and> (2 :: audit_hash) = [1, 2] ! 1"
proof -
  have v: "verify_inclusion demo_sha 1 2 2 [1] (tree_root demo_sha [1, 2]) = Inr ()"
    by (simp add: verify_inclusion_def tree_root_mth)
  moreover have "inj_on demo_sha (tree_inputs demo_sha [1, 2] \<union> inclusion_inputs demo_sha 1 1 2 [1])"
    by (simp add: tree_inputs_split)
  ultimately show ?thesis using inclusion_sound [of demo_sha 1 "[1, 2]" 2 "[1]"] by simp
qed

end
