(* ===== verification/Signed_Note_Props.thy ===== *)
theory Signed_Note_Props
  imports Signed_Note Merkle_Inclusion
begin

text \<open>
  Round trips of the texts a log writes: hashes, checkpoint bodies and signed notes read back as what was
  written, and what a signer signed is found signed, given what \<open>note_lib_ok\<close> states of base64 and what
  \<open>signer_ok\<close> states of a signer.
\<close>

unbundle bit_operations_syntax

section \<open>Lines\<close>

lemma text_lines_line: "newline \<notin> set l \<Longrightarrow> text_lines acc (l @ newline # cs) = chomp (rev acc @ l) # text_lines [] cs"
  by (induction l arbitrary: acc) auto

lemma chomp_plain: "CHR 0x0D \<notin> set l \<Longrightarrow> chomp l = l"
  by (cases l rule: rev_cases) (auto simp: chomp_def)

lemma text_lines_concat:
  "(\<forall>l \<in> set ls. newline \<notin> set l \<and> CHR 0x0D \<notin> set l) \<Longrightarrow> text_lines [] (concat (map (\<lambda>l. l @ [newline]) ls)) = ls"
  by (induction ls) (simp_all add: text_lines_line chomp_plain)

lemma lines_end: "ls \<noteq> [] \<Longrightarrow> concat (map (\<lambda>l. l @ [newline]) ls) \<noteq> [] \<and> last (concat (map (\<lambda>l. l @ [newline]) ls)) = newline"
  by (cases ls rule: rev_cases) auto

lemma split_once_first: "sep \<notin> set a \<Longrightarrow> split_once sep (a @ sep # b) = Some (a, b)"
  by (simp add: split_once_def dropWhile_append takeWhile_append split: list.split)

text \<open>No blank line: two newlines never meet.\<close>

abbreviation unbroken :: "string \<Rightarrow> bool" where
  "unbroken \<equiv> successively (\<lambda>a b. a \<noteq> newline \<or> b \<noteq> newline)"

lemma split_blank_None: "split_blank_line s = None \<longleftrightarrow> unbroken s"
  by (induction s) (auto simp: successively_Cons split: option.split)

lemma unbroken_line: "newline \<notin> set l \<Longrightarrow> unbroken l"
  by (induction l) (auto simp: successively_Cons)

lemma unbroken_lines:
  "\<forall>l \<in> set ls. l \<noteq> [] \<and> newline \<notin> set l \<Longrightarrow> unbroken (newline # concat (map (\<lambda>l. l @ [newline]) ls))"
proof (induction ls)
  case (Cons l ls)
  have l: "l \<noteq> []" "last l \<noteq> newline" "hd l \<noteq> newline" "unbroken l"
    using Cons.prems unbroken_line [of l] hd_in_set [of l] last_in_set [of l] by fastforce+
  have "unbroken (l @ newline # concat (map (\<lambda>l. l @ [newline]) ls))"
    using Cons.IH Cons.prems l by (simp add: successively_append_iff)
  then show ?case using l by (simp add: successively_Cons)
qed simp

lemma split_blank_last:
  "split_blank_line (newline # b) = None \<Longrightarrow> split_blank_line (a @ newline # newline # b) = Some (a, b)"
proof (induction a)
  case Nil
  then show ?case by (auto split: option.splits)
qed simp

section \<open>Numbers\<close>

lemma read_digits_append: "read_digits acc (s @ t) = Option.bind (read_digits acc s) (\<lambda>n. read_digits n t)"
  by (induction s arbitrary: acc) (auto simp: Let_def)

lemma digit_char: "d < 10 \<Longrightarrow> (of_char (char_of (48 + d)) :: nat) = 48 + d"
  by simp

lemma read_digits_show_nat: "read_digits 0 (show_nat n) = Some n"
proof (induction n rule: show_nat.induct)
  case (1 n)
  show ?case
  proof (cases "n < 10")
    case True
    then show ?thesis by (subst show_nat.simps) (simp add: digit_char Let_def)
  next
    case False
    then have "read_digits 0 (show_nat (n div 10)) = Some (n div 10)" using 1 by simp
    then show ?thesis using False digit_char [of "n mod 10"]
      by (subst show_nat.simps) (simp add: read_digits_append Let_def)
  qed
qed

lemma show_nat_not_Nil [simp]: "show_nat n \<noteq> []"
  by (subst show_nat.simps) simp

lemma show_nat_hd: "0 < n \<Longrightarrow> hd (show_nat n) \<noteq> CHR ''0''"
proof (induction n rule: show_nat.induct)
  case (1 n)
  show ?case
  proof (cases "n < 10")
    case True
    then have "(of_char (char_of (48 + n)) :: nat) \<noteq> of_char CHR ''0''" using 1(2) by (subst digit_char) auto
    then have "char_of (48 + n) \<noteq> CHR ''0''" by metis
    then show ?thesis using True by (subst show_nat.simps) simp
  next
    case False
    then have "hd (show_nat (n div 10)) \<noteq> CHR ''0''" using 1 by simp
    then show ?thesis using False by (subst show_nat.simps) simp
  qed
qed

lemma show_nat_digit: "c \<in> set (show_nat n) \<Longrightarrow> 48 \<le> (of_char c :: nat) \<and> (of_char c :: nat) \<le> 57"
proof (induction n rule: show_nat.induct)
  case (1 n)
  then show ?case using digit_char [of "n mod 10"] digit_char [of n]
    by (subst (asm) (2) show_nat.simps) (auto split: if_splits)
qed

lemma body_size_show_nat:
  assumes "n < 2 ^ 64"
  shows "body_size (show_nat n) = Some n"
proof -
  have zero: "show_nat n = ''0'' \<or> take 1 (show_nat n) \<noteq> ''0''"
  proof (cases "n = 0")
    case True
    then show ?thesis by (simp add: show_nat.simps [of 0])
  next
    case False
    then show ?thesis using show_nat_hd [of n] by (cases "show_nat n") auto
  qed
  then show ?thesis using show_nat_digit [of _ n] read_digits_show_nat [of n] assms
    by (simp add: body_size_def parse_u64_def list_all_iff)
qed

section \<open>Bytes\<close>

lemma word_rcat_snoc: "(word_rcat (bs @ [b :: byte]) :: 'a :: len word) = ucast b + push_bit 8 (word_rcat bs)"
proof -
  let ?h = "horner_sum uint (2 ^ LENGTH(8)) (rev bs)"
  have "(word_rcat (bs @ [b]) :: 'a word) = word_of_int (uint b) + word_of_int (2 ^ 8 * ?h)"
    by (simp add: word_rcat_def)
  also have "word_of_int (2 ^ 8 * ?h) = push_bit 8 (word_of_int ?h :: 'a word)"
    by (simp only: push_bit_eq_mult of_int_mult of_int_power of_int_numeral mult.commute)
  finally show ?thesis by (simp add: word_rcat_def)
qed

lemma word_rcat_bytes: "word_rcat (map (\<lambda>i. ucast (drop_bit (8 * (n - 1 - i)) w) :: byte) [0..<n]) = (take_bit (8 * n) w :: 'a :: len word)"
proof (induction n arbitrary: w)
  case (Suc n)
  let ?f = "\<lambda>i. ucast (drop_bit (8 * (Suc n - 1 - i)) w) :: byte" and ?g = "\<lambda>i. ucast (drop_bit (8 * (n - 1 - i)) (drop_bit 8 w)) :: byte"
  have "?f i = ?g i" if "i < n" for i
  proof -
    have "8 * (n - 1 - i) + 8 = 8 * (Suc n - 1 - i)" using that by auto
    then show ?thesis by (simp only: drop_bit_drop_bit)
  qed
  then have "map ?f [0..<n] = map ?g [0..<n]" by simp
  then have eq: "map ?f [0..<Suc n] = map ?g [0..<n] @ [ucast w]" by simp
  have "word_rcat (map ?f [0..<Suc n]) = ucast (ucast w :: byte) + push_bit 8 (take_bit (8 * n) (drop_bit 8 w))"
    by (simp only: eq word_rcat_snoc Suc.IH)
  also have "ucast (ucast w :: byte) = take_bit 8 w"
    by (rule bit_word_eqI) (auto simp: bit_ucast_iff bit_take_bit_iff)
  also have "take_bit 8 w + push_bit 8 (take_bit (8 * n) (drop_bit 8 w)) = take_bit (8 * Suc n) w"
    using bits_ident [of 8 "take_bit (8 * Suc n) w"] by (simp add: drop_bit_take_bit add.commute)
  finally show ?case .
qed (simp add: word_rcat_def)

lemma be_u32_bytes [simp]: "be_u32 (u32_bytes w @ bs) = w"
  using word_rcat_bytes [of 4 w] by (simp add: be_u32_def u32_bytes_def take_bit_word_eq_self)

lemma length_u32_bytes [simp]: "length (u32_bytes w) = 4"
  by (simp add: u32_bytes_def)

lemma hash_of_hash_bytes [simp]: "hash_of_bytes (hash_bytes h) = h"
  using word_rcat_bytes [of 32 h] by (simp add: hash_of_bytes_def hash_bytes_def take_bit_word_eq_self)

section \<open>Hashes\<close>

lemma hex_value_digit: "d < 16 \<Longrightarrow> hex_value (Merkle.hex_digit d) = Some d"
  by (auto simp: Merkle.hex_digit_def hex_value_def Let_def word_less_nat_alt)

lemma nibbles:
  fixes b :: byte
  shows "drop_bit 4 b < 16" and "b AND 15 < 16" and "push_bit 4 (drop_bit 4 b) OR (b AND 15) = b"
proof -
  have low: "b AND 15 = take_bit 4 b" by (simp add: take_bit_eq_mask mask_eq_exp_minus_1)
  show "drop_bit 4 b < 16" using unsigned_less [of b, where ?'a = nat] by (simp add: word_less_nat_alt unat_drop_bit_eq drop_bit_nat_def less_mult_imp_div_less)
  show "b AND 15 < 16" by (simp add: low word_less_nat_alt unsigned_take_bit_eq take_bit_nat_def)
  show "push_bit 4 (drop_bit 4 b) OR (b AND 15) = b" unfolding low by (rule bit_word_eqI) (auto simp: bit_simps)
qed

lemma hex_pairs_digits: "hex_pairs (concat (map (\<lambda>b. [Merkle.hex_digit (drop_bit 4 b), Merkle.hex_digit (b AND 15)]) bs)) = Some bs"
  by (induction bs) (simp_all add: hex_value_digit nibbles)

text \<open>a hash survives its text: the 64 hex characters a hash is written as read back as that hash.\<close>

theorem hash_text_roundtrip: "hash_from_str (hash_text h) = Inr h"
proof -
  have "length (hash_text h) = 64" by (simp add: hash_text_def hash_bytes_def length_concat o_def sum_list_triv)
  then show ?thesis by (simp add: hash_from_str_def hash_text_def hex_pairs_digits)
qed

section \<open>What the code relies on of base64 and the signature scheme\<close>

definition b64_char :: "char \<Rightarrow> bool" where
  "b64_char c \<longleftrightarrow> c \<noteq> newline \<and> c \<noteq> CHR 0x0D \<and> c \<noteq> CHR '' ''"

definition note_lib_ok :: "note_lib \<Rightarrow> bool" where
  "note_lib_ok nl \<longleftrightarrow> (\<forall>bs. b64_decode nl (b64_encode nl bs) = Inr bs \<and> list_all b64_char (b64_encode nl bs))"

text \<open>A signer as its constructors make it: a valid name, well-formed UTF-8 text without white space, a
  32-byte key, and signatures that its public key verifies.\<close>

definition signer_ok :: "note_lib \<Rightarrow> signer \<Rightarrow> bool" where
  "signer_ok nl sg \<longleftrightarrow> valid_name (sg_name sg) \<and> list_all b64_char (sg_name sg) \<and> length (sg_public_key sg) = 32
     \<and> (\<forall>msg sig. sg_sign sg msg = Inr sig \<longrightarrow> sig \<noteq> [] \<and> ed25519_verify nl (sg_public_key sg) msg sig)"

definition signer_verifier :: "sha256 \<Rightarrow> signer \<Rightarrow> note_verifier" where
  "signer_verifier sha sg =
     \<lparr>nv_name = sg_name sg, nv_key_hash = key_hash sha (sg_name sg) (alg_ed25519 # sg_public_key sg), nv_public_key = sg_public_key sg\<rparr>"

lemma signer_verifier_key_hash: "signer_ok nl sg \<Longrightarrow> verifier_from_public_key sha (sg_name sg) (sg_public_key sg) = Inr (signer_verifier sha sg)"
  by (simp add: signer_ok_def verifier_from_public_key_def signer_verifier_def)

section \<open>Checkpoint bodies\<close>

lemma body_text_parses:
  assumes "note_lib_ok nl" and "cb_size b < 2 ^ 64" and "cb_origin b \<noteq> []" and "newline \<notin> set (cb_origin b)" and "CHR 0x0D \<notin> set (cb_origin b)"
  shows "body_parse nl (body_text nl b) = Inr b"
proof -
  let ?root = "b64_encode nl (hash_bytes (cb_root_hash b))"
  have nat: "newline \<notin> set (show_nat n) \<and> CHR 0x0D \<notin> set (show_nat n)" for n
    using show_nat_digit [of newline n] show_nat_digit [of "CHR 0x0D" n] by (auto simp: newline_def)
  have root: "newline \<notin> set ?root" "CHR 0x0D \<notin> set ?root" "b64_decode nl ?root = Inr (hash_bytes (cb_root_hash b))"
    using assms(1) by (auto simp: note_lib_ok_def b64_char_def list_all_iff)
  have "text_lines [] (body_text nl b) = [cb_origin b, show_nat (cb_size b), ?root]"
    using text_lines_concat [of "[cb_origin b, show_nat (cb_size b), ?root]"] nat root assms(4,5) by (simp add: body_text_def)
  then show ?thesis using assms(3) root body_size_show_nat [OF assms(2)]
    by (simp add: body_parse_def nth_line_def opt_filter_def)
qed

text \<open>a checkpoint body survives its text: reading what was formatted gives the origin, size and root back.\<close>

theorem body_roundtrip:
  assumes "note_lib_ok nl" and "cb_size b < 2 ^ 64" and "cb_origin b \<noteq> []" and "newline \<notin> set (cb_origin b)" and "CHR 0x0D \<notin> set (cb_origin b)"
  shows "body_parse nl (body_text nl b) = Inr b"
  by (rule body_text_parses [OF assms])

text \<open>A library that writes bytes in hex, and a signer whose signatures are one byte.\<close>

definition demo_note_lib :: note_lib where
  "demo_note_lib =
     \<lparr>b64_encode = (\<lambda>bs. concat (map (\<lambda>b. [Merkle.hex_digit (drop_bit 4 b), Merkle.hex_digit (b AND 15)]) bs)),
      b64_decode = (\<lambda>s. case hex_pairs s of Some bs \<Rightarrow> Inr bs | None \<Rightarrow> Inl ''invalid''),
      ed25519_verify = (\<lambda>key msg sig. sig = [1])\<rparr>"

definition demo_signer :: signer where
  "demo_signer = \<lparr>sg_name = ''k'', sg_public_key = replicate 32 7, sg_sign = (\<lambda>_. Inr [1])\<rparr>"

lemma hex_digit_char: "d < 16 \<Longrightarrow> b64_char (Merkle.hex_digit d)"
proof -
  assume "d < 16"
  then have "hex_value (Merkle.hex_digit d) = Some d" by (rule hex_value_digit)
  then show ?thesis by (auto simp: b64_char_def newline_def hex_value_def)
qed

lemma demo_note_lib_ok: "note_lib_ok demo_note_lib"
  by (auto simp: note_lib_ok_def demo_note_lib_def hex_pairs_digits list_all_iff hex_digit_char nibbles)

lemma demo_signer_ok: "signer_ok demo_note_lib demo_signer"
  by (simp add: signer_ok_def demo_signer_def demo_note_lib_def valid_name_def is_whitespace_def b64_char_def newline_def)

theorem body_roundtrip_witness:
  "body_parse demo_note_lib (body_text demo_note_lib \<lparr>cb_origin = ''adk-audit/l'', cb_size = 3, cb_root_hash = 5\<rparr>)
     = Inr \<lparr>cb_origin = ''adk-audit/l'', cb_size = 3, cb_root_hash = 5\<rparr>"
  by (rule body_roundtrip) (simp_all add: demo_note_lib_ok newline_def)

section \<open>Signed notes\<close>

definition signature_of :: "sha256 \<Rightarrow> string \<Rightarrow> signer \<Rightarrow> byte list \<Rightarrow> note_signature" where
  "signature_of sha t sg sig = \<lparr>ns_name = sg_name sg, ns_key_hash = nv_key_hash (signer_verifier sha sg), ns_signature = sig\<rparr>"

definition signature_line :: "sha256 \<Rightarrow> note_lib \<Rightarrow> signer \<Rightarrow> byte list \<Rightarrow> string" where
  "signature_line sha nl sg sig = signature_prefix @ sg_name sg @ CHR '' '' # b64_encode nl (u32_bytes (nv_key_hash (signer_verifier sha sg)) @ sig)"

lemma signature_lines_ok:
  "\<lbrakk>signature_lines sha nl t sgs = Inr ls; \<forall>sg \<in> set sgs. signer_ok nl sg\<rbrakk> \<Longrightarrow>
    \<exists>sigs. length sigs = length sgs \<and> (\<forall>j < length sgs. sg_sign (sgs ! j) (text_bytes t) = Inr (sigs ! j))
      \<and> ls = concat (map (\<lambda>l. l @ [newline]) (map2 (signature_line sha nl) sgs sigs))"
proof (induction sgs arbitrary: ls)
  case (Cons sg sgs)
  then obtain sig rest where sig: "sg_sign sg (text_bytes t) = Inr sig" and rest: "signature_lines sha nl t sgs = Inr rest"
    and ls: "ls = signature_line sha nl sg sig @ newline # rest"
    by (auto simp: signer_verifier_key_hash signature_line_def split: sum.splits)
  from Cons.IH [OF rest] Cons.prems(2) obtain sigs where "length sigs = length sgs"
    "\<forall>j < length sgs. sg_sign (sgs ! j) (text_bytes t) = Inr (sigs ! j)"
    "rest = concat (map (\<lambda>l. l @ [newline]) (map2 (signature_line sha nl) sgs sigs))" by auto
  then show ?case using sig ls by (intro exI [of _ "sig # sigs"]) (auto simp: less_Suc_eq_0_disj)
qed simp

lemma parse_signature_line:
  assumes "note_lib_ok nl" and "signer_ok nl sg" and "sig \<noteq> []"
  shows "parse_signature nl (signature_line sha nl sg sig) = Inr (signature_of sha t sg sig)"
proof -
  let ?b = "b64_encode nl (u32_bytes (nv_key_hash (signer_verifier sha sg)) @ sig)"
  have "CHR '' '' \<notin> set (sg_name sg)" using assms(2) by (auto simp: signer_ok_def b64_char_def list_all_iff)
  then have "split_once CHR '' '' (sg_name sg @ CHR '' '' # ?b) = Some (sg_name sg, ?b)" by (rule split_once_first)
  moreover have "5 \<le> length (u32_bytes (nv_key_hash (signer_verifier sha sg)) @ sig)" using assms(3) by (cases sig) simp_all
  ultimately show ?thesis using assms
    by (simp add: parse_signature_def signature_line_def signature_prefix_def signature_of_def note_lib_ok_def signer_ok_def)
qed

lemma parse_signature_lines:
  "\<lbrakk>note_lib_ok nl; length sigs = length sgs; \<forall>sg \<in> set sgs. signer_ok nl sg; \<forall>sig \<in> set sigs. sig \<noteq> []\<rbrakk> \<Longrightarrow>
    parse_signatures nl (map2 (signature_line sha nl) sgs sigs) = Inr (map2 (signature_of sha t) sgs sigs)"
proof (induction sgs arbitrary: sigs)
  case (Cons sg sgs)
  then obtain sig sigs' where "sigs = sig # sigs'" by (cases sigs) auto
  then show ?case using Cons parse_signature_line [of nl sg sig sha t] by auto
qed simp

lemma signature_line_plain:
  assumes "note_lib_ok nl" and "signer_ok nl sg"
  shows "signature_line sha nl sg sig \<noteq> [] \<and> newline \<notin> set (signature_line sha nl sg sig) \<and> CHR 0x0D \<notin> set (signature_line sha nl sg sig)"
proof -
  have plain: "newline \<notin> set s \<and> CHR 0x0D \<notin> set s" if "list_all b64_char s" for s
    using that by (auto simp: list_all_iff b64_char_def)
  have "list_all b64_char (sg_name sg)" "\<And>bs. list_all b64_char (b64_encode nl bs)"
    using assms by (simp_all add: note_lib_ok_def signer_ok_def)
  then show ?thesis using plain by (simp add: signature_line_def signature_prefix_def newline_def)
qed

lemma signers_verified:
  assumes "length sigs = length sgs" and "\<forall>j < length sgs. sg_sign (sgs ! j) (text_bytes t) = Inr (sigs ! j)"
    and "\<forall>sg \<in> set sgs. signer_ok nl sg"
  shows "verified_by nl \<lparr>nt_text = t, nt_signatures = map2 (signature_of sha t) sgs sigs\<rparr> (map (signer_verifier sha) sgs)
    = map (signer_verifier sha) sgs"
  unfolding verified_by_def filter_id_conv
proof
  fix v assume "v \<in> set (map (signer_verifier sha) sgs)"
  then obtain j where j: "j < length sgs" "v = signer_verifier sha (sgs ! j)" by (auto simp: in_set_conv_nth)
  have "signer_ok nl (sgs ! j)" using j(1) assms(3) by simp
  then have ok: "ed25519_verify nl (sg_public_key (sgs ! j)) (text_bytes t) (sigs ! j)"
    using j(1) assms(2) by (auto simp: signer_ok_def)
  have "(sgs ! j, sigs ! j) \<in> set (zip sgs sigs)" using j(1) assms(1) by (auto simp: in_set_zip)
  then have "signature_of sha t (sgs ! j) (sigs ! j) \<in> set (map2 (signature_of sha t) sgs sigs)" by (auto intro: rev_image_eqI)
  moreover have "ns_name (signature_of sha t (sgs ! j) (sigs ! j)) = nv_name v
      \<and> ns_key_hash (signature_of sha t (sgs ! j) (sigs ! j)) = nv_key_hash v
      \<and> verifier_verify nl v (text_bytes t) (ns_signature (signature_of sha t (sgs ! j) (sigs ! j)))"
    using ok j(2) by (simp add: signature_of_def verifier_verify_def signer_verifier_def)
  ultimately show "list_ex (\<lambda>s. ns_name s = nv_name v \<and> ns_key_hash s = nv_key_hash v \<and> verifier_verify nl v (text_bytes
      (nt_text \<lparr>nt_text = t, nt_signatures = map2 (signature_of sha t) sgs sigs\<rparr>)) (ns_signature s))
      (nt_signatures \<lparr>nt_text = t, nt_signatures = map2 (signature_of sha t) sgs sigs\<rparr>)"
    unfolding list_ex_iff signed_note.select_convs by blast
qed

lemma sign_note_parses:
  assumes "sign_note sha nl t sgs = Inr nt" and "sgs \<noteq> []" and "note_lib_ok nl" and "\<forall>sg \<in> set sgs. signer_ok nl sg"
  shows "\<exists>sigs. note_parse nl nt = Inr \<lparr>nt_text = t, nt_signatures = map2 (signature_of sha t) sgs sigs\<rparr> \<and> length sigs = length sgs
    \<and> verified_by nl \<lparr>nt_text = t, nt_signatures = map2 (signature_of sha t) sgs sigs\<rparr> (map (signer_verifier sha) sgs)
      = map (signer_verifier sha) sgs"
proof -
  obtain ls where ls: "signature_lines sha nl t sgs = Inr ls" and nt: "nt = t @ newline # ls"
    and t: "t \<noteq> []" "last t = newline"
    using assms(1) by (auto simp: sign_note_def split: if_splits sum.splits)
  obtain sigs where sigs: "length sigs = length sgs" "\<forall>j < length sgs. sg_sign (sgs ! j) (text_bytes t) = Inr (sigs ! j)"
    and lines: "ls = concat (map (\<lambda>l. l @ [newline]) (map2 (signature_line sha nl) sgs sigs))"
    using signature_lines_ok [OF ls assms(4)] by blast
  have plain: "\<forall>l \<in> set (map2 (signature_line sha nl) sgs sigs). l \<noteq> [] \<and> newline \<notin> set l \<and> CHR 0x0D \<notin> set l"
    using signature_line_plain [OF assms(3)] assms(4) by (auto dest: set_zip_leftD)
  have ne: "\<forall>sig \<in> set sigs. sig \<noteq> []" using sigs assms(4) by (metis in_set_conv_nth nth_mem signer_ok_def)
  obtain t0 where t0: "t = t0 @ [newline]" using t by (metis append_butlast_last_id)
  have "split_blank_line (newline # ls) = None" using unbroken_lines plain unfolding lines split_blank_None by blast
  then have split: "split_blank_line nt = Some (t0, ls)" using split_blank_last [of ls t0] by (simp add: nt t0)
  have "map2 (signature_line sha nl) sgs sigs \<noteq> []" using assms(2) sigs(1) by (cases sgs; cases sigs) auto
  then have last: "ls \<noteq> []" "last ls = newline" using lines_end unfolding lines by blast+
  have "text_lines [] ls = map2 (signature_line sha nl) sgs sigs" using text_lines_concat plain unfolding lines by blast
  then have "note_parse nl nt = Inr \<lparr>nt_text = t, nt_signatures = map2 (signature_of sha t) sgs sigs\<rparr>"
    using parse_signature_lines [OF assms(3) sigs(1) assms(4) ne, of sha t] split last t0 assms(2) sigs(1)
    by (cases sgs; cases sigs) (auto simp: note_parse_def)
  then show ?thesis using signers_verified [OF sigs(1) sigs(2) assms(4)] sigs(1) by blast
qed
text \<open>a signed note survives its text and verifies: what a set of signers signed parses back to the text with one
  signature per signer, in order, and every signer's key is found to have signed it.\<close>

theorem note_roundtrip:
  assumes "sign_note sha nl t sgs = Inr nt" and "sgs \<noteq> []" and "note_lib_ok nl" and "\<forall>sg \<in> set sgs. signer_ok nl sg"
  shows "\<exists>sigs. note_parse nl nt = Inr \<lparr>nt_text = t, nt_signatures = map2 (signature_of sha t) sgs sigs\<rparr> \<and> length sigs = length sgs
    \<and> verified_by nl \<lparr>nt_text = t, nt_signatures = map2 (signature_of sha t) sgs sigs\<rparr> (map (signer_verifier sha) sgs)
      = map (signer_verifier sha) sgs"
  by (rule sign_note_parses [OF assms])

theorem note_roundtrip_witness:
  "\<exists>nt sigs. sign_note demo_sha demo_note_lib (''a'' @ [newline]) [demo_signer] = Inr nt
     \<and> note_parse demo_note_lib nt
       = Inr \<lparr>nt_text = ''a'' @ [newline], nt_signatures = map2 (signature_of demo_sha (''a'' @ [newline])) [demo_signer] sigs\<rparr>
     \<and> length sigs = 1"
proof -
  obtain nt where nt: "sign_note demo_sha demo_note_lib (''a'' @ [newline]) [demo_signer] = Inr nt"
    using signer_verifier_key_hash [OF demo_signer_ok, of demo_sha]
    by (simp add: sign_note_def has_blank_line_def newline_def) (simp add: demo_signer_def)
  then show ?thesis using note_roundtrip [OF nt _ demo_note_lib_ok] demo_signer_ok by auto
qed

end
