(* ===== verification/Merkle_Consistency.thy ===== *)
theory Merkle_Consistency
  imports Merkle_Inclusion
begin

unbundle bit_operations_syntax

text \<open>
  Consistency proofs: the ones a grown tree gives verify, and when a proof verifies between two roots the
  newer tree extends the older one, unless two of the inputs hashed on the way collide under SHA-256.
\<close>

section \<open>The verifier's inputs\<close>

fun consistency_loop_inputs :: "sha256 \<Rightarrow> nat \<Rightarrow> nat \<Rightarrow> audit_hash \<Rightarrow> audit_hash \<Rightarrow> audit_hash list \<Rightarrow> byte list set" where
  "consistency_loop_inputs sha f s fr sr [] = {}"
| "consistency_loop_inputs sha f s fr sr (c # cs) =
     (if s = 0 then {}
      else if odd f \<or> f = s then
        (let (f', s') = strip_zeros f s in
         {node_input c fr, node_input c sr}
           \<union> consistency_loop_inputs sha (f' div 2) (s' div 2) (node_hash sha c fr) (node_hash sha c sr) cs)
      else insert (node_input sr c) (consistency_loop_inputs sha (f div 2) (s div 2) fr (node_hash sha sr c) cs))"

definition consistency_inputs :: "sha256 \<Rightarrow> nat \<Rightarrow> nat \<Rightarrow> audit_hash \<Rightarrow> audit_hash list \<Rightarrow> byte list set" where
  "consistency_inputs sha old new old_root prf =
     (let path = (if is_power_of_two old then old_root # prf else prf);
          (f, s) = strip_ones (old - 1) (new - 1)
      in consistency_loop_inputs sha f s (hd path) (hd path) (tl path))"

text \<open>The walk of the verifier: the two hashes on the way to the two roots, with the inputs it hashes.\<close>

fun left_hash2 :: "sha256 \<Rightarrow> audit_hash \<Rightarrow> audit_hash \<times> audit_hash \<times> byte list set \<Rightarrow> audit_hash \<times> audit_hash \<times> byte list set" where
  "left_hash2 sha c (fr, sr, J) = (node_hash sha c fr, node_hash sha c sr, {node_input c fr, node_input c sr} \<union> J)"

fun right_hash2 :: "sha256 \<Rightarrow> audit_hash \<times> audit_hash \<times> byte list set \<Rightarrow> audit_hash \<Rightarrow> audit_hash \<times> audit_hash \<times> byte list set" where
  "right_hash2 sha (fr, sr, J) c = (fr, node_hash sha sr c, insert (node_input sr c) J)"

abbreviation walk2 where "walk2 sha \<equiv> walk (left_hash2 sha) (right_hash2 sha)"

lemma consistency_loop_walk:
  "proof_loop (left_hash2 sha) (right_hash2 sha) f s (fr, sr, J) cs =
     (case verify_consistency_loop sha f s fr sr cs of
        Inl e \<Rightarrow> None
      | Inr (s', fr', sr') \<Rightarrow> Some (s', fr', sr', consistency_loop_inputs sha f s fr sr cs \<union> J))"
proof (induction sha f s fr sr cs arbitrary: J rule: verify_consistency_loop.induct)
  case (2 sha f s fr sr c cs)
  then show ?case by (auto simp: Let_def split: sum.splits prod.splits)
qed simp

lemma strip_ones_le: "f \<le> s \<Longrightarrow> strip_ones f s = (f', s') \<Longrightarrow> f' \<le> s'"
proof (induction f s rule: strip_ones.induct)
  case (1 f s)
  then show ?case by (cases "odd f") (auto simp: strip_ones.simps [of f s] div_le_mono)
qed

lemma verify_consistency_walk:
  assumes "0 < old" and "old < new" and "strip_ones (old - 1) (new - 1) = (f, s)"
    and "path = (if is_power_of_two old then old_root # prf else prf)"
  shows "verify_consistency sha old new old_root new_root prf = Inr () \<longleftrightarrow>
    prf \<noteq> [] \<and> walk2 sha f s (hd path, hd path, {}) (tl path) = Some (old_root, new_root, consistency_inputs sha old new old_root prf)"
proof -
  have "f \<le> s" using strip_ones_le [OF _ assms(3)] assms(1,2) by simp
  then show ?thesis using assms
    by (auto simp: verify_consistency_def consistency_inputs_def walk_loop consistency_loop_walk Let_def
        split: sum.splits prod.splits if_splits)
qed

section \<open>Trees with one root\<close>

lemma pairup_inject:
  assumes "inj_on sha I"
  shows "\<lbrakk>length xs = length ys; pair_inputs xs \<subseteq> I; pair_inputs ys \<subseteq> I; pairup sha xs = pairup sha ys\<rbrakk> \<Longrightarrow> xs = ys"
proof (induction xs arbitrary: ys rule: pair_inputs.induct)
  case (1 a b xs)
  then obtain c d zs where "ys = c # d # zs" by (cases ys; cases "tl ys") auto
  then show ?case using 1 node_hash_inject [OF assms, of a b c d] by auto
qed (auto simp: Suc_length_conv)

lemma pairs_agree:
  assumes "inj_on sha I" and "pair_inputs xs \<subseteq> I" and "pair_inputs ys \<subseteq> I" and "2 * k \<le> length xs" and "2 * k \<le> length ys"
    and "take k (pairup sha xs) = take k (pairup sha ys)"
  shows "take (2 * k) xs = take (2 * k) ys"
proof (rule pairup_inject [OF assms(1)])
  show "pair_inputs (take (2 * k) xs) \<subseteq> I" "pair_inputs (take (2 * k) ys) \<subseteq> I"
    using assms(2,3) pair_inputs_cut [of xs k] pair_inputs_cut [of ys k] by auto
qed (use assms in \<open>simp_all add: pairup_take\<close>)

lemma mth_inject:
  assumes "inj_on sha I"
  shows "\<lbrakk>length xs = length ys; length xs \<le> 2 ^ 64; tree_inputs sha xs \<subseteq> I; tree_inputs sha ys \<subseteq> I; mth sha xs = mth sha ys\<rbrakk>
    \<Longrightarrow> xs = ys"
proof (induction "length xs" arbitrary: xs ys rule: less_induct)
  case less
  show ?case
  proof (cases "length xs \<le> 1")
    case True
    then show ?thesis using less.prems by (cases xs; cases ys) auto
  next
    case False
    then have len: "length xs = Suc (length xs - 1)" "0 < length xs - 1" by auto
    have len': "length ys = Suc (length xs - 1)" "length ys \<le> 2 ^ 64" using less.prems(1,2) len by auto
    note upx = level_up [OF less.prems(3) len less.prems(2)] and upy = level_up [OF less.prems(4) len'(1) len(2) len'(2)]
    have "pairup sha xs = pairup sha ys"
      using less.hyps [OF _ _ upx(4,1) upy(1)] upx(3,5) upy(3,5) less.prems(5) len by simp
    then show ?thesis using pairup_inject [OF assms less.prems(1) upx(2) upy(2)] by simp
  qed
qed

section \<open>Soundness\<close>

lemma last_step:
  "\<lbrakk>take g xs = take g ys; xs ! g = ys ! g; g < length xs; g < length ys\<rbrakk> \<Longrightarrow> take (Suc g) xs = take (Suc g) ys"
  by (simp add: take_Suc_conv_app_nth)

lemma walk2_sound:
  assumes "inj_on sha I" and "J' \<subseteq> I"
  shows "\<lbrakk>walk2 sha f s (fr, sr, J) ps = Some (mth sha xs, mth sha ys, J'); f \<le> s;
    tree_inputs sha xs \<subseteq> I; tree_inputs sha ys \<subseteq> I; length xs = Suc f; length ys = Suc s; length ys \<le> 2 ^ 64\<rbrakk>
    \<Longrightarrow> fr = xs ! f \<and> sr = ys ! f \<and> take f xs = take f ys \<and> J \<subseteq> I"
proof (induction s arbitrary: xs ys f fr sr J ps rule: less_induct)
  case (less s)
  note inject = node_hash_inject [OF assms(1)] and f = less.prems(2) and lenx = less.prems(5) and leny = less.prems(6)
  have bx: "length xs \<le> 2 ^ 64" using f lenx leny less.prems(7) by simp
  note upy = level_up [OF less.prems(4) leny _ less.prems(7)]
  have upx: "tree_inputs sha (pairup sha xs) \<subseteq> I" "pair_inputs xs \<subseteq> I" "length (pairup sha xs) = Suc (f div 2)"
    "mth sha xs = mth sha (pairup sha xs)"
    using less.prems(3) tree_inputs_pairup [OF bx, of sha] mth_pairup [OF bx, of sha] lenx by auto
  have IH: "fr' = pairup sha xs ! (f div 2) \<and> sr' = pairup sha ys ! (f div 2) \<and> J'' \<subseteq> I
      \<and> take (2 * (f div 2)) xs = take (2 * (f div 2)) ys"
    if "0 < s" and w: "walk2 sha (f div 2) (s div 2) (fr', sr', J'') qs = Some (mth sha xs, mth sha ys, J')" for fr' sr' J'' qs
  proof -
    have "fr' = pairup sha xs ! (f div 2) \<and> sr' = pairup sha ys ! (f div 2)
        \<and> take (f div 2) (pairup sha xs) = take (f div 2) (pairup sha ys) \<and> J'' \<subseteq> I"
      using less.IH [OF _ _ _ upx(1) upy(1) upx(3) upy(3,4)] w \<open>0 < s\<close> upx(4) upy(5) f by (simp add: div_le_mono)
    moreover have "2 * (f div 2) \<le> length xs" "2 * (f div 2) \<le> length ys" using f lenx leny by auto
    ultimately show ?thesis using pairs_agree [OF assms(1) upx(2) upy(2)] \<open>0 < s\<close> by blast
  qed
  from less.prems(1) f show ?case
  proof (cases rule: walk_cases)
    case root
    then obtain a b where "xs = [a]" "ys = [b]" using lenx leny by (auto simp: length_Suc_conv)
    then show ?thesis using root assms(2) by simp
  next
    case lone
    then show ?thesis using IH [of fr sr J ps] pairup_nth_last [of f xs sha] pairup_nth_last [of f ys sha] lenx leny by simp
  next
    case (right c qs)
    then have eq: "node_hash sha c fr = pairup sha xs ! (f div 2)" "node_hash sha c sr = pairup sha ys ! (f div 2)"
      "{node_input c fr, node_input c sr} \<union> J \<subseteq> I" "take (f - 1) xs = take (f - 1) ys"
      using IH [of _ _ _ qs] by auto
    have "node_input (xs ! (f - 1)) (xs ! f) \<in> I" "node_input (ys ! (f - 1)) (ys ! f) \<in> I"
      using upx(2) upy(2) [OF right(1)] pair_inputs_right [OF right(2)] f lenx leny by auto
    then have "c = xs ! (f - 1)" "fr = xs ! f" "c = ys ! (f - 1)" "sr = ys ! f"
      using eq inject pairup_nth_right [OF right(2), of xs sha] pairup_nth_right [OF right(2), of ys sha] f lenx leny by auto
    moreover have "0 < f" using right(2) by (auto elim: oddE)
    ultimately show ?thesis using last_step [OF eq(4)] eq(3) f lenx leny by (simp del: take_Suc)
  next
    case (left c qs)
    then have eq: "fr = pairup sha xs ! (f div 2)" "node_hash sha sr c = pairup sha ys ! (f div 2)"
      "insert (node_input sr c) J \<subseteq> I" "take f xs = take f ys"
      using IH [of _ _ _ qs] by auto
    have "node_input (ys ! f) (ys ! Suc f) \<in> I" using upy(2) [OF left(1)] pair_inputs_even [OF left(2), of ys] left(3) leny by auto
    then show ?thesis
      using eq inject pairup_nth_even [OF left(2), of ys sha] pairup_nth_last [OF left(2), of xs sha] left(3) lenx leny by auto
  qed
qed

text \<open>The walk starts at the last node of the older tree that is complete in both trees.\<close>

lemma start_sound:
  assumes "inj_on sha I" and "J' \<subseteq> I"
  shows "\<lbrakk>strip_ones f s = (f', s'); walk2 sha f' s' (seed, seed, {}) ps = Some (mth sha xs, mth sha ys, J'); f \<le> s;
    tree_inputs sha xs \<subseteq> I; tree_inputs sha ys \<subseteq> I; length xs = Suc f; length ys = Suc s; length ys \<le> 2 ^ 64\<rbrakk>
    \<Longrightarrow> take (Suc f) ys = xs"
proof (induction f arbitrary: s xs ys rule: less_induct)
  case (less f)
  show ?case
  proof (cases "odd f")
    case False
    then have "strip_ones f s = (f, s)" by (subst strip_ones.simps) simp
    then have w: "walk2 sha f s (seed, seed, {}) ps = Some (mth sha xs, mth sha ys, J')" using less.prems(1,2) by simp
    have "take f xs = take f ys" "xs ! f = ys ! f" using walk2_sound [OF assms w less.prems(3-8)] by metis+
    then have "take (Suc f) xs = take (Suc f) ys"
      using less.prems(3,6,7) by (intro last_step) simp_all
    then show ?thesis using less.prems(6) by simp
  next
    case True
    have s: "0 < f" "0 < s" "f div 2 < f" "f div 2 \<le> s div 2" using True less.prems(3) by (auto elim: oddE simp: div_le_mono)
    have bx: "length xs \<le> 2 ^ 64" using less.prems(3,6-8) by simp
    note upx = level_up [OF less.prems(4,6) s(1) bx] and upy = level_up [OF less.prems(5,7) s(2) less.prems(8)]
    have "strip_ones (f div 2) (s div 2) = (f', s')" using less.prems(1) True by (subst (asm) strip_ones.simps) simp
    from less.IH [OF s(3) this _ s(4) upx(1) upy(1) upx(3) upy(3,4)]
    have "take (Suc (f div 2)) (pairup sha ys) = pairup sha xs" using less.prems(2) upx(5) upy(5) by simp
    then have "take (2 * Suc (f div 2)) xs = take (2 * Suc (f div 2)) ys"
      using pairs_agree [OF assms(1) upx(2) upy(2), of "Suc (f div 2)"] less.prems(3,6,7) upx(3) True by (auto elim!: oddE)
    moreover have "2 * Suc (f div 2) = Suc f" using True by (auto elim: oddE)
    ultimately show ?thesis using less.prems(6) by simp
  qed
qed

section \<open>Completeness\<close>

text \<open>The subproof over a list of leaves, by the splits of the source.\<close>

function list_subproof :: "sha256 \<Rightarrow> nat \<Rightarrow> audit_hash list \<Rightarrow> bool \<Rightarrow> audit_hash list" where
  "list_subproof sha m xs complete =
     (if m = length xs then (if complete then [] else [mth sha xs])
      else if length xs < 2 then []
      else let k = split_point (length xs) in
        if m \<le> k then list_subproof sha m (take k xs) complete @ [mth sha (drop k xs)]
        else list_subproof sha (m - k) (drop k xs) False @ [mth sha (take k xs)])"
  by pat_completeness auto
termination
proof (relation "measure (\<lambda>(sha, m, xs, c). length xs)", goal_cases)
  case (2 sha m xs c k)
  then show ?case using split_point_less [of "length xs"] by simp
qed (auto intro: diff_less)

declare list_subproof.simps [simp del]

lemma list_subproof_full [simp]: "m = length xs \<Longrightarrow> list_subproof sha m xs c = (if c then [] else [mth sha xs])"
  by (subst list_subproof.simps) simp

lemma list_subproof_split:
  "\<lbrakk>m < length xs; 2 \<le> length xs\<rbrakk> \<Longrightarrow> list_subproof sha m xs c =
     (let k = split_point (length xs) in
        if m \<le> k then list_subproof sha m (take k xs) c @ [mth sha (drop k xs)]
        else list_subproof sha (m - k) (drop k xs) False @ [mth sha (take k xs)])"
  by (subst list_subproof.simps) simp

lemma subproof_list:
  "\<lbrakk>s \<le> e; e \<le> length leaves; 0 < m; m \<le> e - s\<rbrakk> \<Longrightarrow>
    map (\<lambda>(s, e). subtree_root sha leaves s e) (subproof m s e c) = list_subproof sha m (slice s e leaves) c"
proof (induction m s e c rule: subproof.induct)
  case (1 m s e c)
  have len: "length (slice s e leaves) = e - s" using 1(3,4) by simp
  show ?case
  proof (cases "m = e - s")
    case True
    then show ?thesis using 1(3,4) len subtree_root_mth [of s e leaves sha] by (subst subproof.simps) (simp add: list_subproof_full)
  next
    case False
    then have n: "2 \<le> e - s" using 1(5,6) by simp
    let ?k = "split_point (e - s)"
    have k: "?k < e - s" "0 < ?k" using split_point_less [OF n] by simp_all
    have parts: "take ?k (slice s e leaves) = slice s (s + ?k) leaves" "drop ?k (slice s e leaves) = slice (s + ?k) e leaves"
      using slice_parts [of s "s + ?k" e leaves] k by simp_all
    have tr: "subtree_root sha leaves s (s + ?k) = mth sha (slice s (s + ?k) leaves)"
      "subtree_root sha leaves (s + ?k) e = mth sha (slice (s + ?k) e leaves)"
      using subtree_root_mth [of s "s + ?k" leaves sha] subtree_root_mth [of "s + ?k" e leaves sha] k 1(4) by simp_all
    have "list_subproof sha m (slice s e leaves) c =
      (if m \<le> ?k then list_subproof sha m (slice s (s + ?k) leaves) c @ [mth sha (slice (s + ?k) e leaves)]
       else list_subproof sha (m - ?k) (slice (s + ?k) e leaves) False @ [mth sha (slice s (s + ?k) leaves)])"
      using list_subproof_split [of m "slice s e leaves" sha c] False n 1(6) parts by (simp only: len Let_def)
    then show ?thesis
      using 1(1) [OF False _ refl refl] 1(2) [OF False _ refl refl] 1(3-6) k tr n
      by (subst subproof.simps) (auto simp: False Let_def)
  qed
qed

lemma list_subproof_even:
  "\<lbrakk>length xs \<le> 2 ^ 64; even m; 0 < m; m \<le> length xs\<rbrakk> \<Longrightarrow> list_subproof sha m xs c = list_subproof sha (m div 2) (pairup sha xs) c"
proof (induction xs arbitrary: m c rule: split_induct)
  case (pair a b)
  then have "m = 2" by (auto elim!: evenE)
  then show ?case by simp
next
  case (split xs k)
  let ?ys = "pairup sha xs"
  have len: "length (take (2 * k) xs) \<le> 2 ^ 64" "length (drop (2 * k) xs) \<le> 2 ^ 64" using split(2) by auto
  note parts = mth_pairup [OF len(1), of sha] mth_pairup [OF len(2), of sha]
  show ?case
  proof (cases "m = length xs")
    case True
    then have "m div 2 = length ?ys" using split(10) by simp
    then show ?thesis using True mth_pairup [OF split(2), of sha] by simp
  next
    case False
    then have less: "m < length xs" using split(12) by simp
    have up: "list_subproof sha (m div 2) ?ys c = (if m div 2 \<le> k
      then list_subproof sha (m div 2) (take k ?ys) c @ [mth sha (drop k ?ys)]
      else list_subproof sha (m div 2 - k) (drop k ?ys) False @ [mth sha (take k ?ys)])"
      using less split(1,4,10) by (subst list_subproof_split) (auto simp: Let_def elim!: evenE)
    have down: "list_subproof sha m xs c = (if m \<le> 2 * k
      then list_subproof sha m (take (2 * k) xs) c @ [mth sha (drop (2 * k) xs)]
      else list_subproof sha (m - 2 * k) (drop (2 * k) xs) False @ [mth sha (take (2 * k) xs)])"
      using less split(1,3) by (subst list_subproof_split) (auto simp: Let_def)
    show ?thesis
    proof (cases "m \<le> 2 * k")
      case True
      then have "m div 2 \<le> k" by simp
      then show ?thesis using True up down split(8) [of m c] split(6,10,11) parts by (simp add: pairup_take pairup_drop)
    next
      case False
      then have "\<not> m div 2 \<le> k" "(m - 2 * k) div 2 = m div 2 - k" "even (m - 2 * k)" "0 < m - 2 * k" "m - 2 * k \<le> length xs - 2 * k"
        using split(10) less by auto
      then show ?thesis using False up down split(9) [of "m - 2 * k" False] parts by (simp add: pairup_take pairup_drop)
    qed
  qed
qed auto

lemma split_point_even: "\<lbrakk>3 \<le> n; n \<le> 2 ^ 64\<rbrakk> \<Longrightarrow> even (split_point n)"
  by (simp add: split_point_double)

lemma list_subproof_odd:
  "\<lbrakk>length xs \<le> 2 ^ 64; odd m; m < length xs \<or> length xs = 1; m \<le> length xs\<rbrakk> \<Longrightarrow>
    list_subproof sha m xs c = (if c \<and> m = 1 then [] else [xs ! (m - 1)]) @ level_path sha (m - 1) xs"
proof (induction "length xs" arbitrary: xs m c rule: less_induct)
  case less
  have m: "0 < m" using less.prems(2) by (auto elim: oddE)
  show ?case
  proof (cases "length xs = 1")
    case True
    then obtain a where "xs = [a]" by (auto simp: length_Suc_conv)
    moreover have "m = 1" using True less.prems(4) m by simp
    ultimately show ?thesis by simp
  next
    case False
    then have lt: "m < length xs" and n: "2 \<le> length xs" using less.prems(3) m by auto
    let ?k = "split_point (length xs)"
    have k: "?k < length xs" "0 < ?k" using split_point_less [OF n] by simp_all
    have par: "even ?k \<or> ?k = 1 \<and> length xs = 2"
      using split_point_even [of "length xs"] n less.prems(1) by (cases "length xs = 2") auto
    have path: "level_path sha (m - 1) xs = (if m \<le> ?k then level_path sha (m - 1) (take ?k xs) @ [mth sha (drop ?k xs)]
      else level_path sha (m - 1 - ?k) (drop ?k xs) @ [mth sha (take ?k xs)])"
      using level_path_split [OF n less.prems(1), of "m - 1" sha] lt m k by (auto simp: Let_def)
    show ?thesis
    proof (cases "m \<le> ?k")
      case True
      have "m < ?k \<or> ?k = 1" using True par less.prems(2) by (cases "m = ?k") auto
      then have "list_subproof sha m (take ?k xs) c = (if c \<and> m = 1 then [] else [take ?k xs ! (m - 1)]) @ level_path sha (m - 1) (take ?k xs)"
        using less.hyps [of "take ?k xs" m c] k True less.prems(1,2) by auto
      moreover have "take ?k xs ! (m - 1) = xs ! (m - 1)" using True m by simp
      ultimately show ?thesis using list_subproof_split [OF lt n, of sha c] path True by (simp add: Let_def)
    next
      case False
      then have "even ?k" using par lt by auto
      then have "odd (m - ?k)" using less.prems(2) False by simp
      then have "list_subproof sha (m - ?k) (drop ?k xs) False = [drop ?k xs ! (m - ?k - 1)] @ level_path sha (m - ?k - 1) (drop ?k xs)"
      proof (subst less.hyps)
        show "length (drop ?k xs) < length xs" "length (drop ?k xs) \<le> 2 ^ 64" "m - ?k \<le> length (drop ?k xs)"
          "m - ?k < length (drop ?k xs) \<or> length (drop ?k xs) = 1"
          unfolding length_drop using k lt less.prems(1) False by linarith+
      qed simp_all
      moreover have "drop ?k xs ! (m - ?k - 1) = xs ! (m - 1)" using False lt by simp
      moreover have "m - ?k - 1 = m - 1 - ?k" "m \<noteq> 1" using False k by linarith+
      ultimately show ?thesis using list_subproof_split [OF lt n, of sha c] path False by (simp add: Let_def)
    qed
  qed
qed

text \<open>An inclusion path climbs two trees that agree below their common node.\<close>

lemma walk2_level_path:
  "\<lbrakk>f < length ys; length ys \<le> 2 ^ 64; length xs = Suc f; take f xs = take f ys\<rbrakk> \<Longrightarrow>
    \<exists>J'. walk2 sha f (length ys - 1) (xs ! f, ys ! f, J) (level_path sha f ys) = Some (mth sha xs, mth sha ys, J')"
proof (induction "length ys" arbitrary: xs ys f J rule: less_induct)
  case less
  show ?case
  proof (cases "length ys \<le> 1")
    case True
    then obtain a b where "ys = [a]" "xs = [b]" using less.prems by (cases ys; cases xs) auto
    then show ?thesis using less.prems by (simp add: walk_step)
  next
    case False
    let ?xs = "pairup sha xs" and ?ys = "pairup sha ys"
    have s: "0 < length ys - 1" "length ?ys < length ys" "(length ys - 1) div 2 = length ?ys - 1" "f div 2 < length ?ys"
      "length ?ys \<le> 2 ^ 64" "length ?xs = Suc (f div 2)"
      using False less.prems by auto
    have bx: "length xs \<le> 2 ^ 64" using less.prems by simp
    have "take (2 * (f div 2)) xs = take (2 * (f div 2)) ys"
      using arg_cong [OF less.prems(4), of "take (2 * (f div 2))"] by simp
    then have agree: "take (f div 2) ?xs = take (f div 2) ?ys" by (simp flip: pairup_take)
    have up: "\<exists>J'. walk2 sha (f div 2) ((length ys - 1) div 2) (?xs ! (f div 2), ?ys ! (f div 2), J) (level_path sha (f div 2) ?ys)
        = Some (mth sha xs, mth sha ys, J')" for J
      using less.hyps [OF s(2,4,5,6) agree] mth_pairup [OF less.prems(2), of sha] mth_pairup [OF bx, of sha] s(3) by simp
    consider "odd f" | "even f" "Suc f = length ys" | "even f" "Suc f < length ys" using less.prems by linarith
    then show ?thesis
    proof cases
      case 1
      then have "xs ! (f - 1) = ys ! (f - 1)"
        using arg_cong [OF less.prems(4), of "\<lambda>zs. zs ! (f - 1)"] by (auto elim!: oddE)
      then show ?thesis using 1 up s(1) less.prems(1,3)
        by (simp add: level_path_step [of f ys] sibling_def walk_step pairup_nth_right)
    next
      case 2
      then have "level_path sha f ys = level_path sha (f div 2) ?ys"
        using less.prems(1) by (simp add: level_path_step [of f ys] sibling_def)
      moreover have "?ys ! (f div 2) = ys ! f" "?xs ! (f div 2) = xs ! f"
        using pairup_nth_last [OF 2] pairup_nth_last [OF 2(1), of xs] less.prems(3) by simp_all
      moreover have "walk2 sha f (length ys - 1) a ps = walk2 sha (f div 2) ((length ys - 1) div 2) a ps" for a ps
        by (rule walk_step(2) [OF s(1) 2(1)]) (use 2(2) in simp)
      ultimately show ?thesis using up [of J] by simp
    next
      case 3
      then show ?thesis using up s(1) less.prems(3)
        by (simp add: level_path_step [of f ys] sibling_def walk_step pairup_nth_even pairup_nth_last)
    qed
  qed
qed

lemma is_power_of_two_even: "even m \<Longrightarrow> 0 < m \<Longrightarrow> is_power_of_two m \<longleftrightarrow> is_power_of_two (m div 2)"
proof -
  assume m: "even m" "0 < m"
  then have h: "0 < m div 2" by (auto elim: evenE)
  have "bit_length m = Suc (bit_length (m div 2))" using m(2) by (subst bit_length.simps) simp
  moreover obtain j where "bit_length (m div 2) = Suc j" using bit_length_le [OF h] by (cases "bit_length (m div 2)") auto
  ultimately show ?thesis using m h by (auto simp: is_power_of_two_def elim!: evenE)
qed

lemma is_power_of_two_odd: "odd m \<Longrightarrow> is_power_of_two m \<longleftrightarrow> m = 1"
proof
  assume odd: "odd m" and pow: "is_power_of_two m"
  show "m = 1" using odd pow by (cases "bit_length m - 1") (auto simp: is_power_of_two_def)
qed (simp add: is_power_of_two_def bit_length.simps)

lemma start_complete:
  "\<lbrakk>0 < m; m < length xs; length xs \<le> 2 ^ 64; strip_ones (m - 1) (length xs - 1) = (f, s);
    path = (if is_power_of_two m then mth sha (take m xs) # list_subproof sha m xs True else list_subproof sha m xs True)\<rbrakk> \<Longrightarrow>
    \<exists>J'. walk2 sha f s (hd path, hd path, {}) (tl path) = Some (mth sha (take m xs), mth sha xs, J')"
proof (induction m arbitrary: xs rule: less_induct)
  case (less m)
  show ?case
  proof (cases "even m")
    case True
    let ?ys = "pairup sha xs"
    have m: "m div 2 < m" "0 < m div 2" "m div 2 < length ?ys" "odd (m - 1)" using True less.prems(1,2) by (auto elim!: evenE)
    have half: "(m - 1) div 2 = m div 2 - 1" "(length xs - 1) div 2 = length ?ys - 1" using True less.prems(1) by (auto elim!: evenE)
    have "strip_ones (m div 2 - 1) (length ?ys - 1) = (f, s)"
      using less.prems(4) m(4) half by (subst (asm) strip_ones.simps) simp
    moreover have tk: "mth sha (take (m div 2) ?ys) = mth sha (take m xs)"
      using mth_pairup [of "take m xs" sha] pairup_take [of sha "m div 2" xs] less.prems(2,3) True by simp
    moreover have "path = (if is_power_of_two (m div 2) then mth sha (take (m div 2) ?ys) # list_subproof sha (m div 2) ?ys True
        else list_subproof sha (m div 2) ?ys True)"
      using less.prems tk list_subproof_even [of xs m sha True] True is_power_of_two_even [OF True less.prems(1)] by simp
    ultimately show ?thesis using less.IH [OF m(1-3)] less.prems(3) mth_pairup [OF less.prems(3), of sha] by simp
  next
    case False
    have fs: "f = m - 1" "s = length xs - 1" using less.prems(4) False by (simp_all add: strip_ones.simps [of "m - Suc 0"])
    have "list_subproof sha m xs True = (if m = 1 then [] else [xs ! (m - 1)]) @ level_path sha (m - 1) xs"
      using list_subproof_odd [of xs m sha True] less.prems False by simp
    moreover have "mth sha (take 1 xs) = xs ! 0" using less.prems(2) by (cases xs) auto
    ultimately have "path = xs ! (m - 1) # level_path sha (m - 1) xs"
      using less.prems(5) is_power_of_two_odd [OF False] by auto
    moreover have "take m xs ! (m - 1) = xs ! (m - 1)" "take (m - 1) (take m xs) = take (m - 1) xs" "length (take m xs) = Suc (m - 1)"
      using less.prems(1,2) by (simp_all add: min_def)
    ultimately show ?thesis
      using walk2_level_path [of "m - 1" xs "take m xs" sha "{}"] less.prems(2,3) fs by simp
  qed
qed

lemma consistency_path_verifies:
  assumes "old \<le> length leaves" and "length leaves < 2 ^ 64"
  shows "verify_consistency sha old (length leaves) (tree_root sha (take old leaves)) (tree_root sha leaves)
    (map (\<lambda>(s, e). subtree_root sha leaves s e) (consistency_ranges old (length leaves))) = Inr ()"
proof -
  consider "old = 0" | "old = length leaves" | "0 < old" "old < length leaves" using assms(1) by linarith
  then show ?thesis
  proof cases
    case 3
    have b: "length leaves \<le> 2 ^ 64" using assms(2) by simp
    let ?proof = "list_subproof sha old leaves True"
    let ?path = "if is_power_of_two old then mth sha (take old leaves) # ?proof else ?proof"
    have ranges: "map (\<lambda>(s, e). subtree_root sha leaves s e) (consistency_ranges old (length leaves)) = ?proof"
      using subproof_list [of 0 "length leaves" leaves old sha True] 3 by (simp add: consistency_ranges_def)
    obtain f s where fs: "strip_ones (old - 1) (length leaves - 1) = (f, s)" by fastforce
    obtain J' where w: "walk2 sha f s (hd ?path, hd ?path, {}) (tl ?path) = Some (mth sha (take old leaves), mth sha leaves, J')"
      using start_complete [OF 3 b fs refl] by blast
    have "f \<le> s" using strip_ones_le [OF _ fs] 3 by simp
    then have "J' = consistency_inputs sha old (length leaves) (mth sha (take old leaves)) ?proof"
      using w by (auto simp: consistency_inputs_def fs [simplified] Let_def walk_loop consistency_loop_walk split: sum.splits if_splits)
    moreover have "?proof \<noteq> []" using list_subproof_split [OF 3(2), of sha True] 3 by (simp add: Let_def)
    ultimately have "verify_consistency sha old (length leaves) (mth sha (take old leaves)) (mth sha leaves) ?proof = Inr ()"
      using w verify_consistency_walk [OF 3 fs refl] by simp
    then show ?thesis using ranges by (simp add: tree_root_mth)
  qed (simp_all add: verify_consistency_def consistency_ranges_def)
qed

section \<open>The properties\<close>

text \<open>every consistency proof a grown tree gives verifies: for each earlier size of a log that fits 64-bit sizes
  the prover answers with a proof, and the verifier accepts it between the root over the first leaves and
  the root over all of them.\<close>

theorem consistency_proofs_verify:
  assumes "old \<le> length leaves" and "length leaves < 2 ^ 64"
  shows "\<exists>prf. consistency_proof sha leaves old = Inr prf
    \<and> verify_consistency sha old (length leaves) (tree_root sha (take old leaves)) (tree_root sha leaves) prf = Inr ()"
  using consistency_path_verifies [OF assms, of sha] assms(1) by (simp add: consistency_proof_def)

theorem consistency_proofs_verify_witness:
  "\<exists>prf. consistency_proof demo_sha [1, 2, 3] 2 = Inr prf
     \<and> verify_consistency demo_sha 2 3 (tree_root demo_sha [1, 2]) (tree_root demo_sha [1, 2, 3]) prf = Inr ()"
  using consistency_proofs_verify [of 2 "[1, 2, 3]" demo_sha] by (simp add: numeral_3_eq_3)

text \<open>C32: a log cannot be rewritten under a consistency proof: when one verifies between the root of an older
  tree and the root of a newer one, the newer tree's first leaves are the older tree's, unless SHA-256
  collides on inputs that computing the two roots and checking the proof hash.\<close>

theorem consistency_sound:
  assumes "verify_consistency sha (length old) (length new) (tree_root sha old) (tree_root sha new) prf = Inr ()"
    and "inj_on sha (tree_inputs sha old \<union> tree_inputs sha new
      \<union> consistency_inputs sha (length old) (length new) (tree_root sha old) prf)"
    and "length new < 2 ^ 64"
  shows "take (length old) new = old"
proof -
  have le: "length old \<le> length new" using assms(1) by (auto simp: verify_consistency_def split: if_splits)
  have b: "length new \<le> 2 ^ 64" using assms(3) by simp
  let ?J = "consistency_inputs sha (length old) (length new) (tree_root sha old) prf"
  consider "old = []" | "length old = length new" | "old \<noteq> []" "length old < length new" using le by linarith
  then show ?thesis
  proof cases
    case 2
    then have "mth sha old = mth sha new" using assms(1) by (simp add: verify_consistency_def tree_root_mth split: if_splits)
    then have "old = new" using mth_inject [OF assms(2) 2] b 2 by auto
    then show ?thesis by simp
  next
    case 3
    obtain f s where fs: "strip_ones (length old - 1) (length new - 1) = (f, s)" by fastforce
    define path where "path = (if is_power_of_two (length old) then tree_root sha old # prf else prf)"
    have pos: "0 < length old" using 3 by simp
    have w: "walk2 sha f s (hd path, hd path, {}) (tl path) = Some (mth sha old, mth sha new, ?J)"
      using verify_consistency_walk [OF pos 3(2) fs path_def] assms(1) by (simp add: tree_root_mth)
    have len: "length old - 1 \<le> length new - 1" "length old = Suc (length old - 1)" "length new = Suc (length new - 1)"
      using pos 3(2) by auto
    have "take (Suc (length old - 1)) new = old"
      by (rule start_sound [OF assms(2) _ fs w len(1) _ _ len(2,3) b]) auto
    then show ?thesis using len(2) by simp
  qed simp
qed

theorem consistency_sound_witness:
  "verify_consistency demo_sha 1 2 (tree_root demo_sha [1]) (tree_root demo_sha [1, 2]) [2] = Inr () \<and> take 1 [1, 2 :: audit_hash] = [1]"
proof -
  have so: "strip_ones 0 (Suc 0) = (0, Suc 0)" by (simp add: strip_ones.simps)
  have p: "is_power_of_two (Suc 0)" by (simp add: is_power_of_two_odd)
  have v: "verify_consistency demo_sha 1 2 (tree_root demo_sha [1]) (tree_root demo_sha [1, 2]) [2] = Inr ()"
    by (simp add: verify_consistency_def tree_root_mth so p)
  moreover have "inj_on demo_sha (tree_inputs demo_sha [1] \<union> tree_inputs demo_sha [1, 2]
      \<union> consistency_inputs demo_sha 1 2 (tree_root demo_sha [1]) [2])"
    by (simp add: tree_inputs_split consistency_inputs_def so p tree_root_mth)
  ultimately show ?thesis using consistency_sound [of demo_sha "[1]" "[1, 2]" "[2]"] by simp
qed

end
