(* ===== verification/Merkle_Frontier.thy ===== *)
theory Merkle_Frontier
  imports Merkle_Level
begin

text \<open>
  The writer's side of the tree: a range's hash is the fold of the hashes of its complete subtrees, and the
  frontier holds those of the whole log, with every subtree's hash handed out when it is completed.
\<close>

section \<open>Ranges as complete subtrees\<close>

definition node_root :: "sha256 \<Rightarrow> audit_hash list \<Rightarrow> nat \<times> nat \<Rightarrow> audit_hash" where
  "node_root sha leaves = (\<lambda>(l, i). subtree_root sha leaves (i * 2 ^ l) ((i + 1) * 2 ^ l))"

text \<open>What the source asks of a range: its start is a multiple of every power of two up to its length.\<close>

definition aligned :: "nat \<Rightarrow> nat \<Rightarrow> bool" where
  "aligned s e \<longleftrightarrow> (\<forall>j. 2 ^ j \<le> e - s \<longrightarrow> 2 ^ j dvd s)"

lemma aligned_0 [simp]: "aligned 0 e"
  by (simp add: aligned_def)

lemma aligned_left: "\<lbrakk>aligned s e; 2 ^ j \<le> e - s\<rbrakk> \<Longrightarrow> aligned s (s + 2 ^ j)"
  unfolding aligned_def by (metis add_diff_cancel_left' order_trans)

lemma aligned_right:
  assumes "aligned s e" and "2 ^ j \<le> e - s" and "e - s \<le> 2 ^ Suc j"
  shows "aligned (s + 2 ^ j) e"
  unfolding aligned_def
proof (intro allI impI)
  fix i assume i: "2 ^ i \<le> e - (s + 2 ^ j)"
  then have "2 ^ i \<le> (2 :: nat) ^ j" using assms(3) unfolding power_Suc by linarith
  then have "(2 :: nat) ^ i dvd 2 ^ j" by (simp add: le_imp_power_dvd)
  moreover have "2 ^ i dvd s" using assms(1) i by (simp add: aligned_def)
  ultimately show "2 ^ i dvd s + 2 ^ j" by simp
qed

lemma trailing_zeros_dvd: "\<lbrakk>0 < s; 2 ^ j dvd s\<rbrakk> \<Longrightarrow> j \<le> trailing_zeros s"
proof (induction j arbitrary: s)
  case (Suc j)
  then have s: "even s" "0 < s div 2" "2 ^ j dvd s div 2" by (auto elim!: dvdE)
  have "j \<le> trailing_zeros (s div 2)" using Suc.IH s(2,3) by blast
  then show ?case using s Suc.prems(1) by (subst trailing_zeros.simps) simp
qed simp

lemma fold_range_simps [simp]:
  "fold_range sha [] = empty_root sha" "fold_range sha [h] = h"
  "hs \<noteq> [] \<Longrightarrow> fold_range sha (h # hs) = node_hash sha h (fold_range sha hs)"
  by (auto simp: fold_range_def split: list.splits)

lemma range_nodes_step:
  assumes "aligned s e" and "2 ^ j \<le> e - s" and "e - s < 2 ^ Suc j" and "e < 2 ^ 64"
  shows "range_nodes s e = (j, s div 2 ^ j) # range_nodes (s + 2 ^ j) e"
proof -
  have "s < e" using assms(2) by (cases "e - s") auto
  moreover have "63 - leading_zeros (e - s) = j" using top_bit [OF assms(2,3)] assms(4) by simp
  moreover have "s \<noteq> 0 \<Longrightarrow> j \<le> trailing_zeros s" using assms(1,2) trailing_zeros_dvd by (simp add: aligned_def)
  ultimately show ?thesis by (subst range_nodes.simps) (simp add: Let_def min_def)
qed

lemma range_nodes_empty [simp]: "range_nodes s s = []"
  by (subst range_nodes.simps) simp

lemma range_nodes_Nil_iff: "range_nodes s e = [] \<longleftrightarrow> e \<le> s"
  by (subst range_nodes.simps) (simp add: Let_def not_less)

lemma fold_range_nodes:
  "\<lbrakk>s \<le> e; aligned s e; e \<le> length leaves; length leaves < 2 ^ 64\<rbrakk> \<Longrightarrow>
    fold_range sha (map (node_root sha leaves) (range_nodes s e)) = subtree_root sha leaves s e"
proof (induction "e - s" arbitrary: s rule: less_induct)
  case less
  show ?case
  proof (cases "e = s")
    case False
    then have pos: "0 < e - s" using less.prems(1) by simp
    obtain j where j: "2 ^ j \<le> e - s" "e - s < 2 ^ Suc j" by (rule power_below [OF pos])
    have e64: "e < 2 ^ 64" using less.prems(3,4) by simp
    have "2 ^ j dvd s" using less.prems(2) j(1) by (simp add: aligned_def)
    then have at: "s div 2 ^ j * 2 ^ j = s" by simp
    have h: "node_root sha leaves (j, s div 2 ^ j) = subtree_root sha leaves s (s + 2 ^ j)"
      by (simp add: node_root_def at add.commute)
    note step = range_nodes_step [OF less.prems(2) j e64]
    show ?thesis
    proof (cases "e - s = 2 ^ j")
      case True
      then have "e = s + 2 ^ j" using less.prems(1) by simp
      then show ?thesis using step h by simp
    next
      case False
      then have lt: "2 ^ j < e - s" using j(1) by simp
      have "1 \<le> (2 :: nat) ^ j" by simp
      then have n: "2 \<le> e - s" using lt by linarith
      have k: "split_point (e - s) = 2 ^ j" using split_point_eq [OF lt] j(2) e64 by simp
      have "e - (s + 2 ^ j) < e - s" "s + 2 ^ j \<le> e" using lt \<open>1 \<le> 2 ^ j\<close> by linarith+
      moreover have "aligned (s + 2 ^ j) e" using aligned_right [OF less.prems(2) j(1)] j(2) by simp
      ultimately have IH: "fold_range sha (map (node_root sha leaves) (range_nodes (s + 2 ^ j) e)) = subtree_root sha leaves (s + 2 ^ j) e"
        using less.hyps less.prems(3,4) by blast
      have "range_nodes (s + 2 ^ j) e \<noteq> []" using lt by (simp add: range_nodes_Nil_iff)
      then show ?thesis using step h IH k n by (subst subtree_root.simps) (auto simp: Let_def)
    qed
  qed (simp add: subtree_root.simps)
qed

text \<open>The ranges of the two kinds of proof are such ranges.\<close>

lemma inclusion_path_aligned:
  "\<lbrakk>s \<le> i; i < e; aligned s e; e < 2 ^ 64; (a, b) \<in> set (inclusion_path i s e)\<rbrakk> \<Longrightarrow> a \<le> b \<and> b \<le> e \<and> aligned a b"
proof (induction i s e rule: inclusion_path.induct)
  case (1 i s e)
  show ?case
  proof (cases "e - s \<le> 1")
    case True
    then show ?thesis using 1(7) by (subst (asm) inclusion_path.simps) simp
  next
    case False
    then have n: "2 \<le> e - s" "e - s \<le> 2 ^ 64" using 1(6) by simp_all
    obtain j where j: "split_point (e - s) = 2 ^ j" "2 ^ j < e - s" "e - s \<le> 2 ^ Suc j" by (rule split_point_power [OF n])
    have al: "aligned s (s + 2 ^ j)" "aligned (s + 2 ^ j) e"
      using aligned_left [OF 1(5)] aligned_right [OF 1(5)] j(2,3) by simp_all
    have bounds: "s + 2 ^ j < e" using j(2) by simp
    show ?thesis
    proof (cases "i < s + 2 ^ j")
      case True
      then have "(a, b) = (s + 2 ^ j, e) \<or> (a, b) \<in> set (inclusion_path i s (s + 2 ^ j))"
        using 1(7) False by (subst (asm) inclusion_path.simps) (auto simp: Let_def j(1))
      then show ?thesis using 1(1) [OF False refl] True 1(3,6) al bounds by (auto simp: j(1))
    next
      case right: False
      then have "(a, b) = (s, s + 2 ^ j) \<or> (a, b) \<in> set (inclusion_path i (s + 2 ^ j) e)"
        using 1(7) False by (subst (asm) inclusion_path.simps) (auto simp: Let_def j(1))
      then show ?thesis using 1(2) [OF False refl] right 1(4,6) al bounds by (auto simp: j(1))
    qed
  qed
qed

lemma subproof_aligned:
  "\<lbrakk>s \<le> e; 0 < m; m \<le> e - s; aligned s e; e < 2 ^ 64; (a, b) \<in> set (subproof m s e c)\<rbrakk> \<Longrightarrow> a \<le> b \<and> b \<le> e \<and> aligned a b"
proof (induction m s e c rule: subproof.induct)
  case (1 m s e c)
  show ?case
  proof (cases "m = e - s")
    case True
    then show ?thesis using 1(3,6,8) by (subst (asm) subproof.simps) (simp split: if_splits)
  next
    case False
    then have n: "2 \<le> e - s" using 1(4,5) by simp
    have n64: "e - s \<le> 2 ^ 64" using 1(7) by simp
    obtain j where j: "split_point (e - s) = 2 ^ j" "2 ^ j < e - s" "e - s \<le> 2 ^ Suc j" by (rule split_point_power [OF n n64])
    have al: "aligned s (s + 2 ^ j)" "aligned (s + 2 ^ j) e"
      using aligned_left [OF 1(6)] aligned_right [OF 1(6)] j(2,3) by simp_all
    have bounds: "s + 2 ^ j < e" using j(2) by simp
    show ?thesis
    proof (cases "m \<le> 2 ^ j")
      case True
      then have "(a, b) = (s + 2 ^ j, e) \<or> (a, b) \<in> set (subproof m s (s + 2 ^ j) c)"
        using 1(8) False n by (subst (asm) subproof.simps) (auto simp: Let_def j(1))
      then show ?thesis using 1(1) [OF False _ refl refl] n True 1(4,7) al bounds by (auto simp: j(1))
    next
      case right: False
      then have "(a, b) = (s, s + 2 ^ j) \<or> (a, b) \<in> set (subproof (m - 2 ^ j) (s + 2 ^ j) e False)"
        using 1(8) False n by (subst (asm) subproof.simps) (auto simp: Let_def j(1))
      then show ?thesis using 1(2) [OF False _ refl refl] n right 1(5,7) al bounds by (auto simp: j(1))
    qed
  qed
qed

section \<open>The frontier\<close>

text \<open>The complete subtrees on the right edge of a log of \<open>i\<close> subtrees of level \<open>l\<close>, from its binary digits.\<close>

function edge :: "nat \<Rightarrow> nat \<Rightarrow> (nat \<times> nat) list" where
  "edge l i = (if i = 0 then [] else edge (l + 1) (i div 2) @ (if odd i then [(l, i - 1)] else []))"
  by pat_completeness auto
termination
  by (relation "measure snd") auto

declare edge.simps [simp del]

lemma edge_0 [simp]: "edge l 0 = []"
  by (simp add: edge.simps)

lemma edge_even: "even i \<Longrightarrow> edge l i = edge (l + 1) (i div 2)"
  by (cases "i = 0") (simp_all add: edge.simps [of l i])

lemma edge_odd: "odd i \<Longrightarrow> edge l i = edge (l + 1) (i div 2) @ [(l, i - 1)]"
  by (subst edge.simps) (auto elim: oddE)

abbreviation raise :: "nat \<times> nat \<Rightarrow> nat \<times> nat" where
  "raise \<equiv> \<lambda>(l, i). (Suc l, i)"

lemma edge_raise: "edge (Suc l) i = map raise (edge l i)"
proof (induction l i rule: edge.induct)
  case (1 l i)
  show ?case
  proof (cases "i = 0")
    case False
    then show ?thesis using 1 by (subst (1 2) edge.simps) simp
  qed simp
qed

lemma top_bit_double:
  assumes "0 < r" and "r < 2 ^ 63"
  shows "63 - leading_zeros (2 * r) = Suc (63 - leading_zeros r)"
    and "63 - leading_zeros (Suc (2 * r)) = Suc (63 - leading_zeros r)"
proof -
  obtain j where j: "2 ^ j \<le> r" "r < 2 ^ Suc j" by (rule power_below [OF assms(1)])
  have "63 - leading_zeros r = j" using top_bit [OF j] assms(2) by simp
  moreover have "63 - leading_zeros (2 * r) = Suc j" "63 - leading_zeros (Suc (2 * r)) = Suc j"
    using j assms(2) by (intro top_bit; simp)+
  ultimately show "63 - leading_zeros (2 * r) = Suc (63 - leading_zeros r)"
    "63 - leading_zeros (Suc (2 * r)) = Suc (63 - leading_zeros r)" by simp_all
qed

lemma range_nodes_double:
  "\<lbrakk>s \<le> e; e < 2 ^ 63\<rbrakk> \<Longrightarrow> range_nodes (2 * s) (2 * e) = map raise (range_nodes s e)
     \<and> range_nodes (2 * s) (Suc (2 * e)) = map raise (range_nodes s e) @ [(0, 2 * e)]"
proof (induction s e rule: range_nodes.induct)
  case (1 s e)
  show ?case
  proof (cases "s = e")
    case True
    have "63 - leading_zeros (Suc 0) = 0" using top_bit [of 0 1] by simp
    then show ?thesis using True by (simp add: range_nodes.simps [of "2 * e" "Suc (2 * e)"] Let_def min_def)
  next
    case False
    define level where "level = (if s \<noteq> 0 then min (63 - leading_zeros (e - s)) (trailing_zeros s) else 63 - leading_zeros (e - s))"
    have lt: "s < e" and r: "0 < e - s" "e - s < 2 ^ 63" using False 1(2,3) by simp_all
    have fit: "2 ^ level \<le> e - s"
    proof -
      obtain j where j: "2 ^ j \<le> e - s" "e - s < 2 ^ Suc j" by (rule power_below [OF r(1)])
      have "63 - leading_zeros (e - s) = j" using top_bit [OF j] r(2) by simp
      then have "level \<le> j" by (auto simp: level_def)
      then have "2 ^ level \<le> (2 :: nat) ^ j" by (intro power_increasing) simp_all
      then show ?thesis using j(1) by linarith
    qed
    have tz: "s \<noteq> 0 \<Longrightarrow> trailing_zeros (2 * s) = Suc (trailing_zeros s)" by (subst trailing_zeros.simps) simp
    have down: "range_nodes s e = (level, s div 2 ^ level) # range_nodes (s + 2 ^ level) e"
      using lt by (subst range_nodes.simps) (simp add: Let_def level_def)
    have sub: "2 * e - 2 * s = 2 * (e - s)" "Suc (2 * e) - 2 * s = Suc (2 * (e - s))" using lt by simp_all
    have up: "range_nodes (2 * s) (2 * e) = (Suc level, s div 2 ^ level) # range_nodes (2 * (s + 2 ^ level)) (2 * e)"
      "range_nodes (2 * s) (Suc (2 * e)) = (Suc level, s div 2 ^ level) # range_nodes (2 * (s + 2 ^ level)) (Suc (2 * e))"
      using lt tz top_bit_double [OF r] by (subst range_nodes.simps, simp only: sub, auto simp: Let_def level_def)+
    have "s + 2 ^ level \<le> e" using fit lt by simp
    then show ?thesis using 1(1) [OF lt refl refl] 1(3) up down by (simp add: level_def)
  qed
qed

lemma range_nodes_edge: "n < 2 ^ 64 \<Longrightarrow> range_nodes 0 n = edge 0 n"
proof (induction n rule: less_induct)
  case (less n)
  show ?case
  proof (cases "n = 0")
    case False
    then have IH: "range_nodes 0 (n div 2) = edge 0 (n div 2)" using less by simp
    have n: "n div 2 < 2 ^ 63" using less.prems by simp
    show ?thesis
    proof (cases "even n")
      case True
      then have "range_nodes 0 n = map raise (edge 0 (n div 2))" using range_nodes_double [OF _ n, of 0] IH by simp
      then show ?thesis using True by (simp add: edge_even edge_raise)
    next
      case odd: False
      then have "Suc (2 * (n div 2)) = n" by simp
      then have "range_nodes 0 n = map raise (edge 0 (n div 2)) @ [(0, n - 1)]"
        using range_nodes_double [OF _ n, of 0] IH odd by auto
      then show ?thesis using odd by (simp add: edge_odd edge_raise)
    qed
  qed simp
qed

text \<open>The subtrees a leaf completes, from the lowest.\<close>

function completes :: "nat \<Rightarrow> nat \<Rightarrow> (nat \<times> nat) list" where
  "completes l index = (if odd index then (l + 1, index div 2) # completes (l + 1) (index div 2) else [])"
  by pat_completeness auto
termination
  by (relation "measure snd") (auto elim: oddE)

declare completes.simps [simp del]

definition tree_node_of :: "sha256 \<Rightarrow> audit_hash list \<Rightarrow> nat \<times> nat \<Rightarrow> tree_node" where
  "tree_node_of sha leaves = (\<lambda>(l, i). \<lparr>tn_level = l, tn_index = i, tn_hash = node_root sha leaves (l, i)\<rparr>)"

lemma node_root_pair:
  assumes "Suc l \<le> 64"
  shows "node_root sha leaves (Suc l, i) = node_hash sha (node_root sha leaves (l, 2 * i)) (node_root sha leaves (l, Suc (2 * i)))"
proof -
  have "(2 :: nat) ^ Suc l \<le> 2 ^ 64" using assms by (rule power_increasing) simp
  then have "split_point (2 ^ Suc l) = 2 ^ l" by (intro split_point_eq) simp_all
  moreover have "1 \<le> (2 :: nat) ^ l" by simp
  then have "(2 :: nat) ^ Suc l \<noteq> 0" "(2 :: nat) ^ Suc l \<noteq> 1" unfolding power_Suc by linarith+
  ultimately show ?thesis
    by (simp only: node_root_def prod.case, subst subtree_root.simps) (simp add: Let_def algebra_simps)
qed

lemma node_root_append:
  "(i + 1) * 2 ^ l \<le> length leaves \<Longrightarrow> node_root sha (leaves @ xs) (l, i) = node_root sha leaves (l, i)"
  by (simp add: node_root_def subtree_root_mth)

lemma push_loop_correct:
  assumes "n < 2 ^ 64 - 1"
  shows "\<lbrakk>Suc n = (index + 1) * 2 ^ l; hs = map (node_root sha leaves) (edge l index); node = node_root sha leaves (l, index)\<rbrakk> \<Longrightarrow>
    push_loop sha l index node hs acc = Some (map (node_root sha leaves) (edge l (index + 1)),
      acc @ map (tree_node_of sha leaves) (completes l index))"
proof (induction index arbitrary: l hs node acc rule: less_induct)
  case (less index)
  show ?case
  proof (cases "odd index")
    case True
    then have ix: "index div 2 < index" "Suc n = (index div 2 + 1) * 2 ^ Suc l" "2 * (index div 2) = index - 1" "Suc (index - 1) = index"
      "(index + 1) div 2 = index div 2 + 1"
      using less.prems(1) by (auto elim!: oddE simp: algebra_simps)
    have "2 ^ Suc l \<le> Suc n" using ix(2) by simp
    then have "(2 :: nat) ^ Suc l < 2 ^ 64" using assms by linarith
    then have l: "Suc l \<le> 64" by (simp only: power_strict_increasing_iff)
    have hs: "hs = map (node_root sha leaves) (edge (l + 1) (index div 2)) @ [node_root sha leaves (l, index - 1)]"
      using less.prems(2) True by (simp add: edge_odd)
    have node: "node_hash sha (last hs) node = node_root sha leaves (l + 1, index div 2)"
      using node_root_pair [OF l, of sha leaves "index div 2"] ix(3,4) less.prems(3) hs by simp
    have "push_loop sha l index node hs acc = push_loop sha (l + 1) (index div 2) (node_root sha leaves (l + 1, index div 2))
        (map (node_root sha leaves) (edge (l + 1) (index div 2))) (acc @ [tree_node_of sha leaves (l + 1, index div 2)])"
      using True node hs by (subst push_loop.simps) (simp add: Let_def tree_node_of_def)
    also have "\<dots> = Some (map (node_root sha leaves) (edge (l + 1) (index div 2 + 1)),
        acc @ map (tree_node_of sha leaves) (completes l index))"
      using less.IH [OF ix(1) _ refl refl, of "l + 1"] ix(2) True by (subst completes.simps) simp
    also have "edge (l + 1) (index div 2 + 1) = edge l (index + 1)" using True ix(5) edge_even [of "index + 1" l] by simp
    finally show ?thesis .
  next
    case False
    then have "edge l (index + 1) = edge l index @ [(l, index)]" by (simp add: edge_odd [of "Suc index"] edge_even [of index])
    then show ?thesis using False less.prems(2,3) by (simp add: push_loop.simps completes.simps)
  qed
qed

definition frontier_for :: "sha256 \<Rightarrow> audit_hash list \<Rightarrow> frontier" where
  "frontier_for sha leaves = \<lparr>fr_size = length leaves, fr_hashes = map (node_root sha leaves) (range_nodes 0 (length leaves))\<rparr>"

lemma edge_within: "(l', i') \<in> set (edge l i) \<Longrightarrow> l \<le> l' \<and> (i' + 1) * 2 ^ (l' - l) \<le> i"
proof (induction l i arbitrary: l' i' rule: edge.induct)
  case (1 l i)
  show ?case
  proof (cases "odd i \<and> (l', i') = (l, i - 1)")
    case True
    then show ?thesis by (auto elim: oddE)
  next
    case False
    then have i: "i \<noteq> 0" "(l', i') \<in> set (edge (l + 1) (i div 2))" using 1(2) by (auto simp: edge.simps [of l i] split: if_splits)
    then have "l + 1 \<le> l'" "(i' + 1) * 2 ^ (l' - (l + 1)) \<le> i div 2" using 1(1) by blast+
    moreover have "l' - l = Suc (l' - (l + 1))" using calculation(1) by simp
    ultimately show ?thesis by simp
  qed
qed

lemma completes_within: "(l', i') \<in> set (completes l i) \<Longrightarrow> l < l' \<and> (i' + 1) * 2 ^ (l' - l) = i + 1"
proof (induction l i arbitrary: l' i' rule: completes.induct)
  case (1 l i)
  have odd: "odd i" using 1(2) by (subst (asm) completes.simps) (simp split: if_splits)
  then consider "(l', i') = (l + 1, i div 2)" | "(l', i') \<in> set (completes (l + 1) (i div 2))"
    using 1(2) by (subst (asm) completes.simps) auto
  then show ?case
  proof cases
    case 1
    then show ?thesis using odd by (auto elim: oddE)
  next
    case 2
    then have "l + 1 < l'" "(i' + 1) * 2 ^ (l' - (l + 1)) = i div 2 + 1" using 1(1) [OF odd] by blast+
    moreover have "l' - l = Suc (l' - (l + 1))" using calculation(1) by simp
    ultimately show ?thesis using odd by (auto elim!: oddE)
  qed
qed

lemma completes_all: "\<lbrakk>l < l'; (i' + 1) * 2 ^ (l' - l) = i + 1\<rbrakk> \<Longrightarrow> (l', i') \<in> set (completes l i)"
proof (induction l i arbitrary: l' i' rule: completes.induct)
  case (1 l i)
  obtain d where d: "l' = l + 1 + d" using 1(2) less_iff_Suc_add by auto
  have eq: "i + 1 = 2 * ((i' + 1) * 2 ^ d)" using 1(3) by (simp add: d)
  then have odd: "odd i" by (metis dvd_triv_left even_Suc Suc_eq_plus1)
  have half: "(i' + 1) * 2 ^ d = i div 2 + 1" using eq odd by (auto elim!: oddE)
  show ?case
  proof (cases "d = 0")
    case True
    then show ?thesis using odd half by (subst completes.simps) (simp add: d)
  next
    case False
    then have "(l', i') \<in> set (completes (l + 1) (i div 2))" using 1(1) [OF odd] half by (simp add: d)
    then show ?thesis using odd by (subst completes.simps) simp
  qed
qed

lemma frontier_push_correct:
  assumes "length leaves < 2 ^ 64 - 1"
  shows "frontier_push sha (frontier_for sha leaves) leaf =
    Some (frontier_for sha (leaves @ [leaf]), map (tree_node_of sha (leaves @ [leaf])) (completes 0 (length leaves)))"
proof -
  let ?n = "length leaves" and ?xs = "leaves @ [leaf]"
  have "map (node_root sha leaves) (edge 0 ?n) = map (node_root sha ?xs) (edge 0 ?n)"
  proof (rule map_cong [OF refl])
    fix x assume "x \<in> set (edge 0 ?n)"
    then show "node_root sha leaves x = node_root sha ?xs x"
      using edge_within [of "fst x" "snd x" 0 ?n] node_root_append [of "snd x" "fst x" leaves sha "[leaf]"] by simp
  qed
  moreover have "node_root sha ?xs (0, ?n) = leaf" by (simp add: node_root_def subtree_root.simps)
  ultimately have "push_loop sha 0 ?n leaf (map (node_root sha leaves) (edge 0 ?n)) [] =
    Some (map (node_root sha ?xs) (edge 0 (?n + 1)), map (tree_node_of sha ?xs) (completes 0 ?n))"
    using push_loop_correct [OF assms, of ?n 0 "map (node_root sha leaves) (edge 0 ?n)" sha ?xs leaf "[]"] by simp
  then show ?thesis using assms by (simp add: frontier_push_def frontier_for_def range_nodes_edge)
qed

lemma frontier_root_correct: "length leaves < 2 ^ 64 \<Longrightarrow> frontier_root sha (frontier_for sha leaves) = tree_root sha leaves"
  using fold_range_nodes [of 0 "length leaves" leaves sha] by (simp add: frontier_root_def frontier_for_def tree_root_def)

lemma frontier_for_Nil [simp]: "frontier_for sha [] = frontier_default"
  by (simp add: frontier_for_def frontier_default_def)

end
