(* ===== verification/Audit_Log_Inv.thy ===== *)
theory Audit_Log_Inv
  imports Audit_Log Merkle_Consistency Merkle_Frontier
begin

text \<open>
  The invariant of a log and its writers: the store's nodes are the tree's over the log's leaves, entries
  chain, checkpoints commit to prefixes, and every writer, however stale, has the frontier of a prefix.
  It holds in every state that openings, writers' steps, prunes and other logs' traffic reach.
\<close>

section \<open>The invariant\<close>

definition previous_leaf :: "audit_hash list \<Rightarrow> nat \<Rightarrow> audit_hash option" where
  "previous_leaf leaves n = (if n = 0 then None else Some (leaves ! (n - 1)))"

definition entry_ok :: "'f log_lib \<Rightarrow> string \<Rightarrow> audit_hash list \<Rightarrow> nat \<Rightarrow> audit_entry \<Rightarrow> bool" where
  "entry_ok ll i leaves n e \<longleftrightarrow> en_seq e = n
     \<and> (\<forall>t. en_record e = Some t \<longrightarrow> (\<exists>r. record_text ll r = Inr t \<and> en_leaf_hash e = leaf_hash (ll_sha ll) (text_bytes t)
          \<and> ar_v r = audit_record_version \<and> ar_log_id r = i \<and> ar_seq r = n \<and> ar_prev_hash r = previous_leaf leaves n))"

definition nodes_ok :: "sha256 \<Rightarrow> audit_store \<Rightarrow> string \<Rightarrow> bool" where
  "nodes_ok sha st i \<longleftrightarrow> (\<forall>l k. 1 \<le> l \<and> (k + 1) * 2 ^ l \<le> store_size i st \<longrightarrow>
     lookup (ml_nodes (log_of st i)) (l, k) = Some (node_root sha (leaf_hashes st i) (l, k)))"

definition checkpoints_ok :: "sha256 \<Rightarrow> audit_store \<Rightarrow> string \<Rightarrow> bool" where
  "checkpoints_ok sha st i \<longleftrightarrow> distinct (keys (ml_checkpoints (log_of st i))) \<and> (\<forall>n c. checkpoint_at st i n = Some c \<longrightarrow>
     cp_size c = n \<and> n \<le> store_size i st \<and> cp_root_hash c = tree_root sha (take n (leaf_hashes st i)))"

definition log_ok :: "'f log_lib \<Rightarrow> audit_store \<Rightarrow> string \<Rightarrow> bool" where
  "log_ok ll st i \<longleftrightarrow> store_size i st < 2 ^ 64 \<and> nodes_ok (ll_sha ll) st i \<and> checkpoints_ok (ll_sha ll) st i
     \<and> (\<forall>n < store_size i st. entry_ok ll i (leaf_hashes st i) n (ml_entries (log_of st i) ! n))"

definition writer_ok :: "sha256 \<Rightarrow> audit_hash list \<Rightarrow> writer_state \<Rightarrow> bool" where
  "writer_ok sha leaves s \<longleftrightarrow> (let n = fr_size (ws_frontier s) in
     n \<le> length leaves \<and> ws_frontier s = frontier_for sha (take n leaves) \<and> ws_last_leaf s = previous_leaf leaves n
     \<and> ws_checkpointed_size s \<le> n)"

lemma length_leaf_hashes [simp]: "length (leaf_hashes st i) = store_size i st"
  by (simp add: leaf_hashes_def store_size_log)

lemma fr_size_for [simp]: "fr_size (frontier_for sha xs) = length xs"
  by (simp add: frontier_for_def)

lemma previous_leaf_append: "n \<le> length xs \<Longrightarrow> previous_leaf (xs @ ys) n = previous_leaf xs n"
  by (auto simp: previous_leaf_def nth_append)

lemma previous_leaf_snoc [simp]: "previous_leaf (xs @ [x]) (Suc (length xs)) = Some x"
  by (simp add: previous_leaf_def nth_append)

lemma writer_ok_append: "writer_ok sha leaves s \<Longrightarrow> writer_ok sha (leaves @ new) s"
  by (auto simp: writer_ok_def Let_def previous_leaf_append)

lemma node_root_take:
  "(k + 1) * 2 ^ l \<le> n \<Longrightarrow> n \<le> length leaves \<Longrightarrow> node_root sha (take n leaves) (l, k) = node_root sha leaves (l, k)"
  using node_root_append [of k l "take n leaves" sha "drop n leaves"] by simp

section \<open>A batch\<close>

text \<open>The nodes a run of leaves completes.\<close>

definition new_nodes :: "nat \<Rightarrow> nat \<Rightarrow> (nat \<times> nat) list" where
  "new_nodes n m = concat (map (completes 0) [n..<m])"

lemma new_nodes_step: "n < m \<Longrightarrow> new_nodes n m = completes 0 n @ new_nodes (n + 1) m"
  by (simp add: new_nodes_def upt_conv_Cons)

lemma new_nodes_set: "(l, k) \<in> set (new_nodes n m) \<longleftrightarrow> 1 \<le> l \<and> n < (k + 1) * 2 ^ l \<and> (k + 1) * 2 ^ l \<le> m"
proof
  assume "(l, k) \<in> set (new_nodes n m)"
  then show "1 \<le> l \<and> n < (k + 1) * 2 ^ l \<and> (k + 1) * 2 ^ l \<le> m"
    using completes_within by (fastforce simp: new_nodes_def)
next
  assume lk: "1 \<le> l \<and> n < (k + 1) * 2 ^ l \<and> (k + 1) * 2 ^ l \<le> m"
  then obtain j where j: "(k + 1) * 2 ^ l = j + 1" by (metis Suc_eq_plus1 less_zeroE not0_implies_Suc)
  then have "(l, k) \<in> set (completes 0 j)" using completes_all [of 0 l k j] lk by simp
  then show "(l, k) \<in> set (new_nodes n m)" using lk j by (auto simp: new_nodes_def intro!: bexI [of _ j])
qed

lemma map_completes_take:
  assumes "m \<le> length leaves" and "n < m"
  shows "map (tree_node_of sha (take (n + 1) leaves)) (completes 0 n) = map (tree_node_of sha leaves) (completes 0 n)"
proof (rule map_cong [OF refl])
  fix x assume x: "x \<in> set (completes 0 n)"
  obtain l k where lk: "x = (l, k)" by (rule prod.exhaust)
  show "tree_node_of sha (take (n + 1) leaves) x = tree_node_of sha leaves x"
    using x completes_within [of l k 0 n] node_root_take [of k l "n + 1" leaves sha] assms
    by (simp add: lk tree_node_of_def)
qed

lemma append_loop_ok:
  assumes "append_loop ll i ts ds (frontier_for sha leaves) (previous_leaf leaves (length leaves)) recs es ns = Inr (fr, prev, recs', es', ns')"
    and "ll_sha ll = sha" and "length leaves + length ds < 2 ^ 64"
  shows "\<exists>new. length new = length ds \<and> es' = es @ new
    \<and> (let all = leaves @ map en_leaf_hash new in
         fr = frontier_for sha all \<and> prev = previous_leaf all (length all)
         \<and> ns' = ns @ map (tree_node_of sha all) (new_nodes (length leaves) (length all))
         \<and> (\<forall>j < length new. entry_ok ll i all (length leaves + j) (new ! j)))"
  using assms(1,3)
proof (induction ds arbitrary: leaves recs es ns)
  case Nil
  then show ?case by (auto simp: new_nodes_def)
next
  case (Cons d ds)
  define r where "r = into_record d i (length leaves) ts (previous_leaf leaves (length leaves))"
  from Cons.prems(1) obtain tx where tx: "record_text ll r = Inr tx" by (auto simp: r_def Let_def)
  define leaf where "leaf = leaf_hash sha (text_bytes tx)"
  define e where "e = \<lparr>en_seq = length leaves, en_leaf_hash = leaf, en_record = Some tx\<rparr>"
  let ?xs = "leaves @ [leaf]"
  have "length leaves < 2 ^ 64 - 1" using Cons.prems(2) by simp
  note push = frontier_push_correct [OF this, of sha leaf]
  have rest: "append_loop ll i ts ds (frontier_for sha ?xs) (previous_leaf ?xs (length ?xs)) (recs @ [r]) (es @ [e])
      (ns @ map (tree_node_of sha ?xs) (completes 0 (length leaves))) = Inr (fr, prev, recs', es', ns')"
    using Cons.prems(1) tx push by (auto simp: r_def leaf_def e_def assms(2) Let_def)
  obtain new where new: "length new = length ds" "es' = es @ [e] @ new"
    and all: "let all = ?xs @ map en_leaf_hash new in
         fr = frontier_for sha all \<and> prev = previous_leaf all (length all)
         \<and> ns' = (ns @ map (tree_node_of sha ?xs) (completes 0 (length leaves))) @ map (tree_node_of sha all) (new_nodes (length ?xs) (length all))
         \<and> (\<forall>j < length new. entry_ok ll i all (length ?xs + j) (new ! j))"
    using Cons.IH [OF rest] Cons.prems(2) by auto
  have [simp]: "en_leaf_hash e = leaf" by (simp add: e_def)
  let ?all = "leaves @ map en_leaf_hash (e # new)"
  have al: "?all = ?xs @ map en_leaf_hash new" by (simp add: e_def)
  have "map (tree_node_of sha ?xs) (completes 0 (length leaves)) = map (tree_node_of sha ?all) (completes 0 (length leaves))"
    using map_completes_take [of "length ?xs" ?all "length leaves" sha] by (simp add: e_def)
  then have nodes: "ns' = ns @ map (tree_node_of sha ?all) (new_nodes (length leaves) (length ?all))"
    using all unfolding Let_def al [symmetric] by (simp add: new_nodes_step)
  have "entry_ok ll i ?all (length leaves) e"
    using tx by (auto simp: entry_ok_def e_def leaf_def assms(2) r_def previous_leaf_append)
  then have "\<forall>j < length (e # new). entry_ok ll i ?all (length leaves + j) ((e # new) ! j)"
    using all by (auto simp: Let_def al less_Suc_eq_0_disj)
  then show ?case using new all nodes al by (intro exI [of _ "e # new"]) (simp add: Let_def)
qed

lemma lookup_fold_nodes:
  "lookup (fold (\<lambda>n. AList.update (tn_level n, tn_index n) (tn_hash n)) (map (tree_node_of sha leaves) ps) t) (l, k) =
    (if (l, k) \<in> set ps then Some (node_root sha leaves (l, k)) else lookup t (l, k))"
  by (induction ps arbitrary: t) (auto simp: tree_node_of_def split: prod.splits)

lemma entry_ok_append: "n < length leaves \<Longrightarrow> entry_ok ll i leaves n e \<Longrightarrow> entry_ok ll i (leaves @ new) n e"
  by (auto simp: entry_ok_def previous_leaf_append)

lemma append_loop_length:
  "append_loop ll i ts ds fr prev recs es ns = Inr (fr', prev', recs', es', ns') \<Longrightarrow> length es' = length es + length ds"
  by (induction ds arbitrary: fr prev recs es ns) (fastforce simp: Let_def split: option.splits prod.splits)+

text \<open>What an accepted batch leaves: a log that still satisfies the invariant, its leaves extended.\<close>

lemma append_locked_ok:
  assumes "append_locked ll w now ds g = (res, g')" and "log_ok ll (lg_store g) (lw_log_id w)"
    and "writer_ok (ll_sha ll) (leaf_hashes (lg_store g) (lw_log_id w)) (lg_state g)"
    and "store_size (lw_log_id w) (lg_store g') < 2 ^ 64"
  shows "log_ok ll (lg_store g') (lw_log_id w)
    \<and> writer_ok (ll_sha ll) (leaf_hashes (lg_store g') (lw_log_id w)) (lg_state g')
    \<and> (\<exists>new. leaf_hashes (lg_store g') (lw_log_id w) = leaf_hashes (lg_store g) (lw_log_id w) @ new)"
proof -
  let ?i = "lw_log_id w" and ?st = "lg_store g" and ?sha = "ll_sha ll"
  let ?leaves = "leaf_hashes ?st ?i"
  have unchanged: ?thesis if "g' = g" using that assms(2,3) by simp
  show ?thesis
  proof (cases "\<exists>recs. res = Inr recs \<and> ds \<noteq> []")
    case False
    then have "g' = g" using assms(1) by (auto simp: append_locked_def split: sum.splits prod.splits if_splits)
    then show ?thesis by (rule unchanged)
  next
    case True
    then obtain fr prev recs' es ns st' r where
      loop: "append_loop ll ?i now ds (ws_frontier (lg_state g)) (ws_last_leaf (lg_state g)) [] [] [] = Inr (fr, prev, recs', es, ns)"
      and app: "store_append \<lparr>ap_log_id = ?i, ap_entries = es, ap_nodes = ns\<rparr> ?st = (Inr r, st')"
      and g': "g' = g\<lparr>lg_state := (lg_state g)\<lparr>ws_frontier := fr, ws_last_leaf := prev\<rparr>, lg_store := st'\<rparr>"
      using assms(1) by (auto simp: append_locked_def split: sum.splits prod.splits if_splits)
    let ?n = "fr_size (ws_frontier (lg_state g))"
    let ?pre = "take ?n ?leaves"
    have wr: "?n \<le> length ?leaves" "ws_frontier (lg_state g) = frontier_for ?sha ?pre"
      "ws_last_leaf (lg_state g) = previous_leaf ?leaves ?n" "ws_checkpointed_size (lg_state g) \<le> ?n"
      using assms(3) by (auto simp: writer_ok_def Let_def)
    have len: "length ?pre = ?n" using wr(1) by simp
    have "previous_leaf ?pre ?n = previous_leaf ?leaves ?n" using wr(1) by (simp add: previous_leaf_def)
    then have loop': "append_loop ll ?i now ds (frontier_for ?sha ?pre) (previous_leaf ?pre (length ?pre)) [] [] [] = Inr (fr, prev, recs', es, ns)"
      using loop wr(2,3) len by simp
    have st': "log_of st' ?i = (log_of ?st ?i)\<lparr>ml_entries := ml_entries (log_of ?st ?i) @ es,
       ml_nodes := fold (\<lambda>n. AList.update (tn_level n, tn_index n) (tn_hash n)) ns (ml_nodes (log_of ?st ?i))\<rparr>"
      using store_append_eq [OF app, of ?i] by simp
    have leaves': "leaf_hashes st' ?i = ?leaves @ map en_leaf_hash es" by (simp add: leaf_hashes_def st')
    have size': "store_size ?i st' = store_size ?i ?st + length es" by (simp add: store_size_log st')
    have lends: "length es = length ds" using append_loop_length [OF loop] by simp
    have "es \<noteq> []" using lends True by auto
    have bound: "length ?leaves + length ds < 2 ^ 64" using assms(4) size' lends by (simp add: g')
    then have "length ?pre + length ds < 2 ^ 64" using wr(1) len by linarith
    from append_loop_ok [OF loop' refl this] obtain new where new: "length new = length ds" "es = new"
      "let all = ?pre @ map en_leaf_hash new in
         fr = frontier_for ?sha all \<and> prev = previous_leaf all (length all)
         \<and> ns = map (tree_node_of ?sha all) (new_nodes (length ?pre) (length all))
         \<and> (\<forall>j < length new. entry_ok ll ?i all (length ?pre + j) (new ! j))"
      by auto
    have "entry_ok ll ?i (?pre @ map en_leaf_hash new) (length ?pre) (hd es)"
      using new(2,3) \<open>es \<noteq> []\<close> hd_conv_nth [of es] by (auto simp: Let_def dest: spec [of _ 0])
    moreover have "en_seq (hd es) = store_size ?i ?st"
      using app by (auto simp: store_append_def validate_append_def split: list.splits sum.splits if_splits)
    ultimately have n: "?n = store_size ?i ?st" using len by (simp add: entry_ok_def)
    let ?all = "?leaves @ map en_leaf_hash es"
    have pre: "?pre = ?leaves" using n by simp
    have all: "fr = frontier_for ?sha ?all" "prev = previous_leaf ?all (length ?all)"
      "ns = map (tree_node_of ?sha ?all) (new_nodes ?n (length ?all))" "\<forall>j < length es. entry_ok ll ?i ?all (?n + j) (es ! j)"
      using new len by (simp_all add: Let_def pre)
    have nodes: "nodes_ok ?sha st' ?i"
      unfolding nodes_ok_def
    proof (intro allI impI)
      fix l k :: nat assume lk: "1 \<le> l \<and> (k + 1) * 2 ^ l \<le> store_size ?i st'"
      show "lookup (ml_nodes (log_of st' ?i)) (l, k) = Some (node_root ?sha (leaf_hashes st' ?i) (l, k))"
      proof (cases "?n < (k + 1) * 2 ^ l")
        case True
        then show ?thesis using lk n size' by (simp add: st' all(3) lookup_fold_nodes leaves' new_nodes_set)
      next
        case False
        then have "lookup (ml_nodes (log_of ?st ?i)) (l, k) = Some (node_root ?sha ?leaves (l, k))"
          using assms(2) lk n by (simp add: log_ok_def nodes_ok_def)
        moreover have "node_root ?sha ?all (l, k) = node_root ?sha ?leaves (l, k)"
          using False n by (intro node_root_append) simp
        moreover have "(l, k) \<notin> set (new_nodes ?n (length ?all))" using False by (simp add: new_nodes_set)
        ultimately show ?thesis by (simp add: st' all(3) lookup_fold_nodes leaves')
      qed
    qed
    have cps: "checkpoints_ok ?sha st' ?i"
    proof -
      have "checkpoints_ok ?sha ?st ?i" using assms(2) by (simp add: log_ok_def)
      moreover have "checkpoint_at st' ?i = checkpoint_at ?st ?i" by (simp add: fun_eq_iff checkpoint_at_def st')
      ultimately show ?thesis unfolding checkpoints_ok_def leaves' size' by (simp add: st' trans_le_add1)
    qed
    have entries: "entry_ok ll ?i (leaf_hashes st' ?i) j (ml_entries (log_of st' ?i) ! j)" if "j < store_size ?i st'" for j
    proof (cases "j < store_size ?i ?st")
      case True
      then have "entry_ok ll ?i ?leaves j (ml_entries (log_of ?st ?i) ! j)" using assms(2) by (simp add: log_ok_def)
      then show ?thesis using True by (simp add: st' leaves' nth_append entry_ok_append store_size_log)
    next
      case False
      then have "j - ?n < length es" "?n + (j - ?n) = j" using that n size' by auto
      then show ?thesis using all(4) False n by (auto simp: st' leaves' nth_append store_size_log)
    qed
    have "log_ok ll st' ?i" using nodes cps entries assms(4) by (simp add: log_ok_def g')
    moreover have "writer_ok ?sha (leaf_hashes st' ?i) (lg_state g')"
      using all(1,2) wr(4) n by (simp add: writer_ok_def Let_def g' leaves')
    ultimately show ?thesis using leaves' by (auto simp: g')
  qed
qed

section \<open>Checkpoints\<close>

lemma put_checkpoint_log:
  assumes "put_checkpoint c st = (Inr (), st')"
  shows "log_of st' j = (if j = cp_log_id c
      then (log_of st j)\<lparr>ml_checkpoints := AList.update (cp_size c) c (ml_checkpoints (log_of st j))\<rparr> else log_of st j)"
    and "leaf_hashes st' j = leaf_hashes st j" and "store_size j st' = store_size j st"
  using assms by (auto simp: put_checkpoint_def Let_def leaf_hashes_def store_size_log split: sum.splits)

lemma log_ok_put:
  assumes "put_checkpoint c st = (Inr (), st')" and "log_ok ll st (cp_log_id c)" and "cp_size c \<le> store_size (cp_log_id c) st"
    and "cp_root_hash c = tree_root (ll_sha ll) (take (cp_size c) (leaf_hashes st (cp_log_id c)))"
  shows "log_ok ll st' (cp_log_id c)"
proof -
  note log = put_checkpoint_log [OF assms(1)]
  have "checkpoint_at st' (cp_log_id c) n = (if n = cp_size c then Some c else checkpoint_at st (cp_log_id c) n)" for n
    by (simp add: checkpoint_at_def log(1))
  moreover have "checkpoints_ok (ll_sha ll) st (cp_log_id c)" using assms(2) by (simp add: log_ok_def)
  ultimately have "checkpoints_ok (ll_sha ll) st' (cp_log_id c)"
    using assms(3,4) unfolding checkpoints_ok_def log(2,3) by (simp add: log(1) distinct_keys_update)
  then show ?thesis using assms(2) by (simp add: log_ok_def nodes_ok_def log)
qed

lemma checkpoint_locked_ok:
  assumes "checkpoint_locked ll w now sgs g = (res, g')" and "log_ok ll (lg_store g) (lw_log_id w)"
    and "writer_ok (ll_sha ll) (leaf_hashes (lg_store g) (lw_log_id w)) (lg_state g)"
  shows "log_ok ll (lg_store g') (lw_log_id w)
    \<and> writer_ok (ll_sha ll) (leaf_hashes (lg_store g') (lw_log_id w)) (lg_state g')
    \<and> leaf_hashes (lg_store g') (lw_log_id w) = leaf_hashes (lg_store g) (lw_log_id w)"
proof (cases res)
  case (Inl e)
  then have "g' = g" using assms(1) by (auto simp: checkpoint_locked_def Let_def split: sum.splits prod.splits)
  then show ?thesis using assms(2,3) by simp
next
  case (Inr c)
  let ?i = "lw_log_id w" and ?n = "fr_size (ws_frontier (lg_state g))"
  obtain st' where put: "put_checkpoint c (lg_store g) = (Inr (), st')" and c: "cp_log_id c = ?i" "cp_size c = ?n"
      "cp_root_hash c = frontier_root (ll_sha ll) (ws_frontier (lg_state g))"
    and g': "lg_store g' = st'" "lg_state g' = (lg_state g)\<lparr>ws_checkpointed_size := ?n, ws_checkpointed_at := now\<rparr>"
    using assms(1) Inr by (auto simp: checkpoint_locked_def Let_def split: sum.splits prod.splits)
  have wr: "?n \<le> store_size ?i (lg_store g)" "ws_frontier (lg_state g) = frontier_for (ll_sha ll) (take ?n (leaf_hashes (lg_store g) ?i))"
    using assms(3) by (auto simp: writer_ok_def Let_def)
  have "store_size ?i (lg_store g) < 2 ^ 64" using assms(2) by (simp add: log_ok_def)
  then have "frontier_root (ll_sha ll) (ws_frontier (lg_state g)) = tree_root (ll_sha ll) (take ?n (leaf_hashes (lg_store g) ?i))"
    using wr frontier_root_correct [of "take ?n (leaf_hashes (lg_store g) ?i)" "ll_sha ll"] by simp
  then have "log_ok ll st' ?i" using log_ok_put [OF put, of ll] assms(2) c wr(1) by simp
  then show ?thesis using put_checkpoint_log [OF put] assms(3) g' by (auto simp: writer_ok_def Let_def)
qed

section \<open>Reading the tree back\<close>

lemma sequence_results_ok: "\<forall>x \<in> set xs. f x = Inr (g x) \<Longrightarrow> sequence_results (map f xs) = Inr (map g xs)"
  by (induction xs) auto

lemma range_nodes_within: "\<lbrakk>(l, k) \<in> set (range_nodes s e); e < 2 ^ 64; aligned s e\<rbrakk> \<Longrightarrow> (k + 1) * 2 ^ l \<le> e"
proof (induction "e - s" arbitrary: s rule: less_induct)
  case less
  show ?case
  proof (cases "s < e")
    case True
    then have pos: "0 < e - s" by simp
    obtain j where j: "2 ^ j \<le> e - s" "e - s < 2 ^ Suc j" by (rule power_below [OF pos])
    note step = range_nodes_step [OF less.prems(3) j less.prems(2)]
    have "2 ^ j dvd s" using less.prems(3) j(1) by (simp add: aligned_def)
    then have at: "(s div 2 ^ j + 1) * 2 ^ j = s + 2 ^ j" by simp
    have "aligned (s + 2 ^ j) e" using aligned_right [OF less.prems(3) j(1)] j(2) by simp
    moreover have "1 \<le> (2 :: nat) ^ j" by simp
    then have "e - (s + 2 ^ j) < e - s" using True by linarith
    ultimately show ?thesis using less.hyps less.prems(1,2) step at j(1) True by auto
  qed (use less.prems(1) in \<open>simp add: range_nodes.simps [of s e]\<close>)
qed

lemma stored_hash_ok:
  assumes "log_ok ll st i" and "(k + 1) * 2 ^ l \<le> store_size i st"
  shows "stored_hash st i (l, k) = Inr (node_root (ll_sha ll) (leaf_hashes st i) (l, k))"
proof (cases "l = 0")
  case True
  have "node_root (ll_sha ll) (leaf_hashes st i) (0, k) = leaf_hashes st i ! k" by (simp add: node_root_def subtree_root.simps)
  moreover obtain lg where "lookup st i = Some lg" using assms(2) by (cases "lookup st i") (auto simp: store_size_def)
  ultimately show ?thesis using True assms(2) by (simp add: stored_hash_def hash_at_def leaf_hashes_def store_size_def log_of_def)
next
  case False
  then have "lookup (ml_nodes (log_of st i)) (l, k) = Some (node_root (ll_sha ll) (leaf_hashes st i) (l, k))"
    using assms by (simp add: log_ok_def nodes_ok_def)
  moreover have "0 < (k + 1) * (2 :: nat) ^ l" by simp
  then obtain lg where "lookup st i = Some lg" using assms(2) by (cases "lookup st i") (auto simp: store_size_def)
  ultimately show ?thesis using False by (simp add: stored_hash_def hash_at_def log_of_def)
qed

lemma stored_range_ok:
  assumes "log_ok ll st i" and "e \<le> store_size i st" and "aligned s e"
  shows "sequence_results (map (stored_hash st i) (range_nodes s e)) = Inr (map (node_root (ll_sha ll) (leaf_hashes st i)) (range_nodes s e))"
proof (rule sequence_results_ok, rule ballI)
  fix x assume x: "x \<in> set (range_nodes s e)"
  obtain l k where lk: "x = (l, k)" by (rule prod.exhaust)
  have "e < 2 ^ 64" using assms(1,2) by (simp add: log_ok_def)
  then show "stored_hash st i x = Inr (node_root (ll_sha ll) (leaf_hashes st i) x)"
    using range_nodes_within [of l k s e] x assms stored_hash_ok [OF assms(1), of k l] by (simp add: lk)
qed

lemma store_subtree_root_ok:
  assumes "log_ok ll st i" and "s \<le> e" and "e \<le> store_size i st" and "aligned s e"
  shows "store_subtree_root (ll_sha ll) st i (s, e) = Inr (subtree_root (ll_sha ll) (leaf_hashes st i) s e)"
  using stored_range_ok [OF assms(1,3,4)] fold_range_nodes [OF assms(2,4), of "leaf_hashes st i" "ll_sha ll"] assms(1,3)
  by (simp add: store_subtree_root_def log_ok_def)

lemma subtree_root_take:
  "\<lbrakk>s \<le> e; e \<le> n; n \<le> length leaves\<rbrakk> \<Longrightarrow> subtree_root sha (take n leaves) s e = subtree_root sha leaves s e"
  by (simp add: subtree_root_mth drop_take min_def)

lemma store_ranges_ok:
  assumes "log_ok ll st i" and "n \<le> store_size i st" and "\<forall>(a, b) \<in> set rs. a \<le> b \<and> b \<le> n \<and> aligned a b"
  shows "sequence_results (map (store_subtree_root (ll_sha ll) st i) rs)
    = Inr (map (\<lambda>(s, e). subtree_root (ll_sha ll) (take n (leaf_hashes st i)) s e) rs)"
proof (rule sequence_results_ok, rule ballI)
  fix x assume x: "x \<in> set rs"
  obtain a b where ab: "x = (a, b)" by (rule prod.exhaust)
  then have "a \<le> b" "b \<le> n" "aligned a b" using assms(3) x by auto
  then show "store_subtree_root (ll_sha ll) st i x = Inr (case x of (s, e) \<Rightarrow> subtree_root (ll_sha ll) (take n (leaf_hashes st i)) s e)"
    using store_subtree_root_ok [OF assms(1), of a b] subtree_root_take [of a b n "leaf_hashes st i" "ll_sha ll"] assms(2)
    by (simp add: ab)
qed

section \<open>The states of a log\<close>

datatype log_act =
  ActAppend instant instant instant "audit_draft list"
| ActCheckpoint instant
| ActIfDue instant instant
| ActRotate instant instant signer audit_actor

fun act_exec :: "'f log_lib \<Rightarrow> log_writer \<Rightarrow> log_act \<Rightarrow> log_world \<Rightarrow> log_world" where
  "act_exec ll w (ActAppend t t' t'' ds) g = snd (log_append_batch ll w t t' t'' ds g)"
| "act_exec ll w (ActCheckpoint t) g = snd (log_checkpoint ll w t g)"
| "act_exec ll w (ActIfDue t t') g = snd (checkpoint_if_due ll w t t' g)"
| "act_exec ll w (ActRotate t t' sg a) g = snd (rotate_signer ll w t t' sg a g)"

text \<open>What can happen to log \<open>i\<close> on a store: a writer is opened or reopened, a writer acts, and entries are pruned or
  other logs change. Writers are kept in every state they were in, so a crashed or stale writer may act
  too. The log stays below the sizes that fit 64 bits.\<close>

inductive log_reach :: "'f log_lib \<Rightarrow> string \<Rightarrow> (log_writer \<times> writer_state) set \<Rightarrow> audit_store \<Rightarrow> bool"
  for ll :: "'f log_lib" and i :: string where
  reach_new: "lookup st i = None \<Longrightarrow> log_reach ll i {} st"
| reach_open: "\<lbrakk>log_reach ll i ws st; bl_log_id b = i; log_open ll b now st = Inr (w, g)\<rbrakk> \<Longrightarrow> log_reach ll i (insert (w, lg_state g) ws) st"
| reach_act: "\<lbrakk>log_reach ll i ws st; (w, s) \<in> ws; g' = act_exec ll w a \<lparr>lg_state = s, lg_store = st, lg_anchored = out\<rparr>;
    store_size i (lg_store g') < 2 ^ 64\<rbrakk> \<Longrightarrow> log_reach ll i (insert (w, lg_state g') ws) (lg_store g')"
| reach_prune: "\<lbrakk>log_reach ll i ws st; store_prune i n st = (Inr m, st')\<rbrakk> \<Longrightarrow> log_reach ll i ws st'"
| reach_other: "\<lbrakk>log_reach ll i ws st; log_of st' i = log_of st i; store_size i st' = store_size i st\<rbrakk> \<Longrightarrow> log_reach ll i ws st'"

lemma checkpoint_locked_size: "checkpoint_locked ll w now sgs g = (res, g') \<Longrightarrow> store_size j (lg_store g') = store_size j (lg_store g)"
  by (auto simp: checkpoint_locked_def Let_def put_checkpoint_log(3) split: sum.splits prod.splits)

lemma act_exec_ok:
  assumes "log_ok ll (lg_store g) (lw_log_id w)"
    and "writer_ok (ll_sha ll) (leaf_hashes (lg_store g) (lw_log_id w)) (lg_state g)"
    and "store_size (lw_log_id w) (lg_store (act_exec ll w a g)) < 2 ^ 64"
  shows "log_ok ll (lg_store (act_exec ll w a g)) (lw_log_id w)
    \<and> writer_ok (ll_sha ll) (leaf_hashes (lg_store (act_exec ll w a g)) (lw_log_id w)) (lg_state (act_exec ll w a g))
    \<and> (\<exists>new. leaf_hashes (lg_store (act_exec ll w a g)) (lw_log_id w) = leaf_hashes (lg_store g) (lw_log_id w) @ new)"
proof (cases a)
  case (ActAppend t t' t'' ds)
  obtain r1 g1 where app: "append_locked ll w t ds g = (r1, g1)" by fastforce
  obtain r2 g2 where cp: "checkpoint_locked ll w t'' [ws_signer (lg_state g1)] g1 = (r2, g2)" by fastforce
  have "act_exec ll w a g = g1 \<or> act_exec ll w a g = g2"
    by (auto simp: ActAppend log_append_batch_def app cp Let_def split: sum.splits)
  moreover have "store_size (lw_log_id w) (lg_store g2) = store_size (lw_log_id w) (lg_store g1)"
    using checkpoint_locked_size [OF cp] .
  ultimately have s1: "store_size (lw_log_id w) (lg_store g1) < 2 ^ 64" using assms(3) by auto
  note ok1 = append_locked_ok [OF app assms(1,2) s1]
  note ok2 = checkpoint_locked_ok [OF cp ok1 [THEN conjunct1] ok1 [THEN conjunct2, THEN conjunct1]]
  show ?thesis using \<open>act_exec ll w a g = g1 \<or> act_exec ll w a g = g2\<close> ok1 ok2 by auto
next
  case (ActCheckpoint t)
  obtain r g1 where cp: "checkpoint_locked ll w t [ws_signer (lg_state g)] g = (r, g1)" by fastforce
  then show ?thesis using checkpoint_locked_ok [OF cp assms(1,2)] by (auto simp: ActCheckpoint log_checkpoint_def)
next
  case (ActIfDue t t')
  obtain r g1 where cp: "checkpoint_locked ll w t' [ws_signer (lg_state g)] g = (r, g1)" by fastforce
  have "act_exec ll w a g = g \<or> act_exec ll w a g = g1"
    by (auto simp: ActIfDue checkpoint_if_due_def cp Let_def split: sum.splits)
  then show ?thesis using checkpoint_locked_ok [OF cp assms(1,2)] assms(1,2) by auto
next
  case (ActRotate t t' sg actor)
  obtain r1 g1 where app: "append_locked ll w t [rotation_draft ll (ws_signer (lg_state g)) sg actor] g = (r1, g1)" by fastforce
  obtain r2 g2 where cp: "checkpoint_locked ll w t' [ws_signer (lg_state g), sg] g1 = (r2, g2)" by fastforce
  let ?g3 = "g2\<lparr>lg_state := (lg_state g2)\<lparr>ws_signer := sg\<rparr>\<rparr>"
  have "act_exec ll w a g = g1 \<or> act_exec ll w a g = g2 \<or> act_exec ll w a g = ?g3"
    by (auto simp: ActRotate rotate_signer_def app cp Let_def split: sum.splits)
  moreover have "store_size (lw_log_id w) (lg_store g2) = store_size (lw_log_id w) (lg_store g1)"
    using checkpoint_locked_size [OF cp] .
  ultimately have s1: "store_size (lw_log_id w) (lg_store g1) < 2 ^ 64" using assms(3) by auto
  note ok1 = append_locked_ok [OF app assms(1,2) s1]
  note ok2 = checkpoint_locked_ok [OF cp ok1 [THEN conjunct1] ok1 [THEN conjunct2, THEN conjunct1]]
  have "writer_ok (ll_sha ll) leaves (lg_state ?g3) = writer_ok (ll_sha ll) leaves (lg_state g2)" for leaves
    by (simp add: writer_ok_def)
  then show ?thesis using \<open>act_exec ll w a g = g1 \<or> act_exec ll w a g = g2 \<or> act_exec ll w a g = ?g3\<close> ok1 ok2 by auto
qed

lemma latest_checkpoint_at:
  assumes "latest_checkpoint i st = Some c" and "checkpoints_ok sha st i"
  shows "checkpoint_at st i (cp_size c) = Some c"
proof -
  let ?t = "ml_checkpoints (log_of st i)"
  have "store_checkpoints i st \<noteq> []" "c = last (store_checkpoints i st)"
    using assms(1) by (auto simp: latest_checkpoint_def Let_def split: if_splits)
  then have "c \<in> set (store_checkpoints i st)" by simp
  then obtain n where "(n, c) \<in> set ?t" by (auto simp: store_checkpoints_def)
  then have at: "checkpoint_at st i n = Some c" using assms(2) by (simp add: checkpoints_ok_def checkpoint_at_def)
  then have "cp_size c = n" using assms(2) unfolding checkpoints_ok_def by blast
  then show ?thesis using at by simp
qed

text \<open>A writer opened on a good log has the frontier of the whole log.\<close>

lemma log_open_ok:
  assumes "log_open ll b now st = Inr (w, g)" and "log_ok ll st (bl_log_id b)"
  shows "lw_log_id w = bl_log_id b \<and> lg_store g = st
    \<and> ws_frontier (lg_state g) = frontier_for (ll_sha ll) (leaf_hashes st (bl_log_id b))
    \<and> ws_last_leaf (lg_state g) = previous_leaf (leaf_hashes st (bl_log_id b)) (store_size (bl_log_id b) st)
    \<and> writer_ok (ll_sha ll) (leaf_hashes st (bl_log_id b)) (lg_state g)"
proof -
  let ?i = "bl_log_id b"
  let ?n = "store_size ?i st" and ?leaves = "leaf_hashes st ?i"
  have hs: "sequence_results (map (stored_hash st ?i) (range_nodes 0 ?n)) = Inr (map (node_root (ll_sha ll) ?leaves) (range_nodes 0 ?n))"
    using stored_range_ok [OF assms(2) order_refl, of 0] by simp
  have leaf: "0 < ?n \<Longrightarrow> stored_hash st ?i (0, ?n - 1) = Inr (?leaves ! (?n - 1))"
    using stored_hash_ok [OF assms(2), of "?n - 1" 0] by (simp add: node_root_def subtree_root.simps)
  have w: "lw_log_id w = ?i" "lg_store g = st" "ws_frontier (lg_state g) = frontier_for (ll_sha ll) ?leaves"
    "ws_last_leaf (lg_state g) = previous_leaf ?leaves ?n"
    "ws_checkpointed_size (lg_state g) = (case latest_checkpoint ?i st of Some c \<Rightarrow> cp_size c | None \<Rightarrow> 0)"
    using assms(1) hs leaf by (auto simp: log_open_def Let_def frontier_for_def previous_leaf_def split: if_splits)
  have cps: "checkpoints_ok (ll_sha ll) st ?i" using assms(2) by (simp add: log_ok_def)
  have "ws_checkpointed_size (lg_state g) \<le> ?n"
  proof (cases "latest_checkpoint ?i st")
    case (Some c)
    then have "checkpoint_at st ?i (cp_size c) = Some c" using latest_checkpoint_at cps by blast
    then have "cp_size c \<le> ?n" using cps unfolding checkpoints_ok_def by blast
    then show ?thesis using w(5) Some by simp
  qed (simp add: w(5))
  then show ?thesis using w by (simp add: writer_ok_def Let_def)
qed

lemma log_ok_prune:
  assumes "store_prune i n st = (Inr m, st')" and "log_ok ll st i"
  shows "log_ok ll st' i \<and> leaf_hashes st' i = leaf_hashes st i"
proof (cases "lookup st i")
  case None
  then have "st' = st" using assms(1) by (auto simp: store_prune_def split: if_splits)
  then show ?thesis using assms(2) by simp
next
  case (Some l)
  let ?f = "\<lambda>e. e\<lparr>en_record := None\<rparr>" and ?es = "ml_entries (log_of st i)"
  have st': "log_of st' i = (log_of st i)\<lparr>ml_entries := map ?f (take n ?es) @ drop n ?es\<rparr>" and n: "n \<le> length ?es"
    using assms(1) Some by (auto simp: store_prune_def log_of_def store_size_log split: if_splits)
  have leaves: "leaf_hashes st' i = leaf_hashes st i"
  proof -
    have "map en_leaf_hash (map ?f (take n es) @ drop n es) = map en_leaf_hash es" for es :: "audit_entry list"
      by (simp add: o_def) (metis append_take_drop_id map_append)
    then show ?thesis by (simp add: leaf_hashes_def st')
  qed
  have size: "store_size i st' = store_size i st" using n by (simp add: store_size_log st')
  have "entry_ok ll i (leaf_hashes st i) j (ml_entries (log_of st' i) ! j)" if "j < store_size i st" for j
  proof -
    have "entry_ok ll i (leaf_hashes st i) j (?es ! j)" using assms(2) that by (simp add: log_ok_def)
    then show ?thesis using n that by (auto simp: st' nth_append entry_ok_def store_size_log)
  qed
  then show ?thesis using assms(2) leaves size
    by (simp add: log_ok_def nodes_ok_def checkpoints_ok_def checkpoint_at_def st')
qed

theorem log_invariant:
  assumes "log_reach ll i ws st"
  shows "log_ok ll st i \<and> (\<forall>(w, s) \<in> ws. lw_log_id w = i \<and> writer_ok (ll_sha ll) (leaf_hashes st i) s)"
  using assms
proof (induction rule: log_reach.induct)
  case (reach_new st)
  then have "log_of st i = memory_log_default" by (simp add: log_of_def)
  then show ?case
    by (simp add: log_ok_def nodes_ok_def checkpoints_ok_def checkpoint_at_def store_size_log memory_log_default_def)
next
  case (reach_open ws st b now w g)
  then show ?case using log_open_ok [OF reach_open.hyps(3)] by auto
next
  case (reach_act ws st w s g' a out)
  let ?g = "\<lparr>lg_state = s, lg_store = st, lg_anchored = out\<rparr>"
  have w: "lw_log_id w = i" "writer_ok (ll_sha ll) (leaf_hashes st i) s" using reach_act.IH reach_act.hyps(2) by auto
  have "log_ok ll (lg_store g') i \<and> writer_ok (ll_sha ll) (leaf_hashes (lg_store g') i) (lg_state g')
      \<and> (\<exists>new. leaf_hashes (lg_store g') i = leaf_hashes st i @ new)"
    using act_exec_ok [of ll ?g w a] w reach_act.IH reach_act.hyps(3,4) by simp
  then show ?case using reach_act.IH w(1) writer_ok_append [of "ll_sha ll" "leaf_hashes st i"] by auto
next
  case (reach_prune ws st n m st')
  then show ?case using log_ok_prune [OF reach_prune.hyps(2)] by auto
next
  case (reach_other ws st st')
  then have "leaf_hashes st' i = leaf_hashes st i" by (simp add: leaf_hashes_def)
  then show ?case using reach_other by (simp add: log_ok_def nodes_ok_def checkpoints_ok_def checkpoint_at_def)
qed

end
