(* ===== verification/Audit_Log_Props.thy ===== *)
theory Audit_Log_Props
  imports Audit_Log_Inv
begin

text \<open>
  What the writer of the audit log promises, in every state of a log that openings, appends, checkpoints,
  rotations and prunes reach: its proofs verify, its checkpoints commit to its records, its entries chain,
  reopening recovers the writer, and a stale writer cannot write.
\<close>

section \<open>Facts of a reachable log\<close>

lemma reach_writer:
  assumes "log_reach ll i ws st" and "(w, s) \<in> ws"
  shows "log_ok ll st i" and "lw_log_id w = i" and "fr_size (ws_frontier s) \<le> store_size i st" and "store_size i st < 2 ^ 64"
    and "ws_frontier s = frontier_for (ll_sha ll) (take (fr_size (ws_frontier s)) (leaf_hashes st i))"
    and "ws_last_leaf s = previous_leaf (leaf_hashes st i) (fr_size (ws_frontier s))"
  using log_invariant [OF assms(1)] assms(2) by (auto simp: writer_ok_def Let_def log_ok_def)

lemma root_at_ok:
  assumes "log_ok ll (lg_store g) (lw_log_id w)" and "n \<le> fr_size (ws_frontier (lg_state g))"
    and "n \<le> store_size (lw_log_id w) (lg_store g)"
  shows "log_root_at ll w g n = Inr (tree_root (ll_sha ll) (take n (leaf_hashes (lg_store g) (lw_log_id w))))"
  using store_subtree_root_ok [OF assms(1), of 0 n] subtree_root_take [of 0 n n "leaf_hashes (lg_store g) (lw_log_id w)" "ll_sha ll"]
    assms(2,3)
  by (simp add: log_root_at_def check_size_def tree_root_def min_def)

lemma consistency_ranges_aligned:
  "\<lbrakk>new < 2 ^ 64; (a, b) \<in> set (consistency_ranges old new)\<rbrakk> \<Longrightarrow> a \<le> b \<and> b \<le> new \<and> aligned a b"
  using subproof_aligned [of 0 new old a b True] by (auto simp: consistency_ranges_def split: if_splits)

lemma stored_checkpoint_commits:
  assumes "log_ok ll st i" and "c \<in> set (store_checkpoints i st)"
  shows "cp_size c \<le> store_size i st \<and> cp_root_hash c = tree_root (ll_sha ll) (take (cp_size c) (leaf_hashes st i))"
proof -
  have cps: "checkpoints_ok (ll_sha ll) st i" using assms(1) by (simp add: log_ok_def)
  obtain n where "(n, c) \<in> set (ml_checkpoints (log_of st i))" using assms(2) by (auto simp: store_checkpoints_def)
  then have at: "checkpoint_at st i n = Some c" using cps by (simp add: checkpoints_ok_def checkpoint_at_def)
  show ?thesis using cps at unfolding checkpoints_ok_def by blast
qed

section \<open>A concrete log\<close>

text \<open>A log with one record and one with a checkpoint, for the instances below.\<close>

definition demo_log_lib :: "unit log_lib" where
  "demo_log_lib =
     \<lparr>ll_sha = demo_sha,
      ll_note = \<lparr>b64_encode = (\<lambda>_. ''A''), b64_decode = (\<lambda>s. Inl ''none''), ed25519_verify = (\<lambda>k m s. s = k)\<rparr>,
      ll_jcs = \<lparr>js_as_u64 = (\<lambda>_. None), js_as_i64 = (\<lambda>_. None), js_as_f64 = (\<lambda>_. None), js_of_int = (\<lambda>_. ()), js_eq = (=),
        js_zero = (), js_format = (\<lambda>_. ''0'')\<rparr>,
      to_value = (\<lambda>r. Inr (JBool True))\<rparr>"

definition demo_builder :: log_builder where
  "demo_builder = builder_new ''l'' \<lparr>sg_name = ''k'', sg_public_key = replicate 32 0, sg_sign = (\<lambda>_. Inr [])\<rparr>"

definition demo_writer :: log_writer where
  "demo_writer = \<lparr>lw_log_id = ''l'', lw_origin = ''adk-audit/l'', lw_checkpoint_every = 256, lw_checkpoint_interval = 60000000000, lw_anchors = []\<rparr>"

definition demo_world :: log_world where
  "demo_world = \<lparr>lg_state = \<lparr>ws_frontier = frontier_default, ws_last_leaf = None, ws_signer = bl_signer demo_builder,
     ws_checkpointed_size = 0, ws_checkpointed_at = 0\<rparr>, lg_store = [], lg_anchored = []\<rparr>"

lemma demo_open: "log_open demo_log_lib demo_builder 0 [] = Inr (demo_writer, demo_world)"
  by (simp add: log_open_def demo_builder_def builder_new_def demo_writer_def demo_world_def newline_def store_size_def
    latest_checkpoint_def store_checkpoints_def log_of_def memory_log_default_def frontier_default_def Let_def)

definition demo_act :: log_act where
  "demo_act = ActAppend 0 0 0 [audit_draft_new AkToolCall ''a'']"

definition demo_appended :: log_world where
  "demo_appended = act_exec demo_log_lib demo_writer demo_act demo_world"

definition demo_checkpointed :: log_world where
  "demo_checkpointed = act_exec demo_log_lib demo_writer (ActCheckpoint 0) demo_world"

lemma demo_text: "record_text demo_log_lib r = Inr ''true''"
  by (simp add: record_text_def demo_log_lib_def)

lemma push_first: "frontier_push sha frontier_default leaf = Some (\<lparr>fr_size = 1, fr_hashes = [leaf]\<rparr>, [])"
  by (simp add: frontier_push_def frontier_default_def push_loop.simps)

lemma fr_size_default [simp]: "fr_size frontier_default = 0"
  by (simp add: frontier_default_def)

lemma demo_appended: "store_size ''l'' (lg_store demo_appended) = 1" "fr_size (ws_frontier (lg_state demo_appended)) = 1"
  by (simp_all add: demo_appended_def demo_act_def log_append_batch_def append_locked_def demo_world_def push_first demo_text
      demo_writer_def store_append_def validate_append_def store_size_def interval_elapsed_def Let_def log_of_def memory_log_default_def)

lemma show_nat_0: "show_nat 0 = ''0''"
  by (subst show_nat.simps) (code_simp)

lemma demo_record: "en_record (ml_entries (log_of (lg_store demo_appended) ''l'') ! 0) = Some ''true''"
  by (simp add: demo_appended_def demo_act_def log_append_batch_def append_locked_def demo_world_def push_first demo_text
      demo_writer_def store_append_def validate_append_def store_size_def interval_elapsed_def Let_def log_of_def memory_log_default_def)

lemma demo_checkpointed: "length (store_checkpoints ''l'' (lg_store demo_checkpointed)) = 1"
  "store_size ''l'' (lg_store demo_checkpointed) = 0"
  by (simp_all add: show_nat_0  demo_checkpointed_def log_checkpoint_def checkpoint_locked_def demo_world_def frontier_default_def
      demo_writer_def sign_note_def body_text_def demo_log_lib_def has_blank_line_def newline_def demo_builder_def builder_new_def
   verifier_from_public_key_def valid_name_def is_whitespace_def  put_checkpoint_def validate_checkpoint_def store_size_def Let_def log_of_def memory_log_default_def store_checkpoints_def)

lemma demo_log_reach: "log_reach demo_log_lib ''l'' {(demo_writer, lg_state demo_world)} []"
  using reach_open [OF reach_new _ demo_open, of "''l''"] by (simp add: demo_builder_def builder_new_def)

lemma demo_sha_lib [simp]: "ll_sha demo_log_lib = demo_sha"
  by (simp add: demo_log_lib_def)

lemma world_eq: "\<lparr>lg_state = lg_state g, lg_store = lg_store g, lg_anchored = []\<rparr> = g\<lparr>lg_anchored := []\<rparr>"
  by simp

lemma demo_world_eq: "\<lparr>lg_state = lg_state demo_world, lg_store = [], lg_anchored = []\<rparr> = demo_world"
  by (simp add: demo_world_def)

lemma demo_appended_reach:
  "log_reach demo_log_lib ''l'' {(demo_writer, lg_state demo_appended), (demo_writer, lg_state demo_world)} (lg_store demo_appended)"
  using reach_act [OF demo_log_reach, of demo_writer "lg_state demo_world" demo_appended demo_act "[]"] demo_appended(1)
  by (simp add: demo_world_eq demo_appended_def)

lemma demo_checkpointed_reach:
  "log_reach demo_log_lib ''l'' {(demo_writer, lg_state demo_checkpointed), (demo_writer, lg_state demo_world)} (lg_store demo_checkpointed)"
  using reach_act [OF demo_log_reach, of demo_writer "lg_state demo_world" demo_checkpointed "ActCheckpoint 0" "[]"] demo_checkpointed(2)
  by (simp add: demo_world_eq demo_checkpointed_def)

section \<open>The properties\<close>

text \<open>C33: the log can prove every record it holds: whatever was opened, appended, checkpointed, rotated and pruned,
  a writer asked for a record's inclusion in a size it covers reads a proof and a root back from the store,
  and the verifier accepts the proof for that record's leaf against that root.\<close>

theorem log_proves_inclusion:
  assumes "log_reach ll i ws st" and "(w, s) \<in> ws" and "seq < n" and "n \<le> fr_size (ws_frontier s)"
  shows "\<exists>prf root. log_inclusion_proof ll w \<lparr>lg_state = s, lg_store = st, lg_anchored = out\<rparr> seq n = Inr prf
    \<and> log_root_at ll w \<lparr>lg_state = s, lg_store = st, lg_anchored = out\<rparr> n = Inr root
    \<and> verify_inclusion (ll_sha ll) seq n (leaf_hashes st i ! seq) prf root = Inr ()"
proof -
  note wr = reach_writer [OF assms(1,2)]
  let ?g = "\<lparr>lg_state = s, lg_store = st, lg_anchored = out\<rparr>" and ?leaves = "take n (leaf_hashes st i)"
  have n: "n \<le> store_size i st" "n < 2 ^ 64" "length ?leaves = n" using assms(4) wr(3,4) by auto
  have "\<forall>(a, b) \<in> set (inclusion_ranges seq n). a \<le> b \<and> b \<le> n \<and> aligned a b"
    using inclusion_path_aligned [of 0 seq n] assms(3) n(2) by (auto simp: inclusion_ranges_def)
  from store_ranges_ok [OF wr(1) n(1) this] assms(3,4) wr(2)
  have "log_inclusion_proof ll w ?g seq n = Inr (map (\<lambda>(s, e). subtree_root (ll_sha ll) ?leaves s e) (inclusion_ranges seq n))"
    by (simp add: log_inclusion_proof_def check_size_def)
  moreover have "log_root_at ll w ?g n = Inr (tree_root (ll_sha ll) ?leaves)"
    using root_at_ok [of ll ?g w n] wr(1,2) assms(4) n(1) by simp
  moreover have "verify_inclusion (ll_sha ll) seq n (leaf_hashes st i ! seq)
      (map (\<lambda>(s, e). subtree_root (ll_sha ll) ?leaves s e) (inclusion_ranges seq n)) (tree_root (ll_sha ll) ?leaves) = Inr ()"
    using inclusion_path_verifies [of seq ?leaves "ll_sha ll"] assms(3) n by simp
  ultimately show ?thesis by blast
qed

theorem log_proves_inclusion_witness:
  "\<exists>prf root. log_inclusion_proof demo_log_lib demo_writer (demo_appended\<lparr>lg_anchored := []\<rparr>) 0 1 = Inr prf
     \<and> log_root_at demo_log_lib demo_writer (demo_appended\<lparr>lg_anchored := []\<rparr>) 1 = Inr root
     \<and> verify_inclusion demo_sha 0 1 (leaf_hashes (lg_store demo_appended) ''l'' ! 0) prf root = Inr ()"
  using log_proves_inclusion [OF demo_appended_reach, of demo_writer "lg_state demo_appended" 0 1 "[]"] demo_appended
  by (simp add: world_eq)

text \<open>C34: the log proves that it only grew: for two sizes a writer covers, the store gives back a consistency proof
  and two roots, and the verifier accepts the proof between them.\<close>

theorem log_proves_consistency:
  assumes "log_reach ll i ws st" and "(w, s) \<in> ws" and "old \<le> new" and "new \<le> fr_size (ws_frontier s)"
  shows "\<exists>prf r r'. log_consistency_proof ll w \<lparr>lg_state = s, lg_store = st, lg_anchored = out\<rparr> old new = Inr prf
    \<and> log_root_at ll w \<lparr>lg_state = s, lg_store = st, lg_anchored = out\<rparr> old = Inr r
    \<and> log_root_at ll w \<lparr>lg_state = s, lg_store = st, lg_anchored = out\<rparr> new = Inr r'
    \<and> verify_consistency (ll_sha ll) old new r r' prf = Inr ()"
proof -
  note wr = reach_writer [OF assms(1,2)]
  let ?g = "\<lparr>lg_state = s, lg_store = st, lg_anchored = out\<rparr>" and ?leaves = "take new (leaf_hashes st i)"
  have n: "new \<le> store_size i st" "new < 2 ^ 64" "length ?leaves = new" using assms(4) wr(3,4) by auto
  have "\<forall>(a, b) \<in> set (consistency_ranges old new). a \<le> b \<and> b \<le> new \<and> aligned a b"
    using consistency_ranges_aligned [OF n(2)] by auto
  from store_ranges_ok [OF wr(1) n(1) this] assms(3,4) wr(2)
  have "log_consistency_proof ll w ?g old new
    = Inr (map (\<lambda>(s, e). subtree_root (ll_sha ll) ?leaves s e) (consistency_ranges old new))"
    by (simp add: log_consistency_proof_def check_size_def)
  moreover have "log_root_at ll w ?g m = Inr (tree_root (ll_sha ll) (take m (leaf_hashes st i)))" if "m \<le> new" for m
    using root_at_ok [of ll ?g w m] wr(1,2) assms(4) n(1) that by simp
  moreover have "take old ?leaves = take old (leaf_hashes st i)" using assms(3) by (simp add: min_def)
  ultimately show ?thesis
    using consistency_path_verifies [of old ?leaves "ll_sha ll"] assms(3) n by auto
qed

theorem log_proves_consistency_witness:
  "\<exists>prf r r'. log_consistency_proof demo_log_lib demo_writer (demo_appended\<lparr>lg_anchored := []\<rparr>) 0 1 = Inr prf
     \<and> log_root_at demo_log_lib demo_writer (demo_appended\<lparr>lg_anchored := []\<rparr>) 0 = Inr r
     \<and> log_root_at demo_log_lib demo_writer (demo_appended\<lparr>lg_anchored := []\<rparr>) 1 = Inr r'
     \<and> verify_consistency demo_sha 0 1 r r' prf = Inr ()"
  using log_proves_consistency [OF demo_appended_reach, of demo_writer "lg_state demo_appended" 0 1 "[]"] demo_appended
  by (simp add: world_eq)

text \<open>C35: every checkpoint a reachable log stores commits to its records: it covers no more than the log holds, and
  its root is the root over the leaf hashes of the records before its size.\<close>

theorem checkpoints_commit:
  assumes "log_reach ll i ws st" and "c \<in> set (store_checkpoints i st)"
  shows "cp_size c \<le> store_size i st \<and> cp_root_hash c = tree_root (ll_sha ll) (take (cp_size c) (leaf_hashes st i))"
  using stored_checkpoint_commits log_invariant [OF assms(1)] assms(2) by blast

theorem checkpoints_commit_witness:
  "\<exists>c. c \<in> set (store_checkpoints ''l'' (lg_store demo_checkpointed)) \<and> cp_size c \<le> store_size ''l'' (lg_store demo_checkpointed)
     \<and> cp_root_hash c = tree_root demo_sha (take (cp_size c) (leaf_hashes (lg_store demo_checkpointed) ''l''))"
proof -
  obtain c where c: "c \<in> set (store_checkpoints ''l'' (lg_store demo_checkpointed))"
    using demo_checkpointed(1) by (cases "store_checkpoints ''l'' (lg_store demo_checkpointed)") auto
  then show ?thesis using checkpoints_commit [OF demo_checkpointed_reach c] by auto
qed

text \<open>the records of a reachable log form a chain: each record still held is the canonical text of a record with
  its own position, the log's id and the leaf hash of the record before it, and hashes to its leaf.\<close>

theorem records_chain:
  assumes "log_reach ll i ws st" and "n < store_size i st" and "en_record (ml_entries (log_of st i) ! n) = Some t"
  shows "\<exists>r. record_text ll r = Inr t \<and> leaf_hashes st i ! n = leaf_hash (ll_sha ll) (text_bytes t)
    \<and> ar_log_id r = i \<and> ar_seq r = n \<and> ar_prev_hash r = previous_leaf (leaf_hashes st i) n"
proof -
  have "entry_ok ll i (leaf_hashes st i) n (ml_entries (log_of st i) ! n)"
    using log_invariant [OF assms(1)] assms(2) by (simp add: log_ok_def)
  then show ?thesis using assms(2,3) by (auto simp: entry_ok_def leaf_hashes_def store_size_log)
qed

theorem records_chain_witness:
  "\<exists>r. record_text demo_log_lib r = Inr ''true''
     \<and> leaf_hashes (lg_store demo_appended) ''l'' ! 0 = leaf_hash (ll_sha demo_log_lib) (text_bytes ''true'')
     \<and> ar_log_id r = ''l'' \<and> ar_seq r = 0 \<and> ar_prev_hash r = previous_leaf (leaf_hashes (lg_store demo_appended) ''l'') 0"
  using records_chain [OF demo_appended_reach _ demo_record] demo_appended(1) by simp



lemma append_loop_seq:
  "append_loop ll i ts ds fr prev recs es ns = Inr (fr', prev', recs', es', ns') \<Longrightarrow> es = [] \<Longrightarrow> ds \<noteq> [] \<Longrightarrow>
    \<exists>e es''. es' = e # es'' \<and> en_seq e = fr_size fr"
proof -
  have grow: "append_loop ll i ts ds fr prev recs es ns = Inr (fr', prev', recs', es', ns') \<Longrightarrow> \<exists>more. es' = es @ more"
    for ds fr prev recs es ns
    by (induction ds arbitrary: fr prev recs es ns) (fastforce simp: Let_def split: option.splits)+
  assume loop: "append_loop ll i ts ds fr prev recs es ns = Inr (fr', prev', recs', es', ns')" and "es = []" "ds \<noteq> []"
  then obtain d ds' where "ds = d # ds'" by (cases ds) auto
  then show ?thesis using loop \<open>es = []\<close> by (auto simp: Let_def split: option.splits dest!: grow)
qed

text \<open>only the writer that has every record can append: one whose frontier is behind the store, a stale replica or
  a writer that outlived a reopening, is refused, and neither the store nor its own state changes.\<close>

theorem stale_writer_refused:
  assumes "fr_size (ws_frontier (lg_state g)) \<noteq> store_size (lw_log_id w) (lg_store g)" and "drafts \<noteq> []"
  shows "\<exists>e. append_locked ll w now drafts g = (Inl e, g)"
proof (cases "append_loop ll (lw_log_id w) now drafts (ws_frontier (lg_state g)) (ws_last_leaf (lg_state g)) [] [] []")
  case (Inr out)
  obtain fr prev recs es ns where out: "out = (fr, prev, recs, es, ns)" by (cases out)
  obtain e es' where es: "es = e # es'" "en_seq e = fr_size (ws_frontier (lg_state g))"
    using append_loop_seq [OF Inr [unfolded out]] assms(2) by blast
  then show ?thesis using Inr out assms by (simp add: append_locked_def store_append_def validate_append_def)
qed (use assms(2) in \<open>simp add: append_locked_def\<close>)

theorem stale_writer_refused_witness:
  "\<exists>e. append_locked demo_log_lib demo_writer 0 [audit_draft_new AkToolCall ''a''] (demo_world\<lparr>lg_store := lg_store demo_appended\<rparr>)
     = (Inl e, demo_world\<lparr>lg_store := lg_store demo_appended\<rparr>)"
  by (rule stale_writer_refused) (simp_all add: demo_writer_def demo_world_def demo_appended [unfolded demo_writer_def])

lemma append_loop_succeeds:
  assumes "\<And>r. \<exists>t. record_text ll r = Inr t"
  shows "length leaves + length ds < 2 ^ 64 \<Longrightarrow>
    \<exists>fr prev' recs' es' ns'. append_loop ll i ts ds (frontier_for (ll_sha ll) leaves) prev recs es ns = Inr (fr, prev', recs @ recs', es @ es', ns')
      \<and> map ar_seq recs' = [length leaves..<length leaves + length ds] \<and> map en_seq es' = [length leaves..<length leaves + length ds]
      \<and> list_all (\<lambda>e. en_record e \<noteq> None) es'"
proof (induction ds arbitrary: leaves prev recs es ns)
  case Nil
  then show ?case by simp
next
  case (Cons d ds)
  let ?r = "into_record d i (length leaves) ts prev"
  obtain t where t: "record_text ll ?r = Inr t" using assms by blast
  let ?leaf = "leaf_hash (ll_sha ll) (text_bytes t)"
  let ?e = "\<lparr>en_seq = length leaves, en_leaf_hash = ?leaf, en_record = Some t\<rparr>"
  have bound: "length leaves < 2 ^ 64 - 1" "length (leaves @ [?leaf]) + length ds < 2 ^ 64" using Cons.prems by simp_all
  from Cons.IH [OF bound(2), of "Some ?leaf" "recs @ [?r]" "es @ [?e]"
      "ns @ map (tree_node_of (ll_sha ll) (leaves @ [?leaf])) (completes 0 (length leaves))"]
  obtain fr prev' recs' es' ns' where
    rest: "append_loop ll i ts ds (frontier_for (ll_sha ll) (leaves @ [?leaf])) (Some ?leaf) (recs @ [?r]) (es @ [?e])
        (ns @ map (tree_node_of (ll_sha ll) (leaves @ [?leaf])) (completes 0 (length leaves)))
      = Inr (fr, prev', (recs @ [?r]) @ recs', (es @ [?e]) @ es', ns')"
    and seqs: "map ar_seq recs' = [Suc (length leaves)..<Suc (length leaves) + length ds]"
      "map en_seq es' = [Suc (length leaves)..<Suc (length leaves) + length ds]" "list_all (\<lambda>e. en_record e \<noteq> None) es'"
    by auto
  have "append_loop ll i ts (d # ds) (frontier_for (ll_sha ll) leaves) prev recs es ns
    = Inr (fr, prev', recs @ (?r # recs'), es @ (?e # es'), ns')"
    using rest t frontier_push_correct [OF bound(1), of "ll_sha ll" ?leaf] by (simp add: Let_def)
  then show ?case using seqs upt_rec [of "length leaves" "length leaves + length (d # ds)"]
    by (intro exI [of _ fr] exI [of _ prev'] exI [of _ "?r # recs'"] exI [of _ "?e # es'"] exI [of _ ns']) simp
qed

lemma entries_fault_None:
  "\<lbrakk>map en_seq es = [n..<n + length es]; list_all (\<lambda>e. en_record e \<noteq> None) es\<rbrakk> \<Longrightarrow> entries_fault n es = None"
proof (induction es arbitrary: n)
  case (Cons e es)
  have "[n..<n + length (e # es)] = n # [Suc n..<Suc n + length es]" by (subst upt_rec) simp
  then show ?case using Cons by auto
qed simp

lemma new_nodes_covered:
  assumes "m < 2 ^ 64"
  shows "list_all (node_covered n m) (map (tree_node_of sha leaves) (new_nodes n m))"
proof -
  have "node_covered n m (tree_node_of sha leaves (l, k))" if lk: "(l, k) \<in> set (new_nodes n m)" for l k
  proof -
    have b: "1 \<le> l" "n < (k + 1) * 2 ^ l" "(k + 1) * 2 ^ l \<le> m" using lk by (simp_all add: new_nodes_set)
    have "(2 :: nat) ^ l \<le> (k + 1) * 2 ^ l" "k + 1 \<le> (k + 1) * (2 :: nat) ^ l"
      using mult_le_mono2 [of 1 "2 ^ l" "k + 1"] by simp_all
    then have small: "(2 :: nat) ^ l < 2 ^ 64" "k + 1 < 2 ^ 64" "(k + 1) * 2 ^ l < 2 ^ 64" using b(3) assms by linarith+
    then have "l < 64" using power_less_imp_less_exp [of "2 :: nat" l 64] by simp
    then show ?thesis using b small by (simp add: node_covered_def node_end_def tree_node_of_def)
  qed
  then show ?thesis by (auto simp: list_all_iff)
qed

text \<open>a writer that has every record always can append: whatever batch it is given, the frontier never runs out of
  hashes, the store's checks of the batch and its nodes all pass, and the records take the next positions.\<close>

theorem current_writer_appends:
  assumes "log_reach ll i ws st" and "(w, s) \<in> ws" and "fr_size (ws_frontier s) = store_size i st"
    and "store_size i st + length drafts < 2 ^ 64" and "\<And>r. \<exists>t. record_text ll r = Inr t"
  shows "\<exists>recs g. append_locked ll w now drafts \<lparr>lg_state = s, lg_store = st, lg_anchored = out\<rparr> = (Inr recs, g)
    \<and> map ar_seq recs = [store_size i st..<store_size i st + length drafts]
    \<and> store_size i (lg_store g) = store_size i st + length drafts"
proof (cases "drafts = []")
  case True
  then show ?thesis by (simp add: append_locked_def)
next
  case False
  note wr = reach_writer [OF assms(1,2)]
  let ?leaves = "leaf_hashes st i" and ?n = "store_size i st"
  have s: "ws_frontier s = frontier_for (ll_sha ll) ?leaves" "ws_last_leaf s = previous_leaf ?leaves (length ?leaves)"
    using wr(5,6) assms(3) by simp_all
  have bound: "length ?leaves + length drafts < 2 ^ 64" using assms(4) by simp
  obtain fr prev recs es ns where
    loop: "append_loop ll i now drafts (frontier_for (ll_sha ll) ?leaves) (previous_leaf ?leaves (length ?leaves)) [] [] []
        = Inr (fr, prev, recs, es, ns)"
    and seqs: "map ar_seq recs = [?n..<?n + length drafts]" "map en_seq es = [?n..<?n + length drafts]"
      "list_all (\<lambda>e. en_record e \<noteq> None) es"
    using append_loop_succeeds [OF assms(5) bound, of i now "previous_leaf ?leaves (length ?leaves)" "[]" "[]" "[]"] by auto
  have len: "length es = length drafts" using arg_cong [OF seqs(2), of length] by simp
  have ns: "\<exists>all. ns = map (tree_node_of (ll_sha ll) all) (new_nodes ?n (?n + length es))"
    using append_loop_ok [OF loop refl bound] len by (auto simp: Let_def)
  have cov: "list_all (node_covered ?n (?n + length es)) ns"
    using ns new_nodes_covered [of "?n + length es" ?n "ll_sha ll"] assms(4) len by auto
  have "entries_fault ?n es = None" using entries_fault_None seqs(2,3) len by simp
  moreover obtain e es' where "es = e # es'" using len False by (cases es) auto
  moreover then have "en_seq e = ?n" using arg_cong [OF seqs(2), of hd] len False by simp
  ultimately have "validate_append \<lparr>ap_log_id = i, ap_entries = es, ap_nodes = ns\<rparr> ?n = Inr (?n, ?n + length es)"
    using cov by (simp add: validate_append_def)
  then have "store_append \<lparr>ap_log_id = i, ap_entries = es, ap_nodes = ns\<rparr> st = (Inr (?n, ?n + length es),
      snd (store_append \<lparr>ap_log_id = i, ap_entries = es, ap_nodes = ns\<rparr> st))" by (simp add: store_append_def Let_def)
  moreover then have "store_size i (snd (store_append \<lparr>ap_log_id = i, ap_entries = es, ap_nodes = ns\<rparr> st)) = ?n + length drafts"
    using store_append_eq len by (simp add: store_size_log)
  ultimately show ?thesis using loop s wr(2) seqs(1) False by (auto simp: append_locked_def split: prod.splits)
qed

theorem current_writer_appends_witness:
  "\<exists>recs g. append_locked demo_log_lib demo_writer 0 [audit_draft_new AkToolCall ''b''] (demo_appended\<lparr>lg_anchored := []\<rparr>) = (Inr recs, g)
     \<and> map ar_seq recs = [1..<2] \<and> store_size ''l'' (lg_store g) = 2"
  using current_writer_appends [OF demo_appended_reach, of demo_writer "lg_state demo_appended" "[audit_draft_new AkToolCall ''b'']" 0 "[]"]
    demo_appended demo_text
  by (simp add: world_eq upt_rec flip: numeral_2_eq_2)

end
