(* ===== verification/Audit_Verify_Props.thy ===== *)
theory Audit_Verify_Props
  imports Audit_Verify Signed_Note_Props Audit_Log_Props
begin

text \<open>
  What a valid report of the offline verifier means: every entry is in place, canonical and linked, every
  checkpoint is signed by a key the trusted keys vouch for and commits to the entries, and no export that
  verifies against a genuine root can hold other records. It also accepts what an honest log wrote.
\<close>

section \<open>Failures only add up\<close>

lemma report_fail_sel [simp]:
  "vr_failures (report_fail k q n msg r) \<noteq> []" "vr_log_id (report_fail k q n msg r) = vr_log_id r"
  "vr_verified_root (report_fail k q n msg r) = vr_verified_root r" "vr_verified_size (report_fail k q n msg r) = vr_verified_size r"
  "vr_checkpoints_verified (report_fail k q n msg r) = vr_checkpoints_verified r"
  by (simp_all add: report_fail_def)

lemma fail_if_sel [simp]:
  "vr_failures (fail_if b k q n msg r) = [] \<longleftrightarrow> \<not> b \<and> vr_failures r = []" "vr_log_id (fail_if b k q n msg r) = vr_log_id r"
  "vr_verified_root (fail_if b k q n msg r) = vr_verified_root r" "vr_verified_size (fail_if b k q n msg r) = vr_verified_size r"
  "vr_checkpoints_verified (fail_if b k q n msg r) = vr_checkpoints_verified r"
  by (simp_all add: fail_if_def)

section \<open>Entries\<close>

text \<open>What an accepted entry is: in its place, its text canonical and hashing to its leaf, its record linked.\<close>

definition entry_verified :: "'f verify_lib \<Rightarrow> string option \<Rightarrow> audit_hash option \<Rightarrow> nat \<Rightarrow> audit_entry \<Rightarrow> bool" where
  "entry_verified vl lid prev pos e \<longleftrightarrow> en_seq e = pos \<and>
     (\<forall>t. en_record e = Some t \<longrightarrow> leaf_hash (vl_sha vl) (text_bytes t) = en_leaf_hash e \<and>
        (\<exists>v r. vl_from_str vl t = Inr v \<and> canonicalize (vl_jcs vl) v = Inr t \<and> vl_from_value vl v = Inr r
           \<and> ar_v r = audit_record_version \<and> ar_seq r = pos \<and> ar_prev_hash r = prev \<and> lid = Some (ar_log_id r)))"

fun chain_verified :: "'f verify_lib \<Rightarrow> string option \<Rightarrow> audit_hash option \<Rightarrow> nat \<Rightarrow> audit_entry list \<Rightarrow> bool" where
  "chain_verified vl lid prev pos [] = True"
| "chain_verified vl lid prev pos (e # es) =
     (entry_verified vl lid prev pos e \<and> chain_verified vl lid (Some (en_leaf_hash e)) (pos + 1) es)"

lemma check_record_ok:
  "vr_failures (check_record pos prev r rep) = [] \<longleftrightarrow>
     vr_failures rep = [] \<and> ar_v r = audit_record_version \<and> ar_seq r = pos \<and> ar_prev_hash r = prev
     \<and> (vr_log_id rep = None \<or> vr_log_id rep = Some (ar_log_id r))"
  "vr_log_id (check_record pos prev r rep) = (case vr_log_id rep of None \<Rightarrow> Some (ar_log_id r) | Some i \<Rightarrow> Some i)"
  by (auto simp: check_record_def Let_def split: option.splits)

text \<open>One entry without a failure, and what it leaves.\<close>

lemma verify_entry_ok:
  assumes "vr_failures (es_report (verify_entry vl pos e s)) = []"
  shows "vr_failures (es_report s) = []"
    and "es_leaves (verify_entry vl pos e s) = es_leaves s @ [en_leaf_hash e]"
    and "es_previous_leaf (verify_entry vl pos e s) = Some (en_leaf_hash e)"
    and "vr_log_id (es_report s) = Some i \<Longrightarrow> vr_log_id (es_report (verify_entry vl pos e s)) = Some i"
    and "entry_verified vl (vr_log_id (es_report (verify_entry vl pos e s))) (es_previous_leaf s) pos e"
  using assms
  by (auto simp: verify_entry_def verify_text_def entry_verified_def check_record_ok Let_def split: option.splits sum.splits)

lemma verify_entries_failures: "vr_failures (es_report (verify_entries vl pos es s)) = [] \<Longrightarrow> vr_failures (es_report s) = []"
  by (induction es arbitrary: pos s) (auto dest: verify_entry_ok(1))

lemma verify_entries_log_id:
  "\<lbrakk>vr_failures (es_report (verify_entries vl pos es s)) = []; vr_log_id (es_report s) = Some i\<rbrakk> \<Longrightarrow>
    vr_log_id (es_report (verify_entries vl pos es s)) = Some i"
  by (induction es arbitrary: pos s) (auto dest: verify_entries_failures verify_entry_ok(4))

lemma entry_verified_mono: "entry_verified vl lid prev pos e \<Longrightarrow> (\<And>i. lid = Some i \<Longrightarrow> lid' = Some i) \<Longrightarrow> entry_verified vl lid' prev pos e"
  by (auto simp: entry_verified_def)

lemma verify_entries_ok:
  "vr_failures (es_report (verify_entries vl pos es s)) = [] \<Longrightarrow>
    es_leaves (verify_entries vl pos es s) = es_leaves s @ map en_leaf_hash es
    \<and> chain_verified vl (vr_log_id (es_report (verify_entries vl pos es s))) (es_previous_leaf s) pos es"
proof (induction es arbitrary: pos s)
  case (Cons e es)
  let ?s = "verify_entry vl pos e s"
  have "vr_failures (es_report ?s) = []" using verify_entries_failures Cons.prems by simp
  note e = verify_entry_ok [OF this]
  have "entry_verified vl (vr_log_id (es_report (verify_entries vl (pos + 1) es ?s))) (es_previous_leaf s) pos e"
    using verify_entries_log_id [of vl "pos + 1" es ?s] Cons.prems by (intro entry_verified_mono [OF e(5)]) simp
  then show ?case using Cons.IH [of "pos + 1" ?s] Cons.prems e(2,3) by simp
qed simp

lemma verify_entries_frame:
  "vr_verified_root (es_report (verify_entries vl pos es s)) = vr_verified_root (es_report s)
   \<and> vr_verified_size (es_report (verify_entries vl pos es s)) = vr_verified_size (es_report s)
   \<and> vr_checkpoints_verified (es_report (verify_entries vl pos es s)) = vr_checkpoints_verified (es_report s)"
proof (induction es arbitrary: pos s)
  case (Cons e es)
  have "vr_verified_root (es_report (verify_entry vl pos e s)) = vr_verified_root (es_report s)
    \<and> vr_verified_size (es_report (verify_entry vl pos e s)) = vr_verified_size (es_report s)
    \<and> vr_checkpoints_verified (es_report (verify_entry vl pos e s)) = vr_checkpoints_verified (es_report s)"
    by (simp add: verify_entry_def verify_text_def check_record_def Let_def split: option.split sum.split)
  then show ?case using Cons by simp
qed simp

definition leaf_matches :: "sha256 \<Rightarrow> audit_entry \<Rightarrow> bool" where
  "leaf_matches sha e \<longleftrightarrow> (case en_record e of Some t \<Rightarrow> en_leaf_hash e = leaf_hash sha (text_bytes t) | None \<Rightarrow> True)"

lemma chain_verified_leaf: "chain_verified vl lid prev pos es \<Longrightarrow> j < length es \<Longrightarrow> leaf_matches (vl_sha vl) (es ! j)"
proof (induction es arbitrary: prev pos j)
  case (Cons e es)
  then show ?case
  proof (cases j)
    case 0
    then show ?thesis using Cons.prems by (auto simp: entry_verified_def leaf_matches_def split: option.split)
  next
    case (Suc i)
    then show ?thesis using Cons.IH [of _ _ i] Cons.prems by auto
  qed
qed simp

text \<open>The inputs that computing the root over the first \<open>n\<close> entries and the leaves of their records hashes.\<close>

definition export_inputs :: "sha256 \<Rightarrow> nat \<Rightarrow> audit_entry list \<Rightarrow> byte list set" where
  "export_inputs sha n es =
     tree_inputs sha (take n (map en_leaf_hash es)) \<union> {0 # text_bytes t | t. \<exists>j < n. j < length es \<and> en_record (es ! j) = Some t}"

lemma unat_of_char: "unat (of_char c :: byte) = of_char c"
proof -
  have "(of_char c :: byte) = word_of_nat (of_char c)" by (rule of_nat_of_char [symmetric])
  moreover have "(of_char c :: nat) < 256" by (rule nat_of_char_less_256)
  ultimately show ?thesis by (simp only: unat_of_nat) simp
qed

lemma text_bytes_inject: "text_bytes s = text_bytes t \<longleftrightarrow> s = t"
proof
  have "inj (of_char :: char \<Rightarrow> byte)" by (metis injI of_char_eq_iff unat_of_char)
  then show "text_bytes s = text_bytes t \<Longrightarrow> s = t" by (simp add: text_bytes_def inj_map_eq_map)
qed simp

section \<open>Checkpoints\<close>

abbreviation signed_by :: "note_lib \<Rightarrow> signed_note \<Rightarrow> note_verifier \<Rightarrow> bool" where
  "signed_by nl nt v \<equiv> verified_by nl nt [v] \<noteq> []"

lemma verified_by_filter: "verified_by nl nt vs = filter (signed_by nl nt) vs"
  by (simp add: verified_by_def)

text \<open>The keys a verifier comes to trust: those it was given, and those a trusted key introduced by signing with them.\<close>

inductive trusted_key :: "'f verify_lib \<Rightarrow> audit_checkpoint list \<Rightarrow> note_verifier list \<Rightarrow> note_verifier \<Rightarrow> bool"
  for vl :: "'f verify_lib" and cps :: "audit_checkpoint list" and given :: "note_verifier list" where
  trusted_given: "v \<in> set given \<Longrightarrow> trusted_key vl cps given v"
| trusted_next: "\<lbrakk>trusted_key vl cps given v; c \<in> set cps; note_parse (vl_note vl) (cp_note c) = Inr nt;
    signed_by (vl_note vl) nt v; signed_by (vl_note vl) nt v'\<rbrakk> \<Longrightarrow> trusted_key vl cps given v'"

definition checkpoint_verified :: "'f verify_lib \<Rightarrow> audit_hash list \<Rightarrow> (note_verifier \<Rightarrow> bool) \<Rightarrow> audit_checkpoint \<Rightarrow> bool" where
  "checkpoint_verified vl leaves trusts c \<longleftrightarrow> cp_size c \<le> length leaves \<and> cp_root_hash c = tree_root (vl_sha vl) (take (cp_size c) leaves)
     \<and> (\<exists>nt b v. note_parse (vl_note vl) (cp_note c) = Inr nt \<and> body_parse (vl_note vl) (nt_text nt) = Inr b
          \<and> cb_size b = cp_size c \<and> cb_root_hash b = cp_root_hash c \<and> trusts v \<and> signed_by (vl_note vl) nt v)"

lemma apply_rotation_failures: "vr_failures (cs_report (apply_rotation vl nt n active r s)) = [] \<Longrightarrow> vr_failures (cs_report s) = []"
  by (auto simp: apply_rotation_def split: option.splits if_splits)

lemma apply_rotation_report [simp]:
  "vr_verified_root (cs_report (apply_rotation vl nt n active r s)) = vr_verified_root (cs_report s)"
  "vr_verified_size (cs_report (apply_rotation vl nt n active r s)) = vr_verified_size (cs_report s)"
  "vr_checkpoints_verified (cs_report (apply_rotation vl nt n active r s)) = vr_checkpoints_verified (cs_report s)"
  by (auto simp: apply_rotation_def split: option.split)

lemma apply_rotation_trusts:
  assumes "v \<in> set (cs_trusted (apply_rotation vl nt n active r s))"
  shows "v \<in> set (cs_trusted s) \<or> (\<exists>prev \<in> set active. signed_by (vl_note vl) nt prev \<and> signed_by (vl_note vl) nt v)"
  using assms
  by (auto simp: apply_rotation_def verified_by_filter [of _ _ "[_, _]"] split: option.splits if_splits)

lemma apply_rotations_failures:
  "vr_failures (cs_report (apply_rotations vl nt n active rs s)) = [] \<Longrightarrow> vr_failures (cs_report s) = []"
  by (induction rs arbitrary: s) (auto dest: apply_rotation_failures split: if_splits)

lemma apply_rotations_report [simp]:
  "vr_verified_root (cs_report (apply_rotations vl nt n active rs s)) = vr_verified_root (cs_report s)"
  "vr_verified_size (cs_report (apply_rotations vl nt n active rs s)) = vr_verified_size (cs_report s)"
  "vr_checkpoints_verified (cs_report (apply_rotations vl nt n active rs s)) = vr_checkpoints_verified (cs_report s)"
  by (induction rs arbitrary: s) auto

lemma apply_rotations_trusts:
  "v \<in> set (cs_trusted (apply_rotations vl nt n active rs s)) \<Longrightarrow>
    v \<in> set (cs_trusted s) \<or> (\<exists>prev \<in> set active. signed_by (vl_note vl) nt prev \<and> signed_by (vl_note vl) nt v)"
  by (induction rs arbitrary: s) (auto dest!: apply_rotation_trusts split: if_splits)

lemma check_tree_failures: "vr_failures (check_tree vl leaves b rep) = [] \<Longrightarrow> vr_failures rep = []"
  by (auto simp: check_tree_def Let_def split: if_splits)

lemma verify_signed_failures: "vr_failures (cs_report (verify_signed vl leaves nt b s)) = [] \<Longrightarrow> vr_failures (cs_report s) = []"
  by (auto simp: verify_signed_def Let_def split: if_splits dest!: check_tree_failures apply_rotations_failures)

lemma verify_checkpoint_failures: "vr_failures (cs_report (verify_checkpoint vl leaves c s)) = [] \<Longrightarrow> vr_failures (cs_report s) = []"
  by (auto simp: verify_checkpoint_def Let_def split: sum.splits if_splits option.splits dest!: verify_signed_failures)

lemma verify_checkpoints_failures: "vr_failures (cs_report (verify_checkpoints vl leaves cs s)) = [] \<Longrightarrow> vr_failures (cs_report s) = []"
  by (induction cs arbitrary: s) (auto dest: verify_checkpoint_failures)

text \<open>One checkpoint without a failure.\<close>

definition scan_ok :: "'f verify_lib \<Rightarrow> audit_checkpoint list \<Rightarrow> note_verifier list \<Rightarrow> audit_hash list \<Rightarrow> checkpoint_scan \<Rightarrow> bool" where
  "scan_ok vl cps given leaves s \<longleftrightarrow> (\<forall>v \<in> set (cs_trusted s). trusted_key vl cps given v)
     \<and> vr_verified_size (cs_report s) \<le> length leaves
     \<and> (\<forall>root. vr_verified_root (cs_report s) = Some root \<longrightarrow> root = tree_root (vl_sha vl) (take (vr_verified_size (cs_report s)) leaves))"

lemma check_tree_ok:
  assumes "vr_failures (check_tree vl leaves b rep) = []"
  shows "vr_failures rep = []" "cb_size b \<le> length leaves" "cb_root_hash b = tree_root (vl_sha vl) (take (cb_size b) leaves)"
    "vr_checkpoints_verified (check_tree vl leaves b rep) = vr_checkpoints_verified rep + 1"
    "vr_verified_size (check_tree vl leaves b rep) = max (cb_size b) (vr_verified_size rep)"
    "vr_verified_root (check_tree vl leaves b rep) = (if vr_verified_size rep \<le> cb_size b then Some (cb_root_hash b) else vr_verified_root rep)"
  using assms by (auto simp: check_tree_def Let_def max_def split: if_splits)

lemma verify_signed_ok:
  assumes "vr_failures (cs_report (verify_signed vl leaves nt b s)) = []" and "scan_ok vl cps given leaves s"
    and "c \<in> set cps" and "note_parse (vl_note vl) (cp_note c) = Inr nt"
  shows "vr_failures (cs_report s) = []" and "scan_ok vl cps given leaves (verify_signed vl leaves nt b s)"
    and "cb_size b \<le> length leaves" and "cb_root_hash b = tree_root (vl_sha vl) (take (cb_size b) leaves)"
    and "\<exists>v. trusted_key vl cps given v \<and> signed_by (vl_note vl) nt v"
    and "vr_checkpoints_verified (cs_report (verify_signed vl leaves nt b s)) = vr_checkpoints_verified (cs_report s) + 1"
proof -
  define active where "active = filter (\<lambda>v. v \<notin> set (cs_retired s)) (cs_trusted s)"
  define s1 where "s1 = s\<lparr>cs_roots := AList.update (cb_size b) (cb_root_hash b) (cs_roots s),
    cs_report := fail_if (case lookup (cs_roots s) (cb_size b) of Some r \<Rightarrow> r \<noteq> cb_root_hash b | None \<Rightarrow> False) VfFork None (Some (cb_size b))
      ''two signed checkpoints of this size disagree'' (cs_report s)\<rparr>"
  define s2 where "s2 = apply_rotations vl nt (cb_size b) active (cs_rotations s1) s1"
  have eq: "verify_signed vl leaves nt b s = s2\<lparr>cs_report := check_tree vl leaves b (cs_report s2)\<rparr>"
    and signed: "verified_by (vl_note vl) nt active \<noteq> []"
    using assms(1) by (auto simp: verify_signed_def Let_def s1_def s2_def active_def split: if_splits)
  have tree: "vr_failures (check_tree vl leaves b (cs_report s2)) = []" using assms(1) eq by simp
  note tree = check_tree_ok [OF this]
  have "vr_failures (cs_report s1) = []" using tree(1) apply_rotations_failures unfolding s2_def by blast
  then show "vr_failures (cs_report s) = []" by (simp add: s1_def)
  obtain v where v: "v \<in> set active" "signed_by (vl_note vl) nt v"
    using signed by (auto simp: verified_by_filter [of _ _ active] filter_empty_conv)
  have trusted: "trusted_key vl cps given v" if "v \<in> set active" for v
    using that assms(2) by (simp add: active_def scan_ok_def)
  then show "\<exists>v. trusted_key vl cps given v \<and> signed_by (vl_note vl) nt v" using v by blast
  have "trusted_key vl cps given v" if "v \<in> set (cs_trusted s2)" for v
    using apply_rotations_trusts [OF that [unfolded s2_def]] trusted_next [OF trusted _ assms(4)] assms(2,3)
    by (auto simp: s1_def scan_ok_def)
  then show "scan_ok vl cps given leaves (verify_signed vl leaves nt b s)"
    using tree assms(2) by (auto simp: scan_ok_def eq s2_def s1_def max_def)
  show "cb_size b \<le> length leaves" "cb_root_hash b = tree_root (vl_sha vl) (take (cb_size b) leaves)" using tree by simp_all
  show "vr_checkpoints_verified (cs_report (verify_signed vl leaves nt b s)) = vr_checkpoints_verified (cs_report s) + 1"
    using tree by (simp add: eq s2_def s1_def)
qed

lemma verify_checkpoint_ok:
  assumes "vr_failures (cs_report (verify_checkpoint vl leaves c s)) = []" and "scan_ok vl cps given leaves s" and "c \<in> set cps"
  shows "vr_failures (cs_report s) = [] \<and> scan_ok vl cps given leaves (verify_checkpoint vl leaves c s)
    \<and> checkpoint_verified vl leaves (trusted_key vl cps given) c
    \<and> vr_checkpoints_verified (cs_report (verify_checkpoint vl leaves c s)) = vr_checkpoints_verified (cs_report s) + 1"
proof -
  from assms(1) obtain nt b where parsed: "note_parse (vl_note vl) (cp_note c) = Inr nt" and body: "body_parse (vl_note vl) (nt_text nt) = Inr b"
    and b: "cb_size b = cp_size c" "cb_root_hash b = cp_root_hash c"
    by (auto simp: verify_checkpoint_def Let_def split: sum.splits if_splits)
  define s' where "s' = (case vr_origin (cs_report s) of
    None \<Rightarrow> s\<lparr>cs_report := (cs_report s)\<lparr>vr_origin := Some (cb_origin b)\<rparr>\<rparr> | Some orig \<Rightarrow> s)"
  have eq: "verify_checkpoint vl leaves c s = verify_signed vl leaves nt b s'"
    using assms(1) parsed body b by (auto simp: verify_checkpoint_def Let_def s'_def split: option.splits if_splits)
  have "scan_ok vl cps given leaves s'" using assms(2) by (simp add: s'_def scan_ok_def split: option.split)
  note ok = verify_signed_ok [OF assms(1) [unfolded eq] this assms(3) parsed]
  have "checkpoint_verified vl leaves (trusted_key vl cps given) c"
    using ok(3-5) parsed body b by (auto simp: checkpoint_verified_def)
  then show ?thesis using ok eq by (simp add: s'_def split: option.splits)
qed

lemma verify_checkpoints_ok:
  "\<lbrakk>vr_failures (cs_report (verify_checkpoints vl leaves cs s)) = []; scan_ok vl cps given leaves s; set cs \<subseteq> set cps\<rbrakk> \<Longrightarrow>
    vr_failures (cs_report s) = [] \<and> scan_ok vl cps given leaves (verify_checkpoints vl leaves cs s)
    \<and> list_all (checkpoint_verified vl leaves (trusted_key vl cps given)) cs
    \<and> vr_checkpoints_verified (cs_report (verify_checkpoints vl leaves cs s)) = vr_checkpoints_verified (cs_report s) + length cs"
proof (induction cs arbitrary: s)
  case (Cons c cs)
  let ?s = "verify_checkpoint vl leaves c s"
  have "vr_failures (cs_report ?s) = []" using verify_checkpoints_failures Cons.prems(1) by simp
  then have c: "vr_failures (cs_report s) = [] \<and> scan_ok vl cps given leaves ?s \<and> checkpoint_verified vl leaves (trusted_key vl cps given) c
    \<and> vr_checkpoints_verified (cs_report ?s) = vr_checkpoints_verified (cs_report s) + 1"
    using verify_checkpoint_ok [of vl leaves c s cps given] Cons.prems(2,3) by simp
  then show ?case using Cons.IH [of ?s] Cons.prems(1,3) by simp
qed simp
section \<open>A valid report\<close>

lemma verify_log_ok:
  assumes "report_is_valid (verify_log vl es cps given)"
  shows "chain_verified vl (vr_log_id (es_report (entries_scan vl es))) None 0 es
    \<and> list_all (checkpoint_verified vl (map en_leaf_hash es) (trusted_key vl cps given)) cps
    \<and> (\<forall>root. vr_verified_root (verify_log vl es cps given) = Some root \<longrightarrow>
         root = tree_root (vl_sha vl) (take (vr_verified_size (verify_log vl es cps given)) (map en_leaf_hash es)))
    \<and> (es = [] \<or> cps \<noteq> [])"
proof -
  define sc where "sc = entries_scan vl es"
  define s0 where "s0 = \<lparr>cs_report = es_report sc, cs_trusted = given, cs_retired = [], cs_roots = [], cs_rotations = es_rotations sc\<rparr>"
  define s1 where "s1 = verify_checkpoints vl (es_leaves sc) (sort_key cp_size cps) s0"
  have f1: "vr_failures (cs_report s1) = []" and anchored: "es = [] \<or> vr_checkpoints_verified (cs_report s1) \<noteq> 0"
    and root: "vr_verified_root (verify_log vl es cps given) = vr_verified_root (cs_report s1)"
      "vr_verified_size (verify_log vl es cps given) = vr_verified_size (cs_report s1)"
    using assms by (auto simp: report_is_valid_def verify_log_def Let_def s1_def s0_def sc_def)
  have f0: "vr_failures (es_report sc) = []" using verify_checkpoints_failures f1 by (fastforce simp: s1_def s0_def)
  then have es: "es_leaves sc = map en_leaf_hash es" "chain_verified vl (vr_log_id (es_report sc)) None 0 es"
    using verify_entries_ok [OF f0 [unfolded sc_def entries_scan_def]] by (simp_all add: sc_def entries_scan_def)
  have frame: "vr_verified_root (es_report sc) = None \<and> vr_verified_size (es_report sc) = 0 \<and> vr_checkpoints_verified (es_report sc) = 0"
    using verify_entries_frame [of vl 0 es] by (simp add: sc_def entries_scan_def verify_report_default_def)
  then have "scan_ok vl cps given (es_leaves sc) s0" by (simp add: s0_def scan_ok_def trusted_given)
  note ok = verify_checkpoints_ok [OF f1 [unfolded s1_def] this, folded s1_def]
  show ?thesis using ok anchored es root frame by (auto simp: scan_ok_def sc_def [symmetric] s0_def list_all_iff)
qed

lemma verified_checkpoint:
  "report_is_valid (verify_log vl es cps given) \<Longrightarrow> c \<in> set cps \<Longrightarrow>
    checkpoint_verified vl (map en_leaf_hash es) (trusted_key vl cps given) c"
  using verify_log_ok [of vl es cps given] by (auto simp: list_all_iff)

lemma verified_leaf: "report_is_valid (verify_log vl es cps given) \<Longrightarrow> j < length es \<Longrightarrow> leaf_matches (vl_sha vl) (es ! j)"
  using verify_log_ok [of vl es cps given] chain_verified_leaf by blast

section \<open>The properties\<close>

text \<open>C29: a valid report means what it promises: the entries run from position 0, each record still held is the
  canonical text of a record of one log, hashes to its leaf and names the leaf before it, and every
  checkpoint carries a signature of a key trusted from the given ones, covers no more than the entries
  and has the root over them; the verified root is the root over the verified entries, and records
  without any checkpoint are never valid.\<close>

theorem verify_sound:
  assumes "report_is_valid (verify_log vl es cps given)"
  shows "chain_verified vl (vr_log_id (es_report (entries_scan vl es))) None 0 es
    \<and> list_all (checkpoint_verified vl (map en_leaf_hash es) (trusted_key vl cps given)) cps
    \<and> (\<forall>root. vr_verified_root (verify_log vl es cps given) = Some root \<longrightarrow>
         root = tree_root (vl_sha vl) (take (vr_verified_size (verify_log vl es cps given)) (map en_leaf_hash es)))
    \<and> (es = [] \<or> cps \<noteq> [])"
  using verify_log_ok [OF assms] .

text \<open>C28: no tampering survives verification: when an export verifies and holds a checkpoint whose root is the root
  over a genuine log's first leaves, the export's first leaves are the genuine ones and every record both
  still hold is the same text, unless SHA-256 collides on the inputs the two trees and their records hash.\<close>

theorem tampering_detected:
  assumes "report_is_valid (verify_log vl es cps given)" and "c \<in> set cps"
    and "cp_root_hash c = tree_root (vl_sha vl) (take (cp_size c) (map en_leaf_hash gs))" and "cp_size c \<le> length gs"
    and "list_all (leaf_matches (vl_sha vl)) gs"
    and "inj_on (vl_sha vl) (export_inputs (vl_sha vl) (cp_size c) es \<union> export_inputs (vl_sha vl) (cp_size c) gs)"
    and "cp_size c \<le> 2 ^ 64"
  shows "take (cp_size c) (map en_leaf_hash es) = take (cp_size c) (map en_leaf_hash gs)
    \<and> (\<forall>j < cp_size c. en_record (es ! j) = None \<or> en_record (gs ! j) = None \<or> en_record (es ! j) = en_record (gs ! j))"
proof -
  let ?n = "cp_size c" and ?sha = "vl_sha vl"
  have cp: "?n \<le> length es" "cp_root_hash c = tree_root ?sha (take ?n (map en_leaf_hash es))"
    using verified_checkpoint [OF assms(1,2)] by (auto simp: checkpoint_verified_def)
  have same: "take ?n (map en_leaf_hash es) = take ?n (map en_leaf_hash gs)"
  proof (rule mth_inject [OF assms(6)])
    show "mth ?sha (take ?n (map en_leaf_hash es)) = mth ?sha (take ?n (map en_leaf_hash gs))"
      using cp(2) assms(3) by (simp add: tree_root_mth)
  qed (use cp(1) assms(4,7) in \<open>auto simp: export_inputs_def\<close>)
  have "en_record (es ! j) = en_record (gs ! j)" if j: "j < ?n" and t: "en_record (es ! j) = Some t" "en_record (gs ! j) = Some t'" for j t t'
  proof -
    have "en_leaf_hash (es ! j) = en_leaf_hash (gs ! j)"
      using arg_cong [OF same, of "\<lambda>xs. xs ! j"] j cp(1) assms(4) by simp
    moreover have "leaf_matches ?sha (es ! j)" using verified_leaf [OF assms(1)] j cp(1) by simp
    moreover have "leaf_matches ?sha (gs ! j)" using assms(4,5) j by (simp add: list_all_length)
    ultimately have eq: "?sha (0 # text_bytes t) = ?sha (0 # text_bytes t')" using t by (simp add: leaf_matches_def leaf_hash_def)
    have "0 # text_bytes t \<in> export_inputs ?sha ?n es" "0 # text_bytes t' \<in> export_inputs ?sha ?n gs"
      using t j cp(1) assms(4) by (auto simp: export_inputs_def)
    then have "0 # text_bytes t = 0 # text_bytes t'" using inj_onD [OF assms(6) eq] by simp
    then show ?thesis using t by (simp add: text_bytes_inject)
  qed
  then show ?thesis using same by (metis not_None_eq)
qed

section \<open>An honest log verifies\<close>

text \<open>Reading a record's text gives the record back, what \<^verbatim>\<open>serde_json\<close> documents of the types it derives.\<close>

definition reads_back :: "'f log_lib \<Rightarrow> 'f verify_lib \<Rightarrow> bool" where
  "reads_back ll vl \<longleftrightarrow> vl_sha vl = ll_sha ll \<and> vl_note vl = ll_note ll \<and> vl_jcs vl = ll_jcs ll
     \<and> (\<forall>r t. record_text ll r = Inr t \<longrightarrow>
          (\<exists>v. vl_from_str vl t = Inr v \<and> canonicalize (vl_jcs vl) v = Inr t \<and> vl_from_value vl v = Inr r))"

definition unrotated :: "'f log_lib \<Rightarrow> audit_entry \<Rightarrow> bool" where
  "unrotated ll e \<longleftrightarrow> (\<forall>t r. en_record e = Some t \<longrightarrow> record_text ll r = Inr t \<longrightarrow> ar_kind r \<noteq> AkKeyRotated)"

text \<open>A scan of entries with no failure, of log \<open>i\<close>, with no rotation.\<close>

definition clean_scan :: "string \<Rightarrow> entry_scan \<Rightarrow> bool" where
  "clean_scan i s \<longleftrightarrow> vr_failures (es_report s) = [] \<and> vr_log_id (es_report s) \<in> {None, Some i} \<and> vr_origin (es_report s) = None
     \<and> es_rotations s = []"

lemma verify_entry_accepts:
  assumes "reads_back ll vl" and "entry_ok ll i leaves pos e" and "en_leaf_hash e = leaves ! pos" and "unrotated ll e"
    and "clean_scan i s" and "es_previous_leaf s = previous_leaf leaves pos"
  shows "clean_scan i (verify_entry vl pos e s)"
proof (cases "en_record e")
  case None
  then show ?thesis using assms(2,5) by (simp add: verify_entry_def entry_ok_def clean_scan_def fail_if_def)
next
  case (Some t)
  then obtain r where r: "record_text ll r = Inr t" "en_leaf_hash e = leaf_hash (ll_sha ll) (text_bytes t)"
    "ar_v r = audit_record_version" "ar_log_id r = i" "ar_seq r = pos" "ar_prev_hash r = previous_leaf leaves pos" "en_seq e = pos"
    using assms(2) by (auto simp: entry_ok_def)
  obtain v where v: "vl_from_str vl t = Inr v" "canonicalize (vl_jcs vl) v = Inr t" "vl_from_value vl v = Inr r" "vl_sha vl = ll_sha ll"
    using assms(1) r(1) unfolding reads_back_def by blast
  have "ar_kind r \<noteq> AkKeyRotated" using assms(4) Some r(1) by (auto simp: unrotated_def)
  then show ?thesis using assms(5,6) r v Some
    by (auto simp: verify_entry_def verify_text_def clean_scan_def check_record_def fail_if_def Let_def)
qed

lemma verify_entries_accepts:
  "\<lbrakk>reads_back ll vl; \<forall>j < length es. entry_ok ll i leaves (pos + j) (es ! j) \<and> en_leaf_hash (es ! j) = leaves ! (pos + j) \<and> unrotated ll (es ! j);
    clean_scan i s; es_previous_leaf s = previous_leaf leaves pos\<rbrakk> \<Longrightarrow> clean_scan i (verify_entries vl pos es s)"
proof (induction es arbitrary: pos s)
  case (Cons e es)
  let ?s = "verify_entry vl pos e s"
  have e: "entry_ok ll i leaves pos e" "en_leaf_hash e = leaves ! pos" "unrotated ll e" using Cons.prems(2) by (auto dest: spec [of _ 0])
  have clean: "clean_scan i ?s" by (rule verify_entry_accepts [OF Cons.prems(1) e Cons.prems(3,4)])
  then have "es_previous_leaf ?s = previous_leaf leaves (pos + 1)"
    using verify_entry_ok(3) [of vl pos e s] e(2) by (simp add: clean_scan_def previous_leaf_def)
  moreover have "\<forall>j < length es. entry_ok ll i leaves (pos + 1 + j) (es ! j) \<and> en_leaf_hash (es ! j) = leaves ! (pos + 1 + j) \<and> unrotated ll (es ! j)"
    using Cons.prems(2) by (auto dest: spec [of _ "Suc _"])
  ultimately show ?case using Cons.IH [OF Cons.prems(1) _ clean] by simp
qed simp

text \<open>The checkpoints of one signer under one origin.\<close>

definition checkpoint_genuine :: "sha256 \<Rightarrow> note_lib \<Rightarrow> string \<Rightarrow> signer \<Rightarrow> audit_hash list \<Rightarrow> audit_checkpoint \<Rightarrow> bool" where
  "checkpoint_genuine sha nl orig sg leaves c \<longleftrightarrow> cp_size c \<le> length leaves \<and> cp_root_hash c = tree_root sha (take (cp_size c) leaves)
     \<and> sign_note sha nl (body_text nl \<lparr>cb_origin = orig, cb_size = cp_size c, cb_root_hash = cp_root_hash c\<rparr>) [sg] = Inr (cp_note c)"

definition plain_origin :: "string \<Rightarrow> bool" where
  "plain_origin orig \<longleftrightarrow> orig \<noteq> [] \<and> newline \<notin> set orig \<and> CHR 0x0D \<notin> set orig"

definition clean_checkpoints :: "'f verify_lib \<Rightarrow> string \<Rightarrow> signer \<Rightarrow> audit_hash list \<Rightarrow> checkpoint_scan \<Rightarrow> bool" where
  "clean_checkpoints vl orig sg leaves s \<longleftrightarrow> vr_failures (cs_report s) = [] \<and> vr_origin (cs_report s) \<in> {None, Some orig}
     \<and> cs_trusted s = [signer_verifier (vl_sha vl) sg] \<and> cs_retired s = [] \<and> cs_rotations s = []
     \<and> (\<forall>n r. lookup (cs_roots s) n = Some r \<longrightarrow> r = tree_root (vl_sha vl) (take n leaves))"

lemma verify_checkpoint_accepts:
  assumes "note_lib_ok (vl_note vl)" and "signer_ok (vl_note vl) sg" and "plain_origin orig" and "length leaves < 2 ^ 64"
    and "checkpoint_genuine (vl_sha vl) (vl_note vl) orig sg leaves c" and "clean_checkpoints vl orig sg leaves s"
  shows "clean_checkpoints vl orig sg leaves (verify_checkpoint vl leaves c s)
    \<and> vr_checkpoints_verified (cs_report (verify_checkpoint vl leaves c s)) = vr_checkpoints_verified (cs_report s) + 1"
proof -
  let ?b = "\<lparr>cb_origin = orig, cb_size = cp_size c, cb_root_hash = cp_root_hash c\<rparr>" and ?v = "signer_verifier (vl_sha vl) sg"
  have c: "cp_size c \<le> length leaves" "cp_root_hash c = tree_root (vl_sha vl) (take (cp_size c) leaves)"
    "sign_note (vl_sha vl) (vl_note vl) (body_text (vl_note vl) ?b) [sg] = Inr (cp_note c)"
    using assms(5) unfolding checkpoint_genuine_def by blast+
  obtain nt where nt: "note_parse (vl_note vl) (cp_note c) = Inr nt" "nt_text nt = body_text (vl_note vl) ?b"
    "verified_by (vl_note vl) nt [?v] = [?v]"
    using sign_note_parses [OF c(3) _ assms(1)] assms(2) by auto
  have "body_parse (vl_note vl) (body_text (vl_note vl) ?b) = Inr ?b"
    using assms(1,3,4) c(1) by (intro body_text_parses) (simp_all add: plain_origin_def)
  then show ?thesis using nt c assms(6)
    by (auto simp: verify_checkpoint_def verify_signed_def clean_checkpoints_def check_tree_def fail_if_def Let_def split: option.split)
qed

lemma verify_checkpoints_accepts:
  assumes "note_lib_ok (vl_note vl)" and "signer_ok (vl_note vl) sg" and "plain_origin orig" and "length leaves < 2 ^ 64"
  shows "\<lbrakk>\<forall>c \<in> set cs. checkpoint_genuine (vl_sha vl) (vl_note vl) orig sg leaves c; clean_checkpoints vl orig sg leaves s\<rbrakk> \<Longrightarrow>
    clean_checkpoints vl orig sg leaves (verify_checkpoints vl leaves cs s)
    \<and> vr_checkpoints_verified (cs_report (verify_checkpoints vl leaves cs s)) = vr_checkpoints_verified (cs_report s) + length cs"
  by (induction cs arbitrary: s) (auto simp: verify_checkpoint_accepts [OF assms])

lemma honest_export_verifies:
  assumes "log_reach ll i ws st" and "reads_back ll vl" and "note_lib_ok (ll_note ll)" and "signer_ok (ll_note ll) sg" and "plain_origin orig"
    and "\<forall>c \<in> set (store_checkpoints i st). sign_note (ll_sha ll) (ll_note ll)
      (body_text (ll_note ll) \<lparr>cb_origin = orig, cb_size = cp_size c, cb_root_hash = cp_root_hash c\<rparr>) [sg] = Inr (cp_note c)"
    and "list_all (unrotated ll) (ml_entries (log_of st i))" and "store_size i st = 0 \<or> store_checkpoints i st \<noteq> []"
  shows "\<exists>ex. export_from_store i st = Inr ex \<and> report_is_valid (export_verify vl ex [signer_verifier (ll_sha ll) sg])"
proof -
  let ?es = "ml_entries (log_of st i)" and ?cs = "store_checkpoints i st" and ?leaves = "leaf_hashes st i"
  have ok: "log_ok ll st i" using log_invariant [OF assms(1)] by simp
  have libs: "vl_sha vl = ll_sha ll" "vl_note vl = ll_note ll" using assms(2) by (simp_all add: reads_back_def)
  have ex: "export_from_store i st = Inr \<lparr>ex_entries = ?es, ex_checkpoints = ?cs\<rparr>"
    by (simp add: export_from_store_def store_read_def store_size_log Let_def)
  have entries: "\<forall>j < length ?es. entry_ok ll i ?leaves (0 + j) (?es ! j) \<and> en_leaf_hash (?es ! j) = ?leaves ! (0 + j) \<and> unrotated ll (?es ! j)"
    using ok assms(7) by (simp add: log_ok_def store_size_log leaf_hashes_def list_all_length)
  have clean: "clean_scan i (entries_scan vl ?es)"
    unfolding entries_scan_def
    by (rule verify_entries_accepts [OF assms(2) entries]) (simp_all add: clean_scan_def verify_report_default_def previous_leaf_def)
  then have leaves: "es_leaves (entries_scan vl ?es) = ?leaves"
    using verify_entries_ok [of vl 0 ?es] by (simp add: clean_scan_def entries_scan_def leaf_hashes_def)
  have "\<forall>c \<in> set (sort_key cp_size ?cs). checkpoint_genuine (vl_sha vl) (vl_note vl) orig sg ?leaves c"
    using stored_checkpoint_commits [OF ok] assms(6) by (simp add: checkpoint_genuine_def libs)
  note cs = verify_checkpoints_accepts [OF _ _ assms(5) _ this]
  have "length ?leaves < 2 ^ 64" using ok by (simp add: log_ok_def)
  then have "report_is_valid (verify_log vl ?es ?cs [signer_verifier (ll_sha ll) sg])"
    using cs [of "\<lparr>cs_report = es_report (entries_scan vl ?es), cs_trusted = [signer_verifier (ll_sha ll) sg], cs_retired = [],
        cs_roots = [], cs_rotations = es_rotations (entries_scan vl ?es)\<rparr>"] assms(3,4,8) clean leaves
    by (auto simp: verify_log_def report_is_valid_def clean_scan_def clean_checkpoints_def libs Let_def store_size_log)
  then show ?thesis using ex by (simp add: export_verify_def)
qed

section \<open>A concrete export\<close>

text \<open>A checkpoint can always be signed.\<close>

lemma sign_body_succeeds:
  assumes "note_lib_ok nl" and "plain_origin (cb_origin b)" and "signer_ok nl sg" and "\<And>msg. \<exists>sig. sg_sign sg msg = Inr sig"
    and "b64_encode nl (hash_bytes (cb_root_hash b)) \<noteq> []"
  shows "\<exists>nt. sign_note sha nl (body_text nl b) [sg] = Inr nt"
proof -
  let ?ls = "[cb_origin b, show_nat (cb_size b), b64_encode nl (hash_bytes (cb_root_hash b))]"
  have body: "body_text nl b = concat (map (\<lambda>l. l @ [newline]) ?ls)" by (simp add: body_text_def)
  have "list_all b64_char s \<Longrightarrow> newline \<notin> set s" for s by (auto simp: list_all_iff b64_char_def)
  then have plain: "\<forall>l \<in> set ?ls. l \<noteq> [] \<and> newline \<notin> set l"
    using assms(1,2,5) show_nat_digit [of newline "cb_size b"] by (auto simp: note_lib_ok_def plain_origin_def newline_def)
  have "unbroken (body_text nl b)"
    using unbroken_lines [OF plain, folded body] by (auto simp: successively_Cons [of _ newline])
  then have "\<not> has_blank_line (body_text nl b)" by (simp add: has_blank_line_def split_blank_None)
  moreover have "body_text nl b \<noteq> [] \<and> last (body_text nl b) = newline" using lines_end [of ?ls] by (simp add: body)
  moreover obtain sig where "sg_sign sg (text_bytes (body_text nl b)) = Inr sig" using assms(4) by blast
  ultimately show ?thesis using signer_verifier_key_hash [OF assms(3)] by (simp add: sign_note_def)
qed

text \<open>A log of one record and a checkpoint of it.\<close>

definition honest_record :: audit_record where
  "honest_record = into_record (audit_draft_new AkToolCall ''a'') ''l'' 0 0 None"

definition honest_lib :: "unit log_lib" where
  "honest_lib = demo_log_lib\<lparr>ll_note := demo_note_lib, to_value := (\<lambda>r. if r = honest_record then Inr (JBool True) else Inl ''other'')\<rparr>"

definition honest_verifier :: "unit verify_lib" where
  "honest_verifier =
     \<lparr>vl_sha = demo_sha, vl_note = demo_note_lib, vl_jcs = ll_jcs demo_log_lib, vl_from_str = (\<lambda>_. Inr (JBool True)),
      vl_from_value = (\<lambda>_. Inr honest_record)\<rparr>"

definition honest_world :: log_world where
  "honest_world = \<lparr>lg_state = \<lparr>ws_frontier = frontier_default, ws_last_leaf = None, ws_signer = demo_signer,
     ws_checkpointed_size = 0, ws_checkpointed_at = 0\<rparr>, lg_store = [], lg_anchored = []\<rparr>"

definition honest_leaf :: audit_hash where
  "honest_leaf = leaf_hash demo_sha (text_bytes ''true'')"

definition honest_entries :: "audit_entry list" where
  "honest_entries = [\<lparr>en_seq = 0, en_leaf_hash = honest_leaf, en_record = Some ''true''\<rparr>]"

definition honest_appended :: log_world where
  "honest_appended = \<lparr>lg_state = \<lparr>ws_frontier = \<lparr>fr_size = 1, fr_hashes = [honest_leaf]\<rparr>, ws_last_leaf = Some honest_leaf,
     ws_signer = demo_signer, ws_checkpointed_size = 0, ws_checkpointed_at = 0\<rparr>,
     lg_store = [(''l'', \<lparr>ml_entries = honest_entries, ml_nodes = [], ml_checkpoints = []\<rparr>)], lg_anchored = []\<rparr>"

definition honest_checkpoint :: audit_checkpoint where
  "honest_checkpoint = \<lparr>cp_log_id = ''l'', cp_size = 1, cp_root_hash = honest_leaf,
     cp_note = projr (sign_note demo_sha demo_note_lib (body_text demo_note_lib \<lparr>cb_origin = ''adk-audit/l'', cb_size = 1, cb_root_hash = honest_leaf\<rparr>) [demo_signer]),
     cp_created_at = 0\<rparr>"

definition honest_store :: audit_store where
  "honest_store = [(''l'', \<lparr>ml_entries = honest_entries, ml_nodes = [], ml_checkpoints = [(1, honest_checkpoint)]\<rparr>)]"

lemma honest_signed:
  "sign_note demo_sha demo_note_lib (body_text demo_note_lib \<lparr>cb_origin = ''adk-audit/l'', cb_size = 1, cb_root_hash = honest_leaf\<rparr>) [demo_signer]
    = Inr (cp_note honest_checkpoint)"
proof -
  have "\<exists>nt. sign_note demo_sha demo_note_lib (body_text demo_note_lib \<lparr>cb_origin = ''adk-audit/l'', cb_size = 1, cb_root_hash = honest_leaf\<rparr>) [demo_signer] = Inr nt"
    by (rule sign_body_succeeds [OF demo_note_lib_ok _ demo_signer_ok])
      (simp_all add: plain_origin_def newline_def demo_signer_def demo_note_lib_def hash_bytes_def upt_rec)
  then show ?thesis by (auto simp: honest_checkpoint_def)
qed

lemma honest_open: "log_open honest_lib (builder_new ''l'' demo_signer) 0 [] = Inr (demo_writer, honest_world)"
  by (simp add: log_open_def builder_new_def demo_writer_def honest_world_def newline_def store_size_def
    latest_checkpoint_def store_checkpoints_def log_of_def memory_log_default_def frontier_default_def Let_def)

lemma honest_append: "act_exec honest_lib demo_writer demo_act honest_world = honest_appended"
proof -
  have "record_text honest_lib honest_record = Inr ''true''" by (simp add: record_text_def honest_lib_def)
  then show ?thesis
    by (simp add: demo_act_def log_append_batch_def append_locked_def honest_world_def push_first honest_appended_def
        demo_writer_def store_append_def validate_append_def store_size_def interval_elapsed_def Let_def log_of_def memory_log_default_def
        honest_record_def honest_entries_def honest_leaf_def honest_lib_def)
qed

lemma honest_checkpoint_eq:
  "\<lparr>cp_log_id = ''l'', cp_size = Suc 0, cp_root_hash = honest_leaf, cp_note = cp_note honest_checkpoint, cp_created_at = 0\<rparr> = honest_checkpoint"
  "cp_log_id honest_checkpoint = ''l''" "cp_size honest_checkpoint = 1" "cp_root_hash honest_checkpoint = honest_leaf"
  by (simp_all add: honest_checkpoint_def)

lemma honest_checkpointed: "lg_store (act_exec honest_lib demo_writer (ActCheckpoint 0) honest_appended) = honest_store"
  using honest_signed
  by (simp add: honest_checkpoint_eq log_checkpoint_def checkpoint_locked_def honest_appended_def demo_writer_def frontier_root_def honest_lib_def
      put_checkpoint_def validate_checkpoint_def store_size_def Let_def log_of_def honest_entries_def honest_store_def)

lemma honest_reach: "\<exists>ws. log_reach honest_lib ''l'' ws honest_store"
proof -
  have "log_reach honest_lib ''l'' {(demo_writer, lg_state honest_world)} []"
    using reach_open [OF reach_new _ honest_open, of "''l''"] by (simp add: builder_new_def)
  from reach_act [OF this, of demo_writer "lg_state honest_world" honest_appended demo_act "[]"]
  have "log_reach honest_lib ''l'' {(demo_writer, lg_state honest_appended), (demo_writer, lg_state honest_world)} (lg_store honest_appended)"
    by (simp add: honest_append [symmetric] honest_world_def) (simp add: honest_append [unfolded honest_world_def] store_size_def honest_appended_def honest_entries_def)
  from reach_act [OF this, of demo_writer "lg_state honest_appended" _ "ActCheckpoint 0" "[]"] show ?thesis
    using honest_checkpointed by (auto simp: honest_appended_def store_size_def honest_store_def honest_entries_def)
qed

lemma honest_store_sel:
  "store_checkpoints ''l'' honest_store = [honest_checkpoint]" "log_of honest_store ''l'' = \<lparr>ml_entries = honest_entries, ml_nodes = [], ml_checkpoints = [(1, honest_checkpoint)]\<rparr>"
  "store_size ''l'' honest_store = 1" "leaf_hashes honest_store ''l'' = [honest_leaf]"
  by (simp_all add: store_checkpoints_def log_of_def honest_store_def store_size_def honest_entries_def leaf_hashes_def)

lemma honest_reads_back: "reads_back honest_lib honest_verifier"
  by (auto simp: reads_back_def honest_lib_def honest_verifier_def record_text_def demo_log_lib_def split: if_splits)

lemma honest_unrotated: "list_all (unrotated honest_lib) honest_entries"
  by (auto simp: honest_entries_def unrotated_def honest_lib_def record_text_def honest_record_def audit_draft_new_def split: if_splits)

lemma honest_valid:
  "\<exists>ex. export_from_store ''l'' honest_store = Inr ex \<and> report_is_valid (export_verify honest_verifier ex [signer_verifier demo_sha demo_signer])"
proof -
  obtain ws where ws: "log_reach honest_lib ''l'' ws honest_store" using honest_reach by blast
  have libs: "ll_sha honest_lib = demo_sha" "ll_note honest_lib = demo_note_lib" by (simp_all add: honest_lib_def)
  show ?thesis
    using honest_export_verifies [OF ws honest_reads_back, of demo_signer "''adk-audit/l''"] demo_note_lib_ok demo_signer_ok honest_signed
    by (simp add: libs honest_store_sel honest_checkpoint_eq honest_unrotated plain_origin_def newline_def)
qed

lemma honest_report:
  "report_is_valid (verify_log honest_verifier honest_entries [honest_checkpoint] [signer_verifier demo_sha demo_signer])"
  using honest_valid by (auto simp: export_from_store_def store_read_def honest_store_sel export_verify_def honest_entries_def Let_def)



theorem verify_sound_witness:
  "chain_verified honest_verifier (vr_log_id (es_report (entries_scan honest_verifier honest_entries))) None 0 honest_entries
   \<and> list_all (checkpoint_verified honest_verifier (map en_leaf_hash honest_entries)
       (trusted_key honest_verifier [honest_checkpoint] [signer_verifier demo_sha demo_signer])) [honest_checkpoint]"
  using verify_sound [OF honest_report] by blast

theorem tampering_detected_witness:
  "report_is_valid (verify_log honest_verifier honest_entries [honest_checkpoint] [signer_verifier demo_sha demo_signer])
   \<and> take 1 (map en_leaf_hash honest_entries) = take 1 [honest_leaf]"
proof -
  have "cp_root_hash honest_checkpoint = tree_root (vl_sha honest_verifier) (take (cp_size honest_checkpoint) (map en_leaf_hash honest_entries))"
    by (simp add: honest_checkpoint_eq honest_entries_def tree_root_mth)
  moreover have "inj_on (vl_sha honest_verifier) (export_inputs (vl_sha honest_verifier) (cp_size honest_checkpoint) honest_entries
      \<union> export_inputs (vl_sha honest_verifier) (cp_size honest_checkpoint) honest_entries)"
    by (auto simp: inj_on_def export_inputs_def honest_checkpoint_eq honest_entries_def)
  moreover have "list_all (leaf_matches (vl_sha honest_verifier)) honest_entries"
    by (simp add: leaf_matches_def honest_entries_def honest_leaf_def honest_verifier_def)
  ultimately show ?thesis using tampering_detected [OF honest_report, of honest_checkpoint honest_entries] honest_report
    by (simp add: honest_checkpoint_eq honest_entries_def)
qed

section \<open>Rotations that leave a log unverifiable\<close>

text \<open>A key that is retired is never active again, even when a later rotation names it as the next key; a rotation
  to the key in use retires it; and a rotation whose checkpoint fails stays recorded with the old signer in
  place, so the next checkpoint covers it without the new key's signature.\<close>

lemma retired_stays: "v \<in> set (cs_retired s) \<Longrightarrow> v \<in> set (cs_retired (apply_rotations vl nt n active rs s))"
  by (induction rs arbitrary: s) (auto simp: apply_rotation_def split: option.splits)

lemma retired_key_refused:
  assumes "v \<in> set (cs_retired s)" and "\<And>v'. signed_by (vl_note vl) nt v' \<Longrightarrow> v' = v"
  shows "vr_failures (cs_report (verify_signed vl leaves nt b s)) \<noteq> []"
proof -
  have "verified_by (vl_note vl) nt (filter (\<lambda>v. v \<notin> set (cs_retired s)) (cs_trusted s)) = []"
    using assms by (auto simp: verified_by_filter [of _ _ "filter _ _"] filter_empty_conv)
  then show ?thesis by (simp add: verify_signed_def Let_def)
qed

lemma rotation_to_same_key_retires_it:
  assumes "rt_previous r = Some v" and "rt_next r = Some v" and "v \<in> set active" and "signed_by (vl_note vl) nt v"
  shows "v \<in> set (cs_retired (apply_rotation vl nt n active r s))"
  using assms by (simp add: apply_rotation_def verified_by_filter [of _ _ "[v, v]"])

lemma failed_rotation_is_recorded:
  assumes "append_locked ll w now [rotation_draft ll (ws_signer (lg_state g)) nxt actor] g = (Inr recs, g1)"
    and "checkpoint_locked ll w now' [ws_signer (lg_state g), nxt] g1 = (Inl e, g2)"
  shows "rotate_signer ll w now now' nxt actor g = (Inl e, g1) \<and> ws_signer (lg_state g1) = ws_signer (lg_state g)"
proof -
  have "g2 = g1" using assms(2) by (auto simp: checkpoint_locked_def Let_def split: sum.splits prod.splits)
  moreover have "ws_signer (lg_state g1) = ws_signer (lg_state g)"
    using assms(1) by (auto simp: append_locked_def split: sum.splits prod.splits if_splits)
  ultimately show ?thesis using assms by (simp add: rotate_signer_def Let_def)
qed

lemma half_rotation_fails:
  assumes "rt_seq r < n" and "rt_next r = Some nxt" and "\<not> signed_by (vl_note vl) nt nxt"
  shows "vr_failures (cs_report (apply_rotations vl nt n active (r # rs) s)) \<noteq> []"
proof -
  have "vr_failures (cs_report (apply_rotation vl nt n active r s)) \<noteq> []"
    using assms(2,3) by (auto simp: apply_rotation_def verified_by_filter [of _ _ "[_, _]"] split: option.split)
  then show ?thesis using assms(1) apply_rotations_failures [of vl nt n active rs "apply_rotation vl nt n active r s"] by auto
qed

end
