(* ===== verification/Approval_Request.thy ===== *)
theory Approval_Request
  imports Approval_Store Signed_Note
begin

text \<open>
  Approval requests (\<^verbatim>\<open>adk-core/src/approval.rs\<close>): policies with quorum and escalation, decisions,
  requests and what they resolve to, delegations, page cursors and queries. A \<^verbatim>\<open>u32\<close> count of fired
  escalation steps is a \<open>nat\<close> that the code saturates at \<open>u32::MAX\<close>; a version is a \<open>nat\<close>, one more per
  change, which a request does not bring to \<open>2 ^ 64\<close>.
\<close>

section \<open>Policies\<close>

datatype approval_action = ActApprove | ActEdit | ActReject | ActRespond

definition all_actions :: "approval_action list" where
  "all_actions = [ActApprove, ActEdit, ActReject, ActRespond]"

datatype approval_risk = RiskLow | RiskMedium | RiskHigh | RiskCritical

datatype approver_selector = SelSubject subject_ref | SelGroup string

fun selector_matches :: "approver_selector \<Rightarrow> subject_ref \<Rightarrow> string list \<Rightarrow> bool" where
  "selector_matches (SelSubject s) who groups = (s = who)"
| "selector_matches (SelGroup g) who groups = (g \<in> set groups)"

record escalation_step =
  esc_after :: dur
  esc_to :: "approver_selector list"

datatype expiry_action = ExpiryDeny

record approval_policy =
  ap_approvers :: "approver_selector list"
  ap_quorum :: nat
  ap_forbid_self :: bool
  ap_escalation :: "escalation_step list"
  ap_on_expiry :: expiry_action
  ap_expires_after :: "dur option"

definition approval_policy_new :: "approver_selector list \<Rightarrow> approval_policy" where
  "approval_policy_new sels =
     \<lparr>ap_approvers = sels, ap_quorum = 1, ap_forbid_self = True, ap_escalation = [], ap_on_expiry = ExpiryDeny,
      ap_expires_after = None\<rparr>"

definition with_quorum :: "nat \<Rightarrow> approval_policy \<Rightarrow> approval_policy" where
  "with_quorum n p = p\<lparr>ap_quorum := n\<rparr>"

definition allow_self_approval :: "approval_policy \<Rightarrow> approval_policy" where
  "allow_self_approval p = p\<lparr>ap_forbid_self := False\<rparr>"

definition escalate_after :: "dur \<Rightarrow> approver_selector list \<Rightarrow> approval_policy \<Rightarrow> approval_policy" where
  "escalate_after d sels p = p\<lparr>ap_escalation := ap_escalation p @ [\<lparr>esc_after = d, esc_to = sels\<rparr>]\<rparr>"

definition expires_after :: "dur \<Rightarrow> approval_policy \<Rightarrow> approval_policy" where
  "expires_after d p = p\<lparr>ap_expires_after := Some d\<rparr>"

definition approval_error :: "error_category \<Rightarrow> string \<Rightarrow> string \<Rightarrow> adk_error" where
  "approval_error cat cd msg = adk_error_new Agent cat cd msg"

abbreviation invalid_request :: "string \<Rightarrow> string \<Rightarrow> adk_error" where
  "invalid_request \<equiv> approval_error InvalidInput"

abbreviation forbidden_error :: "string \<Rightarrow> string \<Rightarrow> adk_error" where
  "forbidden_error \<equiv> approval_error Forbidden"

abbreviation conflict_error :: "string \<Rightarrow> string \<Rightarrow> adk_error" where
  "conflict_error \<equiv> approval_error Conflict"

definition request_not_found :: "string \<Rightarrow> adk_error" where
  "request_not_found i = approval_error NotFound ''approval.not_found'' (''no approval request '' @ quoted i)"

definition version_conflict :: "string \<Rightarrow> nat \<Rightarrow> nat \<Rightarrow> adk_error" where
  "version_conflict i expected current =
     with_details
       (conflict_error ''approval.version_conflict''
         (''approval request '' @ quoted i @ '' is at version '' @ show_nat current @ '', not '' @ show_nat expected
          @ ''; another decision landed first, so re-read the request and decide again''))
       (default_details\<lparr>metadata := [(''current_version'', show_nat current)]\<rparr>)"

text \<open>\<^verbatim>\<open>windows(2).any(..)\<close>: two neighbouring steps in the wrong order.\<close>

fun misordered :: "escalation_step list \<Rightarrow> bool" where
  "misordered (a # b # steps) = (esc_after a > esc_after b \<or> misordered (b # steps))"
| "misordered _ = False"

definition policy_validate :: "approval_policy \<Rightarrow> unit result" where
  "policy_validate p =
     (if ap_approvers p = [] then Inl (invalid_request ''approval.invalid_policy'' ''an approval policy needs approvers'')
      else if ap_quorum p = 0 then Inl (invalid_request ''approval.invalid_policy'' ''an approval quorum must be at least 1'')
      else if misordered (ap_escalation p)
           then Inl (invalid_request ''approval.invalid_policy'' ''escalation steps must be ordered by their `after` delay'')
      else Inr ())"

section \<open>Decisions\<close>

record approval_decision =
  ad_approver :: subject_ref
  ad_groups :: "string list"
  ad_via :: "subject_ref option"
  ad_kind :: approval_action
  ad_edited_args :: "json option"
  ad_reason :: "string option"
  ad_decided_at :: instant

definition decision_new :: "instant \<Rightarrow> subject_ref \<Rightarrow> approval_action \<Rightarrow> approval_decision" where
  "decision_new now who k =
     \<lparr>ad_approver = who, ad_groups = [], ad_via = None, ad_kind = k, ad_edited_args = None, ad_reason = None,
      ad_decided_at = now\<rparr>"

definition decision_approve :: "instant \<Rightarrow> subject_ref \<Rightarrow> approval_decision" where
  "decision_approve now who = decision_new now who ActApprove"

definition decision_edit :: "instant \<Rightarrow> subject_ref \<Rightarrow> json \<Rightarrow> approval_decision" where
  "decision_edit now who args = (decision_new now who ActEdit)\<lparr>ad_edited_args := Some args\<rparr>"

definition decision_reject :: "instant \<Rightarrow> subject_ref \<Rightarrow> string \<Rightarrow> approval_decision" where
  "decision_reject now who reason = (decision_new now who ActReject)\<lparr>ad_reason := Some reason\<rparr>"

definition decision_respond :: "instant \<Rightarrow> subject_ref \<Rightarrow> string \<Rightarrow> approval_decision" where
  "decision_respond now who response = (decision_new now who ActRespond)\<lparr>ad_reason := Some response\<rparr>"

definition decision_with_groups :: "string list \<Rightarrow> approval_decision \<Rightarrow> approval_decision" where
  "decision_with_groups gs d = d\<lparr>ad_groups := gs\<rparr>"

definition decision_via :: "subject_ref \<Rightarrow> approval_decision \<Rightarrow> approval_decision" where
  "decision_via s d = d\<lparr>ad_via := Some s\<rparr>"

definition decision_with_reason :: "string \<Rightarrow> approval_decision \<Rightarrow> approval_decision" where
  "decision_with_reason s d = d\<lparr>ad_reason := Some s\<rparr>"

definition decision_authority :: "approval_decision \<Rightarrow> subject_ref" where
  "decision_authority d = (case ad_via d of Some s \<Rightarrow> s | None \<Rightarrow> ad_approver d)"

section \<open>Requests\<close>

datatype approval_state = RqPending | RqApproved | RqRejected | RqResponded | RqExpired | RqCancelled

fun state_name :: "approval_state \<Rightarrow> string" where
  "state_name RqPending = ''pending''"
| "state_name RqApproved = ''approved''"
| "state_name RqRejected = ''rejected''"
| "state_name RqResponded = ''responded''"
| "state_name RqExpired = ''expired''"
| "state_name RqCancelled = ''cancelled''"

definition resolved :: "approval_state \<Rightarrow> bool" where
  "resolved s \<longleftrightarrow> s \<noteq> RqPending"

record approval_request =
  rq_id :: string
  rq_scope :: approval_scope
  rq_fingerprint :: string
  rq_tool_name :: string
  rq_args_redacted :: json
  rq_acting :: "acting_context option"
  rq_requester :: "subject_ref option"
  rq_summary :: string
  rq_risk :: approval_risk
  rq_created_at :: instant
  rq_expires_at :: "instant option"
  rq_allowed :: "approval_action list"
  rq_policy :: approval_policy
  rq_run_id :: "string option"
  rq_version :: nat
  rq_state :: approval_state
  rq_decisions :: "approval_decision list"
  rq_escalations_fired :: nat
  rq_resolved_at :: "instant option"
  rq_note :: "string option"
  rq_outcome_applied :: bool

definition approval_request_new ::
    "(string \<Rightarrow> string) \<Rightarrow> instant \<Rightarrow> string \<Rightarrow> approval_scope \<Rightarrow> confirmation_request \<Rightarrow> approval_policy \<Rightarrow> approval_request" where
  "approval_request_new esc now i sc c p =
     \<lparr>rq_id = i, rq_scope = sc, rq_fingerprint = fingerprint esc c, rq_tool_name = cr_tool_name c,
      rq_args_redacted = cr_args c, rq_acting = None, rq_requester = None,
      rq_summary = ''Approve a call to '' @ quoted (cr_tool_name c), rq_risk = RiskMedium, rq_created_at = now,
      rq_expires_at = None, rq_allowed = all_actions, rq_policy = p, rq_run_id = None, rq_version = 1,
      rq_state = RqPending, rq_decisions = [], rq_escalations_fired = 0, rq_resolved_at = None, rq_note = None,
      rq_outcome_applied = False\<rparr>"

text \<open>\<^verbatim>\<open>trim_start_matches\<close> takes the prefix off as often as it is there: a digest carries it once.\<close>

definition id_for_call :: "chrono \<Rightarrow> (string \<Rightarrow> string) \<Rightarrow> approval_scope \<Rightarrow> string \<Rightarrow> instant \<Rightarrow> string" where
  "id_for_call ch esc sc fp held_since =
     ''apr_'' @ drop (length ''fnv1a128:'')
       (json_digest esc (JArray [JString (as_app_name sc), JString (as_user_id sc), JString (as_session_id sc), JString fp,
          JNumber (show_int (timestamp_micros ch held_since))]))"

definition rq_with_acting :: "acting_context \<Rightarrow> approval_request \<Rightarrow> approval_request" where
  "rq_with_acting a r = r\<lparr>rq_requester := (case rq_requester r of Some s \<Rightarrow> Some s | None \<Rightarrow> on_behalf_of a), rq_acting := Some a\<rparr>"

definition is_open :: "approval_request \<Rightarrow> bool" where
  "is_open r \<longleftrightarrow> rq_state r = RqPending \<or> \<not> rq_outcome_applied r"

definition eligible_approvers :: "approval_request \<Rightarrow> approver_selector list" where
  "eligible_approvers r =
     ap_approvers (rq_policy r) @ concat (map esc_to (take (rq_escalations_fired r) (ap_escalation (rq_policy r))))"

definition is_eligible :: "approval_request \<Rightarrow> subject_ref \<Rightarrow> string list \<Rightarrow> bool" where
  "is_eligible r who groups \<longleftrightarrow> list_ex (\<lambda>sel. selector_matches sel who groups) (eligible_approvers r)"

definition same_party :: "subject_ref \<Rightarrow> subject_ref \<Rightarrow> bool" where
  "same_party who other \<longleftrightarrow>
     subject_id other = subject_id who
     \<and> (kind other = kind who \<or> kind other \<noteq> AgentSubject \<and> kind who \<noteq> AgentSubject)"

definition is_self :: "approval_request \<Rightarrow> subject_ref \<Rightarrow> bool" where
  "is_self r who \<longleftrightarrow>
     (case rq_requester r of Some s \<Rightarrow> same_party who s | None \<Rightarrow> False)
     \<or> (case rq_acting r of
          Some a \<Rightarrow>
            (case on_behalf_of a of Some s \<Rightarrow> same_party who s | None \<Rightarrow> False)
            \<or> agent_subject (agent_id (acting_agent a)) = who
        | None \<Rightarrow> False)"

fun quorum_step :: "subject_ref list \<times> json option \<Rightarrow> approval_decision \<Rightarrow> subject_ref list \<times> json option" where
  "quorum_step (approvals, args) d =
     (case ad_kind d of
        ActApprove \<Rightarrow>
          (if decision_authority d \<in> set approvals then (approvals, args) else (approvals @ [decision_authority d], args))
      | ActEdit \<Rightarrow> ([decision_authority d], ad_edited_args d)
      | _ \<Rightarrow> (approvals, args))"

definition quorum_progress :: "approval_request \<Rightarrow> subject_ref list \<times> json option" where
  "quorum_progress r = foldl quorum_step ([], None) (rq_decisions r)"

definition last_reason :: "approval_request \<Rightarrow> string option" where
  "last_reason r = (case rq_decisions r of [] \<Rightarrow> None | ds \<Rightarrow> ad_reason (last ds))"

definition request_outcome :: "approval_request \<Rightarrow> tool_approval option" where
  "request_outcome r =
     (case rq_state r of
        RqPending \<Rightarrow> None
      | RqApproved \<Rightarrow>
          Some (case snd (quorum_progress r) of Some args \<Rightarrow> with_edited_args approval_approve args | None \<Rightarrow> approval_approve)
      | RqRejected \<Rightarrow>
          Some (with_message approval_deny
            (case last_reason r of Some reason \<Rightarrow> ''the approver rejected it: '' @ reason | None \<Rightarrow> ''the approver rejected it''))
      | RqResponded \<Rightarrow>
          Some (with_message approval_deny
            (''the approver responded instead: '' @ (case last_reason r of Some reason \<Rightarrow> reason | None \<Rightarrow> '''')))
      | RqExpired \<Rightarrow>
          Some (with_message approval_deny ''the approval request expired before enough approvers decided'')
      | RqCancelled \<Rightarrow>
          Some (with_message approval_deny
            (case rq_note r of
               Some why \<Rightarrow> ''the approval request was cancelled: '' @ why
             | None \<Rightarrow> ''the approval request was cancelled'')))"

section \<open>Delegations\<close>

record delegation_window =
  dw_not_before :: instant
  dw_not_after :: instant

definition window_contains :: "delegation_window \<Rightarrow> instant \<Rightarrow> bool" where
  "window_contains w t \<longleftrightarrow> dw_not_before w \<le> t \<and> t < dw_not_after w"

record delegation_scope =
  ds_app_name :: "string option"
  ds_tool_names :: "string list"

definition scope_covers :: "delegation_scope \<Rightarrow> approval_request \<Rightarrow> bool" where
  "scope_covers s r \<longleftrightarrow>
     (case ds_app_name s of None \<Rightarrow> True | Some app \<Rightarrow> app = as_app_name (rq_scope r))
     \<and> (ds_tool_names s = [] \<or> rq_tool_name r \<in> set (ds_tool_names s))"

record approval_delegation =
  dl_id :: string
  dl_from :: subject_ref
  dl_from_groups :: "string list"
  dl_to :: subject_ref
  dl_window :: delegation_window
  dl_scope :: delegation_scope
  dl_created_at :: instant

definition delegation_applies :: "approval_delegation \<Rightarrow> approval_request \<Rightarrow> instant \<Rightarrow> bool" where
  "delegation_applies d r t \<longleftrightarrow>
     window_contains (dl_window d) t \<and> scope_covers (dl_scope d) r \<and> is_eligible r (dl_from d) (dl_from_groups d)"

section \<open>Cursors and queries\<close>

record approval_cursor =
  cu_created_at :: instant
  cu_id :: string

definition request_cursor :: "approval_request \<Rightarrow> approval_cursor" where
  "request_cursor r = \<lparr>cu_created_at = rq_created_at r, cu_id = rq_id r\<rparr>"

definition cursor_precedes :: "approval_cursor \<Rightarrow> approval_request \<Rightarrow> bool" where
  "cursor_precedes c r \<longleftrightarrow> (cu_created_at c, cu_id c) < (rq_created_at r, rq_id r)"

definition cursor_encode :: "chrono \<Rightarrow> approval_cursor \<Rightarrow> string" where
  "cursor_encode ch c = show_int (timestamp_micros ch (cu_created_at c)) @ '':'' @ cu_id c"

text \<open>\<^verbatim>\<open>str::parse::<i64>\<close>: an optional sign, then digits only, within the range.\<close>

definition parse_i64 :: "string \<Rightarrow> int option" where
  "parse_i64 s =
     (let negative = (s \<noteq> [] \<and> hd s = CHR ''-''); digits = (if s \<noteq> [] \<and> hd s \<in> {CHR ''-'', CHR ''+''} then tl s else s)
      in if digits = [] then None
         else Option.bind (read_digits 0 digits) (\<lambda>n.
           if negative then (if n \<le> 2 ^ 63 then Some (- int n) else None)
           else if n < 2 ^ 63 then Some (int n) else None))"

definition cursor_decode :: "chrono \<Rightarrow> string \<Rightarrow> approval_cursor result" where
  "cursor_decode ch token =
     (let malformed = invalid_request ''approval.invalid_cursor'' ''malformed approval page cursor'' in
      case split_once CHR '':'' token of
        None \<Rightarrow> Inl malformed
      | Some (micros, i) \<Rightarrow>
          (case Option.bind (parse_i64 micros) (from_timestamp_micros ch) of
             None \<Rightarrow> Inl malformed
           | Some t \<Rightarrow> Inr \<lparr>cu_created_at = t, cu_id = i\<rparr>))"

definition default_approval_page :: nat where
  "default_approval_page = 100"

record request_query =
  qy_states :: "approval_state list"
  qy_open_only :: bool
  qy_app_name :: "string option"
  qy_after :: "approval_cursor option"
  qy_limit :: nat

definition request_query_default :: request_query where
  "request_query_default =
     \<lparr>qy_states = [], qy_open_only = False, qy_app_name = None, qy_after = None, qy_limit = default_approval_page\<rparr>"

definition query_matches :: "request_query \<Rightarrow> approval_request \<Rightarrow> bool" where
  "query_matches q r \<longleftrightarrow>
     (qy_states q = [] \<or> rq_state r \<in> set (qy_states q))
     \<and> (\<not> qy_open_only q \<or> is_open r)
     \<and> (case qy_app_name q of None \<Rightarrow> True | Some app \<Rightarrow> app = as_app_name (rq_scope r))
     \<and> (case qy_after q of None \<Rightarrow> True | Some c \<Rightarrow> cursor_precedes c r)"

record inbox_query =
  ib_approver :: "subject_ref option"
  ib_groups :: "string list"
  ib_states :: "approval_state list"
  ib_app_name :: "string option"
  ib_cursor :: "string option"
  ib_limit :: nat

record inbox_page =
  ip_items :: "approval_request list"
  ip_next_cursor :: "string option"

end
