(* ===== verification/Approval_Service.thy ===== *)
theory Approval_Service
  imports Approval_Request Tool_Gate Run_Store
begin

text \<open>
  The approval service over a store (\<^verbatim>\<open>StoreApprovalService\<close> in \<^verbatim>\<open>adk-core/src/approval.rs\<close>) and the request and
  delegation tables of \<^verbatim>\<open>InMemoryApprovalStore\<close> (\<^verbatim>\<open>adk-core/src/governance.rs\<close>). The world holds the store's
  tables, the runs the service wakes, the audit records and the notifications sent, and the clock as the
  sequence of its readings. The in-memory store reports no errors, so an error is one the service raises.
\<close>

section \<open>The world\<close>

datatype approval_event = EvSubmitted | EvEscalated | EvDecided | EvResolved | EvExpired | EvCancelled

record approval_notification =
  nt_id :: string
  nt_kind :: approval_event
  nt_request :: approval_request
  nt_decision :: "approval_decision option"
  nt_escalation_step :: "nat option"
  nt_at :: instant

record approval_world =
  aw_calls :: approval_store
  aw_requests :: "(string, approval_request) table"
  aw_delegations :: "(string, approval_delegation) table"
  aw_runs :: "json run_table"
  aw_records :: "audit_draft list"
  aw_sent :: "approval_notification list"
  aw_clock :: "nat \<Rightarrow> instant"
  aw_reads :: nat

record approval_route =
  ro_policy :: approval_policy
  ro_summary :: "string option"
  ro_risk :: approval_risk
  ro_redacted_args :: "json option"
  ro_allowed :: "approval_action list option"

definition approval_route_new :: "approval_policy \<Rightarrow> approval_route" where
  "approval_route_new p =
     \<lparr>ro_policy = p, ro_summary = None, ro_risk = RiskMedium, ro_redacted_args = None, ro_allowed = None\<rparr>"

record approval_service =
  sv_chrono :: chrono
  sv_esc :: "string \<Rightarrow> string"
  sv_notifies :: bool
  sv_run_store :: bool
  sv_router :: "(approval_call \<Rightarrow> approval_route option) option"
  sv_audit :: "audit_trail option"

definition policy_router :: "approval_policy \<Rightarrow> approval_call \<Rightarrow> approval_route option" where
  "policy_router p c = Some (approval_route_new p)"

definition read_clock :: "approval_world \<Rightarrow> instant \<times> approval_world" where
  "read_clock w = (aw_clock w (aw_reads w), w\<lparr>aw_reads := Suc (aw_reads w)\<rparr>)"

section \<open>Requests and delegations in the store\<close>

definition create_request :: "approval_request \<Rightarrow> approval_world \<Rightarrow> approval_request \<times> approval_world" where
  "create_request r w =
     (case lookup (aw_requests w) (rq_id r) of
        Some stored \<Rightarrow> (stored, w)
      | None \<Rightarrow> (r, w\<lparr>aw_requests := AList.update (rq_id r) r (aw_requests w)\<rparr>))"

definition get_request :: "string \<Rightarrow> approval_world \<Rightarrow> approval_request option" where
  "get_request i w = lookup (aw_requests w) i"

definition replace_request :: "approval_request \<Rightarrow> nat \<Rightarrow> approval_world \<Rightarrow> bool \<times> approval_world" where
  "replace_request r expected w =
     (case lookup (aw_requests w) (rq_id r) of
        Some stored \<Rightarrow>
          if rq_version stored = expected
          then (True, w\<lparr>aw_requests := AList.update (rq_id r) r (aw_requests w)\<rparr>) else (False, w)
      | None \<Rightarrow> (False, w))"

definition list_requests :: "request_query \<Rightarrow> approval_world \<Rightarrow> approval_request list" where
  "list_requests q w =
     take (qy_limit q)
       (sort_key (\<lambda>r. (rq_created_at r, rq_id r)) (filter (query_matches q) (map snd (aw_requests w))))"

definition put_delegation :: "approval_delegation \<Rightarrow> approval_world \<Rightarrow> approval_world" where
  "put_delegation d w = w\<lparr>aw_delegations := AList.update (dl_id d) d (aw_delegations w)\<rparr>"

text \<open>The delegations are a \<^verbatim>\<open>BTreeMap\<close>: listed in the order of their identifiers.\<close>

definition delegations_to :: "subject_ref \<Rightarrow> approval_world \<Rightarrow> approval_delegation list" where
  "delegations_to who w = filter (\<lambda>d. dl_to d = who) (map snd (sort_key fst (aw_delegations w)))"

definition delete_delegation :: "string \<Rightarrow> approval_world \<Rightarrow> bool \<times> approval_world" where
  "delete_delegation i w =
     (lookup (aw_delegations w) i \<noteq> None, w\<lparr>aw_delegations := AList.delete i (aw_delegations w)\<rparr>)"

section \<open>Notifying and applying\<close>

definition notify ::
    "approval_service \<Rightarrow> approval_event \<Rightarrow> approval_request \<Rightarrow> approval_decision option \<Rightarrow> nat option \<Rightarrow> approval_world \<Rightarrow> approval_world" where
  "notify sv k r d step w =
     (if \<not> sv_notifies sv then w
      else let (sent_at, w) = read_clock w in
        w\<lparr>aw_sent := aw_sent w @ [\<lparr>nt_id = rq_id r @ '':'' @ show_nat (rq_version r), nt_kind = k, nt_request = r,
          nt_decision = d, nt_escalation_step = step, nt_at = sent_at\<rparr>]\<rparr>)"

definition wake_waiting_run :: "approval_service \<Rightarrow> approval_request \<Rightarrow> approval_world \<Rightarrow> approval_world" where
  "wake_waiting_run sv r w =
     (case rq_run_id r of
        Some run_id \<Rightarrow>
          if sv_run_store sv
          then let (now, w) = read_clock w in w\<lparr>aw_runs := snd (run_wake now (aw_runs w) run_id)\<rparr>
          else w
      | None \<Rightarrow> w)"

definition applied :: "approval_request \<Rightarrow> approval_request" where
  "applied r = r\<lparr>rq_outcome_applied := True, rq_version := rq_version r + 1\<rparr>"

definition call_pending :: "approval_request \<Rightarrow> approval_world \<Rightarrow> bool" where
  "call_pending r w \<longleftrightarrow> list_ex (\<lambda>e. pa_fingerprint e = rq_fingerprint r) (store_pending (aw_calls w) (rq_scope r))"

definition apply_request :: "approval_service \<Rightarrow> bool \<Rightarrow> approval_request \<Rightarrow> approval_world \<Rightarrow> approval_request \<times> approval_world" where
  "apply_request sv recovering r w =
     (case request_outcome r of
        None \<Rightarrow> (r, w)
      | Some outc \<Rightarrow>
          if rq_outcome_applied r then (r, w)
          else
            let w = (if \<not> recovering \<or> call_pending r w
                     then w\<lparr>aw_calls := store_decide (rq_scope r) (rq_fingerprint r) outc (aw_calls w)\<rparr> else w);
                w = wake_waiting_run sv r w;
                (ok, w) = replace_request (applied r) (rq_version r) w
            in if ok then (applied r, w)
               else (case get_request (rq_id r) w of Some current \<Rightarrow> current | None \<Rightarrow> applied r, w))"

definition swap_request :: "approval_request \<Rightarrow> nat \<Rightarrow> approval_world \<Rightarrow> unit result \<times> approval_world" where
  "swap_request next expected w =
     (let (ok, w) = replace_request next expected w in
      if ok then (Inr (), w)
      else (Inl (case get_request (rq_id next) w of
                   Some current \<Rightarrow> version_conflict (rq_id next) expected (rq_version current)
                 | None \<Rightarrow> request_not_found (rq_id next)), w))"

section \<open>Who may decide\<close>

definition live_delegations :: "subject_ref \<Rightarrow> instant \<Rightarrow> approval_world \<Rightarrow> approval_delegation list" where
  "live_delegations who t w = filter (\<lambda>d. window_contains (dl_window d) t) (delegations_to who w)"

definition authority_over ::
    "approval_delegation list \<Rightarrow> approval_request \<Rightarrow> approval_decision \<Rightarrow> instant \<Rightarrow> subject_ref option result" where
  "authority_over delegations r d t =
     (let who = ad_approver d; forbid_self = ap_forbid_self (rq_policy r) in
      if forbid_self \<and> is_self r who
      then Inl (forbidden_error ''approval.self_approval''
             (quoted (subject_id who) @ '' may not approve their own call; ask another approver''))
      else if is_eligible r who (ad_groups d) \<and> ad_via d = None then Inr None
      else
        let candidates = filter (\<lambda>dl. (case ad_via d of None \<Rightarrow> True | Some from \<Rightarrow> from = dl_from dl)
              \<and> scope_covers (dl_scope dl) r \<and> is_eligible r (dl_from dl) (dl_from_groups dl)) delegations
        in case find (\<lambda>dl. window_contains (dl_window dl) t) candidates of
             Some live \<Rightarrow>
               if forbid_self \<and> is_self r (dl_from live)
               then Inl (forbidden_error ''approval.self_approval''
                      (quoted (subject_id who) @ '' may not approve on behalf of '' @ quoted (subject_id (dl_from live))
                       @ '', the requester''))
               else Inr (Some (dl_from live))
           | None \<Rightarrow>
               if candidates \<noteq> []
               then Inl (forbidden_error ''approval.delegation_inactive''
                      (''the delegation that lets '' @ quoted (subject_id who)
                       @ '' approve this request is outside its window''))
               else Inl (forbidden_error ''approval.not_an_approver''
                      (quoted (subject_id who) @ '' is not an approver of request '' @ quoted (rq_id r))))"

fun selector_group_in :: "string list \<Rightarrow> approver_selector \<Rightarrow> bool" where
  "selector_group_in groups (SelGroup g) = (g \<in> set groups)"
| "selector_group_in groups (SelSubject s) = False"

definition in_inbox ::
    "approval_request \<Rightarrow> subject_ref option \<Rightarrow> string list \<Rightarrow> approval_delegation list \<Rightarrow> instant \<Rightarrow> bool" where
  "in_inbox r approver groups delegations t \<longleftrightarrow>
     (let forbid_self = ap_forbid_self (rq_policy r) in
      case approver of
        None \<Rightarrow> groups = [] \<or> list_ex (selector_group_in groups) (eligible_approvers r)
      | Some who \<Rightarrow>
          \<not> (forbid_self \<and> is_self r who)
          \<and> (is_eligible r who groups
             \<or> list_ex (\<lambda>dl. delegation_applies dl r t \<and> \<not> (forbid_self \<and> is_self r (dl_from dl))) delegations))"

section \<open>Submitting\<close>

definition submitted_request :: "chrono \<Rightarrow> instant \<Rightarrow> approval_request \<Rightarrow> approval_request" where
  "submitted_request ch now r =
     r\<lparr>rq_created_at := now,
       rq_expires_at :=
         (case (rq_expires_at r, ap_expires_after (rq_policy r)) of
            (None, Some ttl) \<Rightarrow>
              let ttl = (case from_std ch ttl of Some x \<Rightarrow> x | None \<Rightarrow> delta_max ch)
              in Some (case checked_add_signed ch now ttl of Some t \<Rightarrow> t | None \<Rightarrow> max_utc ch)
          | (e, _) \<Rightarrow> e),
       rq_version := 1, rq_state := RqPending, rq_decisions := [], rq_escalations_fired := 0, rq_resolved_at := None,
       rq_note := None, rq_outcome_applied := False\<rparr>"

definition approval_submit :: "approval_service \<Rightarrow> approval_request \<Rightarrow> approval_world \<Rightarrow> approval_request result \<times> approval_world" where
  "approval_submit sv r w =
     (case policy_validate (rq_policy r) of
        Inl e \<Rightarrow> (Inl e, w)
      | Inr () \<Rightarrow>
          if rq_id r = [] then (Inl (invalid_request ''approval.invalid_request'' ''an approval request needs an id''), w)
          else if rq_allowed r = []
          then (Inl (invalid_request ''approval.invalid_request'' ''an approval request must allow at least one action''), w)
          else
            let (now, w) = read_clock w;
                r = submitted_request (sv_chrono sv) now r;
                (stored, w) = create_request r w
            in (Inr stored, if stored = r then notify sv EvSubmitted stored None None w else w))"

definition routed_request ::
    "approval_service \<Rightarrow> instant \<Rightarrow> approval_call \<Rightarrow> approval_route \<Rightarrow> pending_approval \<Rightarrow> approval_request" where
  "routed_request sv now c ro held =
     (let i = id_for_call (sv_chrono sv) (sv_esc sv) (ac_scope c) (pa_fingerprint held) (pa_requested_at held);
          r = (approval_request_new (sv_esc sv) now i (ac_scope c) (ac_request c) (ro_policy ro))
            \<lparr>rq_summary := (case ro_summary ro of Some s \<Rightarrow> s | None \<Rightarrow> ac_reason c), rq_risk := ro_risk ro\<rparr>;
          r = (case ro_redacted_args ro of Some args \<Rightarrow> r\<lparr>rq_args_redacted := args\<rparr> | None \<Rightarrow> r);
          r = (case ro_allowed ro of Some acts \<Rightarrow> r\<lparr>rq_allowed := acts\<rparr> | None \<Rightarrow> r);
          r = (case ac_acting c of Some a \<Rightarrow> rq_with_acting a r | None \<Rightarrow> r);
          r = (if rq_requester r = None then r\<lparr>rq_requester := Some (human (as_user_id (ac_scope c)))\<rparr> else r)
      in case ac_run_id c of Some run_id \<Rightarrow> r\<lparr>rq_run_id := Some run_id\<rparr> | None \<Rightarrow> r)"

text \<open>The clock is read by the store for a new hold, by \<^verbatim>\<open>ApprovalRequest::new\<close> and by \<^verbatim>\<open>submit\<close>.\<close>

definition approval_submit_call ::
    "approval_service \<Rightarrow> approval_call \<Rightarrow> approval_world \<Rightarrow> approval_request option result \<times> approval_world" where
  "approval_submit_call sv c w =
     (case Option.bind (sv_router sv) (\<lambda>route. route c) of
        None \<Rightarrow> (Inr None, w)
      | Some ro \<Rightarrow>
          let (held_at, w) = read_clock w;
              w = w\<lparr>aw_calls := store_record_pending (sv_esc sv) held_at (ac_scope c) (ac_request c) (aw_calls w)\<rparr>
          in case find (\<lambda>e. pa_fingerprint e = fingerprint (sv_esc sv) (ac_request c))
                    (store_pending (aw_calls w) (ac_scope c)) of
               None \<Rightarrow> (Inr None, w)
             | Some held \<Rightarrow>
                 let (now, w) = read_clock w;
                     (res, w) = approval_submit sv (routed_request sv now c ro held) w
                 in (map_sum id Some res, w))"

section \<open>Deciding\<close>

fun action_name :: "approval_action \<Rightarrow> string" where
  "action_name ActApprove = ''Approve''"
| "action_name ActEdit = ''Edit''"
| "action_name ActReject = ''Reject''"
| "action_name ActRespond = ''Respond''"

fun action_json :: "approval_action \<Rightarrow> string" where
  "action_json ActApprove = ''approve''"
| "action_json ActEdit = ''edit''"
| "action_json ActReject = ''reject''"
| "action_json ActRespond = ''respond''"

definition past_expiry :: "instant \<Rightarrow> approval_request \<Rightarrow> bool" where
  "past_expiry now r \<longleftrightarrow> (case rq_expires_at r of Some t \<Rightarrow> t \<le> now | None \<Rightarrow> False)"

text \<open>What a decision must satisfy before anyone is asked for its authority; an approval or a rejection
  carries no arguments.\<close>

definition admissible_decision ::
    "instant \<Rightarrow> nat \<Rightarrow> approval_request \<Rightarrow> approval_decision \<Rightarrow> approval_decision result" where
  "admissible_decision now expected r d =
     (if rq_version r \<noteq> expected then Inl (version_conflict (rq_id r) expected (rq_version r))
      else if resolved (rq_state r)
      then Inl (conflict_error ''approval.already_resolved''
             (''approval request '' @ quoted (rq_id r) @ '' is already '' @ state_name (rq_state r)))
      else if past_expiry now r
      then Inl (conflict_error ''approval.expired'' (''approval request '' @ quoted (rq_id r) @ '' expired; the call is denied''))
      else if ad_kind d \<notin> set (rq_allowed r)
      then Inl (invalid_request ''approval.action_not_allowed''
             (''approval request '' @ quoted (rq_id r) @ '' does not allow '' @ action_name (ad_kind d)))
      else case ad_kind d of
        ActEdit \<Rightarrow>
          (if ad_edited_args d = None
           then Inl (invalid_request ''approval.action_not_allowed'' ''an edit must carry the edited arguments'') else Inr d)
      | ActRespond \<Rightarrow>
          (if (case ad_reason d of Some why \<Rightarrow> trim_text why = [] | None \<Rightarrow> True)
           then Inl (invalid_request ''approval.action_not_allowed'' ''a response must carry the text to report to the model'')
           else Inr d)
      | _ \<Rightarrow> Inr (d\<lparr>ad_edited_args := None\<rparr>))"

text \<open>The decision as it is recorded: under the authority found, at the time of deciding, unless the
  authority approved before.\<close>

definition authorized_decision ::
    "approval_delegation list \<Rightarrow> instant \<Rightarrow> approval_request \<Rightarrow> approval_decision \<Rightarrow> approval_decision result" where
  "authorized_decision delegations now r d =
     (case authority_over delegations r d now of
        Inl e \<Rightarrow> Inl e
      | Inr via \<Rightarrow>
          let d = d\<lparr>ad_via := via, ad_decided_at := now\<rparr> in
          if ad_kind d = ActApprove \<and> decision_authority d \<in> set (fst (quorum_progress r))
          then Inl (conflict_error ''approval.already_decided''
                 (quoted (subject_id (decision_authority d)) @ '' already approved request '' @ quoted (rq_id r)
                  @ ''; another approver must decide''))
          else Inr d)"

definition approval_draft :: "audit_trail \<Rightarrow> approval_request \<Rightarrow> nat \<Rightarrow> approval_decision \<Rightarrow> audit_draft" where
  "approval_draft tr r expected d =
     (let actor = audit_actor_subject (ad_approver d);
          actor = actor\<lparr>aa_delegation_chain := aa_delegation_chain actor @ (case ad_via d of Some s \<Rightarrow> [s] | None \<Rightarrow> [])\<rparr>;
          dr = (audit_draft_new AkApproval (rq_tool_name r))
            \<lparr>dr_actor := actor, dr_args_digest := Some (at_digest tr (rq_args_redacted r)),
             dr_decision := Some (case ad_kind d of ActApprove \<Rightarrow> Approved | ActEdit \<Rightarrow> Approved | _ \<Rightarrow> audit_decision.Rejected)\<rparr>;
          dr = draft_ext ''source'' (JString ''approval_service'') dr;
          dr = draft_ext ''approvalId'' (JString (rq_id r)) dr;
          dr = draft_ext ''approvalAction'' (JString (action_json (ad_kind d))) dr;
          dr = draft_ext ''version'' (JNumber (show_nat (expected + 1))) dr;
          dr = draft_ext ''sessionId'' (JString (as_session_id (rq_scope r))) dr;
          dr = (case rq_acting r of Some a \<Rightarrow> draft_ext ''actingAgent'' (JString (agent_id (acting_agent a))) dr | None \<Rightarrow> dr)
      in case ad_edited_args d of Some args \<Rightarrow> draft_ext ''editedArgsDigest'' (JString (at_digest tr args)) dr | None \<Rightarrow> dr)"

definition audit_decision_record ::
    "approval_service \<Rightarrow> approval_request \<Rightarrow> nat \<Rightarrow> approval_decision \<Rightarrow> approval_world \<Rightarrow> unit result \<times> approval_world" where
  "audit_decision_record sv r expected d w =
     (case sv_audit sv of
        None \<Rightarrow> (Inr (), w)
      | Some tr \<Rightarrow>
          let (res, recs) = trail_record tr (aw_records w) (approval_draft tr r expected d)
          in (res, w\<lparr>aw_records := recs\<rparr>))"

definition decided_request :: "instant \<Rightarrow> nat \<Rightarrow> approval_decision \<Rightarrow> approval_request \<Rightarrow> approval_request" where
  "decided_request now expected d r =
     (let nx = r\<lparr>rq_decisions := rq_decisions r @ [d], rq_version := expected + 1\<rparr>;
          nx = nx\<lparr>rq_state :=
            (case ad_kind d of
               ActReject \<Rightarrow> RqRejected
             | ActRespond \<Rightarrow> RqResponded
             | _ \<Rightarrow> if ap_quorum (rq_policy nx) \<le> length (fst (quorum_progress nx)) then RqApproved else RqPending)\<rparr>
      in if resolved (rq_state nx) then nx\<lparr>rq_resolved_at := Some now\<rparr> else nx)"

definition approval_decide ::
    "approval_service \<Rightarrow> string \<Rightarrow> nat \<Rightarrow> approval_decision \<Rightarrow> approval_world \<Rightarrow> approval_request result \<times> approval_world" where
  "approval_decide sv i expected d w =
     (let (now, w) = read_clock w in
      case get_request i w of
        None \<Rightarrow> (Inl (request_not_found i), w)
      | Some r \<Rightarrow>
          (case result_bind (admissible_decision now expected r d)
                  (\<lambda>d. authorized_decision (delegations_to (ad_approver d) w) now r d) of
             Inl e \<Rightarrow> (Inl e, w)
           | Inr d \<Rightarrow>
               (case audit_decision_record sv r expected d w of
                  (Inl e, w) \<Rightarrow> (Inl e, w)
                | (Inr (), w) \<Rightarrow>
                    let nx = decided_request now expected d r in
                    (case swap_request nx expected w of
                       (Inl e, w) \<Rightarrow> (Inl e, w)
                     | (Inr (), w) \<Rightarrow>
                         let w = notify sv EvDecided nx (Some d) None w in
                         if \<not> resolved (rq_state nx) then (Inr nx, w)
                         else let (r', w) = apply_request sv False nx w
                              in (Inr r', notify sv EvResolved r' None None w)))))"

section \<open>Delegating and cancelling\<close>

definition approval_delegate :: "approval_delegation \<Rightarrow> approval_world \<Rightarrow> approval_delegation result \<times> approval_world" where
  "approval_delegate d w =
     (if dw_not_after (dl_window d) \<le> dw_not_before (dl_window d)
      then (Inl (invalid_request ''approval.invalid_delegation'' ''a delegation window must end after it starts''), w)
      else if dl_from d = dl_to d
      then (Inl (invalid_request ''approval.invalid_delegation'' ''a subject cannot delegate to itself''), w)
      else if dl_id d = []
      then (Inl (invalid_request ''approval.invalid_delegation'' ''a delegation needs an id''), w)
      else let (now, w) = read_clock w; d = d\<lparr>dl_created_at := now\<rparr> in (Inr d, put_delegation d w))"

definition cancelled_request :: "instant \<Rightarrow> string option \<Rightarrow> approval_request \<Rightarrow> approval_request" where
  "cancelled_request now why r =
     r\<lparr>rq_state := RqCancelled, rq_version := rq_version r + 1, rq_resolved_at := Some now, rq_note := why\<rparr>"

definition approval_cancel ::
    "approval_service \<Rightarrow> string \<Rightarrow> string option \<Rightarrow> approval_world \<Rightarrow> approval_request result \<times> approval_world" where
  "approval_cancel sv i why w =
     (case get_request i w of
        None \<Rightarrow> (Inl (request_not_found i), w)
      | Some r \<Rightarrow>
          if resolved (rq_state r)
          then (Inl (conflict_error ''approval.already_resolved''
                  (''approval request '' @ quoted i @ '' is already '' @ state_name (rq_state r))), w)
          else
            let (now, w) = read_clock w; nx = cancelled_request now why r in
            (case swap_request nx (rq_version r) w of
               (Inl e, w) \<Rightarrow> (Inl e, w)
             | (Inr (), w) \<Rightarrow>
                 let (r', w) = apply_request sv False nx w in (Inr r', notify sv EvCancelled r' None None w)))"

section \<open>The tick\<close>

record approval_tick =
  tk_expired :: "string list"
  tk_escalated :: "(string \<times> nat) list"
  tk_reapplied :: "string list"

definition approval_tick_default :: approval_tick where
  "approval_tick_default = \<lparr>tk_expired = [], tk_escalated = [], tk_reapplied = []\<rparr>"

definition approval_reapply_grace :: dur where
  "approval_reapply_grace = 60000000000"

definition settled :: "chrono \<Rightarrow> instant \<Rightarrow> approval_request \<Rightarrow> bool" where
  "settled ch now r \<longleftrightarrow>
     (let grace = (case from_std ch approval_reapply_grace of Some x \<Rightarrow> x | None \<Rightarrow> delta_max ch) in
      case Option.bind (rq_resolved_at r) (\<lambda>t. checked_add_signed ch t grace) of None \<Rightarrow> True | Some t \<Rightarrow> t \<le> now)"

definition step_due :: "chrono \<Rightarrow> instant \<Rightarrow> approval_request \<Rightarrow> escalation_step \<Rightarrow> bool" where
  "step_due ch now r st \<longleftrightarrow>
     (case Option.bind (from_std ch (esc_after st)) (checked_add_signed ch (rq_created_at r)) of
        Some t \<Rightarrow> t \<le> now | None \<Rightarrow> False)"

definition steps_due :: "chrono \<Rightarrow> instant \<Rightarrow> approval_request \<Rightarrow> nat" where
  "steps_due ch now r = min (length (takeWhile (step_due ch now r) (ap_escalation (rq_policy r)))) (2 ^ 32 - 1)"

definition expired_request :: "instant \<Rightarrow> approval_request \<Rightarrow> approval_request" where
  "expired_request now r = r\<lparr>rq_state := RqExpired, rq_version := rq_version r + 1, rq_resolved_at := Some now\<rparr>"

definition escalated_request :: "nat \<Rightarrow> approval_request \<Rightarrow> approval_request" where
  "escalated_request due r = r\<lparr>rq_escalations_fired := due, rq_version := rq_version r + 1\<rparr>"

definition tick_request ::
    "approval_service \<Rightarrow> instant \<Rightarrow> approval_request \<Rightarrow> approval_tick \<times> approval_world \<Rightarrow> approval_tick \<times> approval_world" where
  "tick_request sv now r = (\<lambda>(rep, w).
     (if resolved (rq_state r) then
        (if settled (sv_chrono sv) now r
         then let (r', w) = apply_request sv True r w in (rep\<lparr>tk_reapplied := tk_reapplied rep @ [rq_id r']\<rparr>, w)
         else (rep, w))
      else if past_expiry now r then
        (let nx = expired_request now r; (ok, w) = replace_request nx (rq_version r) w in
         if \<not> ok then (rep, w)
         else let (r', w) = apply_request sv False nx w; w = notify sv EvExpired r' None None w
              in (rep\<lparr>tk_expired := tk_expired rep @ [rq_id r']\<rparr>, w))
      else
        (let due = steps_due (sv_chrono sv) now r in
         if due \<le> rq_escalations_fired r then (rep, w)
         else
           let nx = escalated_request due r; (ok, w) = replace_request nx (rq_version r) w in
           if \<not> ok then (rep, w)
           else
             let steps = [rq_escalations_fired r ..< due] in
             (rep\<lparr>tk_escalated := tk_escalated rep @ map (Pair (rq_id nx)) steps\<rparr>,
              fold (\<lambda>step. notify sv EvEscalated nx None (Some step)) steps w))))"

text \<open>The pages of open requests, until one is not full: as many pages as the fuel says, \<open>None\<close> past it.\<close>

definition tick_query :: "approval_cursor option \<Rightarrow> request_query" where
  "tick_query after = request_query_default\<lparr>qy_open_only := True, qy_after := after\<rparr>"

fun tick_loop ::
    "nat \<Rightarrow> approval_service \<Rightarrow> instant \<Rightarrow> approval_cursor option \<Rightarrow> approval_tick \<times> approval_world
     \<Rightarrow> (approval_tick \<times> approval_world) option" where
  "tick_loop 0 sv now after s = None"
| "tick_loop (Suc fuel) sv now after s =
     (let batch = list_requests (tick_query after) (snd s);
          s = fold (tick_request sv now) batch s
      in if length batch < default_approval_page then Some s
         else tick_loop fuel sv now (Some (request_cursor (last batch))) s)"

definition approval_tick_all :: "nat \<Rightarrow> approval_service \<Rightarrow> instant \<Rightarrow> approval_world \<Rightarrow> (approval_tick \<times> approval_world) option" where
  "approval_tick_all fuel sv now w = tick_loop fuel sv now None (approval_tick_default, w)"

section \<open>The inbox\<close>

text \<open>One page of the store: the requests taken, and whether the inbox page is full.\<close>

fun inbox_batch ::
    "(approval_request \<Rightarrow> bool) \<Rightarrow> nat \<Rightarrow> approval_request list \<Rightarrow> approval_request list
     \<Rightarrow> approval_request list \<times> approval_request option" where
  "inbox_batch P limit items [] = (items, None)"
| "inbox_batch P limit items (r # rs) =
     (if P r then
        (if length items + 1 = limit then (items @ [r], Some r) else inbox_batch P limit (items @ [r]) rs)
      else inbox_batch P limit items rs)"

definition inbox_store_query :: "inbox_query \<Rightarrow> approval_cursor option \<Rightarrow> request_query" where
  "inbox_store_query q after =
     request_query_default
       \<lparr>qy_states := (if ib_states q = [] then [RqPending] else ib_states q), qy_app_name := ib_app_name q,
        qy_after := after, qy_limit := default_approval_page\<rparr>"

fun inbox_loop ::
    "nat \<Rightarrow> chrono \<Rightarrow> inbox_query \<Rightarrow> (approval_request \<Rightarrow> bool) \<Rightarrow> approval_world \<Rightarrow> approval_cursor option
     \<Rightarrow> approval_request list \<Rightarrow> inbox_page option" where
  "inbox_loop 0 ch q P w after items = None"
| "inbox_loop (Suc fuel) ch q P w after items =
     (let batch = list_requests (inbox_store_query q after) w in
      case inbox_batch P (max (ib_limit q) 1) items batch of
        (items, Some r) \<Rightarrow>
          Some \<lparr>ip_items = items, ip_next_cursor = Some (cursor_encode ch (request_cursor r))\<rparr>
      | (items, None) \<Rightarrow>
          if length batch < default_approval_page then Some \<lparr>ip_items = items, ip_next_cursor = None\<rparr>
          else inbox_loop fuel ch q P w (Some (request_cursor (last batch))) items)"

definition inbox_selects :: "inbox_query \<Rightarrow> instant \<Rightarrow> approval_world \<Rightarrow> approval_request \<Rightarrow> bool" where
  "inbox_selects q now w r =
     in_inbox r (ib_approver q) (ib_groups q)
       (case ib_approver q of Some who \<Rightarrow> live_delegations who now w | None \<Rightarrow> []) now"

definition approval_inbox ::
    "nat \<Rightarrow> approval_service \<Rightarrow> inbox_query \<Rightarrow> approval_world \<Rightarrow> inbox_page option result \<times> approval_world" where
  "approval_inbox fuel sv q w =
     (let (now, w) = read_clock w in
      case ib_cursor q of
        None \<Rightarrow> (Inr (inbox_loop fuel (sv_chrono sv) q (inbox_selects q now w) w None []), w)
      | Some token \<Rightarrow>
          (case cursor_decode (sv_chrono sv) token of
             Inl e \<Rightarrow> (Inl e, w)
           | Inr c \<Rightarrow> (Inr (inbox_loop fuel (sv_chrono sv) q (inbox_selects q now w) w (Some c) []), w)))"

end
