(* ===== verification/Approval_Inv.thy ===== *)
theory Approval_Inv
  imports Approval_Service
begin

text \<open>
  The approval service under concurrency. Every operation of the service reads the store, computes, and
  writes with a compare-and-swap or a single store call; operations of any number of processes interleave
  between those calls. A state keeps the store's tables and, for the statements, every request value ever
  stored, every delegation ever granted and every outcome written. A process acts on any request value it
  may have read before, however old.
\<close>

section \<open>Steps of the processes\<close>

record approval_sys =
  sy_requests :: "(string, approval_request) table"
  sy_delegations :: "(string, approval_delegation) table"
  sy_calls :: approval_store
  sy_history :: "approval_request list"
  sy_granted :: "approval_delegation list"
  sy_written :: "(approval_request \<times> tool_approval) list"

definition sys_init :: approval_sys where
  "sys_init = \<lparr>sy_requests = [], sy_delegations = [], sy_calls = [], sy_history = [], sy_granted = [], sy_written = []\<rparr>"

definition store_change :: "approval_request \<Rightarrow> approval_sys \<Rightarrow> approval_sys" where
  "store_change r s = s\<lparr>sy_requests := AList.update (rq_id r) r (sy_requests s), sy_history := sy_history s @ [r]\<rparr>"

definition create_step :: "approval_request \<Rightarrow> approval_sys \<Rightarrow> approval_sys" where
  "create_step r s = (if lookup (sy_requests s) (rq_id r) = None then store_change r s else s)"

definition swap_step :: "approval_request \<Rightarrow> nat \<Rightarrow> approval_sys \<Rightarrow> approval_sys" where
  "swap_step r expected s =
     (if map_option rq_version (lookup (sy_requests s) (rq_id r)) = Some expected then store_change r s else s)"

definition decision_made ::
    "approval_delegation list \<Rightarrow> instant \<Rightarrow> approval_request \<Rightarrow> approval_decision \<Rightarrow> approval_decision result" where
  "decision_made dls now q d = result_bind (admissible_decision now (rq_version q) q d) (\<lambda>d. authorized_decision dls now q d)"

text \<open>What one process does to a request value it has read.\<close>

inductive request_move :: "chrono \<Rightarrow> approval_delegation set \<Rightarrow> approval_request \<Rightarrow> approval_request \<Rightarrow> bool" for ch where
  rm_decide: "set dls \<subseteq> G \<Longrightarrow> (\<And>dl. dl \<in> set dls \<Longrightarrow> dl_to dl = ad_approver d) \<Longrightarrow> decision_made dls now q d = Inr d' \<Longrightarrow>
    request_move ch G q (decided_request now (rq_version q) d' q)"
| rm_cancel: "rq_state q = RqPending \<Longrightarrow> request_move ch G q (cancelled_request now why q)"
| rm_expire: "rq_state q = RqPending \<Longrightarrow> past_expiry now q \<Longrightarrow> request_move ch G q (expired_request now q)"
| rm_escalate: "rq_state q = RqPending \<Longrightarrow> \<not> past_expiry now q \<Longrightarrow> rq_escalations_fired q < steps_due ch now q \<Longrightarrow>
    request_move ch G q (escalated_request (steps_due ch now q) q)"
| rm_apply: "resolved (rq_state q) \<Longrightarrow> \<not> rq_outcome_applied q \<Longrightarrow> request_move ch G q (applied q)"

definition submittable :: "approval_request \<Rightarrow> bool" where
  "submittable r \<longleftrightarrow> policy_validate (rq_policy r) = Inr () \<and> rq_id r \<noteq> [] \<and> rq_allowed r \<noteq> []"

inductive approval_step :: "chrono \<Rightarrow> (string \<Rightarrow> string) \<Rightarrow> approval_sys \<Rightarrow> approval_sys \<Rightarrow> bool" for ch esc where
  as_submit: "submittable r \<Longrightarrow> approval_step ch esc s (create_step (submitted_request ch now r) s)"
| as_move: "q \<in> set (sy_history s) \<Longrightarrow> request_move ch (set (sy_granted s)) q nx \<Longrightarrow>
    approval_step ch esc s (swap_step nx (rq_version q) s)"
| as_write: "q \<in> set (sy_history s) \<Longrightarrow> \<not> rq_outcome_applied q \<Longrightarrow> request_outcome q = Some outc \<Longrightarrow>
    approval_step ch esc s
      (s\<lparr>sy_calls := store_decide (rq_scope q) (rq_fingerprint q) outc (sy_calls s), sy_written := sy_written s @ [(q, outc)]\<rparr>)"
| as_delegate: "approval_step ch esc s
    (s\<lparr>sy_delegations := AList.update (dl_id d) d (sy_delegations s), sy_granted := sy_granted s @ [d]\<rparr>)"
| as_revoke: "approval_step ch esc s (s\<lparr>sy_delegations := AList.delete i (sy_delegations s)\<rparr>)"
| as_hold: "approval_step ch esc s (s\<lparr>sy_calls := store_record_pending esc now sc c (sy_calls s)\<rparr>)"
| as_take: "approval_step ch esc s (s\<lparr>sy_calls := snd (take_approval now sc fp (sy_calls s))\<rparr>)"

definition approval_reach :: "chrono \<Rightarrow> (string \<Rightarrow> string) \<Rightarrow> approval_sys \<Rightarrow> bool" where
  "approval_reach ch esc s \<longleftrightarrow> (approval_step ch esc)\<^sup>*\<^sup>* sys_init s"

lemma reach_init [intro]: "approval_reach ch esc sys_init"
  by (simp add: approval_reach_def)

lemma reach_step: "approval_reach ch esc s \<Longrightarrow> approval_step ch esc s t \<Longrightarrow> approval_reach ch esc t"
  unfolding approval_reach_def by (rule rtranclp.rtrancl_into_rtrancl)

lemma reach_induct [consumes 1, case_names init step]:
  assumes "approval_reach ch esc s" and "P sys_init"
    and "\<And>s t. approval_reach ch esc s \<Longrightarrow> P s \<Longrightarrow> approval_step ch esc s t \<Longrightarrow> P t"
  shows "P s"
  using assms(1) unfolding approval_reach_def
proof (induction rule: rtranclp_induct)
  case (step y z)
  then show ?case using assms(3) by (auto simp: approval_reach_def)
qed (rule assms(2))

section \<open>What a move keeps\<close>

named_theorems move_defs \<open>the requests a move makes\<close>

lemma decided_request_unfold [move_defs]:
  "rq_version (decided_request now v d q) = v + 1" "rq_id (decided_request now v d q) = rq_id q"
  "rq_scope (decided_request now v d q) = rq_scope q" "rq_fingerprint (decided_request now v d q) = rq_fingerprint q"
  "rq_policy (decided_request now v d q) = rq_policy q" "rq_requester (decided_request now v d q) = rq_requester q"
  "rq_acting (decided_request now v d q) = rq_acting q" "rq_created_at (decided_request now v d q) = rq_created_at q"
  "rq_expires_at (decided_request now v d q) = rq_expires_at q" "rq_allowed (decided_request now v d q) = rq_allowed q"
  "rq_tool_name (decided_request now v d q) = rq_tool_name q" "rq_run_id (decided_request now v d q) = rq_run_id q"
  "rq_escalations_fired (decided_request now v d q) = rq_escalations_fired q"
  "rq_decisions (decided_request now v d q) = rq_decisions q @ [d]"
  "rq_outcome_applied (decided_request now v d q) = rq_outcome_applied q"
  by (simp_all add: decided_request_def Let_def)

lemmas other_moves [move_defs] = cancelled_request_def expired_request_def escalated_request_def applied_def

definition same_call :: "approval_request \<Rightarrow> approval_request \<Rightarrow> bool" where
  "same_call q r \<longleftrightarrow>
     rq_id r = rq_id q \<and> rq_scope r = rq_scope q \<and> rq_fingerprint r = rq_fingerprint q \<and> rq_policy r = rq_policy q
     \<and> rq_requester r = rq_requester q \<and> rq_acting r = rq_acting q \<and> rq_created_at r = rq_created_at q
     \<and> rq_expires_at r = rq_expires_at q \<and> rq_allowed r = rq_allowed q \<and> rq_tool_name r = rq_tool_name q
     \<and> rq_run_id r = rq_run_id q"

lemma move_same_call: "request_move ch G q nx \<Longrightarrow> same_call q nx"
  by (induction rule: request_move.induct) (auto simp: move_defs same_call_def)

lemma move_version: "request_move ch G q nx \<Longrightarrow> rq_version nx = rq_version q + 1"
  by (induction rule: request_move.induct) (auto simp: move_defs)

lemma move_fired: "request_move ch G q nx \<Longrightarrow> rq_escalations_fired q \<le> rq_escalations_fired nx"
  by (induction rule: request_move.induct) (auto simp: move_defs)

lemma move_mono: "request_move ch G q nx \<Longrightarrow> G \<subseteq> H \<Longrightarrow> request_move ch H q nx"
proof (induction rule: request_move.induct)
  case (rm_decide dls G d now q d')
  then show ?case by (intro request_move.rm_decide [where dls = dls]) auto
qed (auto intro: request_move.intros)

lemma decision_made_pending: "decision_made dls now q d = Inr d' \<Longrightarrow> rq_state q = RqPending"
  by (auto simp: decision_made_def admissible_decision_def resolved_def split: if_splits)

lemma move_resolved: "request_move ch G q nx \<Longrightarrow> resolved (rq_state q) \<Longrightarrow> nx = applied q \<and> \<not> rq_outcome_applied q"
  by (induction rule: request_move.induct) (auto simp: resolved_def dest: decision_made_pending)

section \<open>The history of a request\<close>

definition versions_of :: "string \<Rightarrow> approval_request list \<Rightarrow> approval_request list" where
  "versions_of i h = filter (\<lambda>q. rq_id q = i) h"

definition fresh_request :: "approval_request \<Rightarrow> bool" where
  "fresh_request q \<longleftrightarrow>
     rq_version q = 1 \<and> rq_state q = RqPending \<and> rq_decisions q = [] \<and> rq_escalations_fired q = 0
     \<and> \<not> rq_outcome_applied q \<and> submittable q"

text \<open>The versions of a request start fresh, follow each other by moves, and end with what the store has.\<close>

definition tracked :: "chrono \<Rightarrow> approval_sys \<Rightarrow> bool" where
  "tracked ch s \<longleftrightarrow>
     (\<forall>i. let h = versions_of i (sy_history s) in
        lookup (sy_requests s) i = (if h = [] then None else Some (last h))
        \<and> (h \<noteq> [] \<longrightarrow> fresh_request (hd h))
        \<and> successively (request_move ch (set (sy_granted s))) h)"

lemma successively_mono': "successively R xs \<Longrightarrow> (\<And>x y. R x y \<Longrightarrow> S x y) \<Longrightarrow> successively S xs"
  by (induction xs rule: induct_list012) auto

lemma chain_versions:
  "successively (request_move ch G) h \<Longrightarrow> h \<noteq> [] \<Longrightarrow> map rq_version h = [rq_version (hd h) ..< rq_version (hd h) + length h]"
proof (induction h rule: induct_list012)
  case (3 x y zs)
  have m: "rq_version y = Suc (rq_version x)" using 3(3) by (auto dest: move_version)
  have "map rq_version (y # zs) = [Suc (rq_version x) ..< Suc (rq_version x) + length (y # zs)]"
    using 3(2,3) by (simp add: m)
  from Cons_eq_upt [of "map rq_version (y # zs)" "rq_version x"] this show ?case by simp
qed auto

lemma versions_of_append: "versions_of i (h @ [q]) = (if rq_id q = i then versions_of i h @ [q] else versions_of i h)"
  by (simp add: versions_of_def)

lemma tracked_version_last:
  assumes "tracked ch s" and "q \<in> set (sy_history s)" and "lookup (sy_requests s) (rq_id q) = Some r"
    and "rq_version r = rq_version q"
  shows "r = q"
proof -
  let ?h = "versions_of (rq_id q) (sy_history s)"
  have q: "q \<in> set ?h" using assms(2) by (simp add: versions_of_def)
  then have ne: "?h \<noteq> []" by auto
  have r: "r = last ?h" and ch: "successively (request_move ch (set (sy_granted s))) ?h"
    using assms(1,3) ne by (auto simp: tracked_def Let_def)
  have "distinct (map rq_version ?h)" by (simp add: chain_versions [OF ch ne])
  moreover have "r \<in> set ?h" using r ne by simp
  ultimately show ?thesis using q assms(4) by (metis distinct_map inj_on_def)
qed

text \<open>A swap leaves the state alone or replaces the very value its process read.\<close>

lemma swap_cases:
  assumes "tracked ch s" and "q \<in> set (sy_history s)" and "rq_id nx = rq_id q"
  shows "swap_step nx (rq_version q) s = s
    \<or> lookup (sy_requests s) (rq_id q) = Some q \<and> swap_step nx (rq_version q) s = store_change nx s"
  using tracked_version_last [OF assms(1,2)] assms(3) by (auto simp: swap_step_def)

lemma tracked_store_change:
  assumes "tracked ch s"
    and "lookup (sy_requests s) (rq_id r) = None \<and> fresh_request r
       \<or> (\<exists>q. lookup (sy_requests s) (rq_id r) = Some q \<and> request_move ch (set (sy_granted s)) q r)"
  shows "tracked ch (store_change r s)"
  unfolding tracked_def Let_def
proof
  fix i
  let ?h = "versions_of i (sy_history s)"
  have h: "lookup (sy_requests s) i = (if ?h = [] then None else Some (last ?h))" "?h \<noteq> [] \<Longrightarrow> fresh_request (hd ?h)"
    "successively (request_move ch (set (sy_granted s))) ?h"
    using assms(1) by (auto simp: tracked_def Let_def)
  show "lookup (sy_requests (store_change r s)) i =
      (if versions_of i (sy_history (store_change r s)) = [] then None else Some (last (versions_of i (sy_history (store_change r s)))))
    \<and> (versions_of i (sy_history (store_change r s)) \<noteq> [] \<longrightarrow> fresh_request (hd (versions_of i (sy_history (store_change r s)))))
    \<and> successively (request_move ch (set (sy_granted (store_change r s)))) (versions_of i (sy_history (store_change r s)))"
    using h assms(2)
    by (cases "rq_id r = i")
      (auto simp: store_change_def versions_of_append successively_append_iff hd_append split: if_splits)
qed

lemma tracked_reach: "approval_reach ch esc s \<Longrightarrow> tracked ch s"
proof (induction rule: reach_induct)
  case init
  show ?case by (simp add: tracked_def sys_init_def versions_of_def)
next
  case (step s t)
  from step(2,3) show ?case
  proof (induction rule: approval_step.induct)
    case (as_submit r s now)
    have "fresh_request (submitted_request ch now r)"
      using as_submit(1) by (simp add: fresh_request_def submitted_request_def submittable_def)
    then show ?case using as_submit(2) by (auto simp: create_step_def intro: tracked_store_change)
  next
    case (as_move q s nx)
    have i: "rq_id nx = rq_id q" using as_move(2) by (auto dest: move_same_call simp: same_call_def)
    show ?case using swap_cases [OF as_move(3,1) i] as_move(2,3) i by (auto intro!: tracked_store_change)
  next
    case (as_delegate s d)
    then show ?case
      unfolding tracked_def Let_def by (auto elim!: successively_mono' intro: move_mono [where G = "set (sy_granted s)"])
  qed (auto simp: tracked_def)
qed

end
