(* ===== verification/Approval_Props.thy ===== *)
theory Approval_Props
  imports Approval_Inv
begin

text \<open>
  What holds of the approval service whatever its processes do: a call runs only on an approval its policy's
  quorum gave, decisions land one at a time, a resolved request never changes again.
\<close>

section \<open>Counting a quorum\<close>

text \<open>The decisions from the last edit on: all of them where there is none.\<close>

fun since_edit :: "approval_decision list \<Rightarrow> approval_decision list" where
  "since_edit [] = []"
| "since_edit (d # ds) = (if list_ex (\<lambda>x. ad_kind x = ActEdit) ds then since_edit ds else d # ds)"

definition counts :: "approval_decision \<Rightarrow> bool" where
  "counts d \<longleftrightarrow> ad_kind d = ActApprove \<or> ad_kind d = ActEdit"

definition approving :: "approval_decision list \<Rightarrow> subject_ref set" where
  "approving ds = decision_authority ` {d \<in> set (since_edit ds). counts d}"

definition edited_to :: "approval_decision list \<Rightarrow> json option" where
  "edited_to ds = (case since_edit ds of d # _ \<Rightarrow> if ad_kind d = ActEdit then ad_edited_args d else None | [] \<Rightarrow> None)"

lemma since_edit_snoc: "since_edit (ds @ [d]) = (if ad_kind d = ActEdit then [d] else since_edit ds @ [d])"
  by (induction ds) auto

lemma since_edit_subset: "set (since_edit ds) \<subseteq> set ds"
  by (induction ds) auto

abbreviation progress :: "approval_decision list \<Rightarrow> subject_ref list \<times> json option" where
  "progress ds \<equiv> foldl quorum_step ([], None) ds"

lemma edited_to_snoc: "edited_to (ds @ [d]) = (if ad_kind d = ActEdit then ad_edited_args d else edited_to ds)"
  by (auto simp: edited_to_def since_edit_snoc split: list.splits)

lemma approving_snoc:
  "approving (ds @ [d]) =
     (if ad_kind d = ActEdit then {decision_authority d}
      else if ad_kind d = ActApprove then insert (decision_authority d) (approving ds) else approving ds)"
  by (auto simp: approving_def since_edit_snoc counts_def)

lemma approving_Nil: "approving [] = {}"
  by (simp add: approving_def)

lemma progress_spec: "set (fst (progress ds)) = approving ds \<and> distinct (fst (progress ds)) \<and> snd (progress ds) = edited_to ds"
proof (induction ds rule: rev_induct)
  case Nil
  show ?case by (simp add: approving_def edited_to_def)
next
  case (snoc d ds)
  then show ?case
    by (cases "progress ds") (auto simp: approving_snoc edited_to_snoc split: approval_action.splits)
qed

lemma length_progress: "length (fst (progress ds)) = card (approving ds)"
  using progress_spec [of ds] by (metis distinct_card)

section \<open>What every stored request satisfies\<close>

text \<open>A decision was made by someone the policy let decide at that moment: directly or for a delegator whose
  live delegation covered the request, and never by or for the requester where that is forbidden.\<close>

definition authorized :: "approval_delegation set \<Rightarrow> approval_request \<Rightarrow> approval_decision \<Rightarrow> bool" where
  "authorized G q d \<longleftrightarrow>
     ad_kind d \<in> set (rq_allowed q) \<and> \<not> past_expiry (ad_decided_at d) q
     \<and> \<not> (ap_forbid_self (rq_policy q) \<and> (is_self q (ad_approver d) \<or> is_self q (decision_authority d)))
     \<and> (case ad_via d of
          None \<Rightarrow> is_eligible q (ad_approver d) (ad_groups d)
        | Some from \<Rightarrow> \<exists>dl \<in> G. dl_to dl = ad_approver d \<and> dl_from dl = from \<and> delegation_applies dl q (ad_decided_at d))"

lemma is_eligible_more:
  assumes "is_eligible q who groups" and "rq_policy r = rq_policy q" and "rq_escalations_fired q \<le> rq_escalations_fired r"
  shows "is_eligible r who groups"
proof -
  have "set (take (rq_escalations_fired q) xs) \<subseteq> set (take (rq_escalations_fired r) xs)" for xs :: "escalation_step list"
    using assms(3) by (metis min.absorb1 set_take_subset take_take)
  then show ?thesis using assms(1,2) by (fastforce simp: is_eligible_def eligible_approvers_def list_ex_iff)
qed

lemma authorized_move:
  assumes "authorized G q d" and "request_move ch G q r"
  shows "authorized G r d"
proof -
  have s: "same_call q r" and f: "rq_escalations_fired q \<le> rq_escalations_fired r"
    using assms(2) move_same_call move_fired by auto
  have e: "is_eligible q who gs \<Longrightarrow> is_eligible r who gs" for who gs
    using is_eligible_more s f by (auto simp: same_call_def)
  show ?thesis
    using assms(1) s
    by (auto simp: authorized_def same_call_def past_expiry_def is_self_def delegation_applies_def scope_covers_def intro: e
        split: option.splits)
qed

lemma authorized_grant: "authorized G q d \<Longrightarrow> G \<subseteq> H \<Longrightarrow> authorized H q d"
  by (auto simp: authorized_def split: option.splits)

lemma authority_over_sound:
  assumes "authority_over dls q d now = Inr via" and "\<And>dl. dl \<in> set dls \<Longrightarrow> dl_to dl = ad_approver d"
  shows "\<not> (ap_forbid_self (rq_policy q) \<and> is_self q (ad_approver d))"
    and "case via of None \<Rightarrow> is_eligible q (ad_approver d) (ad_groups d)
      | Some from \<Rightarrow> \<not> (ap_forbid_self (rq_policy q) \<and> is_self q from)
          \<and> (\<exists>dl \<in> set dls. dl_to dl = ad_approver d \<and> dl_from dl = from \<and> delegation_applies dl q now)"
proof -
  let ?cand = "filter (\<lambda>dl. (case ad_via d of None \<Rightarrow> True | Some from \<Rightarrow> from = dl_from dl)
      \<and> scope_covers (dl_scope dl) q \<and> is_eligible q (dl_from dl) (dl_from_groups dl)) dls"
  let ?live = "find (\<lambda>dl. window_contains (dl_window dl) now) ?cand"
  show self: "\<not> (ap_forbid_self (rq_policy q) \<and> is_self q (ad_approver d))"
    using assms(1) by (auto simp: authority_over_def Let_def split: if_splits)
  show "case via of None \<Rightarrow> is_eligible q (ad_approver d) (ad_groups d)
      | Some from \<Rightarrow> \<not> (ap_forbid_self (rq_policy q) \<and> is_self q from)
          \<and> (\<exists>dl \<in> set dls. dl_to dl = ad_approver d \<and> dl_from dl = from \<and> delegation_applies dl q now)"
  proof (cases "is_eligible q (ad_approver d) (ad_groups d) \<and> ad_via d = None")
    case True
    then show ?thesis using assms(1) self by (auto simp: authority_over_def Let_def)
  next
    case False
    then obtain dl where dl: "?live = Some dl" "via = Some (dl_from dl)" "\<not> (ap_forbid_self (rq_policy q) \<and> is_self q (dl_from dl))"
      using assms(1) self by (auto simp: authority_over_def Let_def split: if_splits option.split_asm)
    have "dl \<in> set ?cand" "window_contains (dl_window dl) now"
      using dl(1) by (auto simp only: find_Some_iff nth_mem)
    then have "dl \<in> set dls" "delegation_applies dl q now" by (auto simp: delegation_applies_def)
    then show ?thesis using dl(2,3) assms(2) by auto
  qed
qed

lemma decision_made_sound:
  assumes "decision_made dls now q d = Inr d'" and "set dls \<subseteq> G" and "\<And>dl. dl \<in> set dls \<Longrightarrow> dl_to dl = ad_approver d"
  shows "authorized G q d'" and "ad_kind d' = ActApprove \<Longrightarrow> decision_authority d' \<notin> approving (rq_decisions q)"
    and "ad_decided_at d' = now" and "ad_kind d' = ad_kind d" and "ad_approver d' = ad_approver d"
proof -
  obtain d1 where d1: "admissible_decision now (rq_version q) q d = Inr d1" and d': "authorized_decision dls now q d1 = Inr d'"
    using assms(1) by (auto simp: decision_made_def)
  have a: "ad_approver d1 = ad_approver d" "ad_kind d1 = ad_kind d" "ad_kind d \<in> set (rq_allowed q)" "\<not> past_expiry now q"
    "ad_groups d1 = ad_groups d"
    using d1 by (auto simp: admissible_decision_def split: if_splits approval_action.splits)
  obtain via where via: "authority_over dls q d1 now = Inr via" and eq: "d' = d1\<lparr>ad_via := via, ad_decided_at := now\<rparr>"
    using d' by (auto simp: authorized_decision_def Let_def split: sum.splits if_splits)
  show "ad_decided_at d' = now" "ad_kind d' = ad_kind d" "ad_approver d' = ad_approver d" using eq a by auto
  show "authorized G q d'"
    using authority_over_sound [OF via] assms(2,3) a eq
    by (auto simp: authorized_def decision_authority_def split: option.splits)
  show "decision_authority d' \<notin> approving (rq_decisions q)" if "ad_kind d' = ActApprove"
    using d' via eq that progress_spec [of "rq_decisions q"]
    by (auto simp: authorized_decision_def Let_def quorum_progress_def split: if_splits)
qed

definition request_ok :: "approval_delegation set \<Rightarrow> approval_request \<Rightarrow> bool" where
  "request_ok G q \<longleftrightarrow>
     submittable q \<and> list_all (authorized G q) (rq_decisions q)
     \<and> (rq_outcome_applied q \<longrightarrow> resolved (rq_state q))
     \<and> (resolved (rq_state q) \<longleftrightarrow> rq_resolved_at q \<noteq> None)
     \<and> (rq_state q = RqApproved \<longleftrightarrow> ap_quorum (rq_policy q) \<le> card (approving (rq_decisions q)))
     \<and> (rq_state q \<in> {RqPending, RqApproved, RqExpired, RqCancelled} \<longrightarrow> list_all counts (rq_decisions q))"

lemma request_ok_grant: "request_ok G q \<Longrightarrow> G \<subseteq> H \<Longrightarrow> request_ok H q"
  unfolding request_ok_def by (auto simp: list_all_iff intro: authorized_grant)

lemma request_ok_fresh: "fresh_request q \<Longrightarrow> rq_resolved_at q = None \<Longrightarrow> request_ok G q"
  by (auto simp: fresh_request_def request_ok_def resolved_def approving_def submittable_def policy_validate_def
      split: if_splits)

lemma decided_state:
  "rq_state (decided_request now v d q) =
     (case ad_kind d of
        ActReject \<Rightarrow> RqRejected
      | ActRespond \<Rightarrow> RqResponded
      | _ \<Rightarrow> if ap_quorum (rq_policy q) \<le> card (approving (rq_decisions q @ [d])) then RqApproved else RqPending)"
  "rq_resolved_at (decided_request now v d q) =
     (if rq_state (decided_request now v d q) = RqPending then rq_resolved_at q else Some now)"
  by (auto simp: decided_request_def quorum_progress_def length_progress resolved_def Let_def simp del: foldl_append
      split: approval_action.split)

lemma request_ok_decide:
  assumes "request_ok G q" and "decision_made dls now q d = Inr d'" and "set dls \<subseteq> G"
    and "\<And>dl. dl \<in> set dls \<Longrightarrow> dl_to dl = ad_approver d" and m: "request_move ch G q (decided_request now v d' q)"
  shows "request_ok G (decided_request now v d' q)"
proof -
  let ?n = "decided_request now v d' q"
  have p: "rq_state q = RqPending" using assms(2) by (rule decision_made_pending)
  have "authorized G q d'" using decision_made_sound(1) [OF assms(2-4)] .
  then have "list_all (authorized G ?n) (rq_decisions ?n)"
    using assms(1) authorized_move [OF _ m] by (auto simp: request_ok_def list_all_iff move_defs)
  moreover have "submittable ?n" using assms(1) by (simp add: request_ok_def submittable_def move_defs)
  moreover have "rq_state ?n = RqApproved \<longleftrightarrow> ap_quorum (rq_policy ?n) \<le> card (approving (rq_decisions ?n))"
    using assms(1) p by (cases "ad_kind d'") (auto simp: decided_state request_ok_def move_defs approving_snoc)
  moreover have "rq_state ?n \<in> {RqPending, RqApproved, RqExpired, RqCancelled} \<longrightarrow> list_all counts (rq_decisions ?n)"
    using assms(1) p by (cases "ad_kind d'") (auto simp: decided_state request_ok_def move_defs counts_def)
  ultimately show ?thesis
    using assms(1) p unfolding request_ok_def by (auto simp: move_defs decided_state(2) resolved_def)
qed

lemma request_ok_move: "request_move ch G q nx \<Longrightarrow> request_ok G q \<Longrightarrow> request_ok G nx"
proof -
  assume m: "request_move ch G q nx" and ok: "request_ok G q"
  have a: "authorized G q d \<Longrightarrow> authorized G nx d" for d by (rule authorized_move [OF _ m])
  show "request_ok G nx"
    using m
  proof cases
    case (rm_decide dls d now d')
    then show ?thesis using request_ok_decide ok m by blast
  qed (use ok a in \<open>auto simp: request_ok_def move_defs list_all_iff resolved_def submittable_def\<close>)
qed

lemma history_ok: "approval_reach ch esc s \<Longrightarrow> q \<in> set (sy_history s) \<Longrightarrow> request_ok (set (sy_granted s)) q"
proof (induction arbitrary: q rule: reach_induct)
  case init
  then show ?case by (simp add: sys_init_def)
next
  case (step s t)
  note tr = tracked_reach [OF step(1)]
  from step(2,3,4) tr show ?case
  proof (induction rule: approval_step.induct)
    case (as_submit r s now)
    have "request_ok (set (sy_granted s)) (submitted_request ch now r)"
      using as_submit(1) by (intro request_ok_fresh) (auto simp: fresh_request_def submitted_request_def submittable_def)
    then show ?case using as_submit(2,3) by (auto simp: create_step_def store_change_def split: if_splits)
  next
    case (as_move q0 s nx)
    have "rq_id nx = rq_id q0" using as_move(2) by (auto dest: move_same_call simp: same_call_def)
    from swap_cases [OF as_move(5,1) this] show ?case
      using as_move(3,4) request_ok_move [OF as_move(2) as_move(3) [OF as_move(1)]] by (auto simp: store_change_def)
  next
    case (as_delegate s d)
    then show ?case using request_ok_grant [of "set (sy_granted s)" q "insert d (set (sy_granted s))"] by auto
  qed simp_all
qed

section \<open>Outcomes reach the store only from resolved requests\<close>

lemma written_history:
  "approval_reach ch esc s \<Longrightarrow> (q, a) \<in> set (sy_written s) \<Longrightarrow> q \<in> set (sy_history s) \<and> request_outcome q = Some a"
proof (induction rule: reach_induct)
  case (step s t)
  from step(2,3,4) show ?case
    by (induction rule: approval_step.induct) (auto simp: create_step_def swap_step_def store_change_def split: if_splits)
qed (simp add: sys_init_def)

lemma held_written:
  "approval_reach ch esc s \<Longrightarrow> held_decision (sy_calls s) sc fp = Some a \<Longrightarrow>
     \<exists>q. (q, a) \<in> set (sy_written s) \<and> rq_scope q = sc \<and> rq_fingerprint q = fp"
proof (induction rule: reach_induct)
  case (step s t)
  from step(2,3,4) show ?case
    by (induction rule: approval_step.induct)
      (auto simp: create_step_def swap_step_def store_change_def view_simps split: if_splits)
qed (simp add: sys_init_def held_decision_def scope_entries_def)

lemma approve_outcome:
  assumes "request_outcome q = Some a" and "ta_decision a = ApproveCall"
  shows "rq_state q = RqApproved" and "ta_edited_args a = edited_to (rq_decisions q)"
  using assms progress_spec [of "rq_decisions q"]
  by (auto simp: request_outcome_def approval_approve_def approval_deny_def with_edited_args_def with_message_def quorum_progress_def
      split: approval_state.splits option.splits)

lemma held_approval:
  assumes "approval_reach ch esc s" and "held_decision (sy_calls s) sc fp = Some a" and "ta_decision a = ApproveCall"
  shows "\<exists>q \<in> set (sy_history s). rq_scope q = sc \<and> rq_fingerprint q = fp
    \<and> ap_quorum (rq_policy q) \<le> card (approving (rq_decisions q))
    \<and> list_all (\<lambda>d. counts d \<and> authorized (set (sy_granted s)) q d) (rq_decisions q)
    \<and> ta_edited_args a = edited_to (rq_decisions q)"
proof -
  obtain q where q: "(q, a) \<in> set (sy_written s)" "rq_scope q = sc" "rq_fingerprint q = fp"
    using held_written [OF assms(1,2)] by auto
  have h: "q \<in> set (sy_history s)" and out: "request_outcome q = Some a" using written_history [OF assms(1) q(1)] by auto
  note ap = approve_outcome [OF out assms(3)]
  show ?thesis
    using history_ok [OF assms(1) h] h q ap by (intro bexI [of _ q]) (auto simp: request_ok_def list_all_iff)
qed

section \<open>The versions of a request\<close>

lemma chain_frozen:
  assumes "successively (request_move ch G) h" and "resolved (rq_state (h ! i))" and "i \<le> j" and "j < length h"
  shows "h ! j = h ! i \<or> h ! j = applied (h ! i)"
  using assms(3,4)
proof (induction j rule: dec_induct)
  case (step j)
  have m: "request_move ch G (h ! j) (h ! Suc j)"
    using assms(1) step(3,4) by (auto simp: successively_conv_nth)
  have "resolved (rq_state (h ! j))" using step assms(2) by (auto simp: applied_def)
  from move_resolved [OF m this] step show ?case by (auto simp: applied_def)
qed simp

lemma version_position:
  assumes "approval_reach ch esc s" and "q \<in> set (sy_history s)"
  defines "h \<equiv> versions_of (rq_id q) (sy_history s)"
  shows "1 \<le> rq_version q" and "rq_version q - 1 < length h" and "h ! (rq_version q - 1) = q"
proof -
  have t: "successively (request_move ch (set (sy_granted s))) h" "h \<noteq> [] \<Longrightarrow> fresh_request (hd h)"
    using tracked_reach [OF assms(1)] by (auto simp: tracked_def Let_def h_def)
  have q: "q \<in> set h" using assms(2) by (simp add: h_def versions_of_def)
  then have ne: "h \<noteq> []" by auto
  then have v: "map rq_version h = [1 ..< Suc (length h)]"
    using chain_versions [OF t(1) ne] t(2) by (simp add: fresh_request_def)
  obtain k where k: "k < length h" "h ! k = q" using q by (auto simp: in_set_conv_nth)
  have "rq_version q = map rq_version h ! k" using k by simp
  also have "\<dots> = Suc k" unfolding v using k(1) nth_upt [of 1 k "Suc (length h)"] by simp
  finally have "rq_version q = Suc k" .
  then show "1 \<le> rq_version q" and "rq_version q - 1 < length h" and "h ! (rq_version q - 1) = q" using k by auto
qed

lemma frozen:
  assumes "approval_reach ch esc s" and "q \<in> set (sy_history s)" and "r \<in> set (sy_history s)" and "rq_id r = rq_id q"
    and "resolved (rq_state q)" and "rq_version q \<le> rq_version r"
  shows "r = q \<or> r = applied q"
proof -
  let ?h = "versions_of (rq_id q) (sy_history s)"
  have c: "successively (request_move ch (set (sy_granted s))) ?h"
    using tracked_reach [OF assms(1)] by (auto simp: tracked_def Let_def)
  note q = version_position [OF assms(1,2)] and r = version_position [OF assms(1,3), unfolded assms(4)]
  show ?thesis using chain_frozen [OF c, of "rq_version q - 1" "rq_version r - 1"] q r assms(5,6) by auto
qed

lemma outcome_applied: "request_outcome (applied q) = request_outcome q"
proof -
  have "last_reason (applied q) = last_reason q" "quorum_progress (applied q) = quorum_progress q"
    "rq_state (applied q) = rq_state q" "rq_note (applied q) = rq_note q"
    by (auto simp: applied_def quorum_progress_def last_reason_def)
  then show ?thesis by (simp add: request_outcome_def split: approval_state.split)
qed

lemma written_agree:
  assumes "approval_reach ch esc s" and "(q, a) \<in> set (sy_written s)" and "(r, b) \<in> set (sy_written s)" and "rq_id r = rq_id q"
  shows "a = b"
proof -
  note q = written_history [OF assms(1,2)] and r = written_history [OF assms(1,3)]
  have res: "resolved (rq_state q)" "resolved (rq_state r)" using q r by (auto simp: request_outcome_def resolved_def)
  have "request_outcome q = request_outcome r"
  proof (cases "rq_version q \<le> rq_version r")
    case True
    then show ?thesis using frozen [OF assms(1) conjunct1 [OF q] conjunct1 [OF r] assms(4) res(1)] by (auto simp: outcome_applied)
  next
    case False
    then show ?thesis
      using frozen [OF assms(1) conjunct1 [OF r] conjunct1 [OF q] assms(4) [symmetric] res(2)] by (auto simp: outcome_applied)
  qed
  then show ?thesis using q r by simp
qed

lemma move_decisions: "request_move ch G q nx \<Longrightarrow> \<exists>ds. length ds \<le> 1 \<and> rq_decisions nx = rq_decisions q @ ds"
  by (induction rule: request_move.induct) (auto simp: move_defs)

lemma versions_in_turn:
  assumes "approval_reach ch esc s"
  shows "map rq_version (versions_of i (sy_history s)) = [1 ..< Suc (length (versions_of i (sy_history s)))]
    \<and> successively (\<lambda>q r. \<exists>ds. length ds \<le> 1 \<and> rq_decisions r = rq_decisions q @ ds) (versions_of i (sy_history s))"
proof -
  let ?h = "versions_of i (sy_history s)"
  have t: "successively (request_move ch (set (sy_granted s))) ?h" "?h \<noteq> [] \<Longrightarrow> fresh_request (hd ?h)"
    using tracked_reach [OF assms] by (auto simp: tracked_def Let_def)
  have "map rq_version ?h = [1 ..< Suc (length ?h)]"
    using chain_versions [OF t(1)] t(2) by (cases "?h = []") (simp_all add: fresh_request_def)
  with successively_mono' [OF t(1) move_decisions] show ?thesis by simp
qed

section \<open>The theorems\<close>


text \<open>C18: a resolved request is final: no later version of it differs but for the mark that its outcome was applied,
  and every outcome any process wrote for it is the one its resolution means.\<close>

theorem resolution_final:
  assumes "approval_reach ch esc s" and "q \<in> set (sy_history s)" and "resolved (rq_state q)"
  shows "(\<forall>r \<in> set (sy_history s). rq_id r = rq_id q \<longrightarrow> rq_version q \<le> rq_version r \<longrightarrow> r = q \<or> r = applied q)
    \<and> (\<forall>(r, a) \<in> set (sy_written s). rq_id r = rq_id q \<longrightarrow> request_outcome q = Some a)"
proof (intro conjI ballI impI)
  fix r assume "r \<in> set (sy_history s)" "rq_id r = rq_id q" "rq_version q \<le> rq_version r"
  then show "r = q \<or> r = applied q" using frozen [OF assms(1,2)] assms(3) by blast
next
  fix p assume p: "p \<in> set (sy_written s)"
  obtain r a where ra: "p = (r, a)" by fastforce
  note w = written_history [OF assms(1) p [unfolded ra]]
  have "request_outcome q = request_outcome r" if i: "rq_id r = rq_id q"
  proof (cases "rq_version q \<le> rq_version r")
    case True
    then show ?thesis using frozen [OF assms(1,2) conjunct1 [OF w] i assms(3)] by (auto simp: outcome_applied)
  next
    case False
    have "resolved (rq_state r)" using w by (auto simp: request_outcome_def resolved_def)
    then show ?thesis
      using frozen [OF assms(1) conjunct1 [OF w] assms(2) i [symmetric]] False by (auto simp: outcome_applied)
  qed
  then show "case p of (r, a) \<Rightarrow> rq_id r = rq_id q \<longrightarrow> request_outcome q = Some a" using w ra by simp
qed

text \<open>decisions land one at a time: whatever processes do at once, the stored versions of a request count from 1
  without a gap, so that one change wins each version, and each version keeps the decisions of the one before
  and adds at most one.\<close>

theorem decisions_in_turn:
  assumes "approval_reach ch esc s"
  shows "map rq_version (versions_of i (sy_history s)) = [1 ..< Suc (length (versions_of i (sy_history s)))]
    \<and> successively (\<lambda>q r. \<exists>ds. length ds \<le> 1 \<and> rq_decisions r = rq_decisions q @ ds) (versions_of i (sy_history s))"
  by (rule versions_in_turn [OF assms])

section \<open>One approved request\<close>

definition demo_scope :: approval_scope where
  "demo_scope = \<lparr>as_app_name = ''app'', as_user_id = ''u'', as_session_id = ''s''\<rparr>"

definition demo_submitted :: approval_request where
  "demo_submitted = submitted_request plain_chrono 0
     (approval_request_new id 0 ''apr'' demo_scope (confirmation_request_new ''pay'' JNull)
       (approval_policy_new [SelSubject (human ''ana'')]))"

definition demo_approved :: approval_request where
  "demo_approved = decided_request 1 1 (decision_approve 1 (human ''ana'')) demo_submitted"

definition demo_sys :: approval_sys where
  "demo_sys =
     (let s = store_change demo_approved (store_change demo_submitted sys_init)
      in s\<lparr>sy_calls := store_decide demo_scope (rq_fingerprint demo_approved) approval_approve (sy_calls s),
           sy_written := sy_written s @ [(demo_approved, approval_approve)]\<rparr>)"

lemma demo_submitted_simps:
  "rq_id demo_submitted = ''apr''" "rq_version demo_submitted = 1" "rq_state demo_submitted = RqPending"
  "rq_decisions demo_submitted = []" "rq_policy demo_submitted = approval_policy_new [SelSubject (human ''ana'')]"
  "rq_outcome_applied demo_submitted = False" "rq_expires_at demo_submitted = None"
  "rq_allowed demo_submitted = all_actions" "rq_requester demo_submitted = None" "rq_acting demo_submitted = None"
  "rq_scope demo_submitted = demo_scope"
  by (simp_all add: demo_submitted_def submitted_request_def approval_request_new_def approval_policy_new_def)

lemma demo_made: "decision_made [] 1 demo_submitted (decision_approve 1 (human ''ana'')) = Inr (decision_approve 1 (human ''ana''))"
  by (simp add: decision_made_def admissible_decision_def demo_submitted_simps resolved_def past_expiry_def all_actions_def
      decision_approve_def decision_new_def authorized_decision_def authority_over_def is_self_def is_eligible_def
      eligible_approvers_def approval_policy_new_def quorum_progress_def)

lemma demo_move: "request_move plain_chrono G demo_submitted demo_approved"
  using rm_decide [of "[]" G _ 1 demo_submitted, OF _ _ demo_made] by (simp add: demo_approved_def demo_submitted_simps)

lemma demo_state: "rq_state demo_approved = RqApproved" "rq_version demo_approved = 2" "rq_id demo_approved = ''apr''"
  "rq_outcome_applied demo_approved = False" "rq_scope demo_approved = demo_scope"
  "rq_decisions demo_approved = [decision_approve 1 (human ''ana'')]"
  by (simp_all add: demo_approved_def decided_state move_defs demo_submitted_simps decision_approve_def decision_new_def
      approving_snoc [of "[]", simplified] approving_Nil approval_policy_new_def)

lemma demo_outcome: "request_outcome demo_approved = Some approval_approve"
  by (simp add: request_outcome_def demo_state quorum_progress_def decision_approve_def decision_new_def)

lemma demo_sys_reach: "approval_reach plain_chrono id demo_sys"
proof -
  let ?r = "approval_request_new id 0 ''apr'' demo_scope (confirmation_request_new ''pay'' JNull)
    (approval_policy_new [SelSubject (human ''ana'')])"
  have sub: "submittable ?r"
    by (simp add: submittable_def approval_request_new_def approval_policy_new_def policy_validate_def all_actions_def)
  let ?s1 = "store_change demo_submitted sys_init"
  have "create_step demo_submitted sys_init = ?s1" by (simp add: create_step_def sys_init_def)
  then have r1: "approval_reach plain_chrono id ?s1"
    using reach_step [OF reach_init as_submit [OF sub, of plain_chrono id sys_init 0]] by (simp add: demo_submitted_def)
  let ?s2 = "store_change demo_approved ?s1"
  have "demo_submitted \<in> set (sy_history ?s1)" by (simp add: store_change_def)
  from reach_step [OF r1 as_move [OF this demo_move]]
  have r2: "approval_reach plain_chrono id ?s2"
    by (simp add: swap_step_def store_change_def demo_state demo_submitted_simps)
  have "demo_approved \<in> set (sy_history ?s2)" by (simp add: store_change_def)
  from reach_step [OF r2 as_write [OF this _ demo_outcome]]
  show ?thesis by (simp add: demo_sys_def Let_def demo_state)
qed


theorem resolution_final_witness:
  "resolved (rq_state demo_approved) \<and> (demo_approved, approval_approve) \<in> set (sy_written demo_sys)
   \<and> request_outcome demo_approved = Some approval_approve"
proof -
  have "demo_approved \<in> set (sy_history demo_sys)" "(demo_approved, approval_approve) \<in> set (sy_written demo_sys)"
    by (simp_all add: demo_sys_def Let_def store_change_def)
  moreover have "resolved (rq_state demo_approved)" by (simp add: demo_state resolved_def)
  ultimately show ?thesis using resolution_final [OF demo_sys_reach, of demo_approved] by auto
qed

theorem decisions_in_turn_witness: "map rq_version (versions_of ''apr'' (sy_history demo_sys)) = [1, 2]"
proof -
  have "length (versions_of ''apr'' (sy_history demo_sys)) = 2"
    by (simp add: demo_sys_def Let_def store_change_def versions_of_def demo_state demo_submitted_simps sys_init_def)
  then show ?thesis using decisions_in_turn [OF demo_sys_reach, of "''apr''"] by (simp add: upt_rec)
qed

end
