(* ===== verification/Approval_Sim.thy ===== *)
theory Approval_Sim
  imports Approval_Props
begin

text \<open>
  The service's operations as runs of the interleaved system: what each of them does to the store is a
  sequence of steps of its processes, so what holds after any steps holds after any operations.
\<close>

section \<open>The store a state and a world share\<close>

definition sees :: "approval_sys \<Rightarrow> approval_world \<Rightarrow> bool" where
  "sees s w \<longleftrightarrow> sy_requests s = aw_requests w \<and> sy_delegations s = aw_delegations w \<and> sy_calls s = aw_calls w"

lemma sees_notify [simp]: "sees s (notify sv k r d st w) = sees s w"
  by (simp add: sees_def notify_def read_clock_def Let_def)

lemma sees_wake [simp]: "sees s (wake_waiting_run sv r w) = sees s w"
  by (simp add: sees_def wake_waiting_run_def read_clock_def Let_def split: option.split)

lemma sees_clock [simp]: "sees s (w\<lparr>aw_reads := n\<rparr>) = sees s w" "sees s (w\<lparr>aw_records := rs\<rparr>) = sees s w"
  by (simp_all add: sees_def)

lemma sees_escalated [simp]: "sees s (fold (\<lambda>st. notify sv k r d (Some st)) sts w) = sees s w"
  by (induction sts arbitrary: w) simp_all

text \<open>The steps from one state to another, where the second one shares the store with a world.\<close>

definition leads :: "chrono \<Rightarrow> (string \<Rightarrow> string) \<Rightarrow> approval_sys \<Rightarrow> approval_sys \<Rightarrow> approval_world \<Rightarrow> bool" where
  "leads ch esc s t w \<longleftrightarrow> (approval_step ch esc)\<^sup>*\<^sup>* s t \<and> sees t w"

lemma leads_refl: "sees s w \<Longrightarrow> leads ch esc s s w"
  by (simp add: leads_def)

lemma leads_step: "leads ch esc s t w \<Longrightarrow> approval_step ch esc t u \<Longrightarrow> sees u w' \<Longrightarrow> leads ch esc s u w'"
  by (auto simp: leads_def)

lemma leads_world: "leads ch esc s t w \<Longrightarrow> sees t w' \<Longrightarrow> leads ch esc s t w'"
  by (simp add: leads_def)

lemma leads_reach: "approval_reach ch esc s \<Longrightarrow> leads ch esc s t w \<Longrightarrow> approval_reach ch esc t"
  by (auto simp: leads_def approval_reach_def)

lemma history_grows: "approval_step ch esc s t \<Longrightarrow> set (sy_history s) \<subseteq> set (sy_history t)"
  by (induction rule: approval_step.induct) (auto simp: create_step_def swap_step_def store_change_def)

section \<open>What reachable states know of the tables\<close>

lemma reach_keys: "approval_reach ch esc s \<Longrightarrow> distinct (keys (sy_requests s))"
proof (induction rule: reach_induct)
  case (step s t)
  from step(2,3) show ?case
    by (induction rule: approval_step.induct) (auto simp: create_step_def swap_step_def store_change_def intro: distinct_update)
qed (simp add: sys_init_def)

lemma vals_update: "snd ` set (AList.update k v xs) \<subseteq> insert v (snd ` set xs)"
  by (induction xs) auto

lemma reach_granted: "approval_reach ch esc s \<Longrightarrow> snd ` set (sy_delegations s) \<subseteq> set (sy_granted s)"
proof (induction rule: reach_induct)
  case (step s t)
  from step(2,3) show ?case
  proof (induction rule: approval_step.induct)
    case (as_delegate s d)
    have "snd ` set (AList.update (dl_id d) d (sy_delegations s)) \<subseteq> insert d (snd ` set (sy_delegations s))"
      by (rule vals_update)
    then show ?case using as_delegate by auto
  next
    case (as_revoke s i)
    then show ?case by (auto simp: AList.delete_eq)
  qed (auto simp: create_step_def swap_step_def store_change_def)
qed (simp add: sys_init_def)

lemma stored_history:
  assumes "approval_reach ch esc s" and "lookup (sy_requests s) i = Some q"
  shows "q \<in> set (sy_history s)" and "rq_id q = i"
proof -
  let ?h = "versions_of i (sy_history s)"
  have "?h \<noteq> []" "q = last ?h" using tracked_reach [OF assms(1)] assms(2) by (auto simp: tracked_def Let_def split: if_splits)
  then have "q \<in> set ?h" by simp
  then show "q \<in> set (sy_history s)" and "rq_id q = i" by (auto simp: versions_of_def)
qed

section \<open>The service's writes as steps\<close>

lemma sim_replace:
  assumes "leads ch esc s t w" and "q \<in> set (sy_history t)" and "request_move ch (set (sy_granted t)) q nx"
  shows "\<exists>u. leads ch esc s u (snd (replace_request nx (rq_version q) w)) \<and> set (sy_history t) \<subseteq> set (sy_history u)
    \<and> (fst (replace_request nx (rq_version q) w) \<longrightarrow> nx \<in> set (sy_history u))"
proof -
  let ?u = "swap_step nx (rq_version q) t"
  have st: "approval_step ch esc t ?u" using assms(2,3) by (rule as_move)
  have se: "sees t w" using assms(1) by (simp add: leads_def)
  then have "sees ?u (snd (replace_request nx (rq_version q) w))"
    by (auto simp: sees_def replace_request_def swap_step_def store_change_def split: option.splits)
  moreover have "fst (replace_request nx (rq_version q) w) \<longrightarrow> nx \<in> set (sy_history ?u)"
    using se by (auto simp: sees_def replace_request_def swap_step_def store_change_def split: option.splits if_splits)
  ultimately show ?thesis using leads_step [OF assms(1) st] history_grows [OF st] by blast
qed

lemma sim_apply:
  assumes "leads ch esc s t w" and "q \<in> set (sy_history t)"
  shows "\<exists>u. leads ch esc s u (snd (apply_request sv b q w)) \<and> set (sy_history t) \<subseteq> set (sy_history u)"
proof (cases "request_outcome q")
  case None
  then show ?thesis using assms(1) by (auto simp: apply_request_def)
next
  case (Some outc)
  show ?thesis
  proof (cases "rq_outcome_applied q")
    case True
    then show ?thesis using assms(1) Some by (auto simp: apply_request_def)
  next
    case False
    let ?w1 = "if \<not> b \<or> call_pending q w
      then w\<lparr>aw_calls := store_decide (rq_scope q) (rq_fingerprint q) outc (aw_calls w)\<rparr> else w"
    have "\<exists>u. leads ch esc s u ?w1 \<and> set (sy_history u) = set (sy_history t) \<and> set (sy_granted u) = set (sy_granted t)"
    proof (cases "\<not> b \<or> call_pending q w")
      case True
      note st = as_write [OF assms(2) False Some, where ch = ch and esc = esc]
      have "sees (t\<lparr>sy_calls := store_decide (rq_scope q) (rq_fingerprint q) outc (sy_calls t),
          sy_written := sy_written t @ [(q, outc)]\<rparr>) ?w1"
        using True assms(1) by (simp add: leads_def sees_def)
      from leads_step [OF assms(1) st this] show ?thesis by (intro exI conjI, assumption) simp_all
    next
      case False
      then show ?thesis using assms(1) by auto
    qed
    then obtain u where u: "leads ch esc s u ?w1" "set (sy_history u) = set (sy_history t)" by blast
    have m: "request_move ch (set (sy_granted u)) q (applied q)"
      using Some False by (intro rm_apply) (auto simp: request_outcome_def resolved_def)
    have "leads ch esc s u (wake_waiting_run sv q ?w1)" using u(1) by (simp add: leads_def)
    from sim_replace [OF this _ m] assms(2) u(2) Some False show ?thesis
      by (auto simp: apply_request_def Let_def split: prod.splits)
  qed
qed

lemma sim_create:
  assumes "leads ch esc s t w" and "submittable r"
  shows "\<exists>u. leads ch esc s u (snd (create_request (submitted_request ch now r) w))"
proof -
  have "sees (create_step (submitted_request ch now r) t) (snd (create_request (submitted_request ch now r) w))"
    using assms(1) by (auto simp: leads_def sees_def create_request_def create_step_def store_change_def split: option.split)
  from leads_step [OF assms(1) as_submit [OF assms(2)] this] show ?thesis by blast
qed

lemma sim_submit:
  assumes "leads (sv_chrono sv) esc s t w"
  shows "\<exists>u. leads (sv_chrono sv) esc s u (snd (approval_submit sv r w))"
proof (cases "policy_validate (rq_policy r) = Inr () \<and> rq_id r \<noteq> [] \<and> rq_allowed r \<noteq> []")
  case False
  have "snd (approval_submit sv r w) = w"
  proof (cases "policy_validate (rq_policy r)")
    case (Inr x)
    then have "rq_id r = [] \<or> rq_allowed r = []" using False by auto
    with Inr show ?thesis by (elim disjE) (simp_all add: approval_submit_def split: unit.split)
  qed (simp add: approval_submit_def)
  then show ?thesis using assms by metis
next
  case True
  let ?r = "submitted_request (sv_chrono sv) (fst (read_clock w)) r" and ?w = "snd (read_clock w)"
  have "leads (sv_chrono sv) esc s t ?w" using assms by (simp add: leads_def read_clock_def)
  then obtain u where u: "leads (sv_chrono sv) esc s u (snd (create_request ?r ?w))"
    using sim_create True by (fastforce simp: submittable_def)
  obtain stored w1 where c: "create_request ?r ?w = (stored, w1)" by fastforce
  have "snd (approval_submit sv r w) = (if stored = ?r then notify sv EvSubmitted stored None None w1 else w1)"
    using True c by (simp add: approval_submit_def read_clock_def Let_def split: unit.split)
  then have "leads (sv_chrono sv) esc s u (snd (approval_submit sv r w))" using u c by (simp add: leads_def)
  then show ?thesis by blast
qed

lemma sim_submit_call:
  assumes "leads (sv_chrono sv) (sv_esc sv) s t w"
  shows "\<exists>u. leads (sv_chrono sv) (sv_esc sv) s u (snd (approval_submit_call sv c w))"
proof (cases "Option.bind (sv_router sv) (\<lambda>route. route c)")
  case None
  then show ?thesis using assms by (auto simp: approval_submit_call_def)
next
  case (Some ro)
  let ?held_at = "fst (read_clock w)"
  let ?w = "(snd (read_clock w))\<lparr>aw_calls := store_record_pending (sv_esc sv) ?held_at (ac_scope c) (ac_request c) (aw_calls w)\<rparr>"
  let ?u = "t\<lparr>sy_calls := store_record_pending (sv_esc sv) ?held_at (ac_scope c) (ac_request c) (sy_calls t)\<rparr>"
  have "sees ?u ?w" using assms by (simp add: leads_def sees_def read_clock_def)
  then have l: "leads (sv_chrono sv) (sv_esc sv) s ?u ?w" using leads_step [OF assms as_hold] by blast
  then have l2: "leads (sv_chrono sv) (sv_esc sv) s ?u (snd (read_clock ?w))"
    by (rule leads_world) (use \<open>sees ?u ?w\<close> in \<open>simp add: sees_def read_clock_def\<close>)
  show ?thesis
  proof (cases "find (\<lambda>e. pa_fingerprint e = fingerprint (sv_esc sv) (ac_request c)) (store_pending (aw_calls ?w) (ac_scope c))")
    case None
    then show ?thesis using l Some by (auto simp: approval_submit_call_def Let_def read_clock_def)
  next
    case (Some held)
    obtain u where "leads (sv_chrono sv) (sv_esc sv) s u
        (snd (approval_submit sv (routed_request sv (fst (read_clock ?w)) c ro held) (snd (read_clock ?w))))"
      using sim_submit [OF l2] by blast
    moreover have "snd (approval_submit_call sv c w)
        = snd (approval_submit sv (routed_request sv (fst (read_clock ?w)) c ro held) (snd (read_clock ?w)))"
      using Some \<open>Option.bind (sv_router sv) (\<lambda>route. route c) = Some ro\<close>
      by (simp add: approval_submit_call_def Let_def read_clock_def split_beta)
    ultimately show ?thesis by auto
  qed
qed

lemma sim_swap:
  assumes "leads ch esc s t w" and "q \<in> set (sy_history t)" and "request_move ch (set (sy_granted t)) q nx"
  shows "\<exists>u. leads ch esc s u (snd (swap_request nx (rq_version q) w))
    \<and> (fst (swap_request nx (rq_version q) w) = Inr () \<longrightarrow> nx \<in> set (sy_history u))"
  using sim_replace [OF assms] by (auto simp: swap_request_def Let_def split: prod.split if_split)

lemma decide_made:
  "admissible_decision now expected q d = Inr d1 \<Longrightarrow> expected = rq_version q \<and> ad_approver d1 = ad_approver d"
  by (auto simp: admissible_decision_def split: if_splits approval_action.splits)

lemma sees_audit [simp]: "sees s (snd (audit_decision_record sv r v d w)) = sees s w"
  by (auto simp: audit_decision_record_def split: option.split prod.split)

lemma delegations_granted:
  "approval_reach ch esc t \<Longrightarrow> sees t w \<Longrightarrow> set (delegations_to who w) \<subseteq> set (sy_granted t) \<and> (\<forall>dl \<in> set (delegations_to who w). dl_to dl = who)"
  using reach_granted [of ch esc t] by (auto simp: delegations_to_def sees_def)

lemma sim_resolve:
  assumes "leads ch esc s t w" and "q \<in> set (sy_history t)" and "request_move ch (set (sy_granted t)) q nx"
    and that: "\<And>u w. sees u (f w) = sees u w" "\<And>u r w. sees u (g (r, w)) = sees u w"
  shows "\<exists>u. leads ch esc s u (let (ok, w) = swap_request nx (rq_version q) w in
      case ok of Inl e \<Rightarrow> w | Inr () \<Rightarrow> (let w = f w in if b then w else g (apply_request sv False nx w)))"
proof -
  obtain u where u: "leads ch esc s u (snd (swap_request nx (rq_version q) w))"
    "fst (swap_request nx (rq_version q) w) = Inr () \<longrightarrow> nx \<in> set (sy_history u)"
    using sim_swap [OF assms(1-3)] by blast
  obtain ok w1 where ok: "swap_request nx (rq_version q) w = (ok, w1)" by fastforce
  show ?thesis
  proof (cases ok)
    case (Inl e)
    then show ?thesis using u ok by auto
  next
    case (Inr x)
    then have okI: "ok = Inr ()" by simp
    have l: "leads ch esc s u (f w1)" using u(1) ok that(1) by (simp add: leads_def)
    have nx: "nx \<in> set (sy_history u)" using u(2) ok Inr by simp
    obtain v where v: "leads ch esc s v (snd (apply_request sv False nx (f w1)))" using sim_apply [OF l nx] by blast
    have "leads ch esc s v (g (apply_request sv False nx (f w1)))"
      using v that(2) by (cases "apply_request sv False nx (f w1)") (simp add: leads_def)
    moreover have "(let (ok, w) = swap_request nx (rq_version q) w in
        case ok of Inl e \<Rightarrow> w | Inr () \<Rightarrow> (let w = f w in if b then w else g (apply_request sv False nx w)))
      = (if b then f w1 else g (apply_request sv False nx (f w1)))"
      by (simp add: ok okI Let_def split: unit.split)
    ultimately show ?thesis using l by auto
  qed
qed

lemma decide_world:
  assumes "get_request i (snd (read_clock w)) = Some q"
    and "result_bind (admissible_decision (fst (read_clock w)) v q d)
      (\<lambda>d. authorized_decision (delegations_to (ad_approver d) (snd (read_clock w))) (fst (read_clock w)) q d) = Inr d'"
    and "audit_decision_record sv q v d' (snd (read_clock w)) = (res, w1)" and "v = rq_version q"
  defines "nx \<equiv> decided_request (fst (read_clock w)) v d' q"
  shows "snd (approval_decide sv i v d w) = (case res of Inl e \<Rightarrow> w1 | Inr () \<Rightarrow>
     (let (ok, w) = swap_request nx (rq_version q) w1 in
      case ok of Inl e \<Rightarrow> w | Inr () \<Rightarrow> (let w = notify sv EvDecided nx (Some d') None w in
        if \<not> resolved (rq_state nx) then w
        else (\<lambda>(r, w). notify sv EvResolved r None None w) (apply_request sv False nx w))))"
proof -
  obtain now w0 where rc: "read_clock w = (now, w0)" by fastforce
  obtain ok w2 where sw: "swap_request nx (rq_version q) w1 = (ok, w2)" by fastforce
  obtain r3 w3 where ap: "apply_request sv False nx (notify sv EvDecided nx (Some d') None w2) = (r3, w3)" by fastforce
  note facts = assms(1-3) [unfolded rc fst_conv snd_conv] sw [unfolded nx_def rc fst_conv, folded assms(4)]
    ap [unfolded nx_def rc fst_conv]
  show ?thesis
    by (cases res; cases ok) (simp_all only: approval_decide_def rc facts nx_def Let_def assms(4) [symmetric] sum.case prod.case fst_conv snd_conv option.case if_distrib [of snd] split: unit.split, simp_all)
qed

lemma sim_decide:
  assumes r: "approval_reach (sv_chrono sv) esc s" and l: "leads (sv_chrono sv) esc s t w"
  shows "\<exists>u. leads (sv_chrono sv) esc s u (snd (approval_decide sv i v d w))"
proof -
  let ?w = "snd (read_clock w)" and ?now = "fst (read_clock w)"
  have lw: "leads (sv_chrono sv) esc s t ?w" and se: "sees t ?w" using l by (auto simp: leads_def read_clock_def)
  note rt = leads_reach [OF r l]
  show ?thesis
  proof (cases "get_request i ?w")
    case None
    then show ?thesis using lw by (auto simp: approval_decide_def read_clock_def)
  next
    case (Some q)
    note q = stored_history [OF rt, of i q]
    have qh: "q \<in> set (sy_history t)" using q(1) Some se by (simp add: get_request_def sees_def)
    let ?made = "result_bind (admissible_decision ?now v q d) (\<lambda>d. authorized_decision (delegations_to (ad_approver d) ?w) ?now q d)"
    show ?thesis
    proof (cases ?made)
      case (Inl e)
      then show ?thesis using lw Some by (auto simp: approval_decide_def read_clock_def)
    next
      case (Inr d')
      then obtain d1 where d1: "admissible_decision ?now v q d = Inr d1" by auto
      then have v: "v = rq_version q" and a1: "ad_approver d1 = ad_approver d" using decide_made by auto
      have made: "decision_made (delegations_to (ad_approver d) ?w) ?now q d = Inr d'"
        using Inr d1 v a1 by (simp add: decision_made_def)
      have m: "request_move (sv_chrono sv) (set (sy_granted t)) q (decided_request ?now v d' q)"
        unfolding v using delegations_granted [OF rt se] made by (intro rm_decide) auto
      obtain res w1 where au: "audit_decision_record sv q v d' ?w = (res, w1)" by fastforce
      have l1: "leads (sv_chrono sv) esc s t w1" using lw sees_audit [of t sv q v d' ?w] au by (simp add: leads_def)
      let ?nx = "decided_request ?now v d' q"
      let ?after = "let (ok, w) = swap_request ?nx (rq_version q) w1 in
          case ok of Inl e \<Rightarrow> w | Inr () \<Rightarrow> (let w = notify sv EvDecided ?nx (Some d') None w in
            if \<not> resolved (rq_state ?nx) then w
            else (\<lambda>(r, w). notify sv EvResolved r None None w) (apply_request sv False ?nx w))"
      have ex: "\<exists>u. leads (sv_chrono sv) esc s u ?after"
        using l1 qh m by (rule sim_resolve) simp_all
      have world: "snd (approval_decide sv i v d w) = (case res of Inl e \<Rightarrow> w1 | Inr () \<Rightarrow> ?after)"
        by (rule decide_world [OF Some Inr au v])
      show ?thesis
      proof (cases res)
        case (Inl e)
        then have "snd (approval_decide sv i v d w) = w1" by (simp only: world sum.case)
        then show ?thesis using l1 by metis
      next
        case (Inr x)
        then have "res = Inr ()" by simp
        then have "snd (approval_decide sv i v d w) = ?after" by (simp only: world sum.case old.unit.case)
        then show ?thesis using ex by metis
      qed
    qed
  qed
qed

lemma cancel_world:
  fixes why :: "string option"
  assumes "get_request i w = Some q" and "rq_state q = RqPending"
  defines "nx \<equiv> cancelled_request (fst (read_clock w)) why q"
  shows "snd (approval_cancel sv i why w) =
     (let (ok, w) = swap_request nx (rq_version q) (snd (read_clock w)) in
      case ok of Inl e \<Rightarrow> w | Inr () \<Rightarrow> (let w = id w in
        if False then w else (\<lambda>(r, w). notify sv EvCancelled r None None w) (apply_request sv False nx w)))"
proof -
  obtain now w0 where rc: "read_clock w = (now, w0)" by fastforce
  obtain ok w2 where sw: "swap_request nx (rq_version q) w0 = (ok, w2)" by fastforce
  obtain r3 w3 where ap: "apply_request sv False nx w2 = (r3, w3)" by fastforce
  show ?thesis
    using assms(1,2) sw [unfolded nx_def rc fst_conv] ap [unfolded nx_def rc fst_conv]
    by (cases ok) (simp_all add: approval_cancel_def rc nx_def Let_def resolved_def split: unit.split)
qed

lemma sim_cancel:
  assumes r: "approval_reach (sv_chrono sv) esc s" and l: "leads (sv_chrono sv) esc s t w"
  shows "\<exists>u. leads (sv_chrono sv) esc s u (snd (approval_cancel sv i why w))"
proof (cases "\<exists>q. get_request i w = Some q \<and> rq_state q = RqPending")
  case False
  then have "snd (approval_cancel sv i why w) = w"
    by (auto simp: approval_cancel_def resolved_def split: option.split)
  then show ?thesis using l by metis
next
  case True
  then obtain q where q: "get_request i w = Some q" "rq_state q = RqPending" by blast
  have qh: "q \<in> set (sy_history t)"
    using stored_history(1) [OF leads_reach [OF r l], of i q] q(1) l by (simp add: leads_def sees_def get_request_def)
  have l1: "leads (sv_chrono sv) esc s t (snd (read_clock w))" using l by (simp add: leads_def read_clock_def)
  show ?thesis
    unfolding cancel_world [OF q] by (rule sim_resolve [OF l1 qh rm_cancel [OF q(2)]]) simp_all
qed

lemma sim_delegate:
  assumes "leads ch esc s t w"
  shows "\<exists>u. leads ch esc s u (snd (approval_delegate d w))"
proof (cases "dw_not_after (dl_window d) \<le> dw_not_before (dl_window d) \<or> dl_from d = dl_to d \<or> dl_id d = []")
  case True
  then have "snd (approval_delegate d w) = w" by (auto simp: approval_delegate_def)
  then show ?thesis using assms by metis
next
  case False
  let ?d = "d\<lparr>dl_created_at := fst (read_clock w)\<rparr>"
  have w: "snd (approval_delegate d w) = put_delegation ?d (snd (read_clock w))"
    using False by (simp add: approval_delegate_def read_clock_def Let_def)
  have "sees (t\<lparr>sy_delegations := AList.update (dl_id ?d) ?d (sy_delegations t), sy_granted := sy_granted t @ [?d]\<rparr>)
      (put_delegation ?d (snd (read_clock w)))"
    using assms by (simp add: leads_def sees_def put_delegation_def read_clock_def)
  from leads_step [OF assms as_delegate this] show ?thesis unfolding w by blast
qed

lemma sim_revoke:
  assumes "leads ch esc s t w"
  shows "\<exists>u. leads ch esc s u (snd (delete_delegation i w))"
proof -
  have "sees (t\<lparr>sy_delegations := AList.delete i (sy_delegations t)\<rparr>) (snd (delete_delegation i w))"
    using assms by (simp add: leads_def sees_def delete_delegation_def)
  from leads_step [OF assms as_revoke this] show ?thesis by blast
qed

section \<open>The tick\<close>

lemma pending_state: "\<not> resolved st \<longleftrightarrow> st = RqPending"
  by (simp add: resolved_def)

lemma sim_tick_request:
  assumes "leads (sv_chrono sv) esc s t w" and "q \<in> set (sy_history t)"
  shows "\<exists>u. leads (sv_chrono sv) esc s u (snd (tick_request sv now q (rep, w))) \<and> set (sy_history t) \<subseteq> set (sy_history u)"
proof -
  consider "resolved (rq_state q)" | "rq_state q = RqPending" "past_expiry now q"
    | "rq_state q = RqPending" "\<not> past_expiry now q" by (auto simp: resolved_def)
  then show ?thesis
  proof cases
    case 1
    then show ?thesis
      using assms(1) sim_apply [OF assms, of sv True] by (auto simp: tick_request_def Let_def split: prod.splits)
  next
    case 2
    let ?nx = "expired_request now q"
    obtain ok w1 where w1: "replace_request ?nx (rq_version q) w = (ok, w1)" by fastforce
    obtain r2 w2 where w2: "apply_request sv False ?nx w1 = (r2, w2)" by fastforce
    obtain u where u: "leads (sv_chrono sv) esc s u w1" "set (sy_history t) \<subseteq> set (sy_history u)" "ok \<longrightarrow> ?nx \<in> set (sy_history u)"
      using sim_replace [OF assms rm_expire [OF 2]] w1 by auto
    have eq: "snd (tick_request sv now q (rep, w)) = (if ok then notify sv EvExpired r2 None None w2 else w1)"
      using 2 w1 w2 by (simp add: tick_request_def Let_def resolved_def)
    show ?thesis
    proof (cases ok)
      case True
      obtain v where "leads (sv_chrono sv) esc s v w2" "set (sy_history u) \<subseteq> set (sy_history v)"
        using sim_apply [OF u(1), of ?nx sv False] u(3) True w2 by auto
      then show ?thesis using True eq u(2) by (intro exI [of _ v]) (auto simp: leads_def)
    qed (use eq u in auto)
  next
    case 3
    let ?due = "steps_due (sv_chrono sv) now q"
    let ?nx = "escalated_request ?due q"
    show ?thesis
    proof (cases "?due \<le> rq_escalations_fired q")
      case True
      then have "snd (tick_request sv now q (rep, w)) = w" using 3 by (simp add: tick_request_def Let_def resolved_def)
      then show ?thesis using assms(1) by auto
    next
      case False
      obtain ok w1 where w1: "replace_request ?nx (rq_version q) w = (ok, w1)" by fastforce
      have "rq_escalations_fired q < ?due" using False by simp
      from sim_replace [OF assms rm_escalate [OF 3 this]] w1
      obtain u where u: "leads (sv_chrono sv) esc s u w1" "set (sy_history t) \<subseteq> set (sy_history u)" by auto
      have "snd (tick_request sv now q (rep, w))
          = (if ok then fold (\<lambda>st. notify sv EvEscalated ?nx None (Some st)) [rq_escalations_fired q ..< ?due] w1 else w1)"
        using 3 False w1 by (simp add: tick_request_def Let_def resolved_def)
      then show ?thesis using u by (intro exI [of _ u]) (auto simp: leads_def)
    qed
  qed
qed

lemma sim_tick_batch:
  assumes "leads (sv_chrono sv) esc s t (snd p)" and "set batch \<subseteq> set (sy_history t)"
  shows "\<exists>u. leads (sv_chrono sv) esc s u (snd (fold (tick_request sv now) batch p))"
  using assms
proof (induction batch arbitrary: t p)
  case (Cons q batch)
  obtain rep w where p: "p = (rep, w)" by fastforce
  obtain u where u: "leads (sv_chrono sv) esc s u (snd (tick_request sv now q (rep, w)))" "set (sy_history t) \<subseteq> set (sy_history u)"
    using sim_tick_request [of sv esc s t w q now rep] Cons.prems p by auto
  show ?case using Cons.IH [of u "tick_request sv now q p"] u Cons.prems(2) p by auto
qed auto

lemma listed_history:
  assumes "approval_reach ch esc t" and "sees t w"
  shows "set (list_requests qy w) \<subseteq> set (sy_history t)"
proof
  fix q assume "q \<in> set (list_requests qy w)"
  then have "q \<in> snd ` set (sy_requests t)"
    using assms(2) by (auto simp: list_requests_def sees_def dest!: in_set_takeD)
  then obtain i where "(i, q) \<in> set (sy_requests t)" by auto
  then have "lookup (sy_requests t) i = Some q" using reach_keys [OF assms(1)] by simp
  then show "q \<in> set (sy_history t)" by (rule stored_history(1) [OF assms(1)])
qed

lemma sim_tick_loop:
  assumes r: "approval_reach (sv_chrono sv) esc s"
  shows "leads (sv_chrono sv) esc s t (snd p) \<Longrightarrow> tick_loop fuel sv now after p = Some p' \<Longrightarrow>
    \<exists>u. leads (sv_chrono sv) esc s u (snd p')"
proof (induction fuel arbitrary: t p after)
  case (Suc fuel)
  let ?batch = "list_requests (tick_query after) (snd p)"
  let ?p = "fold (tick_request sv now) ?batch p"
  have "sees t (snd p)" using Suc.prems(1) by (simp add: leads_def)
  then obtain u where u: "leads (sv_chrono sv) esc s u (snd ?p)"
    using sim_tick_batch [OF Suc.prems(1) listed_history [OF leads_reach [OF r Suc.prems(1)]]] by blast
  show ?case
  proof (cases "length ?batch < default_approval_page")
    case True
    then show ?thesis using Suc.prems(2) u by (auto simp: Let_def)
  next
    case False
    then have "tick_loop fuel sv now (Some (request_cursor (last ?batch))) ?p = Some p'"
      using Suc.prems(2) by (simp add: Let_def)
    from Suc.IH [OF u this] show ?thesis .
  qed
qed simp

section \<open>Any operations\<close>

datatype service_op =
  OpSubmit approval_request
| OpSubmitCall approval_call
| OpDecide string nat approval_decision
| OpDelegate approval_delegation
| OpRevoke string
| OpCancel string "string option"
| OpTick nat instant
| OpInbox nat inbox_query
| OpHold approval_scope confirmation_request
| OpTake approval_scope string

fun service_exec :: "approval_service \<Rightarrow> service_op \<Rightarrow> approval_world \<Rightarrow> approval_world" where
  "service_exec sv (OpSubmit r) w = snd (approval_submit sv r w)"
| "service_exec sv (OpSubmitCall c) w = snd (approval_submit_call sv c w)"
| "service_exec sv (OpDecide i v d) w = snd (approval_decide sv i v d w)"
| "service_exec sv (OpDelegate d) w = snd (approval_delegate d w)"
| "service_exec sv (OpRevoke i) w = snd (delete_delegation i w)"
| "service_exec sv (OpCancel i why) w = snd (approval_cancel sv i why w)"
| "service_exec sv (OpTick fuel now) w = (case approval_tick_all fuel sv now w of Some (_, w') \<Rightarrow> w' | None \<Rightarrow> w)"
| "service_exec sv (OpInbox fuel q) w = snd (approval_inbox fuel sv q w)"
| "service_exec sv (OpHold sc c) w =
     (let (now, w) = read_clock w in w\<lparr>aw_calls := store_record_pending (sv_esc sv) now sc c (aw_calls w)\<rparr>)"
| "service_exec sv (OpTake sc fp) w =
     (let (now, w) = read_clock w in w\<lparr>aw_calls := snd (take_approval now sc fp (aw_calls w))\<rparr>)"

lemma inbox_world: "snd (approval_inbox fuel sv q w) = snd (read_clock w)"
  by (simp add: approval_inbox_def Let_def split_beta split: option.split sum.split)

lemma service_simulated:
  assumes r: "approval_reach (sv_chrono sv) (sv_esc sv) s" and l: "leads (sv_chrono sv) (sv_esc sv) s t w"
  shows "\<exists>u. leads (sv_chrono sv) (sv_esc sv) s u (service_exec sv op w)"
proof (cases op)
  case (OpTick fuel now)
  then show ?thesis
    using sim_tick_loop [OF r, of t "(approval_tick_default, w)"] l
    by (fastforce simp: approval_tick_all_def split: option.split prod.split)
next
  case (OpInbox fuel q)
  then show ?thesis using l by (auto simp: inbox_world leads_def read_clock_def)
next
  case (OpHold sc c)
  let ?now = "aw_clock w (aw_reads w)"
  have "sees (t\<lparr>sy_calls := store_record_pending (sv_esc sv) ?now sc c (sy_calls t)\<rparr>) (service_exec sv op w)"
    using l OpHold by (simp add: leads_def sees_def read_clock_def)
  from leads_step [OF l as_hold this] show ?thesis by blast
next
  case (OpTake sc fp)
  let ?now = "aw_clock w (aw_reads w)"
  have "sees (t\<lparr>sy_calls := snd (take_approval ?now sc fp (sy_calls t))\<rparr>) (service_exec sv op w)"
    using l OpTake by (simp add: leads_def sees_def read_clock_def)
  from leads_step [OF l as_take this] show ?thesis by blast
qed (use r l in \<open>simp_all add: sim_submit sim_submit_call sim_decide sim_delegate sim_revoke sim_cancel\<close>)

section \<open>The theorem\<close>

text \<open>C19: the service implements the interleaved system: whatever operations it carries out one after the other on an
  empty store, with any clock, the tables it ends with are those of a state the interleaved steps reach, so every
  theorem about reachable states holds of them.\<close>

theorem service_refines:
  assumes "aw_requests w = []" and "aw_delegations w = []" and "aw_calls w = []"
  shows "\<exists>s. approval_reach (sv_chrono sv) (sv_esc sv) s \<and> sees s (fold (service_exec sv) ops w)"
proof -
  have "\<exists>u. leads (sv_chrono sv) (sv_esc sv) sys_init u (fold (service_exec sv) ops w)"
    if "leads (sv_chrono sv) (sv_esc sv) sys_init t w" for t w
    using that
  proof (induction ops arbitrary: t w)
    case (Cons op ops)
    obtain u where "leads (sv_chrono sv) (sv_esc sv) sys_init u (service_exec sv op w)"
      using service_simulated [OF reach_init Cons.prems] by blast
    from Cons.IH [OF this] show ?case by simp
  qed auto
  moreover have "leads (sv_chrono sv) (sv_esc sv) sys_init sys_init w"
    using assms by (intro leads_refl) (simp add: sees_def sys_init_def)
  ultimately have "\<exists>u. leads (sv_chrono sv) (sv_esc sv) sys_init u (fold (service_exec sv) ops w)" by blast
  then show ?thesis by (auto simp: leads_def approval_reach_def)
qed

definition empty_world :: approval_world where
  "empty_world = \<lparr>aw_calls = [], aw_requests = [], aw_delegations = [],
     aw_runs = run_table_empty, aw_records = [], aw_sent = [], aw_clock = int, aw_reads = 0\<rparr>"

definition demo_service :: approval_service where
  "demo_service = \<lparr>sv_chrono = plain_chrono, sv_esc = id, sv_notifies = True, sv_run_store = True,
     sv_router = Some (policy_router (approval_policy_new [SelSubject (human ''ana'')])), sv_audit = None\<rparr>"

theorem service_refines_witness:
  "\<exists>s. approval_reach plain_chrono id s
    \<and> sees s (fold (service_exec demo_service)
        [OpSubmit demo_submitted, OpDecide ''apr'' 1 (decision_approve 0 (human ''ana'')), OpTick 1 100] empty_world)"
proof -
  have "aw_requests empty_world = []" "aw_delegations empty_world = []" "aw_calls empty_world = []"
    "sv_chrono demo_service = plain_chrono" "sv_esc demo_service = id"
    by (simp_all add: empty_world_def demo_service_def)
  then show ?thesis using service_refines [of empty_world demo_service] by metis
qed

end
