(* ===== verification/Approval_Paging.thy ===== *)
theory Approval_Paging
  imports Approval_Service Signed_Note_Props
begin

text \<open>
  The paged traversals of the approval service. Requests are listed by creation time, then identifier, and a
  page ends at a cursor; the inbox and the tick walk page by page. Here: a walk visits each request once, and
  ends within as many pages as there are full pages, and one.
\<close>

section \<open>Listing order\<close>

definition request_pos :: "approval_request \<Rightarrow> instant \<times> string" where
  "request_pos r = (rq_created_at r, rq_id r)"

definition cursor_pos :: "approval_cursor \<Rightarrow> instant \<times> string" where
  "cursor_pos c = (cu_created_at c, cu_id c)"

definition past :: "approval_cursor option \<Rightarrow> approval_request \<Rightarrow> bool" where
  "past after r \<longleftrightarrow> (case after of None \<Rightarrow> True | Some c \<Rightarrow> cursor_pos c < request_pos r)"

lemma precedes_pos: "cursor_precedes c r \<longleftrightarrow> cursor_pos c < request_pos r"
  by (simp add: cursor_precedes_def cursor_pos_def request_pos_def)

lemma cursor_of_pos [simp]: "cursor_pos (request_cursor r) = request_pos r"
  by (simp add: cursor_pos_def request_cursor_def request_pos_def)

definition rest_of :: "(approval_request \<Rightarrow> bool) \<Rightarrow> approval_cursor option \<Rightarrow> approval_request list \<Rightarrow> approval_request list" where
  "rest_of F after rs = sort_key request_pos (filter (\<lambda>r. F r \<and> past after r) rs)"

lemma list_requests_rest:
  assumes "\<And>r. query_matches q r \<longleftrightarrow> F r \<and> past (qy_after q) r"
  shows "list_requests q w = take (qy_limit q) (rest_of F (qy_after q) (map snd (aw_requests w)))"
proof -
  have "query_matches q = (\<lambda>r. F r \<and> past (qy_after q) r)" using assms by auto
  then show ?thesis by (simp add: list_requests_def rest_of_def request_pos_def [abs_def])
qed

lemma set_rest: "set (rest_of F after rs) = {r \<in> set rs. F r \<and> past after r}"
  by (auto simp: rest_of_def)

lemma rest_distinct: "distinct (map rq_id rs) \<Longrightarrow> distinct (map rq_id (rest_of F after rs))"
  by (simp add: rest_of_def distinct_map_sort_key distinct_map_filter)

lemma rest_strict:
  assumes "distinct (map rq_id rs)"
  shows "sorted_wrt (\<lambda>a b. request_pos a < request_pos b) (rest_of F after rs)"
proof -
  let ?R = "rest_of F after rs"
  have "distinct (map rq_id ?R)"
    using assms by (rule rest_distinct)
  then have "distinct (map request_pos ?R)"
    by (auto simp: distinct_map request_pos_def inj_on_def)
  moreover have "sorted (map request_pos ?R)" by (simp add: rest_of_def)
  ultimately have "sorted_wrt (<) (map request_pos ?R)" by (simp add: strict_sorted_iff)
  then show ?thesis by (simp add: sorted_wrt_map)
qed

lemma filter_above:
  assumes "sorted_wrt (\<lambda>a b. request_pos a < request_pos b) R" and "0 < n" and "n \<le> length R"
  shows "filter (\<lambda>r. request_pos (R ! (n - 1)) < request_pos r) R = drop n R"
proof -
  let ?x = "R ! (n - 1)"
  have tk: "\<not> request_pos ?x < request_pos r" if r: "r \<in> set (take n R)" for r
  proof -
    obtain i where i: "i < n" "r = R ! i" using r by (auto simp: in_set_conv_nth)
    show ?thesis
    proof (cases "i = n - 1")
      case False
      then have "request_pos r < request_pos ?x" using i assms by (simp add: sorted_wrt_iff_nth_less)
      then show ?thesis by simp
    qed (use i in simp)
  qed
  have dr: "request_pos ?x < request_pos r" if r: "r \<in> set (drop n R)" for r
  proof -
    obtain i where i: "i < length R - n" "r = R ! (n + i)" using r by (auto simp: in_set_conv_nth)
    then show ?thesis using assms by (simp add: sorted_wrt_iff_nth_less)
  qed
  have "filter (\<lambda>r. request_pos ?x < request_pos r) (take n R @ drop n R) = drop n R"
    unfolding filter_append using tk dr by (simp add: filter_empty_conv filter_id_conv)
  then show ?thesis by simp
qed

lemma past_trans: "past after r \<Longrightarrow> request_pos r < request_pos r' \<Longrightarrow> past after r'"
  by (auto simp: past_def split: option.splits)

lemma rest_after:
  assumes "x \<in> set (rest_of F after rs)"
  shows "rest_of F (Some (request_cursor x)) rs = filter (\<lambda>r. request_pos x < request_pos r) (rest_of F after rs)"
proof -
  have "past after x" using assms by (simp add: set_rest)
  then have "filter (\<lambda>r. F r \<and> past (Some (request_cursor x)) r) rs
      = filter (\<lambda>r. request_pos x < request_pos r) (filter (\<lambda>r. F r \<and> past after r) rs)"
    by (auto simp: past_def [of "Some _"] intro!: filter_cong dest: past_trans)
  then show ?thesis by (simp add: rest_of_def filter_sort)
qed

text \<open>The listing after the cursor of its \<open>n\<close>th element is the listing without its first \<open>n\<close>.\<close>

lemma rest_next:
  assumes "distinct (map rq_id rs)" and "0 < n" and "n \<le> length (rest_of F after rs)"
  shows "rest_of F (Some (request_cursor (rest_of F after rs ! (n - 1)))) rs = drop n (rest_of F after rs)"
proof -
  let ?R = "rest_of F after rs" and ?x = "rest_of F after rs ! (n - 1)"
  have "rest_of F (Some (request_cursor ?x)) rs = filter (\<lambda>r. request_pos ?x < request_pos r) ?R"
    using assms(2,3) by (intro rest_after) simp
  also have "\<dots> = drop n ?R" using rest_strict [OF assms(1)] assms(2,3) by (rule filter_above)
  finally show ?thesis .
qed

section \<open>The inbox\<close>

lemma inbox_batch_spec:
  assumes "length items < limit"
  shows "inbox_batch P limit items rs =
    (if length items + length (filter P rs) < limit then (items @ filter P rs, None)
     else (take limit (items @ filter P rs), Some (last (take limit (items @ filter P rs)))))"
  using assms
proof (induction rs arbitrary: items)
  case (Cons r rs)
  show ?case
  proof (cases "P r \<and> length items + 1 = limit")
    case True
    then show ?thesis by auto
  next
    case False
    then show ?thesis using Cons.IH [of "items @ [r]"] Cons.IH [of items] Cons.prems by (cases "P r") auto
  qed
qed simp

text \<open>What one page of the inbox holds of the requests it is to show, \<open>hits\<close> in listing order.\<close>

definition page_of :: "chrono \<Rightarrow> nat \<Rightarrow> approval_request list \<Rightarrow> inbox_page" where
  "page_of ch limit hits =
     (if length hits < limit then \<lparr>ip_items = hits, ip_next_cursor = None\<rparr>
      else \<lparr>ip_items = take limit hits, ip_next_cursor = Some (cursor_encode ch (request_cursor (hits ! (limit - 1))))\<rparr>)"

definition inbox_filter :: "inbox_query \<Rightarrow> approval_request \<Rightarrow> bool" where
  "inbox_filter q r \<longleftrightarrow>
     rq_state r \<in> set (if ib_states q = [] then [RqPending] else ib_states q)
     \<and> (case ib_app_name q of None \<Rightarrow> True | Some app \<Rightarrow> app = as_app_name (rq_scope r))"

lemma inbox_query_matches:
  "query_matches (inbox_store_query q after) r \<longleftrightarrow> inbox_filter q r \<and> past after r"
  by (auto simp: query_matches_def inbox_store_query_def request_query_default_def inbox_filter_def past_def precedes_pos
      split: option.splits)

lemma inbox_page_rest:
  "list_requests (inbox_store_query q after) w
   = take default_approval_page (rest_of (inbox_filter q) after (map snd (aw_requests w)))"
  using list_requests_rest [of "inbox_store_query q after" "inbox_filter q" w] inbox_query_matches [of q after]
  by (simp add: inbox_store_query_def)

lemma last_take_nth: "0 < n \<Longrightarrow> n \<le> length xs \<Longrightarrow> last (take n xs) = xs ! (n - 1)"
proof -
  assume a: "0 < n" "n \<le> length xs"
  then have "take n xs \<noteq> []" "length (take n xs) = n" by auto
  then show ?thesis using a by (simp add: last_conv_nth)
qed

lemma take_prefix: "n \<le> length xs \<Longrightarrow> take n (xs @ ys) = take n xs"
  by simp

lemma nth_prefix: "0 < n \<Longrightarrow> n \<le> length xs \<Longrightarrow> (xs @ ys) ! (n - 1) = xs ! (n - 1)"
proof -
  assume "0 < n" "n \<le> length xs"
  then have "n - 1 < length xs" by simp
  then show ?thesis by (rule nth_append_left)
qed

lemma inbox_loop_spec:
  assumes "distinct (map rq_id (map snd (aw_requests w)))" and "length items < max (ib_limit q) 1"
    and "length (rest_of (inbox_filter q) after (map snd (aw_requests w))) < default_approval_page * fuel"
  shows "inbox_loop fuel ch q P w after items
    = Some (page_of ch (max (ib_limit q) 1) (items @ filter P (rest_of (inbox_filter q) after (map snd (aw_requests w)))))"
  using assms(2,3)
proof (induction fuel arbitrary: after items)
  case (Suc fuel)
  let ?rs = "map snd (aw_requests w)" and ?limit = "max (ib_limit q) 1" and ?n = default_approval_page
  let ?R = "rest_of (inbox_filter q) after ?rs"
  let ?hits = "items @ filter P (take ?n ?R)"
  have split: "items @ filter P ?R = ?hits @ filter P (drop ?n ?R)"
    by (metis append.assoc append_take_drop_id filter_append)
  show ?case
  proof (cases "length ?hits < ?limit")
    case False
    then have ge: "0 < ?limit" "?limit \<le> length ?hits" by (auto simp only: not_less max_def split: if_splits)
    have "take ?limit ?hits = take ?limit (items @ filter P ?R)" "?hits ! (?limit - 1) = (items @ filter P ?R) ! (?limit - 1)"
      unfolding split
      by (rule take_prefix [OF ge(2), symmetric], rule nth_prefix [OF ge, symmetric])
    note prefix = this
    have "inbox_batch P ?limit items (take ?n ?R) = (take ?limit ?hits, Some (?hits ! (?limit - 1)))"
      using inbox_batch_spec [OF Suc.prems(1), of P "take ?n ?R"] False last_take_nth [OF ge] by simp
    then have "inbox_loop (Suc fuel) ch q P w after items
        = Some \<lparr>ip_items = take ?limit ?hits, ip_next_cursor = Some (cursor_encode ch (request_cursor (?hits ! (?limit - 1))))\<rparr>"
      by (simp only: inbox_loop.simps inbox_page_rest Let_def prod.case option.case)
    moreover have "\<not> length (items @ filter P ?R) < ?limit" unfolding split length_append [of ?hits] using ge(2) by linarith
    ultimately show ?thesis unfolding prefix page_of_def by (simp only: if_False)
  next
    case True
    show ?thesis
    proof (cases "length ?R < ?n")
      case full: True
      then show ?thesis using True Suc.prems(1) by (simp add: inbox_page_rest inbox_batch_spec page_of_def)
    next
      case more: False
      have n: "0 < ?n" "?n \<le> length ?R" using more by (simp_all add: default_approval_page_def)
      note nx = rest_next [OF assms(1) n]
      have "inbox_loop (Suc fuel) ch q P w after items
          = inbox_loop fuel ch q P w (Some (request_cursor (?R ! (?n - 1)))) ?hits"
        using True more Suc.prems(1) n by (simp add: inbox_page_rest inbox_batch_spec last_take_nth)
      also have "\<dots> = Some (page_of ch ?limit (?hits @ filter P (drop ?n ?R)))"
        using Suc.IH [of ?hits "Some (request_cursor (?R ! (?n - 1)))"] True Suc.prems(2) n nx by (simp add: default_approval_page_def)
      finally show ?thesis by (simp only: split)
    qed
  qed
qed simp

section \<open>The tick\<close>

text \<open>What a tick at \<open>now\<close> makes of an open request.\<close>

definition tick_result :: "chrono \<Rightarrow> instant \<Rightarrow> approval_request \<Rightarrow> approval_request" where
  "tick_result ch now r =
     (if resolved (rq_state r) then (if settled ch now r then applied r else r)
      else if past_expiry now r then applied (expired_request now r)
      else if steps_due ch now r \<le> rq_escalations_fired r then r else escalated_request (steps_due ch now r) r)"

definition table_ok :: "(string, approval_request) table \<Rightarrow> bool" where
  "table_ok T \<longleftrightarrow> distinct (keys T) \<and> (\<forall>(k, r) \<in> set T. rq_id r = k \<and> (rq_outcome_applied r \<longrightarrow> resolved (rq_state r)))"

lemma tick_result_pos [simp]: "request_pos (tick_result ch now r) = request_pos r" "rq_id (tick_result ch now r) = rq_id r"
  by (simp_all add: tick_result_def request_pos_def applied_def expired_request_def escalated_request_def)

lemma notify_requests [simp]: "aw_requests (notify sv k r d st w) = aw_requests w"
  by (simp add: notify_def read_clock_def Let_def)

lemma notify_all_requests [simp]: "aw_requests (fold (\<lambda>st. notify sv k r d (Some st)) sts w) = aw_requests w"
  by (induction sts arbitrary: w) simp_all

lemma wake_requests [simp]: "aw_requests (wake_waiting_run sv r w) = aw_requests w"
  by (simp add: wake_waiting_run_def read_clock_def Let_def split: option.split)

lemma outcome_resolved: "request_outcome r = None \<longleftrightarrow> \<not> resolved (rq_state r)"
  by (simp add: request_outcome_def resolved_def split: approval_state.split)

lemma apply_requests:
  assumes "resolved (rq_state r)" and "\<not> rq_outcome_applied r" and "lookup (aw_requests w) (rq_id r) = Some r"
  shows "aw_requests (snd (apply_request sv b r w)) = AList.update (rq_id r) (applied r) (aw_requests w)"
proof -
  obtain outc where "request_outcome r = Some outc" using assms(1) outcome_resolved [of r] by auto
  moreover have "rq_id (applied r) = rq_id r" by (simp add: applied_def)
  ultimately show ?thesis
    using assms(2,3) by (simp add: apply_request_def replace_request_def Let_def)
qed

lemma update_same: "distinct (keys T) \<Longrightarrow> lookup T k = Some v \<Longrightarrow> AList.update k v T = T"
  by (induction T) (auto split: if_splits simp: update_conv')

lemma update_twice: "AList.update k v (AList.update k u T) = AList.update k v T"
  by (induction T) auto

lemma tick_request_requests:
  assumes "distinct (keys (aw_requests w))" and "lookup (aw_requests w) (rq_id r) = Some r" and "is_open r"
    and "rq_outcome_applied r \<longrightarrow> resolved (rq_state r)"
  shows "aw_requests (snd (tick_request sv now r (rep, w)))
    = AList.update (rq_id r) (tick_result (sv_chrono sv) now r) (aw_requests w)"
proof -
  consider "resolved (rq_state r)" | "\<not> resolved (rq_state r)" "past_expiry now r"
    | "\<not> resolved (rq_state r)" "\<not> past_expiry now r" by auto
  then show ?thesis
  proof cases
    case 1
    then have "\<not> rq_outcome_applied r" using assms(3) by (auto simp: is_open_def resolved_def)
    then show ?thesis
      using 1 apply_requests [OF 1 _ assms(2), of sv True] update_same [OF assms(1,2)]
      by (simp add: tick_request_def tick_result_def Let_def split_beta)
  next
    case 2
    let ?nx = "expired_request now r"
    obtain w1 where w1: "replace_request ?nx (rq_version r) w = (True, w1)" "aw_requests w1 = AList.update (rq_id r) ?nx (aw_requests w)"
      using assms(2) by (simp add: replace_request_def expired_request_def)
    have "aw_requests (snd (apply_request sv False ?nx w1)) = AList.update (rq_id ?nx) (applied ?nx) (aw_requests w1)"
      using w1(2) assms(4) 2 by (intro apply_requests) (auto simp: expired_request_def resolved_def)
    then show ?thesis
      using 2 w1 by (simp add: tick_request_def tick_result_def Let_def split_beta update_twice) (simp add: expired_request_def)
  next
    case 3
    let ?due = "steps_due (sv_chrono sv) now r"
    obtain w1 where w1: "replace_request (escalated_request ?due r) (rq_version r) w = (True, w1)"
        "aw_requests w1 = AList.update (rq_id r) (escalated_request ?due r) (aw_requests w)"
      using assms(2) by (simp add: replace_request_def escalated_request_def)
    then show ?thesis
      using 3 update_same [OF assms(1,2)] by (simp add: tick_request_def tick_result_def Let_def)
  qed
qed

text \<open>A batch of open requests, each as the store has it, is worked off entry by entry.\<close>

definition worked :: "(approval_request \<Rightarrow> bool) \<Rightarrow> chrono \<Rightarrow> instant \<Rightarrow> (string, approval_request) table \<Rightarrow> (string, approval_request) table" where
  "worked S ch now T = map (\<lambda>(k, r). (k, if S r then tick_result ch now r else r)) T"

lemma keys_worked [simp]: "keys (worked S ch now T) = keys T"
  by (induction T) (auto simp: worked_def)

lemma lookup_worked: "lookup (worked S ch now T) k = map_option (\<lambda>r. if S r then tick_result ch now r else r) (lookup T k)"
  by (induction T) (auto simp: worked_def)

lemma update_worked:
  assumes "table_ok T" and "lookup T (rq_id r) = Some r" and "\<not> S r"
  shows "AList.update (rq_id r) (tick_result ch now r) (worked S ch now T) = worked (\<lambda>x. S x \<or> x = r) ch now T"
proof -
  have gen: "AList.update k (tick_result ch now r) (worked S ch now T) = worked (\<lambda>x. S x \<or> x = r) ch now T"
    if "distinct (keys T)" "\<forall>(k', x) \<in> set T. rq_id x = k'" "lookup T k = Some r" "rq_id r = k" for k
    using that
  proof (induction T)
    case (Cons p T)
    obtain k' x where p: "p = (k', x)" by fastforce
    show ?case
    proof (cases "k' = k")
      case True
      then have x: "x = r" using Cons.prems(3) p by simp
      have "x' \<noteq> r" if "(k2, x') \<in> set T" for k2 x'
        using that Cons.prems(1,2,4) p True by force
      then have "worked (\<lambda>x. S x \<or> x = r) ch now T = worked S ch now T" by (auto simp: worked_def)
      then show ?thesis using p x True assms(3) by (simp add: worked_def)
    next
      case False
      then have "x \<noteq> r" using Cons.prems(2,4) p by auto
      then show ?thesis using Cons.IH Cons.prems False p by (simp add: worked_def)
    qed
  qed simp
  show ?thesis by (rule gen [OF _ _ assms(2)]) (use assms(1) in \<open>auto simp: table_ok_def\<close>)
qed

lemma tick_batch_requests:
  assumes "table_ok T" and "distinct (map rq_id batch)"
    and "\<And>r. r \<in> set batch \<Longrightarrow> lookup T (rq_id r) = Some r \<and> is_open r \<and> \<not> S r"
    and "aw_requests (snd p) = worked S (sv_chrono sv) now T"
  shows "aw_requests (snd (fold (tick_request sv now) batch p)) = worked (\<lambda>x. S x \<or> x \<in> set batch) (sv_chrono sv) now T"
  using assms(2-4)
proof (induction batch arbitrary: S p)
  case (Cons r batch)
  obtain rep w where p: "p = (rep, w)" by fastforce
  have r: "lookup T (rq_id r) = Some r" "is_open r" "\<not> S r" using Cons.prems(2) by auto
  have ok: "rq_outcome_applied r \<longrightarrow> resolved (rq_state r)"
    using assms(1) lookup_mem [OF r(1)] by (auto simp: table_ok_def)
  have w: "aw_requests w = worked S (sv_chrono sv) now T" using Cons.prems(3) p by simp
  then have l: "lookup (aw_requests w) (rq_id r) = Some r" by (simp only: lookup_worked r(1) option.map r(3) if_False)
  have "aw_requests (snd (tick_request sv now r p)) = AList.update (rq_id r) (tick_result (sv_chrono sv) now r) (worked S (sv_chrono sv) now T)"
    using tick_request_requests [OF _ l r(2) ok, of sv now rep] assms(1) by (simp add: p w table_ok_def)
  also have "\<dots> = worked (\<lambda>x. S x \<or> x = r) (sv_chrono sv) now T" by (rule update_worked [where S = S, OF assms(1) r(1,3)])
  finally have st: "aw_requests (snd (tick_request sv now r p)) = worked (\<lambda>x. S x \<or> x = r) (sv_chrono sv) now T" .
  have "lookup T (rq_id x) = Some x \<and> is_open x \<and> \<not> (S x \<or> x = r)" if "x \<in> set batch" for x
    using Cons.prems(1,2) that by auto
  from Cons.IH [OF _ this st] Cons.prems(1) show ?case by (simp add: disj_assoc)
qed simp

text \<open>Between two pages the tick has worked off the open requests that are not past the cursor.\<close>

abbreviation open_until :: "approval_cursor option \<Rightarrow> approval_request \<Rightarrow> bool" where
  "open_until after r \<equiv> is_open r \<and> \<not> past after r"

lemma vals_worked: "map snd (worked S ch now T) = map (\<lambda>r. if S r then tick_result ch now r else r) (map snd T)"
  by (induction T) (auto simp: worked_def)

lemma past_pos: "request_pos r = request_pos r' \<Longrightarrow> past after r = past after r'"
  by (simp add: past_def split: option.split)

lemma open_rest_worked:
  "rest_of is_open after (map snd (worked (open_until after) ch now T)) = rest_of is_open after (map snd T)"
proof -
  let ?f = "\<lambda>r. if open_until after r then tick_result ch now r else r"
  have "filter (\<lambda>r. is_open r \<and> past after r) (map ?f xs) = filter (\<lambda>r. is_open r \<and> past after r) xs" for xs
    by (induction xs) (auto dest: past_pos [OF tick_result_pos(1), THEN iffD1])
  then show ?thesis by (simp only: rest_of_def vals_worked)
qed

lemma worked_cong: "(\<And>r. r \<in> snd ` set T \<Longrightarrow> S r = S' r) \<Longrightarrow> worked S ch now T = worked S' ch now T"
  by (force simp: worked_def)

lemma tick_page: "list_requests (tick_query after) w = take default_approval_page (rest_of is_open after (map snd (aw_requests w)))"
proof -
  have "query_matches (tick_query after) r \<longleftrightarrow> is_open r \<and> past (qy_after (tick_query after)) r" for r
    by (auto simp: query_matches_def tick_query_def request_query_default_def past_def precedes_pos split: option.splits)
  from list_requests_rest [OF this] show ?thesis by (simp add: tick_query_def request_query_default_def)
qed

lemma table_ids: "table_ok T \<Longrightarrow> map rq_id (map snd T) = keys T"
  by (auto simp: table_ok_def)

lemma tick_one_page:
  assumes "table_ok T" and "aw_requests (snd p) = worked (open_until after) (sv_chrono sv) now T"
  defines "R \<equiv> rest_of is_open after (map snd T)"
  shows "list_requests (tick_query after) (snd p) = take default_approval_page R"
    and "aw_requests (snd (fold (tick_request sv now) (take n R) p))
      = worked (\<lambda>x. open_until after x \<or> x \<in> set (take n R)) (sv_chrono sv) now T"
proof -
  show "list_requests (tick_query after) (snd p) = take default_approval_page R"
    by (simp add: tick_page assms(2) open_rest_worked R_def)
  have d: "distinct (map rq_id R)"
    unfolding R_def by (rule rest_distinct) (use assms(1) in \<open>simp only: table_ids, simp add: table_ok_def\<close>)
  have each: "lookup T (rq_id r) = Some r \<and> is_open r \<and> \<not> open_until after r" if "r \<in> set (take n R)" for r
  proof -
    have r: "r \<in> snd ` set T" "is_open r" "past after r" using in_set_takeD [OF that] by (auto simp: R_def set_rest)
    then obtain k where k: "(k, r) \<in> set T" by auto
    have i: "rq_id r = k" and dk: "distinct (keys T)" using assms(1) k by (auto simp: table_ok_def)
    show ?thesis using mem_lookup [OF dk] k r(2,3) i by blast
  qed
  have "distinct (map rq_id (take n R))" using d by (simp add: distinct_take flip: take_map)
  from tick_batch_requests [where S = "open_until after", OF assms(1) this each assms(2)]
  show "aw_requests (snd (fold (tick_request sv now) (take n R) p))
      = worked (\<lambda>x. open_until after x \<or> x \<in> set (take n R)) (sv_chrono sv) now T" .
qed

lemma tick_loop_spec:
  assumes "table_ok T"
  shows "aw_requests (snd p) = worked (open_until after) (sv_chrono sv) now T \<Longrightarrow>
    length (rest_of is_open after (map snd T)) < default_approval_page * fuel \<Longrightarrow>
    \<exists>p'. tick_loop fuel sv now after p = Some p' \<and> aw_requests (snd p') = worked is_open (sv_chrono sv) now T"
proof (induction fuel arbitrary: after p)
  case (Suc fuel)
  let ?n = default_approval_page
  let ?R = "rest_of is_open after (map snd T)"
  let ?p = "fold (tick_request sv now) (take ?n ?R) p"
  note pg = tick_one_page [OF assms Suc.prems(1)]
  have R: "r \<in> set ?R \<longleftrightarrow> r \<in> snd ` set T \<and> is_open r \<and> past after r" for r by (auto simp: set_rest)
  show ?case
  proof (cases "length ?R < ?n")
    case True
    have "aw_requests (snd ?p) = worked is_open (sv_chrono sv) now T"
      unfolding pg(2) by (rule worked_cong) (use True R in auto)
    then show ?thesis using True by (simp add: pg(1))
  next
    case False
    let ?after = "Some (request_cursor (?R ! (?n - 1)))"
    have n: "0 < ?n" "?n \<le> length ?R" using False by (simp_all add: default_approval_page_def)
    have nx: "rest_of is_open ?after (map snd T) = drop ?n ?R"
      using assms n by (intro rest_next) (simp_all only: table_ids, simp add: table_ok_def)
    have "(open_until after r \<or> r \<in> set (take ?n ?R)) = open_until ?after r" if r: "r \<in> snd ` set T" for r
    proof -
      have "distinct (map rq_id ?R)"
        by (rule rest_distinct) (use assms in \<open>simp only: table_ids, simp add: table_ok_def\<close>)
      then have "set (take ?n ?R) \<inter> set (drop ?n ?R) = {}" by (simp add: distinct_map set_take_disj_set_drop_if_distinct)
      moreover have "set (take ?n ?R) \<union> set (drop ?n ?R) = set ?R" by (metis append_take_drop_id set_append)
      moreover have "r \<in> set (drop ?n ?R) \<longleftrightarrow> is_open r \<and> past ?after r" using r by (simp flip: nx add: set_rest)
      moreover have "r \<in> set ?R \<longleftrightarrow> is_open r \<and> past after r" using r R by simp
      ultimately show ?thesis by blast
    qed
    then have st: "aw_requests (snd ?p) = worked (open_until ?after) (sv_chrono sv) now T"
      unfolding pg(2) by (intro worked_cong)
    have "tick_loop (Suc fuel) sv now after p = tick_loop fuel sv now ?after ?p"
      using False n by (simp add: pg(1) last_take_nth Let_def)
    moreover have "length (rest_of is_open ?after (map snd T)) < ?n * fuel"
      unfolding nx length_drop using Suc.prems(2) n(2) by (simp only: mult_Suc_right)
    ultimately show ?thesis using Suc.IH [OF st] by (simp only:)
  qed
qed simp

section \<open>Page tokens\<close>

text \<open>A time the token keeps: a whole number of microseconds in the range of an \<^verbatim>\<open>i64\<close>.\<close>

definition token_time :: "chrono \<Rightarrow> instant \<Rightarrow> bool" where
  "token_time ch t \<longleftrightarrow>
     from_timestamp_micros ch (timestamp_micros ch t) = Some t
     \<and> - (2 ^ 63) \<le> timestamp_micros ch t \<and> timestamp_micros ch t < 2 ^ 63"

lemma show_nat_char: "c \<in> set (show_nat n) \<Longrightarrow> c \<notin> {CHR ''-'', CHR ''+'', CHR '':''}"
  using show_nat_digit [of c n] by auto

lemma parse_show: "- (2 ^ 63) \<le> i \<Longrightarrow> i < 2 ^ 63 \<Longrightarrow> parse_i64 (show_int i) = Some i"
proof (cases "i < 0")
  case True
  assume "- (2 ^ 63) \<le> i"
  then show ?thesis using True by (simp add: parse_i64_def show_int_def read_digits_show_nat Let_def nat_le_iff)
next
  case False
  assume "i < 2 ^ 63"
  have "hd (show_nat (nat i)) \<notin> {CHR ''-'', CHR ''+'', CHR '':''}" by (rule show_nat_char [of _ "nat i"]) simp
  then show ?thesis using False \<open>i < 2 ^ 63\<close>
    by (simp add: parse_i64_def show_int_def read_digits_show_nat Let_def nat_less_iff)
qed

lemma show_int_colon: "CHR '':'' \<notin> set (show_int i)"
  using show_nat_char by (auto simp: show_int_def)

lemma split_once_at: "sep \<notin> set a \<Longrightarrow> split_once sep (a @ sep # b) = Some (a, b)"
proof -
  assume "sep \<notin> set a"
  then have "dropWhile (\<lambda>c. c \<noteq> sep) (a @ sep # b) = sep # b" "takeWhile (\<lambda>c. c \<noteq> sep) (a @ sep # b) = a"
    by (induction a) auto
  then show ?thesis by (simp only: split_once_def list.case)
qed

lemma token_roundtrip: "token_time ch (cu_created_at c) \<Longrightarrow> cursor_decode ch (cursor_encode ch c) = Inr c"
  by (simp add: cursor_decode_def cursor_encode_def split_once_at show_int_colon token_time_def parse_show)

text \<open>A page that is full has a token, and the page at the token goes on where it ended.\<close>

definition inbox_hits :: "inbox_query \<Rightarrow> (approval_request \<Rightarrow> bool) \<Rightarrow> approval_world \<Rightarrow> approval_cursor option \<Rightarrow> approval_request list" where
  "inbox_hits q P w after = filter P (rest_of (inbox_filter q) after (map snd (aw_requests w)))"

lemma hits_next:
  assumes "distinct (map rq_id (map snd (aw_requests w)))" and "0 < n" and "n \<le> length (inbox_hits q P w after)"
  shows "inbox_hits q P w (Some (request_cursor (inbox_hits q P w after ! (n - 1)))) = drop n (inbox_hits q P w after)"
proof -
  let ?H = "inbox_hits q P w after"
  let ?x = "?H ! (n - 1)"
  have "?x \<in> set ?H" using assms(2,3) by simp
  then have "?x \<in> set (rest_of (inbox_filter q) after (map snd (aw_requests w)))" by (simp add: inbox_hits_def)
  then have "inbox_hits q P w (Some (request_cursor ?x)) = filter (\<lambda>r. request_pos ?x < request_pos r) ?H"
    by (simp add: inbox_hits_def rest_after conj_commute)
  also have "\<dots> = drop n ?H"
    using assms(2,3) rest_strict [OF assms(1)] by (intro filter_above) (auto simp: inbox_hits_def intro: sorted_wrt_filter)
  finally show ?thesis .
qed

lemma inbox_pages_continue:
  fixes q :: inbox_query and after :: "approval_cursor option" and P :: "approval_request \<Rightarrow> bool"
  assumes "distinct (map rq_id (map snd (aw_requests w)))" and "length (aw_requests w) < default_approval_page * fuel"
    and "\<And>r. r \<in> snd ` set (aw_requests w) \<Longrightarrow> token_time ch (rq_created_at r)"
  defines "limit \<equiv> max (ib_limit q) 1" and "hits \<equiv> inbox_hits q P w after"
  shows "\<exists>page. inbox_loop fuel ch q P w after [] = Some page \<and> ip_items page = take limit hits
    \<and> (if length hits < limit then ip_next_cursor page = None
       else \<exists>token c page'. ip_next_cursor page = Some token \<and> cursor_decode ch token = Inr c
         \<and> inbox_loop fuel ch q P w (Some c) [] = Some page' \<and> ip_items page' = take limit (drop limit hits))"
proof -
  have "length (rest_of F a (map snd (aw_requests w))) \<le> length (aw_requests w)" for F a
    by (simp add: rest_of_def)
  then have len: "length (rest_of F a (map snd (aw_requests w))) < default_approval_page * fuel" for F a
    using assms(2) by (rule le_less_trans)
  have loop: "inbox_loop fuel ch q P w a [] = Some (page_of ch limit (inbox_hits q P w a))" for a
    using inbox_loop_spec [OF assms(1), of "[]" q a fuel ch P] len by (simp add: limit_def inbox_hits_def)
  have items: "ip_items (page_of ch limit hs) = take limit hs" for hs by (simp add: page_of_def)
  show ?thesis
  proof (cases "length hits < limit")
    case True
    then show ?thesis using loop [of after] by (simp add: page_of_def hits_def)
  next
    case False
    let ?c = "request_cursor (hits ! (limit - 1))"
    have n: "0 < limit" "limit \<le> length hits" using False by (simp add: limit_def) (use False in \<open>simp only: not_less\<close>)
    then have "hits ! (limit - 1) \<in> set hits" by simp
    then have "hits ! (limit - 1) \<in> snd ` set (aw_requests w)" by (auto simp: hits_def inbox_hits_def set_rest)
    then have dec: "cursor_decode ch (cursor_encode ch ?c) = Inr ?c"
      using assms(3) by (intro token_roundtrip) (simp add: request_cursor_def)
    have "inbox_hits q P w (Some ?c) = drop limit hits"
      unfolding hits_def using n by (intro hits_next [OF assms(1)]) (simp_all add: hits_def)
    then have "inbox_loop fuel ch q P w (Some ?c) [] = Some (page_of ch limit (drop limit hits))" using loop [of "Some ?c"] by simp
    moreover have "ip_next_cursor (page_of ch limit hits) = Some (cursor_encode ch ?c)" using False by (simp add: page_of_def)
    ultimately show ?thesis using loop [of after] dec False items [of hits] items [of "drop limit hits"]
      by (simp add: hits_def [symmetric])
  qed
qed

section \<open>What the inbox shows can be decided\<close>

definition asking :: "subject_ref \<Rightarrow> string list \<Rightarrow> subject_ref option \<Rightarrow> approval_decision" where
  "asking who groups via = (decision_new 0 who ActApprove)\<lparr>ad_groups := groups, ad_via := via\<rparr>"

lemma authority_direct:
  assumes "is_eligible r who groups" and "\<not> (ap_forbid_self (rq_policy r) \<and> is_self r who)"
  shows "authority_over dls r (asking who groups None) t = Inr None"
  using assms by (simp add: authority_over_def asking_def decision_new_def Let_def)

lemma authority_via:
  assumes "\<not> (ap_forbid_self (rq_policy r) \<and> is_self r who)" and "dl \<in> set dls" and "delegation_applies dl r t"
    and "\<not> (ap_forbid_self (rq_policy r) \<and> is_self r (dl_from dl))"
  shows "authority_over dls r (asking who groups (Some (dl_from dl))) t = Inr (Some (dl_from dl))"
proof -
  let ?cand = "filter (\<lambda>x. dl_from dl = dl_from x \<and> scope_covers (dl_scope x) r \<and> is_eligible r (dl_from x) (dl_from_groups x)) dls"
  obtain x where x: "find (\<lambda>x. window_contains (dl_window x) t) ?cand = Some x"
    using assms(2,3) by (cases "find (\<lambda>x. window_contains (dl_window x) t) ?cand") (auto simp: find_None_iff delegation_applies_def)
  then have "x \<in> set ?cand" by (auto simp only: find_Some_iff nth_mem)
  then have "dl_from x = dl_from dl" by auto
  then show ?thesis using assms(1,4) x by (simp add: authority_over_def asking_def decision_new_def Let_def)
qed

lemma inbox_iff_authority:
  "in_inbox r (Some who) groups dls t \<longleftrightarrow> (\<exists>via a. authority_over dls r (asking who groups via) t = Inr a)"
proof
  assume "in_inbox r (Some who) groups dls t"
  then show "\<exists>via a. authority_over dls r (asking who groups via) t = Inr a"
    using authority_direct authority_via by (fastforce simp: in_inbox_def Let_def list_ex_iff)
next
  assume "\<exists>via a. authority_over dls r (asking who groups via) t = Inr a"
  then obtain via a where a: "authority_over dls r (asking who groups via) t = Inr a" by blast
  have self: "\<not> (ap_forbid_self (rq_policy r) \<and> is_self r who)"
    using a by (auto simp: authority_over_def asking_def decision_new_def Let_def split: if_splits)
  show "in_inbox r (Some who) groups dls t"
  proof (cases "is_eligible r who groups")
    case True
    then show ?thesis using self by (simp add: in_inbox_def)
  next
    case False
    let ?cand = "filter (\<lambda>x. (case via of None \<Rightarrow> True | Some from \<Rightarrow> from = dl_from x)
      \<and> scope_covers (dl_scope x) r \<and> is_eligible r (dl_from x) (dl_from_groups x)) dls"
    obtain x where x: "find (\<lambda>x. window_contains (dl_window x) t) ?cand = Some x"
      "\<not> (ap_forbid_self (rq_policy r) \<and> is_self r (dl_from x))"
      using a False self by (auto simp: authority_over_def asking_def decision_new_def Let_def split: if_splits option.split_asm)
    have "x \<in> set ?cand" "window_contains (dl_window x) t" using x(1) by (auto simp only: find_Some_iff nth_mem)
    then show ?thesis using x(2) self by (auto simp: in_inbox_def list_ex_iff delegation_applies_def)
  qed
qed

section \<open>The theorems\<close>


text \<open>C21: the inbox shows every request once: a page holds the first requests of the listing that the query selects,
  oldest first, and when it is full its token leads to the page of those that follow, none repeated and none left
  out, provided the times of creation are whole microseconds.\<close>

theorem inbox_pages:
  fixes q :: inbox_query and after :: "approval_cursor option" and P :: "approval_request \<Rightarrow> bool"
  assumes "distinct (map rq_id (map snd (aw_requests w)))" and "length (aw_requests w) < default_approval_page * fuel"
    and "\<And>r. r \<in> snd ` set (aw_requests w) \<Longrightarrow> token_time ch (rq_created_at r)"
  defines "limit \<equiv> max (ib_limit q) 1" and "hits \<equiv> inbox_hits q P w after"
  shows "\<exists>page. inbox_loop fuel ch q P w after [] = Some page \<and> ip_items page = take limit hits
    \<and> (if length hits < limit then ip_next_cursor page = None
       else \<exists>token c page'. ip_next_cursor page = Some token \<and> cursor_decode ch token = Inr c
         \<and> inbox_loop fuel ch q P w (Some c) [] = Some page' \<and> ip_items page' = take limit (drop limit hits))"
  unfolding limit_def hits_def by (rule inbox_pages_continue [OF assms(1-3)])

text \<open>the inbox holds what its owner may decide: a request is in the inbox of an approver exactly when a decision
  of theirs, made for themselves or in the name of some delegator, would be found to have authority.\<close>

theorem inbox_is_decidable:
  "in_inbox r (Some who) groups dls t \<longleftrightarrow> (\<exists>via a. authority_over dls r (asking who groups via) t = Inr a)"
  by (rule inbox_iff_authority)

section \<open>Two requests\<close>

definition paged_request :: "string \<Rightarrow> instant \<Rightarrow> approval_request" where
  "paged_request i t = submitted_request plain_chrono t
     (approval_request_new id 0 i \<lparr>as_app_name = ''app'', as_user_id = ''u'', as_session_id = ''s''\<rparr>
       (confirmation_request_new ''pay'' JNull) (expires_after 5000 (approval_policy_new [SelSubject (human ''ana'')])))"

definition paged_world :: "instant \<Rightarrow> instant \<Rightarrow> approval_world" where
  "paged_world s t = \<lparr>aw_calls = [], aw_requests = [(''a'', paged_request ''a'' s), (''b'', paged_request ''b'' t)],
     aw_delegations = [], aw_runs = run_table_empty, aw_records = [], aw_sent = [], aw_clock = int, aw_reads = 0\<rparr>"

definition paged_service :: approval_service where
  "paged_service = \<lparr>sv_chrono = plain_chrono, sv_esc = id, sv_notifies = False, sv_run_store = True, sv_router = None,
     sv_audit = None\<rparr>"

definition one_per_page :: inbox_query where
  "one_per_page = \<lparr>ib_approver = None, ib_groups = [], ib_states = [], ib_app_name = None, ib_cursor = None, ib_limit = 1\<rparr>"

lemma paged_request_simps:
  "rq_id (paged_request i t) = i" "rq_created_at (paged_request i t) = t" "rq_state (paged_request i t) = RqPending"
  "rq_outcome_applied (paged_request i t) = False" "rq_version (paged_request i t) = 1"
  by (simp_all add: paged_request_def submitted_request_def approval_request_new_def)


lemma paged_times: "r \<in> snd ` set (aw_requests (paged_world 1000 4000)) \<Longrightarrow> token_time plain_chrono (rq_created_at r)"
  by (auto simp: paged_world_def paged_request_simps token_time_def plain_chrono_def)

lemma paged_hits:
  "s < t \<Longrightarrow> inbox_hits one_per_page (\<lambda>_. True) (paged_world s t) None = [paged_request ''a'' s, paged_request ''b'' t]"
  by (simp add: inbox_hits_def rest_of_def paged_world_def inbox_filter_def one_per_page_def paged_request_simps past_def
      request_pos_def)

theorem inbox_pages_witness:
  "\<exists>page page' c token. inbox_loop 1 plain_chrono one_per_page (\<lambda>_. True) (paged_world 1000 4000) None [] = Some page
    \<and> ip_items page = [paged_request ''a'' 1000] \<and> ip_next_cursor page = Some token \<and> cursor_decode plain_chrono token = Inr c
    \<and> inbox_loop 1 plain_chrono one_per_page (\<lambda>_. True) (paged_world 1000 4000) (Some c) [] = Some page'
    \<and> ip_items page' = [paged_request ''b'' 4000]"
proof -
  let ?w = "paged_world 1000 4000"
  have d: "distinct (map rq_id (map snd (aw_requests ?w)))" "length (aw_requests ?w) < default_approval_page * 1"
    and l: "max (ib_limit one_per_page) 1 = 1"
    by (simp_all add: paged_world_def paged_request_simps default_approval_page_def one_per_page_def)
  note pages = inbox_pages [where w = ?w and fuel = 1 and q = one_per_page and P = "\<lambda>_. True" and after = None,
      OF d paged_times, unfolded l, unfolded paged_hits [of 1000 4000, simplified]]
  then obtain page where "inbox_loop 1 plain_chrono one_per_page (\<lambda>_. True) ?w None [] = Some page"
    "ip_items page = [paged_request ''a'' 1000]" and "\<exists>token c page'. ip_next_cursor page = Some token
      \<and> cursor_decode plain_chrono token = Inr c \<and> inbox_loop 1 plain_chrono one_per_page (\<lambda>_. True) ?w (Some c) [] = Some page'
      \<and> ip_items page' = [paged_request ''b'' 4000]"
    by (auto simp del: inbox_loop.simps)
  then show ?thesis by blast
qed

text \<open>Times finer than a microsecond: a token names the microsecond, so the page after it starts with the
  request the page before ended with, and pages of one request never get past it.\<close>

lemma fine_times_repeat:
  "\<exists>token c. inbox_loop 1 plain_chrono one_per_page (\<lambda>_. True) (paged_world 1500 4000) None []
      = Some \<lparr>ip_items = [paged_request ''a'' 1500], ip_next_cursor = Some token\<rparr>
    \<and> cursor_decode plain_chrono token = Inr c
    \<and> inbox_loop 1 plain_chrono one_per_page (\<lambda>_. True) (paged_world 1500 4000) (Some c) []
      = Some \<lparr>ip_items = [paged_request ''a'' 1500], ip_next_cursor = Some token\<rparr>"
proof -
  let ?w = "paged_world 1500 4000" and ?r = "paged_request ''a'' 1500"
  let ?token = "cursor_encode plain_chrono (request_cursor ?r)" and ?c = "\<lparr>cu_created_at = 1000, cu_id = ''a''\<rparr>"
  have d: "distinct (map rq_id (map snd (aw_requests ?w)))" by (simp add: paged_world_def paged_request_simps)
  have "?token = cursor_encode plain_chrono ?c"
    by (simp add: cursor_encode_def request_cursor_def paged_request_simps plain_chrono_def)
  then have dec: "cursor_decode plain_chrono ?token = Inr ?c"
    using token_roundtrip [of plain_chrono ?c] by (simp add: token_time_def plain_chrono_def)
  have h: "inbox_hits one_per_page (\<lambda>_. True) ?w a = [?r, paged_request ''b'' 4000]" if "a = None \<or> a = Some ?c" for a
    using that by (auto simp: inbox_hits_def rest_of_def paged_world_def inbox_filter_def one_per_page_def paged_request_simps
        past_def request_pos_def cursor_pos_def)
  have lp: "inbox_loop 1 plain_chrono one_per_page (\<lambda>_. True) ?w a [] = Some (page_of plain_chrono 1 [?r, paged_request ''b'' 4000])"
    if "a = None \<or> a = Some ?c" for a
    using inbox_loop_spec [OF d, of "[]" one_per_page a 1 plain_chrono "\<lambda>_. True"] h [OF that]
    by (simp add: one_per_page_def inbox_hits_def default_approval_page_def rest_of_def paged_world_def)
  show ?thesis using lp [of None] lp [of "Some ?c"] dec by (simp add: page_of_def)
qed

text \<open>A tick that recovers an outcome looks for a call held under the request's fingerprint, whenever it was held:
  one held again after the outcome was taken is answered with the outcome of the request before it.\<close>

lemma recovery_answers_any_hold:
  assumes "request_outcome q = Some a" and "\<not> rq_outcome_applied q" and "call_pending q w"
  shows "held_decision (aw_calls (snd (apply_request sv True q w))) (rq_scope q) (rq_fingerprint q) = Some a"
proof -
  have calls: "aw_calls (wake_waiting_run sv q w1) = aw_calls w1" "aw_calls (snd (replace_request r v w1)) = aw_calls w1" for w1 r v
    by (simp_all add: wake_waiting_run_def read_clock_def replace_request_def Let_def split: option.split)
  show ?thesis
    using assms calls by (simp add: apply_request_def Let_def split_beta view_simps)
qed

end
