(* ===== verification/Money.thy ===== *)
theory Money
  imports Approval_Request Policy
begin

text \<open>
  Money (\<^verbatim>\<open>adk-payments/src/domain/money.rs\<close>, and \<^verbatim>\<open>usd_micro_amount\<close> of
  \<^verbatim>\<open>adk-payments/src/guardrail/spend_policy.rs\<close>): amounts in minor units with an explicit scale. An
  \<^verbatim>\<open>i64\<close> and an \<^verbatim>\<open>i128\<close> are an \<open>int\<close> with the range checks of the code's checked operations written
  out, a \<^verbatim>\<open>u32\<close> scale is a \<open>nat\<close>. The text of an error keeps the source's wording.
\<close>

section \<open>Ranges\<close>

definition in_i64 :: "int \<Rightarrow> bool" where
  "in_i64 i \<longleftrightarrow> - 9223372036854775808 \<le> i \<and> i \<le> 9223372036854775807"

definition in_i128 :: "int \<Rightarrow> bool" where
  "in_i128 i \<longleftrightarrow> - 170141183460469231731687303715884105728 \<le> i \<and> i \<le> 170141183460469231731687303715884105727"

definition in_u64 :: "int \<Rightarrow> bool" where
  "in_u64 i \<longleftrightarrow> 0 \<le> i \<and> i \<le> 18446744073709551615"

definition in_u32 :: "int \<Rightarrow> bool" where
  "in_u32 i \<longleftrightarrow> 0 \<le> i \<and> i \<le> 4294967295"

definition checked :: "(int \<Rightarrow> bool) \<Rightarrow> int \<Rightarrow> int option" where
  "checked fits i = (if fits i then Some i else None)"

section \<open>Data\<close>

definition max_money_scale :: nat where
  "max_money_scale = 18"

definition zero_decimal_currencies :: "string list" where
  "zero_decimal_currencies =
     [''BIF'', ''CLP'', ''DJF'', ''GNF'', ''ISK'', ''JPY'', ''KMF'', ''KRW'', ''PYG'', ''RWF'', ''UGX'', ''UYI'', ''VND'',
      ''VUV'', ''XAF'', ''XOF'', ''XPF'']"

definition three_decimal_currencies :: "string list" where
  "three_decimal_currencies = [''BHD'', ''IQD'', ''JOD'', ''KWD'', ''LYD'', ''OMR'', ''TND'']"

definition four_decimal_currencies :: "string list" where
  "four_decimal_currencies = [''CLF'', ''UYW'']"

definition no_minor_unit_currencies :: "string list" where
  "no_minor_unit_currencies =
     [''XAG'', ''XAU'', ''XBA'', ''XBB'', ''XBC'', ''XBD'', ''XDR'', ''XPD'', ''XPT'', ''XSU'', ''XTS'', ''XUA'', ''XXX'']"

datatype money_error =
    InvalidDecimal string string
  | PrecisionTooHigh string nat nat
  | Overflow string
  | CurrencyMismatch string string

record money =
  mo_currency :: string
  mo_minor :: int
  mo_scale :: nat

definition money_new :: "string \<Rightarrow> int \<Rightarrow> nat \<Rightarrow> money" where
  "money_new currency amount_minor scale = \<lparr>mo_currency = currency, mo_minor = amount_minor, mo_scale = scale\<rparr>"

section \<open>Currencies\<close>

definition ascii_upper :: "char \<Rightarrow> char" where
  "ascii_upper c = (if CHR ''a'' \<le> c \<and> c \<le> CHR ''z'' then char_of (of_char c - 32 :: nat) else c)"

definition ascii_alphabetic :: "char \<Rightarrow> bool" where
  "ascii_alphabetic c \<longleftrightarrow> (CHR ''A'' \<le> c \<and> c \<le> CHR ''Z'') \<or> (CHR ''a'' \<le> c \<and> c \<le> CHR ''z'')"

definition same_currency :: "string \<Rightarrow> string \<Rightarrow> bool" where
  "same_currency a b \<longleftrightarrow> map ascii_lower a = map ascii_lower b"

definition iso_minor_unit_scale :: "string \<Rightarrow> nat option" where
  "iso_minor_unit_scale currency =
     (if length currency \<noteq> 3 \<or> \<not> list_all ascii_alphabetic currency then None
      else let code = map ascii_upper currency in
        if code \<in> set no_minor_unit_currencies then None
        else if code \<in> set zero_decimal_currencies then Some 0
        else if code \<in> set three_decimal_currencies then Some 3
        else if code \<in> set four_decimal_currencies then Some 4
        else Some 2)"

section \<open>Parsing\<close>

definition ticked :: "string \<Rightarrow> string" where
  "ticked s = CHR 0x60 # s @ [CHR 0x60]"

definition ascii_digit :: "char \<Rightarrow> bool" where
  "ascii_digit c \<longleftrightarrow> CHR ''0'' \<le> c \<and> c \<le> CHR ''9''"

definition digit :: "char \<Rightarrow> int" where
  "digit c = int (of_char c - 48 :: nat)"

text \<open>The parts before and after the first exponent mark.\<close>

definition split_exponent :: "string \<Rightarrow> string \<times> string option" where
  "split_exponent s =
     (case dropWhile (\<lambda>c. c \<notin> {CHR ''e'', CHR ''E''}) s of
        [] \<Rightarrow> (s, None)
      | _ # after \<Rightarrow> (takeWhile (\<lambda>c. c \<notin> {CHR ''e'', CHR ''E''}) s, Some after))"

text \<open>Drops trailing zeros of the fraction; the digits are given last first.\<close>

fun pop_zeros :: "string \<Rightarrow> int \<Rightarrow> string \<times> int" where
  "pop_zeros [] scale = ([], scale)"
| "pop_zeros (c # cs) scale = (if 0 < scale \<and> c = CHR ''0'' then pop_zeros cs (scale - 1) else (c # cs, scale))"

fun fold_digits :: "int \<Rightarrow> string \<Rightarrow> int option" where
  "fold_digits acc [] = Some acc"
| "fold_digits acc (c # cs) =
     Option.bind (checked in_i128 (acc * 10)) (\<lambda>tens.
       Option.bind (checked in_i128 (tens + digit c)) (\<lambda>n. fold_digits n cs))"

text \<open>\<^verbatim>\<open>checked_pow\<close> of ten.\<close>

definition pow_ten :: "(int \<Rightarrow> bool) \<Rightarrow> nat \<Rightarrow> int option" where
  "pow_ten fits n = checked fits (10 ^ n)"

definition parse_exponent :: "string \<Rightarrow> string option \<Rightarrow> money_error + int" where
  "parse_exponent value exponent =
     (case exponent of
        None \<Rightarrow> Inr 0
      | Some ex \<Rightarrow>
          let digits = (if ex \<noteq> [] \<and> hd ex \<in> {CHR ''+'', CHR ''-''} then tl ex else ex) in
          if digits = [] \<or> \<not> list_all ascii_digit digits
          then Inl (InvalidDecimal value ''the exponent must be an optionally signed integer'')
          else (case parse_i64 ex of
                  None \<Rightarrow> Inl (Overflow (''the exponent of '' @ ticked value))
                | Some n \<Rightarrow> Inr n))"

text \<open>The part of \<^verbatim>\<open>parse_decimal\<close> after the leading zeros are gone: digits, fraction length and exponent.\<close>

definition scale_digits :: "string \<Rightarrow> bool \<Rightarrow> string \<Rightarrow> string \<Rightarrow> nat \<Rightarrow> int \<Rightarrow> money_error + money" where
  "scale_digits currency negative value digits fraction_len exponent =
     (if \<not> in_i64 (int fraction_len) then Inl (Overflow (''the fraction length of '' @ ticked value))
      else if \<not> in_i64 (int fraction_len - exponent) then Inl (Overflow (''the scale of '' @ ticked value))
      else let (rev_digits, scale) = pop_zeros (rev digits) (int fraction_len - exponent);
               overflow = Inl (Overflow (''the minor units of '' @ ticked value)) in
        if scale > int max_money_scale
        then Inl (PrecisionTooHigh value (if in_u32 scale then nat scale else 4294967295) max_money_scale)
        else
          let magnitude = fold_digits 0 (rev rev_digits);
              magnitude' =
                (if scale < 0
                 then Option.bind magnitude (\<lambda>v.
                        Option.bind (if in_u32 (- scale) then pow_ten in_i128 (nat (- scale)) else None) (\<lambda>factor.
                          checked in_i128 (v * factor)))
                 else magnitude);
              scale' = (if scale < 0 then 0 else scale) in
          (case magnitude' of
             None \<Rightarrow> overflow
           | Some m \<Rightarrow>
               let signed = (if negative then - m else m) in
               if \<not> in_i64 signed then overflow
               else if \<not> in_u32 scale' then overflow
               else Inr (money_new currency signed (nat scale'))))"

definition parse_decimal :: "string \<Rightarrow> string \<Rightarrow> money_error + money" where
  "parse_decimal currency value =
     (let negative = (value \<noteq> [] \<and> hd value = CHR ''-'');
          unsigned = (if negative then tl value else value);
          (mantissa, exponent) = split_exponent unsigned;
          parts = split_once CHR ''.'' mantissa;
          (whole, fraction) = (case parts of Some p \<Rightarrow> p | None \<Rightarrow> (mantissa, [])) in
      if parts \<noteq> None \<and> fraction = []
      then Inl (InvalidDecimal value (ticked (whole @ ''.'') @ '' has no digits after the decimal point''))
      else if whole = [] \<or> \<not> list_all ascii_digit whole
      then Inl (InvalidDecimal value ''the integer part must contain only ASCII digits'')
      else if \<not> list_all ascii_digit fraction
      then Inl (InvalidDecimal value ''the fraction part must contain only ASCII digits'')
      else result_bind (parse_exponent value exponent) (\<lambda>ex.
        let digits = dropWhile (\<lambda>c. c = CHR ''0'') (whole @ fraction) in
        if digits = [] then Inr (money_new currency 0 0)
        else scale_digits currency negative value digits (length fraction) ex))"

section \<open>Printing\<close>

definition to_decimal_string :: "money \<Rightarrow> string" where
  "to_decimal_string m =
     (let sign = (if mo_minor m < 0 then ''-'' else []); magnitude = show_nat (nat \<bar>mo_minor m\<bar>) in
      if mo_scale m = 0 then sign @ magnitude
      else if mo_scale m > max_money_scale then sign @ magnitude @ ''e-'' @ show_nat (mo_scale m)
      else let digits = pad_left (mo_scale m + 1) magnitude; n = length digits - mo_scale m in
        sign @ take n digits @ ''.'' @ drop n digits)"

section \<open>Arithmetic\<close>

definition rescaled :: "money \<Rightarrow> nat \<Rightarrow> money_error + money" where
  "rescaled m scale =
     (let overflow = Inl (Overflow (ticked (to_decimal_string m) @ '' at scale '' @ show_nat scale)) in
      if scale > max_money_scale then Inl (PrecisionTooHigh (to_decimal_string m) scale max_money_scale)
      else if scale = mo_scale m then Inr (money_new (mo_currency m) (mo_minor m) scale)
      else if scale > mo_scale m
      then (case Option.bind (pow_ten in_i64 (scale - mo_scale m)) (\<lambda>factor. checked in_i64 (mo_minor m * factor)) of
              None \<Rightarrow> overflow
            | Some a \<Rightarrow> Inr (money_new (mo_currency m) a scale))
      else (case Option.bind (pow_ten in_i64 (mo_scale m - scale))
                  (\<lambda>factor. if mo_minor m mod factor = 0 then Some factor else None) of
              Some factor \<Rightarrow> Inr (money_new (mo_currency m) (mo_minor m div factor) scale)
            | None \<Rightarrow>
                if mo_minor m = 0 then Inr (money_new (mo_currency m) 0 scale)
                else Inl (PrecisionTooHigh (to_decimal_string m) (mo_scale m) scale)))"

definition aligned_with :: "money \<Rightarrow> money \<Rightarrow> money_error + money \<times> money" where
  "aligned_with a b =
     (if \<not> same_currency (mo_currency a) (mo_currency b) then Inl (CurrencyMismatch (mo_currency a) (mo_currency b))
      else let scale = max (mo_scale a) (mo_scale b) in
        result_bind (rescaled a scale) (\<lambda>x. result_bind (rescaled b scale) (\<lambda>y. Inr (x, y))))"

definition money_checked_add :: "money \<Rightarrow> money \<Rightarrow> money_error + money" where
  "money_checked_add a b =
     result_bind (aligned_with a b) (\<lambda>(x, y).
       case checked in_i64 (mo_minor x + mo_minor y) of
         None \<Rightarrow> Inl (Overflow (ticked (to_decimal_string a) @ '' + '' @ ticked (to_decimal_string b)))
       | Some n \<Rightarrow> Inr (money_new (mo_currency x) n (mo_scale x)))"

definition money_checked_sub :: "money \<Rightarrow> money \<Rightarrow> money_error + money" where
  "money_checked_sub a b =
     result_bind (aligned_with a b) (\<lambda>(x, y).
       case checked in_i64 (mo_minor x - mo_minor y) of
         None \<Rightarrow> Inl (Overflow (ticked (to_decimal_string a) @ '' - '' @ ticked (to_decimal_string b)))
       | Some n \<Rightarrow> Inr (money_new (mo_currency x) n (mo_scale x)))"

datatype ordering = Less | Equal | Greater

definition compare_int :: "int \<Rightarrow> int \<Rightarrow> ordering" where
  "compare_int a b = (if a < b then Less else if a = b then Equal else Greater)"

definition widen :: "nat \<Rightarrow> money \<Rightarrow> int option" where
  "widen scale m = Option.bind (pow_ten in_i128 (scale - mo_scale m)) (\<lambda>factor. checked in_i128 (mo_minor m * factor))"

definition compare_amount :: "money \<Rightarrow> money \<Rightarrow> ordering option" where
  "compare_amount a b =
     (if \<not> same_currency (mo_currency a) (mo_currency b) then None
      else let scale = max (mo_scale a) (mo_scale b) in
        Option.bind (widen scale a) (\<lambda>x. Option.bind (widen scale b) (\<lambda>y. Some (compare_int x y))))"

definition div_ceil :: "int \<Rightarrow> int \<Rightarrow> int" where
  "div_ceil a d = a div d + (if a mod d > 0 then 1 else 0)"

definition usd_micro_amount :: "money \<Rightarrow> string + int" where
  "usd_micro_amount m =
     (let txt = to_decimal_string m @ '' '' @ mo_currency m in
      if \<not> same_currency (mo_currency m) ''USD'' then Inl (txt @ '' cannot be recorded: the spend ledger records USD only'')
      else if \<not> in_u64 (mo_minor m) then Inl (txt @ '' is negative and cannot be reserved'')
      else
        let converted =
          (if mo_scale m \<le> 6
           then Option.bind (pow_ten in_u64 (6 - mo_scale m)) (\<lambda>factor. checked in_u64 (mo_minor m * factor))
           else map_option (div_ceil (mo_minor m)) (pow_ten in_u64 (mo_scale m - 6))) in
        case converted of
          None \<Rightarrow> Inl (txt @ '' is too large for the spend ledger'')
        | Some n \<Rightarrow> Inr n)"

end
