(* ===== verification/Transaction.thy ===== *)
theory Transaction
  imports Money Json
begin

text \<open>
  Transactions of the payments crate: actors, carts and orders
  (\<^verbatim>\<open>adk-payments/src/domain/\<close> \<^verbatim>\<open>actor.rs\<close>, \<^verbatim>\<open>cart.rs\<close>, \<^verbatim>\<open>order.rs\<close>, \<^verbatim>\<open>evidence.rs\<close>,
  \<^verbatim>\<open>intervention.rs\<close>), the durable record with its state machine and its masked summary
  (\<^verbatim>\<open>transaction.rs\<close>), and the errors of the kernel (\<^verbatim>\<open>kernel/errors.rs\<close>).
\<close>

section \<open>Protocols and evidence\<close>

record protocol_descriptor =
  pd_name :: string
  pd_version :: "string option"

definition protocol_acp :: "string \<Rightarrow> protocol_descriptor" where
  "protocol_acp version = \<lparr>pd_name = ''acp'', pd_version = Some version\<rparr>"

definition protocol_ap2 :: "string \<Rightarrow> protocol_descriptor" where
  "protocol_ap2 version = \<lparr>pd_name = ''ap2'', pd_version = Some version\<rparr>"

record evidence_reference =
  er_evidence_id :: string
  er_protocol :: protocol_descriptor
  er_artifact_kind :: string
  er_digest :: "string option"

record extension_envelope =
  ee_protocol :: protocol_descriptor
  ee_fields :: "(string, json) table"
  ee_evidence_refs :: "evidence_reference list"

type_synonym extensions = "extension_envelope list"

section \<open>Actors, carts, orders\<close>

datatype actor_role =
  RoleShopper | RoleMerchant | RoleCredentialsProvider | RolePaymentProcessor | RoleAgentSurface | RoleSystem
| RoleCustom string

record commerce_actor =
  ca_actor_id :: string
  ca_role :: actor_role
  ca_display_name :: "string option"
  ca_tenant_id :: "string option"
  ca_extensions :: extensions

record merchant_ref =
  mr_merchant_id :: string
  mr_legal_name :: string
  mr_display_name :: "string option"
  mr_statement_descriptor :: "string option"
  mr_country_code :: "string option"
  mr_website :: "string option"
  mr_extensions :: extensions

record processor_ref =
  pp_processor_id :: string
  pp_name :: string
  pp_processor_type :: "string option"
  pp_extensions :: extensions

record cart_line =
  cl_line_id :: string
  cl_merchant_sku :: "string option"
  cl_title :: string
  cl_quantity :: nat
  cl_unit_price :: money
  cl_total_price :: money
  cl_product_class :: "string option"
  cl_extensions :: extensions

datatype adjustment_kind = AdjTax | AdjShipping | AdjDiscount | AdjFee | AdjSurcharge | AdjCredit | AdjOther string

record price_adjustment =
  pa_adjustment_id :: string
  pa_kind :: adjustment_kind
  pa_label :: string
  pa_amount :: money
  pa_extensions :: extensions

record affiliate_attribution =
  af_partner_id :: string
  af_campaign_id :: "string option"
  af_source :: "string option"
  af_extensions :: extensions

record cart =
  ct_cart_id :: "string option"
  ct_lines :: "cart_line list"
  ct_subtotal :: "money option"
  ct_adjustments :: "price_adjustment list"
  ct_total :: money
  ct_affiliate :: "affiliate_attribution option"
  ct_extensions :: extensions

datatype fulfillment_kind = FkShipping | FkPickup | FkDelivery | FkDigital | FkService | FkOther string

record destination =
  fd_recipient_name :: "string option"
  fd_locality :: "string option"
  fd_region :: "string option"
  fd_country_code :: "string option"
  fd_postal_code :: "string option"

record fulfillment =
  fs_fulfillment_id :: string
  fs_kind :: fulfillment_kind
  fs_label :: string
  fs_amount :: "money option"
  fs_destination :: "destination option"
  fs_requires_user_selection :: bool
  fs_extensions :: extensions

datatype order_state =
  OrdDraft | OrdPendingPayment | OrdAuthorized | OrdFulfillmentPending | OrdFulfilled | OrdCompleted | OrdCanceled
| OrdRefunded | OrdPartiallyRefunded | OrdFailed

definition order_can_transition :: "order_state \<Rightarrow> order_state \<Rightarrow> bool" where
  "order_can_transition a b \<longleftrightarrow> a = b \<or>
     (case a of
        OrdDraft \<Rightarrow> b \<in> {OrdPendingPayment, OrdCanceled, OrdFailed}
      | OrdPendingPayment \<Rightarrow> b \<in> {OrdAuthorized, OrdCanceled, OrdFailed}
      | OrdAuthorized \<Rightarrow> b \<in> {OrdFulfillmentPending, OrdCompleted, OrdCanceled, OrdFailed}
      | OrdFulfillmentPending \<Rightarrow> b \<in> {OrdFulfilled, OrdCompleted, OrdFailed}
      | OrdFulfilled \<Rightarrow> b \<in> {OrdCompleted, OrdPartiallyRefunded, OrdRefunded, OrdFailed}
      | OrdCompleted \<Rightarrow> b \<in> {OrdPartiallyRefunded, OrdRefunded}
      | OrdPartiallyRefunded \<Rightarrow> b \<in> {OrdPartiallyRefunded, OrdRefunded}
      | _ \<Rightarrow> False)"

datatype receipt_state =
  RcNotRequested | RcPending | RcAuthorized | RcSettled | RcFailed | RcPartiallyRefunded | RcRefunded | RcVoided

definition receipt_can_transition :: "receipt_state \<Rightarrow> receipt_state \<Rightarrow> bool" where
  "receipt_can_transition a b \<longleftrightarrow> a = b \<or>
     (case a of
        RcNotRequested \<Rightarrow> b \<in> {RcPending, RcAuthorized, RcFailed}
      | RcPending \<Rightarrow> b \<in> {RcAuthorized, RcSettled, RcFailed, RcVoided}
      | RcAuthorized \<Rightarrow> b \<in> {RcSettled, RcFailed, RcVoided}
      | RcSettled \<Rightarrow> b \<in> {RcPartiallyRefunded, RcRefunded}
      | RcPartiallyRefunded \<Rightarrow> b \<in> {RcPartiallyRefunded, RcRefunded}
      | _ \<Rightarrow> False)"

record order_snapshot =
  os_order_id :: "string option"
  os_receipt_id :: "string option"
  os_state :: order_state
  os_receipt_state :: receipt_state
  os_extensions :: extensions

section \<open>Errors of the kernel\<close>

datatype kernel_error =
    InvalidTransactionTransition string string
  | InvalidOrderTransition order_state order_state
  | InvalidReceiptTransition receipt_state receipt_state
  | UnsupportedAction string string
  | PolicyDenied string string

definition transition_order_state :: "order_snapshot \<Rightarrow> order_state \<Rightarrow> kernel_error + order_snapshot" where
  "transition_order_state os next =
     (if \<not> order_can_transition (os_state os) next then Inl (InvalidOrderTransition (os_state os) next)
      else Inr (os\<lparr>os_state := next\<rparr>))"

definition transition_receipt_state :: "order_snapshot \<Rightarrow> receipt_state \<Rightarrow> kernel_error + order_snapshot" where
  "transition_receipt_state os next =
     (if \<not> receipt_can_transition (os_receipt_state os) next then Inl (InvalidReceiptTransition (os_receipt_state os) next)
      else Inr (os\<lparr>os_receipt_state := next\<rparr>))"

section \<open>Interventions\<close>

datatype intervention_kind =
  ThreeDsChallenge | BiometricConfirmation | AddressVerification | BuyerReconfirmation | MerchantReview
| OtherIntervention string

datatype intervention_status = IvPending | IvInProgress | IvSatisfied | IvExpired | IvFailed | IvCancelled

definition intervention_terminal :: "intervention_status \<Rightarrow> bool" where
  "intervention_terminal s \<longleftrightarrow> s \<in> {IvSatisfied, IvExpired, IvFailed, IvCancelled}"

record intervention =
  iv_id :: string
  iv_kind :: intervention_kind
  iv_status :: intervention_status
  iv_instructions :: "string option"
  iv_continuation_token :: "string option"
  iv_requested_by :: "commerce_actor option"
  iv_expires_at :: "instant option"
  iv_extensions :: extensions

section \<open>The state machine of a transaction\<close>

datatype commerce_mode = HumanPresent | HumanNotPresent

datatype transaction_state =
  TxDraft | TxNegotiating | TxAwaitingUserAuthorization | TxAwaitingPaymentMethod | TxInterventionRequired intervention
| TxAuthorized | TxCompleted | TxCanceled | TxFailed

datatype transaction_tag =
  TagDraft | TagNegotiating | TagAwaitingUserAuthorization | TagAwaitingPaymentMethod | TagInterventionRequired
| TagAuthorized | TagCompleted | TagCanceled | TagFailed

datatype transaction_phase =
  PhDraft | PhNegotiating | PhAwaitingUserAuthorization | PhAwaitingPaymentMethod | PhInterventionRequired
| PhAuthorized | PhCompleted | PhCanceled | PhFailed

fun phase_name :: "transaction_phase \<Rightarrow> string" where
  "phase_name PhDraft = ''draft''"
| "phase_name PhNegotiating = ''negotiating''"
| "phase_name PhAwaitingUserAuthorization = ''awaiting_user_authorization''"
| "phase_name PhAwaitingPaymentMethod = ''awaiting_payment_method''"
| "phase_name PhInterventionRequired = ''intervention_required''"
| "phase_name PhAuthorized = ''authorized''"
| "phase_name PhCompleted = ''completed''"
| "phase_name PhCanceled = ''canceled''"
| "phase_name PhFailed = ''failed''"

fun tx_phase :: "transaction_state \<Rightarrow> transaction_phase" where
  "tx_phase TxDraft = PhDraft"
| "tx_phase TxNegotiating = PhNegotiating"
| "tx_phase TxAwaitingUserAuthorization = PhAwaitingUserAuthorization"
| "tx_phase TxAwaitingPaymentMethod = PhAwaitingPaymentMethod"
| "tx_phase (TxInterventionRequired _) = PhInterventionRequired"
| "tx_phase TxAuthorized = PhAuthorized"
| "tx_phase TxCompleted = PhCompleted"
| "tx_phase TxCanceled = PhCanceled"
| "tx_phase TxFailed = PhFailed"

definition phase_allows :: "transaction_phase \<Rightarrow> transaction_phase \<Rightarrow> bool" where
  "phase_allows a b \<longleftrightarrow> a = b \<or>
     (case a of
        PhDraft \<Rightarrow> b \<in> {PhNegotiating, PhCanceled, PhFailed}
      | PhNegotiating \<Rightarrow>
          b \<in> {PhAwaitingUserAuthorization, PhAwaitingPaymentMethod, PhInterventionRequired, PhCanceled, PhFailed}
      | PhAwaitingUserAuthorization \<Rightarrow> b \<in> {PhAwaitingPaymentMethod, PhInterventionRequired, PhCanceled, PhFailed}
      | PhAwaitingPaymentMethod \<Rightarrow> b \<in> {PhAuthorized, PhInterventionRequired, PhCanceled, PhFailed}
      | PhInterventionRequired \<Rightarrow>
          b \<in> {PhAwaitingUserAuthorization, PhAwaitingPaymentMethod, PhAuthorized, PhCanceled, PhFailed}
      | PhAuthorized \<Rightarrow> b \<in> {PhCompleted, PhCanceled, PhFailed}
      | _ \<Rightarrow> False)"

definition can_transition_to :: "transaction_state \<Rightarrow> transaction_state \<Rightarrow> bool" where
  "can_transition_to a b = phase_allows (tx_phase a) (tx_phase b)"

definition tx_terminal :: "transaction_state \<Rightarrow> bool" where
  "tx_terminal s \<longleftrightarrow> s \<in> {TxCompleted, TxCanceled, TxFailed}"

fun tx_tag :: "transaction_state \<Rightarrow> transaction_tag" where
  "tx_tag TxDraft = TagDraft"
| "tx_tag TxNegotiating = TagNegotiating"
| "tx_tag TxAwaitingUserAuthorization = TagAwaitingUserAuthorization"
| "tx_tag TxAwaitingPaymentMethod = TagAwaitingPaymentMethod"
| "tx_tag (TxInterventionRequired _) = TagInterventionRequired"
| "tx_tag TxAuthorized = TagAuthorized"
| "tx_tag TxCompleted = TagCompleted"
| "tx_tag TxCanceled = TagCanceled"
| "tx_tag TxFailed = TagFailed"

section \<open>The durable record and its summary\<close>

record protocol_reference =
  pf_protocol :: protocol_descriptor
  pf_kind :: string
  pf_value :: string

record protocol_refs =
  pr_acp_checkout_session :: "string option"
  pr_acp_order :: "string option"
  pr_acp_delegate_payment :: "string option"
  pr_ap2_intent_mandate :: "string option"
  pr_ap2_cart_mandate :: "string option"
  pr_ap2_payment_mandate :: "string option"
  pr_ap2_payment_receipt :: "string option"
  pr_additional :: "protocol_reference list"

definition protocol_refs_default :: protocol_refs where
  "protocol_refs_default =
     \<lparr>pr_acp_checkout_session = None, pr_acp_order = None, pr_acp_delegate_payment = None, pr_ap2_intent_mandate = None,
      pr_ap2_cart_mandate = None, pr_ap2_payment_mandate = None, pr_ap2_payment_receipt = None, pr_additional = []\<rparr>"

record envelope_digest =
  dg_evidence_ref :: evidence_reference
  dg_created_at :: instant

record adk_identity =
  id_app_name :: string
  id_user_id :: string
  id_session_id :: string

record safe_summary =
  sm_transaction_id :: string
  sm_merchant_name :: string
  sm_item_titles :: "string list"
  sm_total :: money
  sm_mode :: commerce_mode
  sm_state :: transaction_tag
  sm_order_state :: "order_state option"
  sm_receipt_state :: "receipt_state option"
  sm_next_required_action :: "string option"
  sm_protocol_tags :: "string list"
  sm_updated_at :: instant

record transaction_record =
  tr_transaction_id :: string
  tr_session_identity :: "adk_identity option"
  tr_initiated_by :: commerce_actor
  tr_merchant :: merchant_ref
  tr_payment_processor :: "processor_ref option"
  tr_mode :: commerce_mode
  tr_state :: transaction_state
  tr_cart :: cart
  tr_fulfillment :: "fulfillment option"
  tr_order :: "order_snapshot option"
  tr_protocol_refs :: protocol_refs
  tr_extensions :: extensions
  tr_evidence_refs :: "evidence_reference list"
  tr_safe_summary :: safe_summary
  tr_evidence_digests :: "envelope_digest list"
  tr_created_at :: instant
  tr_last_updated_at :: instant

definition protocol_tag :: "protocol_descriptor \<Rightarrow> string" where
  "protocol_tag p = (case pd_version p of None \<Rightarrow> pd_name p | Some v \<Rightarrow> pd_name p @ ''@'' @ v)"

definition next_required_action :: "transaction_state \<Rightarrow> string option" where
  "next_required_action s =
     (case s of
        TxDraft \<Rightarrow> Some ''continue checkout negotiation''
      | TxNegotiating \<Rightarrow> Some ''continue checkout negotiation''
      | TxAwaitingUserAuthorization \<Rightarrow> Some ''obtain explicit user authorization''
      | TxAwaitingPaymentMethod \<Rightarrow> Some ''collect or delegate a payment method''
      | TxInterventionRequired i \<Rightarrow>
          (case iv_instructions i of Some t \<Rightarrow> Some t | None \<Rightarrow> Some ''complete the required payment intervention'')
      | TxAuthorized \<Rightarrow> Some ''await order completion or settlement''
      | _ \<Rightarrow> None)"

definition summary_from_record :: "transaction_record \<Rightarrow> safe_summary" where
  "summary_from_record r =
     \<lparr>sm_transaction_id = tr_transaction_id r,
      sm_merchant_name = (case mr_display_name (tr_merchant r) of Some n \<Rightarrow> n | None \<Rightarrow> mr_legal_name (tr_merchant r)),
      sm_item_titles = map cl_title (ct_lines (tr_cart r)),
      sm_total = ct_total (tr_cart r),
      sm_mode = tr_mode r,
      sm_state = tx_tag (tr_state r),
      sm_order_state = map_option os_state (tr_order r),
      sm_receipt_state = map_option os_receipt_state (tr_order r),
      sm_next_required_action = next_required_action (tr_state r),
      sm_protocol_tags =
        sort (remdups (map (\<lambda>d. protocol_tag (er_protocol (dg_evidence_ref d))) (tr_evidence_digests r)
          @ map (\<lambda>e. protocol_tag (ee_protocol e)) (tr_extensions r))),
      sm_updated_at = tr_last_updated_at r\<rparr>"

definition recompute_safe_summary :: "transaction_record \<Rightarrow> transaction_record" where
  "recompute_safe_summary r = r\<lparr>tr_safe_summary := summary_from_record r\<rparr>"

definition transaction_record_new ::
    "string \<Rightarrow> commerce_actor \<Rightarrow> merchant_ref \<Rightarrow> commerce_mode \<Rightarrow> cart \<Rightarrow> instant \<Rightarrow> transaction_record" where
  "transaction_record_new i initiator merchant mode c created =
     recompute_safe_summary
       \<lparr>tr_transaction_id = i, tr_session_identity = None, tr_initiated_by = initiator, tr_merchant = merchant,
        tr_payment_processor = None, tr_mode = mode, tr_state = TxDraft, tr_cart = c, tr_fulfillment = None,
        tr_order = None, tr_protocol_refs = protocol_refs_default, tr_extensions = [], tr_evidence_refs = [],
        tr_safe_summary =
          \<lparr>sm_transaction_id = ''pending'', sm_merchant_name = [], sm_item_titles = [], sm_total = ct_total c,
           sm_mode = mode, sm_state = TagDraft, sm_order_state = None, sm_receipt_state = None,
           sm_next_required_action = None, sm_protocol_tags = [], sm_updated_at = created\<rparr>,
        tr_evidence_digests = [], tr_created_at = created, tr_last_updated_at = created\<rparr>"

definition transition_to :: "transaction_record \<Rightarrow> transaction_state \<Rightarrow> instant \<Rightarrow> kernel_error + transaction_record" where
  "transition_to r next updated =
     (if \<not> can_transition_to (tr_state r) next
      then Inl (InvalidTransactionTransition (phase_name (tx_phase (tr_state r))) (phase_name (tx_phase next)))
      else Inr (recompute_safe_summary (r\<lparr>tr_state := next, tr_last_updated_at := updated\<rparr>)))"

definition attach_extension :: "extension_envelope \<Rightarrow> transaction_record \<Rightarrow> transaction_record" where
  "attach_extension e r = recompute_safe_summary (r\<lparr>tr_extensions := tr_extensions r @ [e]\<rparr>)"

definition attach_evidence_ref :: "evidence_reference \<Rightarrow> transaction_record \<Rightarrow> transaction_record" where
  "attach_evidence_ref e r = r\<lparr>tr_evidence_refs := tr_evidence_refs r @ [e]\<rparr>"

definition attach_evidence_digest :: "envelope_digest \<Rightarrow> transaction_record \<Rightarrow> transaction_record" where
  "attach_evidence_digest d r = recompute_safe_summary (r\<lparr>tr_evidence_digests := tr_evidence_digests r @ [d]\<rparr>)"

section \<open>The life of a record\<close>

text \<open>One change of a record through its methods, and the records they reach from a new one.\<close>

inductive record_step :: "transaction_record \<Rightarrow> transaction_record \<Rightarrow> bool" where
  Transition: "transition_to r next updated = Inr r' \<Longrightarrow> record_step r r'"
| Extension: "record_step r (attach_extension e r)"
| Evidence: "record_step r (attach_evidence_ref e' r)"
| Digest: "record_step r (attach_evidence_digest d r)"

inductive record_history :: "transaction_record list \<Rightarrow> bool" where
  New: "record_history [transaction_record_new i initiator merchant mode c created]"
| Step: "record_history (r # rs) \<Longrightarrow> record_step r r' \<Longrightarrow> record_history (r' # r # rs)"

inductive_cases record_stepE: "record_step r r'"

end
