(* ===== verification/Payment_Policy.thy ===== *)
theory Payment_Policy
  imports Transaction Spend
begin

text \<open>
  Payment policies (\<^verbatim>\<open>adk-payments/src/guardrail/\<close>): findings and decisions, the context with the spend
  ledger and the holds taken in it, policy sets, and the guardrails the crate ships (amount threshold,
  currency and merchant allowlists, protocol versions, interventions, spend limit).

  A guardrail and a ledger are trait objects: a record of their methods, which may change a world \<open>'w\<close>.
  \<open>in_memory_ledger\<close> gives the spend ledger of \<open>Spend\<close> as such a record.
\<close>

section \<open>Findings and decisions\<close>

datatype pay_severity = SevLow | SevMedium | SevHigh | SevCritical

fun severity_rank :: "pay_severity \<Rightarrow> nat" where
  "severity_rank SevLow = 0"
| "severity_rank SevMedium = 1"
| "severity_rank SevHigh = 2"
| "severity_rank SevCritical = 3"

record policy_finding =
  fi_guardrail :: string
  fi_reason :: string
  fi_severity :: pay_severity

definition finding :: "string \<Rightarrow> string \<Rightarrow> pay_severity \<Rightarrow> policy_finding" where
  "finding g r s = \<lparr>fi_guardrail = g, fi_reason = r, fi_severity = s\<rparr>"

datatype pay_decision = PayAllow | PayEscalate "policy_finding list" | PayDeny "policy_finding list"

fun decision_findings :: "pay_decision \<Rightarrow> policy_finding list" where
  "decision_findings PayAllow = []"
| "decision_findings (PayEscalate fs) = fs"
| "decision_findings (PayDeny fs) = fs"

text \<open>\<^verbatim>\<open>max_by_key\<close>: the last of the highest.\<close>

definition highest_severity :: "pay_decision \<Rightarrow> pay_severity option" where
  "highest_severity d =
     foldl (\<lambda>best s. case best of None \<Rightarrow> Some s | Some b \<Rightarrow> if severity_rank b \<le> severity_rank s then Some s else Some b)
       None (map fi_severity (decision_findings d))"

datatype payment_operation = CreateCheckout | CompleteCheckout | ExecutePayment

fun moves_money :: "payment_operation \<Rightarrow> bool" where
  "moves_money CreateCheckout = False"
| "moves_money CompleteCheckout = True"
| "moves_money ExecutePayment = True"

section \<open>The context of an evaluation\<close>

text \<open>The \<^verbatim>\<open>SpendLedger\<close> trait.\<close>

record 'w spend_api =
  sa_reserve :: "spend_key \<Rightarrow> u64 \<Rightarrow> 'w \<Rightarrow> string result \<times> 'w"
  sa_commit :: "string \<Rightarrow> u64 \<Rightarrow> 'w \<Rightarrow> unit result \<times> 'w"
  sa_release :: "string \<Rightarrow> 'w \<Rightarrow> unit result \<times> 'w"

record 'w spend_hold =
  sh_ledger :: "'w spend_api"
  sh_reservation :: string
  sh_amount :: u64

record 'w policy_context =
  cx_operation :: payment_operation
  cx_ledger :: "'w spend_api option"
  cx_org :: "string option"
  cx_agent :: "string option"
  cx_holds :: "'w spend_hold list"

definition policy_context_new :: "payment_operation \<Rightarrow> 'w policy_context" where
  "policy_context_new op = \<lparr>cx_operation = op, cx_ledger = None, cx_org = None, cx_agent = None, cx_holds = []\<rparr>"

definition context_hold :: "'w spend_hold \<Rightarrow> 'w policy_context \<Rightarrow> 'w policy_context" where
  "context_hold h cx = cx\<lparr>cx_holds := cx_holds cx @ [h]\<rparr>"

text \<open>A hold that cannot be committed or released is logged.\<close>

fun commit_each :: "u64 option \<Rightarrow> 'w spend_hold list \<Rightarrow> 'w \<Rightarrow> 'w" where
  "commit_each actual [] w = w"
| "commit_each actual (h # hs) w =
     (let amount = (case actual of Some a \<Rightarrow> a | None \<Rightarrow> sh_amount h) in
      commit_each actual hs (snd (sa_commit (sh_ledger h) (sh_reservation h) amount w)))"

fun release_each :: "'w spend_hold list \<Rightarrow> 'w \<Rightarrow> 'w" where
  "release_each [] w = w"
| "release_each (h # hs) w = release_each hs (snd (sa_release (sh_ledger h) (sh_reservation h) w))"

definition commit_holds :: "u64 option \<Rightarrow> 'w policy_context \<Rightarrow> 'w \<Rightarrow> 'w policy_context \<times> 'w" where
  "commit_holds actual cx w = (cx\<lparr>cx_holds := []\<rparr>, commit_each actual (cx_holds cx) w)"

definition release_holds :: "'w policy_context \<Rightarrow> 'w \<Rightarrow> 'w policy_context \<times> 'w" where
  "release_holds cx w = (cx\<lparr>cx_holds := []\<rparr>, release_each (cx_holds cx) w)"

section \<open>Policy sets\<close>

record 'w guardrail =
  gd_name :: string
  gd_evaluate :: "transaction_record \<Rightarrow> protocol_descriptor \<Rightarrow> 'w policy_context \<Rightarrow> 'w
    \<Rightarrow> pay_decision \<times> 'w policy_context \<times> 'w"

type_synonym 'w policy_set = "'w guardrail list"

definition set_contains :: "'w policy_set \<Rightarrow> string \<Rightarrow> bool" where
  "set_contains gs name \<longleftrightarrow> list_ex (\<lambda>g. gd_name g = name) gs"

definition sort_findings :: "policy_finding list \<Rightarrow> policy_finding list" where
  "sort_findings fs = sort_key (\<lambda>f. (fi_guardrail f, 3 - severity_rank (fi_severity f), fi_reason f)) fs"

fun evaluate_each ::
    "'w policy_set \<Rightarrow> transaction_record \<Rightarrow> protocol_descriptor \<Rightarrow> policy_finding list \<Rightarrow> policy_finding list
     \<Rightarrow> 'w policy_context \<Rightarrow> 'w \<Rightarrow> policy_finding list \<times> policy_finding list \<times> 'w policy_context \<times> 'w" where
  "evaluate_each [] r p denied escalated cx w = (denied, escalated, cx, w)"
| "evaluate_each (g # gs) r p denied escalated cx w =
     (case gd_evaluate g r p cx w of
        (PayAllow, cx', w') \<Rightarrow> evaluate_each gs r p denied escalated cx' w'
      | (PayEscalate fs, cx', w') \<Rightarrow> evaluate_each gs r p denied (escalated @ fs) cx' w'
      | (PayDeny fs, cx', w') \<Rightarrow> evaluate_each gs r p (denied @ fs) escalated cx' w')"

definition policy_set_evaluate ::
    "'w policy_set \<Rightarrow> transaction_record \<Rightarrow> protocol_descriptor \<Rightarrow> 'w policy_context \<Rightarrow> 'w
     \<Rightarrow> pay_decision \<times> 'w policy_context \<times> 'w" where
  "policy_set_evaluate gs r p cx w =
     (let (denied, escalated, cx', w') = evaluate_each gs r p [] [] cx w;
          denied = sort_findings denied; escalated = sort_findings escalated in
      if denied \<noteq> [] then (let (cx'', w'') = release_holds cx' w' in (PayDeny denied, cx'', w''))
      else if escalated \<noteq> [] then (PayEscalate escalated, cx', w')
      else (PayAllow, cx', w'))"

section \<open>The guardrails\<close>

text \<open>A guardrail that reads only the transaction and the protocol.\<close>

definition pure_guardrail ::
    "string \<Rightarrow> (transaction_record \<Rightarrow> protocol_descriptor \<Rightarrow> pay_decision) \<Rightarrow> 'w guardrail" where
  "pure_guardrail name f = \<lparr>gd_name = name, gd_evaluate = (\<lambda>r p cx w. (f r p, cx, w))\<rparr>"

record amount_threshold =
  th_review :: "int option"
  th_hard :: "int option"
  th_currency :: "(string \<times> nat) option"

definition amount_threshold_new :: "int option \<Rightarrow> int option \<Rightarrow> amount_threshold" where
  "amount_threshold_new review hard = \<lparr>th_review = review, th_hard = hard, th_currency = None\<rparr>"

definition threshold_with_currency :: "string \<Rightarrow> nat \<Rightarrow> amount_threshold \<Rightarrow> amount_threshold" where
  "threshold_with_currency c s t = t\<lparr>th_currency := Some (c, s)\<rparr>"

text \<open>Whether the total exceeds a limit: \<open>Inr (Some reason)\<close> when it does, \<open>Inl\<close> when they do not compare.\<close>

definition exceeds :: "money \<Rightarrow> string \<Rightarrow> nat \<Rightarrow> int \<Rightarrow> string \<Rightarrow> string + string option" where
  "exceeds tot currency scale limit_minor label =
     (let limit = money_new currency limit_minor scale;
          total_text = to_decimal_string tot @ '' '' @ mo_currency tot;
          limit_text = to_decimal_string limit @ '' '' @ currency in
      case compare_amount tot limit of
        Some Greater \<Rightarrow> Inr (Some (''transaction total '' @ total_text @ '' exceeds the '' @ label @ '' of '' @ limit_text))
      | Some _ \<Rightarrow> Inr None
      | None \<Rightarrow> Inl (''transaction total '' @ total_text @ '' cannot be compared with the '' @ label @ '' of '' @ limit_text))"

definition amount_decision :: "amount_threshold \<Rightarrow> transaction_record \<Rightarrow> pay_decision" where
  "amount_decision t r =
     (let tot = ct_total (tr_cart r);
          total_text = to_decimal_string tot @ '' '' @ mo_currency tot;
          deny = (\<lambda>reason. PayDeny [finding ''amount_threshold'' reason SevHigh]);
          judge = (\<lambda>currency scale.
            let review =
              (case th_review t of
                 None \<Rightarrow> PayAllow
               | Some threshold \<Rightarrow>
                   (case exceeds tot currency scale threshold ''review threshold'' of
                      Inr (Some reason) \<Rightarrow> PayEscalate [finding ''amount_threshold'' reason SevMedium]
                    | Inl reason \<Rightarrow> deny reason
                    | Inr None \<Rightarrow> PayAllow)) in
            case th_hard t of
              None \<Rightarrow> review
            | Some limit \<Rightarrow>
                (case exceeds tot currency scale limit ''hard limit'' of
                   Inr (Some reason) \<Rightarrow> deny reason
                 | Inl reason \<Rightarrow> deny reason
                 | Inr None \<Rightarrow> review)) in
      case th_currency t of
        Some (currency, scale) \<Rightarrow>
          if same_currency currency (mo_currency tot) then judge currency scale
          else deny (''transaction total '' @ total_text @ '' is not in the guardrail currency '' @ currency)
      | None \<Rightarrow>
          judge (mo_currency tot)
            (case iso_minor_unit_scale (mo_currency tot) of Some s \<Rightarrow> s | None \<Rightarrow> mo_scale tot))"

definition amount_guardrail :: "amount_threshold \<Rightarrow> 'w guardrail" where
  "amount_guardrail t = pure_guardrail ''amount_threshold'' (\<lambda>r p. amount_decision t r)"

definition currency_decision :: "string list \<Rightarrow> transaction_record \<Rightarrow> pay_decision" where
  "currency_decision allowed r =
     (let currency = mo_currency (ct_total (tr_cart r)) in
      if currency \<in> set allowed then PayAllow
      else PayDeny [finding ''currency_policy''
        (''currency '' @ ticked currency @ '' is not present in the configured allowlist'') SevHigh])"

definition currency_guardrail :: "string list \<Rightarrow> 'w guardrail" where
  "currency_guardrail allowed = pure_guardrail ''currency_policy'' (\<lambda>r p. currency_decision allowed r)"

definition merchant_decision :: "string list \<Rightarrow> transaction_record \<Rightarrow> pay_decision" where
  "merchant_decision allowed r =
     (let merchant = mr_merchant_id (tr_merchant r) in
      if merchant \<in> set allowed then PayAllow
      else PayDeny [finding ''merchant_allowlist''
        (''merchant '' @ ticked merchant @ '' is not present in the configured allowlist'') SevHigh])"

definition merchant_guardrail :: "string list \<Rightarrow> 'w guardrail" where
  "merchant_guardrail allowed = pure_guardrail ''merchant_allowlist'' (\<lambda>r p. merchant_decision allowed r)"

definition protocol_allows :: "protocol_descriptor list \<Rightarrow> protocol_descriptor \<Rightarrow> bool" where
  "protocol_allows allowed p \<longleftrightarrow>
     list_ex (\<lambda>a. pd_name a = pd_name p
       \<and> (case pd_version a of Some v \<Rightarrow> pd_version p = Some v | None \<Rightarrow> True)) allowed"

definition protocol_decision :: "protocol_descriptor list \<Rightarrow> protocol_descriptor \<Rightarrow> pay_decision" where
  "protocol_decision allowed p =
     (if protocol_allows allowed p then PayAllow
      else PayDeny [finding ''protocol_version''
        (''protocol '' @ ticked (pd_name p) @ '' version ''
         @ ticked (case pd_version p of Some v \<Rightarrow> v | None \<Rightarrow> ''unspecified'')
         @ '' is not allowed by the configured baseline policy'') SevHigh])"

definition protocol_guardrail :: "protocol_descriptor list \<Rightarrow> 'w guardrail" where
  "protocol_guardrail allowed = pure_guardrail ''protocol_version'' (\<lambda>r p. protocol_decision allowed p)"

datatype intervention_action = IaAllow | IaRequireUserConfirmation | IaDeny

record intervention_policy =
  ip_human_present :: intervention_action
  ip_human_not_present :: intervention_action
  ip_blocked_kinds :: "intervention_kind list"

fun mode_policy :: "intervention_policy \<Rightarrow> commerce_mode \<Rightarrow> intervention_action" where
  "mode_policy ip HumanPresent = ip_human_present ip"
| "mode_policy ip HumanNotPresent = ip_human_not_present ip"

fun intervention_kind_name :: "intervention_kind \<Rightarrow> string" where
  "intervention_kind_name ThreeDsChallenge = ''three_ds_challenge''"
| "intervention_kind_name BiometricConfirmation = ''biometric_confirmation''"
| "intervention_kind_name AddressVerification = ''address_verification''"
| "intervention_kind_name BuyerReconfirmation = ''buyer_reconfirmation''"
| "intervention_kind_name MerchantReview = ''merchant_review''"
| "intervention_kind_name (OtherIntervention v) = v"

definition intervention_decision :: "intervention_policy \<Rightarrow> transaction_record \<Rightarrow> pay_decision" where
  "intervention_decision ip r =
     (let policy = mode_policy ip (tr_mode r);
          deny = (\<lambda>reason. PayDeny [finding ''intervention_policy'' reason SevHigh]);
          escalate = (\<lambda>reason. PayEscalate [finding ''intervention_policy'' reason SevMedium]) in
      case tr_state r of
        TxInterventionRequired iv \<Rightarrow>
          (let named = (\<lambda>what. ''intervention '' @ ticked (intervention_kind_name (iv_kind iv)) @ what) in
           if iv_kind iv \<in> set (ip_blocked_kinds ip) then deny (named '' is blocked by policy'')
           else case policy of
               IaAllow \<Rightarrow> PayAllow
             | IaRequireUserConfirmation \<Rightarrow> escalate (named '' requires explicit user confirmation before continuation'')
             | IaDeny \<Rightarrow> deny (named '' cannot continue under the current policy''))
      | _ \<Rightarrow>
          if tr_mode r = HumanNotPresent
          then (case policy of
              IaAllow \<Rightarrow> PayAllow
            | IaRequireUserConfirmation \<Rightarrow>
                escalate ''human-not-present payment execution requires explicit user confirmation''
            | IaDeny \<Rightarrow> deny ''human-not-present payment execution is blocked by policy'')
          else PayAllow)"

definition intervention_guardrail :: "intervention_policy \<Rightarrow> 'w guardrail" where
  "intervention_guardrail ip = pure_guardrail ''intervention_policy'' (\<lambda>r p. intervention_decision ip r)"

section \<open>The spend limit\<close>

definition spend_deny :: "string \<Rightarrow> pay_severity \<Rightarrow> pay_decision" where
  "spend_deny reason s = PayDeny [finding ''spend_limit'' reason s]"

definition spend_evaluate ::
    "bool \<Rightarrow> transaction_record \<Rightarrow> protocol_descriptor \<Rightarrow> 'w policy_context \<Rightarrow> 'w
     \<Rightarrow> pay_decision \<times> 'w policy_context \<times> 'w" where
  "spend_evaluate required r p cx w =
     (if \<not> moves_money (cx_operation cx) then (PayAllow, cx, w)
      else case cx_ledger cx of
        None \<Rightarrow>
          (if required then spend_deny ''no spend ledger is configured for this payment'' SevHigh else PayAllow, cx, w)
      | Some ledger \<Rightarrow>
          (case usd_micro_amount (ct_total (tr_cart r)) of
             Inl reason \<Rightarrow> (spend_deny reason SevHigh, cx, w)
           | Inr micro \<Rightarrow>
               let amount = word_of_int micro :: u64 in
               (case (case cx_org cx of Some og \<Rightarrow> Some og | None \<Rightarrow> map_option id_app_name (tr_session_identity r)) of
                  None \<Rightarrow> (spend_deny ''the payment has no organization to attribute spend to'' SevHigh, cx, w)
                | Some og \<Rightarrow>
                    let merchant = mr_merchant_id (tr_merchant r) in
                    if merchant = []
                    then (spend_deny ''the payment names no merchant to attribute spend to'' SevHigh, cx, w)
                    else
                      let agent = (case cx_agent cx of Some a \<Rightarrow> a | None \<Rightarrow> ca_actor_id (tr_initiated_by r));
                          key = with_vendor (with_agent (spend_org og) agent) merchant in
                      (case sa_reserve ledger key amount w of
                         (Inr reservation, w') \<Rightarrow>
                           (PayAllow,
                            context_hold \<lparr>sh_ledger = ledger, sh_reservation = reservation, sh_amount = amount\<rparr> cx, w')
                       | (Inl e, w') \<Rightarrow>
                           if code e = ''spend.limit_exceeded'' then (spend_deny (message e) SevHigh, cx, w')
                           else (spend_deny (''spend ledger unreachable, payment refused: '' @ message e) SevCritical, cx, w')))))"

definition spend_guardrail :: "bool \<Rightarrow> 'w guardrail" where
  "spend_guardrail required = \<lparr>gd_name = ''spend_limit'', gd_evaluate = spend_evaluate required\<rparr>"

text \<open>\<^verbatim>\<open>with_spend_limit\<close>: the tools add an optional spend limit to a set that has none.\<close>

definition with_spend_limit :: "'w policy_set \<Rightarrow> 'w policy_set" where
  "with_spend_limit gs = (if set_contains gs ''spend_limit'' then gs else gs @ [spend_guardrail False])"

section \<open>The in-memory ledger as a trait object\<close>

text \<open>
  \<open>get\<close> and \<open>put\<close> reach the ledger's state in the world and \<open>clock\<close> reads the time in it; \<open>fresh\<close> is the
  next generated identifier.
\<close>

definition in_memory_ledger ::
    "(string \<Rightarrow> string) \<Rightarrow> chrono \<Rightarrow> spend_ledger \<Rightarrow> ('w \<Rightarrow> instant) \<Rightarrow> (ledger_state \<Rightarrow> string)
     \<Rightarrow> ('w \<Rightarrow> ledger_state) \<Rightarrow> (ledger_state \<Rightarrow> 'w \<Rightarrow> 'w) \<Rightarrow> 'w spend_api" where
  "in_memory_ledger esc ch lg clock fresh get put =
     \<lparr>sa_reserve = (\<lambda>key amount w.
        let (r, st) = ledger_result esc (spend_reserve ch lg (clock w) (fresh (get w)) key amount (get w)) in (r, put st w)),
      sa_commit = (\<lambda>i actual w. let (r, st) = ledger_result esc (spend_commit ch (clock w) i actual (get w)) in (r, put st w)),
      sa_release = (\<lambda>i w. let (r, st) = ledger_result esc (spend_release i (get w)) in (r, put st w))\<rparr>"

end
