(* ===== verification/Payment_Auth.thy ===== *)
theory Payment_Auth
  imports Transaction
begin

text \<open>
  Authorization and auditing of payments (\<^verbatim>\<open>adk-payments/src/auth/\<close>): the scopes an operation needs, the
  authenticated request and its binding to a transaction, and the audit event of an operation. The
  audit sink is a trait object: a function that may refuse with the text of its error. \<^verbatim>\<open>check_scopes\<close>
  is \<^verbatim>\<open>adk-auth/src/scope.rs\<close>.
\<close>

section \<open>Scopes\<close>

datatype auth_operation =
  AoCreateCheckout | AoUpdateCheckout | AoCompleteCheckout | AoCancelCheckout | AoExecutePayment | AoDelegateCredential
| AoContinueIntervention | AoUpdateOrder | AoSettlement | AoAdmin

fun auth_operation_name :: "auth_operation \<Rightarrow> string" where
  "auth_operation_name AoCreateCheckout = ''checkout_create''"
| "auth_operation_name AoUpdateCheckout = ''checkout_update''"
| "auth_operation_name AoCompleteCheckout = ''checkout_complete''"
| "auth_operation_name AoCancelCheckout = ''checkout_cancel''"
| "auth_operation_name AoExecutePayment = ''payment_execute''"
| "auth_operation_name AoDelegateCredential = ''credential_delegate''"
| "auth_operation_name AoContinueIntervention = ''intervention_continue''"
| "auth_operation_name AoUpdateOrder = ''order_update''"
| "auth_operation_name AoSettlement = ''settlement''"
| "auth_operation_name AoAdmin = ''admin''"

fun audit_resource :: "auth_operation \<Rightarrow> string" where
  "audit_resource AoCreateCheckout = ''payments.checkout.create''"
| "audit_resource AoUpdateCheckout = ''payments.checkout.update''"
| "audit_resource AoCompleteCheckout = ''payments.checkout.complete''"
| "audit_resource AoCancelCheckout = ''payments.checkout.cancel''"
| "audit_resource AoExecutePayment = ''payments.payment.execute''"
| "audit_resource AoDelegateCredential = ''payments.credential.delegate''"
| "audit_resource AoContinueIntervention = ''payments.intervention.continue''"
| "audit_resource AoUpdateOrder = ''payments.order.update''"
| "audit_resource AoSettlement = ''payments.settlement.write''"
| "audit_resource AoAdmin = ''payments.admin''"

fun required_scopes :: "auth_operation \<Rightarrow> string list" where
  "required_scopes AoCreateCheckout = [''payments:checkout:create'']"
| "required_scopes AoUpdateCheckout = [''payments:checkout:update'']"
| "required_scopes AoCompleteCheckout = [''payments:checkout:complete'']"
| "required_scopes AoCancelCheckout = [''payments:checkout:cancel'']"
| "required_scopes AoExecutePayment = [''payments:payment:execute'']"
| "required_scopes AoDelegateCredential = [''payments:credential:delegate'']"
| "required_scopes AoContinueIntervention = [''payments:intervention:continue'']"
| "required_scopes AoUpdateOrder = [''payments:order:update'']"
| "required_scopes AoSettlement = [''payments:settlement:write'']"
| "required_scopes AoAdmin = [''payments:admin'']"

record scope_denied =
  sd_required :: "string list"
  sd_missing :: "string list"

definition check_scopes :: "string list \<Rightarrow> string list \<Rightarrow> scope_denied + unit" where
  "check_scopes required granted =
     (if required = [] then Inr ()
      else let missing = filter (\<lambda>s. s \<notin> set granted) required in
        if missing = [] then Inr () else Inl \<lparr>sd_required = required, sd_missing = missing\<rparr>)"

datatype payments_auth_error =
    MissingScopes auth_operation "string list" "string list"
  | IdentityConflict string string string string
  | AuditSinkFailed string

definition check_payment_operation_scopes :: "auth_operation \<Rightarrow> string list \<Rightarrow> payments_auth_error + unit" where
  "check_payment_operation_scopes op granted =
     map_sum (\<lambda>d. MissingScopes op (sd_required d) (sd_missing d)) id (check_scopes (required_scopes op) granted)"

text \<open>How \<^verbatim>\<open>{:?}\<close> prints a list of strings, \<open>dbg\<close> printing one.\<close>

definition payments_auth_error_text :: "(string list \<Rightarrow> string) \<Rightarrow> payments_auth_error \<Rightarrow> string" where
  "payments_auth_error_text dbg e =
     (case e of
        MissingScopes op required missing \<Rightarrow>
          ''payment operation '' @ ticked (auth_operation_name op) @ '' is missing required scopes '' @ dbg missing
          @ '' (requires '' @ dbg required @ ''). Grant the missing scopes before retrying the payment mutation.''
      | IdentityConflict tx binding expected actual \<Rightarrow>
          ''authenticated request value '' @ ticked actual @ '' conflicts with transaction '' @ ticked tx @ '' binding ''
          @ ticked binding @ '' expected '' @ ticked expected
          @ ''. Reuse the original transaction identity instead of rebinding it implicitly.''
      | AuditSinkFailed err \<Rightarrow>
          ''failed to emit a payment audit event: '' @ err
          @ ''. Restore the configured audit sink before retrying the sensitive payment action.'')"

definition payments_auth_adk_error :: "(string list \<Rightarrow> string) \<Rightarrow> payments_auth_error \<Rightarrow> adk_error" where
  "payments_auth_adk_error dbg e =
     (case e of
        MissingScopes op required missing \<Rightarrow>
          adk_error_new Auth Forbidden ''payments.auth.scope_denied'' (payments_auth_error_text dbg e)
      | IdentityConflict tx binding expected actual \<Rightarrow>
          adk_error_new Auth Forbidden ''payments.auth.identity_conflict'' (payments_auth_error_text dbg e)
      | AuditSinkFailed err \<Rightarrow> adk_error_new Auth Internal ''payments.auth.audit_failed'' err)"

section \<open>The authenticated request\<close>

record payment_request =
  aq_user_id :: string
  aq_session_id :: "string option"
  aq_tenant_id :: "string option"
  aq_scopes :: "string list"
  aq_metadata :: "(string, json) table"

definition payment_request_new :: "string \<Rightarrow> payment_request" where
  "payment_request_new user =
     \<lparr>aq_user_id = user, aq_session_id = None, aq_tenant_id = None, aq_scopes = [], aq_metadata = []\<rparr>"

definition request_with_metadata :: "string \<Rightarrow> json \<Rightarrow> payment_request \<Rightarrow> payment_request" where
  "request_with_metadata k v rq = rq\<lparr>aq_metadata := AList.update k v (aq_metadata rq)\<rparr>"

definition check_operation_scopes :: "payment_request \<Rightarrow> auth_operation \<Rightarrow> payments_auth_error + unit" where
  "check_operation_scopes rq op = check_payment_operation_scopes op (aq_scopes rq)"

definition assert_tenant :: "payment_request \<Rightarrow> transaction_record \<Rightarrow> payments_auth_error + unit" where
  "assert_tenant rq r =
     (case (aq_tenant_id rq, ca_tenant_id (tr_initiated_by r)) of
        (Some actual, Some expected) \<Rightarrow>
          if actual \<noteq> expected then Inl (IdentityConflict (tr_transaction_id r) ''tenant_id'' expected actual) else Inr ()
      | _ \<Rightarrow> Inr ())"

definition assert_transaction_binding :: "payment_request \<Rightarrow> transaction_record \<Rightarrow> payments_auth_error + unit" where
  "assert_transaction_binding rq r =
     (case tr_session_identity r of
        None \<Rightarrow> assert_tenant rq r
      | Some i \<Rightarrow>
          if aq_user_id rq \<noteq> id_user_id i
          then Inl (IdentityConflict (tr_transaction_id r) ''session_user_id'' (id_user_id i) (aq_user_id rq))
          else (case aq_session_id rq of
                  Some s \<Rightarrow>
                    if s \<noteq> id_session_id i
                    then Inl (IdentityConflict (tr_transaction_id r) ''session_id'' (id_session_id i) s)
                    else assert_tenant rq r
                | None \<Rightarrow> assert_tenant rq r))"

section \<open>The audit event of an operation\<close>

datatype access_outcome = AccAllowed | AccDenied | AccError | AccOther

fun audit_outcome_name :: "access_outcome \<Rightarrow> string" where
  "audit_outcome_name AccAllowed = ''allowed''"
| "audit_outcome_name AccDenied = ''denied''"
| "audit_outcome_name AccError = ''error''"
| "audit_outcome_name AccOther = ''unknown''"

text \<open>The fields of an \<^verbatim>\<open>AuditEvent\<close> that a payment sets; the others are absent.\<close>

record payment_event =
  pe_timestamp :: instant
  pe_user :: string
  pe_resource :: string
  pe_outcome :: access_outcome
  pe_metadata :: json
  pe_tenant_id :: "string option"
  pe_action :: string

fun role_json :: "actor_role \<Rightarrow> json" where
  "role_json RoleShopper = JString ''shopper''"
| "role_json RoleMerchant = JString ''merchant''"
| "role_json RoleCredentialsProvider = JString ''credentials_provider''"
| "role_json RolePaymentProcessor = JString ''payment_processor''"
| "role_json RoleAgentSurface = JString ''agent_surface''"
| "role_json RoleSystem = JString ''system''"
| "role_json (RoleCustom s) = JObject [(''custom'', JString s)]"

definition opt_json :: "string option \<Rightarrow> json" where
  "opt_json s = (case s of Some t \<Rightarrow> JString t | None \<Rightarrow> JNull)"

definition payment_audit_event ::
    "instant \<Rightarrow> payment_request \<Rightarrow> transaction_record \<Rightarrow> protocol_descriptor \<Rightarrow> auth_operation \<Rightarrow> access_outcome \<Rightarrow> bool
     \<Rightarrow> payment_event" where
  "payment_audit_event now rq r p op outcome intervened =
     \<lparr>pe_timestamp = now, pe_user = aq_user_id rq, pe_resource = audit_resource op, pe_outcome = outcome,
      pe_metadata = JObject
        [(''operation'', JString (auth_operation_name op)),
         (''transactionId'', JString (tr_transaction_id r)),
         (''protocol'', JString (pd_name p)),
         (''protocolVersion'', opt_json (pd_version p)),
         (''merchantOfRecord'', JObject
           [(''merchantId'', JString (mr_merchant_id (tr_merchant r))),
            (''legalName'', JString (mr_legal_name (tr_merchant r))),
            (''displayName'', opt_json (mr_display_name (tr_merchant r)))]),
         (''outcome'', JString (audit_outcome_name outcome)),
         (''interventionOccurred'', JBool intervened),
         (''authenticatedRequest'', JObject
           [(''userId'', JString (aq_user_id rq)),
            (''sessionId'', opt_json (aq_session_id rq)),
            (''tenantId'', opt_json (aq_tenant_id rq)),
            (''scopes'', JArray (map JString (aq_scopes rq))),
            (''metadata'', JObject (aq_metadata rq))]),
         (''sessionIdentity'', JBool (tr_session_identity r \<noteq> None)),
         (''protocolActor'', JObject
           [(''actorId'', JString (ca_actor_id (tr_initiated_by r))),
            (''role'', role_json (ca_role (tr_initiated_by r))),
            (''displayName'', opt_json (ca_display_name (tr_initiated_by r))),
            (''tenantId'', opt_json (ca_tenant_id (tr_initiated_by r)))])],
      pe_tenant_id = aq_tenant_id rq, pe_action = ''permission_check''\<rparr>"

type_synonym 'w audit_sink = "payment_event \<Rightarrow> 'w \<Rightarrow> (string + unit) \<times> 'w"

definition record_operation ::
    "'w audit_sink \<Rightarrow> instant \<Rightarrow> payment_request \<Rightarrow> transaction_record \<Rightarrow> protocol_descriptor \<Rightarrow> auth_operation
     \<Rightarrow> access_outcome \<Rightarrow> bool \<Rightarrow> 'w \<Rightarrow> (payments_auth_error + unit) \<times> 'w" where
  "record_operation sink now rq r p op outcome intervened w =
     (let (res, w') = sink (payment_audit_event now rq r p op outcome intervened) w in
      (map_sum AuditSinkFailed id res, w'))"

end
