(* ===== verification/Payment_Governor.thy ===== *)
theory Payment_Governor
  imports Payment_Policy Payment_Auth Audit_Record
begin

text \<open>
  The governor of payments (\<^verbatim>\<open>adk-payments/src/kernel/governed.rs\<close>): policies are evaluated, an escalation
  is decided by the caller's approver, the decision is recorded in the caller's audit trail and by the
  auditor, and only then the backend runs; the budget held in between is settled by its result. The
  backend, the approver and the sink are functions that may change the world \<open>'w\<close>; \<open>cart_json\<close> is
  \<^verbatim>\<open>serde_json::to_value\<close> of a cart, \<open>esc\<close> and \<open>dbg\<close> print strings.
\<close>

section \<open>Callers\<close>

datatype payment_approval = PaApproved | PaDenied | PaPending

text \<open>An audit trail together with where its records are in the world.\<close>

record 'w trail_handle =
  th_trail :: audit_trail
  th_get :: "'w \<Rightarrow> audit_draft list"
  th_put :: "audit_draft list \<Rightarrow> 'w \<Rightarrow> 'w"

definition handle_record :: "'w trail_handle \<Rightarrow> audit_draft \<Rightarrow> 'w \<Rightarrow> unit result \<times> 'w" where
  "handle_record h d w = (let (res, ds) = trail_record (th_trail h) (th_get h w) d in (res, th_put h ds w))"

text \<open>\<^verbatim>\<open>trail.recorder().record\<close>: past the failure mode; a failure is only logged.\<close>

definition recorder_record :: "'w trail_handle \<Rightarrow> audit_draft \<Rightarrow> 'w \<Rightarrow> 'w" where
  "recorder_record h d w =
     (case at_recorder (th_trail h) (th_get h w) d of
        None \<Rightarrow> th_put h (th_get h w @ [d]) w
      | Some err \<Rightarrow> w)"

type_synonym 'w approver = "transaction_record \<Rightarrow> policy_finding list \<Rightarrow> 'w \<Rightarrow> payment_approval result \<times> 'w"

record 'w payment_caller =
  pc_org :: "string option"
  pc_agent :: "string option"
  pc_spend_ledger :: "'w spend_api option"
  pc_approver :: "'w approver option"
  pc_audit :: "('w trail_handle \<times> audit_actor) option"

definition payment_caller_new :: "'w payment_caller" where
  "payment_caller_new = \<lparr>pc_org = None, pc_agent = None, pc_spend_ledger = None, pc_approver = None, pc_audit = None\<rparr>"

section \<open>Records and errors\<close>

fun operation_action :: "payment_operation \<Rightarrow> string" where
  "operation_action CreateCheckout = ''payment.create_checkout''"
| "operation_action CompleteCheckout = ''payment.complete_checkout''"
| "operation_action ExecutePayment = ''payment.execute_payment''"

definition payment_draft ::
    "(cart \<Rightarrow> json) \<Rightarrow> 'w trail_handle \<Rightarrow> audit_actor \<Rightarrow> payment_operation \<Rightarrow> transaction_record \<Rightarrow> protocol_descriptor
     \<Rightarrow> policy_finding list \<Rightarrow> audit_draft" where
  "payment_draft cart_json h actor op r p fs =
     (let guardrails = map (\<lambda>f. JString (fi_guardrail f)) fs;
          d = (audit_draft_new AkPayment (operation_action op))
            \<lparr>dr_actor := actor, dr_args_digest := Some (at_digest (th_trail h) (cart_json (tr_cart r))),
             dr_policy_ref := Some ''payment_policy''\<rparr>;
          d = draft_ext ''transactionId'' (JString (tr_transaction_id r)) d;
          d = draft_ext ''merchantId'' (JString (mr_merchant_id (tr_merchant r))) d;
          d = draft_ext ''currency'' (JString (mo_currency (ct_total (tr_cart r)))) d;
          d = draft_ext ''amountMinor'' (JNumber (show_int (mo_minor (ct_total (tr_cart r))))) d;
          d = draft_ext ''scale'' (JNumber (show_nat (mo_scale (ct_total (tr_cart r))))) d;
          d = draft_ext ''protocol'' (JString (pd_name p)) d;
          d = (if guardrails \<noteq> [] then draft_ext ''guardrails'' (JArray guardrails) d else d) in
      case tr_session_identity r of
        Some i \<Rightarrow> draft_ext ''sessionId'' (JString (id_session_id i)) d
      | None \<Rightarrow> d)"

definition policy_error :: "(string \<Rightarrow> string) \<Rightarrow> string \<Rightarrow> string \<Rightarrow> policy_finding list \<Rightarrow> adk_error" where
  "policy_error esc cd summary fs =
     (let reasons = map (\<lambda>f. fi_guardrail f @ '': '' @ fi_reason f) fs in
      with_details (adk_error_new Guardrail Forbidden cd (summary @ '': '' @ join_with ''; '' reasons))
        (default_details\<lparr>metadata := [(''findings'', write_canonical esc (JArray (map JString reasons)))]\<rparr>))"

section \<open>The governor\<close>

datatype settlement = SettleCommit "u64 option" | SettleRelease

record 'w governor =
  gv_policies :: "'w policy_set"
  gv_spend_ledger :: "'w spend_api option"
  gv_auditor :: "'w audit_sink option"

text \<open>What \<^verbatim>\<open>govern\<close> takes from outside the source: how a cart, a string and a list of strings print.\<close>

record pay_lib =
  pl_cart_json :: "cart \<Rightarrow> json"
  pl_esc :: "string \<Rightarrow> string"
  pl_dbg :: "string list \<Rightarrow> string"

fun audit_operation :: "payment_operation \<Rightarrow> auth_operation" where
  "audit_operation CreateCheckout = AoCreateCheckout"
| "audit_operation CompleteCheckout = AoCompleteCheckout"
| "audit_operation ExecutePayment = AoExecutePayment"

definition audit_request :: "transaction_record \<Rightarrow> 'w payment_caller \<Rightarrow> payment_request" where
  "audit_request r c =
     (let user = (case tr_session_identity r of
                    Some i \<Rightarrow> id_user_id i
                  | None \<Rightarrow> (case pc_agent c of Some a \<Rightarrow> a | None \<Rightarrow> ca_actor_id (tr_initiated_by r)));
          rq = payment_request_new user;
          rq = (case tr_session_identity r of Some i \<Rightarrow> rq\<lparr>aq_session_id := Some (id_session_id i)\<rparr> | None \<Rightarrow> rq);
          rq = (case pc_org c of Some og \<Rightarrow> request_with_metadata ''org'' (JString og) rq | None \<Rightarrow> rq) in
      case pc_agent c of Some a \<Rightarrow> request_with_metadata ''agent'' (JString a) rq | None \<Rightarrow> rq)"

definition audit_refusal ::
    "'w governor \<Rightarrow> instant \<Rightarrow> payment_operation \<Rightarrow> transaction_record \<Rightarrow> protocol_descriptor \<Rightarrow> 'w payment_caller \<Rightarrow> 'w \<Rightarrow> 'w" where
  "audit_refusal gv now op r p c w =
     (case gv_auditor gv of
        None \<Rightarrow> w
      | Some sink \<Rightarrow> snd (record_operation sink now (audit_request r c) r p (audit_operation op) AccDenied False w))"

text \<open>\<^verbatim>\<open>caller_record\<close> and its write: an allowed decision is drafted without an outcome, a refusal as not run.\<close>

definition caller_record ::
    "pay_lib \<Rightarrow> payment_operation \<Rightarrow> transaction_record \<Rightarrow> protocol_descriptor \<Rightarrow> 'w payment_caller \<Rightarrow> audit_decision
     \<Rightarrow> policy_finding list \<Rightarrow> 'w \<Rightarrow> unit result \<times> 'w" where
  "caller_record lib op r p c dcs fs w =
     (case pc_audit c of
        None \<Rightarrow> (Inr (), w)
      | Some (h, actor) \<Rightarrow>
          (let d = (payment_draft (pl_cart_json lib) h actor op r p fs)\<lparr>dr_decision := Some dcs\<rparr>;
               d = (if dcs = Allowed \<or> dcs = Approved then d else d\<lparr>dr_outcome := Some NotRun\<rparr>)
           in handle_record h d w))"

definition govern_context :: "'w governor \<Rightarrow> payment_operation \<Rightarrow> 'w payment_caller \<Rightarrow> 'w policy_context" where
  "govern_context gv op c =
     (policy_context_new op)
       \<lparr>cx_ledger := (case gv_spend_ledger gv of Some l \<Rightarrow> Some l | None \<Rightarrow> pc_spend_ledger c),
        cx_org := pc_org c, cx_agent := pc_agent c\<rparr>"

text \<open>How an escalation is decided: the refusal, if any, and the decision it is recorded as.\<close>

definition escalation_refusal ::
    "pay_lib \<Rightarrow> payment_approval result \<Rightarrow> policy_finding list \<Rightarrow> (audit_decision \<times> adk_error) option" where
  "escalation_refusal lib approval fs =
     (case approval of
        Inr PaApproved \<Rightarrow> None
      | Inr PaDenied \<Rightarrow>
          Some (Rejected, policy_error (pl_esc lib) ''payments.policy.approval_denied'' ''payment approval was denied'' fs)
      | Inr PaPending \<Rightarrow>
          Some (ApprovalRequired, policy_error (pl_esc lib) ''payments.policy.approval_required'' ''payment requires approval'' fs)
      | Inl e \<Rightarrow> Some (Denied, e))"

text \<open>The decision before the backend runs: a refusal, or whether the payment was escalated.\<close>

definition payment_decision ::
    "pay_lib \<Rightarrow> 'w governor \<Rightarrow> instant \<Rightarrow> payment_operation \<Rightarrow> transaction_record \<Rightarrow> protocol_descriptor
     \<Rightarrow> 'w payment_caller \<Rightarrow> 'w \<Rightarrow> bool result \<times> 'w policy_context \<times> 'w" where
  "payment_decision lib gv now op r p c w =
     (case policy_set_evaluate (gv_policies gv) r p (govern_context gv op c) w of
        (PayAllow, cx, w) \<Rightarrow>
          (case caller_record lib op r p c Allowed [] w of
             (Inl e, w) \<Rightarrow> (let (cx, w) = release_holds cx w in (Inl e, cx, w))
           | (Inr (), w) \<Rightarrow> (Inr False, cx, w))
      | (PayDeny fs, cx, w) \<Rightarrow>
          (let w = snd (caller_record lib op r p c Denied fs w);
               w = audit_refusal gv now op r p c w
           in (Inl (policy_error (pl_esc lib) ''payments.policy.denied'' ''payment refused by policy'' fs), cx, w))
      | (PayEscalate fs, cx, w) \<Rightarrow>
          (let (approval, w) = (case pc_approver c of Some ask \<Rightarrow> ask r fs w | None \<Rightarrow> (Inr PaPending, w)) in
           case escalation_refusal lib approval fs of
             Some (refused_as, e) \<Rightarrow>
               (let (cx, w) = release_holds cx w;
                    w = snd (caller_record lib op r p c refused_as fs w);
                    w = audit_refusal gv now op r p c w
                in (Inl e, cx, w))
           | None \<Rightarrow>
               (case caller_record lib op r p c Approved fs w of
                  (Inl e, w) \<Rightarrow> (let (cx, w) = release_holds cx w in (Inl e, cx, w))
                | (Inr (), w) \<Rightarrow> (Inr True, cx, w))))"

text \<open>The auditor's write, which also precedes the call.\<close>

definition audit_allowed ::
    "pay_lib \<Rightarrow> 'w governor \<Rightarrow> instant \<Rightarrow> payment_operation \<Rightarrow> transaction_record \<Rightarrow> protocol_descriptor \<Rightarrow> 'w payment_caller
     \<Rightarrow> bool \<Rightarrow> 'w \<Rightarrow> unit result \<times> 'w" where
  "audit_allowed lib gv now op r p c escalated w =
     (case gv_auditor gv of
        None \<Rightarrow> (Inr (), w)
      | Some sink \<Rightarrow>
          (let (res, w) = record_operation sink now (audit_request r c) r p (audit_operation op) AccAllowed escalated w in
           (map_sum (payments_auth_adk_error (pl_dbg lib)) id res, w)))"

definition record_outcome ::
    "pay_lib \<Rightarrow> payment_operation \<Rightarrow> transaction_record \<Rightarrow> protocol_descriptor \<Rightarrow> 'w payment_caller \<Rightarrow> bool \<Rightarrow> 'w \<Rightarrow> 'w" where
  "record_outcome lib op r p c succeeded w =
     (case pc_audit c of
        None \<Rightarrow> w
      | Some (h, actor) \<Rightarrow>
          recorder_record h
            ((payment_draft (pl_cart_json lib) h actor op r p [])
               \<lparr>dr_outcome := Some (if succeeded then OutSucceeded else OutFailed)\<rparr>) w)"

definition govern ::
    "pay_lib \<Rightarrow> 'w governor \<Rightarrow> instant \<Rightarrow> payment_operation \<Rightarrow> transaction_record \<Rightarrow> protocol_descriptor
     \<Rightarrow> 'w payment_caller \<Rightarrow> ('w \<Rightarrow> 'a result \<times> 'w) \<Rightarrow> ('a \<Rightarrow> settlement) \<Rightarrow> 'w \<Rightarrow> 'a result \<times> 'w" where
  "govern lib gv now op r p c run settle w =
     (case payment_decision lib gv now op r p c w of
        (Inl e, cx, w) \<Rightarrow> (Inl e, w)
      | (Inr escalated, cx, w) \<Rightarrow>
          (case audit_allowed lib gv now op r p c escalated w of
             (Inl e, w) \<Rightarrow> (Inl e, snd (release_holds cx w))
           | (Inr (), w) \<Rightarrow>
               (let (res, w) = run w;
                    w = record_outcome lib op r p c (case res of Inr _ \<Rightarrow> True | Inl _ \<Rightarrow> False) w in
                case res of
                  Inr a \<Rightarrow>
                    (case settle a of
                       SettleCommit actual \<Rightarrow> (Inr a, snd (commit_holds actual cx w))
                     | SettleRelease \<Rightarrow> (Inr a, snd (release_holds cx w)))
                | Inl e \<Rightarrow> (Inl e, snd (release_holds cx w)))))"

section \<open>Governed checkouts\<close>

record commerce_context =
  cc_transaction_id :: string
  cc_session_identity :: "adk_identity option"
  cc_actor :: commerce_actor
  cc_merchant :: merchant_ref
  cc_payment_processor :: "processor_ref option"
  cc_mode :: commerce_mode
  cc_protocol :: protocol_descriptor
  cc_extensions :: extensions

record create_checkout_command =
  ck_context :: commerce_context
  ck_cart :: cart
  ck_fulfillment :: "fulfillment option"

record payment_method =
  pm_selection_kind :: string
  pm_reference :: "string option"
  pm_display_hint :: "string option"
  pm_extensions :: extensions

record complete_checkout_command =
  co_context :: commerce_context
  co_payment_method :: "payment_method option"
  co_extensions :: extensions

record update_checkout_command =
  uc_context :: commerce_context
  uc_cart :: "cart option"
  uc_fulfillment :: "fulfillment option"

record cancel_checkout_command =
  cn_context :: commerce_context
  cn_reason :: "string option"
  cn_extensions :: extensions

record order_update_command =
  ou_context :: commerce_context
  ou_order :: order_snapshot

record transaction_lookup =
  lk_transaction_id :: string
  lk_session_identity :: "adk_identity option"

text \<open>The \<^verbatim>\<open>MerchantCheckoutService\<close> trait.\<close>

record 'w checkout_service =
  cs_create :: "create_checkout_command \<Rightarrow> 'w \<Rightarrow> transaction_record result \<times> 'w"
  cs_update :: "update_checkout_command \<Rightarrow> 'w \<Rightarrow> transaction_record result \<times> 'w"
  cs_get :: "transaction_lookup \<Rightarrow> 'w \<Rightarrow> transaction_record option result \<times> 'w"
  cs_complete :: "complete_checkout_command \<Rightarrow> 'w \<Rightarrow> transaction_record result \<times> 'w"
  cs_cancel :: "cancel_checkout_command \<Rightarrow> 'w \<Rightarrow> transaction_record result \<times> 'w"
  cs_order_update :: "order_update_command \<Rightarrow> 'w \<Rightarrow> transaction_record result \<times> 'w"

definition checkout_settlement :: "transaction_record \<Rightarrow> settlement" where
  "checkout_settlement r =
     SettleCommit (case usd_micro_amount (ct_total (tr_cart r)) of Inr n \<Rightarrow> Some (word_of_int n) | Inl _ \<Rightarrow> None)"

definition caller_from :: "commerce_context \<Rightarrow> 'w payment_caller" where
  "caller_from cc =
     payment_caller_new
       \<lparr>pc_agent := Some (ca_actor_id (cc_actor cc)), pc_org := map_option id_app_name (cc_session_identity cc)\<rparr>"

text \<open>\<open>now\<close> is the creation time \<^verbatim>\<open>Utc::now()\<close> gives the drafted record, and the time of the audit event.\<close>

definition create_checkout_as ::
    "pay_lib \<Rightarrow> 'w governor \<Rightarrow> 'w checkout_service \<Rightarrow> instant \<Rightarrow> create_checkout_command \<Rightarrow> 'w payment_caller \<Rightarrow> 'w
     \<Rightarrow> transaction_record result \<times> 'w" where
  "create_checkout_as lib gv inner now cmd c w =
     (let cc = ck_context cmd;
          r = (transaction_record_new (cc_transaction_id cc) (cc_actor cc) (cc_merchant cc) (cc_mode cc) (ck_cart cmd) now)
            \<lparr>tr_session_identity := cc_session_identity cc, tr_payment_processor := cc_payment_processor cc\<rparr> in
      govern lib gv now CreateCheckout r (cc_protocol cc) c (cs_create inner cmd) checkout_settlement w)"

definition complete_checkout_as ::
    "pay_lib \<Rightarrow> 'w governor \<Rightarrow> 'w checkout_service \<Rightarrow> instant \<Rightarrow> complete_checkout_command \<Rightarrow> 'w payment_caller \<Rightarrow> 'w
     \<Rightarrow> transaction_record result \<times> 'w" where
  "complete_checkout_as lib gv inner now cmd c w =
     (let cc = co_context cmd in
      case cs_get inner \<lparr>lk_transaction_id = cc_transaction_id cc, lk_session_identity = cc_session_identity cc\<rparr> w of
        (Inl e, w) \<Rightarrow> (Inl e, w)
      | (Inr None, w) \<Rightarrow>
          (Inl (adk_error_new Guardrail NotFound ''payments.policy.checkout_not_found''
             (''checkout '' @ ticked (cc_transaction_id cc) @ '' was not found, so its payment policies cannot be evaluated'')), w)
      | (Inr (Some r), w) \<Rightarrow>
          govern lib gv now CompleteCheckout r (cc_protocol cc) c (cs_complete inner cmd) checkout_settlement w)"

definition governed_service :: "pay_lib \<Rightarrow> 'w governor \<Rightarrow> 'w checkout_service \<Rightarrow> instant \<Rightarrow> 'w checkout_service" where
  "governed_service lib gv inner now =
     \<lparr>cs_create = (\<lambda>cmd. create_checkout_as lib gv inner now cmd (caller_from (ck_context cmd))),
      cs_update = cs_update inner,
      cs_get = cs_get inner,
      cs_complete = (\<lambda>cmd. complete_checkout_as lib gv inner now cmd (caller_from (co_context cmd))),
      cs_cancel = cs_cancel inner,
      cs_order_update = cs_order_update inner\<rparr>"

end
