(* ===== verification/Money_Props.thy ===== *)
theory Money_Props
  imports Money Signed_Note_Props
begin

text \<open>
  Money is exact: an amount stands for a rational number, parsing reads the number its text denotes,
  printing and parsing are inverse, sums and differences are those of the numbers, and the
  comparison the payment policies rest on is the order of the numbers.
\<close>

section \<open>The number an amount stands for\<close>

definition money_wf :: "money \<Rightarrow> bool" where
  "money_wf m \<longleftrightarrow> in_i64 (mo_minor m) \<and> in_u32 (int (mo_scale m))"

definition money_value :: "money \<Rightarrow> rat" where
  "money_value m = of_int (mo_minor m) / 10 ^ mo_scale m"

lemma money_new_simps [simp]:
  "mo_currency (money_new c a s) = c" "mo_minor (money_new c a s) = a" "mo_scale (money_new c a s) = s"
  "money_value (money_new c a s) = of_int a / 10 ^ s"
  "money_wf (money_new c a s) \<longleftrightarrow> in_i64 a \<and> in_u32 (int s)"
  by (simp_all add: money_new_def money_value_def money_wf_def)

lemma checked_Some [simp]: "checked fits i = Some n \<longleftrightarrow> fits i \<and> n = i"
  by (auto simp: checked_def)

lemma checked_None [simp]: "checked fits i = None \<longleftrightarrow> \<not> fits i"
  by (simp add: checked_def)

lemma pow_ten_Some [simp]: "pow_ten fits k = Some n \<longleftrightarrow> fits (10 ^ k) \<and> n = 10 ^ k"
  by (simp add: pow_ten_def)

lemma pow_ten_None [simp]: "pow_ten fits k = None \<longleftrightarrow> \<not> fits (10 ^ k)"
  by (simp add: pow_ten_def)

section \<open>Reading digits\<close>

definition horner :: "int \<Rightarrow> string \<Rightarrow> int" where
  "horner = foldl (\<lambda>n c. n * 10 + digit c)"

lemma horner_simps [simp]:
  "horner acc [] = acc" "horner acc (c # cs) = horner (acc * 10 + digit c) cs"
  "horner acc (s @ t) = horner (horner acc s) t"
  by (simp_all add: horner_def)

lemma fold_digits_horner: "fold_digits acc s = Some n \<Longrightarrow> n = horner acc s"
  by (induction acc s rule: fold_digits.induct) (auto split: bind_splits)

lemma digit_zero [simp]: "digit CHR ''0'' = 0"
  by (simp add: digit_def)

lemma horner_zeros: "horner acc (replicate j CHR ''0'') = acc * 10 ^ j"
  by (induction j arbitrary: acc) (simp_all add: ac_simps)

lemma horner_drop_zeros: "horner 0 (dropWhile (\<lambda>c. c = CHR ''0'') s) = horner 0 s"
  by (induction s) auto

lemma pop_zeros_spec:
  "pop_zeros r k = (r', k') \<Longrightarrow>
   \<exists>j. r = replicate j CHR ''0'' @ r' \<and> k' = k - int j \<and> (0 < j \<longrightarrow> 0 \<le> k') \<and>
       (r' \<noteq> [] \<longrightarrow> 0 < k' \<longrightarrow> hd r' \<noteq> CHR ''0'')"
proof (induction r k rule: pop_zeros.induct)
  case (2 c cs scale)
  show ?case
  proof (cases "0 < scale \<and> c = CHR ''0''")
    case True
    then obtain j where "cs = replicate j CHR ''0'' @ r'" "k' = scale - 1 - int j" "0 < j \<longrightarrow> 0 \<le> k'"
      "r' \<noteq> [] \<longrightarrow> 0 < k' \<longrightarrow> hd r' \<noteq> CHR ''0''"
      using 2 by auto
    with True show ?thesis by (intro exI [of _ "Suc j"]) auto
  next
    case False
    with 2 show ?thesis by (intro exI [of _ 0]) auto
  qed
qed auto

text \<open>The number a decimal text denotes: \<open>\<plusminus>whole.fraction \<times> 10^ex\<close>.\<close>

definition decimal_text :: "bool \<Rightarrow> string \<Rightarrow> string \<Rightarrow> (char \<times> string) option \<Rightarrow> string" where
  "decimal_text negative whole fraction ex =
     (if negative then ''-'' else []) @ whole @ (if fraction = [] then [] else CHR ''.'' # fraction) @
     (case ex of None \<Rightarrow> [] | Some (mark, e) \<Rightarrow> mark # e)"

definition decimal_number :: "bool \<Rightarrow> string \<Rightarrow> string \<Rightarrow> int \<Rightarrow> rat" where
  "decimal_number negative whole fraction ex =
     (if negative then - 1 else 1) * of_int (horner 0 (whole @ fraction)) * 10 powi (ex - int (length fraction))"

lemma scale_digits_value:
  assumes "scale_digits c negative v digits len ex = Inr m"
  shows "mo_currency m = c" "mo_scale m \<le> 18" "money_wf m"
    "money_value m = (if negative then - 1 else 1) * of_int (horner 0 digits) * 10 powi (ex - int len)"
proof -
  obtain r scale where pop: "pop_zeros (rev digits) (int len - ex) = (r, scale)" by fastforce
  obtain j where j: "rev digits = replicate j CHR ''0'' @ r" "scale = int len - ex - int j" "0 < j \<longrightarrow> 0 \<le> scale"
    using pop_zeros_spec [OF pop] by blast
  have "rev (rev digits) = rev r @ replicate j CHR ''0''" by (simp only: j(1) rev_append rev_replicate)
  then have H: "horner 0 digits = horner 0 (rev r) * 10 ^ j" by (simp add: horner_zeros)
  let ?f = "if scale < 0 then 10 ^ nat (- scale) else 1 :: int"
  have m: "m = money_new c ((if negative then - 1 else 1) * (horner 0 (rev r) * ?f)) (nat scale)"
    and s: "scale \<le> 18" "in_i64 (mo_minor m)"
    using assms pop
    by (auto simp: scale_digits_def max_money_scale_def Let_def dest!: fold_digits_horner
        split: if_splits option.splits bind_splits)
  show "mo_currency m = c" "mo_scale m \<le> 18" using m s by auto
  show "money_wf m" using m s by (auto simp: money_wf_def in_u32_def)
  have "of_int (horner 0 (rev r) * ?f) / 10 ^ nat scale = (of_int (horner 0 digits) * 10 powi (ex - int len) :: rat)"
  proof (cases "scale < 0")
    case True
    define n where "n = nat (- scale)"
    from True j have "j = 0" "ex - int len = int n" by (auto simp: n_def)
    with True H show ?thesis by (simp add: flip: n_def)
  next
    case False
    define n where "n = nat scale"
    from False j have e: "ex - int len = - int (n + j)" by (simp add: n_def)
    have "10 powi (ex - int len) = (1 / (10 ^ n * 10 ^ j) :: rat)"
      by (simp only: e power_int_minus power_int_of_nat power_add inverse_eq_divide)
    with False H show ?thesis by (simp flip: n_def)
  qed
  with m show "money_value m = (if negative then - 1 else 1) * of_int (horner 0 digits) * 10 powi (ex - int len)"
    by auto
qed


lemma dropWhile_Cons: "dropWhile P s = x # rest \<Longrightarrow> s = takeWhile P s @ x # rest \<and> \<not> P x"
  by (metis takeWhile_dropWhile_id hd_dropWhile list.sel(1) list.distinct(1))

lemma split_exponent_text:
  assumes "split_exponent s = (mantissa, ex)"
  shows "\<exists>mark. s = mantissa @ (case ex of None \<Rightarrow> [] | Some e \<Rightarrow> mark # e)"
proof (cases "dropWhile (\<lambda>c. c \<notin> {CHR ''e'', CHR ''E''}) s")
  case Nil
  with assms have "s = mantissa" "ex = None" by (simp_all only: split_exponent_def list.case prod.inject)
  then show ?thesis by simp
next
  case (Cons x rest)
  with assms have "ex = Some rest" "mantissa = takeWhile (\<lambda>c. c \<notin> {CHR ''e'', CHR ''E''}) s"
    by (simp_all add: split_exponent_def)
  with dropWhile_Cons [OF Cons] show ?thesis by auto
qed

lemma split_once_text:
  assumes "split_once sep s = Some (a, b)"
  shows "s = a @ sep # b"
proof (cases "dropWhile (\<lambda>c. c \<noteq> sep) s")
  case Nil
  with assms show ?thesis by (simp only: split_once_def) simp
next
  case (Cons x rest)
  with assms have "a = takeWhile (\<lambda>c. c \<noteq> sep) s" "b = rest" by (simp_all only: split_once_def) simp_all
  moreover have "s = takeWhile (\<lambda>c. c \<noteq> sep) s @ x # rest" "x = sep" using dropWhile_Cons [OF Cons] by auto
  ultimately show ?thesis by metis
qed

text \<open>\<^verbatim>\<open>parse_decimal\<close> never rounds: an accepted text is a decimal numeral and the amount is its number.\<close>

definition exponent_of :: "(char \<times> string) option \<Rightarrow> int" where
  "exponent_of ex = (case ex of None \<Rightarrow> 0 | Some (_, e) \<Rightarrow> the (parse_i64 e))"

lemma parse_decimal_exact:
  assumes "parse_decimal c s = Inr m"
  shows "\<exists>negative whole fraction ex. s = decimal_text negative whole fraction ex \<and> whole \<noteq> [] \<and>
     list_all ascii_digit (whole @ fraction) \<and> (case ex of None \<Rightarrow> True | Some (_, e) \<Rightarrow> parse_i64 e \<noteq> None) \<and>
     mo_currency m = c \<and> mo_scale m \<le> 18 \<and> money_wf m \<and>
     money_value m = decimal_number negative whole fraction (exponent_of ex)"
proof -
  define negative where "negative = (s \<noteq> [] \<and> hd s = CHR ''-'')"
  define unsigned where "unsigned = (if negative then tl s else s)"
  obtain mantissa ex where ex: "split_exponent unsigned = (mantissa, ex)" by fastforce
  define parts where "parts = split_once CHR ''.'' mantissa"
  obtain whole fraction where wf: "(case parts of Some p \<Rightarrow> p | None \<Rightarrow> (mantissa, [])) = (whole, fraction)" by fastforce
  note defs = negative_def [symmetric] unsigned_def [symmetric] ex parts_def [symmetric] wf
  have parsed: "\<not> (parts \<noteq> None \<and> fraction = [])" "whole \<noteq> []" "list_all ascii_digit whole" "list_all ascii_digit fraction"
    using assms by (auto simp: parse_decimal_def Let_def defs split: if_splits)
  then obtain n where n: "parse_exponent s ex = Inr n"
    and m: "(let digits = dropWhile (\<lambda>c. c = CHR ''0'') (whole @ fraction) in
        if digits = [] then Inr (money_new c 0 0)
        else scale_digits c negative s digits (length fraction) n) = Inr m"
    using assms by (auto simp: parse_decimal_def Let_def defs simp del: dropWhile_eq_Nil_conv split: if_splits)
  have H: "horner 0 (dropWhile (\<lambda>c. c = CHR ''0'') (whole @ fraction)) = horner 0 (whole @ fraction)"
    by (rule horner_drop_zeros)
  have valued: "mo_currency m = c \<and> mo_scale m \<le> 18 \<and> money_wf m \<and>
      money_value m = decimal_number negative whole fraction n"
  proof (cases "dropWhile (\<lambda>c. c = CHR ''0'') (whole @ fraction) = []")
    case True
    then have "horner 0 (whole @ fraction) = 0" using H by (simp only: horner_simps)
    moreover have "m = money_new c 0 0" using True m by (simp only: Let_def simp_thms if_True sum.inject)
    ultimately show ?thesis by (simp add: decimal_number_def in_i64_def in_u32_def del: horner_simps)
  next
    case False
    with m have "scale_digits c negative s (dropWhile (\<lambda>c. c = CHR ''0'') (whole @ fraction)) (length fraction) n = Inr m"
      by (simp only: Let_def if_False)
    note scale_digits_value [OF this]
    then show ?thesis by (simp add: decimal_number_def H del: horner_simps)
  qed
  obtain mark where mark: "unsigned = mantissa @ (case ex of None \<Rightarrow> [] | Some e \<Rightarrow> mark # e)"
    using split_exponent_text [OF ex] by blast
  have mantissa: "mantissa = whole @ (if fraction = [] then [] else CHR ''.'' # fraction)"
    using wf parsed(1) split_once_text [of "CHR ''.''" mantissa] by (auto simp: parts_def split: option.splits)
  have "s = (if negative then ''-'' else []) @ unsigned" by (cases s) (auto simp: negative_def unsigned_def)
  then have text_s: "s = decimal_text negative whole fraction (map_option (Pair mark) ex)"
    using mark mantissa by (auto simp: decimal_text_def split: option.splits)
  have "case ex of None \<Rightarrow> n = 0 | Some e \<Rightarrow> parse_i64 e = Some n"
    using n by (auto simp: parse_exponent_def Let_def split: option.splits if_splits)
  with valued text_s parsed show ?thesis
    by (intro exI [of _ negative] exI [of _ whole] exI [of _ fraction] exI [of _ "map_option (Pair mark) ex"])
      (auto simp: exponent_of_def split: option.splits)
qed


section \<open>Arithmetic follows the numbers\<close>

lemma rescaled_value:
  assumes "rescaled m k = Inr r"
  shows "money_value r = money_value m" "mo_scale r = k" "mo_currency r = mo_currency m" "k \<le> 18"
    "money_wf m \<Longrightarrow> money_wf r"
proof -
  consider (same) "k = mo_scale m" "r = money_new (mo_currency m) (mo_minor m) k"
    | (finer) "mo_scale m < k" "in_i64 (mo_minor m * 10 ^ (k - mo_scale m))"
        "r = money_new (mo_currency m) (mo_minor m * 10 ^ (k - mo_scale m)) k"
    | (coarser) "k < mo_scale m" "in_i64 (10 ^ (mo_scale m - k))" "10 ^ (mo_scale m - k) dvd mo_minor m"
        "r = money_new (mo_currency m) (mo_minor m div 10 ^ (mo_scale m - k)) k"
    | (zero) "mo_minor m = 0" "r = money_new (mo_currency m) 0 k"
    using assms by (auto simp: rescaled_def Let_def max_money_scale_def dvd_eq_mod_eq_0 split: if_splits option.splits bind_splits)
  note kinds = this
  show k: "k \<le> 18" using assms by (auto simp: rescaled_def Let_def max_money_scale_def split: if_splits)
  show "mo_scale r = k" "mo_currency r = mo_currency m" using kinds by (cases; simp)+
  show "money_value r = money_value m" using kinds
  proof cases
    case finer
    then have "(10 :: rat) ^ k = 10 ^ mo_scale m * 10 ^ (k - mo_scale m)" by (simp flip: power_add)
    with finer show ?thesis by (simp add: money_value_def)
  next
    case coarser
    then have "(10 :: rat) ^ mo_scale m = 10 ^ k * 10 ^ (mo_scale m - k)" by (simp flip: power_add)
    moreover obtain q where "mo_minor m = 10 ^ (mo_scale m - k) * q" using coarser(3) by (elim dvdE)
    ultimately show ?thesis using coarser by (simp add: money_value_def)
  qed (simp_all add: money_value_def)
  have quotient: "in_i64 (a div 10 ^ n)" if a: "in_i64 a" "10 ^ n dvd a" for a :: int and n
  proof -
    obtain q where q: "a = 10 ^ n * q" using a(2) by (elim dvdE)
    have "q \<le> 10 ^ n * q" if "0 \<le> q" using mult_right_mono [of 1 "10 ^ n" q] that by simp
    moreover have "10 ^ n * q \<le> q" if "q \<le> 0" using mult_right_mono_neg [of 1 "10 ^ n" q] that by (simp add: mult.commute)
    ultimately have "10 ^ n * q \<le> q \<and> q \<le> 0 \<or> 0 \<le> q \<and> q \<le> 10 ^ n * q" by linarith
    with a(1) q show ?thesis by (auto simp: in_i64_def)
  qed
  show "money_wf r" if "money_wf m" using kinds that k
    by cases (auto simp: money_wf_def quotient in_u32_def in_i64_def [of 0])
qed

definition same_money :: "money \<Rightarrow> money \<Rightarrow> bool" where
  "same_money a b \<longleftrightarrow> same_currency (mo_currency a) (mo_currency b)"

lemma aligned_with_value:
  assumes "aligned_with a b = Inr (x, y)"
  shows "same_money a b" "money_value x = money_value a" "money_value y = money_value b" "mo_scale x = mo_scale y"
    "mo_currency x = mo_currency a" "mo_scale x \<le> 18" "in_u32 (int (mo_scale x))"
proof -
  have r: "rescaled a (max (mo_scale a) (mo_scale b)) = Inr x" "rescaled b (max (mo_scale a) (mo_scale b)) = Inr y"
    and "same_money a b"
    using assms by (auto simp: aligned_with_def same_money_def Let_def split: if_splits)
  with rescaled_value [OF r(1)] rescaled_value [OF r(2)]
  show "same_money a b" "money_value x = money_value a" "money_value y = money_value b" "mo_scale x = mo_scale y"
    "mo_currency x = mo_currency a" "mo_scale x \<le> 18" "in_u32 (int (mo_scale x))"
    by (simp_all add: in_u32_def)
qed

lemma sum_exact:
  assumes "money_checked_add a b = Inr m"
  shows "same_money a b \<and> money_wf m \<and> mo_currency m = mo_currency a \<and> money_value m = money_value a + money_value b"
proof -
  obtain x y where xy: "aligned_with a b = Inr (x, y)" and m: "in_i64 (mo_minor x + mo_minor y)"
    "m = money_new (mo_currency x) (mo_minor x + mo_minor y) (mo_scale x)"
    using assms by (auto simp: money_checked_add_def split: option.splits)
  note v = aligned_with_value [OF xy]
  show ?thesis using m v(1,5,7) v(2,3) [symmetric] v(4)
    by (simp add: money_value_def add_divide_distrib)
qed

lemma difference_exact:
  assumes "money_checked_sub a b = Inr m"
  shows "same_money a b \<and> money_wf m \<and> mo_currency m = mo_currency a \<and> money_value m = money_value a - money_value b"
proof -
  obtain x y where xy: "aligned_with a b = Inr (x, y)" and m: "in_i64 (mo_minor x - mo_minor y)"
    "m = money_new (mo_currency x) (mo_minor x - mo_minor y) (mo_scale x)"
    using assms by (auto simp: money_checked_sub_def split: option.splits)
  note v = aligned_with_value [OF xy]
  show ?thesis using m v(1,5,7) v(2,3) [symmetric] v(4)
    by (simp add: money_value_def diff_divide_distrib)
qed


text \<open>The comparison needs no rounding, and amounts of a scale that parsing accepts are always comparable.\<close>

definition compare_value :: "rat \<Rightarrow> rat \<Rightarrow> ordering" where
  "compare_value x y = (if x < y then Less else if x = y then Equal else Greater)"

lemma widen_value:
  assumes "widen k m = Some n" "mo_scale m \<le> k"
  shows "of_int n = money_value m * 10 ^ k"
proof -
  have "(10 :: rat) ^ k = 10 ^ mo_scale m * 10 ^ (k - mo_scale m)" using assms(2) by (simp flip: power_add)
  with assms(1) show ?thesis by (auto simp: widen_def money_value_def split: bind_splits)
qed

lemma compare_exact:
  assumes "compare_amount a b = Some ord"
  shows "same_money a b \<and> ord = compare_value (money_value a) (money_value b)"
proof -
  define k where "k = max (mo_scale a) (mo_scale b)"
  obtain x y where xy: "widen k a = Some x" "widen k b = Some y" and o: "ord = compare_int x y" "same_money a b"
    using assms by (auto simp: compare_amount_def same_money_def k_def Let_def split: if_splits bind_splits)
  have v: "of_int x = money_value a * 10 ^ k" "of_int y = money_value b * 10 ^ k"
    by (rule widen_value [OF xy(1)], simp add: k_def, rule widen_value [OF xy(2)], simp add: k_def)
  have "x < y \<longleftrightarrow> (of_int x :: rat) < of_int y" "x = y \<longleftrightarrow> (of_int x :: rat) = of_int y" by simp_all
  then have "x < y \<longleftrightarrow> money_value a < money_value b" "x = y \<longleftrightarrow> money_value a = money_value b"
    by (simp_all add: v)
  with o show ?thesis by (simp add: compare_int_def compare_value_def)
qed

lemma widen_fits:
  assumes "in_i64 (mo_minor m)" "k \<le> 18"
  shows "widen k m \<noteq> None"
proof -
  define f :: int where "f = 10 ^ (k - mo_scale m)"
  have f: "f \<le> 10 ^ 18" "0 < f"
    using power_increasing [of "k - mo_scale m" 18 "10 :: int"] assms(2) by (auto simp: f_def)
  have "\<bar>mo_minor m * f\<bar> \<le> 9223372036854775808 * 10 ^ 18"
    unfolding abs_mult using assms(1) f by (intro mult_mono) (auto simp: in_i64_def)
  with f show ?thesis
    by (simp add: widen_def in_i128_def abs_le_iff pow_ten_def checked_def flip: f_def)
qed

lemma compare_total:
  assumes "same_money a b" "money_wf a" "money_wf b" "mo_scale a \<le> 18" "mo_scale b \<le> 18"
  shows "compare_amount a b = Some (compare_value (money_value a) (money_value b))"
proof -
  have "compare_amount a b \<noteq> None"
    using assms widen_fits [of a "max (mo_scale a) (mo_scale b)"] widen_fits [of b "max (mo_scale a) (mo_scale b)"]
    by (auto simp: compare_amount_def same_money_def money_wf_def Let_def split: bind_splits)
  then show ?thesis using compare_exact by blast
qed

text \<open>A payment is reserved at its whole value: a finer amount is rounded up by less than one micro-dollar.\<close>

lemma div_ceil_bounds:
  assumes "0 < d"
  shows "a \<le> div_ceil a d * d" "div_ceil a d * d < a + d"
proof -
  have "a = a div d * d + a mod d" "0 \<le> a mod d" "a mod d < d" using assms by simp_all
  then show "a \<le> div_ceil a d * d" "div_ceil a d * d < a + d"
    by (simp_all only: div_ceil_def ring_distribs split: if_split) linarith+
qed

lemma usd_micro_bounds:
  assumes "usd_micro_amount m = Inr n"
  shows "same_currency (mo_currency m) ''USD'' \<and> 0 \<le> money_value m \<and>
    money_value m * 1000000 \<le> of_int n \<and> of_int n < money_value m * 1000000 + 1"
proof (cases "mo_scale m \<le> 6")
  case True
  then have p: "(10 :: rat) ^ 6 = 10 ^ mo_scale m * 10 ^ (6 - mo_scale m)" by (simp flip: power_add)
  have n: "n = mo_minor m * 10 ^ (6 - mo_scale m)" "0 \<le> mo_minor m" "same_currency (mo_currency m) ''USD''"
    using assms True by (auto simp: usd_micro_amount_def Let_def in_u64_def split: if_splits option.splits bind_splits)
  have "of_int n = money_value m * 10 ^ 6" by (simp only: p n(1)) (simp add: money_value_def)
  with n show ?thesis by (simp add: money_value_def)
next
  case False
  define k where "k = mo_scale m - 6"
  have n: "n = div_ceil (mo_minor m) (10 ^ k)" "0 \<le> mo_minor m" "same_currency (mo_currency m) ''USD''"
    using assms False by (auto simp: usd_micro_amount_def Let_def in_u64_def k_def split: if_splits option.splits)
  have p: "(10 :: rat) ^ mo_scale m = 10 ^ 6 * 10 ^ k" using False by (simp only: k_def flip: power_add) simp
  have v: "money_value m * 1000000 * 10 ^ k = of_int (mo_minor m)" by (simp add: money_value_def p)
  have "mo_minor m \<le> n * 10 ^ k" "n * 10 ^ k < mo_minor m + 10 ^ k"
    using div_ceil_bounds [of "10 ^ k" "mo_minor m"] by (simp_all add: n)
  then have "(of_int (mo_minor m) :: rat) \<le> of_int (n * 10 ^ k)" "(of_int (n * 10 ^ k) :: rat) < of_int (mo_minor m + 10 ^ k)"
    by (simp_all only: of_int_le_iff of_int_less_iff)
  then have "money_value m * 1000000 * 10 ^ k \<le> of_int n * 10 ^ k" "of_int n * 10 ^ k < (money_value m * 1000000 + 1) * 10 ^ k"
    by (simp_all add: v ring_distribs)
  then have "money_value m * 1000000 \<le> of_int n" "of_int n < money_value m * 1000000 + 1"
    by (simp_all only: mult_le_cancel_right mult_less_cancel_right) simp_all
  with n show ?thesis by (simp add: money_value_def)
qed


section \<open>Printing and parsing\<close>

lemma ascii_digit_simps: "ascii_digit c \<Longrightarrow> c \<noteq> CHR ''-'' \<and> c \<noteq> CHR ''.'' \<and> c \<noteq> CHR ''e'' \<and> c \<noteq> CHR ''E''"
  by (auto simp: ascii_digit_def less_eq_char_def)

lemma digit_nonneg: "0 \<le> digit c"
  by (simp add: digit_def)

lemma horner_ge: "0 \<le> acc \<Longrightarrow> acc \<le> horner acc s"
proof (induction s arbitrary: acc)
  case (Cons c s)
  have "acc \<le> acc * 10 + digit c" "0 \<le> acc * 10 + digit c" using Cons.prems digit_nonneg [of c] by linarith+
  with Cons.IH [of "acc * 10 + digit c"] show ?case by simp
qed simp

lemma fold_digits_Some:
  "0 \<le> acc \<Longrightarrow> in_i128 (horner acc s) \<Longrightarrow> fold_digits acc s = Some (horner acc s)"
proof (induction s arbitrary: acc)
  case (Cons c s)
  have d: "0 \<le> digit c" by (rule digit_nonneg)
  then have "acc * 10 + digit c \<le> horner (acc * 10 + digit c) s" using Cons.prems(1) by (intro horner_ge) simp
  then have "in_i128 (acc * 10 + digit c)" "in_i128 (acc * 10)" using Cons.prems d by (auto simp: in_i128_def)
  then show ?case using Cons d by (simp add: checked_def)
qed simp

lemma read_digits_horner: "read_digits a s = Some n \<Longrightarrow> horner (int a) s = int n \<and> list_all ascii_digit s"
proof (induction a s rule: read_digits.induct)
  case (2 acc c cs)
  then have c: "48 \<le> (of_char c :: nat)" "(of_char c :: nat) \<le> 57" and cs: "read_digits (10 * acc + (of_char c - 48)) cs = Some n"
    by (auto simp: Let_def split: if_splits)
  with 2 have "horner (int (10 * acc + (of_char c - 48))) cs = int n \<and> list_all ascii_digit cs" by (simp add: Let_def)
  moreover have "ascii_digit c" using c by (simp add: ascii_digit_def less_eq_char_def)
  ultimately show ?case by (simp add: digit_def mult.commute)
qed simp

lemma shown_nat_digits: "horner 0 (show_nat n) = int n" "list_all ascii_digit (show_nat n)" "show_nat n \<noteq> []"
  using read_digits_horner [OF read_digits_show_nat [of n]] by (auto simp: show_nat.simps [of n])

lemma scale_digits_Some:
  assumes "len \<le> 18" "in_i64 ((if negative then - 1 else 1) * horner 0 digits)"
  shows "\<exists>m. scale_digits c negative v digits len 0 = Inr m"
proof -
  obtain r scale where pop: "pop_zeros (rev digits) (int len) = (r, scale)" by fastforce
  obtain j where j: "rev digits = replicate j CHR ''0'' @ r" "scale = int len - int j" "0 < j \<longrightarrow> 0 \<le> scale"
    using pop_zeros_spec [OF pop] by blast
  then have s: "0 \<le> scale" "scale \<le> 18" using assms(1) by (cases j; simp)+
  have "rev (rev digits) = rev r @ replicate j CHR ''0''" by (simp only: j(1) rev_append rev_replicate)
  then have H: "horner 0 digits = horner 0 (rev r) * 10 ^ j" by (simp add: horner_zeros)
  have r: "0 \<le> horner 0 (rev r)" by (rule horner_ge) simp
  then have le: "horner 0 (rev r) \<le> horner 0 digits" using H mult_left_mono [of 1 "10 ^ j" "horner 0 (rev r)"] by simp
  have "fold_digits 0 (rev r) = Some (horner 0 (rev r))"
    using assms(2) r le by (intro fold_digits_Some) (auto simp: in_i128_def in_i64_def split: if_splits)
  moreover have "in_i64 (if negative then - horner 0 (rev r) else horner 0 (rev r))"
    using assms(2) r le by (auto simp: in_i64_def split: if_splits)
  ultimately show ?thesis using pop s assms(1)
    by (simp add: scale_digits_def Let_def max_money_scale_def in_i64_def [of "int len"] in_u32_def)
qed

lemma parse_plain:
  assumes w: "whole \<noteq> []" "list_all ascii_digit whole" "list_all ascii_digit fraction"
    and fits: "length fraction \<le> 18" "in_i64 ((if negative then - 1 else 1) * horner 0 (whole @ fraction))"
  shows "\<exists>r. parse_decimal c (decimal_text negative whole fraction None) = Inr r \<and> mo_currency r = c \<and>
    money_value r = decimal_number negative whole fraction 0"
proof -
  let ?mantissa = "whole @ (if fraction = [] then [] else CHR ''.'' # fraction)"
  let ?s = "decimal_text negative whole fraction None"
  have marks: "x \<notin> {CHR ''e'', CHR ''E''}" if "x \<in> set ?mantissa" for x
    using that w ascii_digit_simps by (auto simp: list_all_iff split: if_splits)
  have ex: "split_exponent ?mantissa = (?mantissa, None)"
  proof -
    have "dropWhile (\<lambda>c. c \<notin> {CHR ''e'', CHR ''E''}) ?mantissa = []" using marks by (simp only: dropWhile_eq_Nil_conv) blast
    then show ?thesis by (simp only: split_exponent_def list.case)
  qed
  have dot: "CHR ''.'' \<notin> set whole" using w ascii_digit_simps by (auto simp: list_all_iff)
  have parts: "split_once CHR ''.'' ?mantissa = (if fraction = [] then None else Some (whole, fraction))"
  proof (cases "fraction = []")
    case True
    have "dropWhile (\<lambda>c. c \<noteq> CHR ''.'') whole = []" using dot by auto
    with True show ?thesis by (simp only: split_once_def simp_thms if_True append_Nil2 list.case)
  next
    case False
    with split_once_first [OF dot, of fraction] show ?thesis by simp
  qed
  have "hd whole \<noteq> CHR ''-''" using w ascii_digit_simps by (cases whole) auto
  then have neg: "(?s \<noteq> [] \<and> hd ?s = CHR ''-'') = negative" "(if negative then tl ?s else ?s) = ?mantissa"
    using w(1) by (simp_all add: decimal_text_def)
  define digits where "digits = dropWhile (\<lambda>c. c = CHR ''0'') (whole @ fraction)"
  have H: "horner 0 digits = horner 0 (whole @ fraction)" unfolding digits_def by (rule horner_drop_zeros)
  have p: "parse_decimal c ?s =
    (if digits = [] then Inr (money_new c 0 0) else scale_digits c negative ?s digits (length fraction) 0)"
    using w by (simp add: parse_decimal_def neg ex parts parse_exponent_def Let_def digits_def del: dropWhile_eq_Nil_conv)
  show ?thesis
  proof (cases "digits = []")
    case True
    then have "horner 0 (whole @ fraction) = 0" using H by simp
    with p True show ?thesis by (simp add: decimal_number_def del: horner_simps)
  next
    case False
    obtain m where m: "scale_digits c negative ?s digits (length fraction) 0 = Inr m"
      using scale_digits_Some [OF fits(1), of negative digits] fits(2) H by auto
    from scale_digits_value [OF m] False p m show ?thesis by (simp add: decimal_number_def H del: horner_simps)
  qed
qed

lemma printed_text:
  assumes "mo_scale m \<le> 18"
  shows "\<exists>whole fraction. to_decimal_string m = decimal_text (mo_minor m < 0) whole fraction None \<and> whole \<noteq> [] \<and>
    list_all ascii_digit whole \<and> list_all ascii_digit fraction \<and> length fraction = mo_scale m \<and>
    horner 0 (whole @ fraction) = \<bar>mo_minor m\<bar>"
proof (cases "mo_scale m = 0")
  case True
  then show ?thesis using shown_nat_digits [of "nat \<bar>mo_minor m\<bar>"]
    by (intro exI [of _ "show_nat (nat \<bar>mo_minor m\<bar>)"] exI [of _ "[]"])
      (simp add: to_decimal_string_def decimal_text_def Let_def)
next
  case False
  define digits where "digits = pad_left (mo_scale m + 1) (show_nat (nat \<bar>mo_minor m\<bar>))"
  define n where "n = length digits - mo_scale m"
  have d: "list_all ascii_digit digits" "horner 0 digits = \<bar>mo_minor m\<bar>" "mo_scale m < length digits"
    using shown_nat_digits [of "nat \<bar>mo_minor m\<bar>"]
    by (auto simp: digits_def pad_left_def horner_zeros list_all_iff ascii_digit_def)
  have "list_all ascii_digit (take n digits @ drop n digits)" using d(1) by simp
  then have "list_all ascii_digit (take n digits)" "list_all ascii_digit (drop n digits)" by (simp_all only: list_all_append)
  moreover have "take n digits \<noteq> []" "length (drop n digits) = mo_scale m" "drop n digits \<noteq> []"
    using d(3) False by (auto simp: n_def)
  moreover have "horner 0 (take n digits @ drop n digits) = \<bar>mo_minor m\<bar>" using d(2) by (simp only: append_take_drop_id)
  moreover have "to_decimal_string m = decimal_text (mo_minor m < 0) (take n digits) (drop n digits) None"
    using False assms calculation(5)
    by (simp add: to_decimal_string_def decimal_text_def Let_def max_money_scale_def digits_def n_def)
  ultimately show ?thesis by blast
qed

lemma print_parse:
  assumes "money_wf m" "mo_scale m \<le> 18"
  shows "\<exists>r. parse_decimal c (to_decimal_string m) = Inr r \<and> mo_currency r = c \<and> money_value r = money_value m"
proof -
  obtain whole fraction where t: "to_decimal_string m = decimal_text (mo_minor m < 0) whole fraction None"
    and w: "whole \<noteq> []" "list_all ascii_digit whole" "list_all ascii_digit fraction" "length fraction = mo_scale m"
    and h: "horner 0 (whole @ fraction) = \<bar>mo_minor m\<bar>"
    using printed_text [OF assms(2)] by blast
  have sgn: "(if mo_minor m < 0 then - 1 else 1) * \<bar>mo_minor m\<bar> = mo_minor m" by simp
  obtain r where r: "parse_decimal c (to_decimal_string m) = Inr r" "mo_currency r = c"
      "money_value r = decimal_number (mo_minor m < 0) whole fraction 0"
    using parse_plain [OF w(1-3), of "mo_minor m < 0" c] assms w(4) h sgn t by (auto simp: money_wf_def simp del: horner_simps)
  have "decimal_number (mo_minor m < 0) whole fraction 0 = money_value m"
    by (simp only: decimal_number_def h w(4) diff_0 power_int_minus power_int_of_nat)
      (simp add: money_value_def inverse_eq_divide)
  with r show ?thesis by auto
qed

end
