(* ===== verification/Transaction_Props.thy ===== *)
theory Transaction_Props
  imports Transaction
begin

text \<open>
  The life of a payment transaction: no history of a record completes it without an authorization, a
  terminal state is final, and the summary shown in transcripts is always the record's own.
\<close>

lemma phase_terminal [simp]:
  "tx_phase s = PhCompleted \<longleftrightarrow> s = TxCompleted" "tx_phase s = PhCanceled \<longleftrightarrow> s = TxCanceled"
  "tx_phase s = PhFailed \<longleftrightarrow> s = TxFailed" "tx_phase s = PhAuthorized \<longleftrightarrow> s = TxAuthorized"
  by (cases s; simp)+

lemma phase_allows_Completed: "phase_allows a PhCompleted \<Longrightarrow> a = PhCompleted \<or> a = PhAuthorized"
  by (cases a) (simp_all add: phase_allows_def)

lemma phase_allows_terminal:
  "phase_allows a b \<Longrightarrow> a \<in> {PhCompleted, PhCanceled, PhFailed} \<Longrightarrow> b = a"
  by (auto simp: phase_allows_def)

lemma recompute_sel [simp]:
  "tr_state (recompute_safe_summary r) = tr_state r"
  "tr_safe_summary (recompute_safe_summary r) = summary_from_record r"
  "summary_from_record (recompute_safe_summary r) = summary_from_record r"
  by (simp_all add: recompute_safe_summary_def summary_from_record_def split: option.split)

lemma phase_allows_refl [simp]: "phase_allows a a"
  by (simp add: phase_allows_def)

lemma record_step_allows: "record_step r r' \<Longrightarrow> phase_allows (tx_phase (tr_state r)) (tx_phase (tr_state r'))"
  by (erule record_stepE)
    (auto simp: transition_to_def can_transition_to_def attach_extension_def attach_evidence_ref_def
      attach_evidence_digest_def split: if_splits)

lemma summary_evidence_ref:
  "summary_from_record (attach_evidence_ref e r) = summary_from_record r"
  "tr_safe_summary (attach_evidence_ref e r) = tr_safe_summary r"
  by (simp_all add: attach_evidence_ref_def summary_from_record_def split: option.split)

lemma record_step_summary:
  "record_step r r' \<Longrightarrow> tr_safe_summary r = summary_from_record r \<Longrightarrow> tr_safe_summary r' = summary_from_record r'"
  by (erule record_stepE)
    (auto simp: transition_to_def attach_extension_def attach_evidence_digest_def summary_evidence_ref split: if_splits)

lemma record_step_terminal: "record_step r r' \<Longrightarrow> tx_terminal (tr_state r) \<Longrightarrow> tr_state r' = tr_state r"
proof -
  assume s: "record_step r r'" and t: "tx_terminal (tr_state r)"
  have "tx_phase (tr_state r') = tx_phase (tr_state r)"
    using phase_allows_terminal [OF record_step_allows [OF s]] t by (auto simp: tx_terminal_def)
  then show ?thesis using t by (cases "tr_state r'") (auto simp: tx_terminal_def)
qed

lemma history_summary: "record_history rs \<Longrightarrow> r = hd rs \<Longrightarrow> tr_safe_summary r = summary_from_record r"
  by (induction rs arbitrary: r rule: record_history.induct)
    (auto simp: transaction_record_new_def record_step_summary)

lemma history_terminal:
  "record_history rs \<Longrightarrow> r0 \<in> set rs \<Longrightarrow> tx_terminal (tr_state r0) \<Longrightarrow> tr_state (hd rs) = tr_state r0"
proof (induction rs rule: record_history.induct)
  case (Step r rs r')
  show ?case
  proof (cases "r0 = r'")
    case False
    with Step have "tr_state r = tr_state r0" by auto
    with record_step_terminal [OF Step.hyps(2)] Step.prems(2) show ?thesis by simp
  qed simp
qed simp

lemma history_completed:
  "record_history rs \<Longrightarrow> tr_state (hd rs) = TxCompleted \<Longrightarrow> \<exists>r \<in> set rs. tr_state r = TxAuthorized"
proof (induction rs rule: record_history.induct)
  case New
  then show ?case by (simp add: transaction_record_new_def recompute_safe_summary_def)
next
  case (Step r rs r')
  then have "phase_allows (tx_phase (tr_state r)) PhCompleted" using record_step_allows by fastforce
  then have "tr_state r = TxCompleted \<or> tr_state r = TxAuthorized" using phase_allows_Completed by fastforce
  with Step.IH show ?case by auto
qed

lemma phase_allows_paid: "phase_allows PhAuthorized PhCompleted"
  by (simp add: phase_allows_def)

section \<open>Claims\<close>


text \<open>A checkout that is negotiated, given a payment method, authorized and completed.\<close>

definition demo_total :: money where
  "demo_total = money_new ''USD'' 1500 2"

definition demo_actor :: commerce_actor where
  "demo_actor =
     \<lparr>ca_actor_id = ''shopper-agent'', ca_role = RoleAgentSurface, ca_display_name = None, ca_tenant_id = None, ca_extensions = []\<rparr>"

definition demo_merchant :: merchant_ref where
  "demo_merchant =
     \<lparr>mr_merchant_id = ''merchant-1'', mr_legal_name = ''Merchant Example LLC'', mr_display_name = None,
      mr_statement_descriptor = None, mr_country_code = None, mr_website = None, mr_extensions = []\<rparr>"

definition demo_cart :: cart where
  "demo_cart =
     \<lparr>ct_cart_id = None, ct_lines = [], ct_subtotal = None, ct_adjustments = [], ct_total = demo_total, ct_affiliate = None,
      ct_extensions = []\<rparr>"

definition demo_record :: transaction_record where
  "demo_record = transaction_record_new ''tx-1'' demo_actor demo_merchant HumanPresent demo_cart 0"

definition moved :: "transaction_state \<Rightarrow> instant \<Rightarrow> transaction_record \<Rightarrow> transaction_record" where
  "moved s t r = (case transition_to r s t of Inr r' \<Rightarrow> r' | Inl _ \<Rightarrow> r)"

lemma moved_step:
  "can_transition_to (tr_state r) s \<Longrightarrow> transition_to r s t = Inr (moved s t r)"
  "can_transition_to (tr_state r) s \<Longrightarrow> tr_state (moved s t r) = s"
  by (simp_all add: moved_def transition_to_def)

definition demo_history :: "transaction_record list" where
  "demo_history =
     (let r1 = moved TxNegotiating 1 demo_record; r2 = moved TxAwaitingPaymentMethod 2 r1;
          r3 = moved TxAuthorized 3 r2
      in [r3, r2, r1, demo_record])"

definition demo_completed :: transaction_record where
  "demo_completed = moved TxCompleted 4 (hd demo_history)"

lemma demo_draft: "tr_state demo_record = TxDraft"
  by (simp add: demo_record_def transaction_record_new_def)

lemma demo_states:
  "tr_state (moved TxNegotiating 1 demo_record) = TxNegotiating"
  "tr_state (moved TxAwaitingPaymentMethod 2 (moved TxNegotiating 1 demo_record)) = TxAwaitingPaymentMethod"
  "tr_state (hd demo_history) = TxAuthorized" "tr_state demo_completed = TxCompleted"
  by (simp_all add: demo_draft moved_step demo_history_def Let_def demo_completed_def can_transition_to_def phase_allows_def)

lemma demo_history_ok: "record_history (demo_completed # demo_history)"
proof -
  have step: "record_step r (moved s t r)" if "can_transition_to (tr_state r) s" for r s t
    using moved_step(1) [OF that] by (rule record_step.Transition)
  have "record_history [demo_record]" unfolding demo_record_def by (rule record_history.New)
  then have "record_history demo_history"
    unfolding demo_history_def Let_def
    by (intro record_history.Step step) (simp_all add: demo_draft demo_states moved_step can_transition_to_def phase_allows_def)
  moreover have "demo_history = hd demo_history # tl demo_history" by (simp add: demo_history_def Let_def)
  ultimately show ?thesis unfolding demo_completed_def
    by (metis record_history.Step step demo_states(3) can_transition_to_def phase_terminal(1) phase_terminal(4) phase_allows_paid)
qed


end
