(* ===== verification/Payment_Props.thy ===== *)
theory Payment_Props
  imports Payment_Governor Money_Props Transaction_Props
begin

text \<open>
  What the governor guarantees: a payment outside the configured limits never reaches the backend, an
  escalated one only after an approval, and the decision is on record before the call.
\<close>

section \<open>Policy sets\<close>

definition denies :: "'w guardrail \<Rightarrow> transaction_record \<Rightarrow> protocol_descriptor \<Rightarrow> bool" where
  "denies g r p \<longleftrightarrow> (\<forall>cx w. \<exists>fs cx' w'. gd_evaluate g r p cx w = (PayDeny fs, cx', w') \<and> fs \<noteq> [])"

lemma denied_grows:
  "evaluate_each gs r p d e cx w = (d', e', cx', w') \<Longrightarrow> d \<noteq> [] \<Longrightarrow> d' \<noteq> []"
  by (induction gs r p d e cx w rule: evaluate_each.induct) (auto split: prod.splits pay_decision.splits)

lemma evaluate_denies:
  "evaluate_each gs r p d e cx w = (d', e', cx', w') \<Longrightarrow> g \<in> set gs \<Longrightarrow> denies g r p \<Longrightarrow> d' \<noteq> []"
proof (induction gs r p d e cx w rule: evaluate_each.induct)
  case (2 a gs r p d e cx w)
  show ?case
  proof (cases "g = a")
    case True
    then obtain fs cx1 w1 where "gd_evaluate a r p cx w = (PayDeny fs, cx1, w1)" "fs \<noteq> []"
      using 2(6) unfolding denies_def by blast
    with 2(4) show ?thesis by (auto dest: denied_grows)
  next
    case False
    with 2 show ?thesis by (auto split: prod.splits pay_decision.splits)
  qed
qed simp

lemma sort_findings_Nil [simp]: "sort_findings fs = [] \<longleftrightarrow> fs = []"
  by (simp add: sort_findings_def)

lemma set_denies:
  assumes "g \<in> set gs" "denies g r p"
  shows "\<exists>fs cx' w'. policy_set_evaluate gs r p cx w = (PayDeny fs, cx', w')"
proof -
  obtain d e cx' w' where ev: "evaluate_each gs r p [] [] cx w = (d, e, cx', w')" by (metis prod_cases4)
  with evaluate_denies [OF ev assms] show ?thesis
    by (simp add: policy_set_evaluate_def Let_def split: prod.split)
qed

section \<open>What a refusal does not depend on\<close>

text \<open>The context and the world in which the backend is called, if it is.\<close>

definition cleared ::
    "pay_lib \<Rightarrow> 'w governor \<Rightarrow> instant \<Rightarrow> payment_operation \<Rightarrow> transaction_record \<Rightarrow> protocol_descriptor \<Rightarrow> 'w payment_caller
     \<Rightarrow> 'w \<Rightarrow> ('w policy_context \<times> 'w) option" where
  "cleared lib gv now op r p c w =
     (case payment_decision lib gv now op r p c w of
        (Inl e, cx, w) \<Rightarrow> None
      | (Inr escalated, cx, w) \<Rightarrow>
          (case audit_allowed lib gv now op r p c escalated w of
             (Inl e, w) \<Rightarrow> None
           | (Inr (), w) \<Rightarrow> Some (cx, w)))"

lemma not_cleared:
  assumes "cleared lib gv now op r p c w = None"
  shows "\<exists>e w'. \<forall>run settle. govern lib gv now op r p c run settle w = (Inl e, w')"
proof -
  obtain res cx w1 where d: "payment_decision lib gv now op r p c w = (res, cx, w1)" by (metis prod_cases3)
  show ?thesis
  proof (cases res)
    case (Inl e)
    with d show ?thesis by (simp add: govern_def)
  next
    case (Inr esc)
    obtain ar w2 where a: "audit_allowed lib gv now op r p c esc w1 = (ar, w2)" by fastforce
    with assms d Inr obtain e where "ar = Inl e" by (cases ar) (auto simp: cleared_def split: unit.splits)
    with d Inr a show ?thesis by (simp add: govern_def)
  qed
qed

text \<open>What happens once the backend is called.\<close>

lemma govern_cleared:
  assumes "cleared lib gv now op r p c w = Some (cx, w2)"
  shows "govern lib gv now op r p c run settle w =
    (let (res, w3) = run w2;
         w4 = record_outcome lib op r p c (case res of Inr _ \<Rightarrow> True | Inl _ \<Rightarrow> False) w3 in
     case res of
       Inr a \<Rightarrow>
         (case settle a of
            SettleCommit actual \<Rightarrow> (Inr a, snd (commit_holds actual cx w4))
          | SettleRelease \<Rightarrow> (Inr a, snd (release_holds cx w4)))
     | Inl e \<Rightarrow> (Inl e, snd (release_holds cx w4)))"
proof -
  obtain res cx' w1 where d: "payment_decision lib gv now op r p c w = (res, cx', w1)" by (metis prod_cases3)
  with assms obtain esc where r: "res = Inr esc" by (cases res) (auto simp: cleared_def)
  obtain ar w2' where a: "audit_allowed lib gv now op r p c esc w1 = (ar, w2')" by fastforce
  with assms d r have "ar = Inr ()" "cx' = cx" "w2' = w2" by (auto simp: cleared_def split: sum.splits unit.splits)
  with d r a show ?thesis by (simp add: govern_def split: unit.split)
qed

lemma denied_payment:
  assumes "g \<in> set (gv_policies gv)" "denies g r p"
  shows "\<exists>e w'. code e = ''payments.policy.denied'' \<and> (\<forall>run settle. govern lib gv now op r p c run settle w = (Inl e, w'))"
proof -
  obtain fs cx w1 where "policy_set_evaluate (gv_policies gv) r p (govern_context gv op c) w = (PayDeny fs, cx, w1)"
    using set_denies [OF assms] by blast
  moreover have "code (policy_error esc cd m fs) = cd" for esc cd m
    by (simp add: policy_error_def with_details_def adk_error_new_def)
  ultimately show ?thesis by (simp add: govern_def payment_decision_def Let_def)
qed

definition completion_lookup :: "complete_checkout_command \<Rightarrow> transaction_lookup" where
  "completion_lookup cmd =
     \<lparr>lk_transaction_id = cc_transaction_id (co_context cmd), lk_session_identity = cc_session_identity (co_context cmd)\<rparr>"

lemma denied_completion:
  assumes "g \<in> set (gv_policies gv)" "denies g r (cc_protocol (co_context cmd))"
    and "cs_get inner (completion_lookup cmd) w = (Inr (Some r), w1)"
  shows "\<exists>e w'. code e = ''payments.policy.denied'' \<and>
    (\<forall>pay. complete_checkout_as lib gv (inner\<lparr>cs_complete := pay\<rparr>) now cmd c w = (Inl e, w'))"
  using denied_payment [OF assms(1,2), of lib now CompleteCheckout c w1] assms(3)
  by (auto simp: complete_checkout_as_def Let_def completion_lookup_def)

section \<open>The guardrails of the crate\<close>

lemma pure_denies:
  "denies (pure_guardrail name f) r p \<longleftrightarrow> (\<exists>fs. f r p = PayDeny fs \<and> fs \<noteq> [])"
  by (auto simp: denies_def pure_guardrail_def)

definition threshold_scale :: "amount_threshold \<Rightarrow> money \<Rightarrow> nat" where
  "threshold_scale t m =
     (case th_currency t of
        Some (c, s) \<Rightarrow> s
      | None \<Rightarrow> (case iso_minor_unit_scale (mo_currency m) of Some s \<Rightarrow> s | None \<Rightarrow> mo_scale m))"

definition over_limit :: "amount_threshold \<Rightarrow> int \<Rightarrow> money \<Rightarrow> bool" where
  "over_limit t limit m \<longleftrightarrow> of_int limit / 10 ^ threshold_scale t m < money_value m"

definition other_currency :: "amount_threshold \<Rightarrow> money \<Rightarrow> bool" where
  "other_currency t m \<longleftrightarrow> (case th_currency t of Some (c, s) \<Rightarrow> \<not> same_currency c (mo_currency m) | None \<Rightarrow> False)"

lemma exceeds_over:
  assumes "of_int limit / 10 ^ s < money_value m"
  shows "exceeds m c s limit label \<noteq> Inr None"
proof (cases "compare_amount m (money_new c limit s)")
  case (Some ord)
  then have "ord = Greater" using compare_exact [OF Some] assms by (auto simp: compare_value_def)
  with Some show ?thesis by (simp add: exceeds_def Let_def)
qed (simp add: exceeds_def Let_def)

lemma amount_denied:
  assumes "th_hard t = Some limit" "over_limit t limit (ct_total (tr_cart r)) \<or> other_currency t (ct_total (tr_cart r))"
  shows "denies (amount_guardrail t) r p"
proof -
  have over: "exceeds (ct_total (tr_cart r)) c s limit label \<noteq> Inr None"
    if "over_limit t limit (ct_total (tr_cart r))" "s = threshold_scale t (ct_total (tr_cart r))" for c s label
    using exceeds_over that by (simp add: over_limit_def)
  show ?thesis
  proof (cases "th_currency t")
    case None
    define sc where "sc = (case iso_minor_unit_scale (mo_currency (ct_total (tr_cart r))) of
      Some s \<Rightarrow> s | None \<Rightarrow> mo_scale (ct_total (tr_cart r)))"
    have "exceeds (ct_total (tr_cart r)) (mo_currency (ct_total (tr_cart r))) sc limit ''hard limit'' \<noteq> Inr None"
      using None assms(2) over by (auto simp: other_currency_def threshold_scale_def sc_def)
    with None assms(1) show ?thesis
      by (auto simp: amount_guardrail_def pure_denies amount_decision_def Let_def
          simp flip: sc_def split: option.split sum.split)
  next
    case (Some cs)
    obtain c s where cs: "cs = (c, s)" by fastforce
    show ?thesis
    proof (cases "same_currency c (mo_currency (ct_total (tr_cart r)))")
      case True
      then have "exceeds (ct_total (tr_cart r)) c s limit ''hard limit'' \<noteq> Inr None"
        using Some cs assms(2) over [of s c] by (auto simp: other_currency_def threshold_scale_def)
      with Some cs True assms(1) show ?thesis
        by (auto simp: amount_guardrail_def pure_denies amount_decision_def Let_def split: option.split sum.split)
    next
      case False
      with Some cs show ?thesis by (simp add: amount_guardrail_def pure_denies amount_decision_def Let_def)
    qed
  qed
qed

lemma unlisted_denied:
  "mr_merchant_id (tr_merchant r) \<notin> set ms \<Longrightarrow> denies (merchant_guardrail ms) r p"
  "mo_currency (ct_total (tr_cart r)) \<notin> set cs \<Longrightarrow> denies (currency_guardrail cs) r p"
  "\<not> protocol_allows ps p \<Longrightarrow> denies (protocol_guardrail ps) r p"
  by (simp_all add: merchant_guardrail_def currency_guardrail_def protocol_guardrail_def pure_denies merchant_decision_def
      currency_decision_def protocol_decision_def)


section \<open>Approvals and records\<close>

text \<open>The decision a cleared payment rests on, and the record of it in the caller's trail.\<close>

definition decided :: "'w governor \<Rightarrow> payment_operation \<Rightarrow> transaction_record \<Rightarrow> protocol_descriptor \<Rightarrow> 'w payment_caller
     \<Rightarrow> 'w \<Rightarrow> audit_decision \<Rightarrow> bool" where
  "decided gv op r p c w d \<longleftrightarrow>
     (case policy_set_evaluate (gv_policies gv) r p (govern_context gv op c) w of
        (PayAllow, cx, w1) \<Rightarrow> d = Allowed
      | (PayEscalate fs, cx, w1) \<Rightarrow>
          d = Approved \<and> (\<exists>ask w2. pc_approver c = Some ask \<and> ask r fs w1 = (Inr PaApproved, w2))
      | (PayDeny fs, cx, w1) \<Rightarrow> False)"

definition on_record :: "'w trail_handle \<Rightarrow> payment_operation \<Rightarrow> transaction_record \<Rightarrow> audit_decision \<Rightarrow> 'w \<Rightarrow> bool" where
  "on_record h op r d w \<longleftrightarrow>
     (\<exists>dr \<in> set (th_get h w). dr_kind dr = AkPayment \<and> dr_action dr = operation_action op \<and> dr_decision dr = Some d \<and>
        lookup (dr_ext dr) ''transactionId'' = Some (JString (tr_transaction_id r)) \<and>
        lookup (dr_ext dr) ''amountMinor'' = Some (JNumber (show_int (mo_minor (ct_total (tr_cart r))))))"

lemma draft_ext_sel [simp]:
  "dr_kind (draft_ext k v d) = dr_kind d" "dr_action (draft_ext k v d) = dr_action d"
  "lookup (dr_ext (draft_ext k v d)) = (lookup (dr_ext d))(k \<mapsto> v)"
  by (simp_all add: draft_ext_def)

lemma payment_draft_ext:
  "dr_kind (payment_draft cj h actor op r p fs) = AkPayment"
  "dr_action (payment_draft cj h actor op r p fs) = operation_action op"
  "lookup (dr_ext (payment_draft cj h actor op r p fs)) ''transactionId'' = Some (JString (tr_transaction_id r))"
  "lookup (dr_ext (payment_draft cj h actor op r p fs)) ''amountMinor'' =
     Some (JNumber (show_int (mo_minor (ct_total (tr_cart r)))))"
  by (simp_all add: payment_draft_def Let_def audit_draft_new_def split: option.split)

definition trail_lens :: "'w trail_handle \<Rightarrow> bool" where
  "trail_lens h \<longleftrightarrow> (\<forall>ds w. th_get h (th_put h ds w) = ds)"

lemma handle_record_Block:
  assumes "handle_record h d w = (Inr (), w')" "at_failure_mode (th_trail h) = Block" "trail_lens h"
  shows "d \<in> set (th_get h w')"
  using assms by (auto simp: handle_record_def trail_record_def trail_lens_def split: option.splits)

lemma caller_record_on_record:
  assumes "caller_record lib op r p c d fs w = (Inr (), w')" "pc_audit c = Some (h, actor)" "d \<in> {Allowed, Approved}"
    and "at_failure_mode (th_trail h) = Block" "trail_lens h"
  shows "on_record h op r d w'"
proof -
  let ?d = "(payment_draft (pl_cart_json lib) h actor op r p fs)\<lparr>dr_decision := Some d\<rparr>"
  have "handle_record h ?d w = (Inr (), w')" using assms(1-3) by (auto simp: caller_record_def Let_def)
  then have "?d \<in> set (th_get h w')" using assms(4,5) by (rule handle_record_Block)
  then show ?thesis unfolding on_record_def by (intro bexI [of _ ?d]) (simp_all add: payment_draft_ext)
qed

lemma decision_cleared:
  assumes "payment_decision lib gv now op r p c w = (Inr esc, cx, w1)"
  shows "\<exists>d fs w0. decided gv op r p c w d \<and> d \<in> {Allowed, Approved} \<and> caller_record lib op r p c d fs w0 = (Inr (), w1)"
proof -
  obtain dec cx0 w0 where ev: "policy_set_evaluate (gv_policies gv) r p (govern_context gv op c) w = (dec, cx0, w0)"
    by (metis prod_cases3)
  show ?thesis
  proof (cases dec)
    case PayAllow
    then have "caller_record lib op r p c Allowed [] w0 = (Inr (), w1)"
      using assms ev by (auto simp: payment_decision_def split: prod.splits sum.splits unit.splits)
    with PayAllow ev show ?thesis by (auto simp: decided_def)
  next
    case (PayEscalate fs)
    obtain approval w2 where ask:
      "(case pc_approver c of Some ask \<Rightarrow> ask r fs w0 | None \<Rightarrow> (Inr PaPending, w0)) = (approval, w2)" by fastforce
    have ok: "escalation_refusal lib approval fs = None" "caller_record lib op r p c Approved fs w2 = (Inr (), w1)"
      using assms ev PayEscalate ask
      by (auto simp: payment_decision_def Let_def split: prod.splits sum.splits unit.splits option.splits)
    then have "approval = Inr PaApproved"
      by (auto simp: escalation_refusal_def split: sum.splits payment_approval.splits)
    with ask have "decided gv op r p c w Approved" using ev PayEscalate by (auto simp: decided_def split: option.splits)
    with ok show ?thesis by blast
  next
    case PayDeny
    with assms ev show ?thesis by (simp add: payment_decision_def Let_def)
  qed
qed

lemma cleared_decided:
  assumes "cleared lib gv now op r p c w = Some (cx, w2)"
  shows "\<exists>d. decided gv op r p c w d \<and>
    (\<forall>h actor. pc_audit c = Some (h, actor) \<longrightarrow> at_failure_mode (th_trail h) = Block \<longrightarrow> trail_lens h \<longrightarrow>
       (\<forall>sink ev w'. gv_auditor gv = Some sink \<longrightarrow> th_get h (snd (sink ev w')) = th_get h w') \<longrightarrow> on_record h op r d w2) \<and>
    (\<forall>sink. gv_auditor gv = Some sink \<longrightarrow>
       (\<exists>esc w1. sink (payment_audit_event now (audit_request r c) r p (audit_operation op) AccAllowed esc) w1 = (Inr (), w2)))"
proof -
  obtain esc w1 where pd: "payment_decision lib gv now op r p c w = (Inr esc, cx, w1)"
    and aa: "audit_allowed lib gv now op r p c esc w1 = (Inr (), w2)"
    using assms by (auto simp: cleared_def split: prod.splits sum.splits unit.splits)
  obtain d fs w0 where d: "decided gv op r p c w d" "d \<in> {Allowed, Approved}" "caller_record lib op r p c d fs w0 = (Inr (), w1)"
    using decision_cleared [OF pd] by blast
  have sink: "sink (payment_audit_event now (audit_request r c) r p (audit_operation op) AccAllowed esc) w1 = (Inr (), w2)"
    if "gv_auditor gv = Some sink" for sink
  proof -
    obtain res w' where "sink (payment_audit_event now (audit_request r c) r p (audit_operation op) AccAllowed esc) w1 = (res, w')"
      by fastforce
    with aa that show ?thesis by (cases res) (auto simp: audit_allowed_def record_operation_def)
  qed
  have "on_record h op r d w2" if h: "pc_audit c = Some (h, actor)" "at_failure_mode (th_trail h) = Block" "trail_lens h"
      and frame: "\<forall>sink ev w'. gv_auditor gv = Some sink \<longrightarrow> th_get h (snd (sink ev w')) = th_get h w'" for h actor
  proof -
    have "on_record h op r d w1" using caller_record_on_record [OF d(3) h(1) d(2) h(2,3)] .
    moreover have "th_get h w2 = th_get h w1"
    proof (cases "gv_auditor gv")
      case None
      with aa show ?thesis by (simp add: audit_allowed_def)
    next
      case (Some sink)
      with sink [OF Some] frame show ?thesis by (metis snd_conv)
    qed
    ultimately show ?thesis by (simp add: on_record_def)
  qed
  with d(1) sink show ?thesis by blast
qed

end
