(* ===== verification/Payment_Spend.thy ===== *)
theory Payment_Spend
  imports Payment_Props
begin

text \<open>
  Budget and payments: what a spend ledger promises is a locale, and under it no governed operation
  leaves a reservation behind, whether it is denied, refused, fails or succeeds. The in-memory ledger
  interprets the locale; for it the amounts are exact.
\<close>

section \<open>The contract of a spend ledger\<close>

text \<open>\<open>held w\<close> are the identifiers of the outstanding reservations of the ledger in the world \<open>w\<close>.\<close>

locale spend_contract =
  fixes api :: "'w spend_api" and held :: "'w \<Rightarrow> string set"
  assumes reserved: "sa_reserve api k a w = (Inr i, w') \<Longrightarrow> i \<notin> held w \<and> held w' = insert i (held w)"
    and refused: "sa_reserve api k a w = (Inl e, w') \<Longrightarrow> held w' = held w"
    and committed: "held (snd (sa_commit api i a w)) = held w - {i}"
    and released: "held (snd (sa_release api i w)) = held w - {i}"

definition hold_ids :: "'w policy_context \<Rightarrow> string list" where
  "hold_ids cx = map sh_reservation (cx_holds cx)"

text \<open>The holds of a context account for all that was reserved since the outstanding reservations were \<open>H\<close>.\<close>

definition accounted :: "'w spend_api \<Rightarrow> ('w \<Rightarrow> string set) \<Rightarrow> string set \<Rightarrow> 'w policy_context \<Rightarrow> 'w \<Rightarrow> bool" where
  "accounted api held H cx w \<longleftrightarrow>
     cx_ledger cx \<in> {None, Some api} \<and> (\<forall>h \<in> set (cx_holds cx). sh_ledger h = api) \<and>
     H \<inter> set (hold_ids cx) = {} \<and> held w = H \<union> set (hold_ids cx)"

text \<open>A guardrail that takes budget only through the context's holds.\<close>

definition accounts :: "'w spend_api \<Rightarrow> ('w \<Rightarrow> string set) \<Rightarrow> 'w guardrail \<Rightarrow> bool" where
  "accounts api held g \<longleftrightarrow>
     (\<forall>H r p cx w d cx' w'. accounted api held H cx w \<longrightarrow> gd_evaluate g r p cx w = (d, cx', w') \<longrightarrow>
        accounted api held H cx' w')"

definition leaves :: "('w \<Rightarrow> 'b) \<Rightarrow> ('w \<Rightarrow> 'a \<times> 'w) \<Rightarrow> bool" where
  "leaves held f \<longleftrightarrow> (\<forall>w. held (snd (f w)) = held w)"

text \<open>Everything else the governor calls keeps off the ledger: the approver, the auditor, the audit trail.\<close>

definition keeps_off :: "('w \<Rightarrow> 'b) \<Rightarrow> 'w governor \<Rightarrow> 'w payment_caller \<Rightarrow> bool" where
  "keeps_off held gv c \<longleftrightarrow>
     (\<forall>ask r fs. pc_approver c = Some ask \<longrightarrow> leaves held (ask r fs)) \<and>
     (\<forall>sink ev. gv_auditor gv = Some sink \<longrightarrow> leaves held (sink ev)) \<and>
     (\<forall>h actor ds w. pc_audit c = Some (h, actor) \<longrightarrow> held (th_put h ds w) = held w)"

lemma leaves_result: "leaves held f \<Longrightarrow> f w = (res, w') \<Longrightarrow> held w' = held w"
  unfolding leaves_def by (metis snd_conv)

lemma caller_record_leaves:
  "keeps_off held gv c \<Longrightarrow> held (snd (caller_record lib op r p c d fs w)) = held w"
  by (cases "pc_audit c") (auto simp: caller_record_def handle_record_def keeps_off_def Let_def split: prod.splits)

lemma record_operation_leaves:
  "keeps_off held gv c \<Longrightarrow> gv_auditor gv = Some sink \<Longrightarrow>
   held (snd (record_operation sink now rq r p ao out esc w)) = held w"
  by (auto simp: record_operation_def keeps_off_def dest: leaves_result split: prod.split)

lemma audit_refusal_leaves: "keeps_off held gv c \<Longrightarrow> held (audit_refusal gv now op r p c w) = held w"
  by (cases "gv_auditor gv") (simp_all add: audit_refusal_def record_operation_leaves)

lemma audit_allowed_leaves:
  assumes "keeps_off held gv c"
  shows "held (snd (audit_allowed lib gv now op r p c esc w)) = held w"
proof (cases "gv_auditor gv")
  case (Some sink)
  with record_operation_leaves [OF assms Some, of now "audit_request r c" r p "audit_operation op" AccAllowed esc w]
  show ?thesis by (auto simp: audit_allowed_def split: prod.split)
qed (simp add: audit_allowed_def)

lemma record_outcome_leaves: "keeps_off held gv c \<Longrightarrow> held (record_outcome lib op r p c ok w) = held w"
  by (cases "pc_audit c") (auto simp: record_outcome_def recorder_record_def keeps_off_def split: option.splits)

lemma approval_leaves:
  assumes "keeps_off held gv c"
    and "(case pc_approver c of Some ask \<Rightarrow> ask r fs w | None \<Rightarrow> (Inr PaPending, w)) = (approval, w')"
  shows "held w' = held w"
  using assms by (cases "pc_approver c") (auto simp: keeps_off_def dest: leaves_result)

lemma pure_accounts: "accounts api held (pure_guardrail name f)"
  by (simp add: accounts_def pure_guardrail_def)

section \<open>What the spend limit reserves\<close>

definition payer :: "'w policy_context \<Rightarrow> transaction_record \<Rightarrow> string option" where
  "payer cx r = (case cx_org cx of Some og \<Rightarrow> Some og | None \<Rightarrow> map_option id_app_name (tr_session_identity r))"

definition payment_key :: "string \<Rightarrow> 'w policy_context \<Rightarrow> transaction_record \<Rightarrow> spend_key" where
  "payment_key og cx r =
     with_vendor (with_agent (spend_org og) (case cx_agent cx of Some a \<Rightarrow> a | None \<Rightarrow> ca_actor_id (tr_initiated_by r)))
       (mr_merchant_id (tr_merchant r))"

definition reservable :: "'w policy_context \<Rightarrow> transaction_record \<Rightarrow> 'w spend_api \<Rightarrow> int \<Rightarrow> string \<Rightarrow> bool" where
  "reservable cx r ledger micro og \<longleftrightarrow>
     moves_money (cx_operation cx) \<and> cx_ledger cx = Some ledger \<and> usd_micro_amount (ct_total (tr_cart r)) = Inr micro \<and>
     payer cx r = Some og \<and> mr_merchant_id (tr_merchant r) \<noteq> []"

lemma spend_evaluate_asks:
  assumes "reservable cx r ledger micro og"
  shows "\<exists>refusal. (\<forall>e. \<exists>s t. refusal e = spend_deny s t) \<and> spend_evaluate required r p cx w =
    (case sa_reserve ledger (payment_key og cx r) (word_of_int micro) w of
       (Inr i, w') \<Rightarrow>
         (PayAllow, context_hold \<lparr>sh_ledger = ledger, sh_reservation = i, sh_amount = word_of_int micro\<rparr> cx, w')
     | (Inl e, w') \<Rightarrow> (refusal e, cx, w'))"
  using assms
  by (intro exI [of _ "\<lambda>e. if code e = ''spend.limit_exceeded'' then spend_deny (message e) SevHigh
        else spend_deny (''spend ledger unreachable, payment refused: '' @ message e) SevCritical"])
    (auto simp: reservable_def spend_evaluate_def payer_def payment_key_def Let_def cong: prod.case_cong sum.case_cong
      split: prod.split sum.split)

lemma spend_evaluate_silent:
  assumes "\<nexists>ledger micro og. reservable cx r ledger micro og"
  shows "\<exists>d. spend_evaluate required r p cx w = (d, cx, w)"
proof (cases "moves_money (cx_operation cx)")
  case money: True
  show ?thesis
  proof (cases "cx_ledger cx")
    case ledger: (Some l)
    show ?thesis
    proof (cases "usd_micro_amount (ct_total (tr_cart r))")
      case micro: (Inr m)
      show ?thesis
      proof (cases "payer cx r")
        case None
        then show ?thesis using money ledger micro by (simp add: spend_evaluate_def payer_def)
      next
        case (Some og)
        with assms money ledger micro have "mr_merchant_id (tr_merchant r) = []" by (auto simp: reservable_def)
        with Some show ?thesis using money ledger micro by (simp add: spend_evaluate_def payer_def Let_def)
      qed
    qed (use money ledger in \<open>simp add: spend_evaluate_def\<close>)
  qed (use money in \<open>simp add: spend_evaluate_def\<close>)
qed (simp add: spend_evaluate_def)

lemma spend_evaluate_cases:
  assumes "spend_evaluate required r p cx w = (d, cx', w')"
  shows "cx' = cx \<and> w' = w \<or> (\<exists>ledger k amount. cx_ledger cx = Some ledger \<and>
      (case sa_reserve ledger k amount w of
         (Inr i, w1) \<Rightarrow> cx' = context_hold \<lparr>sh_ledger = ledger, sh_reservation = i, sh_amount = amount\<rparr> cx \<and> w' = w1
       | (Inl e, w1) \<Rightarrow> cx' = cx \<and> w' = w1))"
proof (cases "\<exists>ledger micro og. reservable cx r ledger micro og")
  case True
  then obtain ledger micro og where l: "reservable cx r ledger micro og" by blast
  obtain ans w1 where ask: "sa_reserve ledger (payment_key og cx r) (word_of_int micro) w = (ans, w1)" by fastforce
  have "cx_ledger cx = Some ledger" using l by (simp add: reservable_def)
  then show ?thesis using spend_evaluate_asks [OF l, of required p w] ask assms
    by (intro disjI2 exI [of _ ledger] exI [of _ "payment_key og cx r"] exI [of _ "word_of_int micro"])
      (auto split: sum.split)
next
  case False
  then show ?thesis using spend_evaluate_silent [OF False, of required p w] assms by auto
qed

section \<open>The frame of a governed operation\<close>

text \<open>\<open>view\<close> is what only the ledger changes, \<open>V\<close> its value before and after a settled operation, and
\<open>P\<close> holds while reservations are out.\<close>

lemma decision_frame:
  assumes "payment_decision lib gv now op r p c w = (res, cx, w')" "keeps_off view gv c"
    and stable: "\<And>cx v v'. view v' = view v \<Longrightarrow> P cx v \<Longrightarrow> P cx v'"
    and release: "\<And>cx v. P cx v \<Longrightarrow> view (snd (release_holds cx v)) = V"
    and eval: "\<And>dec cx0 w0. policy_set_evaluate (gv_policies gv) r p (govern_context gv op c) w = (dec, cx0, w0) \<Longrightarrow>
      (case dec of PayDeny fs \<Rightarrow> view w0 = V | _ \<Rightarrow> P cx0 w0)"
  shows "case res of Inl e \<Rightarrow> view w' = V | Inr esc \<Rightarrow> P cx w'"
proof -
  note keep = caller_record_leaves [OF assms(2), of lib op r p] audit_refusal_leaves [OF assms(2), of now op r p]
  obtain dec cx0 w0 where ev: "policy_set_evaluate (gv_policies gv) r p (govern_context gv op c) w = (dec, cx0, w0)"
    by (metis prod_cases3)
  note acc = eval [OF ev]
  have recording: "case res of Inl e \<Rightarrow> view w' = V | Inr esc \<Rightarrow> P cx w'"
    if run: "(case caller_record lib op r p c d fs v of
             (Inl e, v) \<Rightarrow> (let (cx, v) = release_holds cx0 v in (Inl e, cx, v))
           | (Inr (), v) \<Rightarrow> (Inr esc, cx0, v)) = (res, cx, w')" and v: "view v = view w0" and P: "P cx0 w0" for d fs v esc
  proof -
    obtain ans v1 where cr: "caller_record lib op r p c d fs v = (ans, v1)" by fastforce
    with keep(1) [of d fs v] v have "view v1 = view w0" by simp
    then have "P cx0 v1" using P by (rule stable)
    with release [OF this] run cr show ?thesis by (auto split: sum.splits prod.splits unit.splits)
  qed
  show ?thesis
  proof (cases dec)
    case PayAllow
    with assms(1) ev acc show ?thesis
      by (intro recording [where d = Allowed and fs = "[]" and v = w0 and esc = False]) (simp_all add: payment_decision_def)
  next
    case (PayDeny fs)
    with assms(1) ev acc keep show ?thesis by (auto simp: payment_decision_def Let_def)
  next
    case (PayEscalate fs)
    obtain approval w2 where ask:
      "(case pc_approver c of Some ask \<Rightarrow> ask r fs w0 | None \<Rightarrow> (Inr PaPending, w0)) = (approval, w2)" by fastforce
    have w2: "view w2 = view w0" by (rule approval_leaves [OF assms(2) ask])
    show ?thesis
    proof (cases "escalation_refusal lib approval fs")
      case None
      with assms(1) ev PayEscalate ask w2 acc show ?thesis
        by (intro recording [where d = Approved and fs = fs and v = w2 and esc = True])
          (simp_all add: payment_decision_def Let_def)
    next
      case (Some refusal)
      obtain refused_as e where "refusal = (refused_as, e)" by fastforce
      moreover obtain cx1 w3 where rel: "release_holds cx0 w2 = (cx1, w3)" by fastforce
      moreover have "P cx0 w2" using w2 acc PayEscalate by (auto intro: stable)
      then have "view w3 = V" using release rel by fastforce
      ultimately show ?thesis using assms(1) ev PayEscalate ask Some keep
        by (auto simp: payment_decision_def Let_def)
    qed
  qed
qed

lemma govern_frame:
  assumes "keeps_off view gv c" "leaves view run"
    and stable: "\<And>cx v v'. view v' = view v \<Longrightarrow> P cx v \<Longrightarrow> P cx v'"
    and release: "\<And>cx v. P cx v \<Longrightarrow> view (snd (release_holds cx v)) = V"
    and eval: "\<And>dec cx0 w0. policy_set_evaluate (gv_policies gv) r p (govern_context gv op c) w = (dec, cx0, w0) \<Longrightarrow>
      (case dec of PayDeny fs \<Rightarrow> view w0 = V | _ \<Rightarrow> P cx0 w0)"
    and g: "govern lib gv now op r p c run settle w = (res, w')"
  shows "case res of
      Inl e \<Rightarrow> view w' = V
    | Inr a \<Rightarrow>
        (case settle a of
           SettleRelease \<Rightarrow> view w' = V
         | SettleCommit actual \<Rightarrow> \<exists>cx v. P cx v \<and> w' = snd (commit_holds actual cx v))"
proof -
  obtain d cx w1 where pd: "payment_decision lib gv now op r p c w = (d, cx, w1)" by (metis prod_cases3)
  have dec: "case d of Inl e \<Rightarrow> view w1 = V | Inr esc \<Rightarrow> P cx w1"
    by (rule decision_frame [OF pd assms(1)]) (fact stable release eval)+
  show ?thesis
  proof (cases d)
    case (Inl e)
    with pd g have "res = Inl e" "w' = w1" by (simp_all add: govern_def)
    with dec Inl show ?thesis by simp
  next
    case (Inr esc)
    obtain ans w2 where aa: "audit_allowed lib gv now op r p c esc w1 = (ans, w2)" by fastforce
    have w2: "P cx w2"
      using dec Inr audit_allowed_leaves [OF assms(1), of lib now op r p esc w1] aa by (auto intro: stable)
    obtain out w3 where run: "run w2 = (out, w3)" by fastforce
    have "view w3 = view w2" by (rule leaves_result [OF assms(2) run])
    then have P3: "P cx (record_outcome lib op r p c ok w3)" for ok
      using w2 record_outcome_leaves [OF assms(1), of lib op r p ok w3] by (auto intro: stable)
    show ?thesis
    proof (cases ans)
      case (Inl e)
      with pd Inr aa g have "res = Inl e" "w' = snd (release_holds cx w2)" by (simp_all add: govern_def)
      with release [OF w2] show ?thesis by simp
    next
      case ok: (Inr u)
      show ?thesis
      proof (cases out)
        case (Inl e)
        with pd Inr aa run ok g
        have "res = Inl e" "w' = snd (release_holds cx (record_outcome lib op r p c False w3))"
          by (simp_all add: govern_def split: unit.splits)
        with release [OF P3] show ?thesis by simp
      next
        case paid: (Inr a)
        define w4 where "w4 = record_outcome lib op r p c True w3"
        from paid pd Inr aa run ok g
        have "(res, w') = (case settle a of
            SettleCommit actual \<Rightarrow> (Inr a, snd (commit_holds actual cx w4))
          | SettleRelease \<Rightarrow> (Inr a, snd (release_holds cx w4)))"
          by (cases "settle a") (simp_all add: govern_def w4_def Let_def split: unit.splits)
        with release [OF P3] P3 show ?thesis by (cases "settle a") (auto simp: w4_def)
      qed
    qed
  qed
qed

section \<open>No reservation is left behind\<close>

context spend_contract
begin

lemma release_each_held:
  "\<forall>h \<in> set hs. sh_ledger h = api \<Longrightarrow> held (release_each hs w) = held w - set (map sh_reservation hs)"
  by (induction hs w rule: release_each.induct) (auto simp: released)

lemma commit_each_held:
  "\<forall>h \<in> set hs. sh_ledger h = api \<Longrightarrow> held (commit_each a hs w) = held w - set (map sh_reservation hs)"
  by (induction a hs w rule: commit_each.induct) (auto simp: committed Let_def)

lemma release_accounted:
  "accounted api held H cx w \<Longrightarrow> held (snd (release_holds cx w)) = H"
  "accounted api held H cx w \<Longrightarrow> accounted api held H (fst (release_holds cx w)) (snd (release_holds cx w))"
  by (auto simp: accounted_def release_holds_def release_each_held hold_ids_def)

lemma commit_accounted:
  "accounted api held H cx w \<Longrightarrow> held (snd (commit_holds a cx w)) = H"
  by (auto simp: accounted_def commit_holds_def commit_each_held hold_ids_def)

lemma evaluate_each_accounted:
  "evaluate_each gs r p d e cx w = (d', e', cx', w') \<Longrightarrow> \<forall>g \<in> set gs. accounts api held g \<Longrightarrow>
   accounted api held H cx w \<Longrightarrow> accounted api held H cx' w'"
proof (induction gs r p d e cx w rule: evaluate_each.induct)
  case (2 g gs r p d e cx w)
  obtain dec cx1 w1 where g: "gd_evaluate g r p cx w = (dec, cx1, w1)" by (metis prod_cases3)
  with 2(5,6) have "accounted api held H cx1 w1" by (auto simp: accounts_def)
  with 2 g show ?case by (cases dec) auto
qed simp

lemma evaluate_accounted:
  assumes "policy_set_evaluate gs r p cx w = (dec, cx', w')" "\<forall>g \<in> set gs. accounts api held g" "accounted api held H cx w"
  shows "accounted api held H cx' w'"
proof -
  obtain d e cx1 w1 where ev: "evaluate_each gs r p [] [] cx w = (d, e, cx1, w1)" by (metis prod_cases4)
  have "accounted api held H cx1 w1" by (rule evaluate_each_accounted [OF ev assms(2,3)])
  with release_accounted(2) [OF this] assms(1) ev show ?thesis
    by (auto simp: policy_set_evaluate_def Let_def split: if_splits prod.splits)
qed

lemma denied_released:
  assumes "policy_set_evaluate gs r p cx w = (PayDeny fs, cx', w')" "\<forall>g \<in> set gs. accounts api held g"
    and "accounted api held H cx w"
  shows "held w' = H"
proof -
  obtain d e cx1 w1 where ev: "evaluate_each gs r p [] [] cx w = (d, e, cx1, w1)" by (metis prod_cases4)
  have "accounted api held H cx1 w1" by (rule evaluate_each_accounted [OF ev assms(2,3)])
  with release_accounted(1) [OF this] assms(1) ev show ?thesis
    by (auto simp: policy_set_evaluate_def Let_def split: if_splits prod.splits)
qed

lemma spend_accounts: "accounts api held (spend_guardrail required)"
  unfolding accounts_def
proof (intro allI impI)
  fix H r p cx w d cx' w'
  assume a: "accounted api held H cx w" and ev: "gd_evaluate (spend_guardrail required) r p cx w = (d, cx', w')"
  consider "cx' = cx" "w' = w"
    | (asks) ledger k amount where "cx_ledger cx = Some ledger"
        "case sa_reserve ledger k amount w of
           (Inr i, w1) \<Rightarrow> cx' = context_hold \<lparr>sh_ledger = ledger, sh_reservation = i, sh_amount = amount\<rparr> cx \<and> w' = w1
         | (Inl e, w1) \<Rightarrow> cx' = cx \<and> w' = w1"
  proof -
    have "spend_evaluate required r p cx w = (d, cx', w')" using ev by (simp add: spend_guardrail_def)
    from spend_evaluate_cases [OF this] show ?thesis using that by (elim disjE exE conjE) simp_all
  qed
  then show "accounted api held H cx' w'"
  proof cases
    case l: (asks ledger k amount)
    note res = l(2)
    have [simp]: "ledger = api" using a l(1) by (auto simp: accounted_def)
    obtain ans w1 where rv: "sa_reserve api k amount w = (ans, w1)" by fastforce
    show ?thesis
    proof (cases ans)
      case (Inl e)
      with rv res refused have "cx' = cx" "held w' = held w" by auto
      with a show ?thesis by (simp add: accounted_def)
    next
      case (Inr i)
      with rv res have "cx' = context_hold \<lparr>sh_ledger = api, sh_reservation = i, sh_amount = amount\<rparr> cx" "w' = w1" by auto
      with reserved [of k amount w i w1] rv Inr a l show ?thesis by (auto simp: accounted_def context_hold_def hold_ids_def)
    qed
  qed (use a in simp)
qed

lemma nothing_left_held:
  assumes "cx_ledger (govern_context gv op c) \<in> {None, Some api}" "\<forall>g \<in> set (gv_policies gv). accounts api held g"
    and "keeps_off held gv c" "leaves held run" "govern lib gv now op r p c run settle w = (res, w')"
  shows "held w' = held w"
proof -
  have start: "accounted api held (held w) (govern_context gv op c) w"
    using assms(1) by (simp add: accounted_def govern_context_def policy_context_new_def hold_ids_def)
  have "case dec of PayDeny fs \<Rightarrow> held w0 = held w | _ \<Rightarrow> accounted api held (held w) cx0 w0"
    if ev: "policy_set_evaluate (gv_policies gv) r p (govern_context gv op c) w = (dec, cx0, w0)" for dec cx0 w0
    using evaluate_accounted [OF ev assms(2) start] denied_released [OF _ assms(2) start] ev by (cases dec) auto
  from govern_frame [where P = "accounted api held (held w)", OF assms(3,4) _ release_accounted(1) this assms(5)]
  have "case res of
      Inl e \<Rightarrow> held w' = held w
    | Inr a \<Rightarrow> (case settle a of
         SettleRelease \<Rightarrow> held w' = held w
       | SettleCommit actual \<Rightarrow> \<exists>cx v. accounted api held (held w) cx v \<and> w' = snd (commit_holds actual cx v))"
    by (simp add: accounted_def)
  then show ?thesis using commit_accounted by (auto split: sum.splits settlement.splits)
qed

end

section \<open>The in-memory ledger\<close>

text \<open>A world with the ledger beside everything else; a new reservation gets an identifier not in use.\<close>

definition unused_id :: "ledger_state \<Rightarrow> string" where
  "unused_id st = CHR ''r'' # concat (keys (holds st))"

lemma concat_length: "x \<in> set xs \<Longrightarrow> length x \<le> length (concat xs)"
  by (induction xs) auto

lemma unused_id: "unused_id st \<notin> set (keys (holds st))"
proof
  assume "unused_id st \<in> set (keys (holds st))"
  then have "length (unused_id st) \<le> length (concat (keys (holds st)))"
    by (rule concat_length)
  then show False by (simp add: unused_id_def)
qed

definition wallet ::
    "(string \<Rightarrow> string) \<Rightarrow> chrono \<Rightarrow> spend_ledger \<Rightarrow> ('b \<Rightarrow> instant) \<Rightarrow> (ledger_state \<times> 'b) spend_api" where
  "wallet esc ch lg clock = in_memory_ledger esc ch lg (\<lambda>w. clock (snd w)) unused_id fst (\<lambda>st w. (st, snd w))"

definition outstanding :: "ledger_state \<times> 'b \<Rightarrow> string set" where
  "outstanding w = set (keys (holds (fst w)))"

lemma outstanding_dom: "outstanding w = dom (lookup (holds (fst w)))"
  by (simp add: outstanding_def dom_map_of_conv_image_fst)

lemma wallet_commit:
  "fst (snd (sa_commit (wallet esc ch lg clock) i a w)) = snd (spend_commit ch (clock (snd w)) i a (fst w))"
  by (simp add: wallet_def in_memory_ledger_def ledger_result_def split: prod.split)

lemma wallet_commit_snd [simp]: "snd (snd (sa_commit (wallet esc ch lg clock) i a w)) = snd w"
  by (simp add: wallet_def in_memory_ledger_def split: prod.split)

lemma wallet_release: "fst (snd (sa_release (wallet esc ch lg clock) i w)) = snd (spend_release i (fst w))"
  by (simp add: wallet_def in_memory_ledger_def ledger_result_def split: prod.split)

lemma spend_reserve_cases:
  assumes "spend_reserve ch lg now i k a st = (res, st')"
  shows "case res of
      Inl e \<Rightarrow> st' = st
    | Inr j \<Rightarrow> j = i \<and> (\<exists>t. st' = st\<lparr>holds := AList.update i \<lparr>hold_key = k, hold_amount = a, hold_expires_at = t\<rparr> (holds st)\<rparr>)"
proof (cases "first_refusal ch st now a (applicable (sl_limits lg) k)")
  case None
  then have "\<exists>t. spend_reserve ch lg now i k a st =
      (Inr i, st\<lparr>holds := AList.update i \<lparr>hold_key = k, hold_amount = a, hold_expires_at = t\<rparr> (holds st)\<rparr>)"
    by (simp add: spend_reserve_def Let_def) blast
  with assms show ?thesis by auto
next
  case (Some e)
  with assms show ?thesis by (auto simp: spend_reserve_def)
qed

lemma wallet_reserve:
  "sa_reserve (wallet esc ch lg clock) k a w = (res, w') \<Longrightarrow>
   case res of
     Inl e \<Rightarrow> w' = w
   | Inr i \<Rightarrow> i = unused_id (fst w) \<and> (\<exists>t. w' =
       ((fst w)\<lparr>holds := AList.update i \<lparr>hold_key = k, hold_amount = a, hold_expires_at = t\<rparr> (holds (fst w))\<rparr>, snd w))"
proof -
  obtain ans st where sr: "spend_reserve ch lg (clock (snd w)) (unused_id (fst w)) k a (fst w) = (ans, st)" by fastforce
  assume "sa_reserve (wallet esc ch lg clock) k a w = (res, w')"
  with sr have "w' = (st, snd w)" "res = map_sum (spend_adk_error esc) id ans"
    by (auto simp: wallet_def in_memory_ledger_def ledger_result_def)
  with spend_reserve_cases [OF sr] show ?thesis by (cases ans) auto
qed

interpretation wallet: spend_contract "wallet esc ch lg clock" outstanding for esc ch lg and clock :: "'b \<Rightarrow> instant"
proof unfold_locales
  show "i \<notin> outstanding w \<and> outstanding w' = insert i (outstanding w)"
    if "sa_reserve (wallet esc ch lg clock) k a w = (Inr i, w')" for k a w i and w' :: "ledger_state \<times> 'b"
    using wallet_reserve [OF that] unused_id [of "fst w"] by (auto simp: outstanding_dom dom_map_of_conv_image_fst [symmetric])
  show "outstanding w' = outstanding w"
    if "sa_reserve (wallet esc ch lg clock) k a w = (Inl e, w')" for k a w e and w' :: "ledger_state \<times> 'b"
    using wallet_reserve [OF that] by simp
  show "outstanding (snd (sa_commit (wallet esc ch lg clock) i a w)) = outstanding w - {i}" for i a and w :: "ledger_state \<times> 'b"
    by (auto simp: outstanding_dom wallet_commit spend_commit_def Let_def split: option.split)
  show "outstanding (snd (sa_release (wallet esc ch lg clock) i w)) = outstanding w - {i}" for i and w :: "ledger_state \<times> 'b"
    by (auto simp: outstanding_dom wallet_release spend_release_def split: option.split)
qed

section \<open>The amounts are exact\<close>

text \<open>
  The state of the ledger while a payment is out: unchanged, or with one hold for the payment's key and
  whole amount, which is the only hold of the context.
\<close>

definition reserved_for :: "(ledger_state \<times> 'b) spend_api \<Rightarrow> ledger_state \<Rightarrow> spend_key \<Rightarrow> u64
     \<Rightarrow> (ledger_state \<times> 'b) policy_context \<Rightarrow> ledger_state \<times> 'b \<Rightarrow> bool" where
  "reserved_for api L key amount cx w \<longleftrightarrow>
     cx_holds cx = [\<lparr>sh_ledger = api, sh_reservation = unused_id L, sh_amount = amount\<rparr>] \<and>
     (\<exists>h. hold_key h = key \<and> fst w = L\<lparr>holds := AList.update (unused_id L) h (holds L)\<rparr>)"

lemma delete_update_new: "k \<notin> set (keys t) \<Longrightarrow> AList.delete k (AList.update k v t) = t"
  by (induction t) (auto simp: AList.delete_eq)

lemma reserved_release:
  assumes "reserved_for (wallet esc ch lg clock) L key amount cx w"
  shows "fst (snd (release_holds cx w)) = L"
proof -
  obtain h where h: "fst w = L\<lparr>holds := AList.update (unused_id L) h (holds L)\<rparr>"
    and cx: "cx_holds cx = [\<lparr>sh_ledger = wallet esc ch lg clock, sh_reservation = unused_id L, sh_amount = amount\<rparr>]"
    using assms by (auto simp: reserved_for_def)
  have "fst (snd (release_holds cx w)) = snd (spend_release (unused_id L) (fst w))"
    by (simp add: release_holds_def cx wallet_release)
  also have "\<dots> = L" by (simp add: h spend_release_def delete_update_new [OF unused_id])
  finally show ?thesis .
qed

definition charge :: "spend_key \<Rightarrow> int \<Rightarrow> u64 \<Rightarrow> ledger_state \<Rightarrow> ledger_state" where
  "charge key day amount L =
     (let bucket = (attribution_of key, day);
          before = (case lookup (committed L) bucket of Some t \<Rightarrow> t | None \<Rightarrow> 0) in
      L\<lparr>committed := AList.update bucket (sat_add before amount) (committed L)\<rparr>)"

lemma reserved_commit:
  assumes "reserved_for (wallet esc ch lg clock) L key amount cx w"
  shows "fst (snd (commit_holds actual cx w)) =
    charge key (date_naive ch (clock (snd (snd (commit_holds actual cx w))))) (case actual of Some a \<Rightarrow> a | None \<Rightarrow> amount) L"
proof -
  obtain h where h: "hold_key h = key" "fst w = L\<lparr>holds := AList.update (unused_id L) h (holds L)\<rparr>"
    and cx: "cx_holds cx = [\<lparr>sh_ledger = wallet esc ch lg clock, sh_reservation = unused_id L, sh_amount = amount\<rparr>]"
    using assms by (auto simp: reserved_for_def)
  let ?a = "case actual of Some a \<Rightarrow> a | None \<Rightarrow> amount"
  have bystander: "snd (snd (commit_holds actual cx w)) = snd w"
    by (cases actual) (simp_all add: commit_holds_def cx wallet_commit)
  have "fst (snd (commit_holds actual cx w)) = snd (spend_commit ch (clock (snd w)) (unused_id L) ?a (fst w))"
    by (cases actual) (simp_all add: commit_holds_def cx wallet_commit)
  also have "\<dots> = charge key (date_naive ch (clock (snd w))) ?a L"
    by (rule ledger_state.equality) (simp_all add: h spend_commit_def charge_def Let_def delete_update_new [OF unused_id])
  finally show ?thesis unfolding bystander .
qed

text \<open>The sets the crate builds: guardrails that read the transaction, then the spend limit.\<close>

definition pure_set :: "'w policy_set \<Rightarrow> bool" where
  "pure_set gs \<longleftrightarrow> (\<forall>g \<in> set gs. \<exists>name f. g = pure_guardrail name f)"

lemma evaluate_pure:
  "pure_set gs \<Longrightarrow> \<exists>d' e'. evaluate_each (gs @ hs) r p d e cx w = evaluate_each hs r p (d @ d') (e @ e') cx w"
proof (induction gs arbitrary: d e)
  case (Cons g gs)
  then obtain name f where g: "g = pure_guardrail name f" and gs: "pure_set gs" by (auto simp: pure_set_def)
  show ?case
  proof (cases "f r p")
    case PayAllow
    with g Cons.IH [OF gs, of d e] show ?thesis by (simp add: pure_guardrail_def)
  next
    case (PayEscalate fs)
    with g Cons.IH [OF gs, of d "e @ fs"] show ?thesis by (auto simp: pure_guardrail_def)
  next
    case (PayDeny fs)
    with g Cons.IH [OF gs, of "d @ fs" e] show ?thesis by (auto simp: pure_guardrail_def)
  qed
qed (rule exI [of _ "[]"], rule exI [of _ "[]"], simp)

lemma spend_evaluate_refuses:
  assumes "\<nexists>ledger micro og. reservable cx r ledger micro og" "moves_money (cx_operation cx)" "cx_ledger cx = Some l"
  shows "\<exists>s t. spend_evaluate required r p cx w = (spend_deny s t, cx, w)"
proof (cases "usd_micro_amount (ct_total (tr_cart r))")
  case (Inl reason)
  with assms show ?thesis by (auto simp: spend_evaluate_def)
next
  case (Inr m)
  show ?thesis
  proof (cases "payer cx r")
    case None
    then show ?thesis using assms(2,3) Inr by (auto simp: spend_evaluate_def payer_def)
  next
    case (Some og)
    with assms Inr have "mr_merchant_id (tr_merchant r) = []" by (auto simp: reservable_def)
    with Some show ?thesis using assms(2,3) Inr by (auto simp: spend_evaluate_def payer_def Let_def)
  qed
qed

text \<open>The spend limit on the wallet: it denies and leaves the ledger, or reserves the payment's whole amount.\<close>

lemma spend_evaluate_wallet:
  assumes "moves_money (cx_operation cx)" "cx_ledger cx = Some (wallet esc ch lg clock)" "cx_holds cx = []"
    and "spend_evaluate required r p cx w = (d, cx', w')"
  shows "(\<exists>s t. d = spend_deny s t) \<and> cx' = cx \<and> w' = w \<or>
    (\<exists>micro og. usd_micro_amount (ct_total (tr_cart r)) = Inr micro \<and> payer cx r = Some og \<and> d = PayAllow \<and>
       reserved_for (wallet esc ch lg clock) (fst w) (payment_key og cx r) (word_of_int micro) cx' w')"
proof (cases "\<exists>ledger micro og. reservable cx r ledger micro og")
  case True
  then obtain micro og where l: "reservable cx r (wallet esc ch lg clock) micro og"
    using assms(2) by (auto simp: reservable_def)
  obtain ans w1 where ask: "sa_reserve (wallet esc ch lg clock) (payment_key og cx r) (word_of_int micro) w = (ans, w1)"
    by (metis surj_pair)
  note res = spend_evaluate_asks [OF l, of required p w] wallet_reserve [OF ask]
  show ?thesis
  proof (cases ans)
    case (Inl e)
    with res ask assms(4) show ?thesis by auto
  next
    case (Inr i)
    with res(1) ask assms(4) have "d = PayAllow" "w' = w1"
      "cx' = context_hold \<lparr>sh_ledger = wallet esc ch lg clock, sh_reservation = i, sh_amount = word_of_int micro\<rparr> cx"
      by auto
    moreover obtain t where "i = unused_id (fst w)" "fst w1 = (fst w)\<lparr>holds := AList.update i
        \<lparr>hold_key = payment_key og cx r, hold_amount = word_of_int micro, hold_expires_at = t\<rparr> (holds (fst w))\<rparr>"
      using res(2) Inr by auto
    ultimately have "reserved_for (wallet esc ch lg clock) (fst w) (payment_key og cx r) (word_of_int micro) cx' w'"
      using assms(3) unfolding reserved_for_def context_hold_def
      by (intro conjI exI [of _ "\<lparr>hold_key = payment_key og cx r, hold_amount = word_of_int micro, hold_expires_at = t\<rparr>"])
        simp_all
    with l \<open>d = PayAllow\<close> show ?thesis by (auto simp: reservable_def)
  qed
next
  case False
  with spend_evaluate_refuses [OF False assms(1,2), of required p w] assms(4) show ?thesis by auto
qed

lemma reserved_pure:
  "policy_set_evaluate (gs @ [spend_guardrail b]) r p cx w = (dec, cx', w') \<Longrightarrow> pure_set gs \<Longrightarrow>
   moves_money (cx_operation cx) \<Longrightarrow> cx_ledger cx = Some (wallet esc ch lg clock) \<Longrightarrow> cx_holds cx = [] \<Longrightarrow>
   case dec of
     PayDeny fs \<Rightarrow> fst w' = fst w
   | _ \<Rightarrow> \<exists>micro og. usd_micro_amount (ct_total (tr_cart r)) = Inr micro \<and> payer cx r = Some og \<and>
       reserved_for (wallet esc ch lg clock) (fst w) (payment_key og cx r) (word_of_int micro) cx' w'"
proof -
  assume ev: "policy_set_evaluate (gs @ [spend_guardrail b]) r p cx w = (dec, cx', w')" and pure: "pure_set gs"
    and cx: "moves_money (cx_operation cx)" "cx_ledger cx = Some (wallet esc ch lg clock)" "cx_holds cx = []"
  obtain d' e' where each: "evaluate_each (gs @ [spend_guardrail b]) r p [] [] cx w =
      evaluate_each [spend_guardrail b] r p d' e' cx w"
    using evaluate_pure [OF pure, of "[spend_guardrail b]" r p "[]" "[]" cx w] by auto
  obtain d cx1 w1 where sp: "spend_evaluate b r p cx w = (d, cx1, w1)" by (metis prod_cases3)
  from spend_evaluate_wallet [OF cx sp] show ?thesis
  proof (elim disjE conjE exE)
    fix s t
    assume "d = spend_deny s t" "cx1 = cx" "w1 = w"
    with each sp ev cx(3) show ?thesis
      by (auto simp: policy_set_evaluate_def spend_guardrail_def spend_deny_def Let_def release_holds_def)
  next
    fix micro og
    assume r: "usd_micro_amount (ct_total (tr_cart r)) = Inr micro" "payer cx r = Some og" "d = PayAllow"
      "reserved_for (wallet esc ch lg clock) (fst w) (payment_key og cx r) (word_of_int micro) cx1 w1"
    with each sp ev reserved_release [OF r(4)] show ?thesis
      by (auto simp: policy_set_evaluate_def spend_guardrail_def Let_def split: if_splits prod.splits)
  qed
qed

lemma settled_exactly:
  fixes gv :: "(ledger_state \<times> 'b) governor"
  assumes g: "govern lib gv now op r p c run settle w = (res, w')"
    and money: "moves_money op" and ledger: "gv_spend_ledger gv = Some (wallet esc ch lg clock)"
    and policies: "gv_policies gv = gs @ [spend_guardrail b]" "pure_set gs"
    and off: "keeps_off fst gv c" "leaves fst run"
  shows "case res of
      Inl e \<Rightarrow> fst w' = fst w
    | Inr a \<Rightarrow>
        (case settle a of
           SettleRelease \<Rightarrow> fst w' = fst w
         | SettleCommit actual \<Rightarrow> \<exists>micro og. usd_micro_amount (ct_total (tr_cart r)) = Inr micro \<and>
             payer (govern_context gv op c) r = Some og \<and>
             fst w' = charge (payment_key og (govern_context gv op c) r) (date_naive ch (clock (snd w')))
               (case actual of Some n \<Rightarrow> n | None \<Rightarrow> word_of_int micro) (fst w))"
proof -
  let ?cx = "govern_context gv op c"
  define P :: "(ledger_state \<times> 'b) policy_context \<Rightarrow> ledger_state \<times> 'b \<Rightarrow> bool" where "P = (\<lambda>cx v. \<exists>micro og. usd_micro_amount (ct_total (tr_cart r)) = Inr micro \<and> payer ?cx r = Some og \<and>
      reserved_for (wallet esc ch lg clock) (fst w) (payment_key og ?cx r) (word_of_int micro) cx v)"
  have cx: "moves_money (cx_operation ?cx)" "cx_ledger ?cx = Some (wallet esc ch lg clock)" "cx_holds ?cx = []"
    using money ledger by (simp_all add: govern_context_def policy_context_new_def)
  have stable: "P cx v'" if "fst v' = fst v" "P cx v" for cx v v' using that by (simp add: P_def reserved_for_def)
  have release: "fst (snd (release_holds cx v)) = fst w" if "P cx v" for cx v
    using that reserved_release unfolding P_def by blast
  have eval: "case dec of PayDeny fs \<Rightarrow> fst w0 = fst w | _ \<Rightarrow> P cx0 w0"
    if "policy_set_evaluate (gv_policies gv) r p ?cx w = (dec, cx0, w0)" for dec cx0 w0
    using reserved_pure [OF that [unfolded policies(1)] policies(2) cx] by (cases dec) (simp_all add: P_def)
  have out: "case res of
      Inl e \<Rightarrow> fst w' = fst w
    | Inr a \<Rightarrow> (case settle a of
         SettleRelease \<Rightarrow> fst w' = fst w
       | SettleCommit actual \<Rightarrow> \<exists>cx v. P cx v \<and> w' = snd (commit_holds actual cx v))"
    by (rule govern_frame [OF off _ _ _ g]) (fact stable release eval)+
  have commit: "\<exists>micro og. usd_micro_amount (ct_total (tr_cart r)) = Inr micro \<and> payer ?cx r = Some og \<and>
      fst (snd (commit_holds actual cx v)) = charge (payment_key og ?cx r) (date_naive ch (clock (snd (snd (commit_holds actual cx v)))))
        (case actual of Some n \<Rightarrow> n | None \<Rightarrow> word_of_int micro) (fst w)" if "P cx v" for actual cx v
    using that reserved_commit unfolding P_def by blast
  show ?thesis
  proof (cases res)
    case (Inl e)
    with out show ?thesis by simp
  next
    case (Inr a)
    with out commit show ?thesis by (cases "settle a") auto
  qed
qed

end
