(* ===== verification/Payment_Claims.thy ===== *)
theory Payment_Claims
  imports Payment_Spend
begin

text \<open>
  The claims about money and governed payments, each with a concrete payment they hold for.
\<close>

section \<open>A small shop\<close>

text \<open>A backend that keeps one stored checkout and counts completed payments beside the ledger.\<close>

definition shop_record :: transaction_record where
  "shop_record = demo_record\<lparr>tr_session_identity := Some \<lparr>id_app_name = ''store'', id_user_id = ''u'', id_session_id = ''s''\<rparr>\<rparr>"

definition shop :: "(ledger_state \<times> nat) checkout_service" where
  "shop =
     \<lparr>cs_create = (\<lambda>cmd w. (Inr shop_record, w)), cs_update = (\<lambda>cmd w. (Inr shop_record, w)),
      cs_get = (\<lambda>lk w. (Inr (Some shop_record), w)),
      cs_complete = (\<lambda>cmd w. (Inr shop_record, (fst w, Suc (snd w)))),
      cs_cancel = (\<lambda>cmd w. (Inr shop_record, w)), cs_order_update = (\<lambda>cmd w. (Inr shop_record, w))\<rparr>"

definition shop_command :: complete_checkout_command where
  "shop_command =
     \<lparr>co_context =
        \<lparr>cc_transaction_id = ''tx-1'', cc_session_identity = None, cc_actor = demo_actor, cc_merchant = demo_merchant,
         cc_payment_processor = None, cc_mode = HumanPresent, cc_protocol = protocol_acp ''2026-01-30'', cc_extensions = []\<rparr>,
      co_payment_method = None, co_extensions = []\<rparr>"

definition shop_lib :: pay_lib where
  "shop_lib = \<lparr>pl_cart_json = (\<lambda>_. JNull), pl_esc = id, pl_dbg = concat\<rparr>"

definition shop_ledger :: spend_ledger where
  "shop_ledger = ledger_new [\<lparr>lim_key = spend_org ''store'', lim_max = 20000000\<rparr>]"

definition shop_wallet :: "(ledger_state \<times> nat) spend_api" where
  "shop_wallet = wallet id plain_chrono shop_ledger (\<lambda>_. 0)"

definition shop_governor :: "int \<Rightarrow> (ledger_state \<times> nat) governor" where
  "shop_governor hard =
     \<lparr>gv_policies = [amount_guardrail (threshold_with_currency ''USD'' 2 (amount_threshold_new None (Some hard)))]
        @ [spend_guardrail True],
      gv_spend_ledger = Some shop_wallet, gv_auditor = None\<rparr>"

definition shop_trail :: "(ledger_state \<times> audit_draft list) trail_handle" where
  "shop_trail =
     \<lparr>th_trail = \<lparr>at_digest = (\<lambda>_. ''d''), at_recorder = (\<lambda>_ _. None), at_failure_mode = Block\<rparr>,
      th_get = snd, th_put = (\<lambda>ds w. (fst w, ds))\<rparr>"

lemma shop_total: "ct_total (tr_cart shop_record) = demo_total"
  by (simp add: shop_record_def demo_record_def transaction_record_new_def recompute_safe_summary_def demo_cart_def)

lemma usd_any_case: "same_currency ''USD'' ''usd''" "same_currency ''usd'' ''USD''"
  by code_simp+

section \<open>Claims about money\<close>

text \<open>C27: Parsing never rounds: an accepted text is a decimal numeral (sign, digits, fraction, exponent), and the
amount it gives is exactly the number the text denotes, in the currency asked for, with at most 18 fraction
digits, and representable in an i64 and a u32.\<close>

theorem parsing_is_exact:
  assumes "parse_decimal c s = Inr m"
  shows "\<exists>negative whole fraction ex. s = decimal_text negative whole fraction ex \<and> whole \<noteq> [] \<and>
     list_all ascii_digit (whole @ fraction) \<and> (case ex of None \<Rightarrow> True | Some (_, e) \<Rightarrow> parse_i64 e \<noteq> None) \<and>
     mo_currency m = c \<and> mo_scale m \<le> 18 \<and> money_wf m \<and>
     money_value m = decimal_number negative whole fraction (exponent_of ex)"
  by (rule parse_decimal_exact [OF assms])

lemma minus_half: "parse_decimal ''USD'' ''-0.50'' = Inr (money_new ''USD'' (- 5) 1)"
  by code_simp

theorem parsing_is_exact_witness:
  "parse_decimal ''USD'' ''-0.50'' = Inr (money_new ''USD'' (- 5) 1) \<and>
   (\<exists>negative whole fraction ex. ''-0.50'' = decimal_text negative whole fraction ex \<and> whole \<noteq> [] \<and>
      money_value (money_new ''USD'' (- 5) 1) = decimal_number negative whole fraction (exponent_of ex))"
  using parsing_is_exact [OF minus_half] minus_half by blast

text \<open>An amount survives its text: what is printed for a representable amount with at most 18 fraction digits
parses, in whatever currency, to an amount of the same value.\<close>

theorem amount_text_roundtrip:
  assumes "money_wf m" "mo_scale m \<le> 18"
  shows "\<exists>r. parse_decimal c (to_decimal_string m) = Inr r \<and> mo_currency r = c \<and> money_value r = money_value m"
  by (rule print_parse [OF assms])

theorem amount_text_roundtrip_witness:
  "\<exists>r. parse_decimal ''USD'' (to_decimal_string (money_new ''USD'' (- 9223372036854775808) 2)) = Inr r \<and>
     mo_currency r = ''USD'' \<and> money_value r = money_value (money_new ''USD'' (- 9223372036854775808) 2)"
  using amount_text_roundtrip [of "money_new ''USD'' (- 9223372036854775808) 2" "''USD''"]
  by (simp add: in_i64_def in_u32_def)

text \<open>The operations on amounts stay within their types and follow the numbers: a sum, a difference or a rescaled
amount is representable whenever it is returned at all and has exactly the value of the sum, the difference or the
original, a sum and a difference only of amounts in one currency; and two representable amounts in one currency whose
scales parsing accepts always compare, as their values do.\<close>

theorem amounts_follow_values:
  assumes "money_wf a" "money_wf b"
  shows "(case money_checked_add a b of
      Inr m \<Rightarrow> money_wf m \<and> same_money a b \<and> money_value m = money_value a + money_value b | Inl _ \<Rightarrow> True) \<and>
    (case money_checked_sub a b of
      Inr m \<Rightarrow> money_wf m \<and> same_money a b \<and> money_value m = money_value a - money_value b | Inl _ \<Rightarrow> True) \<and>
    (case rescaled a k of Inr m \<Rightarrow> money_wf m \<and> mo_scale m = k \<and> money_value m = money_value a | Inl _ \<Rightarrow> True) \<and>
    (same_money a b \<longrightarrow> mo_scale a \<le> 18 \<longrightarrow> mo_scale b \<le> 18 \<longrightarrow>
      compare_amount a b = Some (compare_value (money_value a) (money_value b)))"
proof (intro conjI impI)
  show "case money_checked_add a b of
      Inr m \<Rightarrow> money_wf m \<and> same_money a b \<and> money_value m = money_value a + money_value b | Inl _ \<Rightarrow> True"
  proof (cases "money_checked_add a b")
    case (Inr m)
    with sum_exact [OF Inr] show ?thesis by simp
  qed simp
  show "case money_checked_sub a b of
      Inr m \<Rightarrow> money_wf m \<and> same_money a b \<and> money_value m = money_value a - money_value b | Inl _ \<Rightarrow> True"
  proof (cases "money_checked_sub a b")
    case (Inr m)
    with difference_exact [OF Inr] show ?thesis by simp
  qed simp
  show "case rescaled a k of Inr m \<Rightarrow> money_wf m \<and> mo_scale m = k \<and> money_value m = money_value a | Inl _ \<Rightarrow> True"
  proof (cases "rescaled a k")
    case (Inr m)
    with rescaled_value [OF Inr] assms(1) show ?thesis by simp
  qed simp
  show "compare_amount a b = Some (compare_value (money_value a) (money_value b))"
    if "same_money a b" "mo_scale a \<le> 18" "mo_scale b \<le> 18"
    by (rule compare_total [OF that(1) assms that(2,3)])
qed

theorem amounts_follow_values_witness:
  "money_checked_add (money_new ''USD'' 1125 3) (money_new ''usd'' 25 1) = Inr (money_new ''USD'' 3625 3) \<and>
   money_value (money_new ''USD'' 3625 3) = money_value (money_new ''USD'' 1125 3) + money_value (money_new ''usd'' 25 1)"
proof -
  have add: "money_checked_add (money_new ''USD'' 1125 3) (money_new ''usd'' 25 1) = Inr (money_new ''USD'' 3625 3)"
  proof -
    have "rescaled (money_new ''USD'' 1125 3) 3 = Inr (money_new ''USD'' 1125 3)"
      by (simp add: rescaled_def Let_def max_money_scale_def)
    moreover have "rescaled (money_new ''usd'' 25 1) 3 = Inr (money_new ''usd'' 2500 3)"
      by (simp add: rescaled_def Let_def max_money_scale_def pow_ten_def checked_def in_i64_def)
    ultimately show ?thesis
      by (simp add: money_checked_add_def aligned_with_def usd_any_case Let_def checked_def in_i64_def)
  qed
  show ?thesis
    using amounts_follow_values [of "money_new ''USD'' 1125 3" "money_new ''usd'' 25 1" 0] add
    by (simp add: in_i64_def in_u32_def)
qed

text \<open>What a payment reserves covers it: the micro-dollars of a USD amount are at least its value and less than one
micro-dollar above it; any other currency and any negative amount is refused.\<close>

theorem reservation_covers_amount:
  assumes "usd_micro_amount m = Inr n"
  shows "same_currency (mo_currency m) ''USD'' \<and> 0 \<le> money_value m \<and>
    money_value m * 1000000 \<le> of_int n \<and> of_int n < money_value m * 1000000 + 1"
  by (rule usd_micro_bounds [OF assms])

lemma micro_rounded_up: "usd_micro_amount (money_new ''usd'' 1234567891 9) = Inr 1234568"
  by (simp add: usd_micro_amount_def usd_any_case Let_def pow_ten_def checked_def in_u64_def div_ceil_def)

theorem reservation_covers_amount_witness:
  "usd_micro_amount (money_new ''usd'' 1234567891 9) = Inr 1234568 \<and>
   money_value (money_new ''usd'' 1234567891 9) * 1000000 \<le> 1234568"
  using reservation_covers_amount [OF micro_rounded_up] micro_rounded_up by simp

section \<open>Claims about governed payments\<close>

text \<open>C22: Limits bind. When the stored checkout is over a hard limit by value, in a currency, with a merchant or under a
protocol that a configured guardrail does not admit, completing it is refused with the policy error, whatever the other
guardrails and the caller are and whatever the backend would do: the backend's completion has no influence on the
outcome, so it is not reached.\<close>

theorem limits_bind:
  assumes "cs_get inner (completion_lookup cmd) w = (Inr (Some r), w1)"
    and "(\<exists>t limit. amount_guardrail t \<in> set (gv_policies gv) \<and> th_hard t = Some limit \<and>
           (over_limit t limit (ct_total (tr_cart r)) \<or> other_currency t (ct_total (tr_cart r)))) \<or>
         (\<exists>ms. merchant_guardrail ms \<in> set (gv_policies gv) \<and> mr_merchant_id (tr_merchant r) \<notin> set ms) \<or>
         (\<exists>cs. currency_guardrail cs \<in> set (gv_policies gv) \<and> mo_currency (ct_total (tr_cart r)) \<notin> set cs) \<or>
         (\<exists>ps. protocol_guardrail ps \<in> set (gv_policies gv) \<and> \<not> protocol_allows ps (cc_protocol (co_context cmd)))"
  shows "\<exists>e w'. code e = ''payments.policy.denied'' \<and>
    (\<forall>pay. complete_checkout_as lib gv (inner\<lparr>cs_complete := pay\<rparr>) now cmd c w = (Inl e, w'))"
proof -
  obtain g where "g \<in> set (gv_policies gv)" "denies g r (cc_protocol (co_context cmd))"
    using assms(2) amount_denied unlisted_denied by (elim disjE exE conjE) blast+
  then show ?thesis using denied_completion [OF _ _ assms(1)] by blast
qed

lemma shop_over: "over_limit (threshold_with_currency ''USD'' 2 (amount_threshold_new None (Some 1000))) 1000 demo_total"
  by (simp add: over_limit_def threshold_scale_def threshold_with_currency_def amount_threshold_new_def demo_total_def)

theorem limits_bind_witness:
  "\<exists>e w'. code e = ''payments.policy.denied'' \<and>
     (\<forall>pay. complete_checkout_as shop_lib (shop_governor 1000) (shop\<lparr>cs_complete := pay\<rparr>) 0 shop_command
        (caller_from (co_context shop_command)) (ledger_empty, 0) = (Inl e, w'))"
proof (rule limits_bind)
  show "cs_get shop (completion_lookup shop_command) (ledger_empty, 0) = (Inr (Some shop_record), (ledger_empty, 0))"
    by (simp add: shop_def)
  show "(\<exists>t limit. amount_guardrail t \<in> set (gv_policies (shop_governor 1000)) \<and> th_hard t = Some limit \<and>
           (over_limit t limit (ct_total (tr_cart shop_record)) \<or> other_currency t (ct_total (tr_cart shop_record)))) \<or>
         (\<exists>ms. merchant_guardrail ms \<in> set (gv_policies (shop_governor 1000)) \<and> mr_merchant_id (tr_merchant shop_record) \<notin> set ms) \<or>
         (\<exists>cs. currency_guardrail cs \<in> set (gv_policies (shop_governor 1000)) \<and>
           mo_currency (ct_total (tr_cart shop_record)) \<notin> set cs) \<or>
         (\<exists>ps. protocol_guardrail ps \<in> set (gv_policies (shop_governor 1000)) \<and>
           \<not> protocol_allows ps (cc_protocol (co_context shop_command)))"
    using shop_over shop_total
    by (intro disjI1 exI [of _ "threshold_with_currency ''USD'' 2 (amount_threshold_new None (Some 1000))"] exI [of _ 1000])
      (simp add: shop_governor_def threshold_with_currency_def amount_threshold_new_def)
qed


text \<open>C23: No payment runs undecided or unrecorded. Under a blocking audit trail, the outcome of a governed operation
either does not depend on the backend at all, or depends on it in one world only, the one it is called in: there the
policies had allowed the payment, or an escalation of theirs had been approved by the caller's approver, and the trail
holds the record of that decision with the transaction and the amount.\<close>

theorem payment_on_record:
  assumes "pc_audit c = Some (h, actor)" "at_failure_mode (th_trail h) = Block" "trail_lens h"
    and "\<forall>sink ev. gv_auditor gv = Some sink \<longrightarrow> leaves (th_get h) (sink ev)"
  shows "(\<exists>e w'. \<forall>run settle. govern lib gv now op r p c run settle w = (Inl e, w')) \<or>
    (\<exists>d seen. decided gv op r p c w d \<and> on_record h op r d seen \<and>
      (\<forall>run run' settle. run seen = run' seen \<longrightarrow>
        govern lib gv now op r p c run settle w = govern lib gv now op r p c run' settle w))"
proof (cases "cleared lib gv now op r p c w")
  case None
  then show ?thesis by (intro disjI1 not_cleared)
next
  case (Some cxw)
  then obtain cx seen where cl: "cleared lib gv now op r p c w = Some (cx, seen)" by (cases cxw) auto
  with cleared_decided [OF cl] assms [unfolded leaves_def] obtain d where "decided gv op r p c w d" "on_record h op r d seen" by blast
  moreover have "govern lib gv now op r p c run settle w = govern lib gv now op r p c run' settle w"
    if "run seen = run' seen" for run run' settle
    unfolding govern_cleared [OF cl] that ..
  ultimately show ?thesis by blast
qed

definition trail_governor :: "(ledger_state \<times> audit_draft list) governor" where
  "trail_governor = \<lparr>gv_policies = [merchant_guardrail [''merchant-1'']], gv_spend_ledger = None, gv_auditor = None\<rparr>"

definition trail_caller :: "(ledger_state \<times> audit_draft list) payment_caller" where
  "trail_caller = payment_caller_new\<lparr>pc_audit := Some (shop_trail, audit_actor_default)\<rparr>"

theorem payment_on_record_witness:
  "(\<exists>e w'. \<forall>(run :: ledger_state \<times> audit_draft list \<Rightarrow> unit result \<times> ledger_state \<times> audit_draft list) settle.
      govern shop_lib trail_governor 0 CompleteCheckout shop_record (protocol_acp ''v'') trail_caller run settle
        (ledger_empty, []) = (Inl e, w')) \<or>
   (\<exists>d seen. decided trail_governor CompleteCheckout shop_record (protocol_acp ''v'') trail_caller (ledger_empty, []) d \<and>
      on_record shop_trail CompleteCheckout shop_record d seen)"
proof -
  have trail: "pc_audit trail_caller = Some (shop_trail, audit_actor_default)" "at_failure_mode (th_trail shop_trail) = Block"
    "trail_lens shop_trail"
    by (simp_all add: trail_caller_def payment_caller_new_def shop_trail_def trail_lens_def)
  have "\<forall>sink ev. gv_auditor trail_governor = Some sink \<longrightarrow> leaves (th_get shop_trail) (sink ev)"
    by (simp add: trail_governor_def)
  from payment_on_record [OF trail this, of shop_lib 0 CompleteCheckout shop_record "protocol_acp ''v''"
      "(ledger_empty, [])", where 'c = unit]
  show ?thesis by blast
qed


lemma shop_guardrails: "\<forall>g \<in> set (gv_policies (shop_governor n)). accounts shop_wallet outstanding g"
  by (simp add: shop_governor_def amount_guardrail_def pure_accounts shop_wallet_def wallet.spend_accounts)

lemma shop_keeps_off: "keeps_off v (shop_governor n) payment_caller_new"
  by (simp add: keeps_off_def payment_caller_new_def shop_governor_def)

lemma shop_complete_leaves: "leaves fst (cs_complete shop cmd)" "leaves outstanding (cs_complete shop cmd)"
  by (simp_all add: leaves_def shop_def outstanding_def)



lemma shop_amount: "amount_decision (threshold_with_currency ''USD'' 2 (amount_threshold_new None (Some 2000))) shop_record = PayAllow"
proof -
  have "compare_amount demo_total (money_new ''USD'' 2000 2) = Some Less"
    by (simp add: demo_total_def compare_amount_def usd_any_case same_currency_def Let_def widen_def pow_ten_def checked_def in_i128_def compare_int_def)
  moreover have "same_currency ''USD'' (mo_currency demo_total)" by (simp add: demo_total_def same_currency_def)
  ultimately show ?thesis
    by (simp add: amount_decision_def shop_total threshold_with_currency_def amount_threshold_new_def exceeds_def Let_def)
qed

lemma shop_micro: "usd_micro_amount demo_total = Inr 15000000"
  by (simp add: usd_micro_amount_def demo_total_def same_currency_def Let_def pow_ten_def checked_def in_u64_def)

lemma shop_fits: "first_refusal ch ledger_empty 0 15000000 (applicable [\<lparr>lim_key = spend_org ''store'', lim_max = 20000000\<rparr>] k) = None"
  by (simp add: applicable_def committed_in_def held_in_def ledger_empty_def sat_sum_def sat_add_def u64_max_def)

lemma shop_org: "payer (govern_context (shop_governor 2000) CompleteCheckout payment_caller_new) shop_record = Some ''store''"
  by (simp add: payer_def govern_context_def payment_caller_new_def policy_context_new_def shop_record_def)

lemma shop_reserves:
  "\<exists>i L. sa_reserve shop_wallet k 15000000 (ledger_empty, 0) = (Inr i, (L, 0))"
  by (simp add: shop_wallet_def wallet_def in_memory_ledger_def spend_reserve_def ledger_result_def shop_fits shop_ledger_def
      ledger_new_def Let_def)

lemma shop_allows:
  "\<exists>cx L. policy_set_evaluate (gv_policies (shop_governor 2000)) shop_record p
     (govern_context (shop_governor 2000) CompleteCheckout payment_caller_new) (ledger_empty, 0) = (PayAllow, cx, (L, 0))"
proof -
  let ?cx = "govern_context (shop_governor 2000) CompleteCheckout payment_caller_new"
  have "mr_merchant_id (tr_merchant shop_record) \<noteq> []"
    by (simp add: shop_record_def demo_record_def transaction_record_new_def recompute_safe_summary_def demo_merchant_def)
  then have l: "reservable ?cx shop_record shop_wallet 15000000 ''store''"
    using shop_org by (simp add: reservable_def shop_total shop_micro) (simp add: govern_context_def shop_governor_def policy_context_new_def)
  obtain i L where "sa_reserve shop_wallet (payment_key ''store'' ?cx shop_record) 15000000 (ledger_empty, 0) = (Inr i, (L, 0))"
    using shop_reserves by blast
  with spend_evaluate_asks [OF l, of True p "(ledger_empty, 0)"]
  obtain cx' where "spend_evaluate True shop_record p ?cx (ledger_empty, 0) = (PayAllow, cx', (L, 0))" by auto
  then show ?thesis
    by (simp add: policy_set_evaluate_def shop_governor_def amount_guardrail_def pure_guardrail_def shop_amount spend_guardrail_def
        sort_findings_def)
qed

lemma shop_no_auditor: "gv_auditor (shop_governor n) = None"
  by (simp add: shop_governor_def)

lemma shop_pays:
  "\<exists>w. complete_checkout_as shop_lib (shop_governor 2000) shop 0 shop_command payment_caller_new (ledger_empty, 0)
     = (Inr shop_record, w)"
proof -
  obtain cx L where "policy_set_evaluate (gv_policies (shop_governor 2000)) shop_record (cc_protocol (co_context shop_command))
     (govern_context (shop_governor 2000) CompleteCheckout payment_caller_new) (ledger_empty, 0) = (PayAllow, cx, (L, 0))"
    using shop_allows by blast
  then have "payment_decision shop_lib (shop_governor 2000) 0 CompleteCheckout shop_record (cc_protocol (co_context shop_command))
     payment_caller_new (ledger_empty, 0) = (Inr False, cx, (L, 0))"
    by (simp add: payment_decision_def caller_record_def payment_caller_new_def split: unit.split)
  then have "\<exists>w. govern shop_lib (shop_governor 2000) 0 CompleteCheckout shop_record (cc_protocol (co_context shop_command))
     payment_caller_new (cs_complete shop shop_command) checkout_settlement (ledger_empty, 0) = (Inr shop_record, w)"
    by (simp add: govern_def audit_allowed_def checkout_settlement_def shop_def shop_no_auditor split: unit.split)
  then show ?thesis by (simp add: complete_checkout_as_def Let_def shop_def [THEN arg_cong [of _ _ cs_get]])
qed


section \<open>What a silent denial does\<close>

text \<open>A guardrail that denies without a finding is not heard: the set allows the payment.\<close>

lemma silent_denial_allows:
  "gd_evaluate g r p cx w = (PayDeny [], cx', w') \<Longrightarrow> policy_set_evaluate [g] r p cx w = (PayAllow, cx', w')"
  by (simp add: policy_set_evaluate_def)

end
