(* ===== verification/Graph_State.thy ===== *)
theory Graph_State
  imports Json Float64 Action_Ledger
begin

text \<open>
  The data of a graph run (\<^verbatim>\<open>adk-graph/src\<close>): the state and its reducers with the checkpoint that
  persists a run (\<^verbatim>\<open>state.rs\<close>), interrupts (\<^verbatim>\<open>interrupt.rs\<close>), what a node returns (\<^verbatim>\<open>node.rs\<close>), the
  arrivals a fan-in node has recorded (\<^verbatim>\<open>deferred.rs\<close>), and the errors of the engine (\<^verbatim>\<open>error.rs\<close>).

  A checkpoint's metadata is kept as the values the executor puts there, not as the JSON \<^verbatim>\<open>serde\<close> makes
  of them. Reading a number as an \<^verbatim>\<open>f64\<close>, adding two and printing one are the parameters \<open>number_lib\<close>.
\<close>

section \<open>State and reducers\<close>

type_synonym graph_state = "(string, json) table"

record number_lib =
  nl_f64 :: "string \<Rightarrow> f64 option"
  nl_add :: "f64 \<Rightarrow> f64 \<Rightarrow> f64"
  nl_text :: "rat \<Rightarrow> string"

definition json_as_f64 :: "number_lib \<Rightarrow> json \<Rightarrow> f64 option" where
  "json_as_f64 nl v = (case v of JNumber n \<Rightarrow> nl_f64 nl n | _ \<Rightarrow> None)"

text \<open>\<^verbatim>\<open>json!(x)\<close>: a float that is not finite has no JSON number.\<close>

definition json_of_f64 :: "number_lib \<Rightarrow> f64 \<Rightarrow> json" where
  "json_of_f64 nl x = (case x of Fin r \<Rightarrow> JNumber (nl_text nl r) | _ \<Rightarrow> JNull)"

datatype reducer = Overwrite | AppendList | SumNumbers | CustomReducer "json \<Rightarrow> json \<Rightarrow> json"

record channel =
  chn_name :: string
  chn_reducer :: reducer
  chn_default :: "json option"

definition channel_new :: "string \<Rightarrow> channel" where
  "channel_new name = \<lparr>chn_name = name, chn_reducer = Overwrite, chn_default = None\<rparr>"

definition channel_list :: "string \<Rightarrow> channel" where
  "channel_list name = \<lparr>chn_name = name, chn_reducer = AppendList, chn_default = Some (JArray [])\<rparr>"

definition channel_counter :: "string \<Rightarrow> channel" where
  "channel_counter name = \<lparr>chn_name = name, chn_reducer = SumNumbers, chn_default = Some (JNumber ''0'')\<rparr>"

type_synonym state_schema = "(string, channel) table"

definition schema_simple :: "string list \<Rightarrow> state_schema" where
  "schema_simple names = fold (\<lambda>n. AList.update n (channel_new n)) names []"

definition get_reducer :: "state_schema \<Rightarrow> string \<Rightarrow> reducer" where
  "get_reducer sch c = (case lookup sch c of Some ch \<Rightarrow> chn_reducer ch | None \<Rightarrow> Overwrite)"

definition first_undeclared :: "state_schema \<Rightarrow> string list \<Rightarrow> string option" where
  "first_undeclared sch ks = (if sch = [] then None else find (\<lambda>k. lookup sch k = None) ks)"

definition get_default :: "state_schema \<Rightarrow> string \<Rightarrow> json option" where
  "get_default sch c = Option.bind (lookup sch c) chn_default"

definition reduce :: "number_lib \<Rightarrow> reducer \<Rightarrow> json \<Rightarrow> json \<Rightarrow> json" where
  "reduce nl r current v =
     (case r of
        Overwrite \<Rightarrow> v
      | AppendList \<Rightarrow>
          (let arr = (case current of JArray a \<Rightarrow> a | JNull \<Rightarrow> [] | _ \<Rightarrow> [current]) in
           JArray (arr @ (case v of JArray items \<Rightarrow> items | _ \<Rightarrow> [v])))
      | SumNumbers \<Rightarrow>
          (let current_num = (case json_as_f64 nl current of Some x \<Rightarrow> x | None \<Rightarrow> Fin 0);
               add_num = (case json_as_f64 nl v of Some x \<Rightarrow> x | None \<Rightarrow> Fin 0) in
           json_of_f64 nl (nl_add nl current_num add_num))
      | CustomReducer f \<Rightarrow> f current v)"

definition apply_update :: "number_lib \<Rightarrow> state_schema \<Rightarrow> graph_state \<Rightarrow> string \<Rightarrow> json \<Rightarrow> graph_state" where
  "apply_update nl sch st key v =
     (let current = (case lookup st key of Some c \<Rightarrow> c | None \<Rightarrow> JNull) in
      AList.update key (reduce nl (get_reducer sch key) current v) st)"

text \<open>\<^verbatim>\<open>for (key, value) in input\<close>.\<close>

definition apply_input :: "number_lib \<Rightarrow> state_schema \<Rightarrow> (string, json) table \<Rightarrow> graph_state \<Rightarrow> graph_state" where
  "apply_input nl sch input st = fold (\<lambda>(k, v) s. apply_update nl sch s k v) input st"

definition schema_initial_state :: "state_schema \<Rightarrow> graph_state" where
  "schema_initial_state sch =
     fold (\<lambda>(n, ch) s. case chn_default ch of Some d \<Rightarrow> AList.update n d s | None \<Rightarrow> s) sch []"

section \<open>Interrupts, outputs and pending writes\<close>

datatype interrupt = BeforeNode string | AfterNode string | DynamicPause string "json option"

record node_output =
  no_updates :: "(string, json) table"
  no_interrupt :: "interrupt option"
  no_goto :: "string list option"
  no_goto_parent :: "string list option"

definition node_output_new :: node_output where
  "node_output_new = \<lparr>no_updates = [], no_interrupt = None, no_goto = None, no_goto_parent = None\<rparr>"

record pending_write =
  pw_updates :: "(string, json) table"
  pw_goto :: "string list option"
  pw_goto_parent :: "string list option"

section \<open>Fan-in arrivals\<close>

record fan_in_tracker =
  ft_expected :: "string list"
  ft_received :: "(string, json) table"
  ft_order :: "string list"

text \<open>\<^verbatim>\<open>expected\<close> is a set: a source named twice counts once.\<close>

definition fan_in_tracker_new :: "string list \<Rightarrow> fan_in_tracker" where
  "fan_in_tracker_new sources = \<lparr>ft_expected = remdups sources, ft_received = [], ft_order = []\<rparr>"

definition fan_in_ready :: "fan_in_tracker \<Rightarrow> bool" where
  "fan_in_ready t \<longleftrightarrow> list_all (\<lambda>s. lookup (ft_received t) s \<noteq> None) (ft_expected t)"

definition fan_in_record :: "string \<Rightarrow> json \<Rightarrow> fan_in_tracker \<Rightarrow> fan_in_tracker" where
  "fan_in_record source output t =
     t\<lparr>ft_order := (if lookup (ft_received t) source = None then ft_order t @ [source] else ft_order t),
       ft_received := AList.update source output (ft_received t)\<rparr>"

datatype merge_strategy = CollectAll | MergeMap | FirstOnly | CustomMerge "json list \<Rightarrow> json"

definition fan_in_outputs :: "fan_in_tracker \<Rightarrow> json list" where
  "fan_in_outputs t = List.map_filter (lookup (ft_received t)) (ft_order t)"

definition fan_in_merge :: "merge_strategy \<Rightarrow> fan_in_tracker \<Rightarrow> json" where
  "fan_in_merge strategy t =
     (case strategy of
        CollectAll \<Rightarrow> JArray (fan_in_outputs t)
      | MergeMap \<Rightarrow>
          JObject (fold (\<lambda>key m. case lookup (ft_received t) key of
                     Some (JObject kvs) \<Rightarrow> fold (\<lambda>(k, v). AList.update k v) kvs m
                   | _ \<Rightarrow> m) (ft_order t) [])
      | FirstOnly \<Rightarrow>
          (case ft_order t of
             [] \<Rightarrow> JNull
           | key # _ \<Rightarrow> (case lookup (ft_received t) key of Some v \<Rightarrow> v | None \<Rightarrow> JNull))
      | CustomMerge f \<Rightarrow> f (fan_in_outputs t))"

definition fan_in_received_count :: "fan_in_tracker \<Rightarrow> nat" where
  "fan_in_received_count t = length (ft_received t)"

definition fan_in_expected_count :: "fan_in_tracker \<Rightarrow> nat" where
  "fan_in_expected_count t = length (ft_expected t)"

definition fan_in_pending :: "fan_in_tracker \<Rightarrow> string list" where
  "fan_in_pending t = [s \<leftarrow> ft_expected t. lookup (ft_received t) s = None]"

record deferred_config =
  dc_merge :: merge_strategy
  dc_timeout :: "dur option"
  dc_min_predecessors :: "nat option"

definition deferred_config_default :: deferred_config where
  "deferred_config_default = \<lparr>dc_merge = CollectAll, dc_timeout = None, dc_min_predecessors = None\<rparr>"

text \<open>
  The snapshot a checkpoint carries: arrivals in merge order with the time the node started waiting, and
  the predecessors whose next arrival is ignored.
\<close>

record pending_fan_in =
  pf_arrivals :: "(string \<times> json) list"
  pf_waiting_since :: instant

record fan_in_snapshot =
  fs_nodes :: "(string, pending_fan_in) table"
  fs_abandoned :: "(string, string list) table"

definition fan_in_capture ::
    "instant \<Rightarrow> (string, fan_in_tracker) table \<Rightarrow> (string, instant) table \<Rightarrow> (string, string list) table
     \<Rightarrow> fan_in_snapshot option" where
  "fan_in_capture now trackers started abandoned =
     (if trackers = [] \<and> list_all (\<lambda>(_, sources). sources = []) abandoned then None
      else Some
        \<lparr>fs_nodes = map (\<lambda>(n, t).
           (n, \<lparr>pf_arrivals = List.map_filter (\<lambda>s. map_option (Pair s) (lookup (ft_received t) s)) (ft_order t),
                pf_waiting_since = now - (case lookup started n of Some start \<Rightarrow> max 0 (now - start) | None \<Rightarrow> 0)\<rparr>)) trackers,
         fs_abandoned = map (\<lambda>(n, sources). (n, sort sources)) (filter (\<lambda>(_, sources). sources \<noteq> []) abandoned)\<rparr>)"

record restored_fan_in =
  rf_trackers :: "(string, fan_in_tracker) table"
  rf_started :: "(string, instant) table"
  rf_abandoned :: "(string, string list) table"

definition fan_in_restore :: "instant \<Rightarrow> (string \<Rightarrow> string list) \<Rightarrow> fan_in_snapshot \<Rightarrow> restored_fan_in" where
  "fan_in_restore now upstream snap =
     \<lparr>rf_trackers = map (\<lambda>(n, pending).
        (n, fold (\<lambda>(source, output). fan_in_record source output) (pf_arrivals pending) (fan_in_tracker_new (upstream n))))
        (fs_nodes snap),
      rf_started = map (\<lambda>(n, pending). (n, now - max 0 (now - pf_waiting_since pending))) (fs_nodes snap),
      rf_abandoned = fs_abandoned snap\<rparr>"

section \<open>Checkpoints\<close>

text \<open>What changes between two states (\<^verbatim>\<open>delta.rs\<close>).\<close>

record map_delta =
  md_added :: graph_state
  md_removed :: "string list"
  md_modified :: graph_state

datatype cp_metadata = MetaFanIn fan_in_snapshot | MetaPaused "string list" | MetaDelta map_delta | MetaValue json

definition fan_in_metadata_key :: string where
  "fan_in_metadata_key = ''adk.graph.fanIn''"

definition paused_nodes_metadata_key :: string where
  "paused_nodes_metadata_key = ''adk.graph.paused_nodes''"

record graph_checkpoint =
  gc_thread_id :: string
  gc_checkpoint_id :: string
  gc_state :: graph_state
  gc_step :: nat
  gc_pending_nodes :: "string list"
  gc_metadata :: "(string, cp_metadata) table"
  gc_created_at :: instant
  gc_cleared_interrupt :: "string option"
  gc_attempts :: "(string, nat) table"
  gc_child_ledger :: "(string, json) table"
  gc_version :: nat
  gc_pending_writes :: "(string, pending_write) table"

text \<open>\<^verbatim>\<open>Checkpoint::new\<close>: the identifier is fresh, the time is cut to whole microseconds.\<close>

definition checkpoint_new :: "string \<Rightarrow> instant \<Rightarrow> string \<Rightarrow> graph_state \<Rightarrow> nat \<Rightarrow> string list \<Rightarrow> graph_checkpoint" where
  "checkpoint_new cid now thread_id st step pending =
     \<lparr>gc_thread_id = thread_id, gc_checkpoint_id = cid, gc_state = st, gc_step = step,
      gc_pending_nodes = pending, gc_metadata = [], gc_created_at = now - now mod 1000,
      gc_cleared_interrupt = None, gc_attempts = [], gc_child_ledger = [], gc_version = 1,
      gc_pending_writes = []\<rparr>"

section \<open>Errors\<close>

record interrupted_execution =
  ie_thread_id :: string
  ie_checkpoint_id :: string
  ie_interrupt :: interrupt
  ie_interrupts :: "interrupt list"
  ie_state :: graph_state
  ie_step :: nat

datatype graph_error =
  InvalidGraph string
| NodeNotFound string
| EdgeTargetNotFound string
| NoEntryPoint
| RecursionLimitExceeded nat
| Interrupted interrupted_execution
| NodeExecutionFailed (failed_node: string) (failed_message: string)
| AgentFailed (failed_agent_node: string) adk_error
| NodeTimedOut string dur
| FanInTimedOut string nat nat
| FanInIncomplete string nat nat
| SerializationError string
| CheckpointError string
| CheckpointConflict string nat nat
| UndeclaredChannel string string
| SubgraphChannelMismatch string string string
| UnknownRouteTarget string
| IoError string
| JsonError string
| WorkflowSuspended string string
| WorkflowCancelled
| OtherGraphError string

type_synonym 'a gresult = "graph_error + 'a"

definition interrupted_new :: "string \<Rightarrow> string \<Rightarrow> interrupt \<Rightarrow> interrupt list \<Rightarrow> graph_state \<Rightarrow> nat \<Rightarrow> interrupted_execution" where
  "interrupted_new thread_id checkpoint_id first all st step =
     \<lparr>ie_thread_id = thread_id, ie_checkpoint_id = checkpoint_id,
      ie_interrupt = (case all of [] \<Rightarrow> first | i # _ \<Rightarrow> i),
      ie_interrupts = (if all = [] then [first] else all), ie_state = st, ie_step = step\<rparr>"

end
