(* ===== verification/Graph_Def.thy ===== *)
theory Graph_Def
  imports Graph_State
begin

text \<open>
  Graphs (\<^verbatim>\<open>adk-graph/src\<close>): edges and routers (\<^verbatim>\<open>edge.rs\<close>), the configuration of a run and the
  context of a node (\<^verbatim>\<open>node.rs\<close>), retry and timeout policies (\<^verbatim>\<open>retry.rs\<close>, \<^verbatim>\<open>timeout.rs\<close>), the
  checkpointer a graph may have (\<^verbatim>\<open>checkpoint.rs\<close>), the builder, its validation and what compiling
  adds, and the questions the executor asks of a compiled graph (\<^verbatim>\<open>graph.rs\<close>).

  A node is a trait object: a record of its methods, which may change a world \<open>'w\<close> and the ledger of
  the children it invokes. The node cache is an optional feature of the crate and is left out.
\<close>

section \<open>Edges\<close>

definition START :: string where "START = ''__start__''"
definition END :: string where "END = ''__end__''"

datatype edge_target = TargetNode (target_node: string) | TargetEnd

definition edge_target_of :: "string \<Rightarrow> edge_target" where
  "edge_target_of s = (if s = END then TargetEnd else TargetNode s)"

definition edge_node_name :: "edge_target \<Rightarrow> string option" where
  "edge_node_name t = (case t of TargetNode n \<Rightarrow> Some n | TargetEnd \<Rightarrow> None)"

type_synonym router_fn = "graph_state \<Rightarrow> string"

datatype graph_edge =
  DirectEdge string edge_target
| ConditionalEdge string router_fn "(string, edge_target) table"
| EntryEdge "string list"

definition route_by_field :: "string \<Rightarrow> router_fn" where
  "route_by_field field st =
     (case Option.bind (lookup st field) json_as_str of Some s \<Rightarrow> s | None \<Rightarrow> END)"

definition route_by_bool :: "string \<Rightarrow> string \<Rightarrow> string \<Rightarrow> router_fn" where
  "route_by_bool field if_true if_false st =
     (if lookup st field = Some (JBool True) then if_true else if_false)"

definition route_has_tool_calls :: "string \<Rightarrow> string \<Rightarrow> string \<Rightarrow> router_fn" where
  "route_has_tool_calls field if_true if_false st =
     (let calls = (case lookup st field of
                     Some (JArray arr) \<Rightarrow> if arr = [] then None else json_get (List.last arr) ''tool_calls''
                   | _ \<Rightarrow> None) in
      case calls of
        Some (JArray a) \<Rightarrow> if a \<noteq> [] then if_true else if_false
      | _ \<Rightarrow> if_false)"

definition route_on_error :: "string \<Rightarrow> string \<Rightarrow> string \<Rightarrow> router_fn" where
  "route_on_error field error_target success_target st =
     (case lookup st field of
        Some v \<Rightarrow> if v \<noteq> JNull then error_target else success_target
      | None \<Rightarrow> success_target)"

section \<open>Policies\<close>

datatype retry_on = RetryAny | RetryTimeout | RetryCustom "graph_error \<Rightarrow> bool"

definition should_retry :: "retry_on \<Rightarrow> graph_error \<Rightarrow> bool" where
  "should_retry r e =
     (case e of
        Interrupted _ \<Rightarrow> False
      | _ \<Rightarrow> (case r of RetryAny \<Rightarrow> True
                 | RetryTimeout \<Rightarrow> (case e of NodeTimedOut _ _ \<Rightarrow> True | _ \<Rightarrow> False)
                 | RetryCustom f \<Rightarrow> f e))"

text \<open>The delays of a policy only pass time and are left out.\<close>

record retry_policy =
  ry_max_attempts :: nat
  ry_retry_on :: retry_on

definition allows_another_attempt :: "retry_policy \<Rightarrow> nat \<Rightarrow> bool" where
  "allows_another_attempt p attempts_so_far \<longleftrightarrow> attempts_so_far < ry_max_attempts p"

datatype on_timeout = TimeoutFail | TimeoutRetry nat | TimeoutSkip

record timeout_policy =
  tp_run :: "dur option"
  tp_idle :: "dur option"
  tp_on :: on_timeout

datatype durability = DurableExit | DurableAsync | DurableSync

record retention_policy =
  rp_max_per_thread :: "nat option"
  rp_max_age :: "dur option"

section \<open>Runs and nodes\<close>

record execution_config =
  xc_thread_id :: string
  xc_resume_from :: "string option"
  xc_resume_values :: "(string, json) table"
  xc_recursion_limit :: "nat option"
  xc_durability :: durability

definition execution_config_new :: "string \<Rightarrow> execution_config" where
  "execution_config_new thread_id =
     \<lparr>xc_thread_id = thread_id, xc_resume_from = None, xc_resume_values = [], xc_recursion_limit = None,
      xc_durability = DurableSync\<rparr>"

record node_context =
  nx_state :: graph_state
  nx_config :: execution_config
  nx_step :: nat
  nx_resume_value :: "json option"

text \<open>
  What a node sees and changes while it runs: the outputs of children recorded under its activation, and
  the world. An execution raced against timers ends with the node's result or, when a timer fired first,
  with the time elapsed; \<open>gn_limited\<close> is that race for given limits.
\<close>

type_synonym child_ledger = "(string, json) table"

record 'w graph_node =
  gn_validate :: "unit gresult"
  gn_validate_against :: "state_schema \<Rightarrow> unit gresult"
  gn_execute :: "node_context \<Rightarrow> child_ledger \<times> 'w \<Rightarrow> node_output gresult \<times> (child_ledger \<times> 'w)"
  gn_limited :: "dur option \<Rightarrow> dur option \<Rightarrow> node_context \<Rightarrow> child_ledger \<times> 'w
                 \<Rightarrow> (dur + node_output gresult) \<times> (child_ledger \<times> 'w)"

record 'w checkpointer =
  ck_save :: "graph_checkpoint \<Rightarrow> 'w \<Rightarrow> string gresult \<times> 'w"
  ck_load :: "string \<Rightarrow> 'w \<Rightarrow> graph_checkpoint option gresult \<times> 'w"
  ck_load_by_id :: "string \<Rightarrow> 'w \<Rightarrow> graph_checkpoint option gresult \<times> 'w"
  ck_list :: "string \<Rightarrow> 'w \<Rightarrow> graph_checkpoint list gresult \<times> 'w"
  ck_delete :: "string \<Rightarrow> 'w \<Rightarrow> unit gresult \<times> 'w"
  ck_prune :: "string \<Rightarrow> retention_policy \<Rightarrow> 'w \<Rightarrow> nat gresult \<times> 'w"

type_synonym node_error_handler = "string \<Rightarrow> graph_error \<Rightarrow> graph_state \<Rightarrow> node_output gresult"

section \<open>Building a graph\<close>

record 'w state_graph =
  sg_schema :: state_schema
  sg_nodes :: "(string, 'w graph_node) table"
  sg_edges :: "graph_edge list"
  sg_deferred :: "(string, deferred_config) table"

definition state_graph_new :: "state_schema \<Rightarrow> 'w state_graph" where
  "state_graph_new sch = \<lparr>sg_schema = sch, sg_nodes = [], sg_edges = [], sg_deferred = []\<rparr>"

definition add_node :: "string \<Rightarrow> 'w graph_node \<Rightarrow> 'w state_graph \<Rightarrow> 'w state_graph" where
  "add_node name n g = g\<lparr>sg_nodes := AList.update name n (sg_nodes g)\<rparr>"

definition mark_deferred :: "string \<Rightarrow> deferred_config \<Rightarrow> 'w state_graph \<Rightarrow> 'w state_graph" where
  "mark_deferred name cf g = g\<lparr>sg_deferred := AList.update name cf (sg_deferred g)\<rparr>"

fun is_entry :: "graph_edge \<Rightarrow> bool" where
  "is_entry (EntryEdge _) = True"
| "is_entry _ = False"

text \<open>The first entry edge gains the target; without one, an edge to a node makes one.\<close>

fun add_entry_target :: "string \<Rightarrow> graph_edge list \<Rightarrow> graph_edge list" where
  "add_entry_target n [] = []"
| "add_entry_target n (EntryEdge ts # es) = EntryEdge (if n \<in> set ts then ts else ts @ [n]) # es"
| "add_entry_target n (e # es) = e # add_entry_target n es"

definition add_edge :: "string \<Rightarrow> string \<Rightarrow> 'w state_graph \<Rightarrow> 'w state_graph" where
  "add_edge source dest g =
     (let target = edge_target_of dest in
      if source = START then
        (case target of
           TargetEnd \<Rightarrow> g
         | TargetNode n \<Rightarrow>
             if list_ex is_entry (sg_edges g) then g\<lparr>sg_edges := add_entry_target n (sg_edges g)\<rparr>
             else g\<lparr>sg_edges := sg_edges g @ [EntryEdge [n]]\<rparr>)
      else g\<lparr>sg_edges := sg_edges g @ [DirectEdge source target]\<rparr>)"

definition add_conditional_edges :: "string \<Rightarrow> router_fn \<Rightarrow> (string \<times> string) list \<Rightarrow> 'w state_graph \<Rightarrow> 'w state_graph" where
  "add_conditional_edges source router targets g =
     g\<lparr>sg_edges := sg_edges g @
        [ConditionalEdge source router (fold (\<lambda>(k, v). AList.update k (edge_target_of v)) targets [])]\<rparr>"

text \<open>The first error a check reports, in list order.\<close>

fun first_error :: "('a \<Rightarrow> 'e option) \<Rightarrow> 'a list \<Rightarrow> 'e option" where
  "first_error f [] = None"
| "first_error f (x # xs) = (case f x of Some e \<Rightarrow> Some e | None \<Rightarrow> first_error f xs)"

definition target_error :: "(string, 'w graph_node) table \<Rightarrow> edge_target \<Rightarrow> graph_error option" where
  "target_error nodes t =
     (case t of
        TargetNode n \<Rightarrow> if lookup nodes n = None then Some (EdgeTargetNotFound n) else None
      | TargetEnd \<Rightarrow> None)"

definition edge_error :: "(string, 'w graph_node) table \<Rightarrow> graph_edge \<Rightarrow> graph_error option" where
  "edge_error nodes e =
     (case e of
        DirectEdge source t \<Rightarrow>
          if source \<noteq> START \<and> lookup nodes source = None then Some (NodeNotFound source) else target_error nodes t
      | ConditionalEdge source _ targets \<Rightarrow>
          if lookup nodes source = None then Some (NodeNotFound source)
          else first_error (target_error nodes) (map snd targets)
      | EntryEdge targets \<Rightarrow> first_error (\<lambda>t. target_error nodes (TargetNode t)) targets)"

definition error_of :: "unit gresult \<Rightarrow> graph_error option" where
  "error_of r = (case r of Inl e \<Rightarrow> Some e | Inr _ \<Rightarrow> None)"

definition validate_graph :: "'w state_graph \<Rightarrow> graph_error option" where
  "validate_graph g =
     (if \<not> list_ex is_entry (sg_edges g) then Some NoEntryPoint
      else case first_error (\<lambda>n. error_of (gn_validate n)) (map snd (sg_nodes g)) of
        Some e \<Rightarrow> Some e
      | None \<Rightarrow> first_error (edge_error (sg_nodes g)) (sg_edges g))"

fun edge_in_targets :: "graph_edge \<Rightarrow> string list" where
  "edge_in_targets (DirectEdge _ t) = (case edge_node_name t of Some n \<Rightarrow> [n] | None \<Rightarrow> [])"
| "edge_in_targets (EntryEdge ts) = ts"
| "edge_in_targets (ConditionalEdge _ _ _) = []"

definition in_degree :: "graph_edge list \<Rightarrow> string \<Rightarrow> nat" where
  "in_degree es n = count_list (concat (map edge_in_targets es)) n"

text \<open>\<^verbatim>\<open>entry(name).or_default()\<close> for every join; the order of a hash map is that of the edges here.\<close>

definition defer_unconditional_fan_in :: "'w state_graph \<Rightarrow> 'w state_graph" where
  "defer_unconditional_fan_in g =
     g\<lparr>sg_deferred :=
        fold (\<lambda>n d. if lookup d n = None then AList.update n deferred_config_default d else d)
          [n \<leftarrow> remdups (concat (map edge_in_targets (sg_edges g))).
             1 < in_degree (sg_edges g) n \<and> lookup (sg_nodes g) n \<noteq> None]
          (sg_deferred g)\<rparr>"

section \<open>Compiled graphs\<close>

record 'w compiled_graph =
  cg_schema :: state_schema
  cg_nodes :: "(string, 'w graph_node) table"
  cg_edges :: "graph_edge list"
  cg_checkpointer :: "'w checkpointer option"
  cg_interrupt_before :: "string list"
  cg_interrupt_after :: "string list"
  cg_recursion_limit :: nat
  cg_timeout_policies :: "(string, timeout_policy) table"
  cg_default_timeout :: "timeout_policy option"
  cg_default_retry :: "retry_policy option"
  cg_error_handlers :: "(string, node_error_handler) table"
  cg_default_error_handler :: "node_error_handler option"
  cg_deferred :: "(string, deferred_config) table"
  cg_max_concurrency :: "nat option"
  cg_retry_policies :: "(string, retry_policy) table"
  cg_node_effects :: "(string, tool_effect) table"
  cg_strict_channels :: bool
  cg_retention :: "retention_policy option"

definition compile_graph :: "'w state_graph \<Rightarrow> 'w compiled_graph gresult" where
  "compile_graph g =
     (case first_error (\<lambda>n. error_of (gn_validate_against n (sg_schema g))) (map snd (sg_nodes g)) of
        Some e \<Rightarrow> Inl e
      | None \<Rightarrow>
          (case validate_graph g of
             Some e \<Rightarrow> Inl e
           | None \<Rightarrow>
               Inr \<lparr>cg_schema = sg_schema g, cg_nodes = sg_nodes g, cg_edges = sg_edges g,
                 cg_checkpointer = None, cg_interrupt_before = [], cg_interrupt_after = [],
                 cg_recursion_limit = 100, cg_timeout_policies = [], cg_default_timeout = None,
                 cg_default_retry = None, cg_error_handlers = [], cg_default_error_handler = None,
                 cg_deferred = sg_deferred (defer_unconditional_fan_in g), cg_max_concurrency = None,
                 cg_retry_policies = [], cg_node_effects = [], cg_strict_channels = False,
                 cg_retention = None\<rparr>))"

definition or_else :: "'a option \<Rightarrow> 'a option \<Rightarrow> 'a option" where
  "or_else a b = (case a of Some x \<Rightarrow> Some x | None \<Rightarrow> b)"

definition error_handler_for :: "'w compiled_graph \<Rightarrow> string \<Rightarrow> node_error_handler option" where
  "error_handler_for g n = or_else (lookup (cg_error_handlers g) n) (cg_default_error_handler g)"

definition retry_policy_for :: "'w compiled_graph \<Rightarrow> string \<Rightarrow> retry_policy option" where
  "retry_policy_for g n = or_else (lookup (cg_retry_policies g) n) (cg_default_retry g)"

definition timeout_policy_for :: "'w compiled_graph \<Rightarrow> string \<Rightarrow> timeout_policy option" where
  "timeout_policy_for g n = or_else (lookup (cg_timeout_policies g) n) (cg_default_timeout g)"

fun first_entry :: "graph_edge list \<Rightarrow> string list" where
  "first_entry [] = []"
| "first_entry (EntryEdge ts # es) = ts"
| "first_entry (e # es) = first_entry es"

definition get_entry_nodes :: "'w compiled_graph \<Rightarrow> string list" where
  "get_entry_nodes g = first_entry (cg_edges g)"

section \<open>Routes\<close>

type_synonym route = "string \<times> string"

text \<open>Keeps the first of equal routes or names.\<close>

definition push_new :: "'a \<Rightarrow> 'a list \<Rightarrow> 'a list" where
  "push_new x xs = (if x \<in> set xs then xs else xs @ [x])"

text \<open>The text of the error carries the declared route names, as \<^verbatim>\<open>Debug\<close> prints a list of strings.\<close>

definition unknown_route :: "(string list \<Rightarrow> string) \<Rightarrow> string \<Rightarrow> string \<Rightarrow> string list \<Rightarrow> graph_error" where
  "unknown_route dbg source route declared =
     UnknownRouteTarget (''node '' @ quoted source @ '' routed to '' @ quoted route @
       '', which is not a declared target. Declared: '' @ dbg declared)"

definition edge_routes ::
    "(string list \<Rightarrow> string) \<Rightarrow> string list \<Rightarrow> graph_state \<Rightarrow> graph_edge \<Rightarrow> route list \<Rightarrow> route list gresult" where
  "edge_routes dbg executed st e routes =
     (case e of
        DirectEdge source (TargetNode n) \<Rightarrow>
          Inr (if source \<in> set executed then push_new (source, n) routes else routes)
      | ConditionalEdge source router targets \<Rightarrow>
          if source \<in> set executed then
            (let route = router st in
             case lookup targets route of
               Some (TargetNode n) \<Rightarrow> Inr (push_new (source, n) routes)
             | Some TargetEnd \<Rightarrow> Inr routes
             | None \<Rightarrow> Inl (unknown_route dbg source route (sort (keys targets))))
          else Inr routes
      | _ \<Rightarrow> Inr routes)"

fun routes_along ::
    "(string list \<Rightarrow> string) \<Rightarrow> string list \<Rightarrow> graph_state \<Rightarrow> graph_edge list \<Rightarrow> route list \<Rightarrow> route list gresult" where
  "routes_along dbg executed st [] routes = Inr routes"
| "routes_along dbg executed st (e # es) routes =
     result_bind (edge_routes dbg executed st e routes) (routes_along dbg executed st es)"

definition routes_from :: "(string list \<Rightarrow> string) \<Rightarrow> 'w compiled_graph \<Rightarrow> string list \<Rightarrow> graph_state \<Rightarrow> route list gresult" where
  "routes_from dbg g executed st = routes_along dbg executed st (cg_edges g) []"

fun edge_successors :: "graph_edge \<Rightarrow> string \<Rightarrow> string list" where
  "edge_successors (DirectEdge source t) n = (if source = n then (case edge_node_name t of Some m \<Rightarrow> [m] | None \<Rightarrow> []) else [])"
| "edge_successors (ConditionalEdge source _ targets) n =
     (if source = n then List.map_filter edge_node_name (map snd targets) else [])"
| "edge_successors (EntryEdge _) n = []"

definition edge_list_successors :: "graph_edge list \<Rightarrow> string \<Rightarrow> string list" where
  "edge_list_successors es n = concat (map (\<lambda>e. edge_successors e n) es)"

definition successor_map :: "'w compiled_graph \<Rightarrow> string \<Rightarrow> string list" where
  "successor_map g = edge_list_successors (cg_edges g)"

fun edge_sources :: "string \<Rightarrow> graph_edge \<Rightarrow> string list" where
  "edge_sources n (DirectEdge source t) = (if t = TargetNode n then [source] else [])"
| "edge_sources n (ConditionalEdge source _ targets) = (if TargetNode n \<in> set (map snd targets) then [source] else [])"
| "edge_sources n (EntryEdge _) = []"

definition get_upstream_nodes :: "'w compiled_graph \<Rightarrow> string \<Rightarrow> string list" where
  "get_upstream_nodes g n = fold push_new (concat (map (edge_sources n) (cg_edges g))) []"

end
