(* ===== verification/Graph_Dispatch.thy ===== *)
theory Graph_Dispatch
  imports Graph_Def
begin

text \<open>
  The concurrent dispatch of a super-step (\<^verbatim>\<open>execute_super_step\<close> in \<^verbatim>\<open>adk-graph/src/executor.rs\<close>, with
  \<^verbatim>\<open>execute_with_timeout\<close> of \<^verbatim>\<open>timeout.rs\<close>): tasks are admitted in order, at most \<open>n\<close> at once; a task
  attempts its node, backs off and attempts it again as its policies allow; a failure nobody recovers stops
  tasks that have not started and ends the waits of those that back off.

  One attempt is one step; \<open>att\<close> relates a task and the world before it to the result and the world after
  it, so it covers whatever nodes do to each other. \<open>dispatch_in_order\<close> is the dispatch under a limit of one.
\<close>

section \<open>One attempt\<close>

record 'w node_task =
  tk_name :: string
  tk_node :: "'w graph_node"
  tk_context :: node_context
  tk_timeout :: "timeout_policy option"
  tk_retry :: "retry_policy option"
  tk_spent :: nat
  tk_recoverable :: bool

type_synonym node_result = "string \<times> node_output gresult option \<times> nat"

definition execute_once_with_timeout ::
    "string \<Rightarrow> 'w graph_node \<Rightarrow> node_context \<Rightarrow> timeout_policy \<Rightarrow> child_ledger \<times> 'w
     \<Rightarrow> node_output gresult \<times> (child_ledger \<times> 'w)" where
  "execute_once_with_timeout name n cx p w =
     (case gn_limited n (tp_run p) (tp_idle p) cx w of
        (Inl elapsed, w') \<Rightarrow> (Inl (NodeTimedOut name elapsed), w')
      | (Inr r, w') \<Rightarrow> (r, w'))"

text \<open>The attempts a timeout policy makes, counting from \<open>attempts\<close>.\<close>

function timed_attempts ::
    "string \<Rightarrow> 'w graph_node \<Rightarrow> node_context \<Rightarrow> timeout_policy \<Rightarrow> nat \<Rightarrow> child_ledger \<times> 'w
     \<Rightarrow> node_output gresult \<times> (child_ledger \<times> 'w)" where
  "timed_attempts name n cx p attempts w =
     (case execute_once_with_timeout name n cx p w of
        (Inl (NodeTimedOut m d), w') \<Rightarrow>
          (case tp_on p of
             TimeoutFail \<Rightarrow> (Inl (NodeTimedOut m d), w')
           | TimeoutRetry m_at \<Rightarrow>
               if m_at \<le> Suc attempts then (Inl (NodeTimedOut m d), w')
               else timed_attempts name n cx p (Suc attempts) w'
           | TimeoutSkip \<Rightarrow> (Inr node_output_new, w'))
      | (r, w') \<Rightarrow> (r, w'))"
  by pat_completeness auto
termination
  by (relation "measure (\<lambda>(_, _, _, p, attempts, _). (case tp_on p of TimeoutRetry m \<Rightarrow> m | _ \<Rightarrow> 0) - attempts)") auto

declare timed_attempts.simps [simp del]

definition execute_with_timeout ::
    "string \<Rightarrow> 'w graph_node \<Rightarrow> node_context \<Rightarrow> timeout_policy \<Rightarrow> child_ledger \<times> 'w
     \<Rightarrow> node_output gresult \<times> (child_ledger \<times> 'w)" where
  "execute_with_timeout name n cx p w =
     (if tp_run p = None \<and> tp_idle p = None then gn_execute n cx w else timed_attempts name n cx p 0 w)"

definition attempt_node :: "'w node_task \<Rightarrow> child_ledger \<times> 'w \<Rightarrow> node_output gresult \<times> (child_ledger \<times> 'w)" where
  "attempt_node t w =
     (case tk_timeout t of
        Some p \<Rightarrow> execute_with_timeout (tk_name t) (tk_node t) (tk_context t) p w
      | None \<Rightarrow> gn_execute (tk_node t) (tk_context t) w)"

definition may_retry :: "'w node_task \<Rightarrow> graph_error \<Rightarrow> nat \<Rightarrow> bool" where
  "may_retry t e attempts \<longleftrightarrow>
     (case tk_retry t of
        Some p \<Rightarrow> allows_another_attempt p attempts \<and> should_retry (ry_retry_on p) e
      | None \<Rightarrow> False)"

section \<open>The concurrent dispatch\<close>

text \<open>A running task with the attempts it has spent; while it backs off, with the error it failed with.\<close>

type_synonym 'w running_task = "'w node_task \<times> nat \<times> graph_error option"

record 'w dispatch_state =
  ds_waiting :: "'w node_task list"
  ds_running :: "'w running_task list"
  ds_failed :: bool
  ds_results :: "node_result list"
  ds_world :: "child_ledger \<times> 'w"

definition finish_task :: "'w node_task \<Rightarrow> node_output gresult \<Rightarrow> nat \<Rightarrow> 'w running_task list \<Rightarrow> 'w dispatch_state \<Rightarrow> 'w dispatch_state" where
  "finish_task t r attempts rest s =
     s\<lparr>ds_running := rest,
       ds_failed := ds_failed s \<or> (case r of Inl _ \<Rightarrow> \<not> tk_recoverable t | Inr _ \<Rightarrow> False),
       ds_results := ds_results s @ [(tk_name t, Some r, attempts)]\<rparr>"

inductive dispatch_step ::
    "('w node_task \<Rightarrow> child_ledger \<times> 'w \<Rightarrow> node_output gresult \<times> (child_ledger \<times> 'w) \<Rightarrow> bool) \<Rightarrow> nat
     \<Rightarrow> 'w dispatch_state \<Rightarrow> 'w dispatch_state \<Rightarrow> bool" for att n where
  not_started: "ds_waiting s = t # ts \<Longrightarrow> length (ds_running s) < n \<Longrightarrow> ds_failed s \<Longrightarrow>
    dispatch_step att n s (s\<lparr>ds_waiting := ts, ds_results := ds_results s @ [(tk_name t, None, tk_spent t)]\<rparr>)"
| started: "ds_waiting s = t # ts \<Longrightarrow> length (ds_running s) < n \<Longrightarrow> \<not> ds_failed s \<Longrightarrow>
    dispatch_step att n s (s\<lparr>ds_waiting := ts, ds_running := ds_running s @ [(t, tk_spent t, None)]\<rparr>)"
| attempted: "ds_running s = xs @ (t, a, None) # ys \<Longrightarrow> att t (ds_world s) (r, w) \<Longrightarrow>
    \<not> (\<exists>e. r = Inl e \<and> may_retry t e (Suc a)) \<or> ds_failed s \<Longrightarrow>
    dispatch_step att n s (finish_task t r (Suc a) (xs @ ys) (s\<lparr>ds_world := w\<rparr>))"
| backs_off: "ds_running s = xs @ (t, a, None) # ys \<Longrightarrow> att t (ds_world s) (Inl e, w) \<Longrightarrow>
    may_retry t e (Suc a) \<Longrightarrow> \<not> ds_failed s \<Longrightarrow>
    dispatch_step att n s (s\<lparr>ds_running := xs @ (t, Suc a, Some e) # ys, ds_world := w\<rparr>)"
| backed_off: "ds_running s = xs @ (t, a, Some e) # ys \<Longrightarrow>
    dispatch_step att n s (s\<lparr>ds_running := xs @ (t, a, None) # ys\<rparr>)"
| abandoned: "ds_running s = xs @ (t, a, Some e) # ys \<Longrightarrow> ds_failed s \<Longrightarrow>
    dispatch_step att n s (finish_task t (Inl e) a (xs @ ys) s)"

definition dispatch_start :: "'w node_task list \<Rightarrow> child_ledger \<times> 'w \<Rightarrow> 'w dispatch_state" where
  "dispatch_start ts w = \<lparr>ds_waiting = ts, ds_running = [], ds_failed = False, ds_results = [], ds_world = w\<rparr>"

definition dispatch_ended :: "'w dispatch_state \<Rightarrow> bool" where
  "dispatch_ended s \<longleftrightarrow> ds_waiting s = [] \<and> ds_running s = []"

section \<open>One task at a time\<close>

text \<open>The attempts of a task no sibling interrupts, after \<open>a\<close> of them. A task without a policy runs once.\<close>

function attempts_alone ::
    "('w node_task \<Rightarrow> child_ledger \<times> 'w \<Rightarrow> node_output gresult \<times> (child_ledger \<times> 'w)) \<Rightarrow> 'w node_task \<Rightarrow> nat
     \<Rightarrow> child_ledger \<times> 'w \<Rightarrow> (node_output gresult \<times> nat) \<times> (child_ledger \<times> 'w)" where
  "attempts_alone att t a w =
     (case att t w of
        (Inl e, w') \<Rightarrow> if may_retry t e (Suc a) then attempts_alone att t (Suc a) w' else ((Inl e, Suc a), w')
      | (Inr out, w') \<Rightarrow> ((Inr out, Suc a), w'))"
  by pat_completeness auto
termination
  by (relation "measure (\<lambda>(_, t, a, _). (case tk_retry t of Some p \<Rightarrow> ry_max_attempts p | None \<Rightarrow> 0) - a)")
    (auto simp: may_retry_def allows_another_attempt_def split: option.splits)

declare attempts_alone.simps [simp del]

fun dispatch_in_order ::
    "('w node_task \<Rightarrow> child_ledger \<times> 'w \<Rightarrow> node_output gresult \<times> (child_ledger \<times> 'w)) \<Rightarrow> bool \<Rightarrow> 'w node_task list
     \<Rightarrow> child_ledger \<times> 'w \<Rightarrow> node_result list \<times> (child_ledger \<times> 'w)" where
  "dispatch_in_order att failed [] w = ([], w)"
| "dispatch_in_order att failed (t # ts) w =
     (if failed then (let (rs, w') = dispatch_in_order att True ts w in ((tk_name t, None, tk_spent t) # rs, w'))
      else
        (let ((r, a), w') = attempts_alone att t (tk_spent t) w;
             (rs, w'') = dispatch_in_order att (case r of Inl _ \<Rightarrow> \<not> tk_recoverable t | Inr _ \<Rightarrow> False) ts w' in
         ((tk_name t, Some r, a) # rs, w'')))"

section \<open>What a dispatch returns\<close>

text \<open>
  Every task has one result. A task counts its attempts from those it had spent, at most up to its
  budget, and only a task whose sibling failed beyond recovery has none.
\<close>

definition attempts_within :: "'w node_task \<Rightarrow> nat \<Rightarrow> bool" where
  "attempts_within t a \<longleftrightarrow>
     tk_spent t < a \<and> a \<le> max (Suc (tk_spent t)) (case tk_retry t of Some p \<Rightarrow> ry_max_attempts p | None \<Rightarrow> 0)"

definition result_within :: "'w node_task list \<Rightarrow> node_result list \<Rightarrow> node_result \<Rightarrow> bool" where
  "result_within ts rs = (\<lambda>(m, r, a). \<exists>t \<in> set ts. tk_name t = m \<and>
     (case r of
        Some _ \<Rightarrow> attempts_within t a
      | None \<Rightarrow> a = tk_spent t \<and> (\<exists>t' \<in> set ts. \<not> tk_recoverable t' \<and> (\<exists>e b. (tk_name t', Some (Inl e), b) \<in> set rs))))"

definition dispatch_fits :: "'w node_task list \<Rightarrow> node_result list \<Rightarrow> bool" where
  "dispatch_fits ts rs \<longleftrightarrow> mset (map fst rs) = mset (map tk_name ts) \<and> list_all (result_within ts rs) rs"

definition dispatch_inv :: "'w node_task list \<Rightarrow> 'w dispatch_state \<Rightarrow> bool" where
  "dispatch_inv ts s \<longleftrightarrow>
     mset (map fst (ds_results s)) + mset (map (tk_name \<circ> fst) (ds_running s)) + mset (map tk_name (ds_waiting s)) = mset (map tk_name ts) \<and>
     set (ds_waiting s) \<subseteq> set ts \<and>
     (\<forall>(t, a, b) \<in> set (ds_running s). t \<in> set ts \<and> tk_spent t \<le> a \<and>
        (b = None \<longrightarrow> a = tk_spent t \<or> (\<exists>p. tk_retry t = Some p \<and> a < ry_max_attempts p)) \<and>
        (b \<noteq> None \<longrightarrow> tk_spent t < a \<and> (\<exists>p. tk_retry t = Some p \<and> a < ry_max_attempts p))) \<and>
     (ds_failed s \<longrightarrow> (\<exists>t' \<in> set ts. \<not> tk_recoverable t' \<and> (\<exists>e b. (tk_name t', Some (Inl e), b) \<in> set (ds_results s)))) \<and>
     list_all (result_within ts (ds_results s)) (ds_results s)"

lemma result_within_mono: "result_within ts rs x \<Longrightarrow> set rs \<subseteq> set rs' \<Longrightarrow> result_within ts rs' x"
  unfolding result_within_def by (cases x) (fastforce split: option.splits)

lemma results_within_mono:
  "list_all (result_within ts rs) xs \<Longrightarrow> set rs \<subseteq> set rs' \<Longrightarrow> list_all (result_within ts rs') xs"
  by (auto simp: list_all_iff intro: result_within_mono)

lemma dispatch_inv_start: "dispatch_inv ts (dispatch_start ts w)"
  by (simp add: dispatch_inv_def dispatch_start_def)

lemma dispatch_inv_finish:
  assumes inv: "dispatch_inv ts s" and run: "ds_running s = xs @ (t, a, b) # ys" and att: "attempts_within t a'"
  shows "dispatch_inv ts (finish_task t r a' (xs @ ys) (s\<lparr>ds_world := w\<rparr>))"
proof -
  have t: "t \<in> set ts" using inv run by (auto simp: dispatch_inv_def)
  let ?rs = "ds_results s @ [(tk_name t, Some r, a')]"
  have "result_within ts ?rs (tk_name t, Some r, a')"
    using t att by (auto simp: result_within_def)
  moreover have "list_all (result_within ts ?rs) (ds_results s)"
    using inv by (auto simp: dispatch_inv_def elim: results_within_mono)
  moreover have "\<exists>t' \<in> set ts. \<not> tk_recoverable t' \<and> (\<exists>e b. (tk_name t', Some (Inl e), b) \<in> set ?rs)"
    if "ds_failed s \<or> (case r of Inl _ \<Rightarrow> \<not> tk_recoverable t | Inr _ \<Rightarrow> False)"
    using that inv t by (fastforce simp: dispatch_inv_def split: sum.splits)
  ultimately show ?thesis using inv run by (auto simp: dispatch_inv_def finish_task_def)
qed

lemma dispatch_inv_step:
  assumes "dispatch_step att n s s'" "dispatch_inv ts s"
  shows "dispatch_inv ts s'"
  using assms
proof (cases rule: dispatch_step.cases)
  case (not_started t rest)
  let ?rs = "ds_results s @ [(tk_name t, None, tk_spent t)]"
  have "result_within ts ?rs (tk_name t, None, tk_spent t)"
    using assms(2) not_started by (fastforce simp: dispatch_inv_def result_within_def)
  moreover have "list_all (result_within ts ?rs) (ds_results s)"
    using assms(2) by (auto simp: dispatch_inv_def elim: results_within_mono)
  ultimately show ?thesis using assms(2) not_started by (fastforce simp: dispatch_inv_def)
next
  case (started t rest)
  with assms(2) show ?thesis by (auto simp: dispatch_inv_def)
next
  case (attempted xs t a ys r w)
  then have "attempts_within t (Suc a)"
    using assms(2) by (auto simp: dispatch_inv_def attempts_within_def max_def)
  with dispatch_inv_finish [OF assms(2), of xs t a None ys "Suc a" r w] attempted show ?thesis by simp
next
  case (backs_off xs t a ys e w)
  then have "\<exists>p. tk_retry t = Some p \<and> Suc a < ry_max_attempts p"
    by (auto simp: may_retry_def allows_another_attempt_def split: option.splits)
  with assms(2) backs_off show ?thesis by (auto simp: dispatch_inv_def)
next
  case (backed_off xs t a e ys)
  with assms(2) show ?thesis by (auto simp: dispatch_inv_def)
next
  case (abandoned xs t a e ys)
  then have "attempts_within t a" using assms(2) by (fastforce simp: dispatch_inv_def attempts_within_def)
  with dispatch_inv_finish [OF assms(2), of xs t a "Some e" ys a "Inl e" "ds_world s"] abandoned show ?thesis by simp
qed

lemma dispatch_inv_steps: "(dispatch_step att n)\<^sup>*\<^sup>* s s' \<Longrightarrow> dispatch_inv ts s \<Longrightarrow> dispatch_inv ts s'"
  by (induction rule: rtranclp_induct) (auto intro: dispatch_inv_step)

lemma dispatch_ends_fitting:
  assumes "(dispatch_step att n)\<^sup>*\<^sup>* (dispatch_start ts w) s" "dispatch_ended s"
  shows "dispatch_fits ts (ds_results s)"
  using dispatch_inv_steps [OF assms(1) dispatch_inv_start] assms(2)
  by (auto simp: dispatch_inv_def dispatch_ended_def dispatch_fits_def)

section \<open>One at a time is one of its schedules\<close>

lemma attempts_alone_steps:
  assumes "attempts_alone att t a w = ((r, a'), w')" "ds_running s = [(t, a, None)]" "\<not> ds_failed s" "ds_world s = w"
  shows "(dispatch_step (\<lambda>t w p. p = att t w) n)\<^sup>*\<^sup>* s (finish_task t r a' [] (s\<lparr>ds_world := w'\<rparr>))"
  using assms
proof (induction att t a w arbitrary: s rule: attempts_alone.induct)
  case (1 att t a w)
  let ?step = "dispatch_step (\<lambda>t w p. p = att t w) n"
  obtain q w1 where at: "att t w = (q, w1)" by (metis surj_pair)
  show ?case
  proof (cases "\<exists>e. q = Inl e \<and> may_retry t e (Suc a)")
    case False
    then have res: "r = q" "a' = Suc a" "w' = w1"
      using "1.prems"(1) at by (auto simp: attempts_alone.simps [of att t a w] split: sum.splits if_splits)
    have "?step s (finish_task t q (Suc a) ([] @ []) (s\<lparr>ds_world := w1\<rparr>))"
      using False "1.prems" at by (intro dispatch_step.attempted) auto
    with res show ?thesis by simp
  next
    case True
    then obtain e where e: "q = Inl e" "may_retry t e (Suc a)" by blast
    let ?s1 = "s\<lparr>ds_running := [] @ (t, Suc a, Some e) # [], ds_world := w1\<rparr>"
    let ?s2 = "?s1\<lparr>ds_running := [] @ (t, Suc a, None) # []\<rparr>"
    have "?step s ?s1" using "1.prems" at e by (intro dispatch_step.backs_off) auto
    moreover have "?step ?s1 ?s2" by (intro dispatch_step.backed_off) auto
    moreover have "?step\<^sup>*\<^sup>* ?s2 (finish_task t r a' [] (?s2\<lparr>ds_world := w'\<rparr>))"
      using "1.prems" at e by (intro "1.IH") (auto simp: attempts_alone.simps [of att t a w])
    moreover have "finish_task t r a' [] (?s2\<lparr>ds_world := w'\<rparr>) = finish_task t r a' [] (s\<lparr>ds_world := w'\<rparr>)"
      by (simp add: finish_task_def)
    ultimately show ?thesis by (metis (no_types, lifting) converse_rtranclp_into_rtranclp)
  qed
qed

lemma dispatch_in_order_steps:
  assumes "dispatch_in_order att (ds_failed s) ts (ds_world s) = (rs, w')" "ds_waiting s = ts" "ds_running s = []"
  shows "\<exists>f. (dispatch_step (\<lambda>t w p. p = att t w) 1)\<^sup>*\<^sup>* s
    (s\<lparr>ds_waiting := [], ds_failed := f, ds_results := ds_results s @ rs, ds_world := w'\<rparr>)"
  using assms
proof (induction ts arbitrary: s rs)
  case Nil
  then have "s\<lparr>ds_waiting := [], ds_failed := ds_failed s, ds_results := ds_results s @ rs, ds_world := w'\<rparr> = s"
    by (intro dispatch_state.equality) auto
  then show ?case by (metis rtranclp.rtrancl_refl)
next
  case (Cons t ts)
  let ?step = "dispatch_step (\<lambda>t w p. p = att t w) 1"
  let ?goal = "\<lambda>s1 rs1 f. s1\<lparr>ds_waiting := [], ds_failed := f, ds_results := ds_results s1 @ rs1, ds_world := w'\<rparr>"
  have via: ?case if "?step\<^sup>*\<^sup>* s s1" "dispatch_in_order att (ds_failed s1) ts (ds_world s1) = (rs1, w')"
    "ds_waiting s1 = ts" "ds_running s1 = []" "\<And>f. ?goal s1 rs1 f = ?goal s rs f" for s1 rs1
    using Cons.IH [OF that(2-4)] that(1,5) by (metis (no_types, lifting) rtranclp_trans)
  show ?case
  proof (cases "ds_failed s")
    case True
    then obtain rs1 where rs1: "dispatch_in_order att True ts (ds_world s) = (rs1, w')" "rs = (tk_name t, None, tk_spent t) # rs1"
      using Cons.prems(1) by (auto split: prod.splits)
    let ?s1 = "s\<lparr>ds_waiting := ts, ds_results := ds_results s @ [(tk_name t, None, tk_spent t)]\<rparr>"
    have "?step s ?s1" using Cons.prems True by (intro dispatch_step.not_started) auto
    then show ?thesis using rs1 True Cons.prems by (intro via [of ?s1 rs1]) auto
  next
    case False
    obtain r a w1 where alone: "attempts_alone att t (tk_spent t) (ds_world s) = ((r, a), w1)" by (metis surj_pair)
    let ?f = "case r of Inl _ \<Rightarrow> \<not> tk_recoverable t | Inr _ \<Rightarrow> False"
    obtain rs1 where rs1: "dispatch_in_order att ?f ts w1 = (rs1, w')" "rs = (tk_name t, Some r, a) # rs1"
      using Cons.prems(1) False alone by (auto split: prod.splits)
    let ?s1 = "s\<lparr>ds_waiting := ts, ds_running := ds_running s @ [(t, tk_spent t, None)]\<rparr>"
    have "?step s ?s1" using Cons.prems False by (intro dispatch_step.started) auto
    moreover have "?step\<^sup>*\<^sup>* ?s1 (finish_task t r a [] (?s1\<lparr>ds_world := w1\<rparr>))"
      using alone False Cons.prems by (intro attempts_alone_steps) auto
    ultimately have "?step\<^sup>*\<^sup>* s (finish_task t r a [] (?s1\<lparr>ds_world := w1\<rparr>))" by (rule converse_rtranclp_into_rtranclp)
    then show ?thesis
      by (rule via [of _ rs1]) (use rs1 False Cons.prems(2,3) in \<open>simp_all add: finish_task_def\<close>)
  qed
qed

lemma dispatch_in_order_fits:
  assumes "dispatch_in_order att False ts w = (rs, w')"
  shows "dispatch_fits ts rs"
proof -
  obtain f where "(dispatch_step (\<lambda>t w p. p = att t w) 1)\<^sup>*\<^sup>* (dispatch_start ts w)
      (dispatch_start ts w\<lparr>ds_waiting := [], ds_failed := f, ds_results := ds_results (dispatch_start ts w) @ rs, ds_world := w'\<rparr>)"
    using dispatch_in_order_steps [of att "dispatch_start ts w" ts rs w'] assms by (auto simp: dispatch_start_def)
  from dispatch_ends_fitting [OF this] show ?thesis by (simp add: dispatch_ended_def dispatch_start_def)
qed

end
