(* ===== verification/Graph_Checkpoint.thy ===== *)
theory Graph_Checkpoint
  imports Graph_Def
begin

text \<open>
  Checkpointing (\<^verbatim>\<open>adk-graph/src/checkpoint.rs\<close>): retention, the version rule, the in-memory store, and
  the contract every checkpointer keeps as a locale. What follows from the contract is proved once: a
  writer that fell behind is refused, and what it loads is the newest version.
\<close>

section \<open>Retention and versions\<close>

definition keep_last :: "nat \<Rightarrow> retention_policy" where
  "keep_last n = \<lparr>rp_max_per_thread = Some (max n 1), rp_max_age = None\<rparr>"

definition retention_max_age :: "dur \<Rightarrow> retention_policy" where
  "retention_max_age age = \<lparr>rp_max_per_thread = None, rp_max_age = Some age\<rparr>"

definition with_max_age :: "dur \<Rightarrow> retention_policy \<Rightarrow> retention_policy" where
  "with_max_age age p = p\<lparr>rp_max_age := Some age\<rparr>"

definition with_max_per_thread :: "nat \<Rightarrow> retention_policy \<Rightarrow> retention_policy" where
  "with_max_per_thread n p = p\<lparr>rp_max_per_thread := Some (max n 1)\<rparr>"

definition is_unlimited :: "retention_policy \<Rightarrow> bool" where
  "is_unlimited p \<longleftrightarrow> rp_max_per_thread p = None \<and> rp_max_age p = None"

text \<open>The longest age a \<^verbatim>\<open>chrono::Duration\<close> holds: \<^verbatim>\<open>i64::MAX\<close> milliseconds. A longer one sets no cutoff.\<close>

definition chrono_max :: dur where
  "chrono_max = 9223372036854775807 * 1000000"

definition age_cutoff :: "instant \<Rightarrow> retention_policy \<Rightarrow> instant option" where
  "age_cutoff now p =
     (case rp_max_age p of
        Some age \<Rightarrow> if age \<le> chrono_max then Some (now - int age) else None
      | None \<Rightarrow> None)"

definition newest_first :: "graph_checkpoint list \<Rightarrow> graph_checkpoint list" where
  "newest_first cs = sort_key (\<lambda>c. - int (gc_version c)) cs"

definition expired_at :: "instant \<Rightarrow> retention_policy \<Rightarrow> nat \<Rightarrow> graph_checkpoint \<Rightarrow> bool" where
  "expired_at now p index c \<longleftrightarrow>
     0 < index \<and>
     ((case rp_max_per_thread p of Some m \<Rightarrow> m \<le> index | None \<Rightarrow> False) \<or>
      (case age_cutoff now p of Some cutoff \<Rightarrow> gc_created_at c < cutoff | None \<Rightarrow> False))"

definition expired_checkpoints :: "instant \<Rightarrow> retention_policy \<Rightarrow> graph_checkpoint list \<Rightarrow> string list" where
  "expired_checkpoints now p cs =
     (if is_unlimited p \<or> length cs \<le> 1 then []
      else map (\<lambda>(_, c). gc_checkpoint_id c)
             (filter (\<lambda>(index, c). expired_at now p index c) (enumerate 0 (newest_first cs))))"

definition zero_version_error :: "string \<Rightarrow> graph_error" where
  "zero_version_error cid =
     CheckpointError (''checkpoint '' @ quoted cid @ '' has version 0; versions start at 1. Set it with '' @
       ''Checkpoint::with_version(newest version + 1)'')"

definition duplicate_id_error :: "string \<Rightarrow> graph_error" where
  "duplicate_id_error cid =
     CheckpointError (''checkpoint id '' @ quoted cid @ '' is already stored; every checkpoint needs a unique id'')"

definition checkpoint_conflict :: "graph_checkpoint \<Rightarrow> nat \<Rightarrow> graph_error" where
  "checkpoint_conflict c head = CheckpointConflict (gc_thread_id c) (gc_version c) head"

definition ensure_newer :: "graph_checkpoint \<Rightarrow> nat option \<Rightarrow> graph_error option" where
  "ensure_newer c head =
     (if gc_version c = 0 then Some (zero_version_error (gc_checkpoint_id c))
      else case head of
        Some h \<Rightarrow> if gc_version c \<le> h then Some (checkpoint_conflict c h) else None
      | None \<Rightarrow> None)"

section \<open>The in-memory checkpointer\<close>

record memory_store =
  ms_threads :: "(string, graph_checkpoint list) table"
  ms_ids :: "(string, string) table"

definition memory_thread :: "memory_store \<Rightarrow> string \<Rightarrow> graph_checkpoint list" where
  "memory_thread ms tid = (case lookup (ms_threads ms) tid of Some cs \<Rightarrow> cs | None \<Rightarrow> [])"

definition newest_of :: "graph_checkpoint list \<Rightarrow> graph_checkpoint option" where
  "newest_of cs = (if cs = [] then None else Some (List.last cs))"

definition memory_save :: "graph_checkpoint \<Rightarrow> memory_store \<Rightarrow> string gresult \<times> memory_store" where
  "memory_save c ms =
     (case ensure_newer c (map_option gc_version (newest_of (memory_thread ms (gc_thread_id c)))) of
        Some e \<Rightarrow> (Inl e, ms)
      | None \<Rightarrow>
          if lookup (ms_ids ms) (gc_checkpoint_id c) \<noteq> None then (Inl (duplicate_id_error (gc_checkpoint_id c)), ms)
          else (Inr (gc_checkpoint_id c),
                ms\<lparr>ms_ids := AList.update (gc_checkpoint_id c) (gc_thread_id c) (ms_ids ms),
                   ms_threads := AList.update (gc_thread_id c) (memory_thread ms (gc_thread_id c) @ [c]) (ms_threads ms)\<rparr>))"

definition memory_load :: "string \<Rightarrow> memory_store \<Rightarrow> graph_checkpoint option" where
  "memory_load tid ms = newest_of (memory_thread ms tid)"

definition memory_load_by_id :: "string \<Rightarrow> memory_store \<Rightarrow> graph_checkpoint option" where
  "memory_load_by_id cid ms =
     (case lookup (ms_ids ms) cid of
        None \<Rightarrow> None
      | Some tid \<Rightarrow>
          (case lookup (ms_threads ms) tid of
             None \<Rightarrow> None
           | Some cs \<Rightarrow> find (\<lambda>c. gc_checkpoint_id c = cid) cs))"

definition memory_list :: "string \<Rightarrow> memory_store \<Rightarrow> graph_checkpoint list" where
  "memory_list tid ms = memory_thread ms tid"

definition memory_delete :: "string \<Rightarrow> memory_store \<Rightarrow> memory_store" where
  "memory_delete tid ms =
     (case lookup (ms_threads ms) tid of
        None \<Rightarrow> ms
      | Some cs \<Rightarrow>
          ms\<lparr>ms_threads := AList.delete tid (ms_threads ms),
             ms_ids := fold (\<lambda>c. AList.delete (gc_checkpoint_id c)) cs (ms_ids ms)\<rparr>)"

definition memory_prune :: "instant \<Rightarrow> string \<Rightarrow> retention_policy \<Rightarrow> memory_store \<Rightarrow> nat \<times> memory_store" where
  "memory_prune now tid p ms =
     (case lookup (ms_threads ms) tid of
        None \<Rightarrow> (0, ms)
      | Some cs \<Rightarrow>
          (let expired = expired_checkpoints now p cs;
               kept = [c \<leftarrow> cs. gc_checkpoint_id c \<notin> set expired] in
           if expired = [] then (0, ms)
           else (length cs - length kept,
                 ms\<lparr>ms_threads := AList.update tid kept (ms_threads ms),
                    ms_ids := fold AList.delete expired (ms_ids ms)\<rparr>)))"

text \<open>The trait's default page: newest versions first, below \<open>before\<close>.\<close>

definition list_page :: "nat option \<Rightarrow> nat \<Rightarrow> graph_checkpoint list \<Rightarrow> graph_checkpoint list" where
  "list_page before limit cs =
     take limit (newest_first [c \<leftarrow> cs. case before of Some b \<Rightarrow> gc_version c < b | None \<Rightarrow> True])"

text \<open>The store as a trait object on a world that holds it.\<close>

definition memory_checkpointer ::
    "('w \<Rightarrow> instant) \<Rightarrow> ('w \<Rightarrow> memory_store) \<Rightarrow> (memory_store \<Rightarrow> 'w \<Rightarrow> 'w) \<Rightarrow> 'w checkpointer" where
  "memory_checkpointer clock get put =
     \<lparr>ck_save = (\<lambda>c w. let (r, ms) = memory_save c (get w) in (r, put ms w)),
      ck_load = (\<lambda>tid w. (Inr (memory_load tid (get w)), w)),
      ck_load_by_id = (\<lambda>cid w. (Inr (memory_load_by_id cid (get w)), w)),
      ck_list = (\<lambda>tid w. (Inr (memory_list tid (get w)), w)),
      ck_delete = (\<lambda>tid w. (Inr (), put (memory_delete tid (get w)) w)),
      ck_prune = (\<lambda>tid p w. let (n, ms) = memory_prune (clock w) tid p (get w) in (Inr n, put ms w))\<rparr>"

section \<open>The contract\<close>

text \<open>
  \<open>stored w tid\<close> are the checkpoints a store keeps for a thread in the world \<open>w\<close>, \<open>good w\<close> its invariant.
  Reading leaves them alone and may fail, and the version rule, uniqueness and retention are those of the module's table.
\<close>

definition ascending :: "graph_checkpoint list \<Rightarrow> bool" where
  "ascending cs \<longleftrightarrow> sorted_wrt (\<lambda>a b. gc_version a < gc_version b) cs"

definition head_version :: "graph_checkpoint list \<Rightarrow> nat" where
  "head_version cs = (case newest_of cs of Some c \<Rightarrow> gc_version c | None \<Rightarrow> 0)"

locale checkpoint_contract =
  fixes ck :: "'w checkpointer" and stored :: "'w \<Rightarrow> string \<Rightarrow> graph_checkpoint list" and good :: "'w \<Rightarrow> bool"
  assumes ordered: "good w \<Longrightarrow> ascending (stored w tid)"
    and threads: "good w \<Longrightarrow> c \<in> set (stored w tid) \<Longrightarrow> gc_thread_id c = tid \<and> 0 < gc_version c"
    and ids: "good w \<Longrightarrow> c \<in> set (stored w tid) \<Longrightarrow> c' \<in> set (stored w tid') \<Longrightarrow>
      gc_checkpoint_id c = gc_checkpoint_id c' \<Longrightarrow> c = c'"
    and saved: "good w \<Longrightarrow> ck_save ck c w = (Inr i, w') \<Longrightarrow>
      good w' \<and> i = gc_checkpoint_id c \<and> stored w' = (stored w)(gc_thread_id c := stored w (gc_thread_id c) @ [c])"
    and unsaved: "good w \<Longrightarrow> ck_save ck c w = (Inl e, w') \<Longrightarrow> good w' \<and> stored w' = stored w"
    and loads: "good w \<Longrightarrow> ck_load ck tid w = (r, w') \<Longrightarrow>
      good w' \<and> stored w' = stored w \<and> (case r of Inr found \<Rightarrow> found = newest_of (stored w tid) | Inl e \<Rightarrow> True)"
    and loads_by_id: "good w \<Longrightarrow> ck_load_by_id ck cid w = (r, w') \<Longrightarrow>
      good w' \<and> stored w' = stored w \<and>
      (case r of Inr (Some c) \<Rightarrow> gc_checkpoint_id c = cid \<and> c \<in> set (stored w (gc_thread_id c))
        | Inr None \<Rightarrow> \<forall>tid. \<forall>c \<in> set (stored w tid). gc_checkpoint_id c \<noteq> cid
        | Inl e \<Rightarrow> True)"
    and deleted: "good w \<Longrightarrow> ck_delete ck tid w = (d, w') \<Longrightarrow>
      good w' \<and> stored w' = (case d of Inr u \<Rightarrow> (stored w)(tid := []) | Inl e \<Rightarrow> stored w)"
    and pruned: "good w \<Longrightarrow> ck_prune ck tid p w = (q, w') \<Longrightarrow>
      good w' \<and> (\<forall>t. t \<noteq> tid \<longrightarrow> stored w' t = stored w t) \<and>
      (\<exists>keep. stored w' tid = filter keep (stored w tid)) \<and> newest_of (stored w' tid) = newest_of (stored w tid)"
begin

lemma newest_is_highest:
  assumes "good w" "c \<in> set (stored w tid)"
  shows "gc_version c \<le> head_version (stored w tid)"
proof -
  from assms(2) obtain xs x where split: "stored w tid = xs @ [x]"
    by (metis empty_iff list.set(1) rev_exhaust)
  have "ascending (xs @ [x])" using ordered [OF assms(1), of tid] by (simp add: split)
  with assms(2) show ?thesis
    by (auto simp: split head_version_def newest_of_def ascending_def sorted_wrt_append intro: less_imp_le)
qed

text \<open>Only a version past every stored one is stored; so of two writers that read one newest version, one is refused.\<close>

lemma save_raises:
  assumes "good w" "ck_save ck c w = (Inr i, w')"
  shows "head_version (stored w (gc_thread_id c)) < gc_version c" "head_version (stored w' (gc_thread_id c)) = gc_version c"
    "t \<noteq> gc_thread_id c \<Longrightarrow> head_version (stored w' t) = head_version (stored w t)"
proof -
  have w': "good w'" "stored w' = (stored w)(gc_thread_id c := stored w (gc_thread_id c) @ [c])"
    using saved [OF assms] by auto
  have "ascending (stored w (gc_thread_id c) @ [c])" using ordered [OF w'(1), of "gc_thread_id c"] by (simp add: w'(2))
  moreover have "0 < gc_version c" using threads [OF w'(1), of c "gc_thread_id c"] by (simp add: w'(2))
  ultimately show "head_version (stored w (gc_thread_id c)) < gc_version c"
    by (cases "stored w (gc_thread_id c)" rule: rev_cases)
      (auto simp: head_version_def newest_of_def ascending_def sorted_wrt_append)
  show "head_version (stored w' (gc_thread_id c)) = gc_version c" by (simp add: head_version_def w'(2) newest_of_def)
  show "t \<noteq> gc_thread_id c \<Longrightarrow> head_version (stored w' t) = head_version (stored w t)" by (simp add: head_version_def w'(2))
qed

lemma stale_save_refused:
  assumes "good w" "gc_version c \<le> head_version (stored w (gc_thread_id c))" "ck_save ck c w = (r, w')"
  shows "(\<exists>e. r = Inl e) \<and> good w' \<and> stored w' = stored w"
proof (cases r)
  case (Inr i)
  with assms save_raises(1) [OF assms(1)] show ?thesis by fastforce
next
  case (Inl e)
  with assms unsaved [OF assms(1)] show ?thesis by auto
qed

lemma save_version:
  assumes "good w" "ck_save ck c w = (r, w')"
  shows "good w' \<and> head_version (stored w t) \<le> head_version (stored w' t)"
proof (cases r)
  case (Inl e)
  with assms unsaved [OF assms(1)] show ?thesis by (auto simp: head_version_def)
next
  case (Inr i)
  with assms have "ck_save ck c w = (Inr i, w')" by simp
  with save_raises(1,2) [OF assms(1) this] save_raises(3) [OF assms(1) this, of t] saved [OF assms(1) this]
  show ?thesis
    by (cases "t = gc_thread_id c") auto
qed

lemma prune_version: "good w \<Longrightarrow> ck_prune ck tid p w = (r, w') \<Longrightarrow> good w' \<and> head_version (stored w' t) = head_version (stored w t)"
  using pruned [of w tid p r w'] by (cases "t = tid") (auto simp: head_version_def)

lemma load_version: "good w \<Longrightarrow> ck_load ck tid w = (r, w') \<Longrightarrow> good w' \<and> head_version (stored w' t) = head_version (stored w t)"
  using loads [of w tid r w'] by (auto simp: head_version_def)

lemma load_by_id_version: "good w \<Longrightarrow> ck_load_by_id ck cid w = (r, w') \<Longrightarrow> good w' \<and> head_version (stored w' t) = head_version (stored w t)"
  using loads_by_id [of w cid r w'] by (auto simp: head_version_def)

end

text \<open>What a store that wraps another relies on as well: what listing returns and which checkpoints a count keeps.\<close>

locale listed_checkpoints = checkpoint_contract ck stored good
  for ck :: "'w checkpointer" and stored good +
  assumes lists: "good w \<Longrightarrow> ck_list ck tid w = (ls, w') \<Longrightarrow>
      good w' \<and> stored w' = stored w \<and> (case ls of Inr cs \<Rightarrow> cs = stored w tid | Inl e \<Rightarrow> True)"
    and keeps_last: "good w \<Longrightarrow> ck_prune ck tid (keep_last n) w = (q, w') \<Longrightarrow>
      stored w' tid = (case q of Inr k \<Rightarrow> drop (length (stored w tid) - max n 1) (stored w tid) | Inl e \<Rightarrow> stored w tid)"

section \<open>The in-memory store keeps it\<close>

definition memory_ok :: "memory_store \<Rightarrow> bool" where
  "memory_ok ms \<longleftrightarrow>
     (\<forall>tid. ascending (memory_thread ms tid) \<and> distinct (map gc_checkpoint_id (memory_thread ms tid)) \<and>
        (\<forall>c \<in> set (memory_thread ms tid). gc_thread_id c = tid \<and> 0 < gc_version c)) \<and>
     (\<forall>cid tid. lookup (ms_ids ms) cid = Some tid \<longleftrightarrow> cid \<in> gc_checkpoint_id ` set (memory_thread ms tid))"

lemma memory_ok_empty: "memory_ok \<lparr>ms_threads = [], ms_ids = []\<rparr>"
  by (simp add: memory_ok_def memory_thread_def ascending_def)

lemma memory_thread_update [simp]:
  "memory_thread (ms\<lparr>ms_ids := i, ms_threads := AList.update tid cs (ms_threads ms)\<rparr>) = (memory_thread ms)(tid := cs)"
  "memory_thread (ms\<lparr>ms_threads := AList.update tid cs (ms_threads ms), ms_ids := i\<rparr>) = (memory_thread ms)(tid := cs)"
  "memory_thread (ms\<lparr>ms_threads := AList.delete tid (ms_threads ms), ms_ids := i\<rparr>) = (memory_thread ms)(tid := [])"
  by (auto simp: memory_thread_def fun_eq_iff)

lemma lookup_fold_delete: "lookup (fold AList.delete ks t) k = (if k \<in> set ks then None else lookup t k)"
  by (induction ks arbitrary: t) auto

lemma memory_unique:
  "memory_ok ms \<Longrightarrow> c \<in> set (memory_thread ms tid) \<Longrightarrow> c' \<in> set (memory_thread ms tid') \<Longrightarrow>
   gc_checkpoint_id c = gc_checkpoint_id c' \<Longrightarrow> c = c'"
  unfolding memory_ok_def by (metis distinct_map image_eqI inj_onD option.inject)

lemma memory_save_ok:
  assumes "memory_ok ms" "memory_save c ms = (Inr i, ms')"
  shows "memory_ok ms' \<and> i = gc_checkpoint_id c \<and>
    memory_thread ms' = (memory_thread ms)(gc_thread_id c := memory_thread ms (gc_thread_id c) @ [c])"
proof -
  let ?T = "memory_thread ms (gc_thread_id c)"
  have newer: "ensure_newer c (map_option gc_version (newest_of ?T)) = None"
    and fresh: "lookup (ms_ids ms) (gc_checkpoint_id c) = None"
    and ms': "ms' = ms\<lparr>ms_ids := AList.update (gc_checkpoint_id c) (gc_thread_id c) (ms_ids ms),
      ms_threads := AList.update (gc_thread_id c) (?T @ [c]) (ms_threads ms)\<rparr>" and i: "i = gc_checkpoint_id c"
    using assms(2) by (auto simp: memory_save_def split: option.splits if_splits)
  have ok: "ascending ?T" "distinct (map gc_checkpoint_id ?T)" "0 < gc_version c"
    using assms(1) newer by (auto simp: memory_ok_def ensure_newer_def split: if_splits)
  have "ascending (?T @ [c])"
    using ok(1) newer
    by (cases ?T rule: rev_cases)
      (auto simp: ascending_def sorted_wrt_append newest_of_def ensure_newer_def split: if_splits dest: less_trans)
  moreover have "gc_checkpoint_id c \<notin> gc_checkpoint_id ` set (memory_thread ms tid)" for tid
    using assms(1) fresh unfolding memory_ok_def by (metis option.distinct(1))
  ultimately show ?thesis
    using assms(1) ok by (auto simp: ms' i memory_ok_def image_iff split: if_splits)
qed

lemma memory_delete_ok:
  assumes "memory_ok ms"
  shows "memory_ok (memory_delete tid ms) \<and> memory_thread (memory_delete tid ms) = (memory_thread ms)(tid := [])"
proof (cases "lookup (ms_threads ms) tid")
  case None
  then have "memory_thread ms tid = []" by (simp add: memory_thread_def)
  with None assms show ?thesis by (auto simp: memory_delete_def)
next
  case (Some cs)
  from Some have d: "memory_delete tid ms =
      ms\<lparr>ms_threads := AList.delete tid (ms_threads ms), ms_ids := fold AList.delete (map gc_checkpoint_id cs) (ms_ids ms)\<rparr>"
    by (simp add: memory_delete_def fold_map comp_def)
  have cs: "cs = memory_thread ms tid" using Some by (simp add: memory_thread_def)
  from assms memory_unique [OF assms] show ?thesis
    unfolding d by (auto simp: memory_ok_def lookup_fold_delete cs ascending_def split: if_splits) (metis image_eqI option.inject)+
qed

lemma newest_first_ascending:
  assumes "ascending cs"
  shows "newest_first cs = rev cs"
proof -
  let ?f = "\<lambda>c. - int (gc_version c)"
  have strict: "sorted_wrt (<) (map gc_version cs)" using assms by (simp add: ascending_def sorted_wrt_map)
  then have "distinct (map gc_version cs)" by (simp add: strict_sorted_iff)
  then have d: "distinct (map ?f cs)" by (auto simp: distinct_map inj_on_def)
  have "sorted (map ?f (rev cs))"
    using strict by (auto simp: sorted_wrt_map sorted_wrt_rev elim: sorted_wrt_mono_rel [rotated])
  moreover have "inj_on ?f (set cs)" using d by (simp add: distinct_map)
  ultimately show ?thesis unfolding newest_first_def
    by (intro map_sorted_distinct_set_unique [of ?f]) (use d in \<open>auto simp: distinct_map_sort_key rev_map [symmetric]\<close>)
qed

lemma expired_spare_newest:
  assumes "ascending cs" "x \<in> set (expired_checkpoints now p cs)"
  shows "x \<in> gc_checkpoint_id ` set (butlast cs)"
proof -
  obtain i c where c: "(i, c) \<in> set (enumerate 0 (rev cs))" "0 < i" "x = gc_checkpoint_id c"
    using assms by (auto simp: expired_checkpoints_def newest_first_ascending expired_at_def split: if_splits)
  then have "c = rev cs ! i" "i < length cs" by (auto simp: in_set_enumerate_eq)
  with c(2) have "c \<in> set (tl (rev cs))" by (auto simp: in_set_conv_nth nth_tl intro!: exI [of _ "i - 1"])
  then have "c \<in> set (butlast cs)" by (cases cs rule: rev_cases) simp_all
  with c(3) show ?thesis by blast
qed

lemma memory_prune_ok:
  assumes ok: "memory_ok ms" and pr: "memory_prune now tid p ms = (n, ms')"
  shows "memory_ok ms' \<and> (\<forall>t. t \<noteq> tid \<longrightarrow> memory_thread ms' t = memory_thread ms t) \<and>
    (\<exists>keep. memory_thread ms' tid = filter keep (memory_thread ms tid)) \<and>
    newest_of (memory_thread ms' tid) = newest_of (memory_thread ms tid)"
proof (cases "ms' = ms")
  case True
  then show ?thesis using ok by (auto intro: exI [of _ "\<lambda>_. True"])
next
  case False
  define cs where "cs = memory_thread ms tid"
  define expired where "expired = expired_checkpoints now p cs"
  let ?keep = "\<lambda>c. gc_checkpoint_id c \<notin> set expired"
  from False pr have ms': "ms' = ms\<lparr>ms_threads := AList.update tid (filter ?keep cs) (ms_threads ms),
      ms_ids := fold AList.delete expired (ms_ids ms)\<rparr>" and l: "lookup (ms_threads ms) tid = Some cs"
    by (auto simp: memory_prune_def Let_def expired_def cs_def memory_thread_def split: option.splits if_splits)
  have asc: "ascending cs" and dist: "distinct (map gc_checkpoint_id cs)"
    using ok by (auto simp: memory_ok_def cs_def)
  have spare: "set expired \<subseteq> gc_checkpoint_id ` set (butlast cs)"
    using expired_spare_newest [OF asc] by (auto simp: expired_def)
  have "newest_of (filter ?keep cs) = newest_of cs"
  proof (cases cs rule: rev_cases)
    case (snoc xs c)
    with dist spare have "?keep c" by auto
    with snoc show ?thesis by (simp add: newest_of_def)
  qed simp
  moreover have "memory_ok ms'"
  proof -
    have thread: "memory_thread ms' = (memory_thread ms)(tid := filter ?keep cs)" by (simp add: ms')
    have "cid \<notin> set expired" if "cid \<in> gc_checkpoint_id ` set (memory_thread ms t)" "t \<noteq> tid" for cid t
    proof
      assume "cid \<in> set expired"
      with spare have "cid \<in> gc_checkpoint_id ` set cs" by (auto dest: in_set_butlastD)
      then have "lookup (ms_ids ms) cid = Some tid" using ok by (simp add: memory_ok_def cs_def)
      moreover have "lookup (ms_ids ms) cid = Some t" using ok that(1) by (simp add: memory_ok_def)
      ultimately show False using that(2) by simp
    qed
    then have "lookup (ms_ids ms') cid = Some t \<longleftrightarrow> cid \<in> gc_checkpoint_id ` set (memory_thread ms' t)" for cid t
      using ok by (cases "t = tid") (auto simp: thread ms' lookup_fold_delete memory_ok_def cs_def)
    moreover have "ascending (filter ?keep cs)" "distinct (map gc_checkpoint_id (filter ?keep cs))"
      using asc dist by (simp_all add: ascending_def sorted_wrt_filter distinct_map_filter)
    moreover have "gc_thread_id c = tid \<and> 0 < gc_version c" if "c \<in> set cs" for c
      using ok that by (simp add: memory_ok_def cs_def)
    ultimately show ?thesis using ok by (auto simp: memory_ok_def thread)
  qed
  ultimately show ?thesis by (auto simp: ms' cs_def)
qed

text \<open>A world that holds the store next to whatever else runs.\<close>

definition shelf :: "('b \<Rightarrow> instant) \<Rightarrow> (memory_store \<times> 'b) checkpointer" where
  "shelf clock = memory_checkpointer (\<lambda>w. clock (snd w)) fst (\<lambda>ms w. (ms, snd w))"

definition shelved :: "memory_store \<times> 'b \<Rightarrow> string \<Rightarrow> graph_checkpoint list" where
  "shelved w = memory_thread (fst w)"

definition shelf_ok :: "memory_store \<times> 'b \<Rightarrow> bool" where
  "shelf_ok w \<longleftrightarrow> memory_ok (fst w)"

lemma shelf_sel:
  "ck_save (shelf clock) c w = (fst (memory_save c (fst w)), (snd (memory_save c (fst w)), snd w))"
  "ck_load (shelf clock) tid w = (Inr (memory_load tid (fst w)), w)"
  "ck_load_by_id (shelf clock) cid w = (Inr (memory_load_by_id cid (fst w)), w)"
  "ck_list (shelf clock) tid w = (Inr (memory_list tid (fst w)), w)"
  "ck_delete (shelf clock) tid w = (Inr (), (memory_delete tid (fst w), snd w))"
  "ck_prune (shelf clock) tid p w =
     (Inr (fst (memory_prune (clock (snd w)) tid p (fst w))), (snd (memory_prune (clock (snd w)) tid p (fst w)), snd w))"
  by (simp_all add: shelf_def memory_checkpointer_def split: prod.split)

lemma memory_load_by_id_found:
  assumes "memory_ok ms"
  shows "case memory_load_by_id cid ms of
      Some c \<Rightarrow> gc_checkpoint_id c = cid \<and> c \<in> set (memory_thread ms (gc_thread_id c))
    | None \<Rightarrow> \<forall>tid. \<forall>c \<in> set (memory_thread ms tid). gc_checkpoint_id c \<noteq> cid"
proof (cases "lookup (ms_ids ms) cid")
  case None
  with assms show ?thesis unfolding memory_load_by_id_def memory_ok_def by (auto split: option.split) (metis image_eqI option.distinct(1))
next
  case (Some tid)
  with assms have mem: "cid \<in> gc_checkpoint_id ` set (memory_thread ms tid)" by (simp add: memory_ok_def)
  then obtain cs where cs: "lookup (ms_threads ms) tid = Some cs" "memory_thread ms tid = cs"
    by (cases "lookup (ms_threads ms) tid") (auto simp: memory_thread_def)
  with mem obtain c where c: "find (\<lambda>c. gc_checkpoint_id c = cid) cs = Some c"
    by (cases "find (\<lambda>c. gc_checkpoint_id c = cid) cs") (auto simp: find_None_iff)
  then have "c \<in> set cs" "gc_checkpoint_id c = cid" by (auto simp: find_Some_iff)
  moreover from this(1) cs(2) assms have "gc_thread_id c = tid" by (auto simp: memory_ok_def)
  moreover have "memory_load_by_id cid ms = Some c" using Some cs(1) c by (simp add: memory_load_by_id_def)
  ultimately show ?thesis by (simp add: cs(2))
qed

interpretation shelf: checkpoint_contract "shelf clock" shelved shelf_ok for clock :: "'b \<Rightarrow> instant"
proof unfold_locales
  fix w w' :: "memory_store \<times> 'b" and tid tid' cid i :: string and c c' :: graph_checkpoint and e :: graph_error
    and r :: "graph_checkpoint option gresult" and d :: "unit gresult" and q :: "nat gresult" and p
  assume ok: "shelf_ok w"
  then have m: "memory_ok (fst w)" by (simp add: shelf_ok_def)
  show "ascending (shelved w tid)" using m by (simp add: shelved_def memory_ok_def)
  show "gc_thread_id c = tid \<and> 0 < gc_version c" if "c \<in> set (shelved w tid)"
    using m that by (simp add: shelved_def memory_ok_def)
  show "c = c'" if "c \<in> set (shelved w tid)" "c' \<in> set (shelved w tid')" "gc_checkpoint_id c = gc_checkpoint_id c'"
    using memory_unique [OF m] that by (auto simp: shelved_def)
  show "shelf_ok w' \<and> i = gc_checkpoint_id c \<and>
      shelved w' = (shelved w)(gc_thread_id c := shelved w (gc_thread_id c) @ [c])"
    if "ck_save (shelf clock) c w = (Inr i, w')"
    using memory_save_ok [OF m, of c i "fst w'"] that
    by (simp add: shelf_sel shelf_ok_def shelved_def prod_eq_iff)
  show "shelf_ok w' \<and> shelved w' = shelved w" if "ck_save (shelf clock) c w = (Inl e, w')"
    using ok that by (auto simp: shelf_sel memory_save_def shelf_ok_def shelved_def split: option.splits if_splits)
  show "shelf_ok w' \<and> shelved w' = shelved w \<and>
      (case r of Inl e \<Rightarrow> True | Inr found \<Rightarrow> found = newest_of (shelved w tid))"
    if "ck_load (shelf clock) tid w = (r, w')"
    using ok that by (auto simp: shelf_sel shelved_def memory_load_def)
  show "shelf_ok w' \<and> shelved w' = shelved w \<and>
      (case r of Inl e \<Rightarrow> True
       | Inr None \<Rightarrow> \<forall>tid. \<forall>c \<in> set (shelved w tid). gc_checkpoint_id c \<noteq> cid
       | Inr (Some c) \<Rightarrow> gc_checkpoint_id c = cid \<and> c \<in> set (shelved w (gc_thread_id c)))"
    if "ck_load_by_id (shelf clock) cid w = (r, w')"
    using ok that memory_load_by_id_found [OF m, of cid]
    by (auto simp: shelf_sel shelved_def split: option.splits)
  show "shelf_ok w' \<and> shelved w' = (case d of Inl e \<Rightarrow> shelved w | Inr u \<Rightarrow> (shelved w)(tid := []))"
    if "ck_delete (shelf clock) tid w = (d, w')"
    using memory_delete_ok [OF m, of tid] that by (auto simp: shelf_sel shelf_ok_def shelved_def)
  show "shelf_ok w' \<and> (\<forall>t. t \<noteq> tid \<longrightarrow> shelved w' t = shelved w t) \<and>
      (\<exists>keep. shelved w' tid = filter keep (shelved w tid)) \<and> newest_of (shelved w' tid) = newest_of (shelved w tid)"
    if "ck_prune (shelf clock) tid p w = (q, w')"
    using memory_prune_ok [OF m, of "clock (snd w)" tid p "fst (memory_prune (clock (snd w)) tid p (fst w))" "fst w'"] that
    by (cases w'; cases w) (simp add: shelf_sel shelf_ok_def shelved_def)
qed

lemma filter_enumerate: "filter (\<lambda>(i, x). m \<le> i) (enumerate k xs) = drop (m - k) (enumerate k xs)"
proof (induction xs arbitrary: k)
  case (Cons x xs)
  show ?case
  proof (cases "m \<le> k")
    case True
    then have "filter (\<lambda>(i, x). m \<le> i) (enumerate (Suc k) xs) = enumerate (Suc k) xs" using Cons [of "Suc k"] by simp
    with True show ?thesis by simp
  next
    case False
    then have "m - k = Suc (m - Suc k)" by simp
    with False Cons [of "Suc k"] show ?thesis by simp
  qed
qed simp

lemma expired_keep_last:
  assumes "ascending cs"
  shows "expired_checkpoints now (keep_last n) cs = map gc_checkpoint_id (drop (max n 1) (rev cs))"
proof (cases "length cs \<le> 1")
  case True
  then have "drop (max n 1) (rev cs) = []" by simp
  with True show ?thesis by (simp add: expired_checkpoints_def)
next
  case False
  let ?m = "max n 1"
  have e: "expired_at now (keep_last n) i c \<longleftrightarrow> ?m \<le> i" for i c
    by (auto simp: expired_at_def keep_last_def age_cutoff_def)
  have "\<not> is_unlimited (keep_last n)" by (simp add: is_unlimited_def keep_last_def)
  with False have "expired_checkpoints now (keep_last n) cs =
      map (\<lambda>(_, c). gc_checkpoint_id c) (filter (\<lambda>(i, c). ?m \<le> i) (enumerate 0 (rev cs)))"
    unfolding expired_checkpoints_def newest_first_ascending [OF assms] e by simp
  also have "\<dots> = drop ?m (map (\<lambda>(_, c). gc_checkpoint_id c) (enumerate 0 (rev cs)))"
    by (simp only: filter_enumerate drop_map diff_zero)
  also have "map (\<lambda>(_, c). gc_checkpoint_id c) (enumerate 0 (rev cs)) = map gc_checkpoint_id (map snd (enumerate 0 (rev cs)))"
    by (simp only: map_map comp_def case_prod_unfold)
  finally show ?thesis by (simp only: map_snd_enumerate drop_map)
qed

lemma filter_expired:
  assumes "distinct (map gc_checkpoint_id cs)"
  shows "[c \<leftarrow> cs. gc_checkpoint_id c \<notin> gc_checkpoint_id ` set (take r cs)] = drop r cs"
proof -
  have d: "distinct (map gc_checkpoint_id (take r cs @ drop r cs))" using assms by simp
  have "[c \<leftarrow> take r cs @ drop r cs. gc_checkpoint_id c \<notin> gc_checkpoint_id ` set (take r cs)] = drop r cs"
    using d unfolding filter_append map_append distinct_append by (auto simp: filter_empty_conv filter_id_conv)
  then show ?thesis by simp
qed

lemma memory_keep_last:
  assumes ok: "memory_ok ms" and pr: "memory_prune now tid (keep_last n) ms = (k, ms')"
  shows "memory_thread ms' tid = drop (length (memory_thread ms tid) - max n 1) (memory_thread ms tid)"
proof -
  define cs where "cs = memory_thread ms tid"
  define r where "r = length cs - max n 1"
  have asc: "ascending cs" and dist: "distinct (map gc_checkpoint_id cs)"
    using ok by (auto simp: memory_ok_def cs_def)
  have ex: "expired_checkpoints now (keep_last n) cs = map gc_checkpoint_id (rev (take r cs))"
    by (simp add: expired_keep_last [OF asc] r_def drop_rev)
  have kept: "[c \<leftarrow> cs. gc_checkpoint_id c \<notin> set (expired_checkpoints now (keep_last n) cs)] = drop r cs"
    using filter_expired [OF dist, of r] by (simp add: ex)
  have "memory_thread ms' tid = drop r cs"
  proof (cases "lookup (ms_threads ms) tid")
    case None
    with pr show ?thesis by (auto simp: memory_prune_def cs_def memory_thread_def)
  next
    case (Some cs')
    then have cs': "cs' = cs" by (simp add: cs_def memory_thread_def)
    show ?thesis
    proof (cases "expired_checkpoints now (keep_last n) cs = []")
      case True
      with ex have "take r cs = []" by simp
      then have "drop r cs = cs" by auto
      with True Some pr show ?thesis by (simp add: memory_prune_def cs' cs_def)
    next
      case False
      with Some pr kept show ?thesis by (auto simp: memory_prune_def Let_def cs')
    qed
  qed
  then show ?thesis by (simp add: cs_def r_def)
qed

interpretation shelf_listed: listed_checkpoints "shelf clock" shelved shelf_ok for clock :: "'b \<Rightarrow> instant"
proof unfold_locales
  fix w w' :: "memory_store \<times> 'b" and tid and ls :: "graph_checkpoint list gresult" and q :: "nat gresult" and n
  assume ok: "shelf_ok w"
  show "shelf_ok w' \<and> shelved w' = shelved w \<and> (case ls of Inr cs \<Rightarrow> cs = shelved w tid | Inl e \<Rightarrow> True)"
    if "ck_list (shelf clock) tid w = (ls, w')"
    using ok that by (auto simp: shelf_sel shelved_def memory_list_def)
  show "shelved w' tid = (case q of Inr k \<Rightarrow> drop (length (shelved w tid) - max n 1) (shelved w tid) | Inl e \<Rightarrow> shelved w tid)"
    if "ck_prune (shelf clock) tid (keep_last n) w = (q, w')"
    using memory_keep_last [of "fst w" "clock (snd w)" tid n "fst (memory_prune (clock (snd w)) tid (keep_last n) (fst w))" "fst w'"] ok that
    by (cases w') (auto simp: shelf_sel shelved_def shelf_ok_def)
qed

end
