(* ===== verification/Graph_Exec.thy ===== *)
theory Graph_Exec
  imports Graph_Dispatch Graph_Checkpoint
begin

text \<open>
  The executor (\<^verbatim>\<open>PregelExecutor\<close> in \<^verbatim>\<open>adk-graph/src/executor.rs\<close>): super-steps over a frontier of
  nodes, joins that wait for their predecessors, pauses, checkpoints and resumes.

  An \<open>engine\<close> is what a run takes from its surroundings: the dispatch of a super-step's tasks, the clock,
  fresh checkpoint identifiers, whether a background write happens at once or when it is waited for, the
  text of errors and the arithmetic of numbers. Stream events only report what happens and are left out.
\<close>

section \<open>The executor's state\<close>

record 'w engine =
  en_numbers :: number_lib
  en_debug :: "string list \<Rightarrow> string"
  en_text :: "graph_error \<Rightarrow> string"
  en_clock :: "'w \<Rightarrow> instant"
  en_new_id :: "'w \<Rightarrow> string \<times> 'w"
  en_prompt :: "'w \<Rightarrow> bool"
  en_dispatch :: "nat \<Rightarrow> 'w node_task list \<Rightarrow> child_ledger \<times> 'w \<Rightarrow> node_result list \<times> (child_ledger \<times> 'w)"

text \<open>A background write still to happen, or its outcome.\<close>

datatype inflight_write = Writing graph_checkpoint | Written "string gresult"

record executor =
  ex_state :: graph_state
  ex_step :: nat
  ex_pending :: "string list"
  ex_goto_parent :: "string list option"
  ex_deferred :: "(string, fan_in_tracker) table"
  ex_started :: "(string, instant) table"
  ex_abandoned :: "(string, string list) table"
  ex_attempts :: "(string, nat) table"
  ex_ledger :: child_ledger
  ex_cleared :: "string option"
  ex_restart :: bool
  ex_run_start :: nat
  ex_head :: nat
  ex_writes :: "(string, pending_write) table"
  ex_inflight :: "inflight_write option"
  ex_unsaved :: bool
  ex_paused :: "string list"

definition executor_new :: executor where
  "executor_new =
     \<lparr>ex_state = [], ex_step = 0, ex_pending = [], ex_goto_parent = None, ex_deferred = [], ex_started = [],
      ex_abandoned = [], ex_attempts = [], ex_ledger = [], ex_cleared = None, ex_restart = False,
      ex_run_start = 0, ex_head = 0, ex_writes = [], ex_inflight = None, ex_unsaved = False, ex_paused = []\<rparr>"

definition restarting_completed_threads :: "executor \<Rightarrow> executor" where
  "restarting_completed_threads ex = ex\<lparr>ex_restart := True\<rparr>"

record step_result =
  sr_executed :: "string list"
  sr_interrupts :: "(string \<times> interrupt) list"
  sr_goto :: "(string, string list) table"
  sr_updates :: "(string, (string, json) table) table"

section \<open>Reachability\<close>

text \<open>
  The nodes on \<open>stack\<close> (top first) and those reached from them along the edges without entering a blocked
  node; \<open>seen\<close> are those visited already.
\<close>

fun edge_origin :: "graph_edge \<Rightarrow> string set" where
  "edge_origin (DirectEdge s _) = {s}"
| "edge_origin (ConditionalEdge s _ _) = {s}"
| "edge_origin (EntryEdge _) = {}"

definition edge_origins :: "graph_edge list \<Rightarrow> string set" where
  "edge_origins es = (\<Union>e \<in> set es. edge_origin e)"

lemma finite_edge_origins [simp]: "finite (edge_origins es)"
proof -
  have "finite (edge_origin e)" for e by (cases e) auto
  then show ?thesis by (simp add: edge_origins_def)
qed

lemma edge_successors_origin: "n \<notin> edge_origin e \<Longrightarrow> edge_successors e n = []"
  by (cases e) auto

lemma no_successors: "n \<notin> edge_origins es \<Longrightarrow> edge_list_successors es n = []"
  by (auto simp: edge_list_successors_def edge_origins_def edge_successors_origin)

function reach_loop :: "graph_edge list \<Rightarrow> (string \<Rightarrow> bool) \<Rightarrow> string list \<Rightarrow> string list \<Rightarrow> string list" where
  "reach_loop es blocked [] seen = seen"
| "reach_loop es blocked (n # stack) seen =
     (if n \<in> set seen then reach_loop es blocked stack seen
      else reach_loop es blocked
        (rev [m \<leftarrow> edge_list_successors es n. \<not> blocked m \<and> m \<notin> set (n # seen)] @ stack) (n # seen))"
  by pat_completeness auto

termination
proof (relation "inv_image (finite_psubset <*lex*> less_than)
    (\<lambda>(es, blocked, stack, seen). (edge_origins es - set seen, length stack))", goal_cases)
  case (3 es blocked n stack seen)
  then show ?case
    by (cases "n \<in> edge_origins es") (auto simp: finite_psubset_def no_successors)
qed (auto intro!: wf_lex_prod wf_inv_image)

definition reachable_from :: "'w compiled_graph \<Rightarrow> (string \<Rightarrow> bool) \<Rightarrow> string list \<Rightarrow> string list" where
  "reachable_from g blocked sources = reach_loop (cg_edges g) blocked (rev sources) []"

section \<open>Joins\<close>

definition arrival_output :: "string \<Rightarrow> (string, json) table option \<Rightarrow> json" where
  "arrival_output n updates =
     (case updates of
        None \<Rightarrow> JObject []
      | Some u \<Rightarrow> (case lookup u n of Some v \<Rightarrow> v | None \<Rightarrow> JObject (sort_key fst u)))"

text \<open>
  The sources of the routes to a node, less one arrival of each abandoned source. The set of abandoned
  sources is kept as a sorted list.
\<close>

fun live_arrivals :: "string list \<Rightarrow> string list \<Rightarrow> string list \<times> string list" where
  "live_arrivals [] aband = ([], aband)"
| "live_arrivals (s # ss) aband =
     (if s \<in> set aband then live_arrivals ss (removeAll s aband)
      else (let (live, aband') = live_arrivals ss aband in (s # live, aband')))"

definition table_or :: "'v \<Rightarrow> ('k, 'v) table \<Rightarrow> 'k \<Rightarrow> 'v" where
  "table_or d t k = (case lookup t k of Some v \<Rightarrow> v | None \<Rightarrow> d)"

definition admit_candidate ::
    "'w compiled_graph \<Rightarrow> instant \<Rightarrow> route list \<Rightarrow> (string, (string, json) table) table \<Rightarrow> string
     \<Rightarrow> string list \<times> executor \<Rightarrow> string list \<times> executor" where
  "admit_candidate g now routes updates cand = (\<lambda>(ready, ex).
     (if lookup (cg_deferred g) cand = None then (ready @ [cand], ex)
      else
        (let (arrivals, aband) = live_arrivals [s. (s, t) \<leftarrow> routes, t = cand] (table_or [] (ex_abandoned ex) cand);
             ex = ex\<lparr>ex_abandoned := AList.update cand aband (ex_abandoned ex)\<rparr> in
         if arrivals = [] \<and> lookup (ex_deferred ex) cand = None then (ready, ex)
         else
           (let tracker = table_or (fan_in_tracker_new (get_upstream_nodes g cand)) (ex_deferred ex) cand;
                tracker = fold (\<lambda>s. fan_in_record s (arrival_output s (lookup updates s))) arrivals tracker in
            (ready, ex\<lparr>ex_deferred := AList.update cand tracker (ex_deferred ex),
                       ex_started := (if lookup (ex_started ex) cand = None then AList.update cand now (ex_started ex)
                                      else ex_started ex)\<rparr>)))))"

definition release_join :: "'w engine \<Rightarrow> 'w compiled_graph \<Rightarrow> string \<Rightarrow> bool \<Rightarrow> executor \<Rightarrow> executor gresult" where
  "release_join en g join check_minimum ex =
     (case lookup (ex_deferred ex) join of
        None \<Rightarrow> Inr ex
      | Some tracker \<Rightarrow>
          (let ex = ex\<lparr>ex_deferred := AList.delete join (ex_deferred ex),
                       ex_started := AList.delete join (ex_started ex),
                       ex_abandoned := AList.delete join (ex_abandoned ex)\<rparr> in
           case lookup (cg_deferred g) join of
             None \<Rightarrow> Inr ex
           | Some cf \<Rightarrow>
               (case (if check_minimum \<and> \<not> fan_in_ready tracker then dc_min_predecessors cf else None) of
                  Some required \<Rightarrow>
                    if fan_in_received_count tracker < required
                    then Inl (FanInIncomplete join (fan_in_received_count tracker) required)
                    else Inr (ex\<lparr>ex_state := apply_update (en_numbers en) (cg_schema g) (ex_state ex) (join @ ''_fan_in'')
                                (fan_in_merge (dc_merge cf) tracker)\<rparr>)
                | None \<Rightarrow> Inr (ex\<lparr>ex_state := apply_update (en_numbers en) (cg_schema g) (ex_state ex) (join @ ''_fan_in'')
                                (fan_in_merge (dc_merge cf) tracker)\<rparr>))))"

fun release_joins :: "'w engine \<Rightarrow> 'w compiled_graph \<Rightarrow> string list \<Rightarrow> executor \<Rightarrow> executor gresult" where
  "release_joins en g [] ex = Inr ex"
| "release_joins en g (j # js) ex = result_bind (release_join en g j True ex) (release_joins en g js)"

text \<open>Nodes that cannot run before \<open>join\<close>: itself, and the joins that wait for it.\<close>

definition blocked_by :: "'w compiled_graph \<Rightarrow> string \<Rightarrow> string \<Rightarrow> bool" where
  "blocked_by g join n \<longleftrightarrow> n = join \<or> (lookup (cg_deferred g) n \<noteq> None \<and> join \<in> set (get_upstream_nodes g n))"

definition still_reachable :: "'w compiled_graph \<Rightarrow> string \<Rightarrow> string list \<Rightarrow> string list" where
  "still_reachable g join running = reachable_from g (blocked_by g join) [n \<leftarrow> running. \<not> blocked_by g join n]"

text \<open>One waiting join: released later, kept waiting, failed, or released now because its time is over.\<close>

definition visit_join ::
    "'w engine \<Rightarrow> 'w compiled_graph \<Rightarrow> instant \<Rightarrow> string list \<Rightarrow> string list \<Rightarrow> string
     \<Rightarrow> string list \<times> string list \<times> executor \<Rightarrow> (string list \<times> string list \<times> executor) gresult" where
  "visit_join en g now in_flight waiting join = (\<lambda>(ready, released, ex).
     (case lookup (ex_deferred ex) join of
        None \<Rightarrow> Inr (ready, released, ex)
      | Some tracker \<Rightarrow>
          (let reach = still_reachable g join (ready @ in_flight @ waiting);
               expected = [s \<leftarrow> fan_in_pending tracker. s \<in> set reach] in
           if expected = [] then Inr (ready, released @ [join], ex)
           else case lookup (cg_deferred g) join of
             None \<Rightarrow> Inr (ready, released, ex)
           | Some cf \<Rightarrow>
               (case dc_timeout cf of
                  None \<Rightarrow> Inr (ready, released, ex)
                | Some timeout \<Rightarrow>
                    if nat (now - table_or now (ex_started ex) join) < timeout then Inr (ready, released, ex)
                    else
                      (let required = max (case dc_min_predecessors cf of Some m \<Rightarrow> m | None \<Rightarrow> 1) 1 in
                       if fan_in_received_count tracker < required
                       then Inl (FanInTimedOut join (fan_in_received_count tracker) (fan_in_expected_count tracker))
                       else result_bind (release_join en g join False ex) (\<lambda>ex.
                         Inr (ready @ [join], released,
                              ex\<lparr>ex_abandoned := AList.update join (sort expected) (ex_abandoned ex)\<rparr>)))))))"

fun visit_joins ::
    "'w engine \<Rightarrow> 'w compiled_graph \<Rightarrow> instant \<Rightarrow> string list \<Rightarrow> string list \<Rightarrow> string list
     \<Rightarrow> string list \<times> string list \<times> executor \<Rightarrow> (string list \<times> string list \<times> executor) gresult" where
  "visit_joins en g now in_flight waiting [] s = Inr s"
| "visit_joins en g now in_flight waiting (j # js) s =
     result_bind (visit_join en g now in_flight waiting j s) (visit_joins en g now in_flight waiting js)"

definition filter_deferred_nodes ::
    "'w engine \<Rightarrow> 'w compiled_graph \<Rightarrow> instant \<Rightarrow> string list \<Rightarrow> route list
     \<Rightarrow> (string, (string, json) table) table \<Rightarrow> string list \<Rightarrow> executor \<Rightarrow> (string list \<times> executor) gresult" where
  "filter_deferred_nodes en g now candidates routes updates in_flight ex =
     (let (ready, ex) = fold (admit_candidate g now routes updates) candidates ([], ex);
          ex = ex\<lparr>ex_abandoned := filter (\<lambda>(_, sources). sources \<noteq> []) (ex_abandoned ex)\<rparr> in
      if ex_deferred ex = [] then Inr (ready, ex)
      else
        (let waiting = sort (keys (ex_deferred ex)) in
         result_bind (visit_joins en g now in_flight waiting waiting (ready, [], ex)) (\<lambda>(ready, released, ex).
         result_bind (release_joins en g released ex) (\<lambda>ex.
           (let ready = ready @ released in
            if ready = [] \<and> in_flight = [] \<and> ex_deferred ex \<noteq> [] then
              (let stalled = sort (keys (ex_deferred ex)) in
               result_bind (release_joins en g stalled ex) (\<lambda>ex. Inr (ready @ stalled, ex)))
            else Inr (ready, ex))))))"

section \<open>The frontier\<close>

fun goto_routes :: "'w compiled_graph \<Rightarrow> string \<Rightarrow> string list \<Rightarrow> route list \<times> string list \<Rightarrow> (route list \<times> string list) gresult" where
  "goto_routes g n [] acc = Inr acc"
| "goto_routes g n (target # ts) (routes, nxt) =
     (if target = END then goto_routes g n ts (routes, nxt)
      else if lookup (cg_nodes g) target = None then
        Inl (UnknownRouteTarget (''node '' @ quoted n @ '' routed to '' @ quoted target @ '', which is not a node in this graph''))
      else goto_routes g n ts (routes @ [(n, target)], push_new target nxt))"

fun all_goto_routes :: "'w compiled_graph \<Rightarrow> (string \<times> string list) list \<Rightarrow> route list \<times> string list \<Rightarrow> (route list \<times> string list) gresult" where
  "all_goto_routes g [] acc = Inr acc"
| "all_goto_routes g ((n, targets) # gs) acc = result_bind (goto_routes g n targets acc) (all_goto_routes g gs)"

definition next_frontier ::
    "'w engine \<Rightarrow> 'w compiled_graph \<Rightarrow> string list \<Rightarrow> (string, string list) table \<Rightarrow> graph_state
     \<Rightarrow> (string list \<times> route list) gresult" where
  "next_frontier en g executed goto st =
     result_bind (routes_from (en_debug en) g [n \<leftarrow> executed. lookup goto n = None] st) (\<lambda>routes.
       map_sum id (\<lambda>(routes, nxt). (nxt, routes))
         (all_goto_routes g (sort_key fst goto) (routes, fold push_new (map snd routes) [])))"

definition advance_frontier ::
    "'w engine \<Rightarrow> 'w compiled_graph \<Rightarrow> instant \<Rightarrow> step_result \<Rightarrow> string list \<Rightarrow> executor \<Rightarrow> (string list \<times> executor) gresult" where
  "advance_frontier en g now res in_flight ex =
     result_bind (next_frontier en g (sr_executed res) (sr_goto res) (ex_state ex)) (\<lambda>(candidates, routes).
       filter_deferred_nodes en g now candidates routes (sr_updates res) in_flight ex)"

definition entry_frontier :: "'w engine \<Rightarrow> 'w compiled_graph \<Rightarrow> instant \<Rightarrow> executor \<Rightarrow> (string list \<times> executor) gresult" where
  "entry_frontier en g now ex =
     (let is_join = (\<lambda>n. lookup (cg_deferred g) n \<noteq> None \<and> get_upstream_nodes g n \<noteq> []);
          joins = filter is_join (get_entry_nodes g);
          ready = filter (\<lambda>n. \<not> is_join n) (get_entry_nodes g) in
      if joins = [] then Inr (ready, ex)
      else
        (let ex = fold (\<lambda>j ex. ex\<lparr>ex_deferred := AList.update j (fan_in_tracker_new (get_upstream_nodes g j)) (ex_deferred ex),
                                  ex_started := AList.update j now (ex_started ex)\<rparr>) joins ex in
         result_bind (filter_deferred_nodes en g now [] [] [] ready ex) (\<lambda>(released, ex).
           Inr (ready @ released, ex))))"

end
