(* ===== verification/Graph_Run.thy ===== *)
theory Graph_Run
  imports Graph_Exec
begin

text \<open>
  A run of the executor (\<^verbatim>\<open>adk-graph/src/executor.rs\<close>): gates, super-steps, pauses, the checkpoints it
  writes, resuming from one, and the main loop of \<^verbatim>\<open>PregelExecutor::run\<close>.
\<close>

section \<open>Gates\<close>

definition gate_before :: "'w compiled_graph \<Rightarrow> executor \<Rightarrow> (string \<times> interrupt) option" where
  "gate_before g ex =
     map_option (\<lambda>n. (n, BeforeNode n))
       (find (\<lambda>n. n \<in> set (cg_interrupt_before g) \<and> ex_cleared ex \<noteq> Some n) (ex_pending ex))"

definition gate_after :: "'w compiled_graph \<Rightarrow> string list \<Rightarrow> (string \<times> interrupt) option" where
  "gate_after g executed = map_option (\<lambda>n. (n, AfterNode n)) (find (\<lambda>n. n \<in> set (cg_interrupt_after g)) executed)"

section \<open>Super-steps\<close>

text \<open>What a super-step collects before its updates are applied.\<close>

record step_acc =
  sc_executed :: "string list"
  sc_interrupts :: "(string \<times> interrupt) list"
  sc_goto :: "(string, string list) table"
  sc_updates :: "(string, (string, json) table) table"
  sc_all :: "(string \<times> (string, json) table) list"
  sc_writes :: "(string, pending_write) table"
  sc_failure :: "graph_error option"

definition step_acc_new :: step_acc where
  "step_acc_new = \<lparr>sc_executed = [], sc_interrupts = [], sc_goto = [], sc_updates = [], sc_all = [], sc_writes = [], sc_failure = None\<rparr>"

text \<open>A node that finished with what it wrote.\<close>

definition collect_write :: "string \<Rightarrow> pending_write \<Rightarrow> executor \<times> step_acc \<Rightarrow> executor \<times> step_acc" where
  "collect_write n w = (\<lambda>(ex, acc).
     (case pw_goto_parent w of Some ts \<Rightarrow> ex\<lparr>ex_goto_parent := Some ts\<rparr> | None \<Rightarrow> ex,
      acc\<lparr>sc_executed := sc_executed acc @ [n],
          sc_goto := (case pw_goto w of Some ts \<Rightarrow> AList.update n ts (sc_goto acc) | None \<Rightarrow> sc_goto acc),
          sc_updates := AList.update n (pw_updates w) (sc_updates acc),
          sc_all := sc_all acc @ [(n, pw_updates w)],
          sc_writes := AList.update n w (sc_writes acc)\<rparr>))"

text \<open>The frontier's nodes that an earlier attempt at the step finished, then those to run.\<close>

fun split_frontier :: "string list \<Rightarrow> executor \<times> step_acc \<Rightarrow> string list \<times> executor \<times> step_acc" where
  "split_frontier [] (ex, acc) = ([], ex, acc)"
| "split_frontier (n # ns) (ex, acc) =
     (case lookup (ex_writes ex) n of
        Some w \<Rightarrow> split_frontier ns (collect_write n w (ex, acc))
      | None \<Rightarrow> (let (to_run, s) = split_frontier ns (ex, acc) in (n # to_run, s)))"

definition node_context_for :: "execution_config \<Rightarrow> executor \<Rightarrow> string \<Rightarrow> node_context" where
  "node_context_for c ex n =
     \<lparr>nx_state = ex_state ex, nx_config = c, nx_step = ex_step ex,
      nx_resume_value = (if n \<in> set (ex_paused ex) then lookup (xc_resume_values c) n else None)\<rparr>"

definition task_for :: "'w compiled_graph \<Rightarrow> execution_config \<Rightarrow> executor \<Rightarrow> string \<Rightarrow> 'w graph_node \<Rightarrow> 'w node_task" where
  "task_for g c ex n node =
     \<lparr>tk_name = n, tk_node = node, tk_context = node_context_for c ex n, tk_timeout = timeout_policy_for g n,
      tk_retry = retry_policy_for g n, tk_spent = table_or 0 (ex_attempts ex) n,
      tk_recoverable = (error_handler_for g n \<noteq> None)\<rparr>"

definition step_tasks :: "'w compiled_graph \<Rightarrow> execution_config \<Rightarrow> executor \<Rightarrow> string list \<Rightarrow> 'w node_task list" where
  "step_tasks g c ex to_run =
     List.map_filter (\<lambda>n. map_option (task_for g c ex n) (lookup (cg_nodes g) n)) (sort to_run)"

definition step_concurrency :: "'w compiled_graph \<Rightarrow> nat \<Rightarrow> nat" where
  "step_concurrency g pending = max 1 (case cg_max_concurrency g of Some limit \<Rightarrow> min limit pending | None \<Rightarrow> pending)"

definition step_failure :: "'w engine \<Rightarrow> string \<Rightarrow> graph_error \<Rightarrow> graph_error" where
  "step_failure en n e =
     (case e of
        AgentFailed failed source \<Rightarrow> AgentFailed (if failed = n then failed else n @ ''.'' @ failed) source
      | NodeExecutionFailed failed m \<Rightarrow> if failed = n then e else NodeExecutionFailed n (en_text en e)
      | NodeTimedOut failed d \<Rightarrow> if failed = n then e else NodeExecutionFailed n (en_text en e)
      | _ \<Rightarrow> NodeExecutionFailed n (en_text en e))"

definition is_interrupted :: "graph_error \<Rightarrow> bool" where
  "is_interrupted e = (case e of Interrupted _ \<Rightarrow> True | _ \<Rightarrow> False)"

text \<open>One result of the dispatch; a handler's own error ends the collection.\<close>

definition collect_result ::
    "'w engine \<Rightarrow> 'w compiled_graph \<Rightarrow> node_result \<Rightarrow> executor \<times> step_acc \<Rightarrow> graph_error option \<times> executor \<times> step_acc" where
  "collect_result en g = (\<lambda>(n, res, attempts) (ex, acc).
     (case res of
        None \<Rightarrow> (None, ex, acc)
      | Some (Inr out) \<Rightarrow>
          (let ex = ex\<lparr>ex_attempts := AList.delete n (ex_attempts ex)\<rparr> in
           case no_interrupt out of
             Some i \<Rightarrow> (None, ex, acc\<lparr>sc_interrupts := sc_interrupts acc @ [(n, i)]\<rparr>)
           | None \<Rightarrow> (None, collect_write n
               \<lparr>pw_updates = no_updates out, pw_goto = no_goto out, pw_goto_parent = no_goto_parent out\<rparr> (ex, acc)))
      | Some (Inl e) \<Rightarrow>
          (let ex = ex\<lparr>ex_attempts := AList.update n attempts (ex_attempts ex)\<rparr> in
           case (if is_interrupted e then None else error_handler_for g n) of
             Some h \<Rightarrow>
               (case h n e (ex_state ex) of
                  Inl e' \<Rightarrow> (Some e', ex, acc)
                | Inr recovery \<Rightarrow> (None, collect_write n
                    \<lparr>pw_updates = no_updates recovery, pw_goto = no_goto recovery, pw_goto_parent = None\<rparr> (ex, acc)))
           | None \<Rightarrow>
               (None, ex, acc\<lparr>sc_failure := (case sc_failure acc of Some f \<Rightarrow> Some f | None \<Rightarrow> Some (step_failure en n e))\<rparr>))))"

fun collect_results ::
    "'w engine \<Rightarrow> 'w compiled_graph \<Rightarrow> node_result list \<Rightarrow> executor \<times> step_acc \<Rightarrow> graph_error option \<times> executor \<times> step_acc" where
  "collect_results en g [] s = (None, s)"
| "collect_results en g (r # rs) s =
     (case collect_result en g r s of
        (Some e, s') \<Rightarrow> (Some e, s')
      | (None, s') \<Rightarrow> collect_results en g rs s')"

definition undeclared_error :: "'w compiled_graph \<Rightarrow> string \<Rightarrow> string list \<Rightarrow> graph_error option" where
  "undeclared_error g n ks =
     (if \<not> cg_strict_channels g then None else map_option (UndeclaredChannel n) (first_undeclared (cg_schema g) ks))"

text \<open>The updates in (node, channel) order; an undeclared channel stops where it is met.\<close>

fun apply_updates ::
    "'w engine \<Rightarrow> 'w compiled_graph \<Rightarrow> (string \<times> (string, json) table) list \<Rightarrow> graph_state \<Rightarrow> graph_error option \<times> graph_state" where
  "apply_updates en g [] st = (None, st)"
| "apply_updates en g ((n, u) # us) st =
     (case undeclared_error g n (sort (keys u)) of
        Some e \<Rightarrow> (Some e, st)
      | None \<Rightarrow> apply_updates en g us
          (fold (\<lambda>(k, v) st. apply_update (en_numbers en) (cg_schema g) st k v) (sort_key fst u) st))"

definition execute_super_step ::
    "'w engine \<Rightarrow> 'w compiled_graph \<Rightarrow> execution_config \<Rightarrow> executor \<Rightarrow> 'w \<Rightarrow> step_result gresult \<times> executor \<times> 'w" where
  "execute_super_step en g c ex w =
     (case gate_before g ex of
        Some gate \<Rightarrow> (Inr \<lparr>sr_executed = [], sr_interrupts = [gate], sr_goto = [], sr_updates = []\<rparr>, ex, w)
      | None \<Rightarrow>
          (let (to_run, ex, acc) = split_frontier (ex_pending ex) (ex, step_acc_new);
               (outs, ledger, w) = en_dispatch en (step_concurrency g (length to_run)) (step_tasks g c ex to_run) (ex_ledger ex, w);
               ex = ex\<lparr>ex_ledger := ledger\<rparr> in
           case collect_results en g (sort_key fst outs) (ex, acc) of
             (Some e, ex, acc) \<Rightarrow> (Inl e, ex, w)
           | (None, ex, acc) \<Rightarrow>
               (case sc_failure acc of
                  Some e \<Rightarrow> (Inl e, ex\<lparr>ex_writes := sc_writes acc\<rparr>, w)
                | None \<Rightarrow>
                    (let ex = ex\<lparr>ex_writes := []\<rparr> in
                     case apply_updates en g (sort_key fst (sc_all acc)) (ex_state ex) of
                       (Some e, st) \<Rightarrow> (Inl e, ex\<lparr>ex_state := st\<rparr>, w)
                     | (None, st) \<Rightarrow>
                         (Inr \<lparr>sr_executed = sc_executed acc,
                               sr_interrupts = (if sc_interrupts acc = []
                                                then (case gate_after g (sc_executed acc) of Some gate \<Rightarrow> [gate] | None \<Rightarrow> [])
                                                else sc_interrupts acc),
                               sr_goto = sc_goto acc, sr_updates = sc_updates acc\<rparr>,
                          ex\<lparr>ex_state := st\<rparr>, w)))))"

section \<open>Pauses\<close>

definition activation_prefix :: "string \<Rightarrow> nat \<Rightarrow> string" where
  "activation_prefix parent step = parent @ ''@'' @ show_nat step @ ''/''"

definition starts_with :: "string \<Rightarrow> string \<Rightarrow> bool" where
  "starts_with p s \<longleftrightarrow> take (length p) s = p"

definition settle_child_ledger :: "string list \<Rightarrow> executor \<Rightarrow> executor" where
  "settle_child_ledger rerun ex =
     ex\<lparr>ex_ledger := filter (\<lambda>(path, _). list_ex (\<lambda>n. starts_with (activation_prefix n (ex_step ex)) path) rerun) (ex_ledger ex)\<rparr>"

text \<open>A gate answered earlier re-arms once its node has run.\<close>

definition rearm_gate :: "string list \<Rightarrow> executor \<Rightarrow> executor" where
  "rearm_gate executed ex =
     (case ex_cleared ex of
        Some n \<Rightarrow> if n \<in> set executed then ex\<lparr>ex_cleared := None\<rparr> else ex
      | None \<Rightarrow> ex)"

definition pause_frontier :: "'w engine \<Rightarrow> 'w compiled_graph \<Rightarrow> instant \<Rightarrow> step_result \<Rightarrow> executor \<Rightarrow> executor gresult" where
  "pause_frontier en g now res ex =
     (case sr_interrupts res of
        [] \<Rightarrow> Inr ex
      | (_, BeforeNode n) # _ \<Rightarrow> Inr (ex\<lparr>ex_cleared := Some n\<rparr>)
      | (_, AfterNode _) # _ \<Rightarrow>
          result_bind (advance_frontier en g now res [] ex) (\<lambda>(frontier, ex).
            Inr (rearm_gate (sr_executed res) (settle_child_ledger [] (ex\<lparr>ex_pending := frontier\<rparr>))))
      | (_, DynamicPause _ _) # _ \<Rightarrow>
          (let paused = [n \<leftarrow> ex_pending ex. n \<notin> set (sr_executed res)] in
           result_bind (advance_frontier en g now res paused ex) (\<lambda>(frontier, ex).
             Inr (rearm_gate (sr_executed res)
               ((settle_child_ledger paused ex)\<lparr>ex_paused := remdups (sort paused), ex_pending := fold push_new paused frontier\<rparr>)))))"

section \<open>Checkpoints\<close>

definition checkpoint_metadata :: "instant \<Rightarrow> executor \<Rightarrow> (string, cp_metadata) table" where
  "checkpoint_metadata now ex =
     (case fan_in_capture now (ex_deferred ex) (ex_started ex) (ex_abandoned ex) of
        Some snap \<Rightarrow> [(fan_in_metadata_key, MetaFanIn snap)] | None \<Rightarrow> []) @
     (if ex_paused ex = [] then [] else [(paused_nodes_metadata_key, MetaPaused (ex_paused ex))])"

text \<open>The identifier is generated after the version is raised; the clock is read in the world.\<close>

definition build_checkpoint :: "'w engine \<Rightarrow> execution_config \<Rightarrow> executor \<Rightarrow> 'w \<Rightarrow> graph_checkpoint \<times> executor \<times> 'w" where
  "build_checkpoint en c ex w =
     (let ex = ex\<lparr>ex_head := Suc (ex_head ex)\<rparr>; (cid, w) = en_new_id en w; now = en_clock en w in
      ((checkpoint_new cid now (xc_thread_id c) (ex_state ex) (ex_step ex) (ex_pending ex))
         \<lparr>gc_version := ex_head ex, gc_cleared_interrupt := ex_cleared ex, gc_attempts := ex_attempts ex,
          gc_child_ledger := ex_ledger ex, gc_pending_writes := ex_writes ex, gc_metadata := checkpoint_metadata now ex\<rparr>,
       ex, w))"

definition write_checkpoint :: "'w checkpointer \<Rightarrow> retention_policy option \<Rightarrow> graph_checkpoint \<Rightarrow> 'w \<Rightarrow> string gresult \<times> 'w" where
  "write_checkpoint ck retention cp w =
     (case ck_save ck cp w of
        (Inl e, w) \<Rightarrow> (Inl e, w)
      | (Inr cid, w) \<Rightarrow>
          (case retention of
             None \<Rightarrow> (Inr cid, w)
           | Some p \<Rightarrow> (let (r, w) = ck_prune ck (gc_thread_id cp) p w in (map_sum id (\<lambda>_. cid) r, w))))"

definition await_inflight :: "'w compiled_graph \<Rightarrow> executor \<Rightarrow> 'w \<Rightarrow> unit gresult \<times> executor \<times> 'w" where
  "await_inflight g ex w =
     (case (ex_inflight ex, cg_checkpointer g) of
        (Some (Written r), _) \<Rightarrow> (map_sum id (\<lambda>_. ()) r, ex\<lparr>ex_inflight := None\<rparr>, w)
      | (Some (Writing cp), Some ck) \<Rightarrow>
          (let (r, w) = write_checkpoint ck (cg_retention g) cp w in (map_sum id (\<lambda>_. ()) r, ex\<lparr>ex_inflight := None\<rparr>, w))
      | _ \<Rightarrow> (Inr (), ex\<lparr>ex_inflight := None\<rparr>, w))"

definition save_checkpoint :: "'w engine \<Rightarrow> 'w compiled_graph \<Rightarrow> execution_config \<Rightarrow> executor \<Rightarrow> 'w \<Rightarrow> string gresult \<times> executor \<times> 'w" where
  "save_checkpoint en g c ex w =
     (case await_inflight g ex w of
        (Inl e, ex, w) \<Rightarrow> (Inl e, ex, w)
      | (Inr _, ex, w) \<Rightarrow>
          (case cg_checkpointer g of
             None \<Rightarrow> (Inr [], ex, w)
           | Some ck \<Rightarrow>
               (let (cp, ex, w) = build_checkpoint en c ex w; (r, w) = write_checkpoint ck (cg_retention g) cp w in
                (r, ex\<lparr>ex_unsaved := False\<rparr>, w))))"

definition unit_of :: "'a gresult \<times> executor \<times> 'w \<Rightarrow> unit gresult \<times> executor \<times> 'w" where
  "unit_of = (\<lambda>(r, s). (map_sum id (\<lambda>_. ()) r, s))"

definition checkpoint_step :: "'w engine \<Rightarrow> 'w compiled_graph \<Rightarrow> execution_config \<Rightarrow> executor \<Rightarrow> 'w \<Rightarrow> unit gresult \<times> executor \<times> 'w" where
  "checkpoint_step en g c ex w =
     (case cg_checkpointer g of
        None \<Rightarrow> (Inr (), ex, w)
      | Some ck \<Rightarrow>
          (case xc_durability c of
             DurableSync \<Rightarrow> unit_of (save_checkpoint en g c ex w)
           | DurableAsync \<Rightarrow>
               (case await_inflight g ex w of
                  (Inl e, ex, w) \<Rightarrow> (Inl e, ex, w)
                | (Inr _, ex, w) \<Rightarrow>
                    (let (cp, ex, w) = build_checkpoint en c ex w; ex = ex\<lparr>ex_unsaved := False\<rparr> in
                     if en_prompt en w
                     then (let (r, w) = write_checkpoint ck (cg_retention g) cp w in (Inr (), ex\<lparr>ex_inflight := Some (Written r)\<rparr>, w))
                     else (Inr (), ex\<lparr>ex_inflight := Some (Writing cp)\<rparr>, w)))
           | DurableExit \<Rightarrow> (Inr (), ex\<lparr>ex_unsaved := True\<rparr>, w)))"

definition finish_checkpoints :: "'w engine \<Rightarrow> 'w compiled_graph \<Rightarrow> execution_config \<Rightarrow> executor \<Rightarrow> 'w \<Rightarrow> unit gresult \<times> executor \<times> 'w" where
  "finish_checkpoints en g c ex w =
     (case await_inflight g ex w of
        (Inl e, ex, w) \<Rightarrow> (Inl e, ex, w)
      | (Inr _, ex, w) \<Rightarrow> if ex_unsaved ex then unit_of (save_checkpoint en g c ex w) else (Inr (), ex, w))"

definition flush_before_side_effects :: "'w engine \<Rightarrow> 'w compiled_graph \<Rightarrow> execution_config \<Rightarrow> executor \<Rightarrow> 'w \<Rightarrow> unit gresult \<times> executor \<times> 'w" where
  "flush_before_side_effects en g c ex w =
     (if list_ex (\<lambda>n. lookup (cg_node_effects g) n = Some NonIdempotent) (ex_pending ex)
      then finish_checkpoints en g c ex w else (Inr (), ex, w))"

text \<open>A failure to write is only logged.\<close>

definition checkpoint_failed_step :: "'w engine \<Rightarrow> 'w compiled_graph \<Rightarrow> execution_config \<Rightarrow> executor \<Rightarrow> 'w \<Rightarrow> executor \<times> 'w" where
  "checkpoint_failed_step en g c ex w =
     (if list_ex (\<lambda>n. retry_policy_for g n \<noteq> None) (ex_pending ex) \<or> ex_writes ex \<noteq> [] \<or> ex_unsaved ex
      then snd (save_checkpoint en g c ex w) else snd (await_inflight g ex w))"

section \<open>Resuming\<close>

text \<open>The checkpoint a run starts from: the named one, or the thread's newest.\<close>

definition load_start :: "'w compiled_graph \<Rightarrow> execution_config \<Rightarrow> 'w \<Rightarrow> graph_checkpoint option gresult \<times> 'w" where
  "load_start g c w =
     (case cg_checkpointer g of
        None \<Rightarrow> (Inr None, w)
      | Some ck \<Rightarrow> (case xc_resume_from c of Some cid \<Rightarrow> ck_load_by_id ck cid w | None \<Rightarrow> ck_load ck (xc_thread_id c) w))"

text \<open>A fork from an earlier checkpoint continues after the thread's newest.\<close>

definition start_head :: "'w compiled_graph \<Rightarrow> execution_config \<Rightarrow> graph_checkpoint \<Rightarrow> 'w \<Rightarrow> nat gresult \<times> 'w" where
  "start_head g c cp w =
     (case (xc_resume_from c, cg_checkpointer g) of
        (Some _, Some ck) \<Rightarrow>
          (case ck_load ck (gc_thread_id cp) w of
             (Inl e, w) \<Rightarrow> (Inl e, w)
           | (Inr None, w) \<Rightarrow> (Inr (gc_version cp), w)
           | (Inr (Some newest), w) \<Rightarrow> (Inr (max (gc_version cp) (gc_version newest)), w))
      | _ \<Rightarrow> (Inr (gc_version cp), w))"

definition restore_fan_in :: "'w compiled_graph \<Rightarrow> instant \<Rightarrow> graph_checkpoint \<Rightarrow> executor \<Rightarrow> executor" where
  "restore_fan_in g now cp ex =
     (case lookup (gc_metadata cp) fan_in_metadata_key of
        Some (MetaFanIn snap) \<Rightarrow>
          (let r = fan_in_restore now (get_upstream_nodes g) snap in
           ex\<lparr>ex_deferred := rf_trackers r, ex_started := rf_started r, ex_abandoned := rf_abandoned r\<rparr>)
      | _ \<Rightarrow> ex)"

definition restore_paused :: "graph_checkpoint \<Rightarrow> executor \<Rightarrow> executor" where
  "restore_paused cp ex =
     (case lookup (gc_metadata cp) paused_nodes_metadata_key of
        Some (MetaPaused ns) \<Rightarrow> ex\<lparr>ex_paused := ns\<rparr>
      | _ \<Rightarrow> ex)"

definition restore_checkpoint :: "'w compiled_graph \<Rightarrow> instant \<Rightarrow> graph_checkpoint \<Rightarrow> executor \<Rightarrow> executor" where
  "restore_checkpoint g now cp ex =
     restore_paused cp (restore_fan_in g now cp
       (ex\<lparr>ex_pending := gc_pending_nodes cp, ex_cleared := gc_cleared_interrupt cp, ex_attempts := gc_attempts cp,
          ex_ledger := gc_child_ledger cp, ex_writes := gc_pending_writes cp\<rparr>))"

definition try_resume_from_checkpoint ::
    "'w engine \<Rightarrow> 'w compiled_graph \<Rightarrow> execution_config \<Rightarrow> (string, json) table \<Rightarrow> executor \<Rightarrow> 'w \<Rightarrow> bool gresult \<times> executor \<times> 'w" where
  "try_resume_from_checkpoint en g c input ex w =
     (case load_start g c w of
        (Inl e, w) \<Rightarrow> (Inl e, ex, w)
      | (Inr None, w) \<Rightarrow> (Inr False, ex, w)
      | (Inr (Some cp), w) \<Rightarrow>
          (case start_head g c cp w of
             (Inl e, w) \<Rightarrow> (Inl e, ex, w)
           | (Inr head, w) \<Rightarrow>
               (let ex = ex\<lparr>ex_head := head, ex_state := gc_state cp, ex_step := gc_step cp\<rparr>;
                    now = en_clock en w;
                    restored =
                      (if gc_pending_nodes cp = [] \<and> ex_restart ex \<and> xc_resume_from c = None
                       then map_sum id (\<lambda>(frontier, ex). ex\<lparr>ex_pending := frontier, ex_run_start := gc_step cp\<rparr>) (entry_frontier en g now ex)
                       else Inr (restore_checkpoint g now cp ex)) in
                case restored of
                  Inl e \<Rightarrow> (Inl e, ex, w)
                | Inr ex \<Rightarrow>
                    (Inr True, ex\<lparr>ex_state := apply_input (en_numbers en) (cg_schema g) input (ex_state ex)\<rparr>, w))))"

definition initialize_state ::
    "'w engine \<Rightarrow> 'w compiled_graph \<Rightarrow> execution_config \<Rightarrow> (string, json) table \<Rightarrow> 'w \<Rightarrow> graph_state gresult \<times> 'w" where
  "initialize_state en g c input w =
     (case load_start g c w of
        (Inl e, w) \<Rightarrow> (Inl e, w)
      | (Inr found, w) \<Rightarrow>
          (let st = (case found of Some cp \<Rightarrow> gc_state cp | None \<Rightarrow> schema_initial_state (cg_schema g)) in
           (Inr (apply_input (en_numbers en) (cg_schema g) input st), w)))"

section \<open>The main loop\<close>

definition recursion_limit :: "'w compiled_graph \<Rightarrow> execution_config \<Rightarrow> nat" where
  "recursion_limit g c = (case xc_recursion_limit c of Some l \<Rightarrow> l | None \<Rightarrow> cg_recursion_limit g)"

datatype 'w loop_step = Returned "graph_state gresult" executor 'w | Continues executor 'w

definition paused_run :: "'w engine \<Rightarrow> 'w compiled_graph \<Rightarrow> execution_config \<Rightarrow> step_result \<Rightarrow> executor \<Rightarrow> 'w \<Rightarrow> 'w loop_step" where
  "paused_run en g c res ex w =
     (case pause_frontier en g (en_clock en w) res ex of
        Inl e \<Rightarrow> Returned (Inl e) ex w
      | Inr ex \<Rightarrow>
          (case save_checkpoint en g c ex w of
             (Inl e, ex, w) \<Rightarrow> Returned (Inl e) ex w
           | (Inr cid, ex, w) \<Rightarrow>
               Returned (Inl (Interrupted (interrupted_new (xc_thread_id c) cid (snd (hd (sr_interrupts res)))
                 (map snd (sr_interrupts res)) (ex_state ex) (ex_step ex)))) ex w))"

definition completed_step :: "'w engine \<Rightarrow> 'w compiled_graph \<Rightarrow> execution_config \<Rightarrow> step_result \<Rightarrow> executor \<Rightarrow> 'w \<Rightarrow> 'w loop_step" where
  "completed_step en g c res ex w =
     (let ex = rearm_gate (sr_executed res) ex in
      case advance_frontier en g (en_clock en w) res [] ex of
        Inl e \<Rightarrow> Returned (Inl e) ex w
      | Inr (frontier, ex) \<Rightarrow>
          (let ex = settle_child_ledger [] (ex\<lparr>ex_pending := frontier\<rparr>);
               ex = ex\<lparr>ex_paused := [n \<leftarrow> ex_paused ex. n \<notin> set (sr_executed res)], ex_step := Suc (ex_step ex)\<rparr> in
           case checkpoint_step en g c ex w of
             (Inl e, ex, w) \<Rightarrow> Returned (Inl e) ex w
           | (Inr _, ex, w) \<Rightarrow> Continues ex w))"

definition run_step :: "'w engine \<Rightarrow> 'w compiled_graph \<Rightarrow> execution_config \<Rightarrow> executor \<Rightarrow> 'w \<Rightarrow> 'w loop_step" where
  "run_step en g c ex w =
     (if ex_pending ex = [] then
        (case finish_checkpoints en g c ex w of
           (Inl e, ex, w) \<Rightarrow> Returned (Inl e) ex w
         | (Inr _, ex, w) \<Rightarrow> Returned (Inr (ex_state ex)) ex w)
      else
        (let steps_taken = ex_step ex - ex_run_start ex in
         if recursion_limit g c \<le> steps_taken then Returned (Inl (RecursionLimitExceeded steps_taken)) ex w
         else
           (case flush_before_side_effects en g c ex w of
              (Inl e, ex, w) \<Rightarrow> Returned (Inl e) ex w
            | (Inr _, ex, w) \<Rightarrow>
                (case execute_super_step en g c ex w of
                   (Inl e, ex, w) \<Rightarrow> (let (ex, w) = checkpoint_failed_step en g c ex w in Returned (Inl e) ex w)
                 | (Inr res, ex, w) \<Rightarrow>
                     if sr_interrupts res \<noteq> [] then paused_run en g c res ex w else completed_step en g c res ex w))))"

end
