(* ===== verification/Graph_Loop.thy ===== *)
theory Graph_Loop
  imports Graph_Run
begin

text \<open>
  The main loop ends: each round counts one step up, and the recursion limit bounds the steps of a run.
  The frame lemmas say which fields of the executor an operation leaves alone.
\<close>

section \<open>What the operations leave alone\<close>

text \<open>The fields no operation of a step changes, apart from the loop itself.\<close>

definition anchor :: "executor \<Rightarrow> nat \<times> nat \<times> bool" where
  "anchor ex = (ex_step ex, ex_run_start ex, ex_restart ex)"

lemma anchor_updates [simp]:
  "anchor (ex\<lparr>ex_state := a\<rparr>) = anchor ex" "anchor (ex\<lparr>ex_pending := b\<rparr>) = anchor ex"
  "anchor (ex\<lparr>ex_goto_parent := c\<rparr>) = anchor ex" "anchor (ex\<lparr>ex_deferred := d\<rparr>) = anchor ex"
  "anchor (ex\<lparr>ex_started := e\<rparr>) = anchor ex" "anchor (ex\<lparr>ex_abandoned := f\<rparr>) = anchor ex"
  "anchor (ex\<lparr>ex_attempts := h\<rparr>) = anchor ex" "anchor (ex\<lparr>ex_ledger := i\<rparr>) = anchor ex"
  "anchor (ex\<lparr>ex_cleared := j\<rparr>) = anchor ex" "anchor (ex\<lparr>ex_head := k\<rparr>) = anchor ex"
  "anchor (ex\<lparr>ex_writes := l\<rparr>) = anchor ex" "anchor (ex\<lparr>ex_inflight := m\<rparr>) = anchor ex"
  "anchor (ex\<lparr>ex_unsaved := n\<rparr>) = anchor ex" "anchor (ex\<lparr>ex_paused := p\<rparr>) = anchor ex"
  by (simp_all add: anchor_def)

text \<open>Those that only saving a checkpoint changes.\<close>

definition frame :: "executor \<Rightarrow> (nat \<times> nat \<times> bool) \<times> nat \<times> inflight_write option \<times> bool" where
  "frame ex = (anchor ex, ex_head ex, ex_inflight ex, ex_unsaved ex)"

lemma frame_updates [simp]:
  "frame (ex\<lparr>ex_state := a\<rparr>) = frame ex" "frame (ex\<lparr>ex_pending := b\<rparr>) = frame ex"
  "frame (ex\<lparr>ex_goto_parent := c\<rparr>) = frame ex" "frame (ex\<lparr>ex_deferred := d\<rparr>) = frame ex"
  "frame (ex\<lparr>ex_started := e\<rparr>) = frame ex" "frame (ex\<lparr>ex_abandoned := f\<rparr>) = frame ex"
  "frame (ex\<lparr>ex_attempts := h\<rparr>) = frame ex" "frame (ex\<lparr>ex_ledger := i\<rparr>) = frame ex"
  "frame (ex\<lparr>ex_cleared := j\<rparr>) = frame ex"
  "frame (ex\<lparr>ex_writes := l\<rparr>) = frame ex"
  "frame (ex\<lparr>ex_paused := p\<rparr>) = frame ex"
  by (simp_all add: frame_def)

lemma frame_admit [simp]: "frame (snd (admit_candidate g now routes updates cand s)) = frame (snd s)"
  by (cases s) (auto simp: admit_candidate_def Let_def split: prod.splits)

lemma frame_admits [simp]: "frame (snd (fold (admit_candidate g now routes updates) cands s)) = frame (snd s)"
  by (induction cands arbitrary: s) simp_all

lemma frame_release: "release_join en g j chk ex = Inr ex' \<Longrightarrow> frame ex' = frame ex"
  by (auto simp: release_join_def Let_def split: option.splits if_splits)

lemma frame_releases: "release_joins en g js ex = Inr ex' \<Longrightarrow> frame ex' = frame ex"
  by (induction js arbitrary: ex) (auto dest!: frame_release)

lemma frame_visit: "visit_join en g now fl wt j (r, q, ex) = Inr (r', q', ex') \<Longrightarrow> frame ex' = frame ex"
  by (auto simp: visit_join_def Let_def dest!: frame_release split: option.splits if_splits)

lemma frame_visits: "visit_joins en g now fl wt js (r, q, ex) = Inr (r', q', ex') \<Longrightarrow> frame ex' = frame ex"
proof (induction js arbitrary: r q ex)
  case (Cons j js)
  then obtain r1 q1 ex1 where "visit_join en g now fl wt j (r, q, ex) = Inr (r1, q1, ex1)"
      "visit_joins en g now fl wt js (r1, q1, ex1) = Inr (r', q', ex')" by auto
  with Cons.IH [OF this(2)] frame_visit [OF this(1)] show ?case by simp
qed simp

lemma frame_filter: "filter_deferred_nodes en g now cands routes updates fl ex = Inr (frontier, ex') \<Longrightarrow> frame ex' = frame ex"
proof -
  obtain r1 ex1 where f: "fold (admit_candidate g now routes updates) cands ([], ex) = (r1, ex1)" by fastforce
  with frame_admits [of g now routes updates cands "([], ex)"] have "frame ex1 = frame ex" by simp
  then show "filter_deferred_nodes en g now cands routes updates fl ex = Inr (frontier, ex') \<Longrightarrow> ?thesis"
    by (auto simp: filter_deferred_nodes_def f Let_def dest!: frame_visits frame_releases split: if_splits)
qed

lemma frame_advance: "advance_frontier en g now res fl ex = Inr (frontier, ex') \<Longrightarrow> frame ex' = frame ex"
  by (auto simp: advance_frontier_def dest!: frame_filter)

lemma frame_rearm [simp]: "frame (rearm_gate executed ex) = frame ex"
  by (simp add: rearm_gate_def split: option.split)

lemma frame_settle [simp]: "frame (settle_child_ledger ns ex) = frame ex"
  by (simp add: settle_child_ledger_def)

lemma frame_pause: "pause_frontier en g now res ex = Inr ex' \<Longrightarrow> frame ex' = frame ex"
  by (auto simp: pause_frontier_def Let_def dest!: frame_advance split: list.splits prod.splits interrupt.splits)

lemma frame_collect_write [simp]: "frame (fst (collect_write n x s)) = frame (fst s)"
  by (cases s) (simp add: collect_write_def split: option.split)

lemma frame_split: "split_frontier ns s = (t, s') \<Longrightarrow> frame (fst s') = frame (fst s)"
proof (induction ns s arbitrary: t rule: split_frontier.induct)
  case (2 n ns ex acc)
  then show ?case by (auto split: option.splits prod.splits)
qed simp

lemma frame_collect: "collect_result en g r s = (e, s') \<Longrightarrow> frame (fst s') = frame (fst s)"
  by (cases r; cases s)
    (auto simp: collect_result_def Let_def collect_write_def split: option.splits sum.splits if_splits)

lemma frame_collects: "collect_results en g rs s = (e, s') \<Longrightarrow> frame (fst s') = frame (fst s)"
  by (induction en g rs s rule: collect_results.induct) (auto split: prod.splits option.splits dest!: frame_collect)

lemma frame_super_step: "execute_super_step en g c ex w = (r, ex', w') \<Longrightarrow> frame ex' = frame ex"
  by (auto simp: execute_super_step_def Let_def dest!: frame_split frame_collects split: option.splits prod.splits)

lemma frame_anchor: "frame ex' = frame ex \<Longrightarrow> anchor ex' = anchor ex"
  by (simp add: frame_def)

lemmas anchor_advance = frame_advance [THEN frame_anchor]
  and anchor_pause = frame_pause [THEN frame_anchor]
  and anchor_super_step = frame_super_step [THEN frame_anchor]

lemma anchor_rearm [simp]: "anchor (rearm_gate executed ex) = anchor ex"
  by (rule frame_anchor) simp

lemma anchor_settle [simp]: "anchor (settle_child_ledger ns ex) = anchor ex"
  by (rule frame_anchor) simp

lemma anchor_await: "await_inflight g ex w = (r, ex', w') \<Longrightarrow> anchor ex' = anchor ex"
  by (auto simp: await_inflight_def split: option.splits inflight_write.splits prod.splits)

lemma anchor_build: "build_checkpoint en c ex w = (cp, ex', w') \<Longrightarrow> anchor ex' = anchor ex"
  by (auto simp: build_checkpoint_def Let_def split: prod.splits)

lemma anchor_save: "save_checkpoint en g c ex w = (r, ex', w') \<Longrightarrow> anchor ex' = anchor ex"
  by (auto simp: save_checkpoint_def dest!: anchor_await anchor_build split: prod.splits sum.splits option.splits)

lemma anchor_checkpoint_step: "checkpoint_step en g c ex w = (r, ex', w') \<Longrightarrow> anchor ex' = anchor ex"
  by (auto simp: checkpoint_step_def unit_of_def Let_def dest!: anchor_await anchor_build anchor_save
      split: prod.splits sum.splits option.splits durability.splits if_splits)

lemma anchor_finish: "finish_checkpoints en g c ex w = (r, ex', w') \<Longrightarrow> anchor ex' = anchor ex"
  by (auto simp: finish_checkpoints_def unit_of_def dest!: anchor_await anchor_save split: prod.splits sum.splits if_splits)

lemma anchor_flush: "flush_before_side_effects en g c ex w = (r, ex', w') \<Longrightarrow> anchor ex' = anchor ex"
  by (auto simp: flush_before_side_effects_def dest: anchor_finish split: if_splits)

section \<open>The loop\<close>

lemma run_step_advances:
  "run_step en g c ex w = Continues ex' w' \<Longrightarrow>
   ex_step ex' = Suc (ex_step ex) \<and> ex_run_start ex' = ex_run_start ex \<and> ex_step ex - ex_run_start ex < recursion_limit g c"
proof -
  assume run: "run_step en g c ex w = Continues ex' w'"
  then obtain ex1 w1 res ex2 w2 where limit: "ex_step ex - ex_run_start ex < recursion_limit g c"
      and flush: "flush_before_side_effects en g c ex w = (Inr (), ex1, w1)"
      and super: "execute_super_step en g c ex1 w1 = (Inr res, ex2, w2)"
      and done_: "completed_step en g c res ex2 w2 = Continues ex' w'"
    by (auto simp: run_step_def Let_def paused_run_def split: if_splits prod.splits sum.splits)
  from done_ obtain frontier ex3 where adv: "advance_frontier en g (en_clock en w2) res [] (rearm_gate (sr_executed res) ex2) = Inr (frontier, ex3)"
    by (auto simp: completed_step_def Let_def split: sum.splits)
  let ?ex4 = "settle_child_ledger [] (ex3\<lparr>ex_pending := frontier\<rparr>)"
  let ?ex5 = "?ex4\<lparr>ex_paused := [n \<leftarrow> ex_paused ?ex4. n \<notin> set (sr_executed res)], ex_step := Suc (ex_step ?ex4)\<rparr>"
  have chk: "checkpoint_step en g c ?ex5 w2 = (Inr (), ex', w')"
    using done_ adv by (auto simp: completed_step_def Let_def split: prod.splits sum.splits)
  have "anchor ?ex4 = anchor ex" using anchor_flush [OF flush] anchor_super_step [OF super] anchor_advance [OF adv] by simp
  then have "anchor ?ex5 = (Suc (ex_step ex), ex_run_start ex, ex_restart ex)" by (simp add: anchor_def)
  with anchor_checkpoint_step [OF chk] limit show ?thesis by (simp add: anchor_def)
qed

function run_loop :: "'w engine \<Rightarrow> 'w compiled_graph \<Rightarrow> execution_config \<Rightarrow> executor \<Rightarrow> 'w \<Rightarrow> graph_state gresult \<times> executor \<times> 'w" where
  "run_loop en g c ex w =
     (case run_step en g c ex w of
        Returned r ex' w' \<Rightarrow> (r, ex', w')
      | Continues ex' w' \<Rightarrow> run_loop en g c ex' w')"
  by pat_completeness auto
termination
  by (relation "measure (\<lambda>(en, g, c, ex, w). recursion_limit g c + ex_run_start ex - ex_step ex)")
    (auto dest!: run_step_advances)

declare run_loop.simps [simp del]

definition graph_run ::
    "'w engine \<Rightarrow> 'w compiled_graph \<Rightarrow> execution_config \<Rightarrow> (string, json) table \<Rightarrow> executor \<Rightarrow> 'w
     \<Rightarrow> graph_state gresult \<times> executor \<times> 'w" where
  "graph_run en g c input ex w =
     (case try_resume_from_checkpoint en g c input ex w of
        (Inl e, ex, w) \<Rightarrow> (Inl e, ex, w)
      | (Inr True, ex, w) \<Rightarrow> run_loop en g c ex w
      | (Inr False, ex, w) \<Rightarrow>
          (case initialize_state en g c input w of
             (Inl e, w) \<Rightarrow> (Inl e, ex, w)
           | (Inr st, w) \<Rightarrow>
               (case entry_frontier en g (en_clock en w) (ex\<lparr>ex_state := st\<rparr>) of
                  Inl e \<Rightarrow> (Inl e, ex, w)
                | Inr (frontier, ex) \<Rightarrow> run_loop en g c (ex\<lparr>ex_pending := frontier\<rparr>) w)))"

text \<open>\<^verbatim>\<open>CompiledGraph::invoke_detailed\<close>: the final state and the parent nodes asked for.\<close>

definition invoke_detailed ::
    "'w engine \<Rightarrow> 'w compiled_graph \<Rightarrow> (string, json) table \<Rightarrow> execution_config \<Rightarrow> 'w
     \<Rightarrow> (graph_state \<times> string list option) gresult \<times> 'w" where
  "invoke_detailed en g input c w =
     (let (r, ex, w) = graph_run en g c input executor_new w in (map_sum id (\<lambda>st. (st, ex_goto_parent ex)) r, w))"

definition invoke :: "'w engine \<Rightarrow> 'w compiled_graph \<Rightarrow> (string, json) table \<Rightarrow> execution_config \<Rightarrow> 'w \<Rightarrow> graph_state gresult \<times> 'w" where
  "invoke en g input c w = (let (r, w) = invoke_detailed en g input c w in (map_sum id fst r, w))"

section \<open>State of a thread, and time travel\<close>

definition get_state :: "'w compiled_graph \<Rightarrow> string \<Rightarrow> 'w \<Rightarrow> graph_state option gresult \<times> 'w" where
  "get_state g tid w =
     (case cg_checkpointer g of
        None \<Rightarrow> (Inr None, w)
      | Some ck \<Rightarrow> (let (r, w) = ck_load ck tid w in (map_sum id (map_option gc_state) r, w)))"

definition carried_metadata :: "(string, cp_metadata) table \<Rightarrow> (string, cp_metadata) table" where
  "carried_metadata m =
     List.map_filter (\<lambda>k. map_option (Pair k) (lookup m k)) [fan_in_metadata_key, paused_nodes_metadata_key]"

definition update_state :: "'w engine \<Rightarrow> 'w compiled_graph \<Rightarrow> string \<Rightarrow> (string \<times> json) list \<Rightarrow> 'w \<Rightarrow> unit gresult \<times> 'w" where
  "update_state en g tid updates w =
     (case cg_checkpointer g of
        None \<Rightarrow> (Inr (), w)
      | Some ck \<Rightarrow>
          (case ck_load ck tid w of
             (Inl e, w) \<Rightarrow> (Inl e, w)
           | (Inr None, w) \<Rightarrow> (Inr (), w)
           | (Inr (Some cp), w) \<Rightarrow>
               (let st = apply_input (en_numbers en) (cg_schema g) updates (gc_state cp);
                    (cid, w) = en_new_id en w;
                    cp' = (checkpoint_new cid (en_clock en w) tid st (gc_step cp) (gc_pending_nodes cp))
                      \<lparr>gc_version := Suc (gc_version cp), gc_cleared_interrupt := gc_cleared_interrupt cp,
                       gc_attempts := gc_attempts cp, gc_child_ledger := gc_child_ledger cp,
                       gc_pending_writes := gc_pending_writes cp, gc_metadata := carried_metadata (gc_metadata cp)\<rparr>;
                    (r, w) = ck_save ck cp' w in
                (map_sum id (\<lambda>_. ()) r, w))))"

definition no_such_step :: "string \<Rightarrow> nat \<Rightarrow> graph_error" where
  "no_such_step tid step =
     CheckpointError (''no checkpoint found at step '' @ show_nat step @ '' for thread '' @ quoted tid)"

definition fork_at :: "'w engine \<Rightarrow> 'w checkpointer \<Rightarrow> string \<Rightarrow> nat \<Rightarrow> string \<Rightarrow> 'w \<Rightarrow> unit gresult \<times> 'w" where
  "fork_at en ck tid step new_tid w =
     (case ck_list ck tid w of
        (Inl e, w) \<Rightarrow> (Inl e, w)
      | (Inr cs, w) \<Rightarrow>
          (case find (\<lambda>cp. gc_step cp = step) cs of
             None \<Rightarrow> (Inl (no_such_step tid step), w)
           | Some cp \<Rightarrow>
               (case ck_load ck new_tid w of
                  (Inl e, w) \<Rightarrow> (Inl e, w)
                | (Inr newest, w) \<Rightarrow>
                    (let version = (case newest of Some n \<Rightarrow> Suc (gc_version n) | None \<Rightarrow> 1);
                         (cid, w) = en_new_id en w;
                         forked = (checkpoint_new cid (en_clock en w) new_tid (gc_state cp) (gc_step cp) (gc_pending_nodes cp))
                           \<lparr>gc_version := version\<rparr>;
                         (r, w) = ck_save ck forked w in
                     (map_sum id (\<lambda>_. ()) r, w)))))"

definition resume_from ::
    "'w engine \<Rightarrow> 'w compiled_graph \<Rightarrow> 'w checkpointer \<Rightarrow> string \<Rightarrow> nat \<Rightarrow> execution_config \<Rightarrow> 'w \<Rightarrow> graph_state gresult \<times> 'w" where
  "resume_from en g ck tid step c w =
     (case ck_list ck tid w of
        (Inl e, w) \<Rightarrow> (Inl e, w)
      | (Inr cs, w) \<Rightarrow>
          (case find (\<lambda>cp. gc_step cp = step) cs of
             None \<Rightarrow> (Inl (no_such_step tid step), w)
           | Some cp \<Rightarrow>
               invoke en g []
                 ((execution_config_new (xc_thread_id c))\<lparr>xc_resume_from := Some (gc_checkpoint_id cp), xc_recursion_limit := xc_recursion_limit c\<rparr>) w))"

definition state_history :: "'w checkpointer \<Rightarrow> string \<Rightarrow> nat \<Rightarrow> nat option \<Rightarrow> 'w \<Rightarrow> (nat \<times> graph_state) list gresult \<times> 'w" where
  "state_history ck tid from_step to_step w =
     (case ck_list ck tid w of
        (Inl e, w) \<Rightarrow> (Inl e, w)
      | (Inr cs, w) \<Rightarrow>
          (let results = map (\<lambda>cp. (gc_step cp, gc_state cp))
                 [cp \<leftarrow> sort_key gc_step cs. from_step \<le> gc_step cp \<and> (case to_step of Some e \<Rightarrow> gc_step cp \<le> e | None \<Rightarrow> True)] in
           if results = [] \<or> fst (hd results) \<noteq> from_step then (Inl (no_such_step tid from_step), w)
           else (Inr results, w)))"

end
