(* ===== verification/Graph_Inv.thy ===== *)
theory Graph_Inv
  imports Graph_Loop
begin

text \<open>
  The invariant of the executor's state: the frontier names nodes of the graph, each once; a waiting join
  has a tracker of its own predecessors with its arrivals in order and a start time; sets are kept sorted.
  It holds when a run starts and every round of the loop keeps it.
\<close>

section \<open>Graphs whose edges lead to nodes\<close>

fun edge_ok :: "'w compiled_graph \<Rightarrow> graph_edge \<Rightarrow> bool" where
  "edge_ok g (EntryEdge ts) = (distinct ts \<and> set ts \<subseteq> set (keys (cg_nodes g)))"
| "edge_ok g e = (edge_error (cg_nodes g) e = None)"

definition graph_ok :: "'w compiled_graph \<Rightarrow> bool" where
  "graph_ok g \<longleftrightarrow> (\<forall>e \<in> set (cg_edges g). edge_ok g e)"

fun entries_distinct :: "graph_edge list \<Rightarrow> bool" where
  "entries_distinct [] = True"
| "entries_distinct (EntryEdge ts # es) = (distinct ts \<and> entries_distinct es)"
| "entries_distinct (e # es) = entries_distinct es"

lemma entries_distinct_append [simp]: "entries_distinct (xs @ ys) \<longleftrightarrow> entries_distinct xs \<and> entries_distinct ys"
  by (induction xs rule: entries_distinct.induct) auto

lemma entries_distinct_add [simp]: "entries_distinct es \<Longrightarrow> entries_distinct (add_entry_target n es)"
  by (induction n es rule: add_entry_target.induct) auto

lemma builder_entries [simp]:
  "entries_distinct (sg_edges (state_graph_new sch))"
  "entries_distinct (sg_edges g) \<Longrightarrow> entries_distinct (sg_edges (add_node n nd g))"
  "entries_distinct (sg_edges g) \<Longrightarrow> entries_distinct (sg_edges (mark_deferred n cf g))"
  "entries_distinct (sg_edges g) \<Longrightarrow> entries_distinct (sg_edges (add_edge s d g))"
  "entries_distinct (sg_edges g) \<Longrightarrow> entries_distinct (sg_edges (add_conditional_edges s r ts g))"
  by (auto simp: state_graph_new_def add_node_def mark_deferred_def add_edge_def add_conditional_edges_def Let_def
      split: edge_target.split)

lemma first_error_None [simp]: "first_error f xs = None \<longleftrightarrow> (\<forall>x \<in> set xs. f x = None)"
  by (induction xs) (auto split: option.splits)

lemma target_error_None [simp]:
  "target_error nodes (TargetNode n) = None \<longleftrightarrow> n \<in> set (keys nodes)" "target_error nodes TargetEnd = None"
  by (auto simp: target_error_def lookup_None_keys)

lemma entries_distinct_mem: "entries_distinct es \<Longrightarrow> EntryEdge ts \<in> set es \<Longrightarrow> distinct ts"
  by (induction es rule: entries_distinct.induct) auto

lemma compile_graph_ok:
  assumes "compile_graph sg = Inr g" "entries_distinct (sg_edges sg)"
  shows "graph_ok g"
proof -
  have g: "cg_nodes g = sg_nodes sg" "cg_edges g = sg_edges sg"
    and valid: "\<forall>e \<in> set (sg_edges sg). edge_error (sg_nodes sg) e = None"
    using assms(1) by (auto simp: compile_graph_def validate_graph_def split: option.splits if_splits)
  have "edge_ok g e" if "e \<in> set (sg_edges sg)" for e
  proof (cases e)
    case (EntryEdge ts)
    with valid that entries_distinct_mem [OF assms(2)] show ?thesis by (fastforce simp: g edge_error_def)
  qed (use valid that in \<open>simp_all add: g\<close>)
  then show ?thesis by (simp add: graph_ok_def g)
qed

lemma edge_ok_direct: "edge_ok g (DirectEdge s (TargetNode n)) \<Longrightarrow> n \<in> set (keys (cg_nodes g))"
  by (simp add: edge_error_def split: if_splits)

lemma edge_ok_conditional:
  "edge_ok g (ConditionalEdge s r ts) \<Longrightarrow> lookup ts route = Some (TargetNode n) \<Longrightarrow> n \<in> set (keys (cg_nodes g))"
  by (auto simp: edge_error_def dest!: lookup_mem split: if_splits)

lemma entry_nodes_ok: "graph_ok g \<Longrightarrow> distinct (get_entry_nodes g) \<and> set (get_entry_nodes g) \<subseteq> set (keys (cg_nodes g))"
proof -
  have "(\<forall>e \<in> set es. edge_ok g e) \<Longrightarrow> distinct (first_entry es) \<and> set (first_entry es) \<subseteq> set (keys (cg_nodes g))" for es
    by (induction es rule: first_entry.induct) auto
  then show "graph_ok g \<Longrightarrow> ?thesis" by (simp add: graph_ok_def get_entry_nodes_def)
qed

section \<open>Lists without repetition\<close>

lemma push_new_ok [simp]: "set (push_new x xs) = insert x (set xs)" "distinct xs \<Longrightarrow> distinct (push_new x xs)"
  by (auto simp: push_new_def)

lemma fold_push_new [simp]:
  "set (fold push_new ys xs) = set ys \<union> set xs" "distinct xs \<Longrightarrow> distinct (fold push_new ys xs)"
  by (induction ys arbitrary: xs) auto

lemma upstream_distinct [simp]: "distinct (get_upstream_nodes g n)"
  by (simp add: get_upstream_nodes_def)

section \<open>Routes\<close>

lemma edge_routes_cases:
  "edge_routes dbg executed st e routes = Inr routes' \<Longrightarrow>
   routes' = routes \<or> (\<exists>s n. s \<in> set executed \<and> routes' = push_new (s, n) routes \<and>
     (e = DirectEdge s (TargetNode n) \<or> (\<exists>r ts. e = ConditionalEdge s r ts \<and> lookup ts (r st) = Some (TargetNode n))))"
  by (cases e) (auto simp: edge_routes_def Let_def split: if_splits option.splits edge_target.splits)

lemma edge_routes_ok:
  assumes "edge_ok g e" "edge_routes dbg executed st e routes = Inr routes'" "snd ` set routes \<subseteq> set (keys (cg_nodes g))"
  shows "snd ` set routes' \<subseteq> set (keys (cg_nodes g))"
  using edge_routes_cases [OF assms(2)]
proof (elim disjE exE conjE)
  fix s n assume r: "routes' = push_new (s, n) routes" and e: "e = DirectEdge s (TargetNode n)"
  with assms(1) edge_ok_direct [of g s n] have "n \<in> set (keys (cg_nodes g))" by simp
  with assms(3) show ?thesis by (simp add: r)
next
  fix s n r ts assume q: "routes' = push_new (s, n) routes" and e: "e = ConditionalEdge s r ts" "lookup ts (r st) = Some (TargetNode n)"
  with assms(1) edge_ok_conditional [of g s r ts "r st" n] have "n \<in> set (keys (cg_nodes g))" by simp
  with assms(3) show ?thesis by (simp add: q)
qed (use assms(3) in simp)

lemma routes_from_ok:
  assumes "graph_ok g" "routes_from dbg g executed st = Inr routes"
  shows "snd ` set routes \<subseteq> set (keys (cg_nodes g))"
proof -
  have "snd ` set rs' \<subseteq> set (keys (cg_nodes g))"
    if "\<forall>e \<in> set es. edge_ok g e" "routes_along dbg executed st es rs = Inr rs'" "snd ` set rs \<subseteq> set (keys (cg_nodes g))" for es rs rs'
    using that
  proof (induction es arbitrary: rs)
    case (Cons e es)
    then obtain r1 where "edge_routes dbg executed st e rs = Inr r1" "routes_along dbg executed st es r1 = Inr rs'" by auto
    with Cons edge_routes_ok [of g e dbg executed st rs r1] show ?case by auto
  qed simp
  with assms show ?thesis by (auto simp: graph_ok_def routes_from_def)
qed

lemma goto_routes_ok:
  "goto_routes g n ts (routes, nxt) = Inr (routes', nxt') \<Longrightarrow> distinct nxt \<Longrightarrow> set nxt \<subseteq> set (keys (cg_nodes g)) \<Longrightarrow>
   distinct nxt' \<and> set nxt' \<subseteq> set (keys (cg_nodes g))"
  by (induction ts arbitrary: routes nxt) (auto split: if_splits simp: lookup_None_keys)

lemma all_goto_routes_ok:
  "all_goto_routes g gs (routes, nxt) = Inr (routes', nxt') \<Longrightarrow> distinct nxt \<Longrightarrow> set nxt \<subseteq> set (keys (cg_nodes g)) \<Longrightarrow>
   distinct nxt' \<and> set nxt' \<subseteq> set (keys (cg_nodes g))"
proof (induction gs arbitrary: routes nxt)
  case (Cons a gs)
  obtain n ts where a: "a = (n, ts)" by fastforce
  with Cons.prems obtain r1 n1 where "goto_routes g n ts (routes, nxt) = Inr (r1, n1)" "all_goto_routes g gs (r1, n1) = Inr (routes', nxt')"
    by auto
  with Cons goto_routes_ok [of g n ts routes nxt r1 n1] show ?case by blast
qed simp

lemma map_sum_Inr_case: "map_sum id (\<lambda>(a, b). (b, a)) x = Inr (p, q) \<longleftrightarrow> x = Inr (q, p)"
  by (cases x) auto

lemma next_frontier_ok:
  assumes "graph_ok g" "next_frontier en g executed goto st = Inr (nxt, routes)"
  shows "distinct nxt \<and> set nxt \<subseteq> set (keys (cg_nodes g))"
proof -
  obtain rs where rs: "routes_from (en_debug en) g [n \<leftarrow> executed. lookup goto n = None] st = Inr rs"
    and all: "all_goto_routes g (sort_key fst goto) (rs, fold push_new (map snd rs) []) = Inr (routes, nxt)"
    using assms(2) by (auto simp: next_frontier_def map_sum_Inr_case)
  with routes_from_ok [OF assms(1) rs] all_goto_routes_ok [OF all] show ?thesis by auto
qed

section \<open>Joins\<close>

definition tracker_ok :: "string list \<Rightarrow> fan_in_tracker \<Rightarrow> bool" where
  "tracker_ok up t \<longleftrightarrow> ft_expected t = remdups up \<and> keys (ft_received t) = ft_order t \<and> distinct (ft_order t)"

definition fan_ok :: "'w compiled_graph \<Rightarrow> executor \<Rightarrow> bool" where
  "fan_ok g ex \<longleftrightarrow>
     keys (ex_started ex) = keys (ex_deferred ex) \<and> distinct (keys (ex_deferred ex)) \<and>
     set (keys (ex_deferred ex)) \<subseteq> set (keys (cg_nodes g)) \<inter> set (keys (cg_deferred g)) \<and>
     (\<forall>n t. lookup (ex_deferred ex) n = Some t \<longrightarrow> tracker_ok (get_upstream_nodes g n) t) \<and>
     distinct (keys (ex_abandoned ex)) \<and> (\<forall>n ss. lookup (ex_abandoned ex) n = Some ss \<longrightarrow> sorted ss \<and> distinct ss)"

definition lasting :: "executor \<Rightarrow> bool" where
  "lasting ex \<longleftrightarrow> (\<forall>(n, ss) \<in> set (ex_abandoned ex). ss \<noteq> [])"

lemma tracker_ok_new [simp]: "tracker_ok up (fan_in_tracker_new up)"
  by (simp add: tracker_ok_def fan_in_tracker_new_def)

lemma tracker_ok_record [simp]: "tracker_ok up t \<Longrightarrow> tracker_ok up (fan_in_record s v t)"
  by (auto simp: tracker_ok_def fan_in_record_def update_keys lookup_None_keys)

lemma tracker_ok_records [simp]: "tracker_ok up t \<Longrightarrow> tracker_ok up (fold (\<lambda>s. fan_in_record s (f s)) ss t)"
  by (induction ss arbitrary: t) auto

lemma live_arrivals_ok: "live_arrivals ss aband = (live, aband') \<Longrightarrow> sorted aband \<Longrightarrow> distinct aband \<Longrightarrow> sorted aband' \<and> distinct aband'"
proof (induction ss aband arbitrary: live aband' rule: live_arrivals.induct)
  case (2 s ss aband)
  then show ?case by (auto split: if_splits prod.splits simp: distinct_removeAll removeAll_filter_not_eq sorted_wrt_filter)
qed simp

lemma keys_delete_eq: "keys t = keys u \<Longrightarrow> keys (AList.delete k t) = keys (AList.delete k u)"
  by (simp add: delete_keys)

lemma fan_ok_frame [simp]:
  "fan_ok g (ex\<lparr>ex_state := a\<rparr>) = fan_ok g ex" "fan_ok g (ex\<lparr>ex_pending := b\<rparr>) = fan_ok g ex"
  "lasting (ex\<lparr>ex_state := a\<rparr>) = lasting ex" "lasting (ex\<lparr>ex_pending := b\<rparr>) = lasting ex"
  "lasting (ex\<lparr>ex_deferred := d, ex_started := e\<rparr>) = lasting ex"
  by (simp_all add: fan_ok_def lasting_def)

lemma fan_ok_tracker:
  assumes "fan_ok g ex" "n \<in> set (keys (cg_nodes g)) \<inter> set (keys (cg_deferred g))" "tracker_ok (get_upstream_nodes g n) t"
  shows "fan_ok g (ex\<lparr>ex_deferred := AList.update n t (ex_deferred ex),
    ex_started := (if lookup (ex_started ex) n = None then AList.update n now (ex_started ex) else ex_started ex)\<rparr>)"
proof -
  have k: "keys (ex_started ex) = keys (ex_deferred ex)" "distinct (keys (ex_deferred ex))" using assms(1) by (auto simp: fan_ok_def)
  then have "lookup (ex_started ex) n = None \<longleftrightarrow> n \<notin> set (keys (ex_deferred ex))" by (simp add: lookup_None_keys)
  with k have "keys (if lookup (ex_started ex) n = None then AList.update n now (ex_started ex) else ex_started ex) =
      keys (AList.update n t (ex_deferred ex))" by (simp add: update_keys)
  moreover have "set (keys (AList.update n t (ex_deferred ex))) = insert n (set (keys (ex_deferred ex)))"
    by (simp add: update_keys insert_absorb)
  ultimately show ?thesis using assms k by (auto simp: fan_ok_def distinct_keys_update)
qed

lemma admit_ok:
  assumes "fan_ok g ex" "cand \<in> set (keys (cg_nodes g))" "admit_candidate g now routes updates cand (ready, ex) = (ready', ex')"
  shows "fan_ok g ex' \<and> (ready' = ready \<or> cand \<notin> set (keys (cg_deferred g)) \<and> ready' = ready @ [cand])"
proof (cases "lookup (cg_deferred g) cand")
  case None
  with assms show ?thesis by (simp add: admit_candidate_def lookup_None_keys)
next
  case (Some cf)
  obtain live aband where la: "live_arrivals [s. (s, t) \<leftarrow> routes, t = cand] (table_or [] (ex_abandoned ex) cand) = (live, aband)"
    by fastforce
  have old: "sorted (table_or [] (ex_abandoned ex) cand) \<and> distinct (table_or [] (ex_abandoned ex) cand)"
    using assms(1) by (auto simp: table_or_def fan_ok_def split: option.split)
  define ex1 where "ex1 = ex\<lparr>ex_abandoned := AList.update cand aband (ex_abandoned ex)\<rparr>"
  have ok1: "fan_ok g ex1"
    using assms(1) live_arrivals_ok [OF la] old by (auto simp: fan_ok_def ex1_def distinct_keys_update)
  have cand: "cand \<in> set (keys (cg_nodes g)) \<inter> set (keys (cg_deferred g))"
    using assms(2) Some lookup_None_keys [of "cg_deferred g" cand] by simp
  have "tracker_ok (get_upstream_nodes g cand) (table_or (fan_in_tracker_new (get_upstream_nodes g cand)) (ex_deferred ex) cand)"
    using assms(1) by (auto simp: table_or_def fan_ok_def split: option.split)
  then have "fan_ok g (ex1\<lparr>ex_deferred := AList.update cand
        (fold (\<lambda>s. fan_in_record s (arrival_output s (lookup updates s))) live
          (table_or (fan_in_tracker_new (get_upstream_nodes g cand)) (ex_deferred ex) cand)) (ex_deferred ex1),
      ex_started := (if lookup (ex_started ex1) cand = None then AList.update cand now (ex_started ex1) else ex_started ex1)\<rparr>)"
    by (intro fan_ok_tracker ok1 cand tracker_ok_records)
  with ok1 assms(3) Some la show ?thesis
    by (simp add: admit_candidate_def Let_def ex1_def split: if_splits)
qed

lemma admits_ok:
  assumes "fan_ok g ex" "set cands \<subseteq> set (keys (cg_nodes g))" "fold (admit_candidate g now routes updates) cands (ready, ex) = (ready', ex')"
  shows "fan_ok g ex' \<and> (\<exists>new. ready' = ready @ new \<and> set new \<subseteq> set cands - set (keys (cg_deferred g)) \<and> (distinct cands \<longrightarrow> distinct new))"
  using assms
proof (induction cands arbitrary: ready ex)
  case (Cons cand cands)
  obtain r1 ex1 where ad: "admit_candidate g now routes updates cand (ready, ex) = (r1, ex1)" by fastforce
  from Cons.prems admit_ok [OF Cons.prems(1) _ ad] have one: "fan_ok g ex1"
    "r1 = ready \<or> cand \<notin> set (keys (cg_deferred g)) \<and> r1 = ready @ [cand]" by auto
  with Cons.prems ad Cons.IH [of ex1 r1] obtain new where "fan_ok g ex'" "ready' = r1 @ new"
    "set new \<subseteq> set cands - set (keys (cg_deferred g))" "distinct cands \<longrightarrow> distinct new" by auto
  with one(2) show ?case by (elim disjE) fastforce+
qed simp

lemma keys_delete: "fst ` set (AList.delete k t) = fst ` set t - {k}"
  by (induction t) auto

lemma keys_update: "fst ` set (AList.update k v t) = insert k (fst ` set t)"
  by (induction t) auto

lemma table_update_subset: "set (AList.update k v t) \<subseteq> insert (k, v) (set t)"
  by (induction t) auto

definition drop_join :: "string \<Rightarrow> executor \<Rightarrow> executor" where
  "drop_join j ex = ex\<lparr>ex_deferred := AList.delete j (ex_deferred ex), ex_started := AList.delete j (ex_started ex),
     ex_abandoned := AList.delete j (ex_abandoned ex)\<rparr>"

lemma fan_okI:
  assumes "keys (ex_started ex) = keys (ex_deferred ex)" "distinct (keys (ex_deferred ex))"
    "set (keys (ex_deferred ex)) \<subseteq> set (keys (cg_nodes g)) \<inter> set (keys (cg_deferred g))"
    "\<And>n t. lookup (ex_deferred ex) n = Some t \<Longrightarrow> tracker_ok (get_upstream_nodes g n) t"
    "distinct (keys (ex_abandoned ex))" "\<And>n ss. lookup (ex_abandoned ex) n = Some ss \<Longrightarrow> sorted ss \<and> distinct ss"
  shows "fan_ok g ex"
  unfolding fan_ok_def using assms by blast

lemma fan_okD:
  assumes "fan_ok g ex"
  shows "keys (ex_started ex) = keys (ex_deferred ex)" "distinct (keys (ex_deferred ex))"
    "set (keys (ex_deferred ex)) \<subseteq> set (keys (cg_nodes g)) \<inter> set (keys (cg_deferred g))"
    "lookup (ex_deferred ex) n = Some t \<Longrightarrow> tracker_ok (get_upstream_nodes g n) t"
    "distinct (keys (ex_abandoned ex))" "lookup (ex_abandoned ex) n = Some ss \<Longrightarrow> sorted ss \<and> distinct ss"
  using assms unfolding fan_ok_def by blast+

lemma drop_join_ok:
  assumes "fan_ok g ex"
  shows "fan_ok g (drop_join j ex)"
proof (rule fan_okI)
  show "keys (ex_started (drop_join j ex)) = keys (ex_deferred (drop_join j ex))"
    using keys_delete_eq [OF fan_okD(1) [OF assms]] by (simp add: drop_join_def)
  show "distinct (keys (ex_deferred (drop_join j ex)))" "distinct (keys (ex_abandoned (drop_join j ex)))"
    using fan_okD(2,5) [OF assms] by (simp_all add: drop_join_def distinct_keys_delete)
  show "set (keys (ex_deferred (drop_join j ex))) \<subseteq> set (keys (cg_nodes g)) \<inter> set (keys (cg_deferred g))"
    using fan_okD(3) [OF assms] keys_delete [of j "ex_deferred ex"] by (simp add: drop_join_def) blast
  show "tracker_ok (get_upstream_nodes g n) t" if "lookup (ex_deferred (drop_join j ex)) n = Some t" for n t
    using that fan_okD(4) [OF assms, of n t] by (simp add: drop_join_def split: if_splits)
  show "sorted ss \<and> distinct ss" if "lookup (ex_abandoned (drop_join j ex)) n = Some ss" for n ss
    using that fan_okD(6) [OF assms, of n ss] by (simp add: drop_join_def split: if_splits)
qed

lemma drop_join_simps [simp]:
  "ex_deferred (drop_join j ex) = AList.delete j (ex_deferred ex)" "ex_pending (drop_join j ex) = ex_pending ex"
  "lasting ex \<Longrightarrow> lasting (drop_join j ex)"
  by (auto simp: drop_join_def lasting_def AList.delete_eq)

lemma release_cases:
  assumes "release_join en g j chk ex = Inr ex'"
  shows "ex' = ex \<and> lookup (ex_deferred ex) j = None \<or> (\<exists>st. ex' = drop_join j ex\<lparr>ex_state := st\<rparr>)"
proof (cases "lookup (ex_deferred ex) j")
  case (Some t)
  have same: "drop_join j ex = drop_join j ex\<lparr>ex_state := ex_state (drop_join j ex)\<rparr>" by simp
  show ?thesis
  proof (cases "lookup (cg_deferred g) j")
    case None
    with assms Some have "ex' = drop_join j ex" by (simp add: release_join_def drop_join_def)
    with same show ?thesis by metis
  next
    case (Some cf)
    with assms \<open>lookup (ex_deferred ex) j = Some t\<close> show ?thesis
      by (auto simp: release_join_def drop_join_def Let_def split: option.splits if_splits)
  qed
qed (use assms in \<open>simp add: release_join_def\<close>)

lemma release_ok:
  assumes "fan_ok g ex" "release_join en g j chk ex = Inr ex'"
  shows "fan_ok g ex'" "lasting ex \<Longrightarrow> lasting ex'" "ex_deferred ex' = AList.delete j (ex_deferred ex)"
    "ex_pending ex' = ex_pending ex"
proof -
  from release_cases [OF assms(2)] have "fan_ok g ex' \<and> (lasting ex \<longrightarrow> lasting ex') \<and>
    ex_deferred ex' = AList.delete j (ex_deferred ex) \<and> ex_pending ex' = ex_pending ex"
  proof (elim disjE exE conjE)
    assume "ex' = ex" "lookup (ex_deferred ex) j = None"
    with assms(1) show ?thesis by (simp add: lookup_None_keys delete_id)
  next
    fix st assume "ex' = drop_join j ex\<lparr>ex_state := st\<rparr>"
    with drop_join_ok [OF assms(1), of j] show ?thesis by simp
  qed
  then show "fan_ok g ex'" "lasting ex \<Longrightarrow> lasting ex'" "ex_deferred ex' = AList.delete j (ex_deferred ex)"
    "ex_pending ex' = ex_pending ex" by auto
qed

lemma releases_ok:
  assumes "fan_ok g ex" "release_joins en g js ex = Inr ex'"
  shows "fan_ok g ex' \<and> (lasting ex \<longrightarrow> lasting ex') \<and> ex_pending ex' = ex_pending ex \<and>
    fst ` set (ex_deferred ex') = fst ` set (ex_deferred ex) - set js"
  using assms
proof (induction js arbitrary: ex)
  case (Cons j js)
  then obtain ex1 where r: "release_join en g j True ex = Inr ex1" "release_joins en g js ex1 = Inr ex'" by auto
  note one = release_ok [OF Cons.prems(1) r(1)]
  from Cons.IH [OF one(1) r(2)] one(2,4) one(3) show ?case by (auto simp: keys_delete)
qed simp

text \<open>What the visits of the waiting joins \<open>js\<close> keep: nothing is ready or released twice, and no join still to visit is.\<close>

definition visits_ok :: "'w compiled_graph \<Rightarrow> string list \<Rightarrow> string list \<Rightarrow> string list \<Rightarrow> executor \<Rightarrow> bool" where
  "visits_ok g js ready released ex \<longleftrightarrow>
     fan_ok g ex \<and> lasting ex \<and> distinct (ready @ released @ js) \<and>
     set (ready @ released @ js) \<subseteq> set (keys (cg_nodes g)) \<and>
     fst ` set (ex_deferred ex) \<inter> set ready = {}"

definition time_out_join :: "string \<Rightarrow> string list \<Rightarrow> executor \<Rightarrow> executor" where
  "time_out_join j expected ex = ex\<lparr>ex_abandoned := AList.update j (sort expected) (ex_abandoned ex)\<rparr>"

lemma time_out_ok:
  assumes "fan_ok g ex" "lasting ex" "expected \<noteq> []" "distinct expected"
  shows "fan_ok g (time_out_join j expected ex)" "lasting (time_out_join j expected ex)"
proof -
  show "fan_ok g (time_out_join j expected ex)"
    using assms(1,4) by (simp add: fan_ok_def time_out_join_def distinct_keys_update)
  have "ss \<noteq> []" if "(n, ss) \<in> set (AList.update j (sort expected) (ex_abandoned ex))" for n ss
  proof -
    have "(n, ss) = (j, sort expected) \<or> (n, ss) \<in> set (ex_abandoned ex)"
      using that table_update_subset [of j "sort expected" "ex_abandoned ex"] by blast
    then show ?thesis
    proof
      assume "(n, ss) = (j, sort expected)"
      with assms(3) show ?thesis by simp
    next
      assume "(n, ss) \<in> set (ex_abandoned ex)"
      with assms(2) show ?thesis unfolding lasting_def by blast
    qed
  qed
  then show "lasting (time_out_join j expected ex)" unfolding lasting_def time_out_join_def by auto
qed

lemma visit_cases:
  assumes "fan_ok g ex" "visit_join en g now fl wt j (ready, released, ex) = Inr (ready', released', ex')"
  shows "ready' = ready \<and> released' = released \<and> ex' = ex \<or>
    ready' = ready \<and> released' = released @ [j] \<and> ex' = ex \<or>
    (\<exists>ex1 expected. ready' = ready @ [j] \<and> released' = released \<and> release_join en g j False ex = Inr ex1 \<and>
      ex' = time_out_join j expected ex1 \<and> expected \<noteq> [] \<and> distinct expected)"
proof (cases "lookup (ex_deferred ex) j")
  case None
  with assms(2) show ?thesis by (simp add: visit_join_def)
next
  case (Some t)
  define expected where "expected = [s \<leftarrow> fan_in_pending t. s \<in> set (still_reachable g j (ready @ fl @ wt))]"
  have "distinct expected"
    using assms(1) Some by (auto simp: expected_def fan_in_pending_def fan_ok_def tracker_ok_def)
  moreover have ?thesis if e: "expected \<noteq> []" "distinct expected"
  proof (cases "lookup (cg_deferred g) j")
    case None
    with assms(2) Some e show ?thesis by (simp add: visit_join_def Let_def expected_def)
  next
    case (Some cf)
    with assms(2) \<open>lookup (ex_deferred ex) j = Some t\<close> e show ?thesis
      by (auto simp: visit_join_def Let_def expected_def [symmetric] time_out_join_def split: if_splits option.splits)
  qed
  moreover have ?thesis if "expected = []"
    using assms(2) Some that by (simp add: visit_join_def expected_def)
  ultimately show ?thesis by blast
qed

lemma visit_ok:
  assumes "visits_ok g (j # js) ready released ex" "visit_join en g now fl wt j (ready, released, ex) = Inr (ready', released', ex')"
  shows "visits_ok g js ready' released' ex' \<and> ex_pending ex' = ex_pending ex \<and>
    set (ready' @ released') \<subseteq> set (ready @ released @ [j]) \<and> fst ` set (ex_deferred ex') \<subseteq> fst ` set (ex_deferred ex)"
proof -
  have base: "fan_ok g ex" "lasting ex" using assms(1) by (auto simp: visits_ok_def)
  from visit_cases [OF base(1) assms(2)] show ?thesis
  proof (elim disjE exE conjE)
    fix ex1 expected
    assume r: "ready' = ready @ [j]" "released' = released" "release_join en g j False ex = Inr ex1"
        "ex' = time_out_join j expected ex1" "expected \<noteq> []" "distinct expected"
    note one = release_ok [OF base(1) r(3)]
    have "fan_ok g ex'" "lasting ex'" unfolding r(4) using time_out_ok [OF one(1) one(2) r(5,6)] base(2) by auto
    moreover have "fst ` set (ex_deferred ex') = fst ` set (ex_deferred ex) - {j}" "ex_pending ex' = ex_pending ex"
      using one(3,4) by (simp_all add: r(4) time_out_join_def keys_delete)
    moreover have "distinct (ready' @ released' @ js)" "set (ready' @ released' @ js) \<subseteq> set (keys (cg_nodes g))"
      using assms(1) by (auto simp: visits_ok_def r)
    ultimately show ?thesis using assms(1) by (auto simp: visits_ok_def r(1,2))
  qed (use assms(1) in \<open>auto simp: visits_ok_def\<close>)
qed

lemma visits_kept:
  assumes "visits_ok g js ready released ex" "visit_joins en g now fl wt js (ready, released, ex) = Inr (ready', released', ex')"
  shows "visits_ok g [] ready' released' ex' \<and> ex_pending ex' = ex_pending ex \<and>
    set (ready' @ released') \<subseteq> set (ready @ released @ js) \<and> fst ` set (ex_deferred ex') \<subseteq> fst ` set (ex_deferred ex)"
  using assms
proof (induction js arbitrary: ready released ex)
  case (Cons j js)
  then obtain r1 q1 ex1 where v: "visit_join en g now fl wt j (ready, released, ex) = Inr (r1, q1, ex1)"
      "visit_joins en g now fl wt js (r1, q1, ex1) = Inr (ready', released', ex')" by auto
  note one = visit_ok [OF Cons.prems(1) v(1)]
  from one have "visits_ok g js r1 q1 ex1" by blast
  note ih = Cons.IH [OF this v(2)]
  have "set (ready' @ released') \<subseteq> set (ready @ released @ j # js)" using ih one by fastforce
  moreover have "fst ` set (ex_deferred ex') \<subseteq> fst ` set (ex_deferred ex)" using ih one by blast
  ultimately show ?case using ih one by simp
qed simp

section \<open>Filtering the candidates\<close>

definition frontier_ok :: "'w compiled_graph \<Rightarrow> string list \<Rightarrow> bool" where
  "frontier_ok g ns \<longleftrightarrow> distinct ns \<and> set ns \<subseteq> set (keys (cg_nodes g))"

definition forget_settled :: "executor \<Rightarrow> executor" where
  "forget_settled ex = ex\<lparr>ex_abandoned := filter (\<lambda>(_, sources). sources \<noteq> []) (ex_abandoned ex)\<rparr>"

lemma lookup_filter_Some: "distinct (keys t) \<Longrightarrow> lookup (filter P t) k = Some v \<Longrightarrow> lookup t k = Some v"
  by (metis filter_is_subset lookup_mem mem_lookup subsetD)

lemma forget_settled_ok:
  assumes "fan_ok g ex"
  shows "fan_ok g (forget_settled ex)" "lasting (forget_settled ex)"
proof -
  show "fan_ok g (forget_settled ex)"
  proof (rule fan_okI)
    show "sorted ss \<and> distinct ss" if "lookup (ex_abandoned (forget_settled ex)) n = Some ss" for n ss
    proof -
      have "lookup (ex_abandoned ex) n = Some ss"
        by (rule lookup_filter_Some [OF fan_okD(5) [OF assms], of "\<lambda>(_, sources). sources \<noteq> []"])
          (use that in \<open>simp add: forget_settled_def\<close>)
      then show ?thesis by (rule fan_okD(6) [OF assms])
    qed
    show "distinct (keys (ex_abandoned (forget_settled ex)))"
      by (simp add: forget_settled_def distinct_keys_filter fan_okD(5) [OF assms])
    show "tracker_ok (get_upstream_nodes g n) t" if "lookup (ex_deferred (forget_settled ex)) n = Some t" for n t
      by (rule fan_okD(4) [OF assms]) (use that in \<open>simp add: forget_settled_def\<close>)
  qed (simp_all add: forget_settled_def fan_okD(1-3) [OF assms, simplified])
qed (simp add: forget_settled_def lasting_def)

lemma started_visits:
  assumes ok: "fan_ok g ex" "lasting ex" and new: "frontier_ok g ready" "set ready \<inter> set (keys (cg_deferred g)) = {}"
  shows "visits_ok g (sort (keys (ex_deferred ex))) ready [] ex"
proof -
  have s: "set (sort (keys (ex_deferred ex))) \<subseteq> set (keys (cg_nodes g)) \<inter> set (keys (cg_deferred g))"
    and d: "distinct (sort (keys (ex_deferred ex)))"
    using ok(1) by (simp_all add: fan_ok_def)
  have "set ready \<inter> set (sort (keys (ex_deferred ex))) = {}" using s new(2) by blast
  with s d ok new show ?thesis unfolding visits_ok_def frontier_ok_def by auto
qed

lemma filter_ok:
  assumes ok: "fan_ok g ex" and cands: "frontier_ok g cands"
    and run: "filter_deferred_nodes en g now cands routes updates fl ex = Inr (frontier, ex')"
  shows "fan_ok g ex' \<and> lasting ex' \<and> frontier_ok g frontier \<and> (fl = [] \<and> frontier = [] \<longrightarrow> ex_deferred ex' = []) \<and>
    (cands = [] \<longrightarrow> set frontier \<subseteq> fst ` set (ex_deferred ex))"
proof -
  obtain ready ex1 where fold: "fold (admit_candidate g now routes updates) cands ([], ex) = (ready, ex1)" by fastforce
  from admits_ok [OF ok _ fold] cands have ex1: "fan_ok g ex1"
    and ready: "frontier_ok g ready" "set ready \<inter> set (keys (cg_deferred g)) = {}"
    unfolding frontier_ok_def by auto
  note ex2 = forget_settled_ok [OF ex1]
  have none: "cands = [] \<Longrightarrow> ready = [] \<and> ex1 = ex" using fold by simp
  let ?js = "sort (keys (ex_deferred (forget_settled ex1)))"
  show ?thesis
  proof (cases "ex_deferred (forget_settled ex1) = []")
    case True
    with run fold ready(1) ex2 show ?thesis by (auto simp: filter_deferred_nodes_def forget_settled_def)
  next
    case False
    with run fold obtain r q ex3 ex4 where v: "visit_joins en g now fl ?js ?js (ready, [], forget_settled ex1) = Inr (r, q, ex3)"
      and rel: "release_joins en g q ex3 = Inr ex4"
      and fin: "(if r @ q = [] \<and> fl = [] \<and> ex_deferred ex4 \<noteq> []
        then result_bind (release_joins en g (sort (keys (ex_deferred ex4))) ex4)
          (\<lambda>ex. Inr ((r @ q) @ sort (keys (ex_deferred ex4)), ex)) else Inr (r @ q, ex4)) = Inr (frontier, ex')"
      by (auto simp: filter_deferred_nodes_def forget_settled_def Let_def cong: if_cong)
    from visits_kept [OF started_visits [OF ex2 ready] v] have v': "visits_ok g [] r q ex3"
      and orig: "set (r @ q) \<subseteq> set ready \<union> fst ` set (ex_deferred ex1)" "fst ` set (ex_deferred ex3) \<subseteq> fst ` set (ex_deferred ex1)"
      by (simp_all add: forget_settled_def)
    then have base: "fan_ok g ex3" "lasting ex3" "frontier_ok g (r @ q)" by (auto simp: visits_ok_def frontier_ok_def)
    note ex4 = releases_ok [OF base(1) rel]
    show ?thesis
    proof (cases "r @ q = [] \<and> fl = [] \<and> ex_deferred ex4 \<noteq> []")
      case False
      with fin have q: "frontier = r @ q" "ex' = ex4" by (simp_all add: False split: if_splits)
      moreover from False q(1) have "fl = [] \<and> frontier = [] \<longrightarrow> ex_deferred ex4 = []" by blast
      moreover have "cands = [] \<longrightarrow> set frontier \<subseteq> fst ` set (ex_deferred ex)" using orig(1) none q(1) by auto
      ultimately show ?thesis using ex4 base(2,3) by blast
    next
      case True
      then have rq: "r @ q = []" by simp
      have fin': "result_bind (release_joins en g (sort (keys (ex_deferred ex4))) ex4)
          (\<lambda>ex. Inr ((r @ q) @ sort (keys (ex_deferred ex4)), ex)) = Inr (frontier, ex')"
        using fin unfolding if_P [OF True] .
      then obtain ex5 where r5: "release_joins en g (sort (keys (ex_deferred ex4))) ex4 = Inr ex5"
        and e: "(sort (keys (ex_deferred ex4)), ex5) = (frontier, ex')"
        unfolding rq append_Nil result_bind_Inr_iff sum.inject by blast
      from e have q: "ex' = ex5" "frontier = sort (keys (ex_deferred ex4))" by simp_all
      have ex4': "fan_ok g ex4" using ex4 by blast
      note ex5 = releases_ok [OF ex4' r5]
      have "frontier_ok g frontier" using fan_okD(2,3) [OF ex4'] by (simp add: frontier_ok_def q(2))
      moreover have "ex_deferred ex5 = []" using ex5 by auto
      moreover have "cands = [] \<longrightarrow> set frontier \<subseteq> fst ` set (ex_deferred ex)" using orig(2) none q(2) ex4 by auto
      ultimately show ?thesis using ex4 ex5 base(2) q(1) by blast
    qed
  qed
qed

lemma advance_ok:
  assumes "graph_ok g" "fan_ok g ex" "advance_frontier en g now res fl ex = Inr (frontier, ex')"
  shows "fan_ok g ex' \<and> lasting ex' \<and> frontier_ok g frontier \<and> (fl = [] \<and> frontier = [] \<longrightarrow> ex_deferred ex' = [])"
proof -
  from assms(3) obtain cands routes where n: "next_frontier en g (sr_executed res) (sr_goto res) (ex_state ex) = Inr (cands, routes)"
    and f: "filter_deferred_nodes en g now cands routes (sr_updates res) fl ex = Inr (frontier, ex')"
    by (auto simp: advance_frontier_def)
  from next_frontier_ok [OF assms(1) n] have "frontier_ok g cands" by (simp add: frontier_ok_def)
  from filter_ok [OF assms(2) this f] show ?thesis by blast
qed

lemma new_joins_ok:
  assumes "fan_ok g ex" "set js \<subseteq> set (keys (cg_nodes g)) \<inter> set (keys (cg_deferred g))"
  shows "fan_ok g (fold (\<lambda>j ex. ex\<lparr>ex_deferred := AList.update j (fan_in_tracker_new (get_upstream_nodes g j)) (ex_deferred ex),
      ex_started := AList.update j now (ex_started ex)\<rparr>) js ex)"
  using assms
proof (induction js arbitrary: ex)
  case (Cons j js)
  let ?ex = "ex\<lparr>ex_deferred := AList.update j (fan_in_tracker_new (get_upstream_nodes g j)) (ex_deferred ex),
      ex_started := AList.update j now (ex_started ex)\<rparr>"
  note ok = fan_okD [OF Cons.prems(1)]
  have "fan_ok g ?ex"
  proof (rule fan_okI)
    show "tracker_ok (get_upstream_nodes g n) t" if "lookup (ex_deferred ?ex) n = Some t" for n t
      using that ok(4) [of n t] by (auto split: if_splits)
    show "sorted ss \<and> distinct ss" if "lookup (ex_abandoned ?ex) n = Some ss" for n ss
      using that ok(6) [of n ss] by simp
    show "set (keys (ex_deferred ?ex)) \<subseteq> set (keys (cg_nodes g)) \<inter> set (keys (cg_deferred g))"
      using ok(3) Cons.prems(2) by (simp add: update_keys)
    show "keys (ex_started ?ex) = keys (ex_deferred ?ex)" using ok(1) by (simp add: update_keys)
  qed (use ok(2,5) in \<open>simp_all add: distinct_keys_update\<close>)
  from Cons.IH [OF this] Cons.prems(2) show ?case by simp
qed simp

lemma entry_ok:
  assumes "graph_ok g" "fan_ok g ex" "lasting ex" "ex_deferred ex = []" "entry_frontier en g now ex = Inr (frontier, ex')"
  shows "fan_ok g ex' \<and> lasting ex' \<and> frontier_ok g frontier \<and> (frontier = [] \<longrightarrow> ex_deferred ex' = [])"
proof -
  define is_join where "is_join = (\<lambda>n. lookup (cg_deferred g) n \<noteq> None \<and> get_upstream_nodes g n \<noteq> [])"
  define joins where "joins = filter is_join (get_entry_nodes g)"
  define ready where "ready = filter (\<lambda>n. \<not> is_join n) (get_entry_nodes g)"
  note entry = entry_nodes_ok [OF assms(1)]
  have ready: "frontier_ok g ready" using entry by (auto simp: frontier_ok_def ready_def)
  show ?thesis
  proof (cases "joins = []")
    case True
    with assms(2-5) ready show ?thesis by (simp add: entry_frontier_def joins_def ready_def is_join_def)
  next
    case False
    let ?add = "\<lambda>j ex. ex\<lparr>ex_deferred := AList.update j (fan_in_tracker_new (get_upstream_nodes g j)) (ex_deferred ex),
      ex_started := AList.update j now (ex_started ex)\<rparr>"
    from assms(5) False obtain released where f: "filter_deferred_nodes en g now [] [] [] ready (fold ?add joins ex) = Inr (released, ex')"
      and fr: "frontier = ready @ released"
      by (auto simp: entry_frontier_def joins_def ready_def is_join_def Let_def)
    have "set joins \<subseteq> set (keys (cg_nodes g)) \<inter> set (keys (cg_deferred g))"
      using entry lookup_None_keys [of "cg_deferred g"] by (auto simp: joins_def is_join_def)
    from new_joins_ok [OF assms(2) this] have "fan_ok g (fold ?add joins ex)" .
    note ok = filter_ok [OF this _ f]
    have keys: "fst ` set (ex_deferred (fold ?add js ex0)) = fst ` set (ex_deferred ex0) \<union> set js" for js ex0
      by (induction js arbitrary: ex0) (simp_all add: keys_update)
    have "frontier_ok g []" by (simp add: frontier_ok_def)
    note ok = ok [OF this]
    have rel: "set released \<subseteq> set joins" using ok keys [of joins ex] assms(4) by simp
    moreover have "set ready \<inter> set joins = {}" by (auto simp: ready_def joins_def)
    ultimately have "frontier_ok g frontier" using ready ok by (auto simp: frontier_ok_def fr)
    with ok show ?thesis by (simp add: fr)
  qed
qed

end
