(* ===== verification/Graph_Run_Inv.thy ===== *)
theory Graph_Run_Inv
  imports Graph_Inv
begin

text \<open>
  Every round of the loop keeps the invariant of the executor, so what a run returns with has no join
  waiting. Saving checkpoints and running nodes leave the frontier and the joins alone.
\<close>

section \<open>What saving and running leave alone\<close>

definition joins_of :: "executor \<Rightarrow> string list \<times> (string, fan_in_tracker) table \<times> (string, instant) table \<times> (string, string list) table" where
  "joins_of ex = (ex_pending ex, ex_deferred ex, ex_started ex, ex_abandoned ex)"

lemma joins_updates [simp]:
  "joins_of (ex\<lparr>ex_state := a\<rparr>) = joins_of ex" "joins_of (ex\<lparr>ex_goto_parent := c\<rparr>) = joins_of ex"
  "joins_of (ex\<lparr>ex_attempts := h\<rparr>) = joins_of ex" "joins_of (ex\<lparr>ex_ledger := i\<rparr>) = joins_of ex"
  "joins_of (ex\<lparr>ex_cleared := j\<rparr>) = joins_of ex" "joins_of (ex\<lparr>ex_head := k\<rparr>) = joins_of ex"
  "joins_of (ex\<lparr>ex_writes := l\<rparr>) = joins_of ex" "joins_of (ex\<lparr>ex_inflight := m\<rparr>) = joins_of ex"
  "joins_of (ex\<lparr>ex_unsaved := n\<rparr>) = joins_of ex" "joins_of (ex\<lparr>ex_paused := p\<rparr>) = joins_of ex"
  "joins_of (ex\<lparr>ex_step := q\<rparr>) = joins_of ex"
  by (simp_all add: joins_of_def)

lemma joins_await: "await_inflight g ex w = (r, ex', w') \<Longrightarrow> joins_of ex' = joins_of ex"
  by (auto simp: await_inflight_def split: option.splits inflight_write.splits prod.splits)

lemma joins_build: "build_checkpoint en c ex w = (cp, ex', w') \<Longrightarrow> joins_of ex' = joins_of ex"
  by (auto simp: build_checkpoint_def Let_def split: prod.splits)

lemma joins_save: "save_checkpoint en g c ex w = (r, ex', w') \<Longrightarrow> joins_of ex' = joins_of ex"
  by (auto simp: save_checkpoint_def dest!: joins_await joins_build split: prod.splits sum.splits option.splits)

lemma joins_checkpoint_step: "checkpoint_step en g c ex w = (r, ex', w') \<Longrightarrow> joins_of ex' = joins_of ex"
  by (auto simp: checkpoint_step_def unit_of_def Let_def dest!: joins_await joins_build joins_save
      split: prod.splits sum.splits option.splits durability.splits if_splits)

lemma joins_finish: "finish_checkpoints en g c ex w = (r, ex', w') \<Longrightarrow> joins_of ex' = joins_of ex"
  by (auto simp: finish_checkpoints_def unit_of_def dest!: joins_await joins_save split: prod.splits sum.splits if_splits)

lemma joins_flush: "flush_before_side_effects en g c ex w = (r, ex', w') \<Longrightarrow> joins_of ex' = joins_of ex"
  by (auto simp: flush_before_side_effects_def dest: joins_finish split: if_splits)

lemma joins_collect_write [simp]: "joins_of (fst (collect_write n x s)) = joins_of (fst s)"
  by (cases s) (simp add: collect_write_def split: option.split)

lemma joins_split: "split_frontier ns s = (t, s') \<Longrightarrow> joins_of (fst s') = joins_of (fst s)"
proof (induction ns s arbitrary: t rule: split_frontier.induct)
  case (2 n ns ex acc)
  then show ?case by (auto split: option.splits prod.splits)
qed simp

lemma joins_collect: "collect_result en g r s = (e, s') \<Longrightarrow> joins_of (fst s') = joins_of (fst s)"
  by (cases r; cases s)
    (auto simp: collect_result_def Let_def collect_write_def split: option.splits sum.splits if_splits)

lemma joins_collects: "collect_results en g rs s = (e, s') \<Longrightarrow> joins_of (fst s') = joins_of (fst s)"
  by (induction en g rs s rule: collect_results.induct) (auto split: prod.splits option.splits dest!: joins_collect)

lemma joins_super_step: "execute_super_step en g c ex w = (r, ex', w') \<Longrightarrow> joins_of ex' = joins_of ex"
  by (auto simp: execute_super_step_def Let_def dest!: joins_split joins_collects split: option.splits prod.splits)

lemma joins_rearm [simp]: "joins_of (rearm_gate executed ex) = joins_of ex"
  by (simp add: rearm_gate_def split: option.split)

lemma joins_settle [simp]: "joins_of (settle_child_ledger ns ex) = joins_of ex"
  by (simp add: settle_child_ledger_def)

lemma joins_eq: "joins_of ex = joins_of ex' \<longleftrightarrow>
    ex_pending ex = ex_pending ex' \<and> ex_deferred ex = ex_deferred ex' \<and> ex_started ex = ex_started ex' \<and> ex_abandoned ex = ex_abandoned ex'"
  by (auto simp: joins_of_def)

section \<open>The invariant\<close>

definition exec_ok :: "'w compiled_graph \<Rightarrow> executor \<Rightarrow> bool" where
  "exec_ok g ex \<longleftrightarrow>
     frontier_ok g (ex_pending ex) \<and> fan_ok g ex \<and> lasting ex \<and> (ex_pending ex = [] \<longrightarrow> ex_deferred ex = [])"

lemma exec_ok_joins: "joins_of ex = joins_of ex' \<Longrightarrow> exec_ok g ex \<longleftrightarrow> exec_ok g ex'"
  by (simp add: joins_eq exec_ok_def fan_ok_def lasting_def)

lemma fan_ok_joins: "joins_of ex = joins_of ex' \<Longrightarrow> fan_ok g ex \<longleftrightarrow> fan_ok g ex'"
  by (simp add: joins_eq fan_ok_def)

lemma exec_ok_advanced:
  assumes "graph_ok g" "fan_ok g ex" "advance_frontier en g now res [] ex = Inr (frontier, ex')"
  shows "exec_ok g (ex'\<lparr>ex_pending := frontier\<rparr>)"
  using advance_ok [OF assms] by (simp add: exec_ok_def)

lemma run_step_ok:
  assumes "graph_ok g" "exec_ok g ex" "run_step en g c ex w = Continues ex' w'"
  shows "exec_ok g ex'"
proof -
  obtain ex1 w1 res ex2 w2 where flush: "flush_before_side_effects en g c ex w = (Inr (), ex1, w1)"
      and super: "execute_super_step en g c ex1 w1 = (Inr res, ex2, w2)"
      and done_: "completed_step en g c res ex2 w2 = Continues ex' w'"
    using assms(3) by (auto simp: run_step_def Let_def paused_run_def split: if_splits prod.splits sum.splits)
  from done_ obtain frontier ex3 where adv: "advance_frontier en g (en_clock en w2) res [] (rearm_gate (sr_executed res) ex2) = Inr (frontier, ex3)"
    by (auto simp: completed_step_def Let_def split: sum.splits)
  let ?ex4 = "settle_child_ledger [] (ex3\<lparr>ex_pending := frontier\<rparr>)"
  let ?ex5 = "?ex4\<lparr>ex_paused := [n \<leftarrow> ex_paused ?ex4. n \<notin> set (sr_executed res)], ex_step := Suc (ex_step ?ex4)\<rparr>"
  have chk: "checkpoint_step en g c ?ex5 w2 = (Inr (), ex', w')"
    using done_ adv by (auto simp: completed_step_def Let_def split: prod.splits sum.splits)
  have "fan_ok g ex" using assms(2) by (simp add: exec_ok_def)
  moreover have "joins_of (rearm_gate (sr_executed res) ex2) = joins_of ex"
    using joins_flush [OF flush] joins_super_step [OF super] by simp
  ultimately have "fan_ok g (rearm_gate (sr_executed res) ex2)" using fan_ok_joins by blast
  from exec_ok_advanced [OF assms(1) this adv] have ok: "exec_ok g (ex3\<lparr>ex_pending := frontier\<rparr>)" .
  have "joins_of ex' = joins_of (ex3\<lparr>ex_pending := frontier\<rparr>)" using joins_checkpoint_step [OF chk] by simp
  with exec_ok_joins ok show ?thesis by blast
qed

text \<open>The executors a run of the loop goes through.\<close>

inductive loop_reach :: "'w engine \<Rightarrow> 'w compiled_graph \<Rightarrow> execution_config \<Rightarrow> executor \<times> 'w \<Rightarrow> executor \<times> 'w \<Rightarrow> bool" for en g c s where
  started: "loop_reach en g c s s"
| rounds: "loop_reach en g c s (ex, w) \<Longrightarrow> run_step en g c ex w = Continues ex' w' \<Longrightarrow> loop_reach en g c s (ex', w')"

lemma loop_reach_ok:
  assumes "loop_reach en g c s s'" "graph_ok g" "exec_ok g (fst s)"
  shows "exec_ok g (fst s')"
  using assms by induction (auto dest: run_step_ok)

lemma run_loop_completes:
  assumes "graph_ok g" "exec_ok g ex" "run_loop en g c ex w = (Inr st, ex', w')"
  shows "ex_pending ex' = [] \<and> ex_deferred ex' = []"
  using assms
proof (induction en g c ex w rule: run_loop.induct)
  case (1 en g c ex w)
  show ?case
  proof (cases "run_step en g c ex w")
    case (Continues ex1 w1)
    with "1.prems" run_step_ok [OF "1.prems"(1,2) Continues] show ?thesis
      by (intro "1.IH" [OF Continues]) (simp_all add: run_loop.simps [of en g c ex w])
  next
    case (Returned r ex1 w1)
    with "1.prems"(3) have r: "r = Inr st" "ex1 = ex'" by (simp_all add: run_loop.simps [of en g c ex w])
    with Returned obtain u where "ex_pending ex = []" "finish_checkpoints en g c ex w = (Inr u, ex', w1)"
      by (auto simp: run_step_def Let_def paused_run_def completed_step_def split: if_splits prod.splits sum.splits)
    with joins_finish "1.prems"(2) show ?thesis by (fastforce simp: exec_ok_def joins_eq)
  qed
qed

lemma entry_exec_ok:
  assumes "graph_ok g" "fan_ok g ex" "lasting ex" "ex_deferred ex = []" "entry_frontier en g now ex = Inr (frontier, ex')"
  shows "exec_ok g (ex'\<lparr>ex_pending := frontier\<rparr>)"
  using entry_ok [OF assms] by (simp add: exec_ok_def)

lemma new_fan_ok [simp]: "fan_ok g (executor_new\<lparr>ex_state := st\<rparr>)" "lasting (executor_new\<lparr>ex_state := st\<rparr>)"
  "ex_deferred executor_new = []"
  by (simp_all add: executor_new_def fan_ok_def lasting_def)

end
