(* ===== verification/Graph_Order.thy ===== *)
theory Graph_Order
  imports Graph_Run_Inv
begin

text \<open>
  The order in which the nodes of a super-step finish does not show: engines whose dispatches return the
  same results in any order run a graph alike. A step gives each node of the frontier one result, and
  the updates are applied in the order of the names.
\<close>

section \<open>The dispatch alone runs nodes\<close>

abbreviation dispatching ::
    "(nat \<Rightarrow> 'w node_task list \<Rightarrow> child_ledger \<times> 'w \<Rightarrow> node_result list \<times> (child_ledger \<times> 'w)) \<Rightarrow> 'w engine \<Rightarrow> 'w engine" where
  "dispatching d en \<equiv> en\<lparr>en_dispatch := d\<rparr>"

lemma dispatching_fields:
  "en_numbers (dispatching d en) = en_numbers en" "en_debug (dispatching d en) = en_debug en"
  "en_text (dispatching d en) = en_text en" "en_clock (dispatching d en) = en_clock en"
  "en_new_id (dispatching d en) = en_new_id en" "en_prompt (dispatching d en) = en_prompt en"
  "en_dispatch (dispatching d en) = d"
  by simp_all

lemma dispatching_release [simp]: "release_join (dispatching d en) g = release_join en g"
  by (intro ext) (unfold release_join_def dispatching_fields, rule refl)

lemma dispatching_visit [simp]: "visit_join (dispatching d en) g = visit_join en g"
  by (intro ext) (unfold visit_join_def dispatching_release, rule refl)

lemma dispatching_next [simp]: "next_frontier (dispatching d en) g = next_frontier en g"
  by (simp add: fun_eq_iff next_frontier_def)

lemma dispatching_releases [simp]: "release_joins (dispatching d en) g js = release_joins en g js"
  by (induction js) (rule ext, simp)+

lemma dispatching_visits [simp]: "visit_joins (dispatching d en) g now fl wt js = visit_joins en g now fl wt js"
  by (induction js) (rule ext, simp)+

lemma dispatching_filter [simp]: "filter_deferred_nodes (dispatching d en) g = filter_deferred_nodes en g"
  by (intro ext) (unfold filter_deferred_nodes_def dispatching_releases dispatching_visits, rule refl)

lemma dispatching_advance [simp]: "advance_frontier (dispatching d en) g = advance_frontier en g"
  by (intro ext) (unfold advance_frontier_def dispatching_next dispatching_filter, rule refl)

lemma dispatching_pause [simp]: "pause_frontier (dispatching d en) g = pause_frontier en g"
  by (intro ext) (unfold pause_frontier_def dispatching_advance, rule refl)

lemma dispatching_failure [simp]: "step_failure (dispatching d en) = step_failure en"
  by (intro ext) (unfold step_failure_def dispatching_fields, rule refl)

lemma dispatching_collect [simp]: "collect_result (dispatching d en) g = collect_result en g"
  by (intro ext) (unfold collect_result_def dispatching_failure, rule refl)

lemma dispatching_collects [simp]: "collect_results (dispatching d en) g rs s = collect_results en g rs s"
  by (induction rs arbitrary: s) (auto split: prod.splits option.splits)

lemma dispatching_apply [simp]: "apply_updates (dispatching d en) g us st = apply_updates en g us st"
  by (induction us arbitrary: st) (auto split: option.splits)

lemma dispatching_save [simp]:
  "build_checkpoint (dispatching d en) = build_checkpoint en"
  "save_checkpoint (dispatching d en) = save_checkpoint en"
  "checkpoint_step (dispatching d en) = checkpoint_step en"
  "finish_checkpoints (dispatching d en) = finish_checkpoints en"
  "flush_before_side_effects (dispatching d en) = flush_before_side_effects en"
  "checkpoint_failed_step (dispatching d en) = checkpoint_failed_step en"
proof -
  show b: "build_checkpoint (dispatching d en) = build_checkpoint en"
    by (intro ext) (unfold build_checkpoint_def dispatching_fields, rule refl)
  show s: "save_checkpoint (dispatching d en) = save_checkpoint en" by (intro ext) (unfold save_checkpoint_def b, rule refl)
  show "checkpoint_step (dispatching d en) = checkpoint_step en"
    by (intro ext) (unfold checkpoint_step_def b s dispatching_fields, rule refl)
  show f: "finish_checkpoints (dispatching d en) = finish_checkpoints en" by (intro ext) (unfold finish_checkpoints_def s, rule refl)
  show "flush_before_side_effects (dispatching d en) = flush_before_side_effects en"
    by (intro ext) (unfold flush_before_side_effects_def f, rule refl)
  show "checkpoint_failed_step (dispatching d en) = checkpoint_failed_step en"
    by (intro ext) (unfold checkpoint_failed_step_def s, rule refl)
qed

section \<open>One super-step\<close>

lemma split_frontier_eq:
  "split_frontier ns (ex, acc) =
     ([n \<leftarrow> ns. lookup (ex_writes ex) n = None],
      fold (\<lambda>n. collect_write n (the (lookup (ex_writes ex) n))) [n \<leftarrow> ns. lookup (ex_writes ex) n \<noteq> None] (ex, acc))"
proof (induction ns arbitrary: ex acc)
  case (Cons n ns)
  show ?case
  proof (cases "lookup (ex_writes ex) n")
    case (Some w)
    obtain ex1 acc1 where c: "collect_write n w (ex, acc) = (ex1, acc1)" by fastforce
    then have "ex_writes ex1 = ex_writes ex" by (auto simp: collect_write_def split: option.splits)
    with Cons [of ex1 acc1] Some c show ?thesis by simp
  next
    case None
    with Cons show ?thesis by simp
  qed
qed simp

lemma task_names: "map tk_name (step_tasks g c ex ns) = [n \<leftarrow> sort ns. lookup (cg_nodes g) n \<noteq> None]"
proof -
  have "map tk_name (List.map_filter (\<lambda>n. map_option (task_for g c ex n) (lookup (cg_nodes g) n)) xs) =
      [n \<leftarrow> xs. lookup (cg_nodes g) n \<noteq> None]" for xs
    by (induction xs) (auto simp: map_filter_simps task_for_def split: option.split)
  then show ?thesis by (simp add: step_tasks_def)
qed

definition same_results ::
    "'w engine \<Rightarrow> (nat \<Rightarrow> 'w node_task list \<Rightarrow> child_ledger \<times> 'w \<Rightarrow> node_result list \<times> (child_ledger \<times> 'w)) \<Rightarrow> bool" where
  "same_results en d \<longleftrightarrow> (\<forall>n ts s. mset (fst (d n ts s)) = mset (fst (en_dispatch en n ts s)) \<and> snd (d n ts s) = snd (en_dispatch en n ts s))"

definition dispatches :: "'w engine \<Rightarrow> bool" where
  "dispatches en \<longleftrightarrow> (\<forall>n ts s. dispatch_fits ts (fst (en_dispatch en n ts s)))"

lemma sort_results_eq:
  fixes outs outs' :: "(string \<times> 'b) list"
  assumes "mset outs = mset outs'" "distinct (map fst outs)"
  shows "sort_key fst outs = sort_key fst outs'"
proof -
  have d: "distinct (map fst outs')" using assms by (metis mset_eq_imp_distinct_iff mset_map)
  have set: "set outs = set outs'" using assms(1) by (rule mset_eq_setD)
  show ?thesis
  proof (rule map_sorted_distinct_set_unique [where f = fst])
    show "inj_on fst (set (sort_key fst outs) \<union> set (sort_key fst outs'))"
      using d unfolding set_sort set distinct_map by simp
    show "distinct (map fst (sort_key fst outs))" "distinct (map fst (sort_key fst outs'))"
      unfolding distinct_map_sort_key by (rule assms(2), rule d)
  qed (simp_all only: set_sort set sorted_sort_key)
qed

lemma super_step_order:
  assumes "dispatches en" "same_results en d" "distinct (ex_pending ex)"
  shows "execute_super_step (dispatching d en) g c ex w = execute_super_step en g c ex w"
proof (cases "gate_before g ex")
  case None
  obtain to_run ex1 acc where s: "split_frontier (ex_pending ex) (ex, step_acc_new) = (to_run, ex1, acc)" by (metis surj_pair)
  let ?ts = "step_tasks g c ex1 to_run"
  let ?n = "step_concurrency g (length to_run)"
  obtain outs l w1 where o: "en_dispatch en ?n ?ts (ex_ledger ex1, w) = (outs, l, w1)" by (metis surj_pair)
  with assms(2) obtain outs' where o': "d ?n ?ts (ex_ledger ex1, w) = (outs', l, w1)" "mset outs' = mset outs"
    unfolding same_results_def by (metis fst_conv snd_conv surj_pair)
  have "distinct to_run" using s assms(3) by (auto simp: split_frontier_eq)
  then have "distinct (map tk_name ?ts)" by (simp add: task_names)
  moreover have "mset (map fst outs) = mset (map tk_name ?ts)"
    using assms(1) o unfolding dispatches_def dispatch_fits_def by (metis fst_conv)
  ultimately have "distinct (map fst outs)" by (metis mset_eq_imp_distinct_iff)
  then have q: "sort_key fst outs' = sort_key fst outs" using sort_results_eq [of outs outs'] o'(2) by simp
  show ?thesis
    unfolding execute_super_step_def dispatching_collects dispatching_apply dispatching_fields None option.case s Let_def prod.case
      o o'(1) q by (rule refl)
qed (simp add: execute_super_step_def)

lemma run_step_order:
  assumes "dispatches en" "same_results en d" "distinct (ex_pending ex)"
  shows "run_step (dispatching d en) g c ex w = run_step en g c ex w"
proof -
  obtain r ex1 w1 where f: "flush_before_side_effects en g c ex w = (r, ex1, w1)" by (metis surj_pair)
  have "execute_super_step (dispatching d en) g c ex1 w1 = execute_super_step en g c ex1 w1"
    using joins_flush [OF f] assms(3) by (intro super_step_order assms(1,2)) (simp add: joins_eq)
  with f show ?thesis
    unfolding run_step_def paused_run_def completed_step_def dispatching_save dispatching_advance dispatching_pause
      dispatching_fields by (simp only: Let_def prod.case)
qed

end
