(* ===== verification/Graph_Demo.thy ===== *)
theory Graph_Demo
  imports Graph_Order
begin

text \<open>
  Concrete graphs on a concrete engine, for the witnesses: the diamond runs \<open>a\<close> and \<open>b\<close> together and
  joins them in \<open>j\<close>. The engine runs the tasks of a step one at a time; its world is the in-memory
  checkpoint store next to a counter that serves as the clock and numbers the checkpoints.
\<close>

type_synonym demo_world = "memory_store \<times> nat"

definition demo_numbers :: number_lib where
  "demo_numbers = \<lparr>nl_f64 = (\<lambda>_. None), nl_add = (\<lambda>a b. a), nl_text = (\<lambda>_. ''0'')\<rparr>"

definition demo_clock :: "nat \<Rightarrow> instant" where
  "demo_clock n = int n"

definition demo_id :: "demo_world \<Rightarrow> string \<times> demo_world" where
  "demo_id w = (replicate (snd w) CHR ''c'', (fst w, Suc (snd w)))"

definition in_order :: "nat \<Rightarrow> 'w node_task list \<Rightarrow> child_ledger \<times> 'w \<Rightarrow> node_result list \<times> (child_ledger \<times> 'w)" where
  "in_order n ts s = dispatch_in_order attempt_node False ts s"

definition in_reverse :: "nat \<Rightarrow> 'w node_task list \<Rightarrow> child_ledger \<times> 'w \<Rightarrow> node_result list \<times> (child_ledger \<times> 'w)" where
  "in_reverse n ts s = (let (rs, s') = in_order n ts s in (rev rs, s'))"

definition demo_engine :: "demo_world engine" where
  "demo_engine =
     \<lparr>en_numbers = demo_numbers, en_debug = concat, en_text = (\<lambda>_. ''e''), en_clock = (\<lambda>w. demo_clock (snd w)),
      en_new_id = demo_id, en_prompt = (\<lambda>_. True), en_dispatch = in_order\<rparr>"

definition demo_node :: "node_output gresult \<Rightarrow> 'w graph_node" where
  "demo_node r =
     \<lparr>gn_validate = Inr (), gn_validate_against = (\<lambda>_. Inr ()), gn_execute = (\<lambda>_ s. (r, s)),
      gn_limited = (\<lambda>_ _ _ s. (Inr r, s))\<rparr>"

definition writes_one :: "string \<Rightarrow> node_output gresult" where
  "writes_one k = Inr (node_output_new\<lparr>no_updates := [(k, JBool True)]\<rparr>)"

definition diamond_of :: "node_output gresult \<Rightarrow> 'w state_graph" where
  "diamond_of r =
     add_edge ''j'' END (add_edge ''b'' ''j'' (add_edge ''a'' ''j'' (add_edge START ''b'' (add_edge START ''a''
       (add_node ''j'' (demo_node (Inr node_output_new)) (add_node ''b'' (demo_node r) (add_node ''a'' (demo_node (writes_one ''x''))
         (state_graph_new []))))))))"

definition compiled :: "'w state_graph \<Rightarrow> 'w compiled_graph" where
  "compiled sg = (case compile_graph sg of Inr g \<Rightarrow> g | Inl _ \<Rightarrow> undefined)"

definition diamond :: "demo_world compiled_graph" where
  "diamond = compiled (diamond_of (writes_one ''y''))"

definition saved_diamond :: "demo_world compiled_graph" where
  "saved_diamond = diamond\<lparr>cg_checkpointer := Some (shelf demo_clock)\<rparr>"

definition demo_config :: execution_config where
  "demo_config = execution_config_new ''t''"

definition demo_world0 :: demo_world where
  "demo_world0 = (\<lparr>ms_threads = [], ms_ids = []\<rparr>, 0)"

lemma demo_dispatches: "dispatches demo_engine"
  unfolding dispatches_def
proof (intro allI)
  fix n ts and s :: "child_ledger \<times> demo_world"
  obtain rs s' where "dispatch_in_order attempt_node False ts s = (rs, s')" by (metis surj_pair)
  with dispatch_in_order_fits [OF this] show "dispatch_fits ts (fst (en_dispatch demo_engine n ts s))"
    by (simp add: demo_engine_def in_order_def)
qed

lemma demo_reverse: "same_results demo_engine in_reverse"
  by (simp add: same_results_def in_reverse_def demo_engine_def split: prod.split)

end
