(* ===== verification/Graph_Props.thy ===== *)
theory Graph_Props
  imports Graph_Demo
begin

text \<open>
  What a run of a graph guarantees: its frontier and joins keep their invariant, it ends within its limit
  and with no join waiting, the order in which nodes finish does not show, and a gate holds every node of
  the frontier.
\<close>

section \<open>Graphs that were built\<close>

inductive built :: "'w state_graph \<Rightarrow> bool" where
  "built (state_graph_new sch)"
| "built sg \<Longrightarrow> built (add_node n nd sg)"
| "built sg \<Longrightarrow> built (mark_deferred n cf sg)"
| "built sg \<Longrightarrow> built (add_edge s d sg)"
| "built sg \<Longrightarrow> built (add_conditional_edges s r ts sg)"

lemma built_entries: "built sg \<Longrightarrow> entries_distinct (sg_edges sg)"
  by (induction rule: built.induct) simp_all

text \<open>A compiled graph under whatever is configured after compiling: nodes and edges stay.\<close>

definition configured :: "'w compiled_graph \<Rightarrow> bool" where
  "configured g \<longleftrightarrow> (\<exists>sg g0. built sg \<and> compile_graph sg = Inr g0 \<and> cg_nodes g = cg_nodes g0 \<and> cg_edges g = cg_edges g0)"

lemma edge_ok_cong: "cg_nodes g = cg_nodes g0 \<Longrightarrow> edge_ok g e = edge_ok g0 e"
  by (cases e) simp_all

lemma configured_ok:
  assumes "configured g"
  shows "graph_ok g"
proof -
  obtain sg g0 where c: "built sg" "compile_graph sg = Inr g0" "cg_nodes g = cg_nodes g0" "cg_edges g = cg_edges g0"
    using assms by (auto simp: configured_def)
  with compile_graph_ok [OF c(2) built_entries [OF c(1)]] edge_ok_cong [OF c(3)] show ?thesis by (simp add: graph_ok_def)
qed

lemma diamond_built: "built (diamond_of r)"
  unfolding diamond_of_def by (intro built.intros)

lemma diamond_compiles: "compile_graph (diamond_of (writes_one ''y'')) = Inr diamond"
proof -
  have "(case compile_graph (diamond_of (writes_one ''y'') :: demo_world state_graph) of Inr _ \<Rightarrow> True | Inl _ \<Rightarrow> False)"
    by code_simp
  then show ?thesis by (simp add: diamond_def compiled_def split: sum.splits)
qed

lemma diamond_configured: "configured diamond" "configured saved_diamond"
  using diamond_built diamond_compiles by (auto simp: configured_def saved_diamond_def)

section \<open>The frontier and the joins\<close>


definition diamond_entry :: "string list \<times> executor" where
  "diamond_entry = (case entry_frontier demo_engine diamond 0 (executor_new\<lparr>ex_state := []\<rparr>) of Inr r \<Rightarrow> r | Inl _ \<Rightarrow> ([], executor_new))"

definition diamond_step :: "executor \<times> demo_world \<Rightarrow> executor \<times> demo_world" where
  "diamond_step s = (case run_step demo_engine diamond demo_config (fst s) (snd s) of Continues ex w \<Rightarrow> (ex, w) | Returned _ ex w \<Rightarrow> (ex, w))"


lemma joins_restore:
  assumes "joins_of ex = joins_of ex'"
  shows "joins_of (restore_checkpoint g now cp ex) = joins_of (restore_checkpoint g now cp ex')"
  using assms
  by (auto simp: restore_checkpoint_def restore_paused_def restore_fan_in_def joins_eq Let_def split: option.split cp_metadata.split)

lemma new_restart: "ex_restart (executor_new\<lparr>ex_head := h, ex_state := st, ex_step := n\<rparr>) = False"
  by (simp add: executor_new_def)

lemma resume_ok:
  assumes "try_resume_from_checkpoint en g c input executor_new w = (Inr True, ex, w')"
  shows "\<exists>cp w1 now. load_start g c w = (Inr (Some cp), w1) \<and> joins_of ex = joins_of (restore_checkpoint g now cp executor_new)"
proof -
  from assms obtain cp w1 h w2 where l: "load_start g c w = (Inr (Some cp), w1)" "start_head g c cp w1 = (Inr h, w2)"
    by (auto simp: try_resume_from_checkpoint_def Let_def split: prod.splits sum.splits option.splits)
  let ?ex = "executor_new\<lparr>ex_head := h, ex_state := gc_state cp, ex_step := gc_step cp\<rparr>"
  from assms l have "joins_of ex = joins_of (restore_checkpoint g (en_clock en w2) cp ?ex)"
    by (simp add: try_resume_from_checkpoint_def Let_def new_restart) (metis joins_updates(1))
  also have "\<dots> = joins_of (restore_checkpoint g (en_clock en w2) cp executor_new)" by (rule joins_restore) simp
  finally show ?thesis using l(1) by blast
qed


definition diamond_run :: "graph_state gresult \<times> executor \<times> demo_world" where
  "diamond_run = graph_run demo_engine diamond demo_config [] executor_new demo_world0"


section \<open>Completion order\<close>

text \<open>C9: the order in which the nodes of a super-step finish does not show: two engines whose dispatches
  return the same results in any order, and leave the same world, take a run through the same steps to
  the same outcome.\<close>

theorem completion_order_irrelevant:
  assumes "configured g" "dispatches en" "same_results en d" "exec_ok g ex"
  shows "run_loop (dispatching d en) g c ex w = run_loop en g c ex w"
  using assms
proof (induction en g c ex w rule: run_loop.induct)
  case (1 en g c ex w)
  have same: "run_step (dispatching d en) g c ex w = run_step en g c ex w"
    using "1.prems" by (intro run_step_order) (simp_all add: exec_ok_def frontier_ok_def)
  show ?case
  proof (cases "run_step en g c ex w")
    case (Continues ex1 w1)
    with "1.IH" [OF Continues "1.prems"(1-3)] run_step_ok [OF configured_ok [OF "1.prems"(1)] "1.prems"(4) Continues] same
    show ?thesis by (simp add: run_loop.simps [of _ g c ex w])
  next
    case (Returned r ex1 w1)
    with same show ?thesis by (simp add: run_loop.simps [of _ g c ex w])
  qed
qed

theorem completion_order_irrelevant_witness:
  "run_loop (dispatching in_reverse demo_engine) diamond demo_config (executor_new\<lparr>ex_pending := [''a'', ''b'']\<rparr>) demo_world0 =
   run_loop demo_engine diamond demo_config (executor_new\<lparr>ex_pending := [''a'', ''b'']\<rparr>) demo_world0"
proof (rule completion_order_irrelevant [OF diamond_configured(1) demo_dispatches demo_reverse])
  have "keys (cg_nodes diamond) = [''a'', ''b'', ''j'']" by code_simp
  then show "exec_ok diamond (executor_new\<lparr>ex_pending := [''a'', ''b'']\<rparr>)"
    by (simp add: exec_ok_def frontier_ok_def executor_new_def fan_ok_def lasting_def)
qed

section \<open>The step limit\<close>

lemma anchor_failed: "checkpoint_failed_step en g c ex w = (ex', w') \<Longrightarrow> anchor ex' = anchor ex"
proof -
  obtain r1 ex1 w1 where "save_checkpoint en g c ex w = (r1, ex1, w1)" by (metis surj_pair)
  moreover obtain r2 ex2 w2 where "await_inflight g ex w = (r2, ex2, w2)" by (metis surj_pair)
  ultimately show "checkpoint_failed_step en g c ex w = (ex', w') \<Longrightarrow> ?thesis"
    using anchor_save [of en g c ex w] anchor_await [of g ex w] by (auto simp: checkpoint_failed_step_def split: if_splits)
qed

lemma paused_run_step: "paused_run en g c res ex w = Returned r ex' w' \<Longrightarrow> anchor ex' = anchor ex"
  by (auto simp: paused_run_def dest!: anchor_pause anchor_save split: sum.splits prod.splits)

lemma completed_returned:
  assumes "completed_step en g c res ex w = Returned r ex' w'"
  shows "ex_step ex' \<le> Suc (ex_step ex)"
proof (cases "advance_frontier en g (en_clock en w) res [] (rearm_gate (sr_executed res) ex)")
  case (Inl e)
  with assms have "ex' = rearm_gate (sr_executed res) ex" by (simp add: completed_step_def)
  with anchor_rearm [of "sr_executed res" ex] show ?thesis by (simp add: anchor_def)
next
  case (Inr p)
  obtain frontier ex3 where p: "p = (frontier, ex3)" by fastforce
  let ?ex4 = "settle_child_ledger [] (ex3\<lparr>ex_pending := frontier\<rparr>)"
  let ?ex5 = "?ex4\<lparr>ex_paused := [n \<leftarrow> ex_paused ?ex4. n \<notin> set (sr_executed res)], ex_step := Suc (ex_step ?ex4)\<rparr>"
  have "anchor ?ex4 = anchor ex" using anchor_advance [OF Inr [unfolded p]] by simp
  then have "ex_step ?ex5 = Suc (ex_step ex)" by (simp add: anchor_def)
  moreover obtain e where "checkpoint_step en g c ?ex5 w = (e, ex', w')"
    using assms Inr p by (auto simp: completed_step_def Let_def split: prod.splits sum.splits)
  ultimately show ?thesis using anchor_checkpoint_step by (fastforce simp: anchor_def)
qed

lemma returned_bounded:
  assumes "run_step en g c ex w = Returned r ex' w'"
  shows "ex_step ex' \<le> max (ex_step ex) (ex_run_start ex + recursion_limit g c)"
proof (cases "ex_pending ex = [] \<or> recursion_limit g c \<le> ex_step ex - ex_run_start ex")
  case True
  with assms anchor_finish [of en g c ex w] show ?thesis
    by (fastforce simp: run_step_def anchor_def split: if_splits prod.splits sum.splits)
next
  case False
  then have room: "Suc (ex_step ex) \<le> ex_run_start ex + recursion_limit g c" by linarith
  obtain q ex1 w1 where f: "flush_before_side_effects en g c ex w = (q, ex1, w1)" by (metis surj_pair)
  obtain r2 ex2 w2 where s: "execute_super_step en g c ex1 w1 = (r2, ex2, w2)" by (metis surj_pair)
  have a: "anchor ex1 = anchor ex" "anchor ex2 = anchor ex" using anchor_flush [OF f] anchor_super_step [OF s] by simp_all
  show ?thesis
  proof (cases q)
    case (Inl e)
    with assms False f a(1) show ?thesis by (simp add: run_step_def anchor_def)
  next
    case (Inr u)
    show ?thesis
    proof (cases r2)
      case (Inl e)
      obtain ex3 w3 where "checkpoint_failed_step en g c ex2 w2 = (ex3, w3)" by (metis surj_pair)
      with assms False f s Inl Inr a(2) anchor_failed [OF this] show ?thesis by (simp add: run_step_def anchor_def)
    next
      case (Inr res)
      with assms False f s \<open>q = Inr u\<close> have "paused_run en g c res ex2 w2 = Returned r ex' w' \<or> completed_step en g c res ex2 w2 = Returned r ex' w'"
        by (simp add: run_step_def split: if_splits)
      then have "ex_step ex' \<le> Suc (ex_step ex2)"
        using paused_run_step [of en g c res ex2 w2 r ex' w'] completed_returned [of en g c res ex2 w2 r ex' w'] by (auto simp: anchor_def)
      with room a(2) show ?thesis by (simp add: anchor_def)
    qed
  qed
qed


definition circle :: "demo_world compiled_graph" where
  "circle = compiled (add_edge ''a'' ''a'' (add_edge START ''a'' (add_node ''a'' (demo_node (Inr node_output_new)) (state_graph_new []))))"

definition circle_run :: "graph_state gresult \<times> executor \<times> demo_world" where
  "circle_run = run_loop demo_engine circle (demo_config\<lparr>xc_recursion_limit := Some 2\<rparr>)
     (executor_new\<lparr>ex_pending := [''a'']\<rparr>) demo_world0"


section \<open>Gates\<close>

text \<open>When a node of the frontier has a gate that was not answered, no node of the frontier runs: the step
  changes neither the world nor the executor and reports the gate.\<close>
lemma gate_holds_the_step:
  assumes "n \<in> set (ex_pending ex)" "n \<in> set (cg_interrupt_before g)" "ex_cleared ex \<noteq> Some n"
  shows "\<exists>m. m \<in> set (ex_pending ex) \<and> m \<in> set (cg_interrupt_before g) \<and>
    execute_super_step en g c ex w =
      (Inr \<lparr>sr_executed = [], sr_interrupts = [(m, BeforeNode m)], sr_goto = [], sr_updates = []\<rparr>, ex, w)"
proof -
  let ?held = "\<lambda>n. n \<in> set (cg_interrupt_before g) \<and> ex_cleared ex \<noteq> Some n"
  have "find ?held (ex_pending ex) \<noteq> None" unfolding find_None_iff using assms by blast
  then obtain m where m: "find ?held (ex_pending ex) = Some m" by blast
  then obtain i where "i < length (ex_pending ex)" "m = ex_pending ex ! i" "?held m" unfolding find_Some_iff by metis
  then have "m \<in> set (ex_pending ex) \<and> m \<in> set (cg_interrupt_before g)" using nth_mem by blast
  moreover have "gate_before g ex = Some (m, BeforeNode m)" by (simp add: gate_before_def m)
  then have "execute_super_step en g c ex w =
      (Inr \<lparr>sr_executed = [], sr_interrupts = [(m, BeforeNode m)], sr_goto = [], sr_updates = []\<rparr>, ex, w)"
    unfolding execute_super_step_def by (simp only: option.case)
  ultimately show ?thesis by blast
qed

end
