(* ===== verification/Graph_Failure.thy ===== *)
theory Graph_Failure
  imports Graph_Props
begin

text \<open>
  A super-step that fails: what its other nodes finished is kept with the executor, so that a checkpoint
  written then carries it and the nodes that finished do not run again.
\<close>

section \<open>Collecting the results of a dispatch\<close>

definition unfinished :: "executor \<Rightarrow> string list" where
  "unfinished ex = [n \<leftarrow> ex_pending ex. lookup (ex_writes ex) n = None]"

definition finished_write :: "node_output \<Rightarrow> pending_write" where
  "finished_write out = \<lparr>pw_updates = no_updates out, pw_goto = no_goto out, pw_goto_parent = no_goto_parent out\<rparr>"

text \<open>The handler of a node that failed, unless its error is an interrupt, recovers.\<close>

definition recovers :: "'w compiled_graph \<Rightarrow> graph_state \<Rightarrow> node_result \<Rightarrow> bool" where
  "recovers g st = (\<lambda>(n, r, a).
     (case r of
        Some (Inl e) \<Rightarrow> (case error_handler_for g n of Some h \<Rightarrow> is_interrupted e \<or> (case h n e st of Inr _ \<Rightarrow> True | Inl _ \<Rightarrow> False) | None \<Rightarrow> True)
      | _ \<Rightarrow> True))"

definition fails :: "'w compiled_graph \<Rightarrow> node_result \<Rightarrow> bool" where
  "fails g = (\<lambda>(n, r, a). (case r of Some (Inl e) \<Rightarrow> is_interrupted e \<or> error_handler_for g n = None | _ \<Rightarrow> False))"

text \<open>What collecting one result changes of what was collected.\<close>

definition collected :: "'w compiled_graph \<Rightarrow> node_result \<Rightarrow> executor \<times> step_acc \<Rightarrow> executor \<times> step_acc \<Rightarrow> bool" where
  "collected g = (\<lambda>(n, r, a) (ex, acc) (ex', acc').
     ex_state ex' = ex_state ex \<and> ex_writes ex' = ex_writes ex \<and> ex_pending ex' = ex_pending ex \<and>
     (\<forall>k. k \<noteq> n \<longrightarrow> lookup (sc_writes acc') k = lookup (sc_writes acc) k \<and> lookup (ex_attempts ex') k = lookup (ex_attempts ex) k) \<and>
     (\<forall>out. r = Some (Inr out) \<and> no_interrupt out = None \<longrightarrow> lookup (sc_writes acc') n = Some (finished_write out)) \<and>
     (\<forall>e. r = Some (Inl e) \<longrightarrow> lookup (ex_attempts ex') n = Some a) \<and>
     (sc_failure acc' = None \<longleftrightarrow> sc_failure acc = None \<and> \<not> fails g (n, r, a)))"

lemma collect_result_collected:
  assumes "recovers g (ex_state ex) (n, r, a)"
  shows "\<exists>s'. collect_result en g (n, r, a) (ex, acc) = (None, s') \<and> collected g (n, r, a) (ex, acc) s'"
proof (cases r)
  case None
  then show ?thesis by (simp add: collect_result_def collected_def fails_def)
next
  case (Some res)
  show ?thesis
  proof (cases res)
    case (Inr out)
    with Some show ?thesis
      by (auto simp: collect_result_def collected_def fails_def collect_write_def finished_write_def Let_def split: option.splits)
  next
    case (Inl e)
    with Some assms show ?thesis
      by (auto simp: collect_result_def collected_def fails_def recovers_def collect_write_def Let_def
          split: option.splits sum.splits)
  qed
qed

definition all_collected :: "'w compiled_graph \<Rightarrow> node_result list \<Rightarrow> executor \<times> step_acc \<Rightarrow> executor \<times> step_acc \<Rightarrow> bool" where
  "all_collected g rs = (\<lambda>(ex, acc) (ex', acc').
     ex_state ex' = ex_state ex \<and> ex_writes ex' = ex_writes ex \<and> ex_pending ex' = ex_pending ex \<and>
     (\<forall>k. k \<notin> fst ` set rs \<longrightarrow> lookup (sc_writes acc') k = lookup (sc_writes acc) k) \<and>
     (\<forall>k. k \<notin> fst ` set rs \<longrightarrow> lookup (ex_attempts ex') k = lookup (ex_attempts ex) k) \<and>
     (\<forall>n out a. (n, Some (Inr out), a) \<in> set rs \<and> no_interrupt out = None \<longrightarrow> lookup (sc_writes acc') n = Some (finished_write out)) \<and>
     (\<forall>n e a. (n, Some (Inl e), a) \<in> set rs \<longrightarrow> lookup (ex_attempts ex') n = Some a) \<and>
     (sc_failure acc' = None \<longleftrightarrow> sc_failure acc = None \<and> \<not> list_ex (fails g) rs))"

lemma all_collected_Cons:
  assumes "collected g r s s1" "all_collected g rs s1 s'" "fst r \<notin> fst ` set rs"
  shows "all_collected g (r # rs) s s'"
proof -
  obtain n x a ex acc ex1 acc1 ex' acc' where e: "r = (n, x, a)" "s = (ex, acc)" "s1 = (ex1, acc1)" "s' = (ex', acc')"
    by (metis surj_pair)
  have one: "ex_state ex1 = ex_state ex" "ex_writes ex1 = ex_writes ex" "ex_pending ex1 = ex_pending ex"
    "\<And>k. k \<noteq> n \<Longrightarrow> lookup (sc_writes acc1) k = lookup (sc_writes acc) k"
    "\<And>k. k \<noteq> n \<Longrightarrow> lookup (ex_attempts ex1) k = lookup (ex_attempts ex) k"
    "\<And>out. x = Some (Inr out) \<Longrightarrow> no_interrupt out = None \<Longrightarrow> lookup (sc_writes acc1) n = Some (finished_write out)"
    "\<And>e. x = Some (Inl e) \<Longrightarrow> lookup (ex_attempts ex1) n = Some a"
    "sc_failure acc1 = None \<longleftrightarrow> sc_failure acc = None \<and> \<not> fails g (n, x, a)"
    using assms(1) by (simp_all add: collected_def e)
  have rest: "ex_state ex' = ex_state ex1" "ex_writes ex' = ex_writes ex1" "ex_pending ex' = ex_pending ex1"
    "\<And>k. k \<notin> fst ` set rs \<Longrightarrow> lookup (sc_writes acc') k = lookup (sc_writes acc1) k"
    "\<And>k. k \<notin> fst ` set rs \<Longrightarrow> lookup (ex_attempts ex') k = lookup (ex_attempts ex1) k"
    "\<And>k out b. (k, Some (Inr out), b) \<in> set rs \<Longrightarrow> no_interrupt out = None \<Longrightarrow> lookup (sc_writes acc') k = Some (finished_write out)"
    "\<And>k e b. (k, Some (Inl e), b) \<in> set rs \<Longrightarrow> lookup (ex_attempts ex') k = Some b"
    "sc_failure acc' = None \<longleftrightarrow> sc_failure acc1 = None \<and> \<not> list_ex (fails g) rs"
    using assms(2) unfolding all_collected_def e prod.case by blast+
  have n: "n \<notin> fst ` set rs" using assms(3) by (simp add: e)
  have w: "lookup (sc_writes acc') k = Some (finished_write out)"
    if "(k, Some (Inr out), b) \<in> set ((n, x, a) # rs)" "no_interrupt out = None" for k out b
  proof (cases "(k, Some (Inr out), b) \<in> set rs")
    case False
    with that(1) have "k = n" "x = Some (Inr out)" by simp_all
    with one(6) that(2) rest(4) [OF n] show ?thesis by simp
  qed (use rest(6) that(2) in blast)
  have at: "lookup (ex_attempts ex') k = Some b" if "(k, Some (Inl er), b) \<in> set ((n, x, a) # rs)" for k er b
  proof (cases "(k, Some (Inl er), b) \<in> set rs")
    case False
    with that(1) have "k = n" "x = Some (Inl er)" "a = b" by simp_all
    with one(7) rest(5) [OF n] show ?thesis by simp
  qed (use rest(7) in blast)
  have f: "sc_failure acc' = None \<longleftrightarrow> sc_failure acc = None \<and> \<not> list_ex (fails g) ((n, x, a) # rs)"
    using one(8) rest(8) by simp
  have k: "lookup (sc_writes acc') k = lookup (sc_writes acc) k" "lookup (ex_attempts ex') k = lookup (ex_attempts ex) k"
    if "k \<notin> fst ` set ((n, x, a) # rs)" for k
    using that one(4,5) [of k] rest(4,5) [of k] by simp_all
  show ?thesis
    unfolding all_collected_def e prod.case using w at f k one(1-3) rest(1-3) by presburger
qed

lemma collect_results_collected:
  assumes "distinct (map fst rs)" "\<forall>r \<in> set rs. recovers g (ex_state ex) r"
  shows "\<exists>s'. collect_results en g rs (ex, acc) = (None, s') \<and> all_collected g rs (ex, acc) s'"
  using assms
proof (induction rs arbitrary: ex acc)
  case Nil
  then show ?case by (simp add: all_collected_def)
next
  case (Cons r rs)
  obtain n x a where r: "r = (n, x, a)" by (metis surj_pair)
  with Cons.prems(2) have "recovers g (ex_state ex) (n, x, a)" by simp
  from collect_result_collected [OF this, of en acc] obtain ex1 acc1 where
    c: "collect_result en g r (ex, acc) = (None, (ex1, acc1))" "collected g r (ex, acc) (ex1, acc1)" by (auto simp: r)
  have "ex_state ex1 = ex_state ex" using c(2) by (simp add: collected_def r)
  with Cons obtain s' where "collect_results en g rs (ex1, acc1) = (None, s')" "all_collected g rs (ex1, acc1) s'"
    by (metis distinct.simps(2) list.set_intros(2) list.simps(9))
  with c all_collected_Cons [OF c(2)] Cons.prems(1) show ?case by auto
qed

section \<open>The frontier's finished nodes\<close>

lemma same_goto: "\<exists>ts. ex = ex\<lparr>ex_goto_parent := ts\<rparr>"
  by (rule exI [of _ "ex_goto_parent ex"]) simp

lemma collect_write_goto: "\<exists>ts acc'. collect_write n wr (ex, acc) = (ex\<lparr>ex_goto_parent := ts\<rparr>, acc') \<and>
    sc_failure acc' = sc_failure acc \<and> lookup (sc_writes acc') = (lookup (sc_writes acc))(n \<mapsto> wr)"
proof (cases "pw_goto_parent wr")
  case None
  with same_goto [of ex] show ?thesis by (fastforce simp: collect_write_def)
qed (auto simp: collect_write_def)

lemma split_frontier_finished:
  assumes "split_frontier ns (ex, acc) = (to_run, ex1, acc1)"
  shows "to_run = [n \<leftarrow> ns. lookup (ex_writes ex) n = None] \<and> (\<exists>ts. ex1 = ex\<lparr>ex_goto_parent := ts\<rparr>) \<and>
    sc_failure acc1 = sc_failure acc \<and>
    (\<forall>k. lookup (sc_writes acc1) k = (if k \<in> set ns \<and> lookup (ex_writes ex) k \<noteq> None then lookup (ex_writes ex) k else lookup (sc_writes acc) k))"
  using assms
proof (induction ns arbitrary: ex acc to_run)
  case Nil
  with same_goto [of ex] show ?case by auto
next
  case (Cons n ns)
  show ?case
  proof (cases "lookup (ex_writes ex) n")
    case None
    with Cons.prems obtain tr where s: "split_frontier ns (ex, acc) = (tr, ex1, acc1)" "to_run = n # tr"
      by (auto split: prod.splits)
    from Cons.IH [OF s(1)] None s(2) show ?thesis by auto
  next
    case (Some wr)
    obtain ts acc2 where c: "collect_write n wr (ex, acc) = (ex\<lparr>ex_goto_parent := ts\<rparr>, acc2)"
      "sc_failure acc2 = sc_failure acc" "lookup (sc_writes acc2) = (lookup (sc_writes acc))(n \<mapsto> wr)"
      using collect_write_goto by blast
    with Cons.prems Some have s: "split_frontier ns (ex\<lparr>ex_goto_parent := ts\<rparr>, acc2) = (to_run, ex1, acc1)" by simp
    from Cons.IH [OF s] c Some show ?thesis by auto
  qed
qed

lemma task_goto: "task_for g c (ex\<lparr>ex_goto_parent := ts\<rparr>) = task_for g c ex"
  by (intro ext) (simp add: task_for_def node_context_for_def)

lemma tasks_goto [simp]: "step_tasks g c (ex\<lparr>ex_goto_parent := ts\<rparr>) = step_tasks g c ex"
  by (intro ext) (unfold step_tasks_def task_goto, rule refl)

section \<open>The step\<close>


definition failing_diamond :: "demo_world compiled_graph" where
  "failing_diamond = compiled (diamond_of (Inl (NodeNotFound ''z'')))"

definition failing_start :: executor where
  "failing_start = executor_new\<lparr>ex_pending := [''a'', ''b'']\<rparr>"

definition failing_outs :: "node_result list \<times> child_ledger \<times> demo_world" where
  "failing_outs = en_dispatch demo_engine (step_concurrency failing_diamond (length (unfinished failing_start)))
     (step_tasks failing_diamond demo_config failing_start (unfinished failing_start)) (ex_ledger failing_start, demo_world0)"


end
