(* ===== verification/Graph_Resume.thy ===== *)
theory Graph_Resume
  imports Graph_Failure
begin

text \<open>
  Saving and resuming. What follows from the contract of a checkpointer is proved once for every store
  that keeps it, and read off for the in-memory store: a run whose thread another writer advanced saves
  nothing more and stops, and resuming from what a run saved continues with the executor that saved it.
\<close>

lemma map_sum_Inr: "map_sum f g x = Inr i \<longleftrightarrow> (\<exists>y. x = Inr y \<and> g y = i)"
  by (cases x) auto

section \<open>Writes to any store\<close>

text \<open>The engine's fresh identifiers leave the store alone.\<close>

definition keeps_store :: "('w \<Rightarrow> string \<Rightarrow> graph_checkpoint list) \<Rightarrow> ('w \<Rightarrow> bool) \<Rightarrow> 'w engine \<Rightarrow> bool" where
  "keeps_store stored good en \<longleftrightarrow>
     (\<forall>w. good w \<longrightarrow> good (snd (en_new_id en w)) \<and> stored (snd (en_new_id en w)) = stored w)"

lemma built_checkpoint:
  assumes "build_checkpoint en c ex w = (cp, ex', w')"
  shows "w' = snd (en_new_id en w)" "ex' = ex\<lparr>ex_head := Suc (ex_head ex)\<rparr>" "gc_version cp = Suc (ex_head ex)"
    "gc_thread_id cp = xc_thread_id c" "gc_state cp = ex_state ex" "gc_step cp = ex_step ex" "gc_pending_nodes cp = ex_pending ex"
    "gc_cleared_interrupt cp = ex_cleared ex" "gc_attempts cp = ex_attempts ex" "gc_child_ledger cp = ex_ledger ex"
    "gc_pending_writes cp = ex_writes ex" "gc_metadata cp = checkpoint_metadata (en_clock en w') (ex\<lparr>ex_head := Suc (ex_head ex)\<rparr>)"
  using assms by (auto simp: build_checkpoint_def checkpoint_new_def Let_def split: prod.splits)

context checkpoint_contract
begin

lemma write_refused:
  assumes "good w" "gc_version cp \<le> head_version (stored w (gc_thread_id cp))" "write_checkpoint ck p cp w = (r, w')"
  shows "(\<exists>e. r = Inl e) \<and> good w' \<and> stored w' = stored w"
proof -
  obtain q w1 where s: "ck_save ck cp w = (q, w1)" by (metis surj_pair)
  from stale_save_refused [OF assms(1,2) s] obtain e where "q = Inl e" "good w1" "stored w1 = stored w" by blast
  with assms(3) s show ?thesis by (auto simp: write_checkpoint_def)
qed

lemma write_kept:
  assumes "good w" "write_checkpoint ck p cp w = (Inr i, w')"
  shows "good w' \<and> i = gc_checkpoint_id cp \<and> newest_of (stored w' (gc_thread_id cp)) = Some cp"
proof -
  from assms(2) obtain w1 where s: "ck_save ck cp w = (Inr i, w1)"
    and p: "w' = w1 \<or> (\<exists>p q. ck_prune ck (gc_thread_id cp) p w1 = (q, w'))"
    by (auto simp: write_checkpoint_def map_sum_Inr split: prod.splits sum.splits option.splits)
  from saved [OF assms(1) s] have "good w1" "i = gc_checkpoint_id cp" "newest_of (stored w1 (gc_thread_id cp)) = Some cp"
    by (simp_all add: newest_of_def)
  with p pruned show ?thesis by metis
qed

lemma save_refused:
  assumes "good w" "keeps_store stored good en" "cg_checkpointer g = Some ck" "ex_inflight ex = None"
    and "ex_head ex < head_version (stored w (xc_thread_id c))" "save_checkpoint en g c ex w = (r, ex', w')"
  shows "(\<exists>e. r = Inl e) \<and> stored w' = stored w"
proof -
  obtain cp ex1 w1 where b: "build_checkpoint en c ex w = (cp, ex1, w1)" by (metis surj_pair)
  have w1: "good w1" "stored w1 = stored w" and cp: "gc_version cp = Suc (ex_head ex)" "gc_thread_id cp = xc_thread_id c"
    using assms(1,2) built_checkpoint [OF b] by (simp_all add: keeps_store_def)
  obtain q w2 where wr: "write_checkpoint ck (cg_retention g) cp w1 = (q, w2)" by (metis surj_pair)
  have "ex\<lparr>ex_inflight := None\<rparr> = ex" using assms(4) by (intro executor.equality) simp_all
  with assms(3,4,6) b wr have "r = q" "w' = w2" by (simp_all add: save_checkpoint_def await_inflight_def)
  with write_refused [OF w1(1) _ wr] assms(5) show ?thesis by (simp add: w1(2) cp)
qed

lemma save_kept:
  assumes "good w" "keeps_store stored good en" "cg_checkpointer g = Some ck" "ex_inflight ex = None"
    and "save_checkpoint en g c ex w = (Inr i, ex', w')"
  shows "good w' \<and> (\<exists>cp ex1 w1. build_checkpoint en c ex w = (cp, ex1, w1) \<and> ex' = ex1\<lparr>ex_unsaved := False\<rparr> \<and>
    newest_of (stored w' (xc_thread_id c)) = Some cp)"
proof -
  obtain cp ex1 w1 where b: "build_checkpoint en c ex w = (cp, ex1, w1)" by (metis surj_pair)
  have w1: "good w1" and cp: "gc_thread_id cp = xc_thread_id c"
    using assms(1,2) built_checkpoint [OF b] by (simp_all add: keeps_store_def)
  have "ex\<lparr>ex_inflight := None\<rparr> = ex" using assms(4) by (intro executor.equality) simp_all
  with assms(3-5) b have wr: "write_checkpoint ck (cg_retention g) cp w1 = (Inr i, w')" "ex' = ex1\<lparr>ex_unsaved := False\<rparr>"
    by (auto simp: save_checkpoint_def await_inflight_def split: prod.splits)
  from write_kept [OF w1 wr(1)] b wr(2) cp show ?thesis by auto
qed

end

section \<open>A run left behind\<close>

text \<open>Neither fresh identifiers nor the nodes of a graph write to the store of its checkpoints.\<close>

definition spares_store :: "(memory_store \<times> 'b) compiled_graph \<Rightarrow> (memory_store \<times> 'b) engine \<Rightarrow> bool" where
  "spares_store g en \<longleftrightarrow>
     (\<forall>w. fst (snd (en_new_id en w)) = fst w) \<and>
     (\<forall>n ts l w. (\<forall>t \<in> set ts. lookup (cg_nodes g) (tk_name t) = Some (tk_node t)) \<longrightarrow>
        fst (snd (snd (en_dispatch en n ts (l, w)))) = fst w)"

lemma spared_keeps: "spares_store g en \<Longrightarrow> keeps_store shelved shelf_ok en"
  by (simp add: spares_store_def keeps_store_def shelf_ok_def shelved_def fun_eq_iff)

lemma step_tasks_nodes: "t \<in> set (step_tasks g c ex ns) \<Longrightarrow> lookup (cg_nodes g) (tk_name t) = Some (tk_node t)"
proof -
  have "\<forall>t \<in> set (List.map_filter (\<lambda>n. map_option (task_for g c ex n) (lookup (cg_nodes g) n)) xs).
      lookup (cg_nodes g) (tk_name t) = Some (tk_node t)" for xs
    by (induction xs) (auto simp: map_filter_simps task_for_def split: option.splits)
  then show "t \<in> set (step_tasks g c ex ns) \<Longrightarrow> ?thesis" by (simp add: step_tasks_def)
qed

lemma super_step_spares:
  assumes "spares_store g en" "execute_super_step en g c ex w = (r, ex', w')"
  shows "fst w' = fst w"
proof (cases "gate_before g ex")
  case None
  obtain to_run ex1 acc where s: "split_frontier (ex_pending ex) (ex, step_acc_new) = (to_run, ex1, acc)" by (metis surj_pair)
  obtain outs l w1 where o: "en_dispatch en (step_concurrency g (length to_run)) (step_tasks g c ex1 to_run) (ex_ledger ex1, w) = (outs, l, w1)"
    by (metis surj_pair)
  have "w' = w1" using assms(2) None s o
    by (auto simp: execute_super_step_def Let_def split: prod.splits option.splits)
  moreover have "fst (snd (snd (en_dispatch en (step_concurrency g (length to_run)) (step_tasks g c ex1 to_run) (ex_ledger ex1, w)))) = fst w"
    using assms(1) step_tasks_nodes unfolding spares_store_def by blast
  ultimately show ?thesis by (simp add: o)
qed (use assms(2) in \<open>simp add: execute_super_step_def\<close>)

lemma sync_flush:
  assumes "ex_inflight ex = None" "\<not> ex_unsaved ex"
  shows "flush_before_side_effects en g c ex w = (Inr (), ex, w)"
proof -
  have "ex\<lparr>ex_inflight := None\<rparr> = ex" using assms(1) by (intro executor.equality) simp_all
  with assms show ?thesis by (simp add: flush_before_side_effects_def finish_checkpoints_def await_inflight_def)
qed

text \<open>Every save of an executor at version \<open>h\<close> in the world \<open>w\<close> is refused and leaves the store as it was.\<close>

definition refusing ::
    "(memory_store \<times> 'b) engine \<Rightarrow> (memory_store \<times> 'b) compiled_graph \<Rightarrow> execution_config \<Rightarrow> nat \<Rightarrow> (memory_store \<times> 'b) \<Rightarrow> bool" where
  "refusing en g c h w \<longleftrightarrow>
     (\<forall>ex q ex' w'. ex_inflight ex = None \<longrightarrow> ex_head ex = h \<longrightarrow> save_checkpoint en g c ex w = (q, ex', w') \<longrightarrow>
        (\<exists>e. q = Inl e) \<and> shelved w' = shelved w)"

lemma refusingD:
  "refusing en g c h w \<Longrightarrow> ex_inflight ex = None \<Longrightarrow> ex_head ex = h \<Longrightarrow> save_checkpoint en g c ex w = (q, ex', w') \<Longrightarrow>
   (\<exists>e. q = Inl e) \<and> shelved w' = shelved w"
  unfolding refusing_def by blast

lemma frame_kept: "frame ex' = frame ex \<Longrightarrow> ex_inflight ex = None \<Longrightarrow> ex_head ex = h \<Longrightarrow> ex_inflight ex' = None \<and> ex_head ex' = h"
  by (simp add: frame_def)

lemma refused_failed:
  assumes "refusing en g c h w" "ex_inflight ex = None" "ex_head ex = h"
  shows "shelved (snd (checkpoint_failed_step en g c ex w)) = shelved w"
proof -
  obtain q ex' w' where v: "save_checkpoint en g c ex w = (q, ex', w')" by (metis surj_pair)
  from refusingD [OF assms v] v assms(2) show ?thesis by (simp add: checkpoint_failed_step_def await_inflight_def)
qed

lemma refused_paused:
  assumes "refusing en g c h w" "ex_inflight ex = None" "ex_head ex = h"
  shows "\<exists>e ex' w'. paused_run en g c res ex w = Returned (Inl e) ex' w' \<and> shelved w' = shelved w"
proof (cases "pause_frontier en g (en_clock en w) res ex")
  case p: (Inr ex3)
  obtain q ex4 w3 where v: "save_checkpoint en g c ex3 w = (q, ex4, w3)" by (metis surj_pair)
  from frame_kept [OF frame_pause [OF p] assms(2,3)] refusingD [OF assms(1) _ _ v]
  obtain e where "q = Inl e" "shelved w3 = shelved w" by blast
  with p v show ?thesis by (simp add: paused_run_def)
qed (simp add: paused_run_def)

lemma refused_completed:
  assumes "refusing en g c h w" "ex_inflight ex = None" "ex_head ex = h"
    and "cg_checkpointer g = Some ck" "xc_durability c = DurableSync"
  shows "\<exists>e ex' w'. completed_step en g c res ex w = Returned (Inl e) ex' w' \<and> shelved w' = shelved w"
proof (cases "advance_frontier en g (en_clock en w) res [] (rearm_gate (sr_executed res) ex)")
  case a: (Inr p)
  obtain frontier ex3 where p: "p = (frontier, ex3)" by fastforce
  let ?ex4 = "settle_child_ledger [] (ex3\<lparr>ex_pending := frontier\<rparr>)"
  let ?ex5 = "?ex4\<lparr>ex_paused := [n \<leftarrow> ex_paused ?ex4. n \<notin> set (sr_executed res)], ex_step := Suc (ex_step ?ex4)\<rparr>"
  obtain q ex6 w3 where v: "save_checkpoint en g c ?ex5 w = (q, ex6, w3)" by (metis surj_pair)
  have "frame ?ex4 = frame ex" using frame_advance [OF a [unfolded p]] by simp
  from frame_kept [OF this assms(2,3)] have "ex_inflight ?ex5 = None" "ex_head ?ex5 = h" by simp_all
  from refusingD [OF assms(1) this v] obtain e where "q = Inl e" "shelved w3 = shelved w" by blast
  then show ?thesis
    using a p v assms(4,5) by (simp add: completed_step_def checkpoint_step_def unit_of_def Let_def)
qed (simp add: completed_step_def)


section \<open>A run resumed\<close>

lemma received_arrivals:
  assumes "distinct (keys r)"
  shows "List.map_filter (\<lambda>s. map_option (Pair s) (lookup r s)) (keys r) = r"
proof -
  have "List.map_filter (\<lambda>s. map_option (Pair s) (lookup t s)) (keys r) = r" if "\<forall>(k, v) \<in> set r. lookup t k = Some v" for t
    using that by (induction r) (auto simp: map_filter_simps)
  moreover have "\<forall>(k, v) \<in> set r. lookup r k = Some v" using map_of_is_SomeI [OF assms] by blast
  ultimately show ?thesis by blast
qed

lemma update_new_key: "k \<notin> fst ` set t \<Longrightarrow> AList.update k v t = t @ [(k, v)]"
  by (induction t) auto

lemma records_append:
  assumes "keys (ft_received t) = ft_order t" "distinct (ft_order t @ keys r)"
  shows "fold (\<lambda>(s, v). fan_in_record s v) r t = t\<lparr>ft_received := ft_received t @ r, ft_order := ft_order t @ keys r\<rparr>"
  using assms
proof (induction r arbitrary: t)
  case (Cons p r)
  obtain s v where p: "p = (s, v)" by fastforce
  have k: "set (keys (ft_received t)) = set (ft_order t)" using Cons.prems(1) by simp
  have new: "s \<notin> fst ` set (ft_received t)" using Cons.prems(2) k by (simp add: p)
  then have "lookup (ft_received t) s = None" using lookup_None_keys [of "ft_received t" s] by simp
  with update_new_key [OF new] have r: "fan_in_record s v t = t\<lparr>ft_received := ft_received t @ [(s, v)], ft_order := ft_order t @ [s]\<rparr>"
    by (simp add: fan_in_record_def)
  have "fold (\<lambda>(s, v). fan_in_record s v) r (fan_in_record s v t) =
      (fan_in_record s v t)\<lparr>ft_received := ft_received (fan_in_record s v t) @ r, ft_order := ft_order (fan_in_record s v t) @ keys r\<rparr>"
    by (rule Cons.IH) (use Cons.prems in \<open>simp_all add: r p\<close>)
  then show ?case by (simp add: p r)
qed simp

lemma tracker_restored:
  assumes "tracker_ok up t"
  shows "fold (\<lambda>(s, v). fan_in_record s v) (List.map_filter (\<lambda>s. map_option (Pair s) (lookup (ft_received t) s)) (ft_order t))
    (fan_in_tracker_new up) = t"
proof -
  have t: "keys (ft_received t) = ft_order t" "distinct (ft_order t)" "ft_expected t = remdups up"
    using assms by (simp_all add: tracker_ok_def)
  then have "List.map_filter (\<lambda>s. map_option (Pair s) (lookup (ft_received t) s)) (ft_order t) = ft_received t"
    using received_arrivals [of "ft_received t"] by simp
  with t records_append [of "fan_in_tracker_new up" "ft_received t"] show ?thesis
    by (simp add: fan_in_tracker_new_def)
qed

lemma start_restored:
  assumes "start \<le> now" "now \<le> (later :: instant)"
  shows "later - max 0 (later - (now - max 0 (now - start))) = start"
  using assms by simp

lemma fan_in_roundtrip:
  assumes "fan_ok g ex" "lasting ex" "\<forall>(n, t) \<in> set (ex_started ex). t \<le> now" "now \<le> later"
    and "fan_in_capture now (ex_deferred ex) (ex_started ex) (ex_abandoned ex) = Some snap"
  shows "fan_in_restore later (get_upstream_nodes g) snap =
    \<lparr>rf_trackers = ex_deferred ex, rf_started = ex_started ex, rf_abandoned = ex_abandoned ex\<rparr>"
proof -
  note ok = fan_okD [OF assms(1)]
  let ?since = "\<lambda>n. now - (case lookup (ex_started ex) n of Some start \<Rightarrow> max 0 (now - start) | None \<Rightarrow> 0)"
  let ?arr = "\<lambda>t. List.map_filter (\<lambda>s. map_option (Pair s) (lookup (ft_received t) s)) (ft_order t)"
  have snap: "fs_nodes snap = map (\<lambda>(n, t). (n, \<lparr>pf_arrivals = ?arr t, pf_waiting_since = ?since n\<rparr>)) (ex_deferred ex)"
    "fs_abandoned snap = map (\<lambda>(n, sources). (n, sort sources)) (filter (\<lambda>(_, sources). sources \<noteq> []) (ex_abandoned ex))"
    using assms(5) by (auto simp: fan_in_capture_def split: if_splits)
  have "map (\<lambda>(n, t). (n, fold (\<lambda>(s, v). fan_in_record s v) (?arr t) (fan_in_tracker_new (get_upstream_nodes g n)))) (ex_deferred ex) =
      map id (ex_deferred ex)"
    using tracker_restored [OF ok(4)] by (intro map_cong refl) (auto simp: mem_lookup [OF ok(2)])
  then have "map (\<lambda>(n, p). (n, fold (\<lambda>(s, v). fan_in_record s v) (pf_arrivals p) (fan_in_tracker_new (get_upstream_nodes g n)))) (fs_nodes snap) =
      ex_deferred ex"
    by (simp add: snap(1) comp_def case_prod_unfold)
  moreover have "map (\<lambda>(n, p). (n, later - max 0 (later - pf_waiting_since p))) (fs_nodes snap) = ex_started ex"
  proof -
    have "map (\<lambda>(n, p). (n, later - max 0 (later - pf_waiting_since p))) (fs_nodes snap) =
        map (\<lambda>n. (n, later - max 0 (later - ?since n))) (keys (ex_started ex))"
      unfolding ok(1) by (simp add: snap(1) comp_def case_prod_unfold)
    also have "\<dots> = map id (ex_started ex)"
      unfolding map_map
    proof (intro map_cong refl)
      fix p assume p: "p \<in> set (ex_started ex)"
      obtain n t where e: "p = (n, t)" by fastforce
      have d: "distinct (keys (ex_started ex))" unfolding ok(1) by (rule ok(2))
      from p have l: "lookup (ex_started ex) n = Some t" unfolding e mem_lookup [OF d] .
      from p assms(3) have "t \<le> now" unfolding e by blast
      from start_restored [OF this assms(4)] show "((\<lambda>n. (n, later - max 0 (later - ?since n))) \<circ> fst) p = id p"
        unfolding e comp_def fst_conv l option.case id_def by simp
    qed
    finally show ?thesis by simp
  qed
  moreover have "fs_abandoned snap = ex_abandoned ex"
  proof -
    have "filter (\<lambda>(_, sources). sources \<noteq> []) (ex_abandoned ex) = ex_abandoned ex"
      using assms(2) unfolding lasting_def filter_id_conv .
    moreover have "map (\<lambda>(n, sources). (n, sort sources)) (ex_abandoned ex) = map id (ex_abandoned ex)"
    proof (intro map_cong refl)
      fix p assume p: "p \<in> set (ex_abandoned ex)"
      obtain n ss where e: "p = (n, ss)" by fastforce
      from p have "lookup (ex_abandoned ex) n = Some ss" unfolding e mem_lookup [OF ok(5)] .
      from ok(6) [OF this] have "sorted ss" ..
      then show "(case p of (n, sources) \<Rightarrow> (n, sort sources)) = id p" by (simp add: e sorted_sort_id)
    qed
    ultimately show ?thesis by (simp add: snap(2))
  qed
  ultimately show ?thesis by (simp add: fan_in_restore_def)
qed

text \<open>What of an executor a new run of the thread does not take over.\<close>

definition resumed :: "executor \<Rightarrow> executor" where
  "resumed ex = ex\<lparr>ex_goto_parent := None, ex_restart := False, ex_run_start := 0, ex_inflight := None, ex_unsaved := False\<rparr>"

lemma metadata_keys: "fan_in_metadata_key \<noteq> paused_nodes_metadata_key"
  by (simp add: fan_in_metadata_key_def paused_nodes_metadata_key_def)

lemma metadata_lookup:
  "lookup (checkpoint_metadata now ex) fan_in_metadata_key =
     map_option MetaFanIn (fan_in_capture now (ex_deferred ex) (ex_started ex) (ex_abandoned ex))"
  "lookup (checkpoint_metadata now ex) paused_nodes_metadata_key = (if ex_paused ex = [] then None else Some (MetaPaused (ex_paused ex)))"
  using metadata_keys by (auto simp: checkpoint_metadata_def split: option.split)

lemma nothing_captured:
  assumes "fan_ok g ex" "lasting ex" "fan_in_capture now (ex_deferred ex) (ex_started ex) (ex_abandoned ex) = None"
  shows "ex_deferred ex = [] \<and> ex_started ex = [] \<and> ex_abandoned ex = []"
proof -
  have d: "ex_deferred ex = []" and a: "list_all (\<lambda>(_, sources). sources = []) (ex_abandoned ex)"
    using assms(3) by (auto simp: fan_in_capture_def split: if_splits)
  from a assms(2) have "ex_abandoned ex = []" by (cases "ex_abandoned ex") (auto simp: lasting_def)
  with d fan_okD(1) [OF assms(1)] show ?thesis by simp
qed

lemma restored_executor:
  assumes "fan_ok g ex" "lasting ex" "\<forall>(n, t) \<in> set (ex_started ex). t \<le> en_clock en w'" "en_clock en w' \<le> later"
    and "build_checkpoint en c ex w = (cp, ex', w')"
  shows "restore_checkpoint g later cp (executor_new\<lparr>ex_head := gc_version cp, ex_state := gc_state cp, ex_step := gc_step cp\<rparr>) = resumed ex'"
proof -
  note cp = built_checkpoint [OF assms(5)]
  let ?ex0 = "executor_new\<lparr>ex_head := gc_version cp, ex_state := gc_state cp, ex_step := gc_step cp,
    ex_pending := gc_pending_nodes cp, ex_cleared := gc_cleared_interrupt cp, ex_attempts := gc_attempts cp,
    ex_ledger := gc_child_ledger cp, ex_writes := gc_pending_writes cp\<rparr>"
  have fan: "restore_fan_in g later cp ?ex0 =
      ?ex0\<lparr>ex_deferred := ex_deferred ex, ex_started := ex_started ex, ex_abandoned := ex_abandoned ex\<rparr>"
  proof (cases "fan_in_capture (en_clock en w') (ex_deferred ex) (ex_started ex) (ex_abandoned ex)")
    case None
    with nothing_captured [OF assms(1,2) None] show ?thesis
      by (simp add: restore_fan_in_def cp(12) metadata_lookup executor_new_def)
  next
    case (Some snap)
    with fan_in_roundtrip [OF assms(1-4) Some] show ?thesis
      by (simp add: restore_fan_in_def cp(12) metadata_lookup)
  qed
  have "restore_paused cp ex1 = ex1\<lparr>ex_paused := ex_paused ex\<rparr>" if "ex_paused ex1 = []" for ex1
    using that by (auto simp: restore_paused_def cp(12) metadata_lookup intro: executor.equality)
  then show ?thesis
    using fan by (simp add: restore_checkpoint_def resumed_def cp executor_new_def)
qed

text \<open>C8: resuming continues where the run stopped: a new run of the thread reads the checkpoint the last save
  stored and starts from the executor that saved it: the same state, step, frontier, waiting joins with
  their arrivals and start times, abandoned predecessors, attempts, child ledger, finished writes,
  answered gate and paused nodes, and the version it must raise.\<close>

theorem resume_restores_executor:
  fixes w :: "memory_store \<times> 'b"
  assumes "cg_checkpointer g = Some (shelf clock)" "shelf_ok w" "spares_store g en" "ex_inflight ex = None"
    and "fan_ok g ex" "lasting ex" "\<forall>(n, t) \<in> set (ex_started ex). t \<le> en_clock en (snd (en_new_id en w))"
    and "save_checkpoint en g c ex w = (Inr cid, ex', w')"
    and "en_clock en (snd (en_new_id en w)) \<le> en_clock en w'" "xc_thread_id c' = xc_thread_id c" "xc_resume_from c' = None"
  shows "try_resume_from_checkpoint en g c' [] executor_new w' = (Inr True, resumed ex', w')"
proof -
  from shelf.save_kept [OF assms(2) spared_keeps [OF assms(3)] assms(1,4,8)] obtain cp ex1 w1 where
    b: "build_checkpoint en c ex w = (cp, ex1, w1)" and ex': "ex' = ex1\<lparr>ex_unsaved := False\<rparr>"
    and new: "newest_of (shelved w' (xc_thread_id c)) = Some cp" by blast
  have load: "load_start g c' w' = (Inr (Some cp), w')"
    using assms(1,10,11) new by (simp add: load_start_def shelf_sel memory_load_def shelved_def)
  have w1: "w1 = snd (en_new_id en w)" using built_checkpoint(1) [OF b] .
  have "restore_checkpoint g (en_clock en w') cp
      (executor_new\<lparr>ex_head := gc_version cp, ex_state := gc_state cp, ex_step := gc_step cp\<rparr>) = resumed ex1"
    using restored_executor [OF assms(5,6) _ _ b] assms(7,9) by (simp add: w1)
  with load show ?thesis
    using assms(11)
    by (simp add: try_resume_from_checkpoint_def start_head_def Let_def new_restart apply_input_def ex' resumed_def)
qed

section \<open>Witnesses\<close>

lemma timed_still:
  assumes "gn_limited nd = (\<lambda>_ _ _ s. (Inr r, s))"
  shows "snd (timed_attempts m nd cx p a s) = s"
  using assms
  by (induction m nd cx p a s rule: timed_attempts.induct)
    (subst timed_attempts.simps, auto simp: execute_once_with_timeout_def split: sum.splits graph_error.splits on_timeout.splits)

lemma attempt_still: "tk_node t = demo_node r \<Longrightarrow> snd (attempt_node t s) = s"
  by (auto simp: attempt_node_def execute_with_timeout_def demo_node_def intro!: timed_still split: option.split)

lemma alone_still: "(\<And>s. snd (att t s) = s) \<Longrightarrow> snd (attempts_alone att t a s) = s"
proof (induction att t a s rule: attempts_alone.induct)
  case (1 att t a s)
  obtain q where q: "att t s = (q, s)" using "1.prems" [of s] by (metis prod.collapse)
  with 1 show ?case by (cases q) (simp_all add: attempts_alone.simps [of att t a s])
qed

lemma in_order_still: "(\<And>t s. t \<in> set ts \<Longrightarrow> snd (att t s) = s) \<Longrightarrow> snd (dispatch_in_order att f ts s) = s"
proof (induction ts arbitrary: f)
  case (Cons t ts)
  have "snd (attempts_alone att t (tk_spent t) s) = s" using Cons.prems by (intro alone_still) simp
  then obtain q a where "attempts_alone att t (tk_spent t) s = ((q, a), s)" by (metis prod.collapse)
  moreover have "snd (dispatch_in_order att h ts s) = s" for h using Cons by simp
  ultimately show ?case by (auto split: prod.split) (metis snd_conv)+
qed simp

lemma compile_nodes: "compile_graph sg = Inr g \<Longrightarrow> cg_nodes g = sg_nodes sg"
  by (auto simp: compile_graph_def split: option.splits)

lemma built_nodes:
  "sg_nodes (add_edge s d sg) = sg_nodes sg" "sg_nodes (add_node n nd sg) = AList.update n nd (sg_nodes sg)"
  "sg_nodes (state_graph_new sch) = []"
  by (simp_all add: add_edge_def add_node_def state_graph_new_def Let_def split: edge_target.split)

lemma diamond_nodes: "lookup (cg_nodes saved_diamond) n = Some nd \<Longrightarrow> \<exists>r. nd = demo_node r"
proof -
  have "cg_nodes saved_diamond = sg_nodes (diamond_of (writes_one ''y''))"
    using compile_nodes [OF diamond_compiles] by (simp add: saved_diamond_def)
  then show "lookup (cg_nodes saved_diamond) n = Some nd \<Longrightarrow> ?thesis"
    unfolding diamond_of_def built_nodes lookup_update by (auto split: if_splits)
qed

lemma diamond_spares: "spares_store saved_diamond demo_engine"
  unfolding spares_store_def
proof (intro conjI allI impI)
  fix n l and ts :: "demo_world node_task list" and w :: demo_world
  assume ts: "\<forall>t \<in> set ts. lookup (cg_nodes saved_diamond) (tk_name t) = Some (tk_node t)"
  have "snd (dispatch_in_order attempt_node False ts (l, w)) = (l, w)"
    by (rule in_order_still) (use ts diamond_nodes attempt_still in metis)
  then show "fst (snd (snd (en_dispatch demo_engine n ts (l, w)))) = fst w"
    by (simp add: demo_engine_def in_order_def)
qed (simp add: demo_engine_def demo_id_def)

text \<open>The diamond after its first step, saved; and another run of the thread that is one version behind.\<close>

definition saved_start :: executor where
  "saved_start = executor_new\<lparr>ex_pending := [''j''], ex_step := 1\<rparr>"

definition saved_result :: "string gresult \<times> executor \<times> demo_world" where
  "saved_result = save_checkpoint demo_engine saved_diamond demo_config saved_start demo_world0"

lemma start_fits: "fan_ok g saved_start" "lasting saved_start"
  by (simp_all add: saved_start_def executor_new_def fan_ok_def lasting_def)

lemma empty_shelf: "shelf_ok demo_world0"
  using memory_ok_empty by (simp add: shelf_ok_def demo_world0_def)

theorem resume_restores_executor_witness:
  "try_resume_from_checkpoint demo_engine saved_diamond demo_config [] executor_new (snd (snd saved_result)) =
     (Inr True, resumed (fst (snd saved_result)), snd (snd saved_result)) \<and> ex_step (resumed (fst (snd saved_result))) = 1"
proof -
  have "(case fst saved_result of Inr _ \<Rightarrow> True | Inl _ \<Rightarrow> False)" by code_simp
  then obtain cid where "fst saved_result = Inr cid" by (cases "fst saved_result") auto
  then have s: "save_checkpoint demo_engine saved_diamond demo_config saved_start demo_world0 =
      (Inr cid, fst (snd saved_result), snd (snd saved_result))"
    by (metis prod.collapse saved_result_def)
  have g: "cg_checkpointer saved_diamond = Some (shelf demo_clock)" by (simp add: saved_diamond_def)
  have i: "ex_inflight saved_start = None" by (simp add: saved_start_def executor_new_def)
  have t: "\<forall>(n, t) \<in> set (ex_started saved_start). t \<le> en_clock demo_engine (snd (en_new_id demo_engine demo_world0))"
    by (simp add: saved_start_def executor_new_def)
  have l: "en_clock demo_engine (snd (en_new_id demo_engine demo_world0)) \<le> en_clock demo_engine (snd (snd saved_result))"
    by code_simp
  have r: "xc_resume_from demo_config = None" by code_simp
  have "ex_step (fst (snd saved_result)) = 1" by code_simp
  then have "ex_step (resumed (fst (snd saved_result))) = 1" by (simp add: resumed_def)
  with resume_restores_executor [OF g empty_shelf diamond_spares i start_fits t s l refl r] show ?thesis by blast
qed


end
