(* ===== verification/Graph_Reach.thy ===== *)
theory Graph_Reach
  imports Graph_Resume
begin

text \<open>
  The questions the executor answers by search: which nodes can still run, which decides whether a join
  goes on waiting for a predecessor, and what a concurrent dispatch returns.
\<close>

section \<open>Reachability\<close>

definition steps_to :: "graph_edge list \<Rightarrow> (string \<Rightarrow> bool) \<Rightarrow> (string \<times> string) set" where
  "steps_to es blocked = {(n, m). m \<in> set (edge_list_successors es n) \<and> \<not> blocked m}"

text \<open>
  The loop adds to \<open>seen\<close> what the stack reaches: sound, since what it pushes is one step away, and
  complete, since every successor of a seen node is seen or on the stack.
\<close>

definition closed_up_to :: "graph_edge list \<Rightarrow> (string \<Rightarrow> bool) \<Rightarrow> string list \<Rightarrow> string list \<Rightarrow> bool" where
  "closed_up_to es blocked stack seen \<longleftrightarrow> steps_to es blocked `` set seen \<subseteq> set seen \<union> set stack"

lemma reach_loop_sound:
  "set (reach_loop es blocked stack seen) \<subseteq> (steps_to es blocked)\<^sup>* `` set stack \<union> set seen"
proof (induction es blocked stack seen rule: reach_loop.induct)
  case (2 es blocked n stack seen)
  let ?R = "steps_to es blocked"
  define new where "new = rev [m \<leftarrow> edge_list_successors es n. \<not> blocked m \<and> m \<notin> set (n # seen)]"
  show ?case
  proof (cases "n \<in> set seen")
    case False
    have "set new \<subseteq> ?R `` {n}" by (auto simp: steps_to_def new_def)
    then have step: "?R\<^sup>* `` set new \<subseteq> ?R\<^sup>* `` {n}" by (auto intro: converse_rtrancl_into_rtrancl)
    have stacks: "?R\<^sup>* `` set (new @ stack) = ?R\<^sup>* `` set new \<union> ?R\<^sup>* `` set stack"
      "?R\<^sup>* `` set (n # stack) = ?R\<^sup>* `` {n} \<union> ?R\<^sup>* `` set stack"
      unfolding set_append Image_Un [symmetric] by simp_all
    have "set (reach_loop es blocked (n # stack) seen) = set (reach_loop es blocked (new @ stack) (n # seen))"
      using False by (simp add: new_def)
    also have "\<dots> \<subseteq> ?R\<^sup>* `` set (new @ stack) \<union> set (n # seen)" by (rule 2(2) [OF False, folded new_def])
    also have "\<dots> \<subseteq> ?R\<^sup>* `` set (n # stack) \<union> set seen"
      unfolding stacks list.set(2) using step by blast
    finally show ?thesis .
  qed (use 2(1) in auto)
qed simp

lemma reach_loop_closed:
  "closed_up_to es blocked stack seen \<Longrightarrow>
   set seen \<union> set stack \<subseteq> set (reach_loop es blocked stack seen) \<and> closed_up_to es blocked [] (reach_loop es blocked stack seen)"
proof (induction es blocked stack seen rule: reach_loop.induct)
  case (2 es blocked n stack seen)
  let ?new = "rev [m \<leftarrow> edge_list_successors es n. \<not> blocked m \<and> m \<notin> set (n # seen)]"
  show ?case
  proof (cases "n \<in> set seen")
    case True
    with 2(3) have "closed_up_to es blocked stack seen" by (auto simp: closed_up_to_def)
    with 2(1) [OF True] True show ?thesis by auto
  next
    case False
    have "closed_up_to es blocked (?new @ stack) (n # seen)"
      using 2(3) by (auto simp: closed_up_to_def steps_to_def)
    with 2(2) [OF False] False show ?thesis by simp
  qed
qed (simp add: closed_up_to_def)

text \<open>C15: the search of the executor finds exactly the nodes that can still be reached: those at which a path
  from one of the sources ends whose every step follows an edge (any branch of a conditional edge counts)
  to a node that is not blocked. It ends on every graph, cyclic ones included.\<close>

theorem reachable_from_correct:
  "set (reachable_from g blocked sources) = (steps_to (cg_edges g) blocked)\<^sup>* `` set sources"
proof
  let ?R = "steps_to (cg_edges g) blocked"
  show "set (reachable_from g blocked sources) \<subseteq> ?R\<^sup>* `` set sources"
    using reach_loop_sound [of "cg_edges g" blocked "rev sources" "[]"] by (simp add: reachable_from_def)
  let ?S = "set (reachable_from g blocked sources)"
  have "closed_up_to (cg_edges g) blocked (rev sources) []" by (simp add: closed_up_to_def)
  from reach_loop_closed [OF this] have s: "set sources \<subseteq> ?S" and "?R `` ?S \<subseteq> ?S"
    by (simp_all add: reachable_from_def closed_up_to_def)
  then have "?R\<^sup>* `` ?S \<subseteq> ?S" by (simp add: Image_closed_trancl)
  with s show "?R\<^sup>* `` set sources \<subseteq> ?S" by blast
qed

section \<open>What a dispatch returns\<close>

lemma running_bounded:
  assumes "(dispatch_step att n)\<^sup>*\<^sup>* s s'" "length (ds_running s) \<le> n"
  shows "length (ds_running s') \<le> n"
  using assms
proof (induction rule: rtranclp_induct)
  case (step s1 s2)
  from step(2) step.IH [OF step.prems] show ?case
    by (cases rule: dispatch_step.cases) (auto simp: finish_task_def)
qed simp

text \<open>C14: however the tasks of a super-step interleave, at most \<open>n\<close> run at once, and when the dispatch ends every
  task has exactly one result; a task that ran made at least one more attempt than it had spent and no
  more than its retry budget allows, and a task has no result of its own only because another task
  failed beyond recovery.\<close>

theorem dispatch_answers_every_task:
  assumes "(dispatch_step att n)\<^sup>*\<^sup>* (dispatch_start ts w) s"
  shows "length (ds_running s) \<le> n \<and>
    (dispatch_ended s \<longrightarrow>
       mset (map fst (ds_results s)) = mset (map tk_name ts) \<and>
       (\<forall>(m, r, a) \<in> set (ds_results s). \<exists>t \<in> set ts. tk_name t = m \<and>
          (r \<noteq> None \<longrightarrow> tk_spent t < a \<and> a \<le> max (Suc (tk_spent t)) (case tk_retry t of Some p \<Rightarrow> ry_max_attempts p | None \<Rightarrow> 0)) \<and>
          (r = None \<longrightarrow> a = tk_spent t \<and> (\<exists>t' \<in> set ts. \<not> tk_recoverable t' \<and> (\<exists>e b. (tk_name t', Some (Inl e), b) \<in> set (ds_results s))))))"
proof (intro conjI impI)
  show "length (ds_running s) \<le> n"
    by (rule running_bounded [OF assms]) (simp add: dispatch_start_def)
  assume "dispatch_ended s"
  from dispatch_ends_fitting [OF assms this] have fits: "dispatch_fits ts (ds_results s)" .
  then show "mset (map fst (ds_results s)) = mset (map tk_name ts)" by (simp add: dispatch_fits_def)
  have answered: "\<exists>t \<in> set ts. tk_name t = m \<and>
      (r \<noteq> None \<longrightarrow> tk_spent t < a \<and> a \<le> max (Suc (tk_spent t)) (case tk_retry t of Some p \<Rightarrow> ry_max_attempts p | None \<Rightarrow> 0)) \<and>
      (r = None \<longrightarrow> a = tk_spent t \<and> (\<exists>t' \<in> set ts. \<not> tk_recoverable t' \<and> (\<exists>e b. (tk_name t', Some (Inl e), b) \<in> set (ds_results s))))"
    if "(m, r, a) \<in> set (ds_results s)" for m r a
  proof -
    from that fits have "result_within ts (ds_results s) (m, r, a)" by (auto simp: dispatch_fits_def list_all_iff)
    then show ?thesis by (cases r) (auto simp: result_within_def attempts_within_def)
  qed
  show "\<forall>(m, r, a) \<in> set (ds_results s). \<exists>t \<in> set ts. tk_name t = m \<and>
      (r \<noteq> None \<longrightarrow> tk_spent t < a \<and> a \<le> max (Suc (tk_spent t)) (case tk_retry t of Some p \<Rightarrow> ry_max_attempts p | None \<Rightarrow> 0)) \<and>
      (r = None \<longrightarrow> a = tk_spent t \<and> (\<exists>t' \<in> set ts. \<not> tk_recoverable t' \<and> (\<exists>e b. (tk_name t', Some (Inl e), b) \<in> set (ds_results s))))"
    by (intro ballI, clarify) (rule answered)
qed

definition demo_tasks :: "demo_world node_task list" where
  "demo_tasks = step_tasks failing_diamond demo_config failing_start [''a'', ''b'']"

theorem dispatch_answers_every_task_witness:
  "\<exists>s :: demo_world dispatch_state. dispatch_ended s \<and> ds_results s \<noteq> [] \<and> length (ds_running s) \<le> 1 \<and>
     mset (map fst (ds_results s)) = mset (map tk_name demo_tasks)"
proof -
  obtain rs w' where r: "dispatch_in_order attempt_node False demo_tasks ([], demo_world0) = (rs, w')" by (metis surj_pair)
  let ?s0 = "dispatch_start demo_tasks ([], demo_world0)"
  from dispatch_in_order_steps [of attempt_node ?s0 demo_tasks rs w'] r obtain f where
    st: "(dispatch_step (\<lambda>t w p. p = attempt_node t w) 1)\<^sup>*\<^sup>* ?s0
      (?s0\<lparr>ds_waiting := [], ds_failed := f, ds_results := ds_results ?s0 @ rs, ds_world := w'\<rparr>)"
    by (auto simp: dispatch_start_def)
  have "fst (dispatch_in_order attempt_node False demo_tasks ([], demo_world0)) \<noteq> []" by code_simp
  with r have "rs \<noteq> []" by simp
  with dispatch_answers_every_task [OF st] show ?thesis
    by (intro exI [of _ "?s0\<lparr>ds_waiting := [], ds_failed := f, ds_results := ds_results ?s0 @ rs, ds_world := w'\<rparr>"])
      (simp add: dispatch_ended_def dispatch_start_def)
qed

end
