(* ===== verification/Graph_Findings.thy ===== *)
theory Graph_Findings
  imports Graph_Reach
begin

text \<open>
  Three runs on concrete graphs in which the engine does less than its documentation says: a fork that
  forgets what a join has received, an update applied twice, and steps that no checkpoint keeps.
\<close>

section \<open>A fork forgets arrivals\<close>

text \<open>\<open>j\<close> joins \<open>a\<close> with \<open>c\<close>, which runs after \<open>b\<close>; after the first step \<open>j\<close> has heard from \<open>a\<close> alone.\<close>

definition late_graph :: "demo_world compiled_graph" where
  "late_graph =
     (compiled (add_edge ''j'' END (add_edge ''c'' ''j'' (add_edge ''a'' ''j'' (add_edge ''b'' ''c''
       (add_edge START ''b'' (add_edge START ''a''
       (add_node ''j'' (demo_node (Inr node_output_new)) (add_node ''c'' (demo_node (writes_one ''z''))
       (add_node ''b'' (demo_node (writes_one ''y'')) (add_node ''a'' (demo_node (writes_one ''x''))
         (state_graph_new []))))))))))))\<lparr>cg_checkpointer := Some (shelf demo_clock)\<rparr>"

definition late_run :: "graph_state gresult \<times> demo_world" where
  "late_run = invoke demo_engine late_graph [] demo_config demo_world0"

definition forked_run :: "graph_state gresult \<times> demo_world" where
  "forked_run =
     (let (_, w) = fork_at demo_engine (shelf demo_clock) ''t'' 1 ''u'' (snd late_run) in
      invoke demo_engine late_graph [] (execution_config_new ''u'') w)"

theorem fork_forgets_arrivals:
  "(case fst late_run of Inr st \<Rightarrow> lookup st ''j_fan_in'' | Inl _ \<Rightarrow> None) =
     Some (JArray [JObject [(''x'', JBool True)], JObject [(''z'', JBool True)]])"
  "(case fst forked_run of Inr st \<Rightarrow> lookup st ''j_fan_in'' | Inl _ \<Rightarrow> None) =
     Some (JArray [JObject [(''z'', JBool True)]])"
  by code_simp+

section \<open>An update applied twice\<close>

text \<open>Undeclared channels are refused; \<open>a\<close> appends to the declared channel \<open>x\<close>, \<open>b\<close> writes to another.\<close>

definition strict_graph :: "demo_world compiled_graph" where
  "strict_graph =
     (compiled (add_edge ''b'' END (add_edge ''a'' END (add_edge START ''b'' (add_edge START ''a''
       (add_node ''b'' (demo_node (writes_one ''y'')) (add_node ''a'' (demo_node (writes_one ''x''))
         (state_graph_new [(''x'', channel_list ''x'')]))))))))
     \<lparr>cg_checkpointer := Some (shelf demo_clock), cg_strict_channels := True,
      cg_default_retry := Some \<lparr>ry_max_attempts = 1, ry_retry_on = RetryAny\<rparr>\<rparr>"

definition strict_run :: "graph_state gresult \<times> demo_world" where
  "strict_run = invoke demo_engine strict_graph [] demo_config demo_world0"

definition strict_again :: "graph_state gresult \<times> demo_world" where
  "strict_again = invoke demo_engine strict_graph [] demo_config (snd strict_run)"

definition kept_of :: "demo_world \<Rightarrow> (json option \<times> string list) option" where
  "kept_of w = map_option (\<lambda>cp. (lookup (gc_state cp) ''x'', gc_pending_nodes cp)) (newest_of (shelved w ''t''))"

theorem refused_update_half_applied:
  "fst strict_run = Inl (UndeclaredChannel ''b'' ''y'')"
  "kept_of (snd strict_run) = Some (Some (JArray [JBool True]), [''a'', ''b''])"
  "kept_of (snd strict_again) = Some (Some (JArray [JBool True, JBool True]), [''a'', ''b''])"
  by code_simp+

section \<open>Steps no checkpoint keeps\<close>

definition exit_run :: "graph_state gresult \<times> demo_world" where
  "exit_run = invoke demo_engine (circle\<lparr>cg_checkpointer := Some (shelf demo_clock)\<rparr>) []
     (demo_config\<lparr>xc_recursion_limit := Some 2, xc_durability := DurableExit\<rparr>) demo_world0"

theorem limit_loses_unsaved_steps:
  "fst exit_run = Inl (RecursionLimitExceeded 2)" "length (shelved (snd exit_run) ''t'') = 0"
  by code_simp+

end
